(* ===== verification/Prelude.thy ===== *)
theory Prelude
  imports Main "HOL-Library.Log_Nat"
begin

text \<open>
  Shared vocabulary of the development: the values a TypeScript program computes with.

  \<^item> \<open>js_num\<close> is a JavaScript \<open>number\<close>: a finite IEEE-754 double (kept as the rational it
    denotes), the two infinities or NaN. Addition rounds to nearest, ties to even, and
    overflows to infinity, as the language defines it.
  \<^item> \<open>js_val\<close> is the \<open>unknown\<close> the code receives from a parser or an agent.
  \<^item> Strings are \<open>string\<close>; the operations used (equality, prefix, suffix, substring, split)
    mean the same on the UTF-8 bytes of a text as on its UTF-16 units.
\<close>

named_theorems js_simps "evaluation of JavaScript numbers"
named_theorems inv_intros "operations that preserve an invariant"

section \<open>Numbers\<close>

datatype js_num = JFin rat | JPosInf | JNegInf | JNaN

subsection \<open>Rounding to a double\<close>

text \<open>
  A finite double is an integer multiple of \<open>2 ^ -1074\<close>, and so is the exact sum of two
  doubles. Rounding therefore works on an integer count of these units: a count of at most
  53 significant bits is kept, a longer one is rounded to 53 bits.
\<close>

definition unit_exp :: nat where
  "unit_exp = 1074"

definition double_emax :: nat where
  "double_emax = 1024"

definition half_even :: "int \<Rightarrow> int \<Rightarrow> int" where
  "half_even n q =
     (let d = n div q; r = n mod q
      in if 2 * r < q \<or> (2 * r = q \<and> even d) then d else d + 1)"

definition ulp_units :: "int \<Rightarrow> int" where
  "ulp_units n = 2 ^ (floorlog 2 (nat \<bar>n\<bar>) - 53)"

definition round_units :: "int \<Rightarrow> int" where
  "round_units n = sgn n * (half_even \<bar>n\<bar> (ulp_units n) * ulp_units n)"

definition round_double :: "rat \<Rightarrow> rat" where
  "round_double r = of_int (round_units \<lfloor>r * 2 ^ unit_exp\<rfloor>) / 2 ^ unit_exp"

definition to_js :: "rat \<Rightarrow> js_num" where
  "to_js r =
     (let v = round_double r
      in if v \<ge> 2 ^ double_emax then JPosInf else if v \<le> - (2 ^ double_emax) then JNegInf else JFin v)"

fun js_add :: "js_num \<Rightarrow> js_num \<Rightarrow> js_num" where
  "js_add (JFin a) (JFin b) = to_js (a + b)"
| "js_add JNaN _ = JNaN"
| "js_add _ JNaN = JNaN"
| "js_add JPosInf JNegInf = JNaN"
| "js_add JNegInf JPosInf = JNaN"
| "js_add JPosInf _ = JPosInf"
| "js_add _ JPosInf = JPosInf"
| "js_add JNegInf _ = JNegInf"
| "js_add _ JNegInf = JNegInf"

fun js_neg :: "js_num \<Rightarrow> js_num" where
  "js_neg (JFin a) = JFin (- a)"
| "js_neg JPosInf = JNegInf"
| "js_neg JNegInf = JPosInf"
| "js_neg JNaN = JNaN"

definition js_sub :: "js_num \<Rightarrow> js_num \<Rightarrow> js_num" where
  "js_sub a b = js_add a (js_neg b)"

text \<open>Comparisons: every one of them is false on NaN.\<close>

fun js_lt :: "js_num \<Rightarrow> js_num \<Rightarrow> bool" where
  "js_lt (JFin a) (JFin b) = (a < b)"
| "js_lt JNegInf (JFin b) = True"
| "js_lt JNegInf JPosInf = True"
| "js_lt (JFin a) JPosInf = True"
| "js_lt _ _ = False"

fun js_le :: "js_num \<Rightarrow> js_num \<Rightarrow> bool" where
  "js_le (JFin a) (JFin b) = (a \<le> b)"
| "js_le JNegInf (JFin b) = True"
| "js_le JNegInf JNegInf = True"
| "js_le JNegInf JPosInf = True"
| "js_le (JFin a) JPosInf = True"
| "js_le JPosInf JPosInf = True"
| "js_le _ _ = False"

definition js_finite :: "js_num \<Rightarrow> bool" where
  "js_finite n = (case n of JFin _ \<Rightarrow> True | _ \<Rightarrow> False)"

definition js_integer :: "js_num \<Rightarrow> bool" where
  "js_integer n = (case n of JFin r \<Rightarrow> of_int \<lfloor>r\<rfloor> = r | _ \<Rightarrow> False)"

fun js_max :: "js_num \<Rightarrow> js_num \<Rightarrow> js_num" where
  "js_max a b = (if a = JNaN \<or> b = JNaN then JNaN else if js_lt a b then b else a)"

fun js_min :: "js_num \<Rightarrow> js_num \<Rightarrow> js_num" where
  "js_min a b = (if a = JNaN \<or> b = JNaN then JNaN else if js_lt b a then b else a)"

abbreviation js_int :: "int \<Rightarrow> js_num" where
  "js_int i \<equiv> JFin (of_int i)"

lemma js_finite_simps [simp]:
  "js_finite (JFin r)" "\<not> js_finite JPosInf" "\<not> js_finite JNegInf" "\<not> js_finite JNaN"
  by (simp_all add: js_finite_def)

lemma js_finite_iff: "js_finite n \<longleftrightarrow> (\<exists>r. n = JFin r)"
  by (cases n) simp_all

lemma js_le_refl [simp]: "js_le a a \<longleftrightarrow> a \<noteq> JNaN"
  by (cases a) simp_all

lemma js_le_trans: "js_le a b \<Longrightarrow> js_le b c \<Longrightarrow> js_le a c"
  by (cases a; cases b; cases c; simp)

lemma js_lt_le_trans: "js_lt a b \<Longrightarrow> js_le b c \<Longrightarrow> js_lt a c"
  by (cases a; cases b; cases c; simp)

lemma js_le_lt_trans: "js_le a b \<Longrightarrow> js_lt b c \<Longrightarrow> js_lt a c"
  by (cases a; cases b; cases c; simp)

lemma js_not_le: "a \<noteq> JNaN \<Longrightarrow> b \<noteq> JNaN \<Longrightarrow> \<not> js_le a b \<longleftrightarrow> js_lt b a"
  by (cases a; cases b; auto)

lemma js_lt_imp_le: "js_lt a b \<Longrightarrow> js_le a b"
  by (cases a; cases b; simp)

text \<open>Whole numbers up to \<open>2 ^ 53\<close> are added without rounding.\<close>

lemma round_units_exact:
  assumes "ulp_units n dvd n"
  shows "round_units n = n"
proof -
  have pos: "0 < ulp_units n" by (simp add: ulp_units_def)
  have "ulp_units n dvd \<bar>n\<bar>" using assms by simp
  then have "half_even \<bar>n\<bar> (ulp_units n) * ulp_units n = \<bar>n\<bar>"
    using pos by (simp add: half_even_def Let_def mod_eq_0_iff_dvd)
  then show ?thesis by (simp add: round_units_def mult_sgn_abs)
qed

lemma floorlog_scaled:
  assumes "k \<noteq> 0"
  shows "floorlog 2 (nat \<bar>k * 2 ^ s\<bar>) = s + floorlog 2 (nat \<bar>k\<bar>)"
proof -
  have "nat \<bar>k * 2 ^ s\<bar> = nat \<bar>k\<bar> * 2 ^ s"
    by (simp add: abs_mult nat_mult_distrib nat_power_eq)
  then show ?thesis using assms floorlog_power [of "nat \<bar>k\<bar>" 2 s] by simp
qed

lemma ulp_units_scaled:
  assumes "\<bar>k\<bar> \<le> 2 ^ 53"
  shows "ulp_units (k * 2 ^ s) dvd k * 2 ^ s"
proof -
  let ?f = "floorlog 2 (nat \<bar>k\<bar>)"
  consider "k = 0" | "k \<noteq> 0" "?f \<le> 53" | "k \<noteq> 0" "53 < ?f" by linarith
  then show ?thesis
  proof cases
    case 2
    then have "ulp_units (k * 2 ^ s) dvd 2 ^ s"
      unfolding ulp_units_def by (simp add: floorlog_scaled le_imp_power_dvd)
    then show ?thesis by (rule dvd_mult)
  next
    case 3
    have "\<not> nat \<bar>k\<bar> < 2 ^ 53" using 3 floorlog_leI [of "nat \<bar>k\<bar>" 2 53] by auto
    then have ak: "\<bar>k\<bar> = 2 ^ 53" using assms by simp
    have "nat \<bar>k\<bar> < 2 ^ 54" using assms by simp
    then have "?f \<le> 54" using floorlog_leI [of "nat \<bar>k\<bar>" 2 54] by simp
    then have "ulp_units (k * 2 ^ s) dvd 2 ^ Suc s"
      unfolding ulp_units_def using 3 by (intro le_imp_power_dvd) (simp add: floorlog_scaled)
    moreover have "(2::int) ^ Suc s dvd \<bar>k\<bar> * 2 ^ s" unfolding ak by simp
    ultimately have "ulp_units (k * 2 ^ s) dvd \<bar>k\<bar> * 2 ^ s" by (rule dvd_trans)
    also have "\<bar>k\<bar> * 2 ^ s = \<bar>k * 2 ^ s\<bar>" by (simp add: abs_mult)
    finally show ?thesis by simp
  qed simp
qed

lemma to_js_int:
  assumes "\<bar>k\<bar> \<le> 2 ^ 53"
  shows "to_js (of_int k) = JFin (of_int k)"
proof -
  have "(of_int k * 2 ^ unit_exp :: rat) = of_int (k * 2 ^ unit_exp)" by simp
  then have "\<lfloor>of_int k * 2 ^ unit_exp :: rat\<rfloor> = k * 2 ^ unit_exp"
    by (simp only: floor_of_int)
  then have v: "round_double (of_int k) = of_int k"
    using round_units_exact [OF ulp_units_scaled [OF assms]] by (simp add: round_double_def)
  have "of_int \<bar>k\<bar> \<le> (of_int (2 ^ 53) :: rat)" using assms by (rule iffD2 [OF of_int_le_iff])
  also have "\<dots> < 2 ^ double_emax" unfolding double_emax_def by (simp add: power_strict_increasing)
  finally have "\<bar>of_int k\<bar> < (2 ^ double_emax :: rat)" by simp
  then show ?thesis by (simp add: to_js_def v Let_def abs_less_iff)
qed

lemma js_add_int:
  "\<bar>a + b\<bar> \<le> 2 ^ 53 \<Longrightarrow> js_add (JFin (of_int a)) (JFin (of_int b)) = JFin (of_int (a + b))"
  using to_js_int [of "a + b"] by simp

lemma to_js_whole [js_simps]:
  "of_int \<lfloor>r\<rfloor> = r \<Longrightarrow> \<bar>r\<bar> \<le> 9007199254740992 \<Longrightarrow> to_js r = JFin r"
proof -
  assume r: "of_int \<lfloor>r\<rfloor> = r" and le: "\<bar>r\<bar> \<le> 9007199254740992"
  have "of_int \<bar>\<lfloor>r\<rfloor>\<bar> \<le> (of_int 9007199254740992 :: rat)" using le by (simp add: r)
  then have "\<bar>\<lfloor>r\<rfloor>\<bar> \<le> 9007199254740992" by (simp only: of_int_le_iff)
  then have "to_js (of_int \<lfloor>r\<rfloor>) = JFin (of_int \<lfloor>r\<rfloor>)" by (intro to_js_int) simp
  then show ?thesis by (simp add: r)
qed

text \<open>A sum of two non-negative numbers is never negative: rounding keeps the sign.\<close>

lemma half_even_nonneg: "0 \<le> n \<Longrightarrow> 0 < q \<Longrightarrow> 0 \<le> half_even n q"
  by (simp add: half_even_def Let_def pos_imp_zdiv_nonneg_iff add_nonneg_nonneg)

lemma round_units_nonneg: "0 \<le> n \<Longrightarrow> 0 \<le> round_units n"
  by (simp add: round_units_def half_even_nonneg ulp_units_def sgn_if)

lemma round_double_nonneg: "0 \<le> r \<Longrightarrow> 0 \<le> round_double r"
  by (simp add: round_double_def round_units_nonneg)

lemma to_js_nonneg: "0 \<le> r \<Longrightarrow> to_js r = JPosInf \<or> (\<exists>v \<ge> 0. to_js r = JFin v)"
proof -
  assume "0 \<le> r"
  then have "0 \<le> round_double r" by (rule round_double_nonneg)
  moreover have "- (2 ^ double_emax) < (0::rat)" by simp
  ultimately show ?thesis by (auto simp: to_js_def Let_def)
qed

section \<open>Values of unknown shape\<close>

datatype js_val =
    VUndef
  | VNull
  | VBool bool
  | VNum js_num
  | VStr string
  | VArr "js_val list"
  | VObj "(string \<times> js_val) list"

text \<open>\<open>v['k']\<close> on a record: \<open>undefined\<close> when the key is absent.\<close>

definition fields_get :: "(string \<times> js_val) list \<Rightarrow> string \<Rightarrow> js_val" where
  "fields_get fs k = (case map_of fs k of Some v \<Rightarrow> v | None \<Rightarrow> VUndef)"

fun val_get :: "js_val \<Rightarrow> string \<Rightarrow> js_val" where
  "val_get (VObj fs) k = fields_get fs k"
| "val_get _ k = VUndef"

fun is_record :: "js_val \<Rightarrow> bool" where
  "is_record (VObj _) = True"
| "is_record _ = False"

text \<open>\<open>typeof v === 'object' && v !== null\<close>: records and arrays.\<close>

fun is_object :: "js_val \<Rightarrow> bool" where
  "is_object (VObj _) = True"
| "is_object (VArr _) = True"
| "is_object _ = False"

text \<open>\<open>typeof v === 'string'\<close>.\<close>

fun is_str :: "js_val \<Rightarrow> bool" where
  "is_str (VStr _) = True"
| "is_str _ = False"

text \<open>\<open>v ?? d\<close>.\<close>

definition nullish :: "js_val \<Rightarrow> js_val \<Rightarrow> js_val" where
  "nullish v d = (if v = VUndef \<or> v = VNull then d else v)"

text \<open>\<open>a === b\<close> on values read from JSON: objects and arrays have identities of their own, NaN differs
  from itself.\<close>

fun strict_eq :: "js_val \<Rightarrow> js_val \<Rightarrow> bool" where
  "strict_eq (VNum a) (VNum b) = (a = b \<and> a \<noteq> JNaN)"
| "strict_eq (VArr _) _ = False"
| "strict_eq (VObj _) _ = False"
| "strict_eq a b = (a = b)"

lemma strict_eq_num: "strict_eq v (VNum n) \<longleftrightarrow> v = VNum n \<and> n \<noteq> JNaN"
  by (cases v) auto

lemma strict_eq_str: "strict_eq v (VStr s) \<longleftrightarrow> v = VStr s"
  by (cases v) auto

text \<open>A payload is a record's fields in order.\<close>

type_synonym payload = "(string \<times> js_val) list"

abbreviation vint :: "int \<Rightarrow> js_val" where
  "vint i \<equiv> VNum (JFin (of_int i))"

section \<open>Strings and lists\<close>

definition str_prefix :: "string \<Rightarrow> string \<Rightarrow> bool" where
  "str_prefix p s \<longleftrightarrow> take (length p) s = p"

definition str_suffix :: "string \<Rightarrow> string \<Rightarrow> bool" where
  "str_suffix p s \<longleftrightarrow> length p \<le> length s \<and> drop (length s - length p) s = p"

fun str_includes :: "string \<Rightarrow> string \<Rightarrow> bool" where
  "str_includes [] p = (p = [])"
| "str_includes (c # cs) p = (str_prefix p (c # cs) \<or> str_includes cs p)"

fun join :: "string \<Rightarrow> string list \<Rightarrow> string" where
  "join sep [] = []"
| "join sep [s] = s"
| "join sep (s # ss) = s @ sep @ join sep ss"

text \<open>\<open>[...new Set(xs)]\<close>: the distinct elements in order of first occurrence.\<close>

definition uniq :: "'a list \<Rightarrow> 'a list" where
  "uniq xs = rev (remdups (rev xs))"

lemma set_uniq [simp]: "set (uniq xs) = set xs"
  by (simp add: uniq_def)

lemma distinct_uniq [simp]: "distinct (uniq xs)"
  by (simp add: uniq_def)

text \<open>
  \<open>String(v)\<close>. The decimal rendering of a number is an argument.
\<close>

fun js_String :: "(js_num \<Rightarrow> string) \<Rightarrow> js_val \<Rightarrow> string" where
  "js_String shw VUndef = ''undefined''"
| "js_String shw VNull = ''null''"
| "js_String shw (VBool b) = (if b then ''true'' else ''false'')"
| "js_String shw (VNum n) = shw n"
| "js_String shw (VStr s) = s"
| "js_String shw (VArr vs) =
     join '','' (map (\<lambda>v. if v = VUndef \<or> v = VNull then [] else js_String shw v) vs)"
| "js_String shw (VObj fs) = ''[object Object]''"

text \<open>Decimal digits of a count, as a template string renders it.\<close>

fun nat_str :: "nat \<Rightarrow> string" where
  "nat_str n = (if n < 10 then [char_of (48 + n)] else nat_str (n div 10) @ [char_of (48 + n mod 10)])"

declare nat_str.simps [simp del]

text \<open>\<open>trim\<close> and the ASCII white space it strips.\<close>

definition is_ws :: "char \<Rightarrow> bool" where
  "is_ws c \<longleftrightarrow> of_char c \<in> {9, 10, 11, 12, 13, 32 :: nat}"

definition trim :: "string \<Rightarrow> string" where
  "trim s = rev (dropWhile is_ws (rev (dropWhile is_ws s)))"

section \<open>Errors as values\<close>

text \<open>A throwing expression is a sum; \<open>e_bind\<close> is sequencing, \<open>e_map\<close> maps a throwing function
  over an array, stopping at the first throw.\<close>

definition e_bind :: "'e + 'a \<Rightarrow> ('a \<Rightarrow> 'e + 'b) \<Rightarrow> 'e + 'b" where
  "e_bind r f = (case r of Inl e \<Rightarrow> Inl e | Inr a \<Rightarrow> f a)"

fun e_map :: "('a \<Rightarrow> 'e + 'b) \<Rightarrow> 'a list \<Rightarrow> 'e + 'b list" where
  "e_map f [] = Inr []"
| "e_map f (x # xs) = e_bind (f x) (\<lambda>y. e_bind (e_map f xs) (\<lambda>ys. Inr (y # ys)))"

lemma e_bind_simps [simp]: "e_bind (Inl e) f = Inl e" "e_bind (Inr a) f = f a"
  by (simp_all add: e_bind_def)

lemma e_bind_Inr_iff: "e_bind r f = Inr b \<longleftrightarrow> (\<exists>a. r = Inr a \<and> f a = Inr b)"
  by (cases r) simp_all

lemma e_bind_Inl_iff: "e_bind r f = Inl e \<longleftrightarrow> r = Inl e \<or> (\<exists>a. r = Inr a \<and> f a = Inl e)"
  by (cases r) auto

lemma e_map_Inr_iff: "e_map f xs = Inr ys \<longleftrightarrow> list_all2 (\<lambda>x y. f x = Inr y) xs ys"
  by (induction xs arbitrary: ys) (auto simp: e_bind_Inr_iff list_all2_Cons1)

lemma e_map_source: "e_map f xs = Inr ys \<Longrightarrow> y \<in> set ys \<Longrightarrow> \<exists>x \<in> set xs. f x = Inr y"
  by (induction xs arbitrary: ys) (auto simp: e_bind_Inr_iff)

lemma e_map_reaches: "e_map f xs = Inr ys \<Longrightarrow> x \<in> set xs \<Longrightarrow> \<exists>y \<in> set ys. f x = Inr y"
  by (induction xs arbitrary: ys) (auto simp: e_bind_Inr_iff)

lemma e_map_size: "e_map f xs = Inr ys \<Longrightarrow> length ys = length xs"
  by (induction xs arbitrary: ys) (auto simp: e_bind_Inr_iff)

end
