(* ===== verification/CoreTypes.thy ===== *)
theory CoreTypes
  imports Prelude
begin

text \<open>
  The vocabulary of \<open>core/src/types.ts\<close>: roles, the action language, structured
  rejections, task states, event types and gate reports, with the names the code writes
  into its event payloads.
\<close>

section \<open>Roles and actions\<close>

datatype role = Planner | TestDesigner | Implementer | Diagnostician | Reviewer

datatype network_grant = NetNone | NetAllowlist string

datatype action =
    WriteFile (act_id: string) (act_path: string) (act_content_ref: string)
  | ApplyPatch (act_id: string) (act_diff_ref: string)
  | RunCommand (act_id: string) (act_cmd: string) (act_cwd: "string option")
      (act_network: network_grant) (act_timeout: "int option")
  | ReadFile (act_id: string) (act_path: string)
  | RequestTool (act_id: string) (act_tool: string) (act_args: js_val)

datatype (plugins only: code size) rejection_reason =
    RPathOutsideAllowlist | RGoldenWriteDenied | RSchemaViolation | RSandboxUnavailable
  | RSandboxViolation | RNetworkGrantUnavailable | RCommandRoleDenied
  | ROfflineDependencyUnavailable | RPackageInstallDenied | RCommandArtifactUnavailable
  | RCommandDiffRejected | RRedArtifactFrozen | RCommandFailed | REvidenceInvalid
  | RPatchMalformed | RPatchUnsupported | RPatchConflict | RPatchNoop | RInvalidRequest
  | RTimedOut | RCancelled | ROutputLimit | RUnsupportedActionPhase0
  | RNetworkPolicyDenied | RDepthExceeded | RContextViolation

fun reason_name :: "rejection_reason \<Rightarrow> string" where
  "reason_name RPathOutsideAllowlist = ''path_outside_allowlist''"
| "reason_name RGoldenWriteDenied = ''golden_write_denied''"
| "reason_name RSchemaViolation = ''schema_violation''"
| "reason_name RSandboxUnavailable = ''sandbox_unavailable''"
| "reason_name RSandboxViolation = ''sandbox_violation''"
| "reason_name RNetworkGrantUnavailable = ''network_grant_unavailable''"
| "reason_name RCommandRoleDenied = ''command_role_denied''"
| "reason_name ROfflineDependencyUnavailable = ''offline_dependency_unavailable''"
| "reason_name RPackageInstallDenied = ''package_install_denied''"
| "reason_name RCommandArtifactUnavailable = ''command_artifact_unavailable''"
| "reason_name RCommandDiffRejected = ''command_diff_rejected''"
| "reason_name RRedArtifactFrozen = ''red_artifact_frozen''"
| "reason_name RCommandFailed = ''command_failed''"
| "reason_name REvidenceInvalid = ''evidence_invalid''"
| "reason_name RPatchMalformed = ''patch_malformed''"
| "reason_name RPatchUnsupported = ''patch_unsupported''"
| "reason_name RPatchConflict = ''patch_conflict''"
| "reason_name RPatchNoop = ''patch_noop''"
| "reason_name RInvalidRequest = ''invalid_request''"
| "reason_name RTimedOut = ''timed_out''"
| "reason_name RCancelled = ''cancelled''"
| "reason_name ROutputLimit = ''output_limit''"
| "reason_name RUnsupportedActionPhase0 = ''unsupported_action_phase0''"
| "reason_name RNetworkPolicyDenied = ''network_policy_denied''"
| "reason_name RDepthExceeded = ''depth_exceeded''"
| "reason_name RContextViolation = ''context_violation''"

record action_rejection =
  rej_action :: string
  rej_reason :: rejection_reason
  rej_detail :: string

section \<open>Risk classes\<close>

datatype risk_class = L0 | L1 | L2 | L3 | L4

fun risk_index :: "risk_class \<Rightarrow> nat" where
  "risk_index L0 = 0" | "risk_index L1 = 1" | "risk_index L2 = 2" | "risk_index L3 = 3"
| "risk_index L4 = 4"

fun risk_name :: "risk_class \<Rightarrow> string" where
  "risk_name L0 = ''L0''" | "risk_name L1 = ''L1''" | "risk_name L2 = ''L2''"
| "risk_name L3 = ''L3''" | "risk_name L4 = ''L4''"

definition risk_of_val :: "js_val \<Rightarrow> risk_class option" where
  "risk_of_val v = find (\<lambda>r. VStr (risk_name r) = v) [L0, L1, L2, L3, L4]"

section \<open>Hypotheses\<close>

record hypothesis_probe =
  hp_cmd :: string
  hp_cwd :: "string option"
  hp_expected :: string

record hypothesis =
  hy_statement :: string
  hy_probes :: "hypothesis_probe list"
  hy_patch_plan :: string
  hy_blast_radius :: string

datatype hyp_verdict = Confirmed | Refuted | Undecided

section \<open>Task states and event types\<close>

datatype (plugins only: code size) task_state =
    S_PROPOSED | S_ANALYZING | S_READY | S_IMPLEMENTING | S_VERIFYING | S_FAILED
  | S_DIAGNOSING | S_REPAIRING | S_PASSED | S_REVIEWING | S_CHANGES_REQUESTED
  | S_APPROVED | S_MERGE_QUEUED | S_AUDITED | S_COMPLETED | S_BLOCKED | S_ESCALATED
  | S_CANCELLED | S_ROLLED_BACK | S_QUARANTINED | S_PAUSED

fun state_name :: "task_state \<Rightarrow> string" where
  "state_name S_PROPOSED = ''PROPOSED''"
| "state_name S_ANALYZING = ''ANALYZING''"
| "state_name S_READY = ''READY''"
| "state_name S_IMPLEMENTING = ''IMPLEMENTING''"
| "state_name S_VERIFYING = ''VERIFYING''"
| "state_name S_FAILED = ''FAILED''"
| "state_name S_DIAGNOSING = ''DIAGNOSING''"
| "state_name S_REPAIRING = ''REPAIRING''"
| "state_name S_PASSED = ''PASSED''"
| "state_name S_REVIEWING = ''REVIEWING''"
| "state_name S_CHANGES_REQUESTED = ''CHANGES_REQUESTED''"
| "state_name S_APPROVED = ''APPROVED''"
| "state_name S_MERGE_QUEUED = ''MERGE_QUEUED''"
| "state_name S_AUDITED = ''AUDITED''"
| "state_name S_COMPLETED = ''COMPLETED''"
| "state_name S_BLOCKED = ''BLOCKED''"
| "state_name S_ESCALATED = ''ESCALATED''"
| "state_name S_CANCELLED = ''CANCELLED''"
| "state_name S_ROLLED_BACK = ''ROLLED_BACK''"
| "state_name S_QUARANTINED = ''QUARANTINED''"
| "state_name S_PAUSED = ''PAUSED''"

datatype (plugins only: code size) event_type =
    E_TASK_STATE | E_CLAIM_RECORDED | E_ACTION_INTENT | E_ACTION_APPLIED
  | E_ACTION_REJECTED | E_GATE_RESULT | E_EVIDENCE_AUTHORIZED | E_LEASE_CLAIMED
  | E_LEASE_RENEWED | E_LEASE_RELEASED | E_BUDGET_EXCEEDED | E_ESCALATED
  | E_GOVERNANCE_CHANGE | E_ERROR | E_RED_ARTIFACT_FROZEN | E_PROPOSAL_INTENT
  | E_APPROVAL_RECORDED | E_KILL_REQUESTED | E_CONTEXT_BUILT | E_CONFORMANCE_RECORDED
  | E_BREAKER_STATE_CHANGED | E_QUOTA_PROBE | E_HYPOTHESIS_PROPOSED | E_PROBE_RUN
  | E_HYPOTHESIS_CONFIRMED | E_HYPOTHESIS_REFUTED | E_PAUSE_REQUESTED
  | E_GUIDANCE_INJECTED | E_RESUMED | E_AUTO_APPROVED | E_AUDIT_SAMPLED
  | E_AUDIT_RESULT | E_CANARY_TRIPPED | E_DATA_POLICY_VIOLATION | E_AUTOMATION_DEFERRED
  | E_AUTOMATION_OVERRIDE | E_GOVERNANCE_PROPOSED | E_FUSION_PANEL | E_FUSION_CANDIDATE
  | E_FUSION_RESOLVED | E_FUSION_DISSENT | E_MERGE_ENQUEUED | E_MERGE_RESULT
  | E_OOB_AUDIT_RESULT | E_SHADOW_ROUTE | E_APPROVAL_PACKAGE_CREATED | E_DEPLOY_STATE
  | E_DEPLOY_DECISION | E_DEPLOY_WINDOW_CLOSED | E_LESSON_PROPOSED | E_LESSON_APPROVED
  | E_LESSON_INJECTED | E_OUTCOME_ROUTE | E_ROUTING_FROZEN | E_PLAN_RESOLVED
  | E_TASK_GRAPH_FROZEN | E_TASK_GRAPH_REJECTED | E_RUN_DESCRIPTOR | E_BUDGET_SNAPSHOT
  | E_RATE_LIMIT_OBSERVED | E_GOLDEN_FIXTURE_PROVISIONED | E_PR_GATE_STATE
  | E_PR_SOURCE_PINNED | E_PR_SNAPSHOT_ATTESTED | E_PR_CLASSIFIED | E_PR_CHECK_RESULT
  | E_PR_REVIEW_RESULT | E_PR_JUDGE_RESULT | E_PR_GATE_DECIDED | E_PR_HUMAN_DECISION
  | E_PR_GATE_REPORTED | E_PR_REPLACEMENT_ENQUEUED | E_PR_RUN_CANCELLED

section \<open>Gate reports\<close>

datatype gate_tier = T0 | T1 | T2 | T3

datatype gate_pass = GatePass | GateFail | GateNotEnabled

record gate_check =
  gc_name :: string
  gc_pass :: bool
  gc_flaky :: "bool option"
  gc_evidence_ref :: string
  gc_detail :: "string option"
  gc_command :: "string option"
  gc_output_tail :: "string option"

record gate_report =
  gr_tier :: gate_tier
  gr_pass :: gate_pass
  gr_config_hash :: string
  gr_commit_hash :: string
  gr_worktree_hash :: string
  gr_artifact_commit :: "string option"
  gr_base_commit :: "string option"
  gr_merged_commit :: "string option"
  gr_env_hash :: string
  gr_checks :: "gate_check list"
  gr_scope_note :: string

record budget_limits =
  bl_max_iterations :: nat
  bl_max_cost :: js_num
  bl_max_wallclock :: int

end
