(* ===== verification/Machines.thy ===== *)
theory Machines
  imports Main "HOL-Library.Sublist"
begin

text \<open>
  Interfaces of the program's state machines. A machine is a partial step function; \<open>live\<close>
  are the states with a way out. A caller that drops a refused step keeps its state.
\<close>

locale step_machine =
  fixes step :: "'s \<Rightarrow> 'e \<Rightarrow> 's option"
    and live :: "'s \<Rightarrow> bool"
  assumes dead_stuck: "\<not> live s \<Longrightarrow> step s e = None"
begin

primrec run :: "'s \<Rightarrow> 'e list \<Rightarrow> 's option" where
  "run s [] = Some s"
| "run s (e # es) = Option.bind (step s e) (\<lambda>t. run t es)"

definition settle :: "'s \<Rightarrow> 'e \<Rightarrow> 's" where
  "settle s e = (case step s e of Some t \<Rightarrow> t | None \<Rightarrow> s)"

lemma run_append: "run s (xs @ ys) = Option.bind (run s xs) (\<lambda>t. run t ys)"
  by (induction xs arbitrary: s) (auto split: bind_splits)

lemma run_snoc: "run s (es @ [e]) = Some t \<longleftrightarrow> (\<exists>u. run s es = Some u \<and> step u e = Some t)"
  by (auto simp: run_append bind_eq_Some_conv)

lemma run_dead: "\<not> live s \<Longrightarrow> run s es = Some t \<Longrightarrow> es = [] \<and> t = s"
  by (cases es) (auto simp: dead_stuck)

lemma settle_dead: "\<not> live s \<Longrightarrow> foldl settle s es = s"
  by (induction es) (auto simp: settle_def dead_stuck)

text \<open>An invariant of every step is an invariant of every run, refused steps included.\<close>

lemma settle_invariant:
  assumes "I s" and "\<And>s e t. I s \<Longrightarrow> step s e = Some t \<Longrightarrow> I t"
  shows "I (foldl settle s es)"
  using assms(1)
  by (induction es arbitrary: s) (auto simp: settle_def assms(2) split: option.splits)

end

text \<open>
  A machine with milestones: \<open>reached s e\<close> is the milestone that entering by \<open>e\<close> from \<open>s\<close>
  records, and \<open>owes s\<close> the milestones a history ending in \<open>s\<close> must contain in order.
\<close>

locale milestone_machine = step_machine step live
  for step :: "'s \<Rightarrow> 'e \<Rightarrow> 's option" and live :: "'s \<Rightarrow> bool" +
  fixes owes :: "'s \<Rightarrow> 'e list set"
  assumes owes_step:
    "step s e = Some t \<Longrightarrow> h \<in> owes s \<Longrightarrow> \<exists>h' \<in> owes t. subseq h' (h @ [e])"
begin

lemma run_owes:
  assumes "run s es = Some t" and "[] \<in> owes s"
  shows "\<exists>h \<in> owes t. subseq h es"
  using assms
proof (induction es arbitrary: t rule: rev_induct)
  case (snoc e es)
  then obtain u where u: "run s es = Some u" "step u e = Some t" by (auto simp: run_snoc)
  then obtain h where h: "h \<in> owes u" "subseq h es" using snoc by blast
  obtain h' where h': "h' \<in> owes t" "subseq h' (h @ [e])" using owes_step [OF u(2) h(1)] by blast
  have "subseq (h @ [e]) (es @ [e])" using h(2) by simp
  then show ?case using h' subseq_order.trans by blast
qed auto

end

text \<open>
  Ordered enumerations that the code compares by \<open>indexOf\<close>: the stricter of two values is the
  one of higher rank.
\<close>

locale ranked =
  fixes rank :: "'a \<Rightarrow> nat" and stricter :: "'a \<Rightarrow> 'a \<Rightarrow> 'a"
  assumes rank_inj: "rank a = rank b \<Longrightarrow> a = b"
    and rank_stricter: "rank (stricter a b) = max (rank a) (rank b)"
begin

lemma stricter_comm: "stricter a b = stricter b a"
  by (rule rank_inj) (simp add: rank_stricter max.commute)

lemma stricter_assoc: "stricter (stricter a b) c = stricter a (stricter b c)"
  by (rule rank_inj) (simp add: rank_stricter max.assoc)

lemma stricter_idem: "stricter a a = a"
  by (rule rank_inj) (simp add: rank_stricter)

lemma stricter_upper: "rank a \<le> rank (stricter a b)" "rank b \<le> rank (stricter a b)"
  by (simp_all add: rank_stricter)

lemma fold_stricter_upper:
  "rank a \<le> rank (fold stricter xs a) \<and> (\<forall>x \<in> set xs. rank x \<le> rank (fold stricter xs a))"
proof (induction xs arbitrary: a)
  case (Cons x xs)
  have "rank x \<le> rank (stricter x a)" "rank a \<le> rank (stricter x a)" by (rule stricter_upper)+
  then show ?case using Cons.IH [of "stricter x a"] by (auto intro: order_trans)
qed simp

end

text \<open>
  The lease of one resource as its clients see it. \<open>verify now o k d\<close>: at time \<open>now\<close> the owner
  \<open>o\<close> of generation \<open>k\<close> holds the lease in store \<open>d\<close>; \<open>gener d\<close> is the last generation
  handed out; \<open>world\<close> relates a store to the one a single transaction of anyone leaves.
\<close>

locale lease_service =
  fixes claim_op :: "int \<Rightarrow> 'o \<Rightarrow> 'ttl \<Rightarrow> 'd \<Rightarrow> int option \<times> 'd"
    and verify_op :: "int \<Rightarrow> 'o \<Rightarrow> int \<Rightarrow> 'd \<Rightarrow> bool"
    and release_op :: "'o \<Rightarrow> int \<Rightarrow> 'd \<Rightarrow> 'd"
    and gener :: "'d \<Rightarrow> int"
    and ok :: "'d \<Rightarrow> bool"
    and world :: "'d \<Rightarrow> 'd \<Rightarrow> bool"
  assumes verify_gener: "ok d \<Longrightarrow> verify_op now ow k d \<Longrightarrow> k = gener d"
    and verify_owner: "ok d \<Longrightarrow> verify_op n1 o1 k d \<Longrightarrow> verify_op n2 o2 k d \<Longrightarrow> o1 = o2"
    and world_ok: "ok d \<Longrightarrow> world d d' \<Longrightarrow> ok d' \<and> gener d \<le> gener d'"
    and claim_world: "claim_op now ow ttl d = (c, d') \<Longrightarrow> d' = d \<or> world d d'"
    and claim_gener:
      "ok d \<Longrightarrow> claim_op now ow ttl d = (Some k, d') \<Longrightarrow>
         k = gener d' \<and> (gener d < k \<or> verify_op now ow k d)"
    and claim_excluded:
      "ok d \<Longrightarrow> verify_op now o1 k1 d \<Longrightarrow> o1 \<noteq> o2 \<Longrightarrow> claim_op now o2 ttl d = (None, d)"
    and release_other:
      "ok d \<Longrightarrow> verify_op now o1 k1 d \<Longrightarrow> (o1, k1) \<noteq> (o2, k2) \<Longrightarrow>
         verify_op now o1 k1 (release_op o2 k2 d)"
begin

lemma worlds_ok: "world\<^sup>*\<^sup>* d d' \<Longrightarrow> ok d \<Longrightarrow> ok d' \<and> gener d \<le> gener d'"
  by (induction rule: rtranclp_induct) (auto dest: world_ok intro: order_trans)

text \<open>A generation that has been overtaken is dead for good.\<close>

lemma overtaken:
  assumes "ok d" and "k < gener d" and "world\<^sup>*\<^sup>* d d'"
  shows "\<not> verify_op now ow k d'"
  using worlds_ok [OF assms(3,1)] assms(2) verify_gener [of d' now ow k] by auto

text \<open>A successful claim by another owner fences the old owner off in every later store.\<close>

lemma takeover_gener:
  assumes ok: "ok d" and held: "verify_op n1 o1 k1 d"
    and claim: "claim_op n2 o2 ttl d = (Some k2, d')" and ne: "o1 \<noteq> o2"
    and later: "world\<^sup>*\<^sup>* d' d''"
  shows "ok d'' \<and> k1 < gener d''"
proof -
  have k1: "k1 = gener d" using verify_gener [OF ok held] .
  have k2: "k2 = gener d'" and "gener d < k2 \<or> verify_op n2 o2 k2 d"
    using claim_gener [OF ok claim] by auto
  then have "gener d < k2"
    using verify_gener [OF ok, of n2 o2 k2] verify_owner [OF ok held, of n2 o2] ne k1 by auto
  moreover have "ok d'" using claim_world [OF claim] world_ok ok by auto
  ultimately show ?thesis using worlds_ok [OF later] k1 k2 by auto
qed

lemma takeover_fences:
  assumes "ok d" "verify_op n1 o1 k1 d" "claim_op n2 o2 ttl d = (Some k2, d')" "o1 \<noteq> o2"
    "world\<^sup>*\<^sup>* d' d''"
  shows "\<not> verify_op n3 o1 k1 d''"
  using takeover_gener [OF assms] verify_gener [of d'' n3 o1 k1] by auto

end

text \<open>
  A backstop counts what it is charged and stops its client at a cap. A client that asks
  before every charge makes at most \<open>cap - used\<close> of them.
\<close>

locale backstop =
  fixes charge :: "'c \<Rightarrow> 'b \<Rightarrow> 'b option"
    and stop :: "'c \<Rightarrow> 'b \<Rightarrow> bool"
    and used :: "'b \<Rightarrow> nat"
    and cap :: "'b \<Rightarrow> nat"
  assumes charge_used: "charge c b = Some b' \<Longrightarrow> used b' = Suc (used b) \<and> cap b' = cap b"
    and stop_cap: "cap b \<le> used b \<Longrightarrow> stop c b"
begin

primrec guarded :: "'c list \<Rightarrow> 'b \<Rightarrow> 'b option" where
  "guarded [] b = Some b"
| "guarded (c # cs) b = (if stop c b then None else Option.bind (charge c b) (guarded cs))"

lemma guarded_bound: "guarded cs b = Some b' \<Longrightarrow> length cs \<le> cap b - used b"
proof (induction cs arbitrary: b)
  case (Cons c cs)
  then obtain b1 where b1: "charge c b = Some b1" "guarded cs b1 = Some b'" "\<not> stop c b"
    by (auto split: if_splits bind_splits)
  from stop_cap [of b c] b1(3) have "used b < cap b" by (meson not_le)
  then show ?case using Cons.IH [OF b1(2)] charge_used [OF b1(1)] by simp
qed simp

end

end
