(* ===== verification/TaskMachine.thy ===== *)
theory TaskMachine
  imports CoreTypes Machines
begin

text \<open>
  The task state machine of \<open>core/src/orchestrator/machine.ts\<close>: a transition table, the
  universal escapes of an active or paused task, and resumption of a paused one.
\<close>

section \<open>The transition table\<close>

datatype (plugins only: code size) trigger =
    T_analyze | T_ready | T_start_implementing | T_verify | T_gate_failed | T_gate_passed
  | T_diagnose | T_repair | T_review | T_changes_requested | T_human_approved
  | T_auto_approved | T_merge_queued | T_audited | T_completed | T_block | T_escalate
  | T_cancel | T_roll_back | T_quarantine | T_pause

fun trigger_name :: "trigger \<Rightarrow> string" where
  "trigger_name T_analyze = ''analyze''"
| "trigger_name T_ready = ''ready''"
| "trigger_name T_start_implementing = ''start_implementing''"
| "trigger_name T_verify = ''verify''"
| "trigger_name T_gate_failed = ''gate_failed''"
| "trigger_name T_gate_passed = ''gate_passed''"
| "trigger_name T_diagnose = ''diagnose''"
| "trigger_name T_repair = ''repair''"
| "trigger_name T_review = ''review''"
| "trigger_name T_changes_requested = ''changes_requested''"
| "trigger_name T_human_approved = ''human_approved''"
| "trigger_name T_auto_approved = ''auto_approved''"
| "trigger_name T_merge_queued = ''merge_queued''"
| "trigger_name T_audited = ''audited''"
| "trigger_name T_completed = ''completed''"
| "trigger_name T_block = ''block''"
| "trigger_name T_escalate = ''escalate''"
| "trigger_name T_cancel = ''cancel''"
| "trigger_name T_roll_back = ''roll_back''"
| "trigger_name T_quarantine = ''quarantine''"
| "trigger_name T_pause = ''pause''"

datatype transition_reason = IllegalTransition | NotEnabledPhase0 | NotEnabledPhase1

datatype transition_result =
    TrOk task_state
  | TrErr transition_reason string

definition ACTIVE_STATES :: "task_state list" where
  "ACTIVE_STATES =
     [S_PROPOSED, S_ANALYZING, S_READY, S_IMPLEMENTING, S_VERIFYING, S_FAILED, S_DIAGNOSING,
      S_REPAIRING, S_PASSED, S_REVIEWING, S_CHANGES_REQUESTED, S_MERGE_QUEUED, S_AUDITED]"

fun TABLE :: "task_state \<Rightarrow> (trigger \<times> task_state) list" where
  "TABLE S_PROPOSED = [(T_analyze, S_ANALYZING)]"
| "TABLE S_ANALYZING = [(T_ready, S_READY)]"
| "TABLE S_READY = [(T_start_implementing, S_IMPLEMENTING)]"
| "TABLE S_IMPLEMENTING = [(T_verify, S_VERIFYING)]"
| "TABLE S_VERIFYING = [(T_gate_failed, S_FAILED), (T_gate_passed, S_PASSED)]"
| "TABLE S_FAILED = [(T_diagnose, S_DIAGNOSING)]"
| "TABLE S_DIAGNOSING = [(T_repair, S_REPAIRING)]"
| "TABLE S_REPAIRING = [(T_verify, S_VERIFYING)]"
| "TABLE S_PASSED = [(T_review, S_REVIEWING)]"
| "TABLE S_REVIEWING =
     [(T_changes_requested, S_CHANGES_REQUESTED), (T_human_approved, S_APPROVED),
      (T_auto_approved, S_APPROVED)]"
| "TABLE S_CHANGES_REQUESTED = [(T_repair, S_REPAIRING)]"
| "TABLE S_APPROVED = [(T_merge_queued, S_MERGE_QUEUED)]"
| "TABLE S_MERGE_QUEUED = [(T_audited, S_AUDITED)]"
| "TABLE S_AUDITED = [(T_completed, S_COMPLETED)]"
| "TABLE _ = []"

text \<open>Escapes available from every active state.\<close>

fun UNIVERSAL :: "trigger \<Rightarrow> task_state option" where
  "UNIVERSAL T_block = Some S_BLOCKED"
| "UNIVERSAL T_escalate = Some S_ESCALATED"
| "UNIVERSAL T_cancel = Some S_CANCELLED"
| "UNIVERSAL T_roll_back = Some S_ROLLED_BACK"
| "UNIVERSAL T_quarantine = Some S_QUARANTINED"
| "UNIVERSAL T_pause = Some S_PAUSED"
| "UNIVERSAL _ = None"

definition transition :: "task_state \<Rightarrow> trigger \<Rightarrow> transition_result" where
  "transition s t =
     (case UNIVERSAL t of
        Some u \<Rightarrow>
          if s \<in> set ACTIVE_STATES \<or> s = S_PAUSED then TrOk u
          else TrErr IllegalTransition
                 (trigger_name t @ '' not allowed from terminal state '' @ state_name s)
      | None \<Rightarrow>
          (case map_of (TABLE s) t of
             None \<Rightarrow> TrErr IllegalTransition
               (''no transition for trigger '' @ trigger_name t @ '' from state '' @ state_name s)
           | Some n \<Rightarrow> TrOk n))"

definition resumeTransition :: "task_state \<Rightarrow> task_state \<Rightarrow> transition_result" where
  "resumeTransition s pre =
     (if s \<noteq> S_PAUSED
      then TrErr IllegalTransition (''resume not allowed from '' @ state_name s)
      else if pre \<notin> set ACTIVE_STATES
      then TrErr IllegalTransition
             (''resume target '' @ state_name pre @ '' is not an active state'')
      else TrOk pre)"

section \<open>Basic facts\<close>

lemmas machine_defs = transition_def resumeTransition_def ACTIVE_STATES_def

definition live_state :: "task_state \<Rightarrow> bool" where
  "live_state s \<longleftrightarrow> s \<in> set ACTIVE_STATES \<or> s = S_PAUSED \<or> s = S_APPROVED"

lemma TABLE_live: "map_of (TABLE s) t = Some n \<Longrightarrow> live_state s"
  by (cases s) (simp_all add: live_state_def ACTIVE_STATES_def)

lemma transition_Ok_iff:
  "transition s t = TrOk n \<longleftrightarrow>
     (case UNIVERSAL t of
        Some u \<Rightarrow> n = u \<and> (s \<in> set ACTIVE_STATES \<or> s = S_PAUSED)
      | None \<Rightarrow> map_of (TABLE s) t = Some n)"
  by (auto simp: transition_def split: option.splits)

definition step_of :: "transition_result \<Rightarrow> task_state option" where
  "step_of r = (case r of TrOk s \<Rightarrow> Some s | TrErr _ _ \<Rightarrow> None)"

lemma step_of_Some [simp]: "step_of r = Some s \<longleftrightarrow> r = TrOk s"
  by (cases r) (simp_all add: step_of_def)

interpretation tm: step_machine "\<lambda>s t. step_of (transition s t)" live_state
proof
  fix s e assume "\<not> live_state s"
  then show "step_of (transition s e) = None"
    by (auto simp: transition_def step_of_def live_state_def dest: TABLE_live
        split: option.splits)
qed

section \<open>Steering: pause and resume around the table\<close>

text \<open>
  A paused task remembers the state it was paused in (\<open>PAUSE_REQUESTED {prePauseState}\<close>);
  resuming restores it. The pair is the state of the steered machine.
\<close>

datatype steer_event = Fire trigger | Resume

fun steer_step ::
    "task_state \<times> task_state option \<Rightarrow> steer_event \<Rightarrow> (task_state \<times> task_state option) option" where
  "steer_step (s, pre) (Fire t) =
     (case transition s t of
        TrOk n \<Rightarrow> Some (n, if t = T_pause then Some s else pre)
      | TrErr _ _ \<Rightarrow> None)"
| "steer_step (s, pre) Resume =
     (case pre of
        None \<Rightarrow> None
      | Some p \<Rightarrow> (case resumeTransition s p of TrOk n \<Rightarrow> Some (n, pre) | TrErr _ _ \<Rightarrow> None))"

text \<open>What the history of a task in a given state must contain, in order.\<close>

fun milestones :: "task_state \<Rightarrow> trigger list set" where
  "milestones S_PASSED = {[T_gate_passed]}"
| "milestones S_REVIEWING = {[T_gate_passed, T_review]}"
| "milestones S_APPROVED =
     {[T_gate_passed, T_review, T_human_approved], [T_gate_passed, T_review, T_auto_approved]}"
| "milestones S_MERGE_QUEUED =
     {[T_gate_passed, T_review, T_human_approved, T_merge_queued],
      [T_gate_passed, T_review, T_auto_approved, T_merge_queued]}"
| "milestones S_AUDITED =
     {[T_gate_passed, T_review, T_human_approved, T_merge_queued, T_audited],
      [T_gate_passed, T_review, T_auto_approved, T_merge_queued, T_audited]}"
| "milestones S_COMPLETED =
     {[T_gate_passed, T_review, T_human_approved, T_merge_queued, T_audited, T_completed],
      [T_gate_passed, T_review, T_auto_approved, T_merge_queued, T_audited, T_completed]}"
| "milestones _ = {[]}"

fun steer_owes :: "task_state \<times> task_state option \<Rightarrow> steer_event list set" where
  "steer_owes (s, pre) =
     map Fire ` (if s = S_PAUSED then (case pre of Some p \<Rightarrow> milestones p | None \<Rightarrow> {[]})
                 else milestones s)"

lemma map_Fire_snoc: "map Fire h @ [Fire t] = map Fire (h @ [t])"
  by simp

lemma milestones_step:
  assumes "map_of (TABLE s) t = Some n" and "h \<in> milestones s"
  shows "\<exists>h' \<in> milestones n. subseq h' (h @ [t])"
  using assms
  by (cases s) (auto split: if_splits)

lemma milestones_escape:
  "UNIVERSAL t = Some u \<Longrightarrow> u \<noteq> S_PAUSED \<Longrightarrow> milestones u = {[]}"
  by (cases t) auto

lemma TABLE_not_pause: "map_of (TABLE s) t = Some n \<Longrightarrow> n \<noteq> S_PAUSED \<and> s \<noteq> S_PAUSED \<and> t \<noteq> T_pause"
  by (cases s) (auto split: if_splits)

lemma UNIVERSAL_pause: "UNIVERSAL t = Some S_PAUSED \<longleftrightarrow> t = T_pause"
  by (cases t) simp_all

lemma steer_owes_step:
  assumes "steer_step s e = Some t" and "h \<in> steer_owes s"
  shows "\<exists>h' \<in> steer_owes t. subseq h' (h @ [e])"
proof (cases e)
  case (Fire tr)
  obtain s0 pre where s: "s = (s0, pre)" by (cases s)
  from assms(1) obtain n where n: "transition s0 tr = TrOk n"
    and t: "t = (n, if tr = T_pause then Some s0 else pre)"
    by (auto simp: s Fire split: transition_result.splits)
  show ?thesis
  proof (cases "UNIVERSAL tr")
    case None
    then have tab: "map_of (TABLE s0) tr = Some n" using n by (simp add: transition_Ok_iff)
    note np = TABLE_not_pause [OF tab]
    from assms(2) np obtain h0 where h0: "h = map Fire h0" "h0 \<in> milestones s0"
      by (auto simp: s)
    then obtain h' where h': "h' \<in> milestones n" "subseq h' (h0 @ [tr])"
      using milestones_step [OF tab] by blast
    have "subseq (map Fire h') (map Fire (h0 @ [tr]))" using h'(2) by (rule subseq_map)
    then have "subseq (map Fire h') (h @ [e])" by (simp only: h0(1) Fire map_Fire_snoc)
    moreover have "map Fire h' \<in> steer_owes t" using h'(1) np by (auto simp: t)
    ultimately show ?thesis by blast
  next
    case (Some u)
    then have u: "n = u" using n by (simp add: transition_Ok_iff)
    show ?thesis
    proof (cases "tr = T_pause")
      case False
      then have "milestones u = {[]}" "u \<noteq> S_PAUSED"
        using Some milestones_escape UNIVERSAL_pause by blast+
      then show ?thesis by (simp add: t u)
    next
      case True
      then have "n = S_PAUSED" using Some u by simp
      have "[] \<in> milestones S_PAUSED" by simp
      show ?thesis
      proof (cases "s0 = S_PAUSED")
        case True
        then show ?thesis using \<open>tr = T_pause\<close> \<open>n = S_PAUSED\<close> by (simp add: t)
      next
        case False
        then have "h \<in> steer_owes t" using assms(2) True \<open>n = S_PAUSED\<close> by (simp add: s t)
        then show ?thesis using subseq_rev_drop_many [of h h "[e]"] by auto
      qed
    qed
  qed
next
  case Resume
  obtain s0 pre where s: "s = (s0, pre)" by (cases s)
  from assms(1) obtain p where p: "pre = Some p" "resumeTransition s0 p = TrOk (fst t)" "snd t = pre"
    by (auto simp: s Resume split: option.splits transition_result.splits)
  then have "s0 = S_PAUSED" "fst t = p" "p \<noteq> S_PAUSED"
    by (auto simp: machine_defs split: if_splits)
  then have "h \<in> steer_owes t" using assms(2) p(1,3) by (cases t) (simp add: s)
  then show ?thesis using subseq_rev_drop_many [of h h "[e]"] by auto
qed

lemma steer_stuck: "\<not> live_state (fst s) \<Longrightarrow> steer_step s e = None"
proof (cases s)
  case (Pair s0 pre)
  assume a: "\<not> live_state (fst s)"
  then have "transition s0 t \<noteq> TrOk n" for t n
    using tm.dead_stuck [of s0 t] step_of_Some [of "transition s0 t" n] by (simp add: Pair)
  moreover have "resumeTransition s0 p \<noteq> TrOk n" for p n
    using a by (simp add: Pair live_state_def resumeTransition_def)
  ultimately show ?thesis
    by (cases e) (auto simp: Pair split: transition_result.splits option.splits)
qed

interpretation steer: milestone_machine steer_step "\<lambda>s. live_state (fst s)" steer_owes
  by unfold_locales (auto simp: steer_stuck steer_owes_step)

section \<open>Properties\<close>

text \<open>C7: a task that is COMPLETED has, in this order, passed its gates, been put up for review,
  been approved by a human or by the auto-merge policy, been queued for merge, been audited and
  been completed; pausing, resuming and repairing in between never lets it skip one of these.\<close>

theorem completed_requires_every_milestone:
  assumes "steer.run (S_PROPOSED, None) es = Some (S_COMPLETED, pre)"
  shows "\<exists>approval \<in> {T_human_approved, T_auto_approved}.
    subseq (map Fire [T_gate_passed, T_review, approval, T_merge_queued, T_audited, T_completed]) es"
  using steer.run_owes [OF assms] by auto

theorem completed_requires_every_milestone_witness:
  "\<exists>approval \<in> {T_human_approved, T_auto_approved}.
    subseq (map Fire [T_gate_passed, T_review, approval, T_merge_queued, T_audited, T_completed])
      (map Fire [T_analyze, T_ready, T_start_implementing, T_verify, T_gate_failed, T_diagnose,
         T_pause] @ [Resume] @ map Fire [T_repair, T_verify, T_gate_passed, T_review,
         T_human_approved, T_merge_queued, T_audited, T_completed])"
proof (rule completed_requires_every_milestone)
  show "steer.run (S_PROPOSED, None)
      (map Fire [T_analyze, T_ready, T_start_implementing, T_verify, T_gate_failed, T_diagnose,
         T_pause] @ [Resume] @ map Fire [T_repair, T_verify, T_gate_passed, T_review,
         T_human_approved, T_merge_queued, T_audited, T_completed])
    = Some (S_COMPLETED, Some S_DIAGNOSING)"
    by (simp add: machine_defs)
qed

text \<open>An escape (block, escalate, cancel, roll back, quarantine, pause) is accepted exactly in
  the active states and in PAUSED; the terminal states refuse every trigger, escapes included, so
  a finished task never moves again.\<close>

theorem transition_terminal_and_escape:
  "(UNIVERSAL t \<noteq> None \<longrightarrow>
      (\<exists>n. transition s t = TrOk n) = (s \<in> set ACTIVE_STATES \<or> s = S_PAUSED)) \<and>
   (s \<in> {S_COMPLETED, S_BLOCKED, S_ESCALATED, S_CANCELLED, S_ROLLED_BACK, S_QUARANTINED} \<longrightarrow>
      foldl tm.settle s ts = s)"
proof
  show "UNIVERSAL t \<noteq> None \<longrightarrow>
      (\<exists>n. transition s t = TrOk n) = (s \<in> set ACTIVE_STATES \<or> s = S_PAUSED)"
    by (auto simp: transition_Ok_iff)
  show "s \<in> {S_COMPLETED, S_BLOCKED, S_ESCALATED, S_CANCELLED, S_ROLLED_BACK, S_QUARANTINED} \<longrightarrow>
      foldl tm.settle s ts = s"
    using tm.settle_dead by (auto simp: live_state_def ACTIVE_STATES_def)
qed

theorem transition_terminal_and_escape_witness:
  "(\<exists>n. transition S_COMPLETED T_cancel = TrOk n) =
        (S_COMPLETED \<in> set ACTIVE_STATES \<or> S_COMPLETED = S_PAUSED) \<and>
   foldl tm.settle S_COMPLETED [T_cancel, T_pause, T_repair] = S_COMPLETED"
  using transition_terminal_and_escape [of T_cancel S_COMPLETED "[T_cancel, T_pause, T_repair]"]
  by simp

text \<open>Resuming is possible only from PAUSED and only into an active state, and then the state
  restored is exactly the recorded one; pausing from an active state and resuming is the identity.\<close>

theorem pause_resume_roundtrip:
  "s \<in> set ACTIVE_STATES \<Longrightarrow>
     transition s T_pause = TrOk S_PAUSED \<and> resumeTransition S_PAUSED s = TrOk s \<and>
     (\<forall>r p n. resumeTransition r p = TrOk n \<longleftrightarrow> r = S_PAUSED \<and> p \<in> set ACTIVE_STATES \<and> n = p)"
  by (auto simp: transition_Ok_iff resumeTransition_def)

theorem pause_resume_roundtrip_witness:
  "transition S_REPAIRING T_pause = TrOk S_PAUSED \<and> resumeTransition S_PAUSED S_REPAIRING = TrOk S_REPAIRING"
  using pause_resume_roundtrip [of S_REPAIRING] by (simp add: ACTIVE_STATES_def)

end
