(* ===== verification/EventLog.thy ===== *)
theory EventLog
  imports CoreTypes
begin

text \<open>
  The run database of \<open>core/src/state/schema.ts\<close> and the append-only event log of
  \<open>core/src/state/event-log.ts\<close>. One value of type \<open>db\<close> is the SQLite file: the \<open>events\<close>
  table in sequence order, the \<open>leases\<close> projection and the \<open>lease_fences\<close> generations. A
  transaction is a function that returns the database it leaves; a rolled-back one returns
  the database it was given. An event's \<open>ts\<close> column is the ISO rendering of the
  clock reading kept here.
\<close>

section \<open>Tables\<close>

record event =
  ev_seq :: nat
  ev_ts :: int
  ev_run :: string
  ev_task :: "string option"
  ev_type :: event_type
  ev_payload :: payload

record lease_row =
  lr_owner :: string
  lr_until :: js_num
  lr_token :: int

record db =
  db_events :: "event list"
  db_seq :: nat
  db_leases :: "string \<rightharpoonup> lease_row"
  db_fences :: "string \<rightharpoonup> int"

text \<open>An event before the log assigns its sequence number and time.\<close>

record new_event =
  ne_run :: string
  ne_task :: "string option"
  ne_type :: event_type
  ne_payload :: payload

definition openDatabase :: db where
  "openDatabase = \<lparr>db_events = [], db_seq = 0, db_leases = Map.empty, db_fences = Map.empty\<rparr>"

definition insertEvent :: "int \<Rightarrow> new_event \<Rightarrow> db \<Rightarrow> event \<times> db" where
  "insertEvent now e d =
     (let row = \<lparr>ev_seq = Suc (db_seq d), ev_ts = now, ev_run = ne_run e, ev_task = ne_task e,
                 ev_type = ne_type e, ev_payload = ne_payload e\<rparr>
      in (row, d\<lparr>db_events := db_events d @ [row], db_seq := Suc (db_seq d)\<rparr>))"

section \<open>The log\<close>

record fenced_claim =
  fc_task :: string
  fc_owner :: string
  fc_token :: int

definition append :: "int \<Rightarrow> new_event \<Rightarrow> db \<Rightarrow> event \<times> db" where
  "append now e d = insertEvent now e d"

text \<open>
  \<open>appendFenced\<close> checks the current lease and inserts in one write transaction. \<open>now\<close> is the
  time the lease is compared with, \<open>ts\<close> the clock reading of the insertion.
\<close>

definition appendFenced ::
    "int \<Rightarrow> int \<Rightarrow> new_event \<Rightarrow> fenced_claim \<Rightarrow> db \<Rightarrow> event option \<times> db" where
  "appendFenced now ts e claim d =
     (case db_leases d (fc_task claim) of
        None \<Rightarrow> (None, d)
      | Some lease \<Rightarrow>
          if lr_owner lease \<noteq> fc_owner claim \<or> lr_token lease \<noteq> fc_token claim \<or>
             js_lt (lr_until lease) (js_int now)
          then (None, d)
          else (let (row, d') = insertEvent ts e d in (Some row, d')))"

text \<open>\<open>all\<close>: an optional task filter, an optional type filter, ordered by sequence number.\<close>

definition all_events :: "string option \<Rightarrow> event_type option \<Rightarrow> db \<Rightarrow> event list" where
  "all_events tid ty d =
     sort_key ev_seq
       [e \<leftarrow> db_events d. (case tid of None \<Rightarrow> True | Some t \<Rightarrow> ev_task e = Some t) \<and>
                         (case ty of None \<Rightarrow> True | Some y \<Rightarrow> ev_type e = y)]"

record task_view =
  tv_state :: string
  tv_last_seq :: nat

record projection_state =
  ps_tasks :: "string \<rightharpoonup> task_view"
  ps_count :: nat

definition project_event ::
    "(js_num \<Rightarrow> string) \<Rightarrow> event \<Rightarrow> projection_state \<Rightarrow> projection_state" where
  "project_event shw e s =
     (let s' = s\<lparr>ps_count := Suc (ps_count s)\<rparr>
      in if ev_type e = E_TASK_STATE
         then (case ev_task e of
                 None \<Rightarrow> s'
               | Some t \<Rightarrow> s'\<lparr>ps_tasks := (ps_tasks s')(t \<mapsto>
                   \<lparr>tv_state = js_String shw (fields_get (ev_payload e) ''state''),
                    tv_last_seq = ev_seq e\<rparr>)\<rparr>)
         else s')"

definition projection :: "(js_num \<Rightarrow> string) \<Rightarrow> db \<Rightarrow> projection_state" where
  "projection shw d =
     fold (project_event shw) (all_events None None d) \<lparr>ps_tasks = Map.empty, ps_count = 0\<rparr>"

section \<open>The log is append-only and numbered without gaps\<close>

definition log_inv :: "db \<Rightarrow> bool" where
  "log_inv d \<longleftrightarrow> db_seq d = length (db_events d) \<and> map ev_seq (db_events d) = [1..<Suc (db_seq d)]"

lemma log_inv_open [inv_intros]: "log_inv openDatabase"
  by (simp add: log_inv_def openDatabase_def)

lemma insertEvent_fields [simp]:
  "db_leases (snd (insertEvent now e d)) = db_leases d"
  "db_fences (snd (insertEvent now e d)) = db_fences d"
  "db_events (snd (insertEvent now e d)) = db_events d @ [fst (insertEvent now e d)]"
  "db_seq (snd (insertEvent now e d)) = Suc (db_seq d)"
  "ev_seq (fst (insertEvent now e d)) = Suc (db_seq d)"
  "ev_type (fst (insertEvent now e d)) = ne_type e"
  "ev_task (fst (insertEvent now e d)) = ne_task e"
  "ev_payload (fst (insertEvent now e d)) = ne_payload e"
  by (simp_all add: insertEvent_def Let_def)

lemma log_inv_insert [inv_intros]: "log_inv d \<Longrightarrow> log_inv (snd (insertEvent now e d))"
  by (simp add: log_inv_def)

lemma log_inv_leases [simp]:
  "log_inv (d\<lparr>db_leases := l\<rparr>) = log_inv d" "log_inv (d\<lparr>db_fences := f\<rparr>) = log_inv d"
  by (simp_all add: log_inv_def)

lemma all_events_sorted: "log_inv d \<Longrightarrow> all_events None None d = db_events d"
proof -
  assume "log_inv d"
  then have "sorted (map ev_seq (db_events d))" by (simp add: log_inv_def del: upt_Suc)
  then show ?thesis by (simp add: all_events_def sorted_sort_id sort_key_id_if_sorted)
qed

text \<open>The projection of a task is its last \<open>TASK_STATE\<close> event.\<close>

definition task_states :: "string \<Rightarrow> event list \<Rightarrow> event list" where
  "task_states t es = [e \<leftarrow> es. ev_type e = E_TASK_STATE \<and> ev_task e = Some t]"

definition view_of :: "(js_num \<Rightarrow> string) \<Rightarrow> event list \<Rightarrow> task_view option" where
  "view_of shw es =
     (if es = [] then None
      else Some \<lparr>tv_state = js_String shw (fields_get (ev_payload (last es)) ''state''),
                 tv_last_seq = ev_seq (last es)\<rparr>)"

lemma fold_project_event:
  "ps_tasks (fold (project_event shw) es \<lparr>ps_tasks = Map.empty, ps_count = 0\<rparr>) t =
     view_of shw (task_states t es) \<and>
   ps_count (fold (project_event shw) es \<lparr>ps_tasks = Map.empty, ps_count = 0\<rparr>) = length es"
proof (induction es rule: rev_induct)
  case (snoc e es)
  then show ?case
    by (auto simp: project_event_def Let_def task_states_def view_of_def split: option.splits)
qed (simp add: task_states_def view_of_def)

lemma projection_view:
  "log_inv d \<Longrightarrow> ps_tasks (projection shw d) t = view_of shw (task_states t (db_events d))"
  "log_inv d \<Longrightarrow> ps_count (projection shw d) = length (db_events d)"
  by (simp_all add: projection_def all_events_sorted fold_project_event)

lemma appendFenced_cases:
  obtains "appendFenced now ts e c d = (None, d)"
  | r where "appendFenced now ts e c d = (Some (fst (insertEvent ts e d)), snd (insertEvent ts e d))"
      "db_leases d (fc_task c) = Some r" "lr_owner r = fc_owner c" "lr_token r = fc_token c"
      "\<not> js_lt (lr_until r) (js_int now)"
proof (cases "db_leases d (fc_task c)")
  case None
  then show ?thesis using that(1) by (simp add: appendFenced_def)
next
  case (Some r)
  then show ?thesis using that
    by (cases "lr_owner r \<noteq> fc_owner c \<or> lr_token r \<noteq> fc_token c \<or> js_lt (lr_until r) (js_int now)")
       (simp_all add: appendFenced_def case_prod_beta Let_def)
qed

end
