(* ===== verification/Lease.thy ===== *)
theory Lease
  imports EventLog Machines
begin

text \<open>
  The single-writer lease of a task, \<open>core/src/state/lease.ts\<close>: claims, renewals and releases
  as transactions on the run database, the fencing token that numbers the owners of a task,
  and the session a task loop holds.
\<close>

section \<open>The lease manager\<close>

record lease_claim =
  lc_task :: string
  lc_owner :: string
  lc_token :: int
  lc_until :: js_num

definition LEASE_SAFETY_MARGIN_MS :: js_num where
  "LEASE_SAFETY_MARGIN_MS = js_int 1000"

definition isLeaseTtlValid :: "js_num \<Rightarrow> js_num \<Rightarrow> js_num \<Rightarrow> bool" where
  "isLeaseTtlValid ttl maxAtomic margin \<longleftrightarrow>
     js_finite ttl \<and> js_lt (js_int 0) ttl \<and> js_finite maxAtomic \<and> js_le (js_int 0) maxAtomic \<and>
     js_finite margin \<and> js_le (js_int 0) margin \<and> js_lt (js_add maxAtomic margin) ttl"

definition bad_ttl :: "js_num \<Rightarrow> bool" where
  "bad_ttl ttl \<longleftrightarrow> \<not> js_finite ttl \<or> js_le ttl (js_int 0)"

definition lease_event :: "string \<Rightarrow> string \<Rightarrow> event_type \<Rightarrow> payload \<Rightarrow> new_event" where
  "lease_event run t ty p = \<lparr>ne_run = run, ne_task = Some t, ne_type = ty, ne_payload = p\<rparr>"

definition lease_payload :: "string \<Rightarrow> string \<Rightarrow> js_num \<Rightarrow> int \<Rightarrow> payload" where
  "lease_payload t owner until token =
     [(''taskId'', VStr t), (''ownerId'', VStr owner), (''leaseUntil'', VNum until),
      (''fencingToken'', vint token)]"

text \<open>The token of a successful claim: one more than the last generation of the task, except
  that a live claim of the same owner keeps its own.\<close>

definition claim_token :: "int \<Rightarrow> string \<Rightarrow> string \<Rightarrow> db \<Rightarrow> int" where
  "claim_token now t owner d =
     (case db_leases d t of
        None \<Rightarrow> max 0 (case db_fences d t of None \<Rightarrow> 0 | Some f \<Rightarrow> f) + 1
      | Some r \<Rightarrow>
          if lr_owner r = owner \<and> js_le (js_int now) (lr_until r) then max 1 (lr_token r)
          else max 0 (lr_token r) + 1)"

definition claimLease ::
    "string \<Rightarrow> int \<Rightarrow> int \<Rightarrow> string \<Rightarrow> string \<Rightarrow> js_num \<Rightarrow> db \<Rightarrow> lease_claim option \<times> db" where
  "claimLease run now ts t owner ttl d =
     (if bad_ttl ttl then (None, d)
      else if (case db_leases d t of None \<Rightarrow> False
               | Some r \<Rightarrow> lr_owner r \<noteq> owner \<and> js_le (js_int now) (lr_until r))
      then (None, d)
      else
        let until = js_add (js_int now) ttl;
            token = claim_token now t owner d;
            d1 = d\<lparr>db_leases := (db_leases d)(t \<mapsto>
                    \<lparr>lr_owner = owner, lr_until = until, lr_token = token\<rparr>),
                   db_fences := (db_fences d)(t \<mapsto> token)\<rparr>;
            d2 = snd (insertEvent ts (lease_event run t E_LEASE_CLAIMED
                   (lease_payload t owner until token)) d1)
        in (Some \<lparr>lc_task = t, lc_owner = owner, lc_token = token, lc_until = until\<rparr>, d2))"

definition claim ::
    "string \<Rightarrow> int \<Rightarrow> int \<Rightarrow> string \<Rightarrow> string \<Rightarrow> js_num \<Rightarrow> db \<Rightarrow> bool \<times> db" where
  "claim run now ts t owner ttl d =
     (let (c, d') = claimLease run now ts t owner ttl d in (c \<noteq> None, d'))"

definition row_live :: "int \<Rightarrow> string \<Rightarrow> int \<Rightarrow> lease_row \<Rightarrow> bool" where
  "row_live now owner token r \<longleftrightarrow>
     lr_owner r = owner \<and> lr_token r = token \<and> js_le (js_int now) (lr_until r)"

definition renewLease ::
    "string \<Rightarrow> int \<Rightarrow> int \<Rightarrow> string \<Rightarrow> string \<Rightarrow> int \<Rightarrow> js_num \<Rightarrow> db \<Rightarrow> lease_claim option \<times> db" where
  "renewLease run now ts t owner token ttl d =
     (if bad_ttl ttl then (None, d)
      else case db_leases d t of
        None \<Rightarrow> (None, d)
      | Some r \<Rightarrow>
          if row_live now owner token r then
            let until = js_add (js_int now) ttl;
                d1 = d\<lparr>db_leases := (db_leases d)(t \<mapsto> r\<lparr>lr_until := until\<rparr>)\<rparr>;
                d2 = snd (insertEvent ts (lease_event run t E_LEASE_RENEWED
                       (lease_payload t owner until token)) d1)
            in (Some \<lparr>lc_task = t, lc_owner = owner, lc_token = token, lc_until = until\<rparr>, d2)
          else (None, d))"

definition renew ::
    "string \<Rightarrow> int \<Rightarrow> int \<Rightarrow> string \<Rightarrow> string \<Rightarrow> js_num \<Rightarrow> db \<Rightarrow> bool \<times> db" where
  "renew run now ts t owner ttl d =
     (case db_leases d t of
        None \<Rightarrow> (False, d)
      | Some r \<Rightarrow>
          if lr_owner r = owner
          then (let (c, d') = renewLease run now ts t owner (lr_token r) ttl d in (c \<noteq> None, d'))
          else (False, d))"

definition verify :: "int \<Rightarrow> string \<Rightarrow> string \<Rightarrow> int \<Rightarrow> db \<Rightarrow> bool" where
  "verify now t owner token d =
     (case db_leases d t of None \<Rightarrow> False | Some r \<Rightarrow> row_live now owner token r)"

definition release :: "string \<Rightarrow> int \<Rightarrow> string \<Rightarrow> string \<Rightarrow> db \<Rightarrow> db" where
  "release run ts t owner d =
     (case db_leases d t of
        None \<Rightarrow> d
      | Some r \<Rightarrow>
          if lr_owner r = owner
          then snd (insertEvent ts (lease_event run t E_LEASE_RELEASED
                 [(''taskId'', VStr t), (''ownerId'', VStr owner)])
                 (d\<lparr>db_leases := (db_leases d)(t := None)\<rparr>))
          else d)"

definition releaseLease :: "string \<Rightarrow> int \<Rightarrow> string \<Rightarrow> string \<Rightarrow> int \<Rightarrow> db \<Rightarrow> db" where
  "releaseLease run ts t owner token d =
     (case db_leases d t of
        None \<Rightarrow> d
      | Some r \<Rightarrow>
          if lr_owner r = owner \<and> lr_token r = token
          then snd (insertEvent ts (lease_event run t E_LEASE_RELEASED
                 [(''taskId'', VStr t), (''ownerId'', VStr owner), (''fencingToken'', vint token)])
                 (d\<lparr>db_leases := (db_leases d)(t := None)\<rparr>))
          else d)"

section \<open>Histories of one database\<close>

text \<open>
  Any number of processes work on one database; each operation below is one transaction of
  one of them, with the clock readings it made. Lease events are written by the lease
  manager only.
\<close>

datatype db_op =
    OpAppend new_event
  | OpAppendFenced new_event fenced_claim
  | OpClaim string string string js_num
  | OpRenew string string string int js_num
  | OpRelease string string string
  | OpReleaseLease string string string int

fun run_op :: "int \<Rightarrow> int \<Rightarrow> db_op \<Rightarrow> db \<Rightarrow> db" where
  "run_op now ts (OpAppend e) d = snd (append ts e d)"
| "run_op now ts (OpAppendFenced e c) d = snd (appendFenced now ts e c d)"
| "run_op now ts (OpClaim run t ow ttl) d = snd (claimLease run now ts t ow ttl d)"
| "run_op now ts (OpRenew run t ow tok ttl) d = snd (renewLease run now ts t ow tok ttl d)"
| "run_op now ts (OpRelease run t ow) d = release run ts t ow d"
| "run_op now ts (OpReleaseLease run t ow tok) d = releaseLease run ts t ow tok d"

fun client_op :: "db_op \<Rightarrow> bool" where
  "client_op (OpAppend e) = (ne_type e \<noteq> E_LEASE_CLAIMED)"
| "client_op (OpAppendFenced e c) = (ne_type e \<noteq> E_LEASE_CLAIMED)"
| "client_op _ = True"

inductive db_reach :: "db \<Rightarrow> bool" where
  db_open: "db_reach openDatabase"
| db_step: "db_reach d \<Longrightarrow> client_op oper \<Longrightarrow> db_reach (run_op now ts oper d)"

section \<open>Generations\<close>

definition gen :: "string \<Rightarrow> db \<Rightarrow> int" where
  "gen t d = (case db_fences d t of None \<Rightarrow> 0 | Some f \<Rightarrow> f)"

text \<open>\<open>claim_entry e t ow k\<close>: the event \<open>e\<close> records the claim of \<open>t\<close> by \<open>ow\<close> as generation \<open>k\<close>.\<close>

definition claim_entry :: "event \<Rightarrow> string \<Rightarrow> string \<Rightarrow> int \<Rightarrow> bool" where
  "claim_entry e t ow k \<longleftrightarrow>
     ev_type e = E_LEASE_CLAIMED \<and> ev_task e = Some t \<and> (\<exists>u. ev_payload e = lease_payload t ow u k)"

definition rows_inv :: "db \<Rightarrow> bool" where
  "rows_inv d \<longleftrightarrow>
     (\<forall>t r. db_leases d t = Some r \<longrightarrow> db_fences d t = Some (lr_token r)) \<and>
     (\<forall>t f. db_fences d t = Some f \<longrightarrow> 1 \<le> f)"

definition claims_inv :: "db \<Rightarrow> bool" where
  "claims_inv d \<longleftrightarrow>
     (\<forall>e \<in> set (db_events d). \<forall>t ow k. claim_entry e t ow k \<longrightarrow>
        k \<le> gen t d \<and> (\<forall>r. db_leases d t = Some r \<longrightarrow> k = gen t d \<longrightarrow> lr_owner r = ow)) \<and>
     (\<forall>e1 \<in> set (db_events d). \<forall>e2 \<in> set (db_events d). \<forall>t o1 o2 k.
        claim_entry e1 t o1 k \<longrightarrow> claim_entry e2 t o2 k \<longrightarrow> o1 = o2)"

lemma claim_entry_insert [simp]:
  "claim_entry (fst (insertEvent ts e d)) t ow k \<longleftrightarrow>
     ne_type e = E_LEASE_CLAIMED \<and> ne_task e = Some t \<and> (\<exists>u. ne_payload e = lease_payload t ow u k)"
  by (simp add: claim_entry_def)

lemma lease_payload_eq [simp]:
  "lease_payload t o1 u1 k1 = lease_payload t o2 u2 k2 \<longleftrightarrow> o1 = o2 \<and> u1 = u2 \<and> k1 = k2"
  by (auto simp: lease_payload_def)

lemma gen_events [simp]: "gen t (snd (insertEvent ts e d)) = gen t d"
  by (simp add: gen_def)

lemma gen_leases [simp]: "gen t (d\<lparr>db_leases := l\<rparr>) = gen t d"
  by (simp add: gen_def)

text \<open>The two outcomes of each transaction.\<close>

lemma claimLease_cases:
  obtains (refused) "claimLease run now ts t ow ttl d = (None, d)"
  | (granted) until token where
      "until = js_add (js_int now) ttl" "token = claim_token now t ow d" "\<not> bad_ttl ttl"
      "\<And>r. db_leases d t = Some r \<Longrightarrow> lr_owner r = ow \<or> \<not> js_le (js_int now) (lr_until r)"
      "claimLease run now ts t ow ttl d =
         (Some \<lparr>lc_task = t, lc_owner = ow, lc_token = token, lc_until = until\<rparr>,
          snd (insertEvent ts (lease_event run t E_LEASE_CLAIMED (lease_payload t ow until token))
            (d\<lparr>db_leases := (db_leases d)(t \<mapsto>
                    \<lparr>lr_owner = ow, lr_until = until, lr_token = token\<rparr>),
               db_fences := (db_fences d)(t \<mapsto> token)\<rparr>)))"
proof (cases "bad_ttl ttl \<or> (\<exists>r. db_leases d t = Some r \<and> lr_owner r \<noteq> ow \<and> js_le (js_int now) (lr_until r))")
  case True
  then show ?thesis by (intro refused) (auto simp: claimLease_def)
next
  case False
  then have "\<not> (case db_leases d t of None \<Rightarrow> False
               | Some r \<Rightarrow> lr_owner r \<noteq> ow \<and> js_le (js_int now) (lr_until r))"
    by (auto split: option.splits)
  with False show ?thesis by (intro granted) (auto simp: claimLease_def Let_def)
qed

lemma gen_row: "rows_inv d \<Longrightarrow> db_leases d t = Some r \<Longrightarrow> lr_token r = gen t d \<and> 1 \<le> gen t d"
  by (force simp: rows_inv_def gen_def)

lemma gen_nonneg: "rows_inv d \<Longrightarrow> 0 \<le> gen t d"
  by (cases "db_fences d t") (force simp: rows_inv_def gen_def)+

lemma claim_token_row:
  "rows_inv d \<Longrightarrow> db_leases d t = Some r \<Longrightarrow>
     claim_token now t ow d =
       (if lr_owner r = ow \<and> js_le (js_int now) (lr_until r) then gen t d else gen t d + 1)"
  using gen_row [of d t r] by (simp add: claim_token_def)

lemma claim_token_none:
  "rows_inv d \<Longrightarrow> db_leases d t = None \<Longrightarrow> claim_token now t ow d = gen t d + 1"
  using gen_nonneg [of d t] by (simp add: claim_token_def gen_def)

lemma claim_token_gen:
  assumes "rows_inv d"
  shows "(claim_token now t ow d = gen t d \<and> 1 \<le> gen t d \<and>
            (\<exists>r. db_leases d t = Some r \<and> lr_owner r = ow \<and> js_le (js_int now) (lr_until r)))
         \<or> claim_token now t ow d = gen t d + 1"
proof (cases "db_leases d t")
  case None
  then show ?thesis using assms by (simp add: claim_token_none)
next
  case (Some r)
  then show ?thesis using assms gen_row [of d t r] by (simp add: claim_token_row)
qed

lemma renewLease_cases:
  obtains "renewLease run now ts t ow tok ttl d = (None, d)"
  | r until where "db_leases d t = Some r" "row_live now ow tok r" "\<not> bad_ttl ttl"
      "until = js_add (js_int now) ttl"
      "renewLease run now ts t ow tok ttl d =
         (Some \<lparr>lc_task = t, lc_owner = ow, lc_token = tok, lc_until = until\<rparr>,
          snd (insertEvent ts (lease_event run t E_LEASE_RENEWED (lease_payload t ow until tok))
            (d\<lparr>db_leases := (db_leases d)(t \<mapsto> r\<lparr>lr_until := until\<rparr>)\<rparr>)))"
proof (cases "\<not> bad_ttl ttl \<and> (\<exists>r. db_leases d t = Some r \<and> row_live now ow tok r)")
  case True
  then obtain r where "db_leases d t = Some r" "row_live now ow tok r" by blast
  with True show ?thesis by (intro that(2) [of r]) (auto simp: renewLease_def Let_def)
next
  case False
  then show ?thesis by (intro that(1)) (auto simp: renewLease_def split: option.splits)
qed

lemma releaseLease_cases:
  obtains "releaseLease run ts t ow tok d = d"
  | r p where "db_leases d t = Some r" "lr_owner r = ow" "lr_token r = tok"
      "releaseLease run ts t ow tok d = snd (insertEvent ts (lease_event run t E_LEASE_RELEASED p)
         (d\<lparr>db_leases := (db_leases d)(t := None)\<rparr>))"
proof (cases "\<exists>r. db_leases d t = Some r \<and> lr_owner r = ow \<and> lr_token r = tok")
  case True
  then obtain r where "db_leases d t = Some r" "lr_owner r = ow" "lr_token r = tok" by blast
  then show ?thesis by (intro that(2) [of r]) (auto simp: releaseLease_def)
next
  case False
  then show ?thesis by (intro that(1)) (auto simp: releaseLease_def split: option.splits)
qed

lemma release_cases:
  obtains "release run ts t ow d = d"
  | r p where "db_leases d t = Some r" "lr_owner r = ow"
      "release run ts t ow d = snd (insertEvent ts (lease_event run t E_LEASE_RELEASED p)
         (d\<lparr>db_leases := (db_leases d)(t := None)\<rparr>))"
proof (cases "\<exists>r. db_leases d t = Some r \<and> lr_owner r = ow")
  case True
  then obtain r where "db_leases d t = Some r" "lr_owner r = ow" by blast
  then show ?thesis by (intro that(2) [of r]) (auto simp: release_def)
next
  case False
  then show ?thesis by (intro that(1)) (auto simp: release_def split: option.splits)
qed

section \<open>Invariants of every history\<close>

definition db_inv :: "db \<Rightarrow> bool" where
  "db_inv d \<longleftrightarrow> log_inv d \<and> rows_inv d \<and> claims_inv d"

text \<open>Appending an event that is no claim, and dropping or prolonging a row, keep everything.\<close>

lemma claims_inv_insert:
  "claims_inv d \<Longrightarrow> ne_type e \<noteq> E_LEASE_CLAIMED \<Longrightarrow> claims_inv (snd (insertEvent ts e d))"
  by (auto simp: claims_inv_def)

lemma rows_inv_insert [simp]: "rows_inv (snd (insertEvent ts e d)) = rows_inv d"
  by (simp add: rows_inv_def)

lemma db_inv_insert:
  "db_inv d \<Longrightarrow> ne_type e \<noteq> E_LEASE_CLAIMED \<Longrightarrow> db_inv (snd (insertEvent ts e d))"
  by (simp add: db_inv_def claims_inv_insert log_inv_insert)

lemma db_inv_leases:
  assumes "db_inv d"
    and "\<And>t r. l t = Some r \<Longrightarrow> \<exists>r0. db_leases d t = Some r0 \<and> lr_owner r = lr_owner r0 \<and> lr_token r = lr_token r0"
  shows "db_inv (d\<lparr>db_leases := l\<rparr>)"
proof -
  have "rows_inv (d\<lparr>db_leases := l\<rparr>)" using assms unfolding db_inv_def rows_inv_def by force
  moreover have "claims_inv (d\<lparr>db_leases := l\<rparr>)"
    using assms unfolding db_inv_def claims_inv_def gen_leases by (simp, metis)
  ultimately show ?thesis using assms(1) by (simp add: db_inv_def)
qed

lemma db_inv_drop: "db_inv d \<Longrightarrow> db_inv (d\<lparr>db_leases := (db_leases d)(t := None)\<rparr>)"
  by (rule db_inv_leases) (auto split: if_splits)

lemma db_inv_prolong:
  "db_inv d \<Longrightarrow> db_leases d t = Some r \<Longrightarrow>
     db_inv (d\<lparr>db_leases := (db_leases d)(t \<mapsto> r\<lparr>lr_until := u\<rparr>)\<rparr>)"
  by (rule db_inv_leases) (auto split: if_splits)

lemma lease_event_type [simp]:
  "ne_type (lease_event run t ty p) = ty" "ne_task (lease_event run t ty p) = Some t"
  "ne_payload (lease_event run t ty p) = p"
  by (simp_all add: lease_event_def)

lemma claim_grows:
  assumes "db_inv d" and "\<And>r. db_leases d t = Some r \<Longrightarrow> lr_owner r = ow \<or> \<not> js_le (js_int now) (lr_until r)"
  shows "db_inv (snd (insertEvent ts
      (lease_event run t E_LEASE_CLAIMED (lease_payload t ow u (claim_token now t ow d)))
      (d\<lparr>db_leases := (db_leases d)(t \<mapsto>
            \<lparr>lr_owner = ow, lr_until = u, lr_token = claim_token now t ow d\<rparr>),
         db_fences := (db_fences d)(t \<mapsto> claim_token now t ow d)\<rparr>)))"
    (is "db_inv (snd (insertEvent ts ?e ?d))")
proof -
  let ?k = "claim_token now t ow d"
  have rows: "rows_inv d" and claims: "claims_inv d" and log: "log_inv d"
    using assms(1) by (auto simp: db_inv_def)
  have k: "(?k = gen t d \<and> (\<exists>r. db_leases d t = Some r \<and> lr_owner r = ow)) \<or> ?k = gen t d + 1"
    using claim_token_gen [OF rows, of now t ow] by blast
  have ge: "1 \<le> ?k" using claim_token_gen [OF rows, of now t ow] gen_nonneg [OF rows, of t] by linarith
  have gen': "gen s ?d = (if s = t then ?k else gen s d)" for s by (simp add: gen_def)
  have mono: "gen s d \<le> gen s ?d" for s using k by (auto simp: gen')
  have old: "k' \<le> gen s ?d \<and> (k' = gen s ?d \<longrightarrow> s = t \<longrightarrow> o' = ow)"
    if "e \<in> set (db_events d)" "claim_entry e s o' k'" for e s o' k'
  proof -
    from claims that have le: "k' \<le> gen s d"
      and own: "\<And>r. db_leases d s = Some r \<Longrightarrow> k' = gen s d \<Longrightarrow> lr_owner r = o'"
      by (auto simp: claims_inv_def)
    have "o' = ow" if "k' = gen s ?d" "s = t"
      using that le own k by (auto simp: gen')
    then show ?thesis using le mono [of s] by auto
  qed
  have "claims_inv (snd (insertEvent ts ?e ?d))"
    unfolding claims_inv_def
  proof (intro conjI ballI allI impI)
    fix e s o' k' assume e: "e \<in> set (db_events (snd (insertEvent ts ?e ?d)))" and c: "claim_entry e s o' k'"
    then consider "e \<in> set (db_events d)" | "s = t" "o' = ow" "k' = ?k" by auto
    note split = this
    from split show "k' \<le> gen s (snd (insertEvent ts ?e ?d))"
    proof cases
      case 1
      then show ?thesis using old c by simp
    qed (simp add: gen')
    fix r assume r: "db_leases (snd (insertEvent ts ?e ?d)) s = Some r" "k' = gen s (snd (insertEvent ts ?e ?d))"
    from split show "lr_owner r = o'"
    proof cases
      case 1
      then show ?thesis using old [OF 1 c] r claims c by (auto simp: gen' claims_inv_def split: if_splits)
    next
      case 2
      then show ?thesis using r by auto
    qed
  next
    fix e1 e2 s o1 o2 k'
    assume e: "e1 \<in> set (db_events (snd (insertEvent ts ?e ?d)))" "e2 \<in> set (db_events (snd (insertEvent ts ?e ?d)))"
      and c: "claim_entry e1 s o1 k'" "claim_entry e2 s o2 k'"
    have new: "o' = ow" if "e \<in> set (db_events (snd (insertEvent ts ?e ?d)))" "claim_entry e s o' k'"
      and "k' = ?k" "s = t" for e o'
    proof (cases "e \<in> set (db_events d)")
      case True
      then show ?thesis using old [OF True that(2)] that(3,4) by (simp add: gen')
    next
      case False
      then have "e = fst (insertEvent ts ?e ?d)" using that(1) by simp
      then have "\<exists>ua. lease_payload t ow u ?k = lease_payload s o' ua k'" using that(2) by auto
      then show ?thesis by (auto simp: that(4))
    qed
    show "o1 = o2"
    proof (cases "e1 \<in> set (db_events d) \<and> e2 \<in> set (db_events d)")
      case True
      then show ?thesis using claims c unfolding claims_inv_def by blast
    next
      case False
      then have "k' = ?k \<and> s = t" using e c by auto
      then show ?thesis using new [OF e(1) c(1)] new [OF e(2) c(2)] by simp
    qed
  qed
  moreover have "rows_inv ?d" using rows ge by (auto simp: rows_inv_def)
  ultimately show ?thesis using log by (simp add: db_inv_def log_inv_def)
qed

lemma db_inv_claimLease: "db_inv d \<Longrightarrow> db_inv (snd (claimLease run now ts t ow ttl d))"
  by (cases run now ts t ow ttl d rule: claimLease_cases) (auto intro: claim_grows)

lemma db_inv_renewLease: "db_inv d \<Longrightarrow> db_inv (snd (renewLease run now ts t ow tok ttl d))"
  by (cases run now ts t ow tok ttl d rule: renewLease_cases)
     (auto intro!: db_inv_insert db_inv_prolong)

lemma db_inv_release: "db_inv d \<Longrightarrow> db_inv (release run ts t ow d)"
  by (cases run ts t ow d rule: release_cases) (auto intro!: db_inv_insert db_inv_drop)

lemma db_inv_releaseLease: "db_inv d \<Longrightarrow> db_inv (releaseLease run ts t ow tok d)"
  by (cases run ts t ow tok d rule: releaseLease_cases) (auto intro!: db_inv_insert db_inv_drop)

lemma db_inv_appendFenced:
  "db_inv d \<Longrightarrow> ne_type e \<noteq> E_LEASE_CLAIMED \<Longrightarrow> db_inv (snd (appendFenced now ts e c d))"
  by (cases now ts e c d rule: appendFenced_cases) (auto intro: db_inv_insert)

lemmas db_inv_ops = db_inv_claimLease db_inv_renewLease db_inv_release db_inv_releaseLease
  db_inv_appendFenced db_inv_insert

lemma db_inv_op: "db_inv d \<Longrightarrow> client_op oper \<Longrightarrow> db_inv (run_op now ts oper d)"
  by (cases oper) (auto simp: append_def intro: db_inv_ops)

lemma db_inv_open: "db_inv openDatabase"
  using log_inv_open by (simp add: db_inv_def rows_inv_def claims_inv_def openDatabase_def)

lemma db_reach_inv: "db_reach d \<Longrightarrow> db_inv d"
  by (induction rule: db_reach.induct) (auto intro: db_inv_open db_inv_op)

text \<open>Generations never go back.\<close>

lemma gen_upd: "gen s (d\<lparr>db_leases := l, db_fences := (db_fences d)(t \<mapsto> k)\<rparr>) = (if s = t then k else gen s d)"
  by (simp add: gen_def)

lemma gen_claimLease: "rows_inv d \<Longrightarrow> gen s d \<le> gen s (snd (claimLease run now ts t ow ttl d))"
  using claim_token_gen [of d now t ow]
  by (cases run now ts t ow ttl d rule: claimLease_cases) (auto simp: gen_upd)

lemma gen_renewLease [simp]: "gen s (snd (renewLease run now ts t ow tok ttl d)) = gen s d"
  by (cases run now ts t ow tok ttl d rule: renewLease_cases) auto

lemma gen_release [simp]:
  "gen s (release run ts t ow d) = gen s d" "gen s (releaseLease run ts t ow tok d) = gen s d"
  by (cases run ts t ow d rule: release_cases; simp)
     (cases run ts t ow tok d rule: releaseLease_cases; simp)

lemma gen_appendFenced [simp]: "gen s (snd (appendFenced now ts e c d)) = gen s d"
  by (cases now ts e c d rule: appendFenced_cases) auto

lemma gen_op: "db_inv d \<Longrightarrow> gen s d \<le> gen s (run_op now ts oper d)"
  by (cases oper) (auto simp: append_def db_inv_def intro: gen_claimLease)

text \<open>Events are never removed or changed.\<close>

lemma events_op: "\<exists>es. db_events (run_op now ts oper d) = db_events d @ es"
proof (cases oper)
  case (OpAppendFenced e c)
  then show ?thesis by (cases now ts e c d rule: appendFenced_cases) auto
next
  case (OpClaim run t ow ttl)
  then show ?thesis by (cases run now ts t ow ttl d rule: claimLease_cases) auto
next
  case (OpRenew run t ow tok ttl)
  then show ?thesis by (cases run now ts t ow tok ttl d rule: renewLease_cases) auto
next
  case (OpRelease run t ow)
  then show ?thesis by (cases run ts t ow d rule: release_cases) auto
next
  case (OpReleaseLease run t ow tok)
  then show ?thesis by (cases run ts t ow tok d rule: releaseLease_cases) auto
qed (simp add: append_def)

section \<open>The manager provides the lease interface\<close>

definition lease_world :: "db \<Rightarrow> db \<Rightarrow> bool" where
  "lease_world d d' \<longleftrightarrow> (\<exists>now ts oper. client_op oper \<and> d' = run_op now ts oper d)"

definition claim_pair ::
    "string \<Rightarrow> int \<Rightarrow> string \<Rightarrow> int \<Rightarrow> string \<Rightarrow> js_num \<Rightarrow> db \<Rightarrow> int option \<times> db" where
  "claim_pair run ts t now ow ttl d =
     (let (c, d') = claimLease run now ts t ow ttl d in (map_option lc_token c, d'))"

lemma verify_row:
  "verify now t ow k d \<longleftrightarrow> (\<exists>r. db_leases d t = Some r \<and> row_live now ow k r)"
  by (simp add: verify_def split: option.splits)

interpretation task_lease: lease_service "claim_pair run ts t" "\<lambda>now ow k. verify now t ow k"
  "\<lambda>ow k. releaseLease run ts t ow k" "gen t" db_inv lease_world
proof (unfold_locales, goal_cases)
  case (1 d now ow k)
  then show ?case using gen_row [of d t] by (auto simp: verify_row row_live_def db_inv_def)
next
  case (2 d n1 o1 k n2 o2)
  then show ?case by (auto simp: verify_row row_live_def)
next
  case (3 d d')
  then show ?case by (auto simp: lease_world_def intro: db_inv_op gen_op)
next
  case (4 now ow ttl d c d')
  then have "d' = run_op now ts (OpClaim run t ow ttl) d" by (auto simp: claim_pair_def split: prod.splits)
  then have "lease_world d d'" unfolding lease_world_def
    by (intro exI [of _ now] exI [of _ ts] exI [of _ "OpClaim run t ow ttl"]) simp
  then show ?case ..
next
  case (5 d now ow ttl k d')
  then show ?case
  proof (cases run now ts t ow ttl d rule: claimLease_cases)
    case (granted until token)
    then have "k = claim_token now t ow d" "gen t d' = k"
      using 5(2) by (auto simp: claim_pair_def gen_upd)
    moreover have "rows_inv d" using 5(1) by (simp add: db_inv_def)
    ultimately show ?thesis
      using claim_token_gen [of d now t ow] gen_row [of d t] by (auto simp: verify_row row_live_def)
  qed (simp add: claim_pair_def)
next
  case (6 d now o1 k1 o2 ttl)
  then show ?case by (auto simp: verify_row row_live_def claim_pair_def claimLease_def)
next
  case (7 d now o1 k1 o2 k2)
  then show ?case by (auto simp: verify_row row_live_def releaseLease_def)
qed

section \<open>The session of a task loop\<close>

text \<open>
  \<open>acquireTaskLease\<close>: the handle through which a loop uses its lease. The timer of
  \<open>startHeartbeat\<close> calls \<open>heartbeat\<close>; here its state is whether it runs.
\<close>

record session =
  se_task :: string
  se_owner :: string
  se_ttl :: js_num
  se_claim :: lease_claim
  se_timer :: bool
  se_active :: bool
  se_lost :: bool

definition acquireTaskLease ::
    "string \<Rightarrow> int \<Rightarrow> int \<Rightarrow> string \<Rightarrow> string \<Rightarrow> js_num \<Rightarrow> db \<Rightarrow> session option \<times> db" where
  "acquireTaskLease run now ts t ow ttl d =
     (case claimLease run now ts t ow ttl d of
        (None, d') \<Rightarrow> (None, d')
      | (Some c, d') \<Rightarrow>
          (Some \<lparr>se_task = t, se_owner = ow, se_ttl = ttl, se_claim = c, se_timer = False,
                 se_active = True, se_lost = False\<rparr>, d'))"

definition heartbeat :: "string \<Rightarrow> int \<Rightarrow> int \<Rightarrow> session \<Rightarrow> db \<Rightarrow> bool \<times> session \<times> db" where
  "heartbeat run now ts se d =
     (if \<not> se_active se \<or> se_lost se then (False, se, d)
      else case renewLease run now ts (se_task se) (se_owner se) (lc_token (se_claim se)) (se_ttl se) d of
        (None, d') \<Rightarrow> (False, se\<lparr>se_lost := True\<rparr>, d')
      | (Some c, d') \<Rightarrow> (True, se\<lparr>se_claim := c\<rparr>, d'))"

definition verifyOwnership :: "int \<Rightarrow> session \<Rightarrow> db \<Rightarrow> bool \<times> session" where
  "verifyOwnership now se d =
     (if \<not> se_active se \<or> se_lost se \<or>
         \<not> verify now (se_task se) (se_owner se) (lc_token (se_claim se)) d
      then (False, se\<lparr>se_lost := True\<rparr>) else (True, se))"

definition reacquireAfterPause ::
    "string \<Rightarrow> int \<Rightarrow> int \<Rightarrow> session \<Rightarrow> db \<Rightarrow> bool \<times> session \<times> db" where
  "reacquireAfterPause run now ts se d =
     (if \<not> se_active se then (False, se, d)
      else case claimLease run now ts (se_task se) (se_owner se) (se_ttl se) d of
        (None, d') \<Rightarrow> (False, se\<lparr>se_lost := True\<rparr>, d')
      | (Some c, d') \<Rightarrow> (True, se\<lparr>se_claim := c, se_lost := False\<rparr>, d'))"

definition startHeartbeat :: "session \<Rightarrow> session" where
  "startHeartbeat se = (if \<not> se_active se \<or> se_timer se then se else se\<lparr>se_timer := True\<rparr>)"

definition stopHeartbeat :: "session \<Rightarrow> session" where
  "stopHeartbeat se = (if se_timer se then se\<lparr>se_timer := False\<rparr> else se)"

definition release_session :: "string \<Rightarrow> int \<Rightarrow> session \<Rightarrow> db \<Rightarrow> session \<times> db" where
  "release_session run ts se d =
     (if \<not> se_active se then (se, d)
      else (stopHeartbeat (se\<lparr>se_active := False\<rparr>),
            releaseLease run ts (se_task se) (se_owner se) (lc_token (se_claim se)) d))"

lemma verifyOwnership_True:
  "fst (verifyOwnership now se d) \<longleftrightarrow>
     se_active se \<and> \<not> se_lost se \<and> verify now (se_task se) (se_owner se) (lc_token (se_claim se)) d"
  by (simp add: verifyOwnership_def)

text \<open>A lost session stays lost until it reacquires; nothing it does before then writes.\<close>

lemma lost_session:
  assumes "se_lost se"
  shows "\<not> fst (verifyOwnership now se d)" "heartbeat run now ts se d = (False, se, d)"
    "se_lost (snd (verifyOwnership now se d))"
  using assms by (simp_all add: verifyOwnership_def heartbeat_def)

section \<open>Properties\<close>

text \<open>C4: fencing. Once another owner has taken a task over, the old owner's generation is dead in
  every later state of the database: it no longer verifies, its fenced append is refused and
  writes nothing, it cannot renew, and its release does not touch the new owner's lease.\<close>

theorem takeover_fences_old_owner:
  assumes "db_reach d" and "verify n1 t o1 k1 d"
    and "claimLease run n2 ts t o2 ttl d = (Some c, d')" and "o1 \<noteq> o2"
    and "lease_world\<^sup>*\<^sup>* d' d''"
  shows "\<not> verify n3 t o1 k1 d'' \<and>
    appendFenced n3 ts3 e \<lparr>fc_task = t, fc_owner = o1, fc_token = k1\<rparr> d'' = (None, d'') \<and>
    renewLease run' n3 ts3 t o1 k1 ttl3 d'' = (None, d'') \<and>
    releaseLease run' ts3 t o1 k1 d'' = d''"
proof -
  have "claim_pair run ts t n2 o2 ttl d = (Some (lc_token c), d')"
    using assms(3) by (simp add: claim_pair_def)
  from task_lease.takeover_gener [OF db_reach_inv [OF assms(1)] assms(2) this assms(4,5)]
  have inv: "db_inv d''" and lt: "k1 < gen t d''" by auto
  have "lr_token r \<noteq> k1" if "db_leases d'' t = Some r" for r
    using gen_row [of d'' t r] that inv lt by (auto simp: db_inv_def)
  then show ?thesis
    by (auto simp: verify_def row_live_def appendFenced_def renewLease_def releaseLease_def
        split: option.splits)
qed

definition db_example :: db where
  "db_example = snd (claimLease ''r'' 0 0 ''t'' ''a'' (js_int 10) openDatabase)"

lemma db_reach_example: "db_reach db_example"
  using db_reach.db_step [OF db_reach.db_open, of "OpClaim ''r'' ''t'' ''a'' (js_int 10)" 0 0]
  by (simp add: db_example_def)

lemmas lease_eval = claimLease_def claim_token_def openDatabase_def insertEvent_def
  bad_ttl_def lease_event_def lease_payload_def verify_def row_live_def Let_def js_simps

theorem takeover_fences_old_owner_witness:
  "\<exists>c d'. claimLease ''r'' 20 20 ''t'' ''b'' (js_int 10) db_example = (Some c, d') \<and>
     \<not> verify 20 ''t'' ''a'' 1 d' \<and> releaseLease ''r'' 21 ''t'' ''a'' 1 d' = d'"
proof -
  have v: "verify 5 ''t'' ''a'' 1 db_example"
    by (simp add: db_example_def lease_eval)
  obtain c d' where c: "claimLease ''r'' 20 20 ''t'' ''b'' (js_int 10) db_example = (Some c, d')"
    by (simp add: db_example_def lease_eval)
  have "''a'' \<noteq> ''b''" by simp
  from takeover_fences_old_owner [OF db_reach_example v c this rtranclp.rtrancl_refl] c
  show ?thesis by blast
qed

text \<open>A fencing generation names one owner for ever: two claims of one task recorded with the same
  token were made by the same owner, and no claim ever carries a token above the stored fence.\<close>

theorem generation_has_one_owner:
  assumes "db_reach d" and "e1 \<in> set (db_events d)" and "e2 \<in> set (db_events d)"
    and "claim_entry e1 t o1 k" and "claim_entry e2 t o2 k"
  shows "o1 = o2 \<and> k \<le> gen t d"
  using db_reach_inv [OF assms(1)] assms(2-5) unfolding db_inv_def claims_inv_def by blast

theorem generation_has_one_owner_witness:
  "claim_entry (hd (db_events db_example)) ''t'' ''a'' 1 \<and> 1 \<le> gen ''t'' db_example"
proof -
  have c: "claim_entry (hd (db_events db_example)) ''t'' ''a'' 1"
    by (simp add: db_example_def lease_eval claim_entry_def)
  have m: "hd (db_events db_example) \<in> set (db_events db_example)"
    by (simp add: db_example_def lease_eval)
  show ?thesis using generation_has_one_owner [OF db_reach_example m m c c] c by simp
qed

text \<open>The log is append-only and numbered 1, 2, 3, ... without a gap, whatever transactions the
  clients run; and a fenced append that succeeds does so before any replacement owner has claimed
  the task: every claim of the task recorded so far has a token at most the appender's, and
  the claims of that token are the appender's own.\<close>

theorem log_append_only_and_fenced:
  assumes "db_reach d" and "client_op oper"
  shows "(\<exists>es. db_events (run_op now ts oper d) = db_events d @ es) \<and>
    map ev_seq (db_events (run_op now ts oper d)) = [1..<Suc (length (db_events (run_op now ts oper d)))] \<and>
    (appendFenced now ts e c d = (Some row, d') \<longrightarrow>
       db_events d' = db_events d @ [row] \<and>
       (\<forall>x \<in> set (db_events d). \<forall>ow k. claim_entry x (fc_task c) ow k \<longrightarrow>
          k \<le> fc_token c \<and> (k = fc_token c \<longrightarrow> ow = fc_owner c)))"
proof (intro conjI impI)
  have inv: "db_inv d" using assms(1) by (rule db_reach_inv)
  show "\<exists>es. db_events (run_op now ts oper d) = db_events d @ es" by (rule events_op)
  show "map ev_seq (db_events (run_op now ts oper d)) = [1..<Suc (length (db_events (run_op now ts oper d)))]"
    using db_inv_op [OF inv assms(2)] by (auto simp: db_inv_def log_inv_def)
  assume a: "appendFenced now ts e c d = (Some row, d')"
  then obtain r where r: "db_leases d (fc_task c) = Some r" "lr_owner r = fc_owner c"
      "lr_token r = fc_token c" and d': "d' = snd (insertEvent ts e d)" "row = fst (insertEvent ts e d)"
    by (cases now ts e c d rule: appendFenced_cases) auto
  then show "db_events d' = db_events d @ [row]" by simp
  have "fc_token c = gen (fc_task c) d" using inv gen_row r by (auto simp: db_inv_def)
  then show "\<forall>x \<in> set (db_events d). \<forall>ow k. claim_entry x (fc_task c) ow k \<longrightarrow>
          k \<le> fc_token c \<and> (k = fc_token c \<longrightarrow> ow = fc_owner c)"
    using inv r unfolding db_inv_def claims_inv_def by metis
qed

theorem log_append_only_and_fenced_witness:
  "map ev_seq (db_events (run_op 3 3 (OpRenew ''r'' ''t'' ''a'' 1 (js_int 10)) db_example)) = [1, 2]"
proof -
  have "length (db_events (run_op 3 3 (OpRenew ''r'' ''t'' ''a'' 1 (js_int 10)) db_example)) = 2"
    by (simp add: db_example_def lease_eval renewLease_def)
  then show ?thesis
    using log_append_only_and_fenced [OF db_reach_example, of "OpRenew ''r'' ''t'' ''a'' 1 (js_int 10)" 3 3]
    by (simp add: upt_rec)
qed

text \<open>The projection rebuilt from the stored events gives each task the state of its latest
  \<open>TASK_STATE\<close> event, with that event's sequence number, and counts every event once.\<close>

theorem projection_is_latest_state:
  assumes "db_reach d"
  shows "ps_count (projection shw d) = length (db_events d) \<and>
    ps_tasks (projection shw d) t =
      (if task_states t (db_events d) = [] then None
       else Some \<lparr>tv_state = js_String shw (fields_get (ev_payload (last (task_states t (db_events d)))) ''state''),
                  tv_last_seq = ev_seq (last (task_states t (db_events d)))\<rparr>)"
  using db_reach_inv [OF assms] by (simp add: db_inv_def projection_view view_of_def)

theorem projection_is_latest_state_witness:
  "ps_count (projection (\<lambda>_. []) db_example) = 1 \<and> ps_tasks (projection (\<lambda>_. []) db_example) ''t'' = None"
  using projection_is_latest_state [OF db_reach_example, of "\<lambda>_. []" "''t''"]
  by (simp add: db_example_def lease_eval task_states_def)

end
