(* ===== verification/Budget.thy ===== *)
theory Budget
  imports CoreTypes Machines
begin

text \<open>
  The budget backstop of \<open>core/src/budget/budget.ts\<close>: validation of untrusted usage, addition
  without overflow credit, and the tracker whose limits stop a task loop.
\<close>

section \<open>Validation of untrusted usage\<close>

datatype cost_reason = NonFinite | Negative | Overflow

type_synonym cost_validation = "cost_reason + js_num"

definition cost_detail :: "cost_reason \<Rightarrow> string" where
  "cost_detail r = (case r of
     NonFinite \<Rightarrow> ''costUnits must be a finite number''
   | Negative \<Rightarrow> ''costUnits must be non-negative''
   | Overflow \<Rightarrow> ''costUnits aggregate overflowed the finite range'')"

fun validateCostUnits :: "js_val \<Rightarrow> cost_validation" where
  "validateCostUnits (VNum n) =
     (if \<not> js_finite n then Inl NonFinite
      else if js_lt n (js_int 0) then Inl Negative
      else Inr n)"
| "validateCostUnits _ = Inl NonFinite"

definition addCostUnits :: "js_val \<Rightarrow> js_val \<Rightarrow> cost_validation" where
  "addCostUnits prior_total increment =
     (case validateCostUnits prior_total of
        Inl e \<Rightarrow> Inl e
      | Inr prior \<Rightarrow>
          (case validateCostUnits increment of
             Inl e \<Rightarrow> Inl e
           | Inr nxt \<Rightarrow>
               let value = js_add prior nxt
               in if \<not> js_finite value then Inl Overflow else Inr value))"

section \<open>The tracker\<close>

datatype budget_limit = Iterations | CostUnits | Wallclock

datatype observation_phase = PhInit | PhCharge | PhExcludedTime

record usage_snapshot =
  us_iterations :: nat
  us_cost :: js_num
  us_active_wallclock :: int
  us_cap_iterations :: nat
  us_cap_cost :: js_num
  us_cap_wallclock :: int

record budget =
  bt_limits :: budget_limits
  bt_started :: int
  bt_iterations :: nat
  bt_cost :: js_num
  bt_excluded :: int
  bt_observed :: "(observation_phase \<times> usage_snapshot) list"

definition snapshot :: "int \<Rightarrow> budget \<Rightarrow> usage_snapshot" where
  "snapshot now b =
     \<lparr>us_iterations = bt_iterations b, us_cost = bt_cost b,
      us_active_wallclock = max 0 (now - bt_started b - bt_excluded b),
      us_cap_iterations = bl_max_iterations (bt_limits b),
      us_cap_cost = bl_max_cost (bt_limits b),
      us_cap_wallclock = bl_max_wallclock (bt_limits b)\<rparr>"

text \<open>What the observer is told; it cannot influence the tracker.\<close>

definition emit :: "observation_phase \<Rightarrow> int \<Rightarrow> budget \<Rightarrow> budget" where
  "emit ph now b = b\<lparr>bt_observed := bt_observed b @ [(ph, snapshot now b)]\<rparr>"

definition createBudget :: "budget_limits \<Rightarrow> int \<Rightarrow> budget" where
  "createBudget limits now =
     emit PhInit now
       \<lparr>bt_limits = limits, bt_started = now, bt_iterations = 0, bt_cost = js_int 0,
        bt_excluded = 0, bt_observed = []\<rparr>"

text \<open>\<open>noteIteration\<close> throws \<open>BudgetUsageError\<close> before it changes anything.\<close>

definition noteIteration :: "int \<Rightarrow> js_val \<Rightarrow> budget \<Rightarrow> cost_reason + budget" where
  "noteIteration now cost b =
     (case addCostUnits (VNum (bt_cost b)) cost of
        Inl e \<Rightarrow> Inl e
      | Inr value \<Rightarrow>
          Inr (emit PhCharge now
                 (b\<lparr>bt_iterations := Suc (bt_iterations b), bt_cost := value\<rparr>)))"

definition noteExcludedMs :: "int \<Rightarrow> int \<Rightarrow> budget \<Rightarrow> budget" where
  "noteExcludedMs now ms b =
     (if ms > 0 then emit PhExcludedTime now (b\<lparr>bt_excluded := bt_excluded b + ms\<rparr>) else b)"

definition exceeded :: "int \<Rightarrow> budget \<Rightarrow> budget_limit option" where
  "exceeded now b =
     (if bt_iterations b \<ge> bl_max_iterations (bt_limits b) then Some Iterations
      else if js_lt (bl_max_cost (bt_limits b)) (bt_cost b) then Some CostUnits
      else if now - bt_started b - bt_excluded b > bl_max_wallclock (bt_limits b) then Some Wallclock
      else None)"

definition remaining :: "budget \<Rightarrow> js_num" where
  "remaining b = js_max (js_int 0) (js_sub (bl_max_cost (bt_limits b)) (bt_cost b))"

section \<open>Rounding keeps order\<close>

definition is_double :: "rat \<Rightarrow> bool" where
  "is_double r \<longleftrightarrow> (\<exists>n. r = of_int n / 2 ^ unit_exp \<and> ulp_units n dvd n)"

lemma ulp_units_pos: "0 < ulp_units n"
  by (simp add: ulp_units_def)

lemma ulp_units_abs: "0 \<le> n \<Longrightarrow> ulp_units n = 2 ^ (floorlog 2 (nat n) - 53)"
  by (simp add: ulp_units_def)

lemma floorlog_gt: "0 \<le> n \<Longrightarrow> n < 2 ^ floorlog 2 (nat n)"
proof -
  assume "0 \<le> n"
  have "nat n < 2 ^ floorlog 2 (nat n)"
    using floorlog_bounds [of "nat n" 2] by (cases "nat n = 0") auto
  then show ?thesis using \<open>0 \<le> n\<close> by (simp add: nat_less_iff)
qed

lemma floorlog_le: "0 < n \<Longrightarrow> 2 ^ (floorlog 2 (nat n) - 1) \<le> n"
proof -
  assume n: "0 < n"
  then have "2 ^ (floorlog 2 (nat n) - 1) \<le> nat n" using floorlog_bounds [of "nat n" 2] by auto
  then have "int (2 ^ (floorlog 2 (nat n) - 1)) \<le> int (nat n)" by (simp only: of_nat_le_iff)
  then show ?thesis using n by simp
qed

lemma round_units_ge_div: "0 \<le> m \<Longrightarrow> (m div ulp_units m) * ulp_units m \<le> round_units m"
  using ulp_units_pos [of m] by (auto simp: round_units_def half_even_def Let_def sgn_if)

lemma ulp_units_mono: "0 \<le> n \<Longrightarrow> n \<le> m \<Longrightarrow> ulp_units n \<le> ulp_units m"
  by (simp add: ulp_units_abs) (meson diff_le_mono floorlog_mono nat_mono)

lemma round_units_mono:
  assumes "0 \<le> n" "n \<le> m" "ulp_units n dvd n"
  shows "n \<le> round_units m"
proof (cases "ulp_units n = ulp_units m")
  case True
  then obtain j where "n = ulp_units m * j" using assms(3) by (auto elim: dvdE)
  then have "j \<le> m div ulp_units m" using assms(2) ulp_units_pos [of m]
    by (metis nonzero_mult_div_cancel_left order_less_irrefl zdiv_mono1)
  then have "n \<le> (m div ulp_units m) * ulp_units m"
    using \<open>n = ulp_units m * j\<close> ulp_units_pos [of m] by (simp add: mult.commute)
  then show ?thesis using round_units_ge_div [of m] assms by linarith
next
  case False
  let ?f = "floorlog 2 (nat m)"
  have "floorlog 2 (nat n) - 53 \<noteq> ?f - 53" using False assms(1,2) by (auto simp: ulp_units_abs)
  moreover have "floorlog 2 (nat n) \<le> ?f" using assms(1,2) by (intro floorlog_mono nat_mono)
  ultimately have lt: "floorlog 2 (nat n) < ?f" and f: "53 < ?f" by auto
  have m: "0 < m" using f assms by (cases "m = 0") (auto simp: floorlog_def)
  have "n < 2 ^ floorlog 2 (nat n)" using assms(1) by (rule floorlog_gt)
  also have "\<dots> \<le> 2 ^ (?f - 1)" using lt by (intro power_increasing) auto
  finally have n: "n < 2 ^ (?f - 1)" .
  have "?f - 1 = 52 + (?f - 53)" using f by simp
  then have "(2::int) ^ (?f - 1) = 2 ^ 52 * 2 ^ (?f - 53)" by (simp only: power_add)
  then have "(2::int) ^ (?f - 1) = 2 ^ 52 * ulp_units m" using m by (simp only: ulp_units_abs less_imp_le)
  then have "2 ^ 52 * ulp_units m \<le> m" using floorlog_le [OF m] by simp
  then have "2 ^ 52 \<le> m div ulp_units m"
    using ulp_units_pos [of m] by (metis nonzero_mult_div_cancel_right order_less_irrefl zdiv_mono1)
  then have "2 ^ 52 * ulp_units m \<le> (m div ulp_units m) * ulp_units m"
    using ulp_units_pos [of m] by simp
  then show ?thesis
    using n \<open>2 ^ (?f - 1) = 2 ^ 52 * ulp_units m\<close> round_units_ge_div [of m] m by linarith
qed

lemma half_even_le: "0 < q \<Longrightarrow> n < q * c \<Longrightarrow> half_even n q \<le> c"
proof -
  assume q: "0 < q" and n: "n < q * c"
  have "n div q < c"
  proof (rule ccontr)
    assume "\<not> n div q < c"
    then have "q * c \<le> q * (n div q)" using q by simp
    also have "\<dots> \<le> n" using q mult_div_mod_eq [of q n] pos_mod_sign [of q n] by linarith
    finally show False using n by simp
  qed
  then show ?thesis by (simp add: half_even_def Let_def)
qed

text \<open>A rounded count is representable: at most 53 significant bits.\<close>

lemma round_units_double:
  assumes "0 \<le> m"
  shows "ulp_units (round_units m) dvd round_units m"
proof -
  let ?f = "floorlog 2 (nat m)" and ?q = "ulp_units m"
  have "(2::int) ^ ?f \<le> 2 ^ ((?f - 53) + 53)" by (intro power_increasing) auto
  then have "(2::int) ^ ?f \<le> ?q * 2 ^ 53" using assms by (simp only: power_add ulp_units_abs)
  then have "half_even m ?q \<le> 2 ^ 53"
    using floorlog_gt [OF assms] ulp_units_pos [of m] by (intro half_even_le) auto
  then have "\<bar>half_even m ?q\<bar> \<le> 2 ^ 53"
    using half_even_nonneg [OF assms ulp_units_pos, of m] by simp
  moreover have "round_units m = half_even m ?q * 2 ^ (?f - 53)"
    using assms half_even_nonneg [OF assms ulp_units_pos, of m]
    by (cases "m = 0") (auto simp: round_units_def ulp_units_abs half_even_def)
  ultimately show ?thesis using ulp_units_scaled [of "half_even m ?q" "?f - 53"] by simp
qed

lemma is_double_round: "0 \<le> r \<Longrightarrow> is_double (round_double r)"
  unfolding is_double_def round_double_def
  using round_units_double [of "\<lfloor>r * 2 ^ unit_exp\<rfloor>"] by auto

lemma round_double_ge:
  assumes "is_double a" "0 \<le> a" "a \<le> r"
  shows "a \<le> round_double r"
proof -
  obtain n where n: "a = of_int n / 2 ^ unit_exp" "ulp_units n dvd n" using assms(1) by (auto simp: is_double_def)
  then have an: "a * 2 ^ unit_exp = of_int n" by simp
  have "0 \<le> (of_int n :: rat)" using assms(2) by (simp flip: an)
  then have "0 \<le> n" by (simp only: of_int_0_le_iff)
  have "of_int n \<le> r * 2 ^ unit_exp" using assms(3) by (simp flip: an)
  then have "n \<le> \<lfloor>r * 2 ^ unit_exp\<rfloor>" by (simp add: le_floor_iff)
  then have "n \<le> round_units \<lfloor>r * 2 ^ unit_exp\<rfloor>" using round_units_mono \<open>0 \<le> n\<close> n(2) by blast
  then have "of_int n \<le> (of_int (round_units \<lfloor>r * 2 ^ unit_exp\<rfloor>) :: rat)" by (rule iffD2 [OF of_int_le_iff])
  then show ?thesis unfolding n(1) round_double_def by (rule divide_right_mono) simp
qed

section \<open>What the tracker guarantees\<close>

definition cost_ok :: "js_num \<Rightarrow> bool" where
  "cost_ok c \<longleftrightarrow> (\<exists>v \<ge> 0. c = JFin v \<and> is_double v)"

definition budget_inv :: "budget \<Rightarrow> bool" where
  "budget_inv b \<longleftrightarrow> cost_ok (bt_cost b)"

lemma validateCostUnits_Inr:
  "validateCostUnits v = Inr n \<longleftrightarrow> (\<exists>r \<ge> 0. n = JFin r \<and> v = VNum n)"
proof (cases v)
  case (VNum m)
  then show ?thesis by (cases m) auto
qed auto

lemma addCostUnits_Inr:
  assumes "addCostUnits (VNum c) v = Inr n" and "cost_ok c"
  shows "cost_ok n \<and> js_le c n"
proof -
  from assms obtain a b where ab: "c = JFin a" "v = VNum (JFin b)" "0 \<le> a" "0 \<le> b" "is_double a"
    and n: "n = to_js (a + b)" "js_finite n"
    by (auto simp: addCostUnits_def validateCostUnits_Inr cost_ok_def Let_def
        split: sum.splits if_splits)
  have "0 \<le> a + b" using ab by simp
  then have "n = JFin (round_double (a + b))" using n
    by (auto simp: to_js_def Let_def split: if_splits)
  moreover have "0 \<le> round_double (a + b)" "is_double (round_double (a + b))" "a \<le> round_double (a + b)"
    using ab \<open>0 \<le> a + b\<close> by (auto intro: round_double_nonneg is_double_round round_double_ge)
  ultimately show ?thesis using ab by (auto simp: cost_ok_def)
qed

lemma emit_fields [simp]:
  "bt_limits (emit ph now b) = bt_limits b" "bt_cost (emit ph now b) = bt_cost b"
  "bt_iterations (emit ph now b) = bt_iterations b" "bt_excluded (emit ph now b) = bt_excluded b"
  "bt_started (emit ph now b) = bt_started b"
  by (simp_all add: emit_def)

lemma noteIteration_Inr:
  assumes "noteIteration now c b = Inr b'"
  shows "bt_iterations b' = Suc (bt_iterations b)" "bt_limits b' = bt_limits b"
    "budget_inv b \<Longrightarrow> budget_inv b' \<and> js_le (bt_cost b) (bt_cost b')"
  using assms addCostUnits_Inr [of "bt_cost b" c]
  by (auto simp: noteIteration_def budget_inv_def split: sum.splits)

lemma noteExcludedMs_fields [simp]:
  "bt_limits (noteExcludedMs now ms b) = bt_limits b"
  "bt_iterations (noteExcludedMs now ms b) = bt_iterations b"
  "bt_cost (noteExcludedMs now ms b) = bt_cost b"
  "budget_inv (noteExcludedMs now ms b) = budget_inv b"
  by (simp_all add: noteExcludedMs_def budget_inv_def)

lemma is_double_0: "is_double 0"
  unfolding is_double_def by (rule exI [of _ 0]) simp

lemma budget_inv_create [inv_intros]: "budget_inv (createBudget limits now)"
  by (simp add: createBudget_def budget_inv_def cost_ok_def is_double_0)

lemma exceeded_cap: "bl_max_iterations (bt_limits b) \<le> bt_iterations b \<Longrightarrow> exceeded now b = Some Iterations"
  by (simp add: exceeded_def)

text \<open>The tracker as a backstop: one charge at a clock reading, and the question before it.\<close>

definition charge_at :: "int \<times> js_val \<Rightarrow> budget \<Rightarrow> budget option" where
  "charge_at x b = (case noteIteration (fst x) (snd x) b of Inl _ \<Rightarrow> None | Inr b' \<Rightarrow> Some b')"

definition stop_at :: "int \<times> js_val \<Rightarrow> budget \<Rightarrow> bool" where
  "stop_at x b \<longleftrightarrow> exceeded (fst x) b \<noteq> None"

definition iteration_cap :: "budget \<Rightarrow> nat" where
  "iteration_cap b = bl_max_iterations (bt_limits b)"

interpretation bt: backstop charge_at stop_at bt_iterations iteration_cap
  by unfold_locales
     (auto simp: exceeded_cap charge_at_def stop_at_def iteration_cap_def noteIteration_Inr(1,2)
       split: sum.splits)

text \<open>A sequence of charges as the loop makes them; a refused charge changes nothing.\<close>

fun charge_all :: "(int \<times> js_val) list \<Rightarrow> budget \<Rightarrow> nat \<times> budget" where
  "charge_all [] b = (0, b)"
| "charge_all ((now, c) # cs) b =
     (case noteIteration now c b of
        Inl _ \<Rightarrow> charge_all cs b
      | Inr b' \<Rightarrow> (let (n, r) = charge_all cs b' in (Suc n, r)))"

lemma charge_all_inv:
  "budget_inv b \<Longrightarrow>
     bt_iterations (snd (charge_all cs b)) = bt_iterations b + fst (charge_all cs b) \<and>
     bt_limits (snd (charge_all cs b)) = bt_limits b \<and>
     budget_inv (snd (charge_all cs b)) \<and> js_le (bt_cost b) (bt_cost (snd (charge_all cs b)))"
proof (induction cs arbitrary: b)
  case (Cons x cs)
  obtain now c where x: "x = (now, c)" by (cases x)
  show ?case
  proof (cases "noteIteration now c b")
    case (Inr b')
    note n = noteIteration_Inr [OF Inr]
    then have "budget_inv b'" using Cons.prems by blast
    from Cons.IH [OF this] n Cons.prems show ?thesis
      by (auto simp: x Inr case_prod_beta Let_def intro: js_le_trans)
  qed (use Cons in \<open>simp add: x\<close>)
qed (auto simp: budget_inv_def cost_ok_def)

section \<open>Properties\<close>

text \<open>Untrusted usage can only ever use the budget up. Whatever values are charged, in any order
  (NaN, infinities, negative numbers, strings and overflowing sums included), the accumulated cost
  stays a finite, non-negative double, never decreases, and counts exactly the accepted
  charges; a value that is not a finite non-negative number is refused.\<close>

theorem charges_never_credit:
  "let (n, b) = charge_all cs (createBudget limits t0) in
     bt_iterations b = n \<and> (\<exists>v \<ge> 0. bt_cost b = JFin v) \<and>
     (let (n', b') = charge_all cs2 b in js_le (bt_cost b) (bt_cost b') \<and> bt_iterations b' = n + n') \<and>
     ((\<exists>b'. noteIteration now c b = Inr b') \<longrightarrow> (\<exists>r \<ge> 0. c = VNum (JFin r)))"
proof -
  let ?b = "snd (charge_all cs (createBudget limits t0))"
  note first = charge_all_inv [OF budget_inv_create [of limits t0], of cs]
  then have inv: "budget_inv ?b" by blast
  have "bt_iterations (createBudget limits t0) = 0" by (simp add: createBudget_def)
  moreover note charge_all_inv [OF inv, of cs2]
  moreover have "\<exists>r \<ge> 0. c = VNum (JFin r)" if "noteIteration now c ?b = Inr b'" for b'
    using that by (auto simp: noteIteration_def addCostUnits_def validateCostUnits_Inr split: sum.splits)
  ultimately show ?thesis
    using first inv by (auto simp: case_prod_beta Let_def budget_inv_def cost_ok_def)
qed

theorem charges_never_credit_witness:
  "\<exists>b'. noteIteration 5 (vint 2) (createBudget \<lparr>bl_max_iterations = 3, bl_max_cost = js_int 10, bl_max_wallclock = 100\<rparr> 0) = Inr b' \<and>
     (\<exists>r \<ge> 0. vint 2 = VNum (JFin r))"
proof -
  let ?b = "createBudget \<lparr>bl_max_iterations = 3, bl_max_cost = js_int 10, bl_max_wallclock = 100\<rparr> 0"
  have e: "\<exists>b'. noteIteration 5 (vint 2) ?b = Inr b'"
    by (simp add: noteIteration_def addCostUnits_def createBudget_def Let_def js_simps)
  then show ?thesis
    using charges_never_credit [of "[]" "\<lparr>bl_max_iterations = 3, bl_max_cost = js_int 10, bl_max_wallclock = 100\<rparr>" 0 "[]" 5 "vint 2"]
    by simp
qed

text \<open>A client that asks \<open>exceeded\<close> before every charge makes at most \<open>maxIterations\<close> charges in all,
  whatever the clock reads and whatever the usage values are.\<close>

theorem guarded_charges_bounded:
  "bt.guarded cs (createBudget limits t0) = Some b \<Longrightarrow> length cs \<le> bl_max_iterations limits"
  using bt.guarded_bound [of cs "createBudget limits t0" b]
  by (simp add: createBudget_def iteration_cap_def)

theorem guarded_charges_bounded_witness:
  "length [(5, vint 2), (6, vint 3)] \<le> (3::nat)"
proof -
  have "\<exists>b. bt.guarded [(5, vint 2), (6, vint 3)]
      (createBudget \<lparr>bl_max_iterations = 3, bl_max_cost = js_int 10, bl_max_wallclock = 100\<rparr> 0) = Some b"
    by (simp add: charge_at_def stop_at_def noteIteration_def addCostUnits_def createBudget_def
        Let_def js_simps exceeded_def emit_def)
  then show ?thesis using guarded_charges_bounded by fastforce
qed

end
