(* ===== verification/Contract.thy ===== *)
theory Contract
  imports CoreTypes
begin

text \<open>
  The goal contract of \<open>core/src/contract/contract.ts\<close>: a parsed document is checked and frozen
  together with the hash of its raw bytes. \<open>sha\<close> is the SHA-256 hex digest of the platform's
  crypto library and \<open>shw\<close> the decimal rendering of a number; both are arguments.
\<close>

section \<open>The frozen contract\<close>

record contract_budget =
  cb_max_iterations :: nat
  cb_max_cost :: nat
  cb_max_wallclock :: js_num
  cb_max_hypotheses :: nat
  cb_max_total_tasks :: nat
  cb_max_parallel :: nat

text \<open>The code casts an identifier to \<open>string\<close> and checks only that it is present: it stays a value
  of unknown type here.\<close>

record acceptance_criterion =
  ac_id :: js_val
  ac_description :: js_val
  ac_verification :: "string option"
  ac_golden :: "bool option"

record deploy_observe =
  do_probes :: nat
  do_threshold :: nat
  do_interval :: js_num

record deploy_spec =
  ds_canary_cmd :: string
  ds_observe_cmd :: string
  ds_expand_cmd :: string
  ds_rollback_cmd :: string
  ds_observe :: deploy_observe

record provenance =
  pv_spec_path :: string
  pv_commit :: string
  pv_sha256 :: "string option"
  pv_generated_at :: string

record task_contract =
  tc_hash :: string
  tc_goal_id :: js_val
  tc_goal_title :: string
  tc_goal_objective :: string
  tc_acs :: "acceptance_criterion list"
  tc_budget :: contract_budget
  tc_risk :: risk_class
  tc_approval_policy :: "string list"
  tc_deploy :: "deploy_spec option"
  tc_provenance :: "provenance option"
  tc_raw :: js_val

section \<open>Checks\<close>

type_synonym 'a checked = "string + 'a"

definition asRecord :: "js_val \<Rightarrow> string \<Rightarrow> js_val checked" where
  "asRecord v what = (if is_record v then Inr v else Inl (what @ '' must be an object''))"

definition req :: "js_val \<Rightarrow> string \<Rightarrow> js_val checked" where
  "req v what = (if v = VUndef \<or> v = VNull then Inl (''missing '' @ what) else Inr v)"

fun reqNonEmptyStr :: "js_val \<Rightarrow> string \<Rightarrow> string checked" where
  "reqNonEmptyStr (VStr s) what = (if trim s = [] then Inl (''missing '' @ what) else Inr s)"
| "reqNonEmptyStr _ what = Inl (''missing '' @ what)"

fun reqNum :: "js_val \<Rightarrow> string \<Rightarrow> rat checked" where
  "reqNum (VNum (JFin r)) what = Inr r"
| "reqNum _ what = Inl (what @ '' must be a number'')"

fun reqPosInt :: "js_val \<Rightarrow> string \<Rightarrow> nat checked" where
  "reqPosInt (VNum (JFin r)) what =
     (if of_int \<lfloor>r\<rfloor> \<noteq> r \<or> r < 1 then Inl (what @ '' must be an integer >= 1'')
      else Inr (nat \<lfloor>r\<rfloor>))"
| "reqPosInt _ what = Inl (what @ '' must be an integer >= 1'')"

definition risk_list_text :: string where
  "risk_list_text = join ''|'' (map risk_name [L0, L1, L2, L3, L4])"

section \<open>Freezing\<close>

definition freeze_ac :: "nat \<Rightarrow> js_val \<Rightarrow> acceptance_criterion checked" where
  "freeze_ac i entry =
     (let loc = ''acceptance_criteria['' @ nat_str i @ '']'' in
      e_bind (asRecord entry loc) (\<lambda>ac.
      e_bind (req (val_get ac ''id'') (loc @ ''.id'')) (\<lambda>idv.
      e_bind (req (val_get ac ''description'') (loc @ ''.description'')) (\<lambda>descr.
      Inr \<lparr>ac_id = idv, ac_description = descr,
           ac_verification = (case val_get ac ''verification'' of VStr s \<Rightarrow> Some s | _ \<Rightarrow> None),
           ac_golden = (case val_get ac ''golden'' of VBool b \<Rightarrow> Some b | _ \<Rightarrow> None)\<rparr>))))"

definition freeze_acs :: "js_val \<Rightarrow> acceptance_criterion list checked" where
  "freeze_acs v =
     (case v of
        VArr (x # xs) \<Rightarrow> e_map (\<lambda>(i, e). freeze_ac i e) (enumerate 0 (x # xs))
      | _ \<Rightarrow> Inl ''acceptance_criteria must be a non-empty array'')"

definition freeze_budget :: "js_val \<Rightarrow> contract_budget checked" where
  "freeze_budget v =
     e_bind (req v ''budget'') (\<lambda>v1.
     e_bind (asRecord v1 ''budget'') (\<lambda>b.
     e_bind (reqPosInt (val_get b ''max_iterations_per_task'') ''budget.max_iterations_per_task'') (\<lambda>it.
     e_bind (reqPosInt (val_get b ''max_cost_units_per_task'') ''budget.max_cost_units_per_task'') (\<lambda>co.
     e_bind (reqPosInt (val_get b ''max_wallclock_per_task_min'') ''budget.max_wallclock_per_task_min'') (\<lambda>wa.
     e_bind (reqPosInt (val_get b ''max_hypotheses_per_failure'') ''budget.max_hypotheses_per_failure'') (\<lambda>hy.
     e_bind (reqPosInt (val_get b ''max_total_tasks'') ''budget.max_total_tasks'') (\<lambda>tt.
     e_bind (reqPosInt (val_get b ''max_parallel_agents'') ''budget.max_parallel_agents'') (\<lambda>pa.
     Inr \<lparr>cb_max_iterations = it, cb_max_cost = co,
          cb_max_wallclock = to_js (of_nat wa * 60000), cb_max_hypotheses = hy,
          cb_max_total_tasks = tt, cb_max_parallel = pa\<rparr>))))))))"

definition freeze_risk :: "js_val \<Rightarrow> risk_class checked" where
  "freeze_risk v =
     (if v = VUndef then Inr L2
      else case risk_of_val v of
        None \<Rightarrow> Inl (''risk must be one of '' @ risk_list_text)
      | Some r \<Rightarrow> Inr r)"

definition freeze_policy :: "(js_num \<Rightarrow> string) \<Rightarrow> js_val \<Rightarrow> string list checked" where
  "freeze_policy shw v =
     (if v = VUndef then Inr []
      else e_bind (asRecord v ''approval_policy'') (\<lambda>ap.
        Inr (case val_get ap ''require_human_approval'' of
               VArr vs \<Rightarrow> map (js_String shw) vs
             | _ \<Rightarrow> [])))"

definition is_whole :: "rat \<Rightarrow> bool" where
  "is_whole r \<longleftrightarrow> of_int \<lfloor>r\<rfloor> = r"

definition freeze_deploy :: "js_val \<Rightarrow> deploy_spec option checked" where
  "freeze_deploy v =
     (if v = VUndef then Inr None
      else
      e_bind (asRecord v ''deploy'') (\<lambda>d.
      e_bind (req (val_get d ''observe'') ''deploy.observe'') (\<lambda>o1.
      e_bind (asRecord o1 ''deploy.observe'') (\<lambda>ob.
      e_bind (reqNum (val_get ob ''probes'') ''deploy.observe.probes'') (\<lambda>probes.
      e_bind (reqNum (val_get ob ''failure_threshold'') ''deploy.observe.failure_threshold'') (\<lambda>threshold.
      e_bind (reqNum (val_get ob ''interval_ms'') ''deploy.observe.interval_ms'') (\<lambda>interval.
      if \<not> is_whole probes \<or> probes < 1
      then Inl ''deploy.observe.probes must be a positive integer''
      else if \<not> is_whole threshold \<or> threshold < 0
      then Inl ''deploy.observe.failure_threshold must be a non-negative integer''
      else if threshold \<ge> probes
      then Inl ''deploy.observe.failure_threshold must be less than probes''
      else
      e_bind (reqNonEmptyStr (val_get d ''canary_cmd'') ''deploy.canary_cmd'') (\<lambda>ca.
      e_bind (reqNonEmptyStr (val_get d ''observe_cmd'') ''deploy.observe_cmd'') (\<lambda>oc.
      e_bind (reqNonEmptyStr (val_get d ''expand_cmd'') ''deploy.expand_cmd'') (\<lambda>ex.
      e_bind (reqNonEmptyStr (val_get d ''rollback_cmd'') ''deploy.rollback_cmd'') (\<lambda>ro.
      Inr (Some \<lparr>ds_canary_cmd = ca, ds_observe_cmd = oc, ds_expand_cmd = ex, ds_rollback_cmd = ro,
                 ds_observe = \<lparr>do_probes = nat \<lfloor>probes\<rfloor>, do_threshold = nat \<lfloor>threshold\<rfloor>,
                               do_interval = JFin interval\<rparr>\<rparr>))))))))))))"

definition freeze_provenance :: "js_val \<Rightarrow> provenance option checked" where
  "freeze_provenance v =
     (if v = VUndef then Inr None
      else
      e_bind (asRecord v ''provenance'') (\<lambda>p.
      e_bind (reqNonEmptyStr (val_get p ''spec_path'') ''provenance.spec_path'') (\<lambda>sp.
      e_bind (reqNonEmptyStr (val_get p ''requirements_commit'') ''provenance.requirements_commit'') (\<lambda>rc.
      e_bind (reqNonEmptyStr (val_get p ''generated_at'') ''provenance.generated_at'') (\<lambda>ga.
      if val_get p ''requirements_sha256'' \<noteq> VUndef
      then e_bind (reqNonEmptyStr (val_get p ''requirements_sha256'') ''provenance.requirements_sha256'') (\<lambda>sh.
        Inr (Some \<lparr>pv_spec_path = sp, pv_commit = rc, pv_sha256 = Some sh, pv_generated_at = ga\<rparr>))
      else Inr (Some \<lparr>pv_spec_path = sp, pv_commit = rc, pv_sha256 = None, pv_generated_at = ga\<rparr>))))))"

definition freezeContract ::
    "('b \<Rightarrow> string) \<Rightarrow> (js_num \<Rightarrow> string) \<Rightarrow> 'b \<Rightarrow> js_val \<Rightarrow> task_contract checked" where
  "freezeContract sha shw rawBytes parsed =
     e_bind (asRecord parsed ''contract'') (\<lambda>root.
     e_bind (asRecord (val_get root ''goal'') ''goal'') (\<lambda>goal.
     e_bind (req (val_get goal ''id'') ''goal.id'') (\<lambda>goalId.
     e_bind (freeze_acs (val_get root ''acceptance_criteria'')) (\<lambda>acs.
     e_bind (freeze_budget (val_get root ''budget'')) (\<lambda>budget.
     e_bind (freeze_risk (val_get root ''risk'')) (\<lambda>risk.
     e_bind (freeze_policy shw (val_get root ''approval_policy'')) (\<lambda>policy.
     e_bind (freeze_deploy (val_get root ''deploy'')) (\<lambda>deploy.
     e_bind (freeze_provenance (val_get root ''provenance'')) (\<lambda>prov.
     Inr \<lparr>tc_hash = sha rawBytes, tc_goal_id = goalId,
          tc_goal_title = js_String shw (nullish (val_get goal ''title'') goalId),
          tc_goal_objective = js_String shw (nullish (val_get goal ''objective'') (VStr [])),
          tc_acs = acs, tc_budget = budget, tc_risk = risk, tc_approval_policy = policy,
          tc_deploy = deploy, tc_provenance = prov, tc_raw = root\<rparr>)))))))))"

definition contractChanged :: "('b \<Rightarrow> string) \<Rightarrow> 'b \<Rightarrow> string \<Rightarrow> bool" where
  "contractChanged sha rawBytes frozenHash \<longleftrightarrow> sha rawBytes \<noteq> frozenHash"

section \<open>What freezing guarantees\<close>

lemmas checked_simps = e_bind_Inr_iff e_bind_Inl_iff asRecord_def req_def

lemma reqPosInt_Inr: "reqPosInt v w = Inr n \<Longrightarrow> 1 \<le> n \<and> v = VNum (JFin (of_nat n))"
proof (induction v w rule: reqPosInt.induct)
  case (1 r w)
  then have r: "of_int \<lfloor>r\<rfloor> = r" "1 \<le> r" "n = nat \<lfloor>r\<rfloor>" by (auto split: if_splits)
  then have one: "1 \<le> \<lfloor>r\<rfloor>" by simp
  then have "rat_of_nat n = of_int \<lfloor>r\<rfloor>" using r(3) by simp
  then show ?case using one r(3) by (simp only: r(1) le_nat_iff) simp
qed simp_all

lemma reqNonEmptyStr_Inr: "reqNonEmptyStr v w = Inr s \<Longrightarrow> v = VStr s \<and> trim s \<noteq> []"
  by (induction v w rule: reqNonEmptyStr.induct) (auto split: if_splits)

lemma reqPosInt_fraction: "r \<noteq> of_int \<lfloor>r\<rfloor> \<or> r < 1 \<Longrightarrow> reqPosInt (VNum (JFin r)) w = Inl (w @ '' must be an integer >= 1'')"
  by auto

text \<open>What the document says of a cap: a whole number, at least one.\<close>

definition declares_cap :: "js_val \<Rightarrow> string \<Rightarrow> nat \<Rightarrow> bool" where
  "declares_cap v key n \<longleftrightarrow> 1 \<le> n \<and> val_get (val_get v ''budget'') key = VNum (JFin (of_nat n))"

definition budget_declared :: "js_val \<Rightarrow> contract_budget \<Rightarrow> bool" where
  "budget_declared v b \<longleftrightarrow> declares_cap v ''max_iterations_per_task'' (cb_max_iterations b)
     \<and> declares_cap v ''max_cost_units_per_task'' (cb_max_cost b)
     \<and> (\<exists>minutes. declares_cap v ''max_wallclock_per_task_min'' minutes \<and> cb_max_wallclock b = to_js (of_nat minutes * 60000))
     \<and> declares_cap v ''max_hypotheses_per_failure'' (cb_max_hypotheses b)
     \<and> declares_cap v ''max_total_tasks'' (cb_max_total_tasks b)
     \<and> declares_cap v ''max_parallel_agents'' (cb_max_parallel b)"

definition deploy_can_roll_back :: "deploy_spec \<Rightarrow> bool" where
  "deploy_can_roll_back d \<longleftrightarrow> do_threshold (ds_observe d) < do_probes (ds_observe d)
     \<and> (\<forall>c \<in> {ds_canary_cmd d, ds_observe_cmd d, ds_expand_cmd d, ds_rollback_cmd d}. trim c \<noteq> [])"

lemma freeze_budget_declared: "freeze_budget (val_get v ''budget'') = Inr b \<Longrightarrow> budget_declared v b"
  by (auto simp: freeze_budget_def checked_simps budget_declared_def declares_cap_def dest!: reqPosInt_Inr split: if_splits)

lemma freeze_deploy_safe: "freeze_deploy v = Inr (Some d) \<Longrightarrow> deploy_can_roll_back d"
  by (auto simp: freeze_deploy_def checked_simps deploy_can_roll_back_def is_whole_def
           dest!: reqNonEmptyStr_Inr split: if_splits)

lemma freeze_acs_identified:
  "freeze_acs v = Inr acs \<Longrightarrow>
     acs \<noteq> [] \<and> (\<forall>a \<in> set acs. ac_id a \<noteq> VUndef \<and> ac_id a \<noteq> VNull \<and> ac_description a \<noteq> VUndef)"
proof -
  assume r: "freeze_acs v = Inr acs"
  then obtain es where es: "es \<noteq> []" "e_map (\<lambda>(i, e). freeze_ac i e) (enumerate 0 es) = Inr acs"
    by (auto simp del: e_map.simps enumerate_simps simp: freeze_acs_def split: js_val.splits list.splits)
  then have "acs \<noteq> []" using e_map_size [OF es(2)] by auto
  moreover have "\<exists>p. freeze_ac (fst p) (snd p) = Inr a" if "a \<in> set acs" for a
    using e_map_source [OF es(2) that] by (auto simp: case_prod_unfold)
  ultimately show ?thesis
    by (fastforce simp: freeze_ac_def checked_simps Let_def split: if_splits)
qed

lemma freeze_risk_default: "freeze_risk v = Inr r \<Longrightarrow> v = VUndef \<and> r = L2 \<or> v = VStr (risk_name r)"
  by (auto simp: freeze_risk_def risk_of_val_def find_Some_iff split: if_splits option.splits)

text \<open>C33: a contract that freezes is bound to its raw bytes and bounded: the hash is the digest of
  the bytes, so a later change of the digest is noticed and an unchanged file never is; there is at
  least one acceptance criterion, each with an identifier; every cap of the budget, the time limit included, is the
  whole number the document names, at least one, the time limit turned from minutes into milliseconds;
  the risk class is the one the document names, L2 only when it names none; and the deploy block, if
  any, has a failure threshold below its number of probes, so that a failing deploy can be rolled
  back, and no blank command.\<close>

theorem frozen_contract_is_bounded:
  assumes "freezeContract sha shw raw v = Inr c"
  shows "tc_hash c = sha raw \<and> (contractChanged sha raw' (tc_hash c) \<longleftrightarrow> sha raw' \<noteq> sha raw)
    \<and> tc_acs c \<noteq> [] \<and> (\<forall>a \<in> set (tc_acs c). ac_id a \<noteq> VUndef \<and> ac_id a \<noteq> VNull)
    \<and> budget_declared v (tc_budget c)
    \<and> (val_get v ''risk'' = VUndef \<and> tc_risk c = L2 \<or> val_get v ''risk'' = VStr (risk_name (tc_risk c)))
    \<and> (\<forall>d. tc_deploy c = Some d \<longrightarrow> deploy_can_roll_back d)"
  using assms
  by (auto simp: freezeContract_def checked_simps contractChanged_def split: if_splits
           dest: freeze_acs_identified freeze_budget_declared freeze_deploy_safe freeze_risk_default)

definition contract_example :: js_val where
  "contract_example = VObj [
     (''goal'', VObj [(''id'', VStr ''G-1'')]),
     (''acceptance_criteria'', VArr [VObj [(''id'', VStr ''AC-1''), (''description'', VStr ''d'')]]),
     (''budget'', VObj [(''max_iterations_per_task'', vint 5), (''max_cost_units_per_task'', vint 100),
        (''max_wallclock_per_task_min'', vint 30), (''max_hypotheses_per_failure'', vint 3),
        (''max_total_tasks'', vint 4), (''max_parallel_agents'', vint 1)]),
     (''risk'', VStr ''L1''),
     (''deploy'', VObj [(''observe'', VObj [(''probes'', vint 3), (''failure_threshold'', vint 1), (''interval_ms'', vint 10)]),
        (''canary_cmd'', VStr ''c''), (''observe_cmd'', VStr ''o''), (''expand_cmd'', VStr ''e''), (''rollback_cmd'', VStr ''r'')])]"

lemmas contract_eval = contract_example_def freezeContract_def asRecord_def req_def freeze_acs_def
  freeze_ac_def freeze_budget_def freeze_risk_def freeze_policy_def freeze_deploy_def
  freeze_provenance_def fields_get_def risk_of_val_def is_whole_def nullish_def trim_def is_ws_def
  js_simps

lemma contract_example_freezes:
  "\<exists>c. freezeContract (\<lambda>b. b) (\<lambda>_. []) ''bytes'' contract_example = Inr c"
  by (simp add: contract_eval)

theorem frozen_contract_is_bounded_witness:
  "\<exists>c. freezeContract (\<lambda>b. b) (\<lambda>_. []) ''bytes'' contract_example = Inr c
     \<and> tc_hash c = ''bytes'' \<and> budget_declared contract_example (tc_budget c)"
  using contract_example_freezes
    frozen_contract_is_bounded [of "\<lambda>b. b" "\<lambda>_. []" "''bytes''" contract_example _ "''bytes''"]
  by blast

end
