(* ===== verification/TaskGraph.thy ===== *)
theory TaskGraph
  imports Contract
begin

text \<open>
  The task graph of \<open>core/src/graph/graph.ts\<close> and the selection of \<open>graph/select.ts\<close>. Freezing
  collects every violation in a list of reasons and fails once with all of them; \<open>sha\<close> and \<open>shw\<close> are
  the digest and the decimal rendering of a number, as in the contract.
\<close>

section \<open>The frozen graph\<close>

record graph_task =
  gt_id :: string
  gt_title :: string
  gt_satisfies :: "string list"
  gt_depends :: "string list"
  gt_enabling :: bool
  gt_risk :: risk_class
  gt_diff :: nat

record task_graph =
  tg_goal :: string
  tg_tasks :: "graph_task list"
  tg_max_diff :: nat
  tg_hash :: string

record graph_gate =
  gg_hash :: string
  gg_ids :: "string list"
  gg_uncovered :: "string list"
  gg_orphans :: "string list"

record declared_task =
  dt_id :: string
  dt_title :: string
  dt_satisfies :: "string list"
  dt_depends :: "string list"
  dt_enabling :: bool
  dt_risk :: "risk_class option"
  dt_diff :: "nat option"

record declared_graph =
  dg_goal :: string
  dg_tasks :: "declared_task list"
  dg_max_diff :: nat

section \<open>Branch names\<close>

definition is_alnum :: "char \<Rightarrow> bool" where
  "is_alnum c \<longleftrightarrow> (let n = (of_char c :: nat) in
     48 \<le> n \<and> n \<le> 57 \<or> 65 \<le> n \<and> n \<le> 90 \<or> 97 \<le> n \<and> n \<le> 122)"

fun BRANCH_SAFE_ID :: "string \<Rightarrow> bool" where
  "BRANCH_SAFE_ID [] = False"
| "BRANCH_SAFE_ID (c # cs) =
     (is_alnum c \<and> length cs \<le> 63 \<and> list_all (\<lambda>d. is_alnum d \<or> d \<in> set ''._-'') cs)"

definition branchUnsafeReason :: "string \<Rightarrow> string option" where
  "branchUnsafeReason i =
     (if \<not> BRANCH_SAFE_ID i then Some ''must match ^[A-Za-z0-9][A-Za-z0-9._-]{0,63}$''
      else if str_includes i ''..'' then Some ''must not contain \"..\"''
      else if str_suffix ''.lock'' i then Some ''must not end with \".lock\"''
      else None)"

section \<open>The structural re-check\<close>

fun non_empty_string :: "js_val \<Rightarrow> string option" where
  "non_empty_string (VStr s) = (if s = [] then None else Some s)"
| "non_empty_string _ = None"

fun those_strings :: "js_val list \<Rightarrow> string list option" where
  "those_strings [] = Some []"
| "those_strings (v # vs) =
     (case non_empty_string v of
        None \<Rightarrow> None
      | Some s \<Rightarrow> (case those_strings vs of None \<Rightarrow> None | Some ss \<Rightarrow> Some (s # ss)))"

fun string_array :: "js_val \<Rightarrow> string list option" where
  "string_array (VArr vs) = those_strings vs"
| "string_array _ = None"

fun pos_int :: "js_val \<Rightarrow> nat option" where
  "pos_int (VNum (JFin r)) = (if of_int \<lfloor>r\<rfloor> = r \<and> 1 \<le> r then Some (nat \<lfloor>r\<rfloor>) else None)"
| "pos_int _ = None"

fun bool_of :: "js_val \<Rightarrow> bool option" where
  "bool_of (VBool b) = Some b"
| "bool_of _ = None"

definition reason_unless :: "bool \<Rightarrow> string \<Rightarrow> string list" where
  "reason_unless ok msg = (if ok then [] else [msg])"

text \<open>One entry of \<open>tasks\<close>: the reasons it adds, and the task when its required fields are there.\<close>

definition declared_entry :: "nat \<Rightarrow> js_val \<Rightarrow> string list \<times> declared_task option" where
  "declared_entry i entry =
     (let loc = ''tasks['' @ nat_str i @ '']'' in
      if \<not> is_record entry then ([loc @ '' must be an object''], None)
      else
        let idv = non_empty_string (val_get entry ''id'');
            title = non_empty_string (val_get entry ''title'');
            satisfies = string_array (val_get entry ''satisfies'');
            depends = string_array (nullish (val_get entry ''depends_on'') (VArr []));
            enabling = bool_of (nullish (val_get entry ''enabling'') (VBool False));
            risk = val_get entry ''risk'';
            diff = val_get entry ''diff_budget''
        in (reason_unless (idv \<noteq> None) (loc @ ''.id must be a non-empty string'')
            @ reason_unless (title \<noteq> None) (loc @ ''.title must be a non-empty string'')
            @ reason_unless (satisfies \<noteq> None) (loc @ ''.satisfies must be an array of non-empty strings'')
            @ reason_unless (depends \<noteq> None) (loc @ ''.depends_on must be an array of non-empty strings'')
            @ reason_unless (enabling \<noteq> None) (loc @ ''.enabling must be a boolean'')
            @ reason_unless (risk = VUndef \<or> risk_of_val risk \<noteq> None) (loc @ ''.risk must be one of '' @ risk_list_text)
            @ reason_unless (diff = VUndef \<or> pos_int diff \<noteq> None) (loc @ ''.diff_budget must be an integer >= 1''),
            case (idv, title, satisfies, depends, enabling) of
              (Some i', Some t, Some s, Some d, Some e) \<Rightarrow>
                Some \<lparr>dt_id = i', dt_title = t, dt_satisfies = s, dt_depends = d, dt_enabling = e,
                      dt_risk = risk_of_val risk, dt_diff = pos_int diff\<rparr>
            | _ \<Rightarrow> None))"

definition declaredGraph :: "js_val \<Rightarrow> string list \<times> declared_graph option" where
  "declaredGraph parsed =
     (if \<not> is_record parsed then ([''graph must be an object''], None)
      else
        let goal = non_empty_string (val_get parsed ''goal_id'');
            maxd = pos_int (val_get (val_get parsed ''checks'') ''max_diff_budget_per_task'');
            r1 = reason_unless (goal \<noteq> None) ''goal_id must be a non-empty string''
               @ reason_unless (maxd \<noteq> None) ''checks.max_diff_budget_per_task must be an integer >= 1'';
            (r2, tasks) =
              (case val_get parsed ''tasks'' of
                 VArr (x # xs) \<Rightarrow>
                   (let es = map (\<lambda>(i, e). declared_entry i e) (enumerate 0 (x # xs))
                    in (concat (map fst es), List.map_filter snd es))
               | _ \<Rightarrow> ([''tasks must be a non-empty array''], []));
            reasons = r1 @ r2
        in (reasons,
            case (goal, maxd) of
              (Some g, Some m) \<Rightarrow>
                (if reasons = [] then Some \<lparr>dg_goal = g, dg_tasks = tasks, dg_max_diff = m\<rparr> else None)
            | _ \<Rightarrow> None))"

section \<open>Kahn's algorithm\<close>

text \<open>\<open>Map.set\<close> keeps the position of a key that is already there.\<close>

fun map_set :: "('k \<times> 'v) list \<Rightarrow> 'k \<Rightarrow> 'v \<Rightarrow> ('k \<times> 'v) list" where
  "map_set [] k v = [(k, v)]"
| "map_set ((k', v') # m) k v = (if k' = k then (k, v) # m else (k', v') # map_set m k v)"

type_synonym dep_map = "(string \<times> string list) list"

definition deps_get :: "dep_map \<Rightarrow> string \<Rightarrow> string list" where
  "deps_get deps k = (case map_of deps k of Some ds \<Rightarrow> ds | None \<Rightarrow> [])"

definition dependents_of :: "string list \<Rightarrow> dep_map \<Rightarrow> dep_map" where
  "dependents_of ids deps =
     map (\<lambda>i. (i, concat (map (\<lambda>(k, ds). map (\<lambda>_. k) (filter (\<lambda>d. d = i) ds)) deps))) ids"

text \<open>One task has been ordered: each dependent loses one pending edge, and is queued when its last
  one is gone.\<close>

fun release_deps :: "(string \<Rightarrow> int) \<Rightarrow> string list \<Rightarrow> (string \<Rightarrow> int) \<times> string list" where
  "release_deps indeg [] = (indeg, [])"
| "release_deps indeg (n # ns) =
     (let left = indeg n - 1;
          (indeg', q) = release_deps (indeg(n := left)) ns
      in (indeg', if left = 0 then n # q else q))"

function kahn :: "dep_map \<Rightarrow> (string \<Rightarrow> int) \<Rightarrow> string list \<Rightarrow> string list \<Rightarrow> string list" where
  "kahn depn indeg ordered [] = ordered"
| "kahn depn indeg ordered (i # q) =
     (if i \<in> set ordered then kahn depn indeg ordered q
      else
        let r = release_deps indeg (deps_get depn i)
        in kahn depn (fst r) (i # ordered) (q @ snd r))"
  by pat_completeness auto
termination
proof (relation "measures [\<lambda>(depn, _, ordered, _). card (fst ` set depn - set ordered), \<lambda>(_, _, _, q). length q]",
       goal_cases)
  case (3 depn indeg ordered i q r)
  show ?case
  proof (cases "i \<in> fst ` set depn")
    case True
    then have "card (fst ` set depn - insert i (set ordered)) < card (fst ` set depn - set ordered)"
      using 3(1) by (intro psubset_card_mono) auto
    then show ?thesis by simp
  next
    case False
    then have "map_of depn i = None" by (simp add: map_of_eq_None_iff)
    then have "deps_get depn i = []" by (simp add: deps_get_def)
    moreover have "fst ` set depn - insert i (set ordered) = fst ` set depn - set ordered"
      using False by auto
    ultimately show ?thesis using 3(2) by simp
  qed
qed auto

definition unorderableTaskIds :: "string list \<Rightarrow> dep_map \<Rightarrow> string list" where
  "unorderableTaskIds ids deps =
     (let indeg = (\<lambda>i. if i \<in> set ids then int (length (deps_get deps i)) else 0);
          queue = filter (\<lambda>i. indeg i = 0) ids;
          ordered = kahn (dependents_of ids deps) indeg [] queue
      in filter (\<lambda>i. i \<notin> set ordered) ids)"

section \<open>Freezing\<close>

fun duplicate_ids :: "string list \<Rightarrow> string list \<Rightarrow> string list" where
  "duplicate_ids seen [] = []"
| "duplicate_ids seen (i # is) = (if i \<in> set seen then [i] else []) @ duplicate_ids (i # seen) is"

text \<open>The dependencies of one task, in order: an edge to itself or to no task is a reason, the others
  are resolvable.\<close>

fun resolve_deps :: "string list \<Rightarrow> string \<Rightarrow> string list \<Rightarrow> string list \<times> string list" where
  "resolve_deps known i [] = ([], [])"
| "resolve_deps known i (d # ds) =
     (let (rs, ok) = resolve_deps known i ds in
      if d = i then ((''task '' @ i @ '' depends on itself'') # rs, ok)
      else if d \<notin> set known then ((''unknown dependency edge: '' @ i @ '' -> '' @ d) # rs, ok)
      else (rs, d # ok))"

fun resolve_all :: "string list \<Rightarrow> declared_task list \<Rightarrow> dep_map \<Rightarrow> string list \<times> dep_map" where
  "resolve_all known [] m = ([], m)"
| "resolve_all known (t # ts) m =
     (let (rs, ok) = resolve_deps known (dt_id t) (dt_depends t);
          (rs', m') = resolve_all known ts (map_set m (dt_id t) ok)
      in (rs @ rs', m'))"

definition graph_reasons :: "(js_num \<Rightarrow> string) \<Rightarrow> task_contract \<Rightarrow> declared_graph \<Rightarrow> string list" where
  "graph_reasons shw c g =
     (let tasks = dg_tasks g;
          ids = map dt_id tasks;
          ac_ids = uniq (map ac_id (tc_acs c));
          cited = concat (map dt_satisfies tasks);
          unknown = concat (map (\<lambda>t. map (\<lambda>ac. dt_id t @ '' -> '' @ ac)
                      (filter (\<lambda>ac. VStr ac \<notin> set ac_ids) (dt_satisfies t))) tasks);
          uncovered = filter (\<lambda>a. a \<notin> VStr ` set cited) ac_ids;
          orphans = map dt_id (filter (\<lambda>t. dt_satisfies t = [] \<and> \<not> dt_enabling t) tasks);
          (edge_reasons, deps) = resolve_all ids tasks [];
          on_cycle = unorderableTaskIds ids deps
      in map (\<lambda>i. ''duplicate task id: '' @ i) (uniq (duplicate_ids [] ids))
       @ concat (map (\<lambda>t. case branchUnsafeReason (dt_id t) of
            None \<Rightarrow> []
          | Some bad \<Rightarrow> [''task id '' @ dt_id t @ '' is not branch-safe: it '' @ bad]) tasks)
       @ reason_unless (VStr (dg_goal g) = tc_goal_id c)
           (''goal_id '' @ dg_goal g @ '' does not match the frozen contract goal id '' @ js_String shw (tc_goal_id c))
       @ reason_unless (unknown = []) (''unknown acceptance criterion ids: '' @ join '', '' unknown)
       @ reason_unless (uncovered = []) (''uncovered acceptance criteria: '' @ join '', '' (map (js_String shw) uncovered))
       @ reason_unless (orphans = []) (''orphan tasks (empty satisfies, not enabling): '' @ join '', '' orphans)
       @ edge_reasons
       @ reason_unless (on_cycle = []) (''dependency cycle involving: '' @ join '', '' on_cycle)
       @ reason_unless (length tasks \<le> cb_max_total_tasks (tc_budget c))
           (''task count '' @ nat_str (length tasks) @ '' exceeds budget.max_total_tasks ''
            @ shw (JFin (of_nat (cb_max_total_tasks (tc_budget c)))))
       @ concat (map (\<lambda>t. case dt_diff t of
            Some d \<Rightarrow> reason_unless (d \<le> dg_max_diff g)
              (''task '' @ dt_id t @ '' diff_budget '' @ shw (JFin (of_nat d))
               @ '' exceeds checks.max_diff_budget_per_task '' @ shw (JFin (of_nat (dg_max_diff g))))
          | None \<Rightarrow> []) tasks)
       @ concat (map (\<lambda>t. case dt_risk t of
            Some r \<Rightarrow> reason_unless (risk_index r \<le> risk_index (tc_risk c))
              (''task '' @ dt_id t @ '' risk '' @ risk_name r @ '' exceeds contract risk '' @ risk_name (tc_risk c))
          | None \<Rightarrow> []) tasks)
       @ reason_unless (tc_deploy c = None)
           ''contract carries a deploy block; a deploy goal cannot run as a task graph this stage'')"

definition freeze_task :: "task_contract \<Rightarrow> nat \<Rightarrow> declared_task \<Rightarrow> graph_task" where
  "freeze_task c maxd t =
     \<lparr>gt_id = dt_id t, gt_title = dt_title t, gt_satisfies = dt_satisfies t, gt_depends = dt_depends t,
      gt_enabling = dt_enabling t,
      gt_risk = (case dt_risk t of Some r \<Rightarrow> r | None \<Rightarrow> tc_risk c),
      gt_diff = (case dt_diff t of Some d \<Rightarrow> d | None \<Rightarrow> maxd)\<rparr>"

definition freezeTaskGraph ::
    "('b \<Rightarrow> string) \<Rightarrow> (js_num \<Rightarrow> string) \<Rightarrow> 'b \<Rightarrow> js_val \<Rightarrow> task_contract \<Rightarrow>
     string list + task_graph \<times> graph_gate" where
  "freezeTaskGraph sha shw rawBytes parsed c =
     (case declaredGraph parsed of
        (reasons, None) \<Rightarrow> Inl reasons
      | (_, Some g) \<Rightarrow>
          let reasons = graph_reasons shw c g in
          if reasons \<noteq> [] then Inl reasons
          else
            let h = sha rawBytes; frozen = map (freeze_task c (dg_max_diff g)) (dg_tasks g)
            in Inr (\<lparr>tg_goal = dg_goal g, tg_tasks = frozen, tg_max_diff = dg_max_diff g, tg_hash = h\<rparr>,
                    \<lparr>gg_hash = h, gg_ids = map gt_id frozen, gg_uncovered = [], gg_orphans = []\<rparr>))"

section \<open>Selection\<close>

definition DEP_SATISFIED_STATES :: "task_state list" where
  "DEP_SATISFIED_STATES = [S_PASSED, S_REVIEWING, S_APPROVED, S_MERGE_QUEUED, S_AUDITED, S_COMPLETED]"

record task_projection =
  tp_latest :: "string \<Rightarrow> task_state option"
  tp_started :: "string \<Rightarrow> bool"

definition eligible :: "task_projection \<Rightarrow> graph_task \<Rightarrow> bool" where
  "eligible p t \<longleftrightarrow> \<not> tp_started p (gt_id t)
     \<and> list_all (\<lambda>d. case tp_latest p d of None \<Rightarrow> False | Some s \<Rightarrow> s \<in> set DEP_SATISFIED_STATES) (gt_depends t)"

definition selectNextTask :: "task_graph \<Rightarrow> task_projection \<Rightarrow> graph_task option" where
  "selectNextTask g p = find (eligible p) (tg_tasks g)"

section \<open>Kahn's algorithm finds exactly the tasks that cannot be ordered\<close>

definition dep_rel :: "string list \<Rightarrow> dep_map \<Rightarrow> (string \<times> string) set" where
  "dep_rel ids deps = {(a, b). a \<in> set ids \<and> b \<in> set (deps_get deps a)}"

text \<open>On a cycle, or waiting for a task on one.\<close>

definition blocked_task :: "string list \<Rightarrow> dep_map \<Rightarrow> string \<Rightarrow> bool" where
  "blocked_task ids deps i \<longleftrightarrow> (\<exists>c. (i, c) \<in> (dep_rel ids deps)\<^sup>* \<and> (c, c) \<in> (dep_rel ids deps)\<^sup>+)"

definition dep_map_ok :: "string list \<Rightarrow> dep_map \<Rightarrow> bool" where
  "dep_map_ok ids deps \<longleftrightarrow> distinct ids \<and> distinct (map fst deps)
     \<and> set (map fst deps) \<subseteq> set ids \<and> (\<forall>i. set (deps_get deps i) \<subseteq> set ids)"

lemma blocked_task_step:
  assumes "blocked_task ids deps i"
  shows "\<exists>d. (i, d) \<in> dep_rel ids deps \<and> blocked_task ids deps d"
proof -
  let ?R = "dep_rel ids deps"
  obtain c where c: "(i, c) \<in> ?R\<^sup>*" "(c, c) \<in> ?R\<^sup>+" using assms by (auto simp: blocked_task_def)
  then have "(i, c) \<in> ?R\<^sup>+" by (meson rtrancl_trancl_trancl)
  then obtain d where "(i, d) \<in> ?R" "(d, c) \<in> ?R\<^sup>*" by (meson tranclD)
  then show ?thesis using c by (auto simp: blocked_task_def)
qed

lemma endless_is_cyclic:
  assumes fin: "finite A" and next_in: "\<And>a. a \<in> A \<Longrightarrow> \<exists>b \<in> A. (a, b) \<in> R" and a: "a \<in> A"
  shows "\<exists>c. (a, c) \<in> R\<^sup>* \<and> (c, c) \<in> R\<^sup>+"
proof (rule ccontr)
  assume none: "\<not> ?thesis"
  define B where "B = {b \<in> A. (a, b) \<in> R\<^sup>*}"
  define Q where "Q = R \<inter> B \<times> B"
  have "finite Q" using fin by (simp add: Q_def B_def)
  moreover have "acyclic Q"
  proof (rule acyclicI, rule allI, rule notI)
    fix x assume "(x, x) \<in> Q\<^sup>+"
    then have "(x, x) \<in> R\<^sup>+" and "x \<in> B"
      by (auto simp: Q_def elim: trancl_mono dest: tranclD)
    then show False using none by (auto simp: B_def)
  qed
  ultimately have "wf (Q\<inverse>)" by (rule finite_acyclic_wf_converse)
  moreover have "a \<in> B" using a by (simp add: B_def)
  ultimately obtain m where m: "m \<in> B" "\<And>y. (y, m) \<in> Q\<inverse> \<Longrightarrow> y \<notin> B"
    using wfE_min [of "Q\<inverse>" a B] by blast
  then obtain b where "b \<in> A" "(m, b) \<in> R" using next_in [of m] by (auto simp: B_def)
  moreover from this have "b \<in> B" using m(1) unfolding B_def
    by (blast intro: rtrancl_into_rtrancl)
  ultimately have "(b, m) \<in> Q\<inverse>" using m(1) by (simp add: Q_def)
  then show False using m(2) \<open>b \<in> B\<close> by blast
qed

lemma release_deps_indeg: "fst (release_deps f ns) x = f x - int (count_list ns x)"
  by (induction ns arbitrary: f) (auto simp: Let_def case_prod_unfold)

lemma release_deps_queue:
  "x \<in> set (snd (release_deps f ns)) \<longleftrightarrow> 1 \<le> f x \<and> f x \<le> int (count_list ns x)"
proof (induction ns arbitrary: f)
  case (Cons n ns)
  show ?case
  proof (cases "x = n")
    case True
    then have n: "n = x" by simp
    have "x \<in> set (snd (release_deps f (n # ns))) \<longleftrightarrow>
        f x = 1 \<or> (1 \<le> f x - 1 \<and> f x - 1 \<le> int (count_list ns x))"
      by (simp add: n Let_def case_prod_unfold Cons.IH)
    also have "\<dots> \<longleftrightarrow> 1 \<le> f x \<and> f x \<le> int (count_list (n # ns) x)" by (auto simp: n)
    finally show ?thesis .
  next
    case False
    then show ?thesis by (simp add: Let_def case_prod_unfold Cons.IH)
  qed
qed simp

lemma count_list_concat: "count_list (concat xss) x = sum_list (map (\<lambda>xs. count_list xs x) xss)"
  by (induction xss) simp_all

lemma count_list_const: "count_list (map (\<lambda>_. k) xs) x = (if k = x then length xs else 0)"
  by (induction xs) auto

lemma length_filter_count: "length (filter (\<lambda>d. d = i) xs) = count_list xs i"
  by (induction xs) auto

lemma sum_list_single:
  "distinct (map fst m) \<Longrightarrow>
     sum_list (map (\<lambda>(k, v). if k = x then f v else 0) m) = (case map_of m x of Some v \<Rightarrow> f v | None \<Rightarrow> (0::nat))"
proof (induction m)
  case (Cons p m)
  then show ?case
    by (cases p) (auto simp: map_of_eq_None_iff [THEN iffD2])
qed simp

lemma deps_get_dependents:
  assumes "d \<in> set ids"
  shows "deps_get (dependents_of ids deps) d
       = concat (map (\<lambda>(k, ds). map (\<lambda>_. k) (filter (\<lambda>e. e = d) ds)) deps)"
  using assms by (simp add: deps_get_def dependents_of_def map_of_map_keys map_of_map_restrict)

lemma dependents_count:
  assumes "dep_map_ok ids deps" "d \<in> set ids"
  shows "count_list (deps_get (dependents_of ids deps) d) n = count_list (deps_get deps n) d"
proof -
  have eq: "(\<lambda>(k, ds). count_list (map (\<lambda>_. k) (filter (\<lambda>e. e = d) ds)) n)
      = (\<lambda>(k, ds). if k = n then count_list ds d else 0)"
    by (auto simp: fun_eq_iff count_list_const length_filter_count)
  have "count_list (deps_get (dependents_of ids deps) d) n
      = sum_list (map (\<lambda>(k, ds). count_list (map (\<lambda>_. k) (filter (\<lambda>e. e = d) ds)) n) deps)"
    by (simp add: deps_get_dependents [OF assms(2)] count_list_concat comp_def case_prod_unfold)
  also have "\<dots> = (case map_of deps n of Some ds \<Rightarrow> count_list ds d | None \<Rightarrow> 0)"
    unfolding eq using assms(1) by (intro sum_list_single) (simp add: dep_map_ok_def)
  also have "\<dots> = count_list (deps_get deps n) d" by (simp add: deps_get_def split: option.split)
  finally show ?thesis .
qed

lemma filter_count_insert:
  "j \<notin> set ys \<Longrightarrow> length (filter (\<lambda>d. d \<notin> set ys) xs)
     = length (filter (\<lambda>d. d \<notin> set (j # ys)) xs) + count_list xs j"
  by (induction xs) auto

definition pending :: "dep_map \<Rightarrow> string list \<Rightarrow> string \<Rightarrow> nat" where
  "pending deps ordered i = length (filter (\<lambda>d. d \<notin> set ordered) (deps_get deps i))"

lemma pending_Cons:
  "j \<notin> set ordered \<Longrightarrow> pending deps ordered i = pending deps (j # ordered) i + count_list (deps_get deps i) j"
  unfolding pending_def by (rule filter_count_insert)

lemma pending_0: "pending deps ordered i = 0 \<longleftrightarrow> set (deps_get deps i) \<subseteq> set ordered"
  by (auto simp: pending_def filter_empty_conv)

definition kahn_inv :: "string list \<Rightarrow> dep_map \<Rightarrow> (string \<Rightarrow> int) \<Rightarrow> string list \<Rightarrow> string list \<Rightarrow> bool" where
  "kahn_inv ids deps indeg ordered q \<longleftrightarrow>
     (\<forall>i \<in> set ids. indeg i = int (pending deps ordered i))
   \<and> (\<forall>i \<in> set ids - set ordered. indeg i = 0 \<longrightarrow> i \<in> set q)
   \<and> (\<forall>i \<in> set q. i \<in> set ids \<and> indeg i = 0)
   \<and> set ordered \<subseteq> set ids \<and> (\<forall>i \<in> set ordered. \<not> blocked_task ids deps i)"

lemma kahn_inv_step:
  assumes ok: "dep_map_ok ids deps" and inv: "kahn_inv ids deps indeg ordered (i # q)"
    and new: "i \<notin> set ordered"
    and r: "r = release_deps indeg (deps_get (dependents_of ids deps) i)"
  shows "kahn_inv ids deps (fst r) (i # ordered) (q @ snd r)"
proof -
  have i: "i \<in> set ids" "indeg i = 0" using inv by (auto simp: kahn_inv_def)
  have deg: "fst r n = indeg n - int (count_list (deps_get deps n) i)" for n
    by (simp add: r release_deps_indeg dependents_count [OF ok i(1)])
  have queued: "n \<in> set (snd r) \<longleftrightarrow> 1 \<le> indeg n \<and> indeg n \<le> int (count_list (deps_get deps n) i)" for n
    by (simp add: r release_deps_queue dependents_count [OF ok i(1)])
  have old: "indeg n = int (pending deps ordered n)" if "n \<in> set ids" for n
    using inv that by (auto simp: kahn_inv_def)
  have new_deg: "fst r n = int (pending deps (i # ordered) n)" if "n \<in> set ids" for n
    using old [OF that] pending_Cons [OF new, of deps n] by (simp add: deg)
  have known: "n \<in> set ids" if "1 \<le> count_list (deps_get deps n) i" for n
  proof -
    have "deps_get deps n \<noteq> []" using that by auto
    then have "n \<in> set (map fst deps)"
      by (auto simp: deps_get_def split: option.splits dest!: map_of_SomeD) force
    then show ?thesis using ok by (auto simp: dep_map_ok_def)
  qed
  have "\<not> blocked_task ids deps i"
  proof
    assume "blocked_task ids deps i"
    then obtain d where "(i, d) \<in> dep_rel ids deps" "blocked_task ids deps d"
      using blocked_task_step by blast
    moreover have "set (deps_get deps i) \<subseteq> set ordered"
      using i old [OF i(1)] by (simp add: pending_0 [symmetric])
    ultimately show False using inv by (auto simp: kahn_inv_def dep_rel_def)
  qed
  moreover have "n \<in> set q \<or> n \<in> set (snd r)"
    if "n \<in> set ids" "n \<notin> set ordered" "n \<noteq> i" "fst r n = 0" for n
  proof (cases "indeg n = 0")
    case True
    then have "n \<in> set (i # q)" using inv that unfolding kahn_inv_def by blast
    then show ?thesis using that by simp
  next
    case False
    then show ?thesis using that deg [of n] old [of n] by (simp add: queued)
  qed
  moreover have "n \<in> set ids \<and> fst r n = 0" if "n \<in> set (snd r)" for n
  proof -
    have "n \<in> set ids" using that known [of n] by (auto simp: queued)
    then show ?thesis using that new_deg [of n] deg [of n] by (auto simp: queued)
  qed
  moreover have "n \<in> set ids \<and> fst r n = 0" if "n \<in> set q" for n
  proof -
    have "n \<in> set ids" "indeg n = 0" using that inv by (auto simp: kahn_inv_def)
    then show ?thesis using new_deg [of n] deg [of n] by auto
  qed
  ultimately show ?thesis
    using inv i new_deg by (auto simp: kahn_inv_def)
qed

lemma kahn_inv_skip:
  "kahn_inv ids deps indeg ordered (i # q) \<Longrightarrow> i \<in> set ordered \<Longrightarrow> kahn_inv ids deps indeg ordered q"
  unfolding kahn_inv_def by (metis DiffD2 list.set_intros(2) set_ConsD)

lemma kahn_final:
  assumes "dep_map_ok ids deps" "kahn_inv ids deps indeg ordered q"
  shows "\<exists>indeg'. kahn_inv ids deps indeg' (kahn (dependents_of ids deps) indeg ordered q) []"
  using assms(2)
proof (induction "dependents_of ids deps" indeg ordered q rule: kahn.induct)
  case (2 indeg ordered i q)
  show ?case
  proof (cases "i \<in> set ordered")
    case True
    then show ?thesis using 2(1) [OF True kahn_inv_skip [OF 2(3) True]] by simp
  next
    case False
    show ?thesis
      using 2(2) [OF False refl kahn_inv_step [OF assms(1) 2(3) False refl]] False by (simp add: Let_def)
  qed
qed auto

lemma kahn_inv_start:
  "kahn_inv ids deps (\<lambda>i. if i \<in> set ids then int (length (deps_get deps i)) else 0) []
     (filter (\<lambda>i. (if i \<in> set ids then int (length (deps_get deps i)) else 0) = 0) ids)"
  by (auto simp: kahn_inv_def pending_def)

lemma unorderable_exact:
  assumes "dep_map_ok ids deps"
  shows "set (unorderableTaskIds ids deps) = {i \<in> set ids. blocked_task ids deps i}
    \<and> (unorderableTaskIds ids deps = [] \<longleftrightarrow> acyclic (dep_rel ids deps))"
proof -
  let ?R = "dep_rel ids deps"
  obtain indeg ordered where inv: "kahn_inv ids deps indeg ordered []"
    and res: "unorderableTaskIds ids deps = filter (\<lambda>i. i \<notin> set ordered) ids"
    using kahn_final [OF assms kahn_inv_start] by (auto simp: unorderableTaskIds_def Let_def)
  let ?A = "set ids - set ordered"
  have "\<exists>b \<in> ?A. (a, b) \<in> ?R" if "a \<in> ?A" for a
  proof -
    have "pending deps ordered a \<noteq> 0" using inv that by (fastforce simp: kahn_inv_def)
    then obtain b where "b \<in> set (deps_get deps a)" "b \<notin> set ordered" by (auto simp: pending_0)
    moreover from this have "b \<in> set ids" using assms by (auto simp: dep_map_ok_def)
    ultimately show ?thesis using that by (auto simp: dep_rel_def)
  qed
  then have "blocked_task ids deps a" if "a \<in> ?A" for a
    unfolding blocked_task_def using that by (intro endless_is_cyclic [of ?A]) auto
  then have eq: "set (unorderableTaskIds ids deps) = {i \<in> set ids. blocked_task ids deps i}"
    using inv by (auto simp: res kahn_inv_def)
  have "(\<exists>i \<in> set ids. blocked_task ids deps i) \<longleftrightarrow> \<not> acyclic ?R"
  proof
    assume "\<not> acyclic ?R"
    then obtain c where c: "(c, c) \<in> ?R\<^sup>+" by (auto simp: acyclic_def)
    then have "c \<in> set ids" by (auto simp: dep_rel_def dest: tranclD)
    then show "\<exists>i \<in> set ids. blocked_task ids deps i" using c by (auto simp: blocked_task_def)
  qed (auto simp: blocked_task_def acyclic_def)
  then show ?thesis using eq by (metis (mono_tags, lifting) empty_iff mem_Collect_eq set_empty2 ex_in_conv)
qed

lemma kahn_exact_acyclic:
  "dep_map_ok ids deps \<Longrightarrow> unorderableTaskIds ids deps = [] \<Longrightarrow> acyclic (dep_rel ids deps)"
  using unorderable_exact by blast

text \<open>C29: on the graph of a duplicate-free list of tasks whose dependencies are all known,
  \<open>unorderableTaskIds\<close> returns exactly the tasks that lie on a dependency cycle or wait, directly or
  not, for a task on one; the rest can be ordered. In particular the result is empty exactly when the
  dependency relation has no cycle.\<close>

theorem kahn_exact:
  assumes "dep_map_ok ids deps"
  shows "set (unorderableTaskIds ids deps) = {i \<in> set ids. blocked_task ids deps i}
    \<and> (unorderableTaskIds ids deps = [] \<longleftrightarrow> acyclic (dep_rel ids deps))"
  using assms by (rule unorderable_exact)

theorem kahn_exact_witness:
  "set (unorderableTaskIds [''a'', ''b'', ''c'', ''d'']
      [(''a'', []), (''b'', [''c'']), (''c'', [''b'']), (''d'', [''c'', ''a''])])
   = {i \<in> set [''a'', ''b'', ''c'', ''d'']. blocked_task [''a'', ''b'', ''c'', ''d'']
      [(''a'', []), (''b'', [''c'']), (''c'', [''b'']), (''d'', [''c'', ''a''])] i}
   \<and> unorderableTaskIds [''a'', ''b'', ''c'', ''d'']
      [(''a'', []), (''b'', [''c'']), (''c'', [''b'']), (''d'', [''c'', ''a''])] = [''b'', ''c'', ''d'']"
proof -
  have "dep_map_ok [''a'', ''b'', ''c'', ''d'']
      [(''a'', []), (''b'', [''c'']), (''c'', [''b'']), (''d'', [''c'', ''a''])]"
    by (auto simp: dep_map_ok_def deps_get_def split: if_splits)
  from conjunct1 [OF kahn_exact [OF this]]
  show ?thesis
    by (rule conjI) (simp add: unorderableTaskIds_def dependents_of_def deps_get_def Let_def)
qed

section \<open>What freezing guarantees\<close>

lemma reason_unless_empty [simp]: "reason_unless ok m = [] \<longleftrightarrow> ok"
  by (simp add: reason_unless_def)

lemma duplicate_ids_empty: "duplicate_ids seen is = [] \<longleftrightarrow> distinct is \<and> set seen \<inter> set is = {}"
  by (induction seen "is" rule: duplicate_ids.induct) auto

lemma uniq_empty [simp]: "uniq xs = [] \<longleftrightarrow> xs = []"
  by (metis set_empty2 set_uniq)

lemma resolve_deps_clean:
  "fst (resolve_deps known i ds) = [] \<Longrightarrow>
     snd (resolve_deps known i ds) = ds \<and> i \<notin> set ds \<and> set ds \<subseteq> set known"
  by (induction ds) (auto simp: Let_def case_prod_unfold split: if_splits)

lemma map_set_fresh: "k \<notin> fst ` set m \<Longrightarrow> map_set m k v = m @ [(k, v)]"
  by (induction m k v rule: map_set.induct) auto

lemma resolve_all_clean:
  assumes "fst (resolve_all known ts m) = []"
    and "distinct (map fst m @ map dt_id ts)"
  shows "snd (resolve_all known ts m) = m @ map (\<lambda>t. (dt_id t, dt_depends t)) ts
    \<and> (\<forall>t \<in> set ts. set (dt_depends t) \<subseteq> set known)"
  using assms
proof (induction ts arbitrary: m)
  case (Cons t ts)
  let ?r = "resolve_deps known (dt_id t) (dt_depends t)"
  let ?m = "map_set m (dt_id t) (snd ?r)"
  have clean: "fst ?r = []" "fst (resolve_all known ts ?m) = []"
    using Cons.prems(1) by (auto simp: Let_def case_prod_unfold)
  have m: "?m = m @ [(dt_id t, dt_depends t)]"
    using Cons.prems(2) resolve_deps_clean [OF clean(1)] by (subst map_set_fresh) auto
  have "snd (resolve_all known ts ?m) = ?m @ map (\<lambda>t. (dt_id t, dt_depends t)) ts
      \<and> (\<forall>t \<in> set ts. set (dt_depends t) \<subseteq> set known)"
    using Cons.prems(2) by (intro Cons.IH clean(2)) (auto simp: m)
  then show ?case
    using resolve_deps_clean [OF clean(1)] m by (simp add: Let_def case_prod_unfold)
qed simp

definition graph_rel :: "task_graph \<Rightarrow> (string \<times> string) set" where
  "graph_rel g = {(a, b). \<exists>t \<in> set (tg_tasks g). gt_id t = a \<and> b \<in> set (gt_depends t)}"

definition graph_ids :: "task_graph \<Rightarrow> string list" where
  "graph_ids g = map gt_id (tg_tasks g)"

text \<open>The dependencies of a graph: its tasks are named once, depend on its own tasks, and not in a circle.\<close>

definition orderable_graph :: "task_graph \<Rightarrow> bool" where
  "orderable_graph g \<longleftrightarrow> distinct (graph_ids g) \<and> acyclic (graph_rel g)
     \<and> (\<forall>t \<in> set (tg_tasks g). set (gt_depends t) \<subseteq> set (graph_ids g))"

definition covers_contract :: "task_contract \<Rightarrow> task_graph \<Rightarrow> bool" where
  "covers_contract c g \<longleftrightarrow>
     (\<forall>a \<in> set (tc_acs c). \<exists>t \<in> set (tg_tasks g). ac_id a \<in> VStr ` set (gt_satisfies t))
   \<and> (\<forall>t \<in> set (tg_tasks g). VStr ` set (gt_satisfies t) \<subseteq> ac_id ` set (tc_acs c)
        \<and> (gt_satisfies t = [] \<longrightarrow> gt_enabling t))"

definition within_contract :: "task_contract \<Rightarrow> task_graph \<Rightarrow> bool" where
  "within_contract c g \<longleftrightarrow> VStr (tg_goal g) = tc_goal_id c \<and> tc_deploy c = None
     \<and> length (tg_tasks g) \<le> cb_max_total_tasks (tc_budget c)
     \<and> (\<forall>t \<in> set (tg_tasks g). gt_diff t \<le> tg_max_diff g
          \<and> risk_index (gt_risk t) \<le> risk_index (tc_risk c)
          \<and> branchUnsafeReason (gt_id t) = None)"

lemma freeze_task_simps [simp]:
  "gt_id (freeze_task c m t) = dt_id t" "gt_depends (freeze_task c m t) = dt_depends t"
  "gt_satisfies (freeze_task c m t) = dt_satisfies t" "gt_enabling (freeze_task c m t) = dt_enabling t"
  "gt_risk (freeze_task c m t) = (case dt_risk t of Some r \<Rightarrow> r | None \<Rightarrow> tc_risk c)"
  "gt_diff (freeze_task c m t) = (case dt_diff t of Some d \<Rightarrow> d | None \<Rightarrow> m)"
  by (simp_all add: freeze_task_def)

lemma graph_reasons_clean:
  assumes "graph_reasons shw c g = []"
  defines "ids \<equiv> map dt_id (dg_tasks g)"
    and "deps \<equiv> map (\<lambda>t. (dt_id t, dt_depends t)) (dg_tasks g)"
  shows "distinct ids" "\<forall>t \<in> set (dg_tasks g). set (dt_depends t) \<subseteq> set ids"
    "unorderableTaskIds ids deps = []"
proof -
  have dup: "uniq (duplicate_ids [] ids) = []"
    and edges: "fst (resolve_all ids (dg_tasks g) []) = []"
    and cyc: "unorderableTaskIds ids (snd (resolve_all ids (dg_tasks g) [])) = []"
    using assms(1) by (simp_all add: graph_reasons_def ids_def Let_def case_prod_unfold)
  show dist: "distinct ids" using dup by (simp add: duplicate_ids_empty)
  have "snd (resolve_all ids (dg_tasks g) []) = deps \<and> (\<forall>t \<in> set (dg_tasks g). set (dt_depends t) \<subseteq> set ids)"
    using resolve_all_clean [OF edges] dist by (simp add: ids_def deps_def)
  then show "\<forall>t \<in> set (dg_tasks g). set (dt_depends t) \<subseteq> set ids"
    and "unorderableTaskIds ids deps = []" using cyc by auto
qed

lemma clean_acyclic:
  assumes "graph_reasons shw c g = []"
  shows "acyclic {(a, b). \<exists>t \<in> set (dg_tasks g). dt_id t = a \<and> b \<in> set (dt_depends t)}"
proof -
  let ?ids = "map dt_id (dg_tasks g)" and ?deps = "map (\<lambda>t. (dt_id t, dt_depends t)) (dg_tasks g)"
  note clean = graph_reasons_clean [OF assms]
  have get: "deps_get ?deps (dt_id t) = dt_depends t" if "t \<in> set (dg_tasks g)" for t
  proof -
    have "map_of ?deps (dt_id t) = Some (dt_depends t)"
      using that clean(1) by (intro map_of_is_SomeI) (auto simp: comp_def)
    then show ?thesis by (simp add: deps_get_def)
  qed
  have out: "deps_get ?deps i = []" if "i \<notin> set ?ids" for i
  proof -
    have "map_of ?deps i = None" using that by (auto simp: map_of_eq_None_iff)
    then show ?thesis by (simp add: deps_get_def)
  qed
  have "set (deps_get ?deps i) \<subseteq> set ?ids" for i
  proof (cases "i \<in> set ?ids")
    case True
    then obtain t where t: "t \<in> set (dg_tasks g)" "i = dt_id t" by auto
    show ?thesis using clean(2) t(1) by (simp only: t(2) get [OF t(1)])
  next
    case False
    from out [OF this] show ?thesis by simp
  qed
  then have "dep_map_ok ?ids ?deps" using clean(1) by (simp add: dep_map_ok_def comp_def image_image)
  from kahn_exact_acyclic [OF this clean(3)] have "acyclic (dep_rel ?ids ?deps)" .
  moreover have "{(a, b). \<exists>t \<in> set (dg_tasks g). dt_id t = a \<and> b \<in> set (dt_depends t)} \<subseteq> dep_rel ?ids ?deps"
    by (auto simp: dep_rel_def get)
  ultimately show ?thesis by (rule acyclic_subset)
qed

lemma freezeTaskGraph_Inr:
  "freezeTaskGraph sha shw raw v c = Inr (g, gate) \<Longrightarrow>
     \<exists>d. graph_reasons shw c d = [] \<and> tg_tasks g = map (freeze_task c (dg_max_diff d)) (dg_tasks d)
       \<and> tg_goal g = dg_goal d \<and> tg_max_diff g = dg_max_diff d \<and> tg_hash g = sha raw
       \<and> gg_ids gate = map gt_id (tg_tasks g) \<and> gg_hash gate = sha raw"
  by (auto simp: freezeTaskGraph_def Let_def comp_def split: prod.splits option.splits if_splits)

lemma freezeTaskGraph_orderable:
  assumes "freezeTaskGraph sha shw raw v c = Inr (g, gate)"
  shows "orderable_graph g"
proof -
  obtain d where d: "graph_reasons shw c d = []" "tg_tasks g = map (freeze_task c (dg_max_diff d)) (dg_tasks d)"
    using freezeTaskGraph_Inr [OF assms] by blast
  have "graph_rel g = {(a, b). \<exists>t \<in> set (dg_tasks d). dt_id t = a \<and> b \<in> set (dt_depends t)}"
    by (auto simp: graph_rel_def d(2))
  then show ?thesis
    using graph_reasons_clean(1,2) [OF d(1)] clean_acyclic [OF d(1)]
    by (simp add: orderable_graph_def graph_ids_def d(2) comp_def)
qed

lemma clean_covers:
  assumes "graph_reasons shw c d = []" "tg_tasks g = map (freeze_task c m) (dg_tasks d)"
  shows "covers_contract c g"
proof -
  have cov: "\<forall>a \<in> ac_id ` set (tc_acs c). a \<in> VStr ` (\<Union>t \<in> set (dg_tasks d). set (dt_satisfies t))"
    and known: "\<forall>t \<in> set (dg_tasks d). \<forall>ac \<in> set (dt_satisfies t). VStr ac \<in> ac_id ` set (tc_acs c)"
    and orphan: "\<forall>t \<in> set (dg_tasks d). dt_satisfies t = [] \<longrightarrow> dt_enabling t"
    using assms(1) by (simp_all add: graph_reasons_def Let_def case_prod_unfold filter_empty_conv)
  have "\<exists>t \<in> set (dg_tasks d). ac_id a \<in> VStr ` set (dt_satisfies t)" if "a \<in> set (tc_acs c)" for a
    using cov that by (fastforce simp: image_iff)
  then show ?thesis unfolding covers_contract_def assms(2) using known orphan by auto
qed

lemma clean_within:
  assumes "graph_reasons shw c d = []" "tg_tasks g = map (freeze_task c (tg_max_diff g)) (dg_tasks d)"
    and "tg_goal g = dg_goal d" "tg_max_diff g = dg_max_diff d"
  shows "within_contract c g"
proof -
  have "VStr (dg_goal d) = tc_goal_id c \<and> length (dg_tasks d) \<le> cb_max_total_tasks (tc_budget c) \<and> tc_deploy c = None"
    using assms(1) by (simp add: graph_reasons_def Let_def case_prod_unfold)
  moreover have "\<forall>t \<in> set (dg_tasks d). (case branchUnsafeReason (dt_id t) of None \<Rightarrow> [] | Some bad \<Rightarrow>
      [''task id '' @ dt_id t @ '' is not branch-safe: it '' @ bad]) = []"
    using assms(1) by (simp add: graph_reasons_def Let_def case_prod_unfold)
  moreover have "\<forall>t \<in> set (dg_tasks d). \<forall>n. dt_diff t = Some n \<longrightarrow> n \<le> dg_max_diff d"
    and "\<forall>t \<in> set (dg_tasks d). \<forall>r. dt_risk t = Some r \<longrightarrow> risk_index r \<le> risk_index (tc_risk c)"
    using assms(1) by (auto simp: graph_reasons_def Let_def case_prod_unfold split: option.splits)
  ultimately show ?thesis
    unfolding within_contract_def assms(2-4) by (auto split: option.splits)
qed

lemma declaredGraph_None: "declaredGraph v = (rs, None) \<Longrightarrow> rs \<noteq> []"
  by (cases "is_record v")
     (auto simp: declaredGraph_def Let_def case_prod_unfold reason_unless_def split: option.splits if_splits)

text \<open>A task graph that freezes can be run to the end under its contract: its task ids are
  distinct, spellable as branch names, its dependencies name its own tasks and form no cycle; every
  acceptance criterion of the contract is satisfied by some task, every criterion a task cites is the
  contract's, and only an enabling task cites none; the number of tasks, the diff budgets and the
  effective risks stay within the contract, which is the one the graph names and has no deploy block.
  A graph that does not freeze comes with at least one reason.\<close>

theorem frozen_graph_is_plannable:
  "case freezeTaskGraph sha shw raw v c of
     Inr (g, gate) \<Rightarrow> orderable_graph g \<and> covers_contract c g \<and> within_contract c g
       \<and> gg_ids gate = graph_ids g \<and> tg_hash g = sha raw \<and> gg_hash gate = sha raw
   | Inl reasons \<Rightarrow> reasons \<noteq> []"
proof (cases "freezeTaskGraph sha shw raw v c")
  case (Inl reasons)
  then have "reasons \<noteq> []"
    by (auto simp: freezeTaskGraph_def Let_def split: prod.splits option.splits if_splits dest: declaredGraph_None)
  then show ?thesis using Inl by simp
next
  case (Inr gg)
  obtain g gate where gg: "gg = (g, gate)" by (cases gg)
  obtain d where d: "graph_reasons shw c d = []" "tg_tasks g = map (freeze_task c (dg_max_diff d)) (dg_tasks d)"
    "tg_goal g = dg_goal d" "tg_max_diff g = dg_max_diff d" "tg_hash g = sha raw"
    "gg_ids gate = map gt_id (tg_tasks g)" "gg_hash gate = sha raw"
    using freezeTaskGraph_Inr [OF Inr [unfolded gg]] by blast
  have "orderable_graph g" by (rule freezeTaskGraph_orderable [OF Inr [unfolded gg]])
  moreover have "covers_contract c g" using d by (intro clean_covers)
  moreover have "within_contract c g" using d by (intro clean_within) simp_all
  ultimately show ?thesis by (simp add: Inr gg d(5-7) graph_ids_def)
qed

section \<open>What selection guarantees\<close>

lemma selectNextTask_Some:
  "selectNextTask g p = Some t \<longleftrightarrow>
     (\<exists>i < length (tg_tasks g). tg_tasks g ! i = t \<and> eligible p t \<and> (\<forall>j < i. \<not> eligible p (tg_tasks g ! j)))"
  by (auto simp: selectNextTask_def find_Some_iff)

lemma selectNextTask_None: "selectNextTask g p = None \<longleftrightarrow> (\<forall>t \<in> set (tg_tasks g). \<not> eligible p t)"
  by (auto simp: selectNextTask_def find_None_iff)

lemma orderable_graph_minimal:
  assumes "orderable_graph g" and "t \<in> set (tg_tasks g)" and "Q t"
  shows "\<exists>u \<in> set (tg_tasks g). Q u \<and> (\<forall>w \<in> set (tg_tasks g). gt_id w \<in> set (gt_depends u) \<longrightarrow> \<not> Q w)"
proof -
  let ?S = "{i. \<exists>u \<in> set (tg_tasks g). gt_id u = i \<and> Q u}"
  have uniq: "u = w" if "u \<in> set (tg_tasks g)" "w \<in> set (tg_tasks g)" "gt_id u = gt_id w" for u w
    using assms(1) that by (auto simp: orderable_graph_def graph_ids_def distinct_map inj_on_def)
  have "graph_rel g = (\<Union>u \<in> set (tg_tasks g). {gt_id u} \<times> set (gt_depends u))"
    by (auto simp: graph_rel_def)
  then have "finite (graph_rel g)" by simp
  then have "wf ((graph_rel g)\<inverse>)"
    using assms(1) by (simp add: orderable_graph_def finite_acyclic_wf_converse)
  moreover have "gt_id t \<in> ?S" using assms by blast
  ultimately obtain m where m: "m \<in> ?S" "\<And>y. (y, m) \<in> (graph_rel g)\<inverse> \<Longrightarrow> y \<notin> ?S"
    using wfE_min [of "(graph_rel g)\<inverse>" "gt_id t" ?S] by blast
  then obtain u where u: "u \<in> set (tg_tasks g)" "gt_id u = m" "Q u" by blast
  have "\<not> Q w" if "w \<in> set (tg_tasks g)" "gt_id w \<in> set (gt_depends u)" for w
    using m(2) [of "gt_id w"] that u by (auto simp: graph_rel_def)
  then show ?thesis using u by blast
qed

definition settled_ok :: "task_projection \<Rightarrow> string \<Rightarrow> bool" where
  "settled_ok p i \<longleftrightarrow> (case tp_latest p i of None \<Rightarrow> False | Some s \<Rightarrow> s \<in> set DEP_SATISFIED_STATES)"

lemma select_progress:
  assumes ord: "orderable_graph g"
    and ok: "\<And>i. i \<in> set (graph_ids g) \<Longrightarrow> tp_started p i \<Longrightarrow> settled_ok p i"
    and none: "selectNextTask g p = None" and i: "i \<in> set (graph_ids g)"
  shows "tp_started p i"
proof (rule ccontr)
  assume "\<not> tp_started p i"
  then obtain t where "t \<in> set (tg_tasks g)" "\<not> tp_started p (gt_id t)"
    using i by (auto simp: graph_ids_def)
  from orderable_graph_minimal [OF ord this(1), of "\<lambda>t. \<not> tp_started p (gt_id t)", OF this(2)]
  obtain u where u: "u \<in> set (tg_tasks g)" "\<not> tp_started p (gt_id u)"
    and deps: "\<And>w. w \<in> set (tg_tasks g) \<Longrightarrow> gt_id w \<in> set (gt_depends u) \<Longrightarrow> tp_started p (gt_id w)"
    by auto
  have "settled_ok p d" if "d \<in> set (gt_depends u)" for d
  proof -
    have "d \<in> set (graph_ids g)" using ord u(1) that by (auto simp: orderable_graph_def)
    moreover from this obtain w where "w \<in> set (tg_tasks g)" "gt_id w = d" by (auto simp: graph_ids_def)
    ultimately show ?thesis using ok deps that by blast
  qed
  then have "eligible p u" using u(2) by (auto simp: eligible_def list_all_iff settled_ok_def)
  then show False using none u(1) by (auto simp: selectNextTask_None)
qed

text \<open>Nothing is selected only when every task that has not started waits, directly or through others, for one
  that has started and is not done.\<close>

definition waits_for_running :: "task_graph \<Rightarrow> task_projection \<Rightarrow> graph_task \<Rightarrow> bool" where
  "waits_for_running g p t \<longleftrightarrow> (\<exists>i. (gt_id t, i) \<in> (graph_rel g)\<^sup>+ \<and> tp_started p i \<and> \<not> settled_ok p i)"

lemma waits_dep:
  assumes "t \<in> set (tg_tasks g)" "d \<in> set (gt_depends t)" "\<not> settled_ok p d"
    and "tp_started p d \<or> (\<exists>w \<in> set (tg_tasks g). gt_id w = d \<and> waits_for_running g p w)"
  shows "waits_for_running g p t"
proof -
  have edge: "(gt_id t, d) \<in> graph_rel g" using assms(1,2) by (auto simp: graph_rel_def)
  from assms(4) show ?thesis
  proof
    assume "tp_started p d"
    then show ?thesis using edge assms(3) by (auto simp: waits_for_running_def)
  next
    assume "\<exists>w \<in> set (tg_tasks g). gt_id w = d \<and> waits_for_running g p w"
    then obtain i where "(d, i) \<in> (graph_rel g)\<^sup>+" "tp_started p i" "\<not> settled_ok p i"
      by (auto simp: waits_for_running_def)
    then show ?thesis using edge by (auto simp: waits_for_running_def intro: trancl_into_trancl2)
  qed
qed

lemma unselected_waits:
  assumes ord: "orderable_graph g" and none: "\<And>t. t \<in> set (tg_tasks g) \<Longrightarrow> \<not> eligible p t"
    and t: "t \<in> set (tg_tasks g)" "\<not> tp_started p (gt_id t)"
  shows "waits_for_running g p t"
proof (rule ccontr)
  assume "\<not> waits_for_running g p t"
  then obtain u where u: "u \<in> set (tg_tasks g)" "\<not> tp_started p (gt_id u)" "\<not> waits_for_running g p u"
    and deps: "\<And>w. w \<in> set (tg_tasks g) \<Longrightarrow> gt_id w \<in> set (gt_depends u) \<Longrightarrow> tp_started p (gt_id w) \<or> waits_for_running g p w"
    using orderable_graph_minimal [OF ord t(1), of "\<lambda>u. \<not> tp_started p (gt_id u) \<and> \<not> waits_for_running g p u"] t(2) by blast
  obtain d where d: "d \<in> set (gt_depends u)" "\<not> settled_ok p d"
    using none [OF u(1)] u(2) by (auto simp: eligible_def list_all_iff settled_ok_def)
  then have "d \<in> set (graph_ids g)" using ord u(1) by (auto simp: orderable_graph_def)
  then obtain w where "w \<in> set (tg_tasks g)" "gt_id w = d" by (auto simp: graph_ids_def)
  then show False using waits_dep [OF u(1) d] deps d(1) u(3) by blast
qed

text \<open>C19: selection over a frozen graph never starts a task twice or before its dependencies: the
  task it picks has not started, each of its dependencies has reached a satisfied state, and no task
  earlier in the file is eligible. And it never stops early: whatever state the other tasks are in, it picks a
  task as soon as one that has not started has all its dependencies satisfied; when it picks none, every task
  that has not started waits, directly or through its dependencies, for one that has started and has not reached a
  satisfied state. So while every started task has reached a
  satisfied state, it returns nothing only when all tasks have started.\<close>

theorem selection_is_safe_and_live:
  assumes "freezeTaskGraph sha shw raw v c = Inr (g, gate)"
  shows "(\<forall>t. selectNextTask g p = Some t \<longrightarrow> t \<in> set (tg_tasks g) \<and> \<not> tp_started p (gt_id t)
        \<and> (\<forall>d \<in> set (gt_depends t). settled_ok p d)
        \<and> (\<exists>i < length (tg_tasks g). tg_tasks g ! i = t \<and> (\<forall>j < i. \<not> eligible p (tg_tasks g ! j))))
    \<and> (selectNextTask g p = None \<longleftrightarrow>
        (\<forall>t \<in> set (tg_tasks g). tp_started p (gt_id t) \<or> (\<exists>d \<in> set (gt_depends t). \<not> settled_ok p d)))
    \<and> (selectNextTask g p = None \<longrightarrow> (\<forall>t \<in> set (tg_tasks g). tp_started p (gt_id t) \<or> waits_for_running g p t))
    \<and> ((\<forall>i \<in> set (graph_ids g). tp_started p i \<longrightarrow> settled_ok p i) \<longrightarrow>
        (selectNextTask g p = None \<longleftrightarrow> (\<forall>i \<in> set (graph_ids g). tp_started p i)))"
proof (intro conjI allI impI)
  fix t assume "selectNextTask g p = Some t"
  then show "t \<in> set (tg_tasks g)" "\<not> tp_started p (gt_id t)" "\<forall>d \<in> set (gt_depends t). settled_ok p d"
    "\<exists>i < length (tg_tasks g). tg_tasks g ! i = t \<and> (\<forall>j < i. \<not> eligible p (tg_tasks g ! j))"
    by (auto simp: selectNextTask_Some eligible_def list_all_iff settled_ok_def)
next
  show "selectNextTask g p = None \<longleftrightarrow>
      (\<forall>t \<in> set (tg_tasks g). tp_started p (gt_id t) \<or> (\<exists>d \<in> set (gt_depends t). \<not> settled_ok p d))"
    by (auto simp: selectNextTask_None eligible_def list_all_iff settled_ok_def)
next
  assume "selectNextTask g p = None"
  then show "\<forall>t \<in> set (tg_tasks g). tp_started p (gt_id t) \<or> waits_for_running g p t"
    using unselected_waits [OF freezeTaskGraph_orderable [OF assms]] by (auto simp: selectNextTask_None)
next
  assume ok: "\<forall>i \<in> set (graph_ids g). tp_started p i \<longrightarrow> settled_ok p i"
  have ord: "orderable_graph g" using assms by (rule freezeTaskGraph_orderable)
  show "selectNextTask g p = None \<longleftrightarrow> (\<forall>i \<in> set (graph_ids g). tp_started p i)"
  proof
    assume "selectNextTask g p = None"
    then show "\<forall>i \<in> set (graph_ids g). tp_started p i" using select_progress [OF ord] ok by blast
  qed (auto simp: selectNextTask_None eligible_def graph_ids_def)
qed

definition graph_example :: js_val where
  "graph_example = VObj [
     (''goal_id'', VStr ''G-1''),
     (''checks'', VObj [(''max_diff_budget_per_task'', vint 200)]),
     (''tasks'', VArr [
        VObj [(''id'', VStr ''b''), (''title'', VStr ''B''), (''satisfies'', VArr [VStr ''AC-1'']),
              (''depends_on'', VArr [VStr ''a''])],
        VObj [(''id'', VStr ''a''), (''title'', VStr ''A''), (''satisfies'', VArr []), (''enabling'', VBool True)]])]"

definition graph_contract :: task_contract where
  "graph_contract =
     \<lparr>tc_hash = [], tc_goal_id = VStr ''G-1'', tc_goal_title = [], tc_goal_objective = [],
      tc_acs = [\<lparr>ac_id = VStr ''AC-1'', ac_description = VStr ''d'', ac_verification = None, ac_golden = None\<rparr>],
      tc_budget = \<lparr>cb_max_iterations = 1, cb_max_cost = 1, cb_max_wallclock = JFin 1, cb_max_hypotheses = 1,
                   cb_max_total_tasks = 4, cb_max_parallel = 1\<rparr>,
      tc_risk = L2, tc_approval_policy = [], tc_deploy = None, tc_provenance = None, tc_raw = VObj []\<rparr>"

lemmas graph_eval = graph_example_def graph_contract_def freezeTaskGraph_def declaredGraph_def
  declared_entry_def graph_reasons_def fields_get_def nullish_def reason_unless_def uniq_def
  branchUnsafeReason_def is_alnum_def str_prefix_def str_suffix_def risk_of_val_def freeze_task_def
  unorderableTaskIds_def dependents_of_def deps_get_def map_filter_simps

lemma graph_example_freezes:
  "\<exists>g gate. freezeTaskGraph (\<lambda>b. b) (\<lambda>_. []) ''bytes'' graph_example graph_contract = Inr (g, gate)
     \<and> graph_ids g = [''b'', ''a''] \<and> gt_depends (hd (tg_tasks g)) = [''a'']"
  by (simp add: graph_eval graph_ids_def Let_def all_bool_eq ex_bool_eq)

theorem selection_is_safe_and_live_witness:
  "\<exists>g gate. freezeTaskGraph (\<lambda>b. b) (\<lambda>_. []) ''bytes'' graph_example graph_contract = Inr (g, gate)
     \<and> selectNextTask g \<lparr>tp_latest = \<lambda>_. None, tp_started = \<lambda>_. False\<rparr> \<noteq> None"
proof -
  obtain g gate where g: "freezeTaskGraph (\<lambda>b. b) (\<lambda>_. []) ''bytes'' graph_example graph_contract = Inr (g, gate)"
    "graph_ids g = [''b'', ''a'']"
    using graph_example_freezes by blast
  from selection_is_safe_and_live [OF g(1), of "\<lparr>tp_latest = \<lambda>_. None, tp_started = \<lambda>_. False\<rparr>"]
  show ?thesis using g by auto
qed

end
