(* ===== verification/Effects.thy ===== *)
theory Effects
  imports EventLog Budget
begin

text \<open>
  Effectful code. A computation reads and writes the state of one task loop: the outside world
  (agents, executor, gates, clock: of any type), the event log it appends to, and its budget; it
  returns a value or throws. \<open>sys_calls\<close> is a history variable: the side-effecting calls the loop
  has made, and the answers of its ownership checks, gates, commands, git commands and of the report
  signer, in order. \<open>eff_ok P m Q E\<close> says that from a state satisfying \<open>P\<close> the computation
  ends in \<open>Q\<close> when it returns and in \<open>E\<close> when it throws.
\<close>

record signed_report =
  sg_report :: gate_report
  sg_run :: string
  sg_task :: string
  sg_auth :: js_val

text \<open>\<open>CProbe\<close> is a command the hypothesis engine has the executor run. \<open>CVerify\<close> is a report presented to the
  signer with what verified, \<open>CSign\<close> a report given to it with what it signed; \<open>None\<close> when it threw.\<close>

datatype ext_call =
    CPropose role
  | CExecute
  | CProbe string
  | CVerify signed_report "signed_report option"
  | CSign gate_report "signed_report option"
  | CGate gate_tier
  | COwns bool
  | CReport gate_report
  | CGit string "string list" bool string
  | CLock string bool
  | CUnlock string
  | CFence string
  | CCommand string string
  | CExit string bool

record 'w sys =
  sys_world :: 'w
  sys_calls :: "ext_call list"
  sys_log :: "new_event list"
  sys_budget :: budget

type_synonym ('w, 'a) eff = "'w sys \<Rightarrow> (string + 'a) \<times> 'w sys"

definition ret :: "'a \<Rightarrow> ('w, 'a) eff" where
  "ret a s = (Inr a, s)"

definition bind :: "('w, 'a) eff \<Rightarrow> ('a \<Rightarrow> ('w, 'b) eff) \<Rightarrow> ('w, 'b) eff" where
  "bind m f s = (case m s of (Inl e, s') \<Rightarrow> (Inl e, s') | (Inr a, s') \<Rightarrow> f a s')"

text \<open>A call into the outside world, one that may throw and one that does not.\<close>

definition call :: "('w \<Rightarrow> (string + 'a) \<times> 'w) \<Rightarrow> ('w, 'a) eff" where
  "call f s = (case f (sys_world s) of (r, w) \<Rightarrow> (r, s\<lparr>sys_world := w\<rparr>))"

definition ask :: "('w \<Rightarrow> 'a \<times> 'w) \<Rightarrow> ('w, 'a) eff" where
  "ask f s = (case f (sys_world s) of (r, w) \<Rightarrow> (Inr r, s\<lparr>sys_world := w\<rparr>))"

definition record_call :: "ext_call \<Rightarrow> ('w, unit) eff" where
  "record_call c s = (Inr (), s\<lparr>sys_calls := sys_calls s @ [c]\<rparr>)"

definition log_event :: "new_event \<Rightarrow> ('w, unit) eff" where
  "log_event e s = (Inr (), s\<lparr>sys_log := sys_log s @ [e]\<rparr>)"

definition get_budget :: "('w, budget) eff" where
  "get_budget s = (Inr (sys_budget s), s)"

definition put_budget :: "budget \<Rightarrow> ('w, unit) eff" where
  "put_budget b s = (Inr (), s\<lparr>sys_budget := b\<rparr>)"

text \<open>An error kept as a value, for code that catches it at once.\<close>

definition vbind :: "('w, 'e + 'a) eff \<Rightarrow> ('a \<Rightarrow> ('w, 'e + 'b) eff) \<Rightarrow> ('w, 'e + 'b) eff" where
  "vbind m f = bind m (\<lambda>r. case r of Inl e \<Rightarrow> ret (Inl e) | Inr a \<Rightarrow> f a)"

definition vthrow :: "'e \<Rightarrow> ('w, 'e + 'a) eff" where
  "vthrow e = ret (Inl e)"

definition vret :: "'a \<Rightarrow> ('w, 'e + 'a) eff" where
  "vret a = ret (Inr a)"

text \<open>An error that nothing catches.\<close>

definition raise :: "string \<Rightarrow> ('w, 'a) eff" where
  "raise e s = (Inl e, s)"

text \<open>\<open>try ... catch\<close>: the thrown value becomes a result.\<close>

definition attempt :: "('w, 'a) eff \<Rightarrow> ('w, string + 'a) eff" where
  "attempt m s = (case m s of (r, s') \<Rightarrow> (Inr r, s'))"

definition eff_ok ::
    "('w sys \<Rightarrow> bool) \<Rightarrow> ('w, 'a) eff \<Rightarrow> ('a \<Rightarrow> 'w sys \<Rightarrow> bool) \<Rightarrow> ('w sys \<Rightarrow> bool) \<Rightarrow> bool" where
  "eff_ok P m Q E \<longleftrightarrow>
     (\<forall>s. P s \<longrightarrow> (case m s of (Inl _, s') \<Rightarrow> E s' | (Inr a, s') \<Rightarrow> Q a s'))"

lemma bind_ret [simp]: "bind (ret a) f = f a"
  by (simp add: fun_eq_iff bind_def ret_def)

text \<open>Evaluation order: a continuation is evaluated only once its argument is known.\<close>

lemma bind_weak_cong: "m = m' \<Longrightarrow> bind m f = bind m' f"
  by simp

text \<open>A fact in the precondition that does not depend on the state.\<close>

lemma eff_ok_fact: "(A \<Longrightarrow> eff_ok P m Q E) \<Longrightarrow> eff_ok (\<lambda>s. P s \<and> A) m Q E"
  by (auto simp: eff_ok_def)

lemma eff_ok_fact': "(A \<Longrightarrow> eff_ok P m Q E) \<Longrightarrow> eff_ok (\<lambda>s. A \<and> P s) m Q E"
  by (auto simp: eff_ok_def)

lemma eff_ok_ex:
  assumes "\<And>x. eff_ok (P x) m Q E"
  shows "eff_ok (\<lambda>s. \<exists>x. P x s) m Q E"
  unfolding eff_ok_def
  by (intro allI impI, elim exE) (rule assms [unfolded eff_ok_def, rule_format])

named_theorems eff_rules "rules for effectful computations"

lemma eff_ok_weaken:
  "eff_ok P' m Q' E' \<Longrightarrow> (\<And>s. P s \<Longrightarrow> P' s) \<Longrightarrow> (\<And>a s. Q' a s \<Longrightarrow> Q a s) \<Longrightarrow> (\<And>s. E' s \<Longrightarrow> E s)
   \<Longrightarrow> eff_ok P m Q E"
  unfolding eff_ok_def by (auto split: prod.splits sum.splits) blast+

lemma eff_ok_bind [eff_rules]:
  "eff_ok P m R E \<Longrightarrow> (\<And>a. eff_ok (R a) (f a) Q E) \<Longrightarrow> eff_ok P (bind m f) Q E"
  unfolding eff_ok_def bind_def by (fastforce split: prod.splits sum.splits)

lemma eff_ok_ret [eff_rules]: "(\<And>s. P s \<Longrightarrow> Q a s) \<Longrightarrow> eff_ok P (ret a) Q E"
  by (simp add: eff_ok_def ret_def)

lemma eff_ok_call [eff_rules]:
  "(\<And>s a w. P s \<Longrightarrow> g (sys_world s) = (Inr a, w) \<Longrightarrow> Q a (s\<lparr>sys_world := w\<rparr>))
   \<Longrightarrow> (\<And>s w. P s \<Longrightarrow> E (s\<lparr>sys_world := w\<rparr>)) \<Longrightarrow> eff_ok P (call g) Q E"
  by (auto simp: eff_ok_def call_def split: prod.splits sum.splits)

lemma eff_ok_ask [eff_rules]:
  "(\<And>s a w. P s \<Longrightarrow> Q a (s\<lparr>sys_world := w\<rparr>)) \<Longrightarrow> eff_ok P (ask g) Q E"
  by (auto simp: eff_ok_def ask_def split: prod.splits)

lemma eff_ok_record_call [eff_rules]:
  "(\<And>s. P s \<Longrightarrow> Q () (s\<lparr>sys_calls := sys_calls s @ [c]\<rparr>)) \<Longrightarrow> eff_ok P (record_call c) Q E"
  by (simp add: eff_ok_def record_call_def)

lemma eff_ok_log [eff_rules]:
  "(\<And>s. P s \<Longrightarrow> Q () (s\<lparr>sys_log := sys_log s @ [e]\<rparr>)) \<Longrightarrow> eff_ok P (log_event e) Q E"
  by (simp add: eff_ok_def log_event_def)

lemma eff_ok_get_budget [eff_rules]:
  "(\<And>s. P s \<Longrightarrow> Q (sys_budget s) s) \<Longrightarrow> eff_ok P get_budget Q E"
  by (simp add: eff_ok_def get_budget_def)

lemma eff_ok_put_budget [eff_rules]:
  "(\<And>s. P s \<Longrightarrow> Q () (s\<lparr>sys_budget := b\<rparr>)) \<Longrightarrow> eff_ok P (put_budget b) Q E"
  by (simp add: eff_ok_def put_budget_def)

lemma eff_ok_attempt [eff_rules]:
  "eff_ok P m (\<lambda>a. Q (Inr a)) (\<lambda>s. \<forall>e. Q (Inl e) s) \<Longrightarrow> eff_ok P (attempt m) Q E"
  unfolding eff_ok_def attempt_def by (clarsimp split: prod.splits sum.splits) (metis sum.exhaust)

lemma eff_ok_vbind [eff_rules]:
  "eff_ok P m (\<lambda>r s. case r of Inl e \<Rightarrow> Q (Inl e) s | Inr a \<Rightarrow> R a s) E
   \<Longrightarrow> (\<And>a. eff_ok (R a) (f a) Q E) \<Longrightarrow> eff_ok P (vbind m f) Q E"
  unfolding vbind_def
proof (erule eff_ok_bind)
  fix r
  assume f: "\<And>a. eff_ok (R a) (f a) Q E"
  show "eff_ok (\<lambda>s. case r of Inl e \<Rightarrow> Q (Inl e) s | Inr a \<Rightarrow> R a s)
      (case r of Inl e \<Rightarrow> ret (Inl e) | Inr a \<Rightarrow> f a) Q E"
    by (cases r) (simp_all add: f eff_ok_ret)
qed

lemma eff_ok_vret [eff_rules]: "(\<And>s. P s \<Longrightarrow> Q (Inr a) s) \<Longrightarrow> eff_ok P (vret a) Q E"
  unfolding vret_def by (rule eff_ok_ret)

lemma eff_ok_vthrow [eff_rules]: "(\<And>s. P s \<Longrightarrow> Q (Inl e) s) \<Longrightarrow> eff_ok P (vthrow e) Q E"
  unfolding vthrow_def by (rule eff_ok_ret)

lemma eff_ok_raise [eff_rules]: "(\<And>s. P s \<Longrightarrow> E s) \<Longrightarrow> eff_ok P (raise e) Q E"
  by (simp add: eff_ok_def raise_def)

lemma eff_ok_if [eff_rules]:
  "(c \<Longrightarrow> eff_ok P m Q E) \<Longrightarrow> (\<not> c \<Longrightarrow> eff_ok P n Q E) \<Longrightarrow> eff_ok P (if c then m else n) Q E"
  by simp

lemma eff_okD:
  "eff_ok P m Q E \<Longrightarrow> P s \<Longrightarrow> m s = (Inr a, s') \<Longrightarrow> Q a s'"
  by (fastforce simp: eff_ok_def)

lemma eff_okE:
  "eff_ok P m Q E \<Longrightarrow> P s \<Longrightarrow> m s = (Inl e, s') \<Longrightarrow> E s'"
  by (fastforce simp: eff_ok_def)

text \<open>A computation that keeps a predicate, whether it returns or throws.\<close>

definition keeps :: "('w sys \<Rightarrow> bool) \<Rightarrow> ('w, 'a) eff \<Rightarrow> bool" where
  "keeps P m \<longleftrightarrow> eff_ok P m (\<lambda>_. P) P"

lemma keepsD: "keeps P m \<Longrightarrow> (\<And>s. P s \<Longrightarrow> E s) \<Longrightarrow> eff_ok P m (\<lambda>_. P) E"
  unfolding keeps_def by (erule eff_ok_weaken)

lemma keeps_bind: "keeps P m \<Longrightarrow> (\<And>a. keeps P (f a)) \<Longrightarrow> keeps P (bind m f)"
  unfolding keeps_def by (rule eff_ok_bind)

lemma keeps_ret: "keeps P (ret a)"
  unfolding keeps_def by (rule eff_ok_ret)

definition world_free :: "('w sys \<Rightarrow> bool) \<Rightarrow> bool" where
  "world_free P \<longleftrightarrow> (\<forall>s w. P s \<longrightarrow> P (s\<lparr>sys_world := w\<rparr>))"

lemma keeps_call: "world_free P \<Longrightarrow> keeps P (call g)"
  unfolding keeps_def world_free_def by (rule eff_ok_call) auto

lemma keeps_ask: "world_free P \<Longrightarrow> keeps P (ask g)"
  unfolding keeps_def world_free_def by (rule eff_ok_ask) auto

lemma keeps_get_budget: "keeps P get_budget"
  unfolding keeps_def by (rule eff_ok_get_budget)

lemma keeps_log: "(\<And>s. P s \<Longrightarrow> P (s\<lparr>sys_log := sys_log s @ [e]\<rparr>)) \<Longrightarrow> keeps P (log_event e)"
  unfolding keeps_def by (rule eff_ok_log)

lemmas keeps_rules = keeps_bind keeps_ret keeps_call keeps_ask keeps_get_budget

lemmas eff_defs = ret_def bind_def call_def ask_def record_call_def log_event_def get_budget_def put_budget_def attempt_def vbind_def vret_def vthrow_def raise_def

end
