(* ===== verification/Hypothesis.thy ===== *)
theory Hypothesis
  imports Effects
begin

text \<open>
  The hypothesis engine of \<open>core/src/repair/hypothesis.ts\<close>. Hypotheses are untrusted values; the
  executor, the evidence store, the id source, the clock and \<open>JSON.stringify\<close> are arguments.
\<close>

section \<open>Outcomes and dependencies\<close>

datatype exec_outcome =
    Applied (out_ref: "string option") (exit_code: "int option")
  | SkippedDuplicate
  | ExecRejected action_rejection

text \<open>A probe is always a \<open>RUN_COMMAND\<close> without network; its \<open>cwd\<close> is whatever the agent sent.\<close>

record probe_action =
  pa_id :: string
  pa_cmd :: string
  pa_cwd :: js_val
  pa_network :: network_grant
  pa_timeout :: int

record 'w engine =
  he_run :: string
  he_task :: string
  he_next_id :: "string \<Rightarrow> 'w \<Rightarrow> string \<times> 'w"
  he_execute :: "probe_action \<Rightarrow> role \<Rightarrow> 'w \<Rightarrow> (string + exec_outcome) \<times> 'w"
  he_put :: "string \<Rightarrow> 'w \<Rightarrow> (string + string) \<times> 'w"
  he_text :: "string \<Rightarrow> 'w \<Rightarrow> (string + string) \<times> 'w"
  he_now :: "'w \<Rightarrow> int \<times> 'w"
  he_json :: "js_val \<Rightarrow> string"
  he_max_hyp :: int
  he_max_probes :: int
  he_timeout :: int

datatype exhausted = AllRefuted | MaxHypotheses | BudgetStop | WallclockStop

record verdict_entry =
  vd_hyp :: js_val
  vd_verdict :: hyp_verdict
  vd_outputs :: "string list"
  vd_refs :: "string list"

datatype hyp_outcome =
    HypConfirmed js_val "verdict_entry list"
  | HypExhausted exhausted "verdict_entry list"

fun outcome_log :: "hyp_outcome \<Rightarrow> verdict_entry list" where
  "outcome_log (HypConfirmed _ vs) = vs"
| "outcome_log (HypExhausted _ vs) = vs"

definition int_str :: "int \<Rightarrow> string" where
  "int_str i = (if i < 0 then CHR ''-'' # nat_str (nat (- i)) else nat_str (nat i))"

section \<open>The engine\<close>

definition budgetStop :: "('w \<Rightarrow> int \<times> 'w) \<Rightarrow> ('w, exhausted option) eff" where
  "budgetStop clock =
     bind (ask clock) (\<lambda>now.
     bind get_budget (\<lambda>b.
     ret (case exceeded now b of
            None \<Rightarrow> None
          | Some l \<Rightarrow> Some (if l = Wallclock then WallclockStop else BudgetStop))))"

fun non_empty_str :: "js_val \<Rightarrow> bool" where
  "non_empty_str (VStr s) = (s \<noteq> [])"
| "non_empty_str _ = False"

fun probe_error :: "js_val list \<Rightarrow> string option" where
  "probe_error [] = None"
| "probe_error (p # ps) =
     (if \<not> is_object p then Some ''probe_not_object''
      else if \<not> non_empty_str (val_get p ''cmd'') then Some ''probe_missing_cmd''
      else if \<not> non_empty_str (val_get p ''expected'') then Some ''probe_missing_expected''
      else probe_error ps)"

definition validateHypothesis :: "js_val \<Rightarrow> int \<Rightarrow> string option" where
  "validateHypothesis h maxProbes =
     (if \<not> is_object h then Some ''hypothesis_not_object''
      else if \<not> non_empty_str (val_get h ''statement'') then Some ''missing_statement''
      else case val_get h ''probes'' of
        VArr ps \<Rightarrow>
          (if ps = [] then Some ''missing_probes''
           else if int (length ps) > maxProbes then Some ''probe_cap_exceeded''
           else case probe_error ps of
             Some r \<Rightarrow> Some r
           | None \<Rightarrow>
               (let ic = val_get h ''ifConfirmed'' in
                if \<not> is_object ic then Some ''missing_ifConfirmed''
                else if \<not> non_empty_str (val_get ic ''patchPlan'') then Some ''missing_patchPlan''
                else None))
      | _ \<Rightarrow> Some ''missing_probes'')"

fun str_of :: "js_val \<Rightarrow> string" where
  "str_of (VStr s) = s"
| "str_of _ = []"

fun arr_of :: "js_val \<Rightarrow> js_val list" where
  "arr_of (VArr vs) = vs"
| "arr_of _ = []"

record probe_run =
  pr_output :: string
  pr_exit :: "int option"
  pr_ref :: string
  pr_errored :: bool

definition runProbe :: "'w engine \<Rightarrow> js_val \<Rightarrow> ('w, probe_run) eff" where
  "runProbe d probe =
     bind (ask (he_next_id d ''probe'')) (\<lambda>aid.
     bind (record_call (CProbe (str_of (val_get probe ''cmd'')))) (\<lambda>_.
     bind (call (he_execute d
              \<lparr>pa_id = aid, pa_cmd = str_of (val_get probe ''cmd''), pa_cwd = val_get probe ''cwd'',
               pa_network = NetNone, pa_timeout = he_timeout d\<rparr> Diagnostician)) (\<lambda>outcome.
     case outcome of
       Applied r ex \<Rightarrow>
         bind (case r of
                 Some ref \<Rightarrow> ret ref
               | None \<Rightarrow> call (he_put d (''exit:'' @ (case ex of Some x \<Rightarrow> int_str x | None \<Rightarrow> ''null'')))) (\<lambda>ref.
         bind (call (he_text d ref)) (\<lambda>output.
         ret \<lparr>pr_output = output, pr_exit = ex, pr_ref = ref,
              pr_errored = (case ex of None \<Rightarrow> True | Some x \<Rightarrow> x < 0)\<rparr>))
     | SkippedDuplicate \<Rightarrow>
         bind (call (he_put d (he_json d (VObj [(''probe_error'', VStr ''skipped_duplicate'')])))) (\<lambda>ref.
         ret \<lparr>pr_output = [], pr_exit = None, pr_ref = ref, pr_errored = True\<rparr>)
     | ExecRejected rej \<Rightarrow>
         bind (call (he_put d (he_json d (VObj [(''probe_error'', VStr (reason_name (rej_reason rej)))])))) (\<lambda>ref.
         ret \<lparr>pr_output = [], pr_exit = None, pr_ref = ref, pr_errored = True\<rparr>))))"

definition engine_event :: "'w engine \<Rightarrow> event_type \<Rightarrow> payload \<Rightarrow> ('w, unit) eff" where
  "engine_event d ty pl = log_event \<lparr>ne_run = he_run d, ne_task = Some (he_task d), ne_type = ty, ne_payload = pl\<rparr>"

definition exit_val :: "int option \<Rightarrow> js_val" where
  "exit_val ex = (case ex of None \<Rightarrow> VNull | Some x \<Rightarrow> vint x)"

text \<open>The probes of one hypothesis, cheapest first: \<open>Inl\<close> when the budget ran out between two.\<close>

fun run_probes ::
    "'w engine \<Rightarrow> js_val list \<Rightarrow> string list \<Rightarrow> string list \<Rightarrow>
     ('w, exhausted + hyp_verdict \<times> string list \<times> string list \<times> string option) eff" where
  "run_probes d [] outs refs = ret (Inr (Refuted, outs, refs, None))"
| "run_probes d (p # ps) outs refs =
     bind (budgetStop (he_now d)) (\<lambda>between.
     case between of
       Some r \<Rightarrow> ret (Inl r)
     | None \<Rightarrow>
         bind (runProbe d p) (\<lambda>r.
         bind (engine_event d E_PROBE_RUN
                [(''cmd'', val_get p ''cmd''), (''exit'', exit_val (pr_exit r)),
                 (''evidenceRef'', VStr (pr_ref r)), (''error'', VBool (pr_errored r))]) (\<lambda>_.
         let outs' = outs @ [pr_output r]; refs' = refs @ [pr_ref r] in
         if pr_errored r then ret (Inr (Undecided, outs', refs', None))
         else if str_includes (pr_output r) (str_of (val_get p ''expected''))
         then ret (Inr (Confirmed, outs', refs', Some (pr_ref r)))
         else run_probes d ps outs' refs')))"

definition ref_val :: "string option \<Rightarrow> js_val" where
  "ref_val r = (case r of None \<Rightarrow> VUndef | Some x \<Rightarrow> VStr x)"

fun eval_hyps :: "'w engine \<Rightarrow> js_val list \<Rightarrow> int \<Rightarrow> verdict_entry list \<Rightarrow> ('w, hyp_outcome) eff" where
  "eval_hyps d [] evaluated verdicts = ret (HypExhausted AllRefuted verdicts)"
| "eval_hyps d (h # hs) evaluated verdicts =
     (if evaluated \<ge> he_max_hyp d then ret (HypExhausted MaxHypotheses verdicts)
      else
        bind (budgetStop (he_now d)) (\<lambda>stop.
        case stop of
          Some r \<Rightarrow> ret (HypExhausted r verdicts)
        | None \<Rightarrow>
            (case validateHypothesis h (he_max_probes d) of
               Some reason \<Rightarrow>
                 bind (engine_event d E_ACTION_REJECTED
                        [(''reason'', VStr reason), (''statement'', nullish (val_get h ''statement'') VNull)]) (\<lambda>_.
                 eval_hyps d hs (evaluated + 1)
                   (verdicts @ [\<lparr>vd_hyp = h, vd_verdict = Undecided, vd_outputs = [], vd_refs = []\<rparr>]))
             | None \<Rightarrow>
                 bind (run_probes d (arr_of (val_get h ''probes'')) [] []) (\<lambda>r.
                 case r of
                   Inl between \<Rightarrow> ret (HypExhausted between verdicts)
                 | Inr (verdict, outs, refs, confirmRef) \<Rightarrow>
                     (let entry = \<lparr>vd_hyp = h, vd_verdict = verdict, vd_outputs = outs, vd_refs = refs\<rparr> in
                      case verdict of
                        Confirmed \<Rightarrow>
                          bind (engine_event d E_HYPOTHESIS_CONFIRMED
                                 [(''statement'', val_get h ''statement''), (''evidenceRef'', ref_val confirmRef)]) (\<lambda>_.
                          ret (HypConfirmed h (verdicts @ [entry])))
                      | Refuted \<Rightarrow>
                          bind (call (he_put d (he_json d (VObj
                                 [(''statement'', val_get h ''statement''), (''probeRefs'', VArr (map VStr refs))])))) (\<lambda>ref.
                          bind (engine_event d E_HYPOTHESIS_REFUTED
                                 [(''statement'', val_get h ''statement''), (''evidenceRef'', VStr ref)]) (\<lambda>_.
                          eval_hyps d hs (evaluated + 1) (verdicts @ [entry])))
                      | Undecided \<Rightarrow> eval_hyps d hs (evaluated + 1) (verdicts @ [entry]))))))"

definition evaluateHypotheses :: "'w engine \<Rightarrow> js_val list \<Rightarrow> ('w, hyp_outcome) eff" where
  "evaluateHypotheses d hyps =
     bind (engine_event d E_HYPOTHESIS_PROPOSED [(''count'', vint (int (length hyps)))]) (\<lambda>_.
     eval_hyps d hyps 0 [])"

definition verdict_name :: "hyp_verdict \<Rightarrow> string" where
  "verdict_name v = (case v of Confirmed \<Rightarrow> ''confirmed'' | Refuted \<Rightarrow> ''refuted'' | Undecided \<Rightarrow> ''undecided'')"

definition summarizeHypothesisLog :: "verdict_entry list \<Rightarrow> js_val" where
  "summarizeHypothesisLog vs = VArr (map (\<lambda>v. VObj
     [(''statement'', val_get (vd_hyp v) ''statement''), (''verdict'', VStr (verdict_name (vd_verdict v))),
      (''probeRefs'', VArr (map VStr (vd_refs v)))]) vs)"

section \<open>Frame rules\<close>

lemma budgetStop_frame: "eff_ok (\<lambda>s. P (sys_log s)) (budgetStop c) (\<lambda>_ s. P (sys_log s)) E"
  unfolding budgetStop_def
  by (rule eff_ok_bind [where R = "\<lambda>_ s. P (sys_log s)"] eff_rules | simp)+

lemma runProbe_frame:
  "eff_ok (\<lambda>s. P (sys_log s)) (runProbe d p) (\<lambda>_ s. P (sys_log s)) (\<lambda>s. P (sys_log s))"
  unfolding runProbe_def
  by (rule eff_ok_bind [where R = "\<lambda>_ s. P (sys_log s)"] eff_rules
      | simp split: exec_outcome.split option.split | intro conjI allI impI)+

lemma engine_event_rule:
  "(\<And>s. P s \<Longrightarrow> Q () (s\<lparr>sys_log := sys_log s @
      [\<lparr>ne_run = he_run d, ne_task = Some (he_task d), ne_type = ty, ne_payload = pl\<rparr>]\<rparr>))
   \<Longrightarrow> eff_ok P (engine_event d ty pl) Q E"
  unfolding engine_event_def by (rule eff_ok_log)

text \<open>The engine writes only its own events, and calls only through its arguments: what it makes itself are
  commands for the executor.\<close>

definition probe_free :: "('w sys \<Rightarrow> bool) \<Rightarrow> bool" where
  "probe_free P \<longleftrightarrow> (\<forall>s c. P s \<longrightarrow> P (s\<lparr>sys_calls := sys_calls s @ [CProbe c]\<rparr>))"

lemma keeps_probe: "probe_free P \<Longrightarrow> keeps P (record_call (CProbe c))"
  unfolding keeps_def probe_free_def by (rule eff_ok_record_call) simp

definition engine_events :: "event_type set" where
  "engine_events = {E_HYPOTHESIS_PROPOSED, E_ACTION_REJECTED, E_PROBE_RUN, E_HYPOTHESIS_CONFIRMED, E_HYPOTHESIS_REFUTED}"

definition engine_free :: "('w sys \<Rightarrow> bool) \<Rightarrow> bool" where
  "engine_free P \<longleftrightarrow> world_free P \<and> probe_free P
     \<and> (\<forall>s e. P s \<longrightarrow> ne_type e \<in> engine_events \<longrightarrow> P (s\<lparr>sys_log := sys_log s @ [e]\<rparr>))"

lemma engine_event_keeps: "engine_free P \<Longrightarrow> ty \<in> engine_events \<Longrightarrow> keeps P (engine_event d ty pl)"
  unfolding engine_event_def engine_free_def by (rule keeps_log) simp

lemma engine_events_mem [simp]:
  "E_HYPOTHESIS_PROPOSED \<in> engine_events" "E_ACTION_REJECTED \<in> engine_events" "E_PROBE_RUN \<in> engine_events"
  "E_HYPOTHESIS_CONFIRMED \<in> engine_events" "E_HYPOTHESIS_REFUTED \<in> engine_events"
  by (simp_all add: engine_events_def)

lemma budgetStop_keeps: "world_free P \<Longrightarrow> keeps P (budgetStop c)"
  unfolding budgetStop_def by (intro keeps_rules)

lemma runProbe_keeps: "world_free P \<Longrightarrow> probe_free P \<Longrightarrow> keeps P (runProbe d p)"
  unfolding runProbe_def
  by (intro keeps_rules keeps_probe | simp split: exec_outcome.split option.split | intro conjI allI impI)+

lemma run_probes_keeps: "engine_free P \<Longrightarrow> keeps P (run_probes d ps outs refs)"
proof (induction ps arbitrary: outs refs)
  case (Cons p ps)
  then have "world_free P" "probe_free P" by (simp_all add: engine_free_def)
  then show ?case using Cons
    by (auto split: option.split simp: Let_def intro!: keeps_bind budgetStop_keeps keeps_ret runProbe_keeps
          engine_event_keeps)
qed (simp add: keeps_ret)

lemma eval_hyps_keeps: "engine_free P \<Longrightarrow> keeps P (eval_hyps d hs n vs)"
proof (induction hs arbitrary: n vs)
  case (Cons h hs)
  then have "world_free P" by (simp add: engine_free_def)
  then show ?case using Cons
    by (auto split: option.split sum.split hyp_verdict.split simp: Let_def intro!: keeps_bind budgetStop_keeps
          keeps_ret run_probes_keeps keeps_call engine_event_keeps)
qed (simp add: keeps_ret)

lemma evaluateHypotheses_keeps: "engine_free P \<Longrightarrow> keeps P (evaluateHypotheses d hs)"
  unfolding evaluateHypotheses_def by (intro keeps_bind engine_event_keeps eval_hyps_keeps) simp_all

section \<open>What a verdict means\<close>

definition probe_count :: "new_event list \<Rightarrow> nat" where
  "probe_count es = length (filter (\<lambda>e. ne_type e = E_PROBE_RUN) es)"

lemma probe_count_append [simp]: "probe_count (es @ fs) = probe_count es + probe_count fs"
  by (simp add: probe_count_def)

lemma probe_count_Cons [simp]:
  "probe_count (e # es) = (if ne_type e = E_PROBE_RUN then 1 else 0) + probe_count es"
  by (simp add: probe_count_def)

lemma probe_count_Nil [simp]: "probe_count [] = 0"
  by (simp add: probe_count_def)

definition expected_of :: "js_val \<Rightarrow> string" where
  "expected_of p = str_of (val_get p ''expected'')"

text \<open>
  The outputs are those of the first probes. Every output but the last leaves its probe unmatched;
  a refutation has the unmatched output of every probe, a confirmation ends with a match.
\<close>

fun probes_verdict :: "js_val list \<Rightarrow> string list \<Rightarrow> hyp_verdict \<Rightarrow> bool" where
  "probes_verdict ps [] v = (ps = [] \<and> v = Refuted)"
| "probes_verdict [] (x # xs) v = False"
| "probes_verdict (p # ps) (x # xs) v =
     (xs = [] \<and> (v = Undecided \<or> v = Confirmed \<and> str_includes x (expected_of p))
      \<or> \<not> str_includes x (expected_of p) \<and> probes_verdict ps xs v)"

definition probes_result ::
    "js_val list \<Rightarrow> string list \<Rightarrow> exhausted + hyp_verdict \<times> string list \<times> string list \<times> string option \<Rightarrow> bool" where
  "probes_result ps outs r \<longleftrightarrow> (case r of Inl _ \<Rightarrow> True
     | Inr (v, outs', _, _) \<Rightarrow> \<exists>new. outs' = outs @ new \<and> probes_verdict ps new v)"

lemma run_probes_spec:
  "eff_ok (\<lambda>s. probe_count (sys_log s) \<le> n) (run_probes d ps outs refs)
     (\<lambda>r s. probe_count (sys_log s) \<le> n + length ps \<and> probes_result ps outs r)
     (\<lambda>s. probe_count (sys_log s) \<le> n + length ps)"
proof (induction ps arbitrary: n outs refs)
  case Nil
  show ?case by (auto intro!: eff_rules simp: probes_result_def)
next
  case (Cons p ps)
  have step: "eff_ok (\<lambda>s. probe_count (sys_log s) \<le> n + 1)
      (if pr_errored r then ret (Inr (Undecided, outs @ [pr_output r], refs @ [pr_ref r], None))
       else if str_includes (pr_output r) (str_of (val_get p ''expected''))
       then ret (Inr (Confirmed, outs @ [pr_output r], refs @ [pr_ref r], Some (pr_ref r)))
       else run_probes d ps (outs @ [pr_output r]) (refs @ [pr_ref r]))
      (\<lambda>r s. probe_count (sys_log s) \<le> n + length (p # ps) \<and> probes_result (p # ps) outs r)
      (\<lambda>s. probe_count (sys_log s) \<le> n + length (p # ps))" for r
  proof (intro eff_ok_if eff_ok_ret)
    assume no: "\<not> str_includes (pr_output r) (str_of (val_get p ''expected''))"
    have "probes_result (p # ps) outs r'" if "probes_result ps (outs @ [pr_output r]) r'" for r'
      using that no by (fastforce simp: probes_result_def expected_of_def split: sum.splits)
    then show "eff_ok (\<lambda>s. probe_count (sys_log s) \<le> n + 1) (run_probes d ps (outs @ [pr_output r]) (refs @ [pr_ref r]))
      (\<lambda>r s. probe_count (sys_log s) \<le> n + length (p # ps) \<and> probes_result (p # ps) outs r)
      (\<lambda>s. probe_count (sys_log s) \<le> n + length (p # ps))"
      by (intro eff_ok_weaken [OF Cons.IH [of "n + 1"]]) auto
  qed (auto simp: probes_result_def expected_of_def)
  have "eff_ok (\<lambda>s. probe_count (sys_log s) \<le> n) (engine_event d E_PROBE_RUN pl)
      (\<lambda>_ s. probe_count (sys_log s) \<le> n + 1) E" for pl E
    by (rule engine_event_rule) simp
  from eff_ok_bind [OF eff_ok_weaken [OF runProbe_frame [of "\<lambda>l. probe_count l \<le> n"]] eff_ok_bind [OF this step]]
  show ?case
    by (simp only: run_probes.simps Let_def)
       (rule eff_ok_bind [OF budgetStop_frame [of "\<lambda>l. probe_count l \<le> n"]],
        auto split: option.split intro!: eff_ok_ret simp: probes_result_def)
qed

definition verdict_sound :: "'w engine \<Rightarrow> verdict_entry \<Rightarrow> bool" where
  "verdict_sound d e \<longleftrightarrow>
     (if validateHypothesis (vd_hyp e) (he_max_probes d) = None
      then probes_verdict (arr_of (val_get (vd_hyp e) ''probes'')) (vd_outputs e) (vd_verdict e)
      else vd_verdict e = Undecided \<and> vd_outputs e = [])"

definition outcome_sound :: "'w engine \<Rightarrow> hyp_outcome \<Rightarrow> bool" where
  "outcome_sound d out \<longleftrightarrow>
     (\<forall>e \<in> set (outcome_log out). verdict_sound d e)
   \<and> int (length (outcome_log out)) \<le> max 0 (he_max_hyp d)
   \<and> (case out of
        HypConfirmed h vs \<Rightarrow> \<exists>us e. vs = us @ [e] \<and> vd_hyp e = h \<and> vd_verdict e = Confirmed
          \<and> validateHypothesis h (he_max_probes d) = None \<and> (\<forall>u \<in> set us. vd_verdict u \<noteq> Confirmed)
      | HypExhausted _ vs \<Rightarrow> \<forall>u \<in> set vs. vd_verdict u \<noteq> Confirmed)"

lemma validateHypothesis_probes:
  "validateHypothesis h m = None \<Longrightarrow> int (length (arr_of (val_get h ''probes''))) \<le> m"
  by (auto simp: validateHypothesis_def split: if_splits js_val.splits option.splits)

definition so_far :: "'w engine \<Rightarrow> verdict_entry list \<Rightarrow> bool" where
  "so_far d vs \<longleftrightarrow> (\<forall>e \<in> set vs. verdict_sound d e \<and> vd_verdict e \<noteq> Confirmed)
     \<and> int (length vs) \<le> max 0 (he_max_hyp d)"

definition probe_room :: "'w engine \<Rightarrow> verdict_entry list \<Rightarrow> nat" where
  "probe_room d vs = nat (he_max_hyp d - int (length vs)) * nat (he_max_probes d)"

lemma so_far_exhausted: "so_far d vs \<Longrightarrow> outcome_sound d (HypExhausted r vs)"
  by (auto simp: so_far_def outcome_sound_def)

lemma so_far_snoc:
  "so_far d vs \<Longrightarrow> int (length vs) < he_max_hyp d \<Longrightarrow> verdict_sound d e \<Longrightarrow> vd_verdict e \<noteq> Confirmed
   \<Longrightarrow> so_far d (vs @ [e])"
  by (auto simp: so_far_def)

lemma so_far_confirmed:
  "so_far d vs \<Longrightarrow> int (length vs) < he_max_hyp d \<Longrightarrow> verdict_sound d e \<Longrightarrow> vd_verdict e = Confirmed
   \<Longrightarrow> validateHypothesis (vd_hyp e) (he_max_probes d) = None \<Longrightarrow> outcome_sound d (HypConfirmed (vd_hyp e) (vs @ [e]))"
  by (auto simp: so_far_def outcome_sound_def)

lemma probe_room_snoc:
  assumes "int (length vs) < he_max_hyp d"
  shows "probe_room d vs = nat (he_max_probes d) + probe_room d (vs @ [e])"
proof -
  have "nat (he_max_hyp d - int (length vs)) = Suc (nat (he_max_hyp d - int (length (vs @ [e]))))"
    using assms by simp
  then show ?thesis by (simp add: probe_room_def)
qed

lemma eval_hyps_spec:
  assumes "so_far d vs"
  shows "eff_ok (\<lambda>s. probe_count (sys_log s) \<le> n) (eval_hyps d hs (int (length vs)) vs)
     (\<lambda>out s. probe_count (sys_log s) \<le> n + probe_room d vs \<and> outcome_sound d out)
     (\<lambda>s. probe_count (sys_log s) \<le> n + probe_room d vs)"
  using assms
proof (induction hs arbitrary: n vs)
  case Nil
  then show ?case by (auto intro!: eff_ok_ret so_far_exhausted)
next
  case (Cons h hs)
  let ?Q = "\<lambda>out s. probe_count (sys_log s) \<le> n + probe_room d vs \<and> outcome_sound d out"
  let ?E = "\<lambda>s. probe_count (sys_log s) \<le> n + probe_room d vs"
  show ?case
  proof (cases "int (length vs) < he_max_hyp d")
    case False
    then show ?thesis using Cons.prems by (auto intro!: eff_ok_ret so_far_exhausted)
  next
    case room: True
    note step = probe_room_snoc [OF room]
    have rest: "eff_ok (\<lambda>s. probe_count (sys_log s) \<le> n + nat (he_max_probes d))
        (eval_hyps d hs (int (length vs) + 1) (vs @ [e])) ?Q ?E"
      if "verdict_sound d e" "vd_verdict e \<noteq> Confirmed" for e
      using Cons.IH [OF so_far_snoc [OF Cons.prems room that], of "n + nat (he_max_probes d)"] step [of e]
      by (simp add: add.assoc add.commute [of _ "1::int"])
    have ev: "eff_ok (\<lambda>s. probe_count (sys_log s) \<le> m) (engine_event d ty pl)
        (\<lambda>_ s. probe_count (sys_log s) \<le> m) E'" if "ty \<noteq> E_PROBE_RUN" for m ty pl E'
      using that by (intro engine_event_rule) simp
    have invalid: "eff_ok (\<lambda>s. probe_count (sys_log s) \<le> n)
        (bind (engine_event d E_ACTION_REJECTED pl) (\<lambda>_. eval_hyps d hs (int (length vs) + 1)
           (vs @ [\<lparr>vd_hyp = h, vd_verdict = Undecided, vd_outputs = [], vd_refs = []\<rparr>]))) ?Q ?E"
      if "validateHypothesis h (he_max_probes d) \<noteq> None" for pl
      using that
      by (intro eff_ok_bind [OF ev] eff_ok_weaken [OF rest]) (auto simp: verdict_sound_def)
    have judged: "eff_ok (\<lambda>s. probe_count (sys_log s) \<le> n + nat (he_max_probes d) \<and>
          probes_result (arr_of (val_get h ''probes'')) [] r)
        (case r of Inl between \<Rightarrow> ret (HypExhausted between vs)
         | Inr (v, outs, refs, cr) \<Rightarrow>
            (let entry = \<lparr>vd_hyp = h, vd_verdict = v, vd_outputs = outs, vd_refs = refs\<rparr> in
             case v of
               Confirmed \<Rightarrow> bind (engine_event d E_HYPOTHESIS_CONFIRMED (pl1 cr)) (\<lambda>_. ret (HypConfirmed h (vs @ [entry])))
             | Refuted \<Rightarrow> bind (call (he_put d (j refs))) (\<lambda>ref. bind (engine_event d E_HYPOTHESIS_REFUTED (pl2 ref)) (\<lambda>_.
                 eval_hyps d hs (int (length vs) + 1) (vs @ [entry])))
             | Undecided \<Rightarrow> eval_hyps d hs (int (length vs) + 1) (vs @ [entry]))) ?Q ?E"
      if valid: "validateHypothesis h (he_max_probes d) = None" for r pl1 pl2 j
    proof (cases r)
      case (Inl b)
      then show ?thesis
        using step [of undefined] by (auto intro!: eff_ok_ret so_far_exhausted Cons.prems)
    next
      case (Inr q)
      obtain v outs refs cr where q: "q = (v, outs, refs, cr)" by (cases q)
      let ?e = "\<lparr>vd_hyp = h, vd_verdict = v, vd_outputs = outs, vd_refs = refs\<rparr>"
      have sound: "verdict_sound d ?e" if "probes_result (arr_of (val_get h ''probes'')) [] r"
        using that valid by (simp add: verdict_sound_def probes_result_def Inr q)
      show ?thesis
      proof (cases "probes_result (arr_of (val_get h ''probes'')) [] r")
        case True
        note s = sound [OF True]
        have conf: "outcome_sound d (HypConfirmed h (vs @ [?e]))" if "v = Confirmed"
          using so_far_confirmed [OF Cons.prems room s] valid that by simp
        show ?thesis
        proof (cases v)
          case Confirmed
          have "eff_ok (\<lambda>s. probe_count (sys_log s) \<le> n + nat (he_max_probes d))
              (bind (engine_event d E_HYPOTHESIS_CONFIRMED (pl1 cr)) (\<lambda>_. ret (HypConfirmed h (vs @ [?e])))) ?Q ?E"
            using conf [OF Confirmed] step [of ?e] by (intro eff_ok_bind [OF ev] eff_ok_ret) auto
          then show ?thesis unfolding Inr q
            by (simp add: Let_def Confirmed) (elim eff_ok_weaken, auto)
        next
          case Refuted
          have "eff_ok (\<lambda>s. probe_count (sys_log s) \<le> n + nat (he_max_probes d))
              (bind (call (he_put d (j refs))) (\<lambda>ref. bind (engine_event d E_HYPOTHESIS_REFUTED (pl2 ref)) (\<lambda>_.
                 eval_hyps d hs (int (length vs) + 1) (vs @ [?e])))) ?Q ?E"
            using step [of ?e] Refuted
            by (intro eff_ok_bind [OF eff_ok_call [where Q = "\<lambda>_ s. probe_count (sys_log s) \<le> n + nat (he_max_probes d)"]]
                  eff_ok_bind [OF ev] rest [OF s]) auto
          then show ?thesis unfolding Inr q
            by (simp add: Let_def Refuted) (elim eff_ok_weaken, auto)
        next
          case Undecided
          then show ?thesis unfolding Inr q using rest [OF s]
            by (auto simp: Let_def elim!: eff_ok_weaken)
        qed
      qed (simp add: eff_ok_def)
    qed
    have valid: "eff_ok (\<lambda>s. probe_count (sys_log s) \<le> n)
        (run_probes d (arr_of (val_get h ''probes'')) [] [])
        (\<lambda>r s. probe_count (sys_log s) \<le> n + nat (he_max_probes d) \<and>
          probes_result (arr_of (val_get h ''probes'')) [] r) ?E"
      if "validateHypothesis h (he_max_probes d) = None"
      using validateHypothesis_probes [OF that] step [of undefined]
      by (intro eff_ok_weaken [OF run_probes_spec [of n]]) auto
    show ?thesis
      using room
      by (simp, intro eff_ok_bind [OF budgetStop_frame [of "\<lambda>l. probe_count l \<le> n"]])
         (auto split: option.split intro!: eff_ok_ret so_far_exhausted Cons.prems invalid
            eff_ok_bind [OF valid] judged)
  qed
qed

lemma evaluateHypotheses_spec:
  "eff_ok (\<lambda>s. probe_count (sys_log s) \<le> n) (evaluateHypotheses d hyps)
     (\<lambda>out s. probe_count (sys_log s) \<le> n + nat (he_max_hyp d) * nat (he_max_probes d) \<and> outcome_sound d out)
     (\<lambda>s. probe_count (sys_log s) \<le> n + nat (he_max_hyp d) * nat (he_max_probes d))"
proof -
  have "so_far d []" by (simp add: so_far_def)
  from eval_hyps_spec [OF this, of n hyps]
  show ?thesis unfolding evaluateHypotheses_def
    by (intro eff_ok_bind [OF engine_event_rule [where Q = "\<lambda>_ s. probe_count (sys_log s) \<le> n"]])
       (simp_all add: probe_room_def)
qed

text \<open>Whatever the agent, the executor and the clock do, the hypothesis engine judges soundly.
  An entry of its verdict log is refuted only when every probe of a valid hypothesis ran and none
  printed the expected text, confirmed only when its last probe did and no earlier one had, and an
  unusable proposal is undecided without a probe. The engine reports a confirmation only for the
  hypothesis whose verdict confirms it, stops there, and never judges more than the allowed number.\<close>

theorem hypothesis_verdicts_sound:
  assumes "evaluateHypotheses d hyps s = (Inr out, s')"
  shows "outcome_sound d out"
  using eff_okD [OF evaluateHypotheses_spec [of "probe_count (sys_log s)"] _ assms] by simp

text \<open>Untrusted hypotheses cannot demand unbounded execution: however many are proposed, and even
  when a call throws, at most \<open>maxHypotheses * maxProbesPerHypothesis\<close> probes are run.\<close>

theorem probes_are_bounded:
  "probe_count (sys_log (snd (evaluateHypotheses d hyps s)))
     \<le> probe_count (sys_log s) + nat (he_max_hyp d) * nat (he_max_probes d)"
proof (cases "evaluateHypotheses d hyps s")
  case (Pair r s')
  then show ?thesis
    using eff_okD [OF evaluateHypotheses_spec [of "probe_count (sys_log s)"], of s d hyps]
      eff_okE [OF evaluateHypotheses_spec [of "probe_count (sys_log s)"], of s d hyps]
    by (cases r) fastforce+
qed

section \<open>A concrete run\<close>

text \<open>A world that prints \<open>boom\<close> for every command, and counts the commands.\<close>

definition engine_example :: "nat engine" where
  "engine_example =
     \<lparr>he_run = ''r'', he_task = ''t'', he_next_id = (\<lambda>p w. (p, w)),
      he_execute = (\<lambda>_ _ w. (Inr (Applied (Some ''blob'') (Some 0)), Suc w)),
      he_put = (\<lambda>_ w. (Inr ''blob'', w)), he_text = (\<lambda>_ w. (Inr ''it went boom'', w)),
      he_now = (\<lambda>w. (int w, w)), he_json = (\<lambda>_. []), he_max_hyp = 2, he_max_probes = 2, he_timeout = 1000\<rparr>"

definition sys_example :: "nat sys" where
  "sys_example = \<lparr>sys_world = 0, sys_calls = [], sys_log = [],
     sys_budget = createBudget \<lparr>bl_max_iterations = 10, bl_max_cost = JFin 100, bl_max_wallclock = 1000\<rparr> 0\<rparr>"

definition hyp_example :: "string \<Rightarrow> js_val" where
  "hyp_example expects = VObj
     [(''statement'', VStr ''s''), (''probes'', VArr [VObj [(''cmd'', VStr ''c''), (''expected'', VStr expects)]]),
      (''ifConfirmed'', VObj [(''patchPlan'', VStr ''p'')])]"

lemmas engine_eval = engine_example_def sys_example_def hyp_example_def evaluateHypotheses_def
  engine_event_def budgetStop_def runProbe_def validateHypothesis_def eff_defs createBudget_def emit_def
  snapshot_def exceeded_def fields_get_def str_prefix_def

theorem hypothesis_verdicts_sound_witness:
  "\<exists>vs s'. evaluateHypotheses engine_example [VNull, hyp_example ''boom''] sys_example
      = (Inr (HypConfirmed (hyp_example ''boom'') vs), s')
    \<and> map vd_verdict vs = [Undecided, Confirmed] \<and> outcome_sound engine_example (HypConfirmed (hyp_example ''boom'') vs)"
proof -
  have "\<exists>vs s'. evaluateHypotheses engine_example [VNull, hyp_example ''boom''] sys_example
      = (Inr (HypConfirmed (hyp_example ''boom'') vs), s') \<and> map vd_verdict vs = [Undecided, Confirmed]"
    by (simp add: engine_eval)
  then obtain vs s' where run: "evaluateHypotheses engine_example [VNull, hyp_example ''boom''] sys_example
      = (Inr (HypConfirmed (hyp_example ''boom'') vs), s')" "map vd_verdict vs = [Undecided, Confirmed]"
    by (elim exE conjE) (rule that)
  from run hypothesis_verdicts_sound [OF run(1)] show ?thesis by (intro exI conjI)
qed

end
