(* ===== verification/TaskLoop.thy ===== *)
theory TaskLoop
  imports Hypothesis TaskMachine
begin

text \<open>
  The task loop of \<open>core/src/orchestrator/loop.ts\<close>: it asks the proposal source, executes the
  proposed actions, runs the gates itself and moves the task through the state machine. The ports
  (\<open>ports.ts\<close>), the executor, the gate runner and the lease session are arguments.
\<close>

section \<open>Ports\<close>

datatype proposal_claim = Working | ReadyForVerification | ClaimBlocked

record proposal =
  pp_claim :: proposal_claim
  pp_actions :: "action list"
  pp_hypotheses :: "js_val list"
  pp_cost :: js_val
  pp_error :: "js_val option"
  pp_rejections :: "action_rejection list"

text \<open>\<open>pp_error\<close> is the detail of an \<open>invalid_response\<close> error, if there is one.\<close>

datatype feedback =
    FbNone
  | FbRejections "action_rejection list"
  | FbReport gate_report "action_rejection list"
  | FbPatchPlan js_val js_val "action_rejection list"
  | FbGuidance string

record proposal_input =
  pi_task :: string
  pi_state :: task_state
  pi_role :: role
  pi_feedback :: feedback

datatype control_signal = SigNone | SigPause | SigKill
datatype resume_signal = DoResume | DoKill

text \<open>What \<open>gates.verify(await gates.run(tier))\<close> throws: a lost lease, or any error with its
  optional \<open>code\<close> and \<open>reason\<close>.\<close>

datatype gate_error =
    GateFenced string
  | GateThrew "string option" "string option" string

record 'w loop_env =
  le_run :: string
  le_task :: string
  le_role :: role
  le_propose :: "proposal_input \<Rightarrow> 'w \<Rightarrow> (string + proposal) \<times> 'w"
  le_execute :: "action \<Rightarrow> role \<Rightarrow> 'w \<Rightarrow> (string + exec_outcome) \<times> 'w"
  le_gate :: "gate_tier \<Rightarrow> 'w \<Rightarrow> (gate_error + gate_report) \<times> 'w"
  le_now :: "'w \<Rightarrow> int \<times> 'w"
  le_owns :: "'w \<Rightarrow> bool \<times> 'w"
  le_token :: "'w \<Rightarrow> int \<times> 'w"
  le_start_heartbeat :: "'w \<Rightarrow> unit \<times> 'w"
  le_stop_heartbeat :: "'w \<Rightarrow> unit \<times> 'w"
  le_reacquire :: "'w \<Rightarrow> bool \<times> 'w"
  le_release :: "'w \<Rightarrow> unit \<times> 'w"
  le_keep_lease :: bool
  le_control :: "(('w \<Rightarrow> control_signal \<times> 'w) \<times> ('w \<Rightarrow> resume_signal \<times> 'w)) option"
  le_guidance :: "'w \<Rightarrow> string list \<times> 'w"
  le_engine :: "'w engine option"

record loop_result =
  lr_final :: task_state
  lr_iterations :: nat
  lr_awaiting_human :: bool
  lr_report :: "gate_report option"

text \<open>A return from inside the loop carries a result; going on carries a value.\<close>

type_synonym ('w, 'a) loop_eff = "('w, loop_result + 'a) eff"

definition finish :: "task_state \<Rightarrow> nat \<Rightarrow> ('w, 'a) loop_eff" where
  "finish st n = ret (Inl \<lparr>lr_final = st, lr_iterations = n, lr_awaiting_human = False, lr_report = None\<rparr>)"

definition go_on :: "'a \<Rightarrow> ('w, 'a) loop_eff" where
  "go_on a = ret (Inr a)"

definition andThen :: "('w, 'a) loop_eff \<Rightarrow> ('a \<Rightarrow> ('w, 'b) loop_eff) \<Rightarrow> ('w, 'b) loop_eff" where
  "andThen m f = bind m (\<lambda>r. case r of Inl res \<Rightarrow> ret (Inl res) | Inr a \<Rightarrow> f a)"

section \<open>Moves and escalation\<close>

definition emit_event :: "'w loop_env \<Rightarrow> event_type \<Rightarrow> payload \<Rightarrow> ('w, unit) eff" where
  "emit_event env ty pl = log_event \<lparr>ne_run = le_run env, ne_task = Some (le_task env), ne_type = ty, ne_payload = pl\<rparr>"

definition transition_reason_name :: "transition_reason \<Rightarrow> string" where
  "transition_reason_name r = (case r of
     IllegalTransition \<Rightarrow> ''illegal_transition''
   | NotEnabledPhase0 \<Rightarrow> ''not_enabled_phase0''
   | NotEnabledPhase1 \<Rightarrow> ''not_enabled_phase1'')"

definition move :: "'w loop_env \<Rightarrow> trigger \<Rightarrow> task_state \<Rightarrow> ('w, task_state) eff" where
  "move env tr st =
     (case transition st tr of
        TrErr r detail \<Rightarrow>
          bind (emit_event env E_ERROR
                 [(''reason'', VStr (transition_reason_name r)), (''detail'', VStr detail),
                  (''from'', VStr (state_name st)), (''trigger'', VStr (trigger_name tr))]) (\<lambda>_.
          ret st)
      | TrOk n \<Rightarrow>
          bind (emit_event env E_TASK_STATE
                 [(''state'', VStr (state_name n)), (''trigger'', VStr (trigger_name tr))]) (\<lambda>_.
          ret n))"

definition escalate :: "'w loop_env \<Rightarrow> string \<Rightarrow> payload \<Rightarrow> task_state \<Rightarrow> ('w, task_state) eff" where
  "escalate env why extra st =
     bind (move env T_escalate st) (\<lambda>st'.
     bind (emit_event env E_ESCALATED ((''why'', VStr why) # extra)) (\<lambda>_.
     ret st'))"

text \<open>\<open>if (!requireOwnership(boundary)) return \<dots>\<close>\<close>

definition requireOwnership :: "'w loop_env \<Rightarrow> string \<Rightarrow> task_state \<Rightarrow> nat \<Rightarrow> ('w, unit) loop_eff" where
  "requireOwnership env boundary st n =
     bind (ask (le_owns env)) (\<lambda>ok.
     bind (record_call (COwns ok)) (\<lambda>_.
     if ok then go_on ()
     else
       bind (move env T_escalate st) (\<lambda>st'.
       bind (ask (le_token env)) (\<lambda>tok.
       bind (emit_event env E_ESCALATED
              [(''why'', VStr ''lease_lost''), (''boundary'', VStr boundary), (''fencingToken'', vint tok)]) (\<lambda>_.
       finish st' n)))))"

definition limit_name :: "budget_limit \<Rightarrow> string" where
  "limit_name l = (case l of Iterations \<Rightarrow> ''iterations'' | CostUnits \<Rightarrow> ''costUnits'' | Wallclock \<Rightarrow> ''wallclock'')"

definition emitBudgetExceeded :: "'w loop_env \<Rightarrow> budget_limit \<Rightarrow> nat \<Rightarrow> ('w, unit) eff" where
  "emitBudgetExceeded env l n =
     emit_event env E_BUDGET_EXCEEDED [(''limit'', VStr (limit_name l)), (''iterations'', vint (int n))]"

text \<open>\<open>if (!chargeUsage(cost, boundary)) return \<dots>\<close>\<close>

definition chargeUsage :: "'w loop_env \<Rightarrow> js_val \<Rightarrow> string \<Rightarrow> task_state \<Rightarrow> nat \<Rightarrow> ('w, unit) loop_eff" where
  "chargeUsage env cost boundary st n =
     (case validateCostUnits cost of
        Inl r \<Rightarrow>
          bind (emit_event env E_ERROR
                 [(''reason'', VStr ''invalid_response''), (''boundary'', VStr boundary),
                  (''detail'', VStr (cost_detail r)), (''costUnits'', cost)]) (\<lambda>_.
          bind (escalate env ''invalid_response''
                 [(''boundary'', VStr boundary), (''detail'', VStr (cost_detail r))] st) (\<lambda>st'.
          finish st' n))
      | Inr v \<Rightarrow>
          bind (ask (le_now env)) (\<lambda>now.
          bind get_budget (\<lambda>b.
          case noteIteration now (VNum v) b of
            Inl r \<Rightarrow>
              bind (emit_event env E_ERROR
                     [(''reason'', VStr ''invalid_response''), (''boundary'', VStr boundary),
                      (''detail'', VStr (cost_detail r))]) (\<lambda>_.
              bind (escalate env ''invalid_response''
                     [(''boundary'', VStr boundary), (''detail'', VStr (cost_detail r))] st) (\<lambda>st'.
              finish st' n))
          | Inr b' \<Rightarrow> bind (put_budget b') (\<lambda>_. go_on ()))))"

definition runDiagnosis :: "'w loop_env \<Rightarrow> js_val list \<Rightarrow> ('w, hyp_outcome) eff" where
  "runDiagnosis env hyps =
     (case le_engine env of
        None \<Rightarrow>
          bind (emit_event env E_HYPOTHESIS_PROPOSED
                 [(''count'', vint (int (length hyps))), (''engine'', VBool False)]) (\<lambda>_.
          ret (HypExhausted AllRefuted []))
      | Some d \<Rightarrow> evaluateHypotheses d hyps)"

section \<open>The steering boundary\<close>

definition pause_loop :: "'w loop_env \<Rightarrow> ('w \<Rightarrow> resume_signal \<times> 'w) \<Rightarrow> task_state \<Rightarrow> nat \<Rightarrow> ('w, task_state) loop_eff" where
  "pause_loop env waitResume pre n =
     bind (move env T_pause pre) (\<lambda>st.
     bind (emit_event env E_PAUSE_REQUESTED [(''prePauseState'', VStr (state_name pre))]) (\<lambda>_.
     bind (ask (le_now env)) (\<lambda>pausedAt.
     bind (ask (le_stop_heartbeat env)) (\<lambda>_.
     bind (ask waitResume) (\<lambda>outcome.
     bind (ask (le_now env)) (\<lambda>resumedAt.
     bind (ask (le_now env)) (\<lambda>now.
     bind get_budget (\<lambda>b.
     bind (put_budget (noteExcludedMs now (resumedAt - pausedAt) b)) (\<lambda>_.
     case outcome of
       DoKill \<Rightarrow> bind (move env T_cancel st) (\<lambda>st'. finish st' n)
     | DoResume \<Rightarrow>
         bind (ask (le_reacquire env)) (\<lambda>again.
         if \<not> again
         then bind (escalate env ''lease_unavailable_after_pause'' [(''boundary'', VStr ''resume'')] st) (\<lambda>st'.
              finish st' n)
         else
           bind (ask (le_start_heartbeat env)) (\<lambda>_.
           case resumeTransition st pre of
             TrErr _ _ \<Rightarrow> go_on st
           | TrOk st' \<Rightarrow>
               bind (emit_event env E_TASK_STATE [(''state'', VStr (state_name st')), (''trigger'', VStr ''resume'')]) (\<lambda>_.
               bind (emit_event env E_RESUMED [(''resumedTo'', VStr (state_name st'))]) (\<lambda>_.
               go_on st')))))))))))))"

definition steer_boundary :: "'w loop_env \<Rightarrow> task_state \<Rightarrow> nat \<Rightarrow> ('w, task_state) loop_eff" where
  "steer_boundary env st n =
     (case le_control env of
        None \<Rightarrow> go_on st
      | Some (poll, waitResume) \<Rightarrow>
          bind (ask poll) (\<lambda>signal.
          case signal of
            SigKill \<Rightarrow> bind (move env T_cancel st) (\<lambda>st'. finish st' n)
          | SigPause \<Rightarrow> pause_loop env waitResume st n
          | SigNone \<Rightarrow> go_on st))"

section \<open>One round\<close>

definition guidance_feedback :: "'w loop_env \<Rightarrow> feedback \<Rightarrow> ('w, feedback) eff" where
  "guidance_feedback env fb =
     bind (ask (le_guidance env)) (\<lambda>gs.
     ret (if gs = [] then fb else FbGuidance (join (CHR 0x0A # ''---'' @ [CHR 0x0A]) gs)))"

definition budget_boundary :: "'w loop_env \<Rightarrow> task_state \<Rightarrow> nat \<Rightarrow> ('w, unit) loop_eff" where
  "budget_boundary env st n =
     bind (ask (le_now env)) (\<lambda>now.
     bind get_budget (\<lambda>b.
     case exceeded now b of
       Some l \<Rightarrow>
         bind (emitBudgetExceeded env l n) (\<lambda>_.
         bind (escalate env (''budget:'' @ limit_name l) [] st) (\<lambda>st'.
         finish st' n))
     | None \<Rightarrow>
         if js_le (remaining b) (js_int 0)
         then
           bind (emitBudgetExceeded env CostUnits n) (\<lambda>_.
           bind (escalate env ''budget_exhausted'' [] st) (\<lambda>st'.
           finish st' n))
         else go_on ()))"

definition ask_source :: "'w loop_env \<Rightarrow> task_state \<Rightarrow> role \<Rightarrow> feedback \<Rightarrow> ('w, proposal) eff" where
  "ask_source env st r fb =
     bind (record_call (CPropose r)) (\<lambda>_.
     call (le_propose env \<lparr>pi_task = le_task env, pi_state = st, pi_role = r, pi_feedback = fb\<rparr>))"

definition claim_name :: "proposal_claim \<Rightarrow> string" where
  "claim_name c = (case c of
     Working \<Rightarrow> ''WORKING'' | ReadyForVerification \<Rightarrow> ''READY_FOR_VERIFICATION'' | ClaimBlocked \<Rightarrow> ''BLOCKED'')"

definition proposal_round :: "'w loop_env \<Rightarrow> task_state \<Rightarrow> nat \<Rightarrow> feedback \<Rightarrow> ('w, proposal) loop_eff" where
  "proposal_round env st n fb =
     andThen (requireOwnership env ''proposal'' st n) (\<lambda>_.
     bind (ask_source env st (le_role env) fb) (\<lambda>p.
     andThen (requireOwnership env ''proposal_result'' st (Suc n)) (\<lambda>_.
     case pp_error p of
       Some detail \<Rightarrow>
         bind (emit_event env E_ERROR
                [(''reason'', VStr ''invalid_response''), (''boundary'', VStr ''proposal_source''), (''detail'', detail)]) (\<lambda>_.
         bind (escalate env ''invalid_response'' [(''boundary'', VStr ''proposal_source''), (''detail'', detail)] st) (\<lambda>st'.
         finish st' (Suc n)))
     | None \<Rightarrow>
         andThen (chargeUsage env (pp_cost p) ''proposal_usage'' st (Suc n)) (\<lambda>_.
         bind (emit_event env E_CLAIM_RECORDED
                [(''claim'', VStr (claim_name (pp_claim p))), (''actionCount'', vint (int (length (pp_actions p))))]) (\<lambda>_.
         go_on p)))))"

fun run_actions :: "'w loop_env \<Rightarrow> action list \<Rightarrow> action_rejection list \<Rightarrow> task_state \<Rightarrow> nat \<Rightarrow>
    ('w, action_rejection list) loop_eff" where
  "run_actions env [] rejs st n = go_on rejs"
| "run_actions env (a # as) rejs st n =
     andThen (requireOwnership env ''action'' st n) (\<lambda>_.
     bind (record_call CExecute) (\<lambda>_.
     bind (call (le_execute env a (le_role env))) (\<lambda>outcome.
     andThen (requireOwnership env ''action_result'' st n) (\<lambda>_.
     run_actions env as (case outcome of ExecRejected r \<Rightarrow> rejs @ [r] | _ \<Rightarrow> rejs) st n))))"

definition gate_error_why :: "string option \<Rightarrow> string" where
  "gate_error_why reason =
     (case reason of
        Some r \<Rightarrow> (if r \<in> {''evidence_auth_unavailable'', ''evidence_auth_mismatch''} then r else ''evidence_auth_mismatch'')
      | None \<Rightarrow> ''evidence_auth_mismatch'')"

definition tier_name :: "gate_tier \<Rightarrow> string" where
  "tier_name t = (case t of T0 \<Rightarrow> ''T0'' | T1 \<Rightarrow> ''T1'' | T2 \<Rightarrow> ''T2'' | T3 \<Rightarrow> ''T3'')"

definition run_gate :: "'w loop_env \<Rightarrow> gate_tier \<Rightarrow> task_state \<Rightarrow> nat \<Rightarrow> ('w, gate_report) loop_eff" where
  "run_gate env tier st n =
     andThen (requireOwnership env (''gate:'' @ tier_name tier) st n) (\<lambda>_.
     bind (record_call (CGate tier)) (\<lambda>_.
     bind (ask (le_gate env tier)) (\<lambda>r.
     case r of
       Inr report \<Rightarrow> bind (record_call (CReport report)) (\<lambda>_. go_on report)
     | Inl (GateFenced msg) \<Rightarrow>
         bind (escalate env ''lease_lost''
                [(''boundary'', VStr (''gate:'' @ tier_name tier)), (''code'', VStr ''lease_lost''), (''detail'', VStr msg)] st) (\<lambda>st'.
         finish st' n)
     | Inl (GateThrew code reason detail) \<Rightarrow>
         bind (escalate env (gate_error_why reason)
                [(''boundary'', VStr ''state_advancement''),
                 (''code'', VStr (case code of Some c \<Rightarrow> c | None \<Rightarrow> ''evidence_auth_failed'')),
                 (''detail'', VStr detail)] st) (\<lambda>st'.
         finish st' n))))"

text \<open>The claim \<open>READY_FOR_VERIFICATION\<close>: a failed T1 is the value, with the state it left.\<close>

definition verification_round ::
    "'w loop_env \<Rightarrow> gate_report option \<Rightarrow> task_state \<Rightarrow> nat \<Rightarrow> ('w, gate_report \<times> task_state) loop_eff" where
  "verification_round env t0 st n =
     (case t0 of
        None \<Rightarrow>
          bind (escalate env ''gate_ordering_violation''
                 [(''boundary'', VStr ''state_advancement''), (''detail'', VStr ''READY_FOR_VERIFICATION without T0'')] st) (\<lambda>st'.
          finish st' n)
      | Some r0 \<Rightarrow>
          bind (move env T_verify st) (\<lambda>st1.
          andThen (run_gate env T1 st1 n) (\<lambda>r1.
          if gr_worktree_hash r1 \<noteq> gr_worktree_hash r0
          then
            bind (escalate env ''artifact_identity_mismatch''
                   [(''boundary'', VStr ''state_advancement''),
                    (''t0WorktreeHash'', VStr (gr_worktree_hash r0)), (''t1WorktreeHash'', VStr (gr_worktree_hash r1))] st1) (\<lambda>st'.
            finish st' n)
          else if gr_pass r1 = GatePass
          then
            bind (move env T_gate_passed st1) (\<lambda>st2.
            bind (move env T_review st2) (\<lambda>st3.
            bind (emit_event env E_TASK_STATE
                   [(''state'', VStr (state_name st3)), (''marker'', VStr ''awaiting_human_phase0'')]) (\<lambda>_.
            ret (Inl \<lparr>lr_final = st3, lr_iterations = n, lr_awaiting_human = True, lr_report = Some r1\<rparr>))))
          else go_on (r1, st1))))"

definition exhausted_name :: "exhausted \<Rightarrow> string" where
  "exhausted_name r = (case r of
     AllRefuted \<Rightarrow> ''all_refuted'' | MaxHypotheses \<Rightarrow> ''max_hypotheses''
   | BudgetStop \<Rightarrow> ''budget'' | WallclockStop \<Rightarrow> ''wallclock'')"

definition diagnosis_exhausted ::
    "'w loop_env \<Rightarrow> exhausted \<Rightarrow> verdict_entry list \<Rightarrow> task_state \<Rightarrow> nat \<Rightarrow> ('w, 'a) loop_eff" where
  "diagnosis_exhausted env reason verdicts st n =
     bind (if reason = BudgetStop \<or> reason = WallclockStop
           then bind (ask (le_now env)) (\<lambda>now.
                bind get_budget (\<lambda>b.
                emitBudgetExceeded env
                  (case exceeded now b of
                     None \<Rightarrow> (if reason = WallclockStop then Wallclock else CostUnits)
                   | Some l \<Rightarrow> l) n))
           else ret ()) (\<lambda>_.
     bind (escalate env
            (if reason = BudgetStop \<or> reason = WallclockStop then exhausted_name reason @ ''_exhausted''
             else ''hypotheses_exhausted'')
            [(''reason'', VStr (exhausted_name reason)), (''hypotheses'', summarizeHypothesisLog verdicts)] st) (\<lambda>st'.
     finish st' n))"

definition diagnosis_proposal ::
    "'w loop_env \<Rightarrow> gate_report \<Rightarrow> action_rejection list \<Rightarrow> task_state \<Rightarrow> nat \<Rightarrow>
     ('w, task_state \<times> nat \<times> feedback) loop_eff" where
  "diagnosis_proposal env failure rejs st n =
     andThen (requireOwnership env ''diagnosis_proposal'' st n) (\<lambda>_.
     bind (ask_source env st Diagnostician (FbReport failure rejs)) (\<lambda>diag.
     andThen (requireOwnership env ''diagnosis_result'' st (Suc n)) (\<lambda>_.
     andThen (chargeUsage env (pp_cost diag) ''diagnosis_usage'' st (Suc n)) (\<lambda>_.
     bind (runDiagnosis env (pp_hypotheses diag)) (\<lambda>outcome.
     case outcome of
       HypConfirmed h _ \<Rightarrow>
         bind (move env T_repair st) (\<lambda>st'.
         go_on (st', Suc n, FbPatchPlan (val_get (val_get h ''ifConfirmed'') ''patchPlan'')
                              (val_get (val_get h ''ifConfirmed'') ''estimatedBlastRadius'') rejs))
     | HypExhausted reason verdicts \<Rightarrow> diagnosis_exhausted env reason verdicts st (Suc n))))))"

definition diagnosis_round ::
    "'w loop_env \<Rightarrow> gate_report \<Rightarrow> action_rejection list \<Rightarrow> task_state \<Rightarrow> nat \<Rightarrow>
     ('w, task_state \<times> nat \<times> feedback) loop_eff" where
  "diagnosis_round env failure rejs st n =
     bind (if st = S_IMPLEMENTING \<or> st = S_REPAIRING then move env T_verify st else ret st) (\<lambda>st1.
     bind (move env T_gate_failed st1) (\<lambda>st2.
     bind (move env T_diagnose st2) (\<lambda>st3.
     bind get_budget (\<lambda>b.
     if js_le (remaining b) (js_int 0)
     then
       bind (emitBudgetExceeded env CostUnits n) (\<lambda>_.
       bind (escalate env ''budget_exhausted'' [] st3) (\<lambda>st'.
       finish st' n))
     else diagnosis_proposal env failure rejs st3 n))))"

text \<open>The gates of a round: the report of a failed one, and the state they leave.\<close>

definition gate_stage ::
    "'w loop_env \<Rightarrow> proposal_claim \<Rightarrow> task_state \<Rightarrow> nat \<Rightarrow> ('w, gate_report option \<times> task_state) loop_eff" where
  "gate_stage env claimed st n =
     andThen (if le_role env = Implementer
              then andThen (run_gate env T0 st n) (\<lambda>r. go_on (Some r))
              else go_on None) (\<lambda>t0.
     case t0 of
       Some r0 \<Rightarrow>
         if gr_pass r0 \<noteq> GatePass then go_on (Some r0, st)
         else if claimed = ReadyForVerification
         then andThen (verification_round env t0 st n) (\<lambda>(r1, st1). go_on (Some r1, st1))
         else go_on (None, st)
     | None \<Rightarrow>
         if claimed = ReadyForVerification
         then andThen (verification_round env t0 st n) (\<lambda>(r1, st1). go_on (Some r1, st1))
         else go_on (None, st))"

definition round_step ::
    "'w loop_env \<Rightarrow> task_state \<times> nat \<times> feedback \<Rightarrow> ('w, task_state \<times> nat \<times> feedback) loop_eff" where
  "round_step env = (\<lambda>(st0, n, fb0).
     andThen (steer_boundary env st0 n) (\<lambda>st.
     bind (guidance_feedback env fb0) (\<lambda>fb.
     andThen (budget_boundary env st n) (\<lambda>_.
     andThen (proposal_round env st n fb) (\<lambda>p.
     andThen (run_actions env (pp_actions p) (pp_rejections p) st (Suc n)) (\<lambda>rejs.
     andThen (gate_stage env (pp_claim p) st (Suc n)) (\<lambda>(failure, st1).
     case failure of
       Some r \<Rightarrow> diagnosis_round env r rejs st1 (Suc n)
     | None \<Rightarrow>
         if pp_claim p = ClaimBlocked
         then bind (move env T_block st1) (\<lambda>st'. finish st' (Suc n))
         else go_on (st1, Suc n, if rejs = [] then FbNone else FbRejections rejs))))))))"

section \<open>The loop\<close>

text \<open>\<open>for (;;)\<close> with fuel: \<open>None\<close> when the fuel ran out.\<close>

fun loop_rounds :: "nat \<Rightarrow> 'w loop_env \<Rightarrow> task_state \<times> nat \<times> feedback \<Rightarrow> ('w, loop_result option) eff" where
  "loop_rounds 0 env c = ret None"
| "loop_rounds (Suc fuel) env c =
     bind (round_step env c) (\<lambda>r.
     case r of Inl res \<Rightarrow> ret (Some res) | Inr c' \<Rightarrow> loop_rounds fuel env c')"

definition runTaskLoopWithLease :: "nat \<Rightarrow> 'w loop_env \<Rightarrow> ('w, loop_result option) eff" where
  "runTaskLoopWithLease fuel env =
     bind (ask (le_start_heartbeat env)) (\<lambda>_.
     bind (move env T_analyze S_PROPOSED) (\<lambda>s1.
     bind (move env T_ready s1) (\<lambda>s2.
     bind (move env T_start_implementing s2) (\<lambda>s3.
     loop_rounds fuel env (s3, 0, FbNone)))))"

text \<open>\<open>try \<dots> finally\<close>: the lease is released whether the loop returns or throws.\<close>

definition runTaskLoop :: "nat \<Rightarrow> 'w loop_env \<Rightarrow> ('w, loop_result option) eff" where
  "runTaskLoop fuel env =
     bind (attempt (runTaskLoopWithLease fuel env)) (\<lambda>r.
     bind (if le_keep_lease env then ret ()
           else bind (ask (le_stop_heartbeat env)) (\<lambda>_. ask (le_release env))) (\<lambda>_ s.
     (case r of Inl e \<Rightarrow> (Inl e, s) | Inr a \<Rightarrow> (Inr a, s))))"

section \<open>The invariant of the loop\<close>

text \<open>The state a replay of the log shows, and the two mistakes the loop never makes: attempting an
  illegal transition, and calling out without having just checked its lease.\<close>

definition logged_state :: "new_event list \<Rightarrow> js_val option" where
  "logged_state es =
     fold (\<lambda>e a. if ne_type e = E_TASK_STATE then Some (fields_get (ne_payload e) ''state'') else a) es None"

definition no_illegal_move :: "new_event list \<Rightarrow> bool" where
  "no_illegal_move es \<longleftrightarrow> (\<forall>e \<in> set es. ne_type e = E_ERROR \<longrightarrow>
     fields_get (ne_payload e) ''reason'' \<noteq> VStr ''illegal_transition'')"

fun side_effect :: "ext_call \<Rightarrow> bool" where
  "side_effect (COwns _) = False"
| "side_effect (CReport _) = False"
| "side_effect _ = True"

text \<open>A probe may follow another probe: the engine does not check the lease between two of them. Anything else
  with an effect follows a check that was answered yes.\<close>

fun may_follow :: "ext_call option \<Rightarrow> ext_call \<Rightarrow> bool" where
  "may_follow (Some (COwns True)) c = True"
| "may_follow (Some (CProbe _)) (CProbe _) = True"
| "may_follow before c = (\<not> side_effect c)"

fun fenced_from :: "ext_call option \<Rightarrow> ext_call list \<Rightarrow> bool" where
  "fenced_from before [] = True"
| "fenced_from before (c # cs) = (may_follow before c \<and> fenced_from (Some c) cs)"

lemma may_follow_owned: "before = Some (COwns True) \<Longrightarrow> may_follow before c"
  by simp

lemma may_follow_quiet: "\<not> side_effect c \<Longrightarrow> may_follow before c"
  by (cases "(before, c)" rule: may_follow.cases) auto

lemma may_follow_probe: "before = Some (COwns True) \<or> (\<exists>c. before = Some (CProbe c)) \<Longrightarrow> may_follow before (CProbe c')"
  by auto

definition last_call :: "ext_call list \<Rightarrow> ext_call option" where
  "last_call cs = (if cs = [] then None else Some (last cs))"

lemma fenced_snoc:
  "fenced_from b (cs @ [c]) \<longleftrightarrow> fenced_from b cs \<and>
     may_follow (if cs = [] then b else Some (last cs)) c"
  by (induction cs arbitrary: b) auto

lemma logged_state_snoc [simp]:
  "logged_state (es @ [e]) = (if ne_type e = E_TASK_STATE then Some (fields_get (ne_payload e) ''state'') else logged_state es)"
  by (simp add: logged_state_def)

lemma no_illegal_snoc [simp]:
  "no_illegal_move (es @ [e]) \<longleftrightarrow> no_illegal_move es \<and>
     (ne_type e = E_ERROR \<longrightarrow> fields_get (ne_payload e) ''reason'' \<noteq> VStr ''illegal_transition'')"
  by (auto simp: no_illegal_move_def)

definition clean :: "'w sys \<Rightarrow> bool" where
  "clean s \<longleftrightarrow> no_illegal_move (sys_log s) \<and> fenced_from None (sys_calls s)"

text \<open>The loop is in state \<open>st\<close>, under an iteration cap \<open>m\<close>, having charged at least \<open>k\<close> iterations.\<close>

definition running :: "nat \<Rightarrow> task_state \<Rightarrow> nat \<Rightarrow> 'w sys \<Rightarrow> bool" where
  "running m st k s \<longleftrightarrow> clean s \<and> logged_state (sys_log s) = Some (VStr (state_name st))
     \<and> bl_max_iterations (bt_limits (sys_budget s)) = m \<and> k \<le> bt_iterations (sys_budget s)"

text \<open>The run ended with T0 and T1, each right after a check of the lease, and these are their reports.\<close>

definition gate_run :: "gate_tier \<Rightarrow> gate_report \<Rightarrow> ext_call list" where
  "gate_run tier r = [COwns True, CGate tier, CReport r]"

definition reviewed_by :: "ext_call list \<Rightarrow> gate_report \<Rightarrow> gate_report \<Rightarrow> bool" where
  "reviewed_by cs r0 r1 \<longleftrightarrow> (\<exists>before. cs = before @ gate_run T0 r0 @ gate_run T1 r1)
     \<and> gr_pass r0 = GatePass \<and> gr_pass r1 = GatePass \<and> gr_worktree_hash r0 = gr_worktree_hash r1"

definition result_ok :: "'w loop_env \<Rightarrow> loop_result \<Rightarrow> 'w sys \<Rightarrow> bool" where
  "result_ok env res s \<longleftrightarrow> clean s \<and> logged_state (sys_log s) = Some (VStr (state_name (lr_final res)))
     \<and> (if lr_final res = S_REVIEWING
        then le_role env = Implementer \<and> lr_awaiting_human res \<and>
          (\<exists>r0 r1. reviewed_by (sys_calls s) r0 r1 \<and> lr_report res = Some r1)
        else lr_final res \<in> {S_ESCALATED, S_BLOCKED, S_CANCELLED} \<and> \<not> lr_awaiting_human res \<and> lr_report res = None)"

definition lpost :: "'w loop_env \<Rightarrow> ('a \<Rightarrow> 'w sys \<Rightarrow> bool) \<Rightarrow> loop_result + 'a \<Rightarrow> 'w sys \<Rightarrow> bool" where
  "lpost env R r s = (case r of Inl res \<Rightarrow> result_ok env res s | Inr a \<Rightarrow> R a s)"

lemma lpost_simps [simp]: "lpost env R (Inl res) = result_ok env res" "lpost env R (Inr a) = R a"
  by (simp_all add: fun_eq_iff lpost_def)

abbreviation loop_ok ::
    "'w loop_env \<Rightarrow> ('w sys \<Rightarrow> bool) \<Rightarrow> ('w, 'a) loop_eff \<Rightarrow> ('a \<Rightarrow> 'w sys \<Rightarrow> bool) \<Rightarrow> bool" where
  "loop_ok env P m R \<equiv> eff_ok P m (lpost env R) clean"

lemma loop_ok_andThen:
  "loop_ok env P m R \<Longrightarrow> (\<And>a. loop_ok env (R a) (f a) Q) \<Longrightarrow> loop_ok env P (andThen m f) Q"
  unfolding andThen_def
  by (rule eff_ok_bind [where R = "lpost env R"])
     (auto simp: eff_ok_def lpost_def ret_def split: sum.splits)

lemma loop_ok_go_on: "(\<And>s. P s \<Longrightarrow> R a s) \<Longrightarrow> loop_ok env P (go_on a) R"
  unfolding go_on_def by (rule eff_ok_ret) (simp add: lpost_def)

lemma running_clean: "running m st k s \<Longrightarrow> clean s"
  by (simp add: running_def)

lemma running_world_free: "world_free (running m st k)"
  by (simp add: world_free_def running_def clean_def)

lemma running_mono: "running m st k s \<Longrightarrow> k' \<le> k \<Longrightarrow> running m st k' s"
  by (simp add: running_def)

definition stopped_states :: "task_state set" where
  "stopped_states = {S_ESCALATED, S_BLOCKED, S_CANCELLED}"

lemma loop_ok_finish: "st \<in> stopped_states \<Longrightarrow> loop_ok env (running m st k) (finish st n) R"
  unfolding finish_def
  by (rule eff_ok_ret) (auto simp: lpost_def result_ok_def running_def stopped_states_def)

section \<open>The pieces keep the invariant\<close>

text \<open>Asking, reading the budget and logging anything but a state or an error changes nothing.\<close>

lemma running_ask: "eff_ok (running m st k) (ask g) (\<lambda>_. running m st k) E"
  by (rule eff_ok_ask) (simp add: running_def clean_def)

lemma running_get_budget: "eff_ok (running m st k) get_budget (\<lambda>b s. running m st k s \<and> sys_budget s = b) E"
  by (rule eff_ok_get_budget) simp

lemma running_emit:
  assumes "ty \<noteq> E_TASK_STATE" "ty = E_ERROR \<Longrightarrow> fields_get pl ''reason'' \<noteq> VStr ''illegal_transition''"
  shows "eff_ok (running m st k) (emit_event env ty pl) (\<lambda>_. running m st k) E"
  unfolding emit_event_def using assms by (intro eff_ok_log) (auto simp: running_def clean_def)

lemma running_move:
  "transition st tr = TrOk n \<Longrightarrow>
     eff_ok (running m st k) (move env tr st) (\<lambda>st' s. st' = n \<and> running m n k s) E"
  unfolding move_def emit_event_def
  by (simp, intro eff_ok_bind [OF eff_ok_log [where Q = "\<lambda>_. running m n k"]] eff_ok_ret)
     (simp_all add: running_def clean_def fields_get_def)

definition escapable :: "task_state \<Rightarrow> bool" where
  "escapable st \<longleftrightarrow> st \<in> set ACTIVE_STATES \<or> st = S_PAUSED"

lemma escapable_moves:
  assumes "escapable st"
  shows "transition st T_escalate = TrOk S_ESCALATED" "transition st T_block = TrOk S_BLOCKED"
    "transition st T_cancel = TrOk S_CANCELLED" "transition st T_pause = TrOk S_PAUSED"
  using assms by (simp_all add: escapable_def transition_def)

text \<open>A move whose target is known continues in that state.\<close>

lemma move_then:
  assumes "transition st tr = TrOk n" "eff_ok (running m n k) (f n) Q E"
  shows "eff_ok (running m st k) (bind (move env tr st) f) Q E"
proof (rule eff_ok_bind [OF running_move [OF assms(1)]])
  fix a
  show "eff_ok (\<lambda>s. a = n \<and> running m n k s) (f a) Q E"
    using assms(2) by (cases "a = n") (auto simp: eff_ok_def)
qed

lemma emit_then:
  assumes "ty \<noteq> E_TASK_STATE" "ty = E_ERROR \<Longrightarrow> fields_get pl ''reason'' \<noteq> VStr ''illegal_transition''"
    and "eff_ok (running m st k) (f ()) Q E"
  shows "eff_ok (running m st k) (bind (emit_event env ty pl) f) Q E"
  using assms(3) by (intro eff_ok_bind [OF running_emit [OF assms(1,2)]]) simp_all

lemma ask_then:
  "(\<And>a. eff_ok (running m st k) (f a) Q E) \<Longrightarrow> eff_ok (running m st k) (bind (ask g) f) Q E"
  by (rule eff_ok_bind [OF running_ask])

text \<open>Every escalation ends the loop in \<open>ESCALATED\<close>.\<close>

lemma escalate_then_finish:
  "escapable st \<Longrightarrow> loop_ok env (running m st k) (bind (escalate env why extra st) (\<lambda>st'. finish st' n)) R"
proof -
  assume st: "escapable st"
  have "eff_ok (running m st k) (escalate env why extra st) (\<lambda>st' s. st' = S_ESCALATED \<and> running m S_ESCALATED k s) clean"
    unfolding escalate_def
    by (intro move_then [OF escapable_moves(1) [OF st]] emit_then eff_ok_ret) simp_all
  then show ?thesis
  proof (rule eff_ok_bind)
    fix a
    show "loop_ok env (\<lambda>s. a = S_ESCALATED \<and> running m S_ESCALATED k s) (finish a n) R"
      using loop_ok_finish [of S_ESCALATED m k n env R]
      by (cases "a = S_ESCALATED") (auto simp: stopped_states_def eff_ok_def)
  qed
qed

definition owning :: "nat \<Rightarrow> task_state \<Rightarrow> nat \<Rightarrow> 'w sys \<Rightarrow> bool" where
  "owning m st k s \<longleftrightarrow> running m st k s \<and> last_call (sys_calls s) = Some (COwns True)"

lemma owning_running: "owning m st k s \<Longrightarrow> running m st k s"
  by (simp add: owning_def)

text \<open>The history grows by what is recorded.\<close>

definition grown :: "(ext_call list \<Rightarrow> bool) \<Rightarrow> ext_call list \<Rightarrow> 'w sys \<Rightarrow> bool" where
  "grown H cs s \<longleftrightarrow> (\<exists>before. H before \<and> sys_calls s = before @ cs)"

lemma requireOwnership_grown:
  assumes "escapable st"
  shows "loop_ok env (\<lambda>s. running m st k s \<and> grown H cs s) (requireOwnership env b st n)
     (\<lambda>_ s. owning m st k s \<and> grown H (cs @ [COwns True]) s)"
proof -
  have told: "eff_ok (\<lambda>s. running m st k s \<and> grown H cs s) (record_call (COwns ok))
      (\<lambda>_ s. running m st k s \<and> grown H (cs @ [COwns ok]) s) clean" for ok
    by (rule eff_ok_record_call) (auto simp: running_def clean_def fenced_snoc grown_def may_follow_quiet)
  have asked: "eff_ok (\<lambda>s. running m st k s \<and> grown H cs s) (ask g)
      (\<lambda>_ s. running m st k s \<and> grown H cs s) clean" for g :: "'a \<Rightarrow> bool \<times> 'a"
    by (rule eff_ok_ask) (auto simp: running_def clean_def grown_def)
  have lost: "loop_ok env (running m st k) (bind (move env T_escalate st) (\<lambda>st'.
       bind (ask (le_token env)) (\<lambda>tok. bind (emit_event env E_ESCALATED (pl tok)) (\<lambda>_. finish st' n)))) R" for R :: "unit \<Rightarrow> _" and pl
    using loop_ok_finish [of S_ESCALATED m k n env R]
    by (intro move_then [OF escapable_moves(1) [OF assms]] ask_then emit_then) (simp_all add: stopped_states_def)
  have rest: "loop_ok env (\<lambda>s. running m st k s \<and> grown H (cs @ [COwns ok]) s)
        (if ok then go_on () else bind (move env T_escalate st) (\<lambda>st'.
         bind (ask (le_token env)) (\<lambda>tok. bind (emit_event env E_ESCALATED
          [(''why'', VStr ''lease_lost''), (''boundary'', VStr b), (''fencingToken'', vint tok)]) (\<lambda>_.
         finish st' n)))) (\<lambda>_ s. owning m st k s \<and> grown H (cs @ [COwns True]) s)" for ok
    by (cases ok)
       (auto intro!: loop_ok_go_on simp: owning_def last_call_def grown_def intro: eff_ok_weaken [OF lost])
  show ?thesis
    unfolding requireOwnership_def by (intro eff_ok_bind [OF asked] eff_ok_bind [OF told] rest)
qed

lemma requireOwnership_ok:
  "escapable st \<Longrightarrow> loop_ok env (running m st k) (requireOwnership env b st n) (\<lambda>_. owning m st k)"
  by (rule eff_ok_weaken [OF requireOwnership_grown [where H = "\<lambda>_. True" and cs = "[]"]])
     (auto simp: grown_def lpost_def split: sum.splits)

text \<open>A side effect right after a successful check.\<close>

lemma owned_record:
  "eff_ok (owning m st k) (record_call c) (\<lambda>_. running m st k) clean"
  by (rule eff_ok_record_call)
     (auto simp: owning_def running_def clean_def fenced_snoc last_call_def split: if_splits)

lemma running_call: "eff_ok (running m st k) (call g) (\<lambda>_. running m st k) clean"
  by (rule eff_ok_call) (auto simp: running_def clean_def)

lemma owned_effect:
  "(\<And>a. eff_ok (running m st k) (f a) Q clean) \<Longrightarrow>
   eff_ok (owning m st k) (bind (record_call c) (\<lambda>_. bind (call g) f)) Q clean"
  by (intro eff_ok_bind [OF owned_record] eff_ok_bind [OF running_call])

text \<open>A check whose success is not followed by a side effect.\<close>

lemma owned_then:
  assumes "escapable st" "loop_ok env (running m st k) (f ()) Q"
  shows "loop_ok env (running m st k) (andThen (requireOwnership env b st n) f) Q"
  by (rule loop_ok_andThen [OF requireOwnership_ok [OF assms(1)]])
     (rule eff_ok_weaken [of "running m st k" _ "lpost env Q" clean], simp_all add: assms(2) owning_running)

lemma ask_source_ok:
  "eff_ok (owning m st k) (ask_source env st r fb) (\<lambda>_. running m st k) clean"
  unfolding ask_source_def by (intro eff_ok_bind [OF owned_record] running_call)

lemma chargeUsage_ok:
  assumes "escapable st"
  shows "loop_ok env (running m st k) (chargeUsage env cost b st n) (\<lambda>_. running m st (Suc k))"
proof -
  have bad: "loop_ok env (running m st k) (bind (emit_event env E_ERROR ((''reason'', VStr ''invalid_response'') # pl)) (\<lambda>_.
      bind (escalate env why extra st) (\<lambda>st'. finish st' n))) R" for pl why extra and R :: "unit \<Rightarrow> _"
    by (intro emit_then escalate_then_finish assms) (simp_all add: fields_get_def)
  have good: "loop_ok env (running m st k) (bind (put_budget b') (\<lambda>_. go_on ())) (\<lambda>_. running m st (Suc k))"
    if "bl_max_iterations (bt_limits b') = m" "Suc k \<le> bt_iterations b'" for b'
    using that by (intro eff_ok_bind [OF eff_ok_put_budget [where Q = "\<lambda>_. running m st (Suc k)"]] loop_ok_go_on)
      (auto simp: running_def clean_def)
  have note_it: "bl_max_iterations (bt_limits b') = bl_max_iterations (bt_limits b0) \<and> bt_iterations b' = Suc (bt_iterations b0)"
    if "noteIteration now v b0 = Inr b'" for now v b0 b'
    using that by (auto simp: noteIteration_def emit_def split: sum.splits)
  have charge: "loop_ok env (\<lambda>s. running m st k s \<and> sys_budget s = b0)
      (case noteIteration now (VNum v) b0 of
         Inl r \<Rightarrow> bind (emit_event env E_ERROR ((''reason'', VStr ''invalid_response'') # pl r)) (\<lambda>_.
                   bind (escalate env (why r) (extra r) st) (\<lambda>st'. finish st' n))
       | Inr b' \<Rightarrow> bind (put_budget b') (\<lambda>_. go_on ())) (\<lambda>_. running m st (Suc k))" for now v b0 pl why extra
  proof (cases "noteIteration now (VNum v) b0")
    case (Inl r)
    then show ?thesis by (simp, intro eff_ok_weaken [OF bad]) simp_all
  next
    case (Inr b')
    show ?thesis
    proof (cases "bl_max_iterations (bt_limits b0) = m \<and> k \<le> bt_iterations b0")
      case True
      then have "loop_ok env (running m st k) (bind (put_budget b') (\<lambda>_. go_on ())) (\<lambda>_. running m st (Suc k))"
        using note_it [OF Inr] by (intro good) simp_all
      then show ?thesis by (auto simp: Inr elim: eff_ok_weaken)
    qed (auto simp: eff_ok_def running_def)
  qed
  show ?thesis
    unfolding chargeUsage_def
    by (cases "validateCostUnits cost")
       (simp_all add: bad ask_then eff_ok_bind [OF running_get_budget charge])
qed

definition working_states :: "task_state set" where
  "working_states = {S_IMPLEMENTING, S_REPAIRING}"

lemma working_escapable: "st \<in> working_states \<Longrightarrow> escapable st"
  by (auto simp: working_states_def escapable_def ACTIVE_STATES_def)

lemma pause_loop_ok:
  assumes "st \<in> working_states"
  shows "loop_ok env (running m st k) (pause_loop env w st n) (\<lambda>st' s. st' = st \<and> running m st k s)"
proof -
  have esc: "escapable st" "escapable S_PAUSED"
    using working_escapable [OF assms] by (simp_all add: escapable_def)
  have restores: "resumeTransition S_PAUSED st = TrOk st"
    using assms by (auto simp: working_states_def resumeTransition_def ACTIVE_STATES_def)
  have resumed: "eff_ok (running m S_PAUSED k)
      (emit_event env E_TASK_STATE [(''state'', VStr (state_name st)), (''trigger'', VStr ''resume'')])
      (\<lambda>_. running m st k) clean"
    unfolding emit_event_def by (rule eff_ok_log) (simp add: running_def clean_def fields_get_def)
  have excluded: "eff_ok (\<lambda>s. running m S_PAUSED k s \<and> sys_budget s = b) (put_budget (noteExcludedMs now d b))
      (\<lambda>_. running m S_PAUSED k) clean" for now d b
    by (rule eff_ok_put_budget) (auto simp: running_def clean_def noteExcludedMs_def emit_def)
  show ?thesis
    unfolding pause_loop_def
    by (intro move_then [OF escapable_moves(4) [OF esc(1)]] emit_then ask_then
          eff_ok_bind [OF running_get_budget] eff_ok_bind [OF excluded])
       (auto split: resume_signal.split simp: restores stopped_states_def
         intro!: move_then [OF escapable_moves(3) [OF esc(2)]] loop_ok_finish ask_then
           escalate_then_finish esc eff_ok_bind [OF resumed] emit_then loop_ok_go_on)
qed

lemma steer_boundary_ok:
  assumes "st \<in> working_states"
  shows "loop_ok env (running m st k) (steer_boundary env st n) (\<lambda>st' s. st' = st \<and> running m st k s)"
  unfolding steer_boundary_def
  by (auto split: option.split control_signal.split simp: stopped_states_def
      intro!: loop_ok_go_on ask_then move_then [OF escapable_moves(3)] working_escapable assms loop_ok_finish
        pause_loop_ok)

lemma guidance_feedback_ok: "eff_ok (running m st k) (guidance_feedback env fb) (\<lambda>_. running m st k) clean"
  unfolding guidance_feedback_def by (intro ask_then eff_ok_ret)

text \<open>Past the budget boundary the iteration cap has not been reached.\<close>

lemma budget_boundary_ok:
  assumes "escapable st"
  shows "loop_ok env (running m st k) (budget_boundary env st n) (\<lambda>_ s. running m st k s \<and> k < m)"
proof -
  have stop: "loop_ok env (running m st k) (bind (emitBudgetExceeded env l n) (\<lambda>_.
      bind (escalate env why extra st) (\<lambda>st'. finish st' n))) R" for l why extra and R :: "unit \<Rightarrow> _"
    unfolding emitBudgetExceeded_def by (intro emit_then escalate_then_finish assms) simp_all
  have go: "loop_ok env (\<lambda>s. running m st k s \<and> sys_budget s = b) (go_on ()) (\<lambda>_ s. running m st k s \<and> k < m)"
    if "exceeded now b = None" for now b
    using that by (intro loop_ok_go_on) (auto simp: exceeded_def running_def split: if_splits)
  show ?thesis
    unfolding budget_boundary_def
    by (intro ask_then eff_ok_bind [OF running_get_budget])
       (auto split: option.split intro: go eff_ok_weaken [OF stop])
qed

lemma proposal_round_ok:
  assumes "escapable st"
  shows "loop_ok env (running m st k) (proposal_round env st n fb) (\<lambda>_. running m st (Suc k))"
  unfolding proposal_round_def
  by (rule loop_ok_andThen [OF requireOwnership_ok [OF assms] eff_ok_bind [OF ask_source_ok owned_then [OF assms]]])
     (auto split: option.split simp: fields_get_def
       intro!: emit_then escalate_then_finish assms
         loop_ok_andThen [OF chargeUsage_ok [OF assms]] loop_ok_go_on)

lemma run_actions_ok:
  assumes "escapable st"
  shows "loop_ok env (running m st k) (run_actions env as rejs st n) (\<lambda>_. running m st k)"
proof (induction as arbitrary: rejs)
  case (Cons a as)
  then show ?case
    by (simp, intro loop_ok_andThen [OF requireOwnership_ok [OF assms]] owned_effect owned_then [OF assms]) simp_all
qed (simp add: loop_ok_go_on)

lemma run_gate_grown:
  assumes "escapable st"
  shows "loop_ok env (\<lambda>s. running m st k s \<and> grown H cs s) (run_gate env tier st n)
     (\<lambda>r s. running m st k s \<and> grown H (cs @ gate_run tier r) s)"
proof -
  let ?asked = "\<lambda>s. running m st k s \<and> grown H (cs @ [COwns True, CGate tier]) s"
  have recorded: "eff_ok (\<lambda>s. owning m st k s \<and> grown H (cs @ [COwns True]) s) (record_call (CGate tier)) (\<lambda>_. ?asked) clean"
    by (rule eff_ok_record_call)
       (auto simp: owning_def running_def clean_def fenced_snoc last_call_def grown_def split: if_splits)
  have asked: "eff_ok ?asked (ask (le_gate env tier)) (\<lambda>_. ?asked) clean"
    by (rule eff_ok_ask) (auto simp: running_def clean_def grown_def)
  have reported: "eff_ok ?asked (record_call (CReport r)) (\<lambda>_ s. running m st k s \<and> grown H (cs @ gate_run tier r) s) clean" for r
    by (rule eff_ok_record_call) (auto simp: running_def clean_def fenced_snoc grown_def gate_run_def may_follow_quiet)
  have escalates: "loop_ok env ?asked (bind (escalate env why extra st) (\<lambda>st'. finish st' n)) R" for why extra and R :: "gate_report \<Rightarrow> _"
    by (rule eff_ok_weaken [OF escalate_then_finish [OF assms, where m = m and k = k]]) simp_all
  show ?thesis
    unfolding run_gate_def
    by (intro loop_ok_andThen [OF requireOwnership_grown [OF assms]] eff_ok_bind [OF recorded] eff_ok_bind [OF asked])
       (auto split: sum.split gate_error.split intro!: eff_ok_bind [OF reported] loop_ok_go_on escalates)
qed

lemma run_gate_ok:
  "escapable st \<Longrightarrow> loop_ok env (running m st k) (run_gate env tier st n)
     (\<lambda>r s. running m st k s \<and> grown (\<lambda>_. True) (gate_run tier r) s)"
  by (rule eff_ok_weaken [OF run_gate_grown [where H = "\<lambda>_. True" and cs = "[]"]])
     (auto simp: grown_def lpost_def split: sum.splits)

lemma move_grown:
  assumes "transition st tr = TrOk n"
    and "eff_ok (\<lambda>s. running m n k s \<and> grown H cs s) (f n) Q E"
  shows "eff_ok (\<lambda>s. running m st k s \<and> grown H cs s) (bind (move env tr st) f) Q E"
proof -
  have "eff_ok (\<lambda>s. running m st k s \<and> grown H cs s) (move env tr st)
      (\<lambda>st' s. st' = n \<and> running m n k s \<and> grown H cs s) E"
    unfolding move_def emit_event_def
    using assms(1)
    by (simp, intro eff_ok_bind [OF eff_ok_log [where Q = "\<lambda>_ s. running m n k s \<and> grown H cs s"]] eff_ok_ret)
       (simp_all add: running_def clean_def fields_get_def grown_def)
  then show ?thesis by (rule eff_ok_bind) (auto intro!: eff_ok_fact' simp: assms(2))
qed

lemma working_moves:
  assumes "st \<in> working_states"
  shows "transition st T_verify = TrOk S_VERIFYING"
    "transition S_VERIFYING T_gate_passed = TrOk S_PASSED" "transition S_PASSED T_review = TrOk S_REVIEWING"
    "transition S_VERIFYING T_gate_failed = TrOk S_FAILED" "transition S_FAILED T_diagnose = TrOk S_DIAGNOSING"
    "transition S_DIAGNOSING T_repair = TrOk S_REPAIRING"
  using assms by (auto simp: working_states_def transition_def)

lemma escapable_simps [simp]: "escapable S_VERIFYING" "escapable S_DIAGNOSING"
  by (simp_all add: escapable_def ACTIVE_STATES_def)

lemma reviewing_ok:
  assumes "le_role env = Implementer" "gr_pass r0 = GatePass" "gr_pass r1 = GatePass"
    and "gr_worktree_hash r1 = gr_worktree_hash r0"
  shows "loop_ok env (\<lambda>s. running m S_REVIEWING k s \<and> grown (\<lambda>_. True) (gate_run T0 r0 @ gate_run T1 r1) s)
      (bind (emit_event env E_TASK_STATE [(''state'', VStr (state_name S_REVIEWING)), (''marker'', VStr ''awaiting_human_phase0'')])
        (\<lambda>_. ret (Inl \<lparr>lr_final = S_REVIEWING, lr_iterations = n, lr_awaiting_human = True, lr_report = Some r1\<rparr>))) R"
proof -
  let ?P = "\<lambda>s. running m S_REVIEWING k s \<and> grown (\<lambda>_. True) (gate_run T0 r0 @ gate_run T1 r1) s"
  have "eff_ok ?P (emit_event env E_TASK_STATE
      [(''state'', VStr (state_name S_REVIEWING)), (''marker'', VStr ''awaiting_human_phase0'')]) (\<lambda>_. ?P) clean"
    unfolding emit_event_def by (rule eff_ok_log) (simp add: running_def clean_def fields_get_def grown_def)
  moreover have "result_ok env \<lparr>lr_final = S_REVIEWING, lr_iterations = n, lr_awaiting_human = True, lr_report = Some r1\<rparr> s"
    if "?P s" for s
    using that assms by (auto simp: result_ok_def running_def reviewed_by_def grown_def)
  ultimately show ?thesis by (intro eff_ok_bind [where R = "\<lambda>_. ?P"] eff_ok_ret) auto
qed

lemma verification_round_ok:
  assumes st: "st \<in> working_states"
    and t0: "\<And>r0. t0 = Some r0 \<Longrightarrow> le_role env = Implementer \<and> gr_pass r0 = GatePass"
  shows "loop_ok env (\<lambda>s. running m st k s \<and> (\<forall>r0. t0 = Some r0 \<longrightarrow> grown (\<lambda>_. True) (gate_run T0 r0) s))
     (verification_round env t0 st n) (\<lambda>(_, st') s. running m st' k s \<and> st' = S_VERIFYING)"
proof (cases t0)
  case None
  then show ?thesis
    by (simp add: verification_round_def escalate_then_finish working_escapable [OF st])
next
  case (Some r0)
  have passed: "loop_ok env (\<lambda>s. running m S_VERIFYING k s \<and> grown (\<lambda>_. True) (gate_run T0 r0 @ gate_run T1 r1) s)
      (if gr_worktree_hash r1 \<noteq> gr_worktree_hash r0
       then bind (escalate env ''artifact_identity_mismatch'' (extra r1) S_VERIFYING) (\<lambda>st'. finish st' n)
       else if gr_pass r1 = GatePass
       then bind (move env T_gate_passed S_VERIFYING) (\<lambda>st2. bind (move env T_review st2) (\<lambda>st3.
          bind (emit_event env E_TASK_STATE [(''state'', VStr (state_name st3)), (''marker'', VStr ''awaiting_human_phase0'')])
            (\<lambda>_. ret (Inl \<lparr>lr_final = st3, lr_iterations = n, lr_awaiting_human = True, lr_report = Some r1\<rparr>))))
       else go_on (r1, S_VERIFYING)) (\<lambda>(_, st') s. running m st' k s \<and> st' = S_VERIFYING)" for r1 extra
    using t0 [OF Some]
    by (intro eff_ok_if move_grown [OF working_moves(2) [OF st]] move_grown [OF working_moves(3) [OF st]] reviewing_ok loop_ok_go_on
          eff_ok_weaken [OF escalate_then_finish]) auto
  show ?thesis
    unfolding verification_round_def Some
    by (simp, intro move_grown [OF working_moves(1) [OF st]] loop_ok_andThen [OF run_gate_grown] passed) simp
qed

text \<open>Probes may be run: the last call is a check answered yes, or a probe.\<close>

definition probing :: "ext_call list \<Rightarrow> bool" where
  "probing cs \<longleftrightarrow> last_call cs = Some (COwns True) \<or> (\<exists>c. last_call cs = Some (CProbe c))"

lemma probing_engine_free: "engine_free (\<lambda>s. running m st k s \<and> probing (sys_calls s))"
  by (auto simp: engine_free_def world_free_def probe_free_def running_def clean_def engine_events_def fenced_snoc probing_def
      last_call_def split: if_splits)

lemma runDiagnosis_ok:
  "eff_ok (\<lambda>s. running m st k s \<and> probing (sys_calls s)) (runDiagnosis env hs) (\<lambda>_. running m st k) clean"
proof (cases "le_engine env")
  case None
  have "eff_ok (running m st k) (runDiagnosis env hs) (\<lambda>_. running m st k) clean"
    unfolding runDiagnosis_def None by (auto intro!: emit_then eff_ok_ret)
  then show ?thesis by (rule eff_ok_weaken) simp_all
next
  case (Some d)
  from keepsD [OF evaluateHypotheses_keeps [OF probing_engine_free [of m st k]], where E = clean]
  show ?thesis unfolding runDiagnosis_def Some option.case
    by (rule eff_ok_weaken) (auto intro: running_clean)
qed

text \<open>Charging makes no call.\<close>

lemma chargeUsage_calls: "sys_calls (snd (chargeUsage env cost b st n s)) = sys_calls s"
  by (simp add: chargeUsage_def escalate_def move_def emit_event_def finish_def go_on_def eff_defs split: sum.split prod.split
      transition_result.split)

lemma silent_keeps_calls:
  assumes "loop_ok env P m R" "\<And>s. sys_calls (snd (m s)) = sys_calls s"
  shows "loop_ok env (\<lambda>s. P s \<and> A (sys_calls s)) m (\<lambda>a s. R a s \<and> A (sys_calls s))"
  unfolding eff_ok_def
proof (intro allI impI)
  fix s :: "'a sys"
  assume s: "P s \<and> A (sys_calls s)"
  obtain r s' where run: "m s = (r, s')" by fastforce
  have "sys_calls s' = sys_calls s" using assms(2) [of s] by (simp add: run)
  then show "case m s of (Inl _, s') \<Rightarrow> clean s' | (Inr a, s') \<Rightarrow> lpost env (\<lambda>a s. R a s \<and> A (sys_calls s)) a s'"
    using s eff_okD [OF assms(1), of s] eff_okE [OF assms(1), of s] run
    by (cases r) (auto simp: lpost_def split: sum.splits)
qed

lemma diagnosis_exhausted_ok:
  "escapable st \<Longrightarrow> loop_ok env (running m st k) (diagnosis_exhausted env r vs st n) R"
  unfolding diagnosis_exhausted_def emitBudgetExceeded_def
  by (intro eff_ok_bind [where R = "\<lambda>_. running m st k"] eff_ok_if escalate_then_finish eff_ok_ret
        ask_then running_emit eff_ok_weaken [OF running_get_budget]) simp_all

lemma running_budget_then:
  "(\<And>b. eff_ok (running m st k) (f b) Q E) \<Longrightarrow> eff_ok (running m st k) (bind get_budget f) Q E"
  by (rule eff_ok_bind [where R = "\<lambda>_. running m st k"]) (auto intro: eff_ok_weaken [OF running_get_budget])

lemma diagnosis_proposal_ok:
  "loop_ok env (running m S_DIAGNOSING k) (diagnosis_proposal env failure rejs S_DIAGNOSING n)
     (\<lambda>(st', _) s. running m st' k s \<and> st' \<in> working_states)"
proof -
  have repair: "transition S_DIAGNOSING T_repair = TrOk S_REPAIRING" by (simp add: transition_def)
  have judged: "loop_ok env (running m S_DIAGNOSING (Suc k))
      (case out of HypConfirmed h _ \<Rightarrow> bind (move env T_repair S_DIAGNOSING) (\<lambda>st4. go_on (st4, n', fb h))
       | HypExhausted reason vs \<Rightarrow> diagnosis_exhausted env reason vs S_DIAGNOSING n')
      (\<lambda>(st', _) s. running m st' k s \<and> st' \<in> working_states)" for out n' and fb :: "js_val \<Rightarrow> feedback"
    by (auto split: hyp_outcome.split simp: working_states_def
        intro!: move_then [OF repair] loop_ok_go_on diagnosis_exhausted_ok elim: running_mono)
  have owned: "loop_ok env (running m S_DIAGNOSING k) (requireOwnership env b S_DIAGNOSING n')
      (\<lambda>_ s. running m S_DIAGNOSING k s \<and> probing (sys_calls s))" for b n'
    by (rule eff_ok_weaken [OF requireOwnership_ok [OF escapable_simps(2)]])
       (auto simp: lpost_def owning_def probing_def split: sum.splits)
  have charged: "loop_ok env (\<lambda>s. running m S_DIAGNOSING k s \<and> probing (sys_calls s))
      (andThen (chargeUsage env cost b S_DIAGNOSING n') (\<lambda>_. bind (runDiagnosis env hs) (\<lambda>out.
         case out of HypConfirmed h _ \<Rightarrow> bind (move env T_repair S_DIAGNOSING) (\<lambda>st4. go_on (st4, n', fb h))
         | HypExhausted reason vs \<Rightarrow> diagnosis_exhausted env reason vs S_DIAGNOSING n')))
      (\<lambda>(st', _) s. running m st' k s \<and> st' \<in> working_states)" for cost b hs n' and fb :: "js_val \<Rightarrow> feedback"
    by (rule loop_ok_andThen [OF silent_keeps_calls [OF chargeUsage_ok [OF escapable_simps(2)] chargeUsage_calls]
          eff_ok_bind [OF runDiagnosis_ok judged]])
  show ?thesis
    unfolding diagnosis_proposal_def
    by (rule loop_ok_andThen [OF requireOwnership_ok eff_ok_bind [OF ask_source_ok loop_ok_andThen [OF owned charged]]]) simp
qed

lemma diagnosis_round_ok:
  assumes "st \<in> working_states \<or> st = S_VERIFYING"
  shows "loop_ok env (running m st k) (diagnosis_round env failure rejs st n)
     (\<lambda>(st', _) s. running m st' k s \<and> st' \<in> working_states)"
proof -
  have moves: "transition S_VERIFYING T_gate_failed = TrOk S_FAILED" "transition S_FAILED T_diagnose = TrOk S_DIAGNOSING"
    by (simp_all add: transition_def)
  have from_verifying: "loop_ok env (running m S_VERIFYING k)
      (bind (move env T_gate_failed S_VERIFYING) (\<lambda>st2. bind (move env T_diagnose st2) (\<lambda>st3.
       bind get_budget (\<lambda>b. if js_le (remaining b) (js_int 0)
        then bind (emitBudgetExceeded env CostUnits n) (\<lambda>_. bind (escalate env ''budget_exhausted'' [] st3) (\<lambda>st'. finish st' n))
        else diagnosis_proposal env failure rejs st3 n))))
      (\<lambda>(st', _) s. running m st' k s \<and> st' \<in> working_states)"
    unfolding emitBudgetExceeded_def
    by (intro move_then [OF moves(1)] move_then [OF moves(2)] running_budget_then eff_ok_if emit_then
          escalate_then_finish diagnosis_proposal_ok) simp_all
  show ?thesis
  proof (cases "st = S_VERIFYING")
    case True
    then show ?thesis using from_verifying by (simp add: diagnosis_round_def)
  next
    case False
    then have st: "st \<in> working_states" using assms by simp
    then have "(if st = S_IMPLEMENTING \<or> st = S_REPAIRING then move env T_verify st else ret st) = move env T_verify st"
      by (auto simp: working_states_def)
    then show ?thesis
      unfolding diagnosis_round_def
      by (simp only:) (rule move_then [OF working_moves(1) [OF st]], rule from_verifying)
  qed
qed

definition gated :: "task_state \<Rightarrow> gate_report option \<times> task_state \<Rightarrow> bool" where
  "gated st x \<longleftrightarrow> snd x = st \<or> fst x \<noteq> None \<and> snd x = S_VERIFYING"

lemma gated_simps [simp]: "gated st (x, st)" "gated st (Some r, S_VERIFYING)"
  by (simp_all add: gated_def)

lemma gate_stage_ok:
  assumes st: "st \<in> working_states"
  shows "loop_ok env (running m st k) (gate_stage env c st n) (\<lambda>x s. running m (snd x) k s \<and> gated st x)"
proof -
  note esc = working_escapable [OF st]
  let ?T0 = "\<lambda>t0. \<forall>r. t0 = Some r \<longrightarrow> le_role env = Implementer"
  let ?H = "\<lambda>t0 s. \<forall>r. t0 = Some r \<longrightarrow> grown (\<lambda>_. True) (gate_run T0 r) s"
  have t0: "loop_ok env (running m st k)
      (if le_role env = Implementer then andThen (run_gate env T0 st n) (\<lambda>r. go_on (Some r)) else go_on None)
      (\<lambda>t0 s. (running m st k s \<and> ?H t0 s) \<and> ?T0 t0)"
    by (auto intro!: loop_ok_go_on loop_ok_andThen [OF run_gate_ok [OF esc]])
  have verify: "loop_ok env (\<lambda>s. running m st k s \<and> ?H t0 s)
      (andThen (verification_round env t0 st n) (\<lambda>(r1, st1). go_on (Some r1, st1)))
      (\<lambda>x s. running m (snd x) k s \<and> gated st x)"
    if "?T0 t0" "\<And>r. t0 = Some r \<Longrightarrow> gr_pass r = GatePass" for t0
    using that
    by (intro loop_ok_andThen [OF verification_round_ok [OF st]]) (auto intro!: loop_ok_go_on)
  have rest: "loop_ok env (\<lambda>s. running m st k s \<and> ?H t0 s)
      (case t0 of
         Some r0 \<Rightarrow>
           if gr_pass r0 \<noteq> GatePass then go_on (Some r0, st)
           else if c = ReadyForVerification
           then andThen (verification_round env t0 st n) (\<lambda>(r1, st1). go_on (Some r1, st1))
           else go_on (None, st)
       | None \<Rightarrow>
           if c = ReadyForVerification
           then andThen (verification_round env t0 st n) (\<lambda>(r1, st1). go_on (Some r1, st1))
           else go_on (None, st))
      (\<lambda>x s. running m (snd x) k s \<and> gated st x)" if "?T0 t0" for t0
    using verify [of t0] that by (cases t0) (auto intro!: loop_ok_go_on)
  show ?thesis
    unfolding gate_stage_def by (rule loop_ok_andThen [OF t0]) (intro eff_ok_fact rest)
qed

lemma after_gates_ok:
  assumes st: "st \<in> working_states" and "k < m" and x: "gated st x"
  shows "loop_ok env (running m (snd x) (Suc k))
     (case x of (failure, st1) \<Rightarrow>
        case failure of
          Some r \<Rightarrow> diagnosis_round env r rejs st1 n
        | None \<Rightarrow> if b then bind (move env T_block st1) (\<lambda>st'. finish st' n) else go_on (st1, n, fb))
     (\<lambda>(st', _) s. running m st' (Suc k) s \<and> st' \<in> working_states \<and> k < m)"
proof (cases x)
  case (Pair failure st1)
  show ?thesis
  proof (cases failure)
    case (Some r)
    then have "st1 \<in> working_states \<or> st1 = S_VERIFYING" using assms Pair by (auto simp: gated_def)
    from diagnosis_round_ok [OF this] show ?thesis
      using Some Pair \<open>k < m\<close> by (auto elim!: eff_ok_weaken simp: lpost_def split: sum.splits)
  next
    case None
    then show ?thesis using assms Pair
      by (auto simp: gated_def stopped_states_def
          intro!: loop_ok_go_on move_then [OF escapable_moves(2) [OF working_escapable]] loop_ok_finish)
  qed
qed

lemma round_step_ok:
  assumes st: "st \<in> working_states"
  shows "loop_ok env (running m st k) (round_step env (st, n, fb))
     (\<lambda>(st', _) s. running m st' (Suc k) s \<and> st' \<in> working_states \<and> k < m)"
proof -
  note esc = working_escapable [OF st]
  have gates: "loop_ok env (running m st (Suc k))
      (andThen (gate_stage env (pp_claim p) st (Suc n)) (\<lambda>(failure, st1).
         case failure of
           Some r \<Rightarrow> diagnosis_round env r rejs st1 (Suc n)
         | None \<Rightarrow> if pp_claim p = ClaimBlocked then bind (move env T_block st1) (\<lambda>st'. finish st' (Suc n))
                   else go_on (st1, Suc n, fb')))
      (\<lambda>(st', _) s. running m st' (Suc k) s \<and> st' \<in> working_states \<and> k < m)" if "k < m" for p rejs fb'
    by (rule loop_ok_andThen [OF gate_stage_ok [OF st]])
       (intro eff_ok_fact after_gates_ok [OF st that])
  show ?thesis
    unfolding round_step_def prod.case
    by (intro loop_ok_andThen [OF steer_boundary_ok [OF st]] eff_ok_fact' eff_ok_bind [OF guidance_feedback_ok])
       (auto intro!: loop_ok_andThen [OF budget_boundary_ok [OF esc]] eff_ok_fact loop_ok_andThen [OF proposal_round_ok [OF esc]]
          loop_ok_andThen [OF run_actions_ok [OF esc]] gates)
qed

lemma loop_rounds_ok:
  assumes "st \<in> working_states"
  shows "eff_ok (running m st k) (loop_rounds fuel env (st, n, fb))
     (\<lambda>r s. case r of Some res \<Rightarrow> result_ok env res s | None \<Rightarrow> fuel + k \<le> m \<or> fuel = 0) clean"
  using assms
proof (induction fuel arbitrary: st k n fb)
  case 0
  then show ?case by (auto intro: eff_ok_ret)
next
  case (Suc fuel)
  have rest: "eff_ok (lpost env (\<lambda>(st', _) s. running m st' (Suc k) s \<and> st' \<in> working_states \<and> k < m) r)
      (case r of Inl res \<Rightarrow> ret (Some res) | Inr c' \<Rightarrow> loop_rounds fuel env c')
      (\<lambda>r s. case r of Some res \<Rightarrow> result_ok env res s | None \<Rightarrow> Suc fuel + k \<le> m \<or> Suc fuel = 0) clean" for r
  proof (cases r)
    case (Inl res)
    then show ?thesis by (auto intro!: eff_ok_ret simp: lpost_def)
  next
    case (Inr c)
    obtain st' n' fb' where c: "c = (st', n', fb')" by (cases c)
    have "eff_ok (\<lambda>s. running m st' (Suc k) s \<and> st' \<in> working_states \<and> k < m) (loop_rounds fuel env c)
        (\<lambda>r s. case r of Some res \<Rightarrow> result_ok env res s | None \<Rightarrow> Suc fuel + k \<le> m \<or> Suc fuel = 0) clean"
      unfolding c by (intro eff_ok_fact eff_ok_weaken [OF Suc.IH]) (auto split: option.splits)
    then show ?thesis by (simp add: Inr c lpost_def)
  qed
  show ?case
    by (simp, rule eff_ok_bind [OF round_step_ok [OF Suc.prems]]) (rule rest)
qed

section \<open>The whole loop\<close>

definition starting :: "nat \<Rightarrow> 'w sys \<Rightarrow> bool" where
  "starting m s \<longleftrightarrow> clean s \<and> bl_max_iterations (bt_limits (sys_budget s)) = m"

lemma first_move: "eff_ok (starting m) (move env T_analyze S_PROPOSED) (\<lambda>st' s. st' = S_ANALYZING \<and> running m S_ANALYZING 0 s) clean"
proof -
  have "transition S_PROPOSED T_analyze = TrOk S_ANALYZING" by (simp add: transition_def)
  then show ?thesis unfolding move_def emit_event_def
    by (simp, intro eff_ok_bind [OF eff_ok_log [where Q = "\<lambda>_. running m S_ANALYZING 0"]] eff_ok_ret)
       (simp_all add: starting_def running_def clean_def fields_get_def)
qed

lemma runTaskLoopWithLease_ok:
  "eff_ok (starting m) (runTaskLoopWithLease fuel env)
     (\<lambda>r s. case r of Some res \<Rightarrow> result_ok env res s | None \<Rightarrow> fuel \<le> m) clean"
proof -
  have moves: "transition S_ANALYZING T_ready = TrOk S_READY" "transition S_READY T_start_implementing = TrOk S_IMPLEMENTING"
    by (simp_all add: transition_def)
  have loop: "eff_ok (running m S_IMPLEMENTING 0) (loop_rounds fuel env (S_IMPLEMENTING, 0, FbNone))
     (\<lambda>r s. case r of Some res \<Rightarrow> result_ok env res s | None \<Rightarrow> fuel \<le> m) clean"
    by (rule eff_ok_weaken [OF loop_rounds_ok]) (auto simp: working_states_def split: option.splits)
  have start: "eff_ok (starting m) (ask g) (\<lambda>_. starting m) clean" for g :: "'a \<Rightarrow> unit \<times> 'a"
    by (rule eff_ok_ask) (simp add: starting_def clean_def)
  show ?thesis
    unfolding runTaskLoopWithLease_def
    by (rule eff_ok_bind [OF start eff_ok_bind [OF first_move]])
       (auto intro!: eff_ok_fact' move_then [OF moves(1)] move_then [OF moves(2)] loop)
qed

text \<open>Releasing the lease at the end changes nothing the loop is judged by.\<close>

lemma runTaskLoop_result:
  obtains w where "runTaskLoop fuel env s =
     (fst (runTaskLoopWithLease fuel env s), (snd (runTaskLoopWithLease fuel env s))\<lparr>sys_world := w\<rparr>)"
proof -
  have keep: "\<exists>w. snd ((if b then ret () else bind (ask f) (\<lambda>_. ask g)) t) = t\<lparr>sys_world := w\<rparr>"
    and fine: "\<exists>u. fst ((if b then ret () else bind (ask f) (\<lambda>_. ask g)) t) = Inr u"
    for b and f g :: "'a \<Rightarrow> unit \<times> 'a" and t
    by (auto simp: ret_def bind_def ask_def split: prod.splits) (metis sys.surjective sys.update_convs(1))
  obtain r t where rt: "runTaskLoopWithLease fuel env s = (r, t)" by (cases "runTaskLoopWithLease fuel env s")
  obtain u w where "(if le_keep_lease env then ret () else bind (ask (le_stop_heartbeat env)) (\<lambda>_. ask (le_release env))) t
      = (Inr u, t\<lparr>sys_world := w\<rparr>)"
    using keep fine by (metis surjective_pairing)
  then have "runTaskLoop fuel env s = (r, t\<lparr>sys_world := w\<rparr>)"
    by (cases r) (simp_all add: runTaskLoop_def attempt_def bind_def rt)
  then show ?thesis using that rt by simp
qed

lemma loop_rounds_more:
  "fst (loop_rounds fuel env c s) \<noteq> Inr None \<Longrightarrow> loop_rounds (fuel + d) env c s = loop_rounds fuel env c s"
proof (induction fuel arbitrary: c s)
  case 0
  then show ?case by (simp add: ret_def)
next
  case (Suc fuel)
  obtain r t where rt: "round_step env c s = (r, t)" by (cases "round_step env c s")
  show ?case
  proof (cases r)
    case (Inr x)
    then show ?thesis using Suc rt by (cases x) (auto simp: bind_def)
  qed (simp add: bind_def rt)
qed

lemma runTaskLoop_more:
  assumes "fst (runTaskLoopWithLease fuel env s) \<noteq> Inr None"
  shows "runTaskLoop (fuel + d) env s = runTaskLoop fuel env s"
proof -
  have "runTaskLoopWithLease (fuel + d) env s = runTaskLoopWithLease fuel env s"
    using assms by (auto simp: runTaskLoopWithLease_def bind_def loop_rounds_more split: prod.splits sum.splits)
  then show ?thesis by (simp add: runTaskLoop_def attempt_def bind_def)
qed

lemma enough_fuel:
  assumes "starting m s" "m < fuel"
  shows "case runTaskLoopWithLease fuel env s of
      (Inr (Some res), s') \<Rightarrow> result_ok env res s' | (Inr None, _) \<Rightarrow> False | (Inl _, s') \<Rightarrow> clean s'"
  using runTaskLoopWithLease_ok [of m fuel env, unfolded eff_ok_def, rule_format, OF assms(1)] assms(2)
  by (cases "runTaskLoopWithLease fuel env s") (simp split: sum.splits option.splits)

text \<open>C40: the task loop always ends. Whatever the agent proposes, the gates answer and the operator
  does, once every call to them returns, the loop returns a result or passes on what a call threw
  after at most as many rounds as the iteration cap of its budget: with more fuel than the cap it
  does not run out, and additional fuel changes nothing.\<close>

theorem task_loop_ends:
  assumes "no_illegal_move (sys_log s)" "sys_calls s = []"
    and "bl_max_iterations (bt_limits (sys_budget s)) < fuel"
  shows "fst (runTaskLoop fuel env s) \<noteq> Inr None \<and> runTaskLoop (fuel + d) env s = runTaskLoop fuel env s"
proof -
  have "starting (bl_max_iterations (bt_limits (sys_budget s))) s"
    using assms by (simp add: starting_def clean_def)
  from enough_fuel [OF this assms(3), of env]
  have "fst (runTaskLoopWithLease fuel env s) \<noteq> Inr None" by (auto split: prod.splits)
  moreover obtain w where "runTaskLoop fuel env s =
     (fst (runTaskLoopWithLease fuel env s), (snd (runTaskLoopWithLease fuel env s))\<lparr>sys_world := w\<rparr>)"
    by (rule runTaskLoop_result)
  ultimately show ?thesis using runTaskLoop_more [of fuel env s d] by (metis fst_conv)
qed

text \<open>C3: no claim of an agent moves a task forward. A loop ends in \<open>REVIEWING\<close> only for an
  implementer, only when the last things the core did were to run T0 and then T1, both passed and both
  judged the same worktree, and it then hands that T1 report to the human; every other end is \<open>ESCALATED\<close>, \<open>BLOCKED\<close> or \<open>CANCELLED\<close>,
  without a report. The final state is the one a replay of the event log shows.\<close>

theorem task_loop_result:
  assumes "no_illegal_move (sys_log s)" "sys_calls s = []"
    and "bl_max_iterations (bt_limits (sys_budget s)) < fuel"
    and "runTaskLoop fuel env s = (Inr (Some res), s')"
  shows "logged_state (sys_log s') = Some (VStr (state_name (lr_final res)))
    \<and> (if lr_final res = S_REVIEWING
       then le_role env = Implementer \<and> lr_awaiting_human res \<and>
         (\<exists>r0 r1. reviewed_by (sys_calls s') r0 r1 \<and> lr_report res = Some r1)
       else lr_final res \<in> {S_ESCALATED, S_BLOCKED, S_CANCELLED} \<and> \<not> lr_awaiting_human res \<and> lr_report res = None)"
proof -
  obtain w where w: "runTaskLoop fuel env s =
     (fst (runTaskLoopWithLease fuel env s), (snd (runTaskLoopWithLease fuel env s))\<lparr>sys_world := w\<rparr>)"
    by (rule runTaskLoop_result)
  have "starting (bl_max_iterations (bt_limits (sys_budget s))) s"
    using assms by (simp add: starting_def clean_def)
  from enough_fuel [OF this assms(3), of env] w assms(4)
  show ?thesis by (cases "runTaskLoopWithLease fuel env s") (auto simp: result_ok_def)
qed

text \<open>C6: a worker that lost its lease does nothing more. In every run, also one that ends in an
  exception, each proposal request, action and gate run is made right after a check that the lease is
  still held, with no other such call in between. The commands of a diagnosis are the one exception: the first of
  them is made right after such a check, the others follow it without another, and nothing but a new check comes
  between them and the next effect. And the loop never attempts a transition the state
  machine refuses.\<close>

theorem task_loop_is_fenced:
  assumes "no_illegal_move (sys_log s)" "sys_calls s = []"
    and "bl_max_iterations (bt_limits (sys_budget s)) < fuel"
  shows "fenced_from None (sys_calls (snd (runTaskLoop fuel env s)))
    \<and> no_illegal_move (sys_log (snd (runTaskLoop fuel env s)))"
proof -
  obtain w where w: "runTaskLoop fuel env s =
     (fst (runTaskLoopWithLease fuel env s), (snd (runTaskLoopWithLease fuel env s))\<lparr>sys_world := w\<rparr>)"
    by (rule runTaskLoop_result)
  have "starting (bl_max_iterations (bt_limits (sys_budget s))) s"
    using assms by (simp add: starting_def clean_def)
  from enough_fuel [OF this assms(3), of env] w
  show ?thesis
    by (cases "runTaskLoopWithLease fuel env s") (auto simp: result_ok_def clean_def split: sum.splits option.splits)
qed

section \<open>A concrete run\<close>

text \<open>An agent that is done at once, gates that pass, a lease that is never lost. The world is the
  number of calls made.\<close>

definition report_example :: "gate_tier \<Rightarrow> gate_report" where
  "report_example tier = \<lparr>gr_tier = tier, gr_pass = GatePass, gr_config_hash = [], gr_commit_hash = [],
     gr_worktree_hash = ''w'', gr_artifact_commit = None, gr_base_commit = None, gr_merged_commit = None,
     gr_env_hash = [], gr_checks = [], gr_scope_note = []\<rparr>"

definition loop_example :: "nat loop_env" where
  "loop_example =
     \<lparr>le_run = ''r'', le_task = ''t'', le_role = Implementer,
      le_propose = (\<lambda>_ w. (Inr \<lparr>pp_claim = ReadyForVerification, pp_actions = [ReadFile ''a'' ''p''], pp_hypotheses = [],
        pp_cost = vint 1, pp_error = None, pp_rejections = []\<rparr>, Suc w)),
      le_execute = (\<lambda>_ _ w. (Inr (Applied None None), Suc w)),
      le_gate = (\<lambda>tier w. (Inr (report_example tier), Suc w)),
      le_now = (\<lambda>w. (int w, w)), le_owns = (\<lambda>w. (True, w)), le_token = (\<lambda>w. (1, w)),
      le_start_heartbeat = (\<lambda>w. ((), w)), le_stop_heartbeat = (\<lambda>w. ((), w)), le_reacquire = (\<lambda>w. (True, w)),
      le_release = (\<lambda>w. ((), w)), le_keep_lease = False, le_control = None, le_guidance = (\<lambda>w. ([], w)),
      le_engine = None\<rparr>"

lemmas loop_eval = loop_example_def report_example_def sys_example_def runTaskLoop_def runTaskLoopWithLease_def
  round_step_def steer_boundary_def guidance_feedback_def budget_boundary_def proposal_round_def
  requireOwnership_def ask_source_def chargeUsage_def gate_stage_def run_gate_def verification_round_def
  move_def emit_event_def andThen_def go_on_def finish_def transition_def eff_defs createBudget_def emit_def
  snapshot_def exceeded_def remaining_def noteIteration_def addCostUnits_def js_sub_def js_simps

lemma andThen_weak_cong: "m = m' \<Longrightarrow> andThen m f = andThen m' f"
  by simp

lemma loop_rounds_11:
  "loop_rounds 11 env c = bind (round_step env c) (\<lambda>r.
     case r of Inl res \<Rightarrow> ret (Some res) | Inr c' \<Rightarrow> loop_rounds 10 env c')"
  using loop_rounds.simps(2) [of 10 env c] by simp

lemma loop_example_reviews:
  "\<exists>res s'. runTaskLoop (Suc 10) loop_example sys_example = (Inr (Some res), s') \<and> lr_final res = S_REVIEWING"
  by (simp add: loop_eval loop_rounds_11 cong: bind_weak_cong andThen_weak_cong)

lemma sys_example_facts:
  "no_illegal_move (sys_log sys_example)" "sys_calls sys_example = []"
  "bl_max_iterations (bt_limits (sys_budget sys_example)) < Suc 10"
  by (simp_all add: sys_example_def no_illegal_move_def createBudget_def emit_def)

theorem task_loop_ends_witness:
  "fst (runTaskLoop (Suc 10) loop_example sys_example) \<noteq> Inr None
   \<and> runTaskLoop (Suc 10 + 5) loop_example sys_example = runTaskLoop (Suc 10) loop_example sys_example"
  by (rule task_loop_ends [OF sys_example_facts])

theorem task_loop_result_witness:
  "\<exists>res s'. runTaskLoop (Suc 10) loop_example sys_example = (Inr (Some res), s')
     \<and> lr_report res \<noteq> None \<and> logged_state (sys_log s') = Some (VStr (state_name S_REVIEWING))"
proof -
  obtain res s' where run: "runTaskLoop (Suc 10) loop_example sys_example = (Inr (Some res), s')"
    and rev: "lr_final res = S_REVIEWING"
    using loop_example_reviews by blast
  from task_loop_result [OF sys_example_facts run] rev run show ?thesis by auto
qed

theorem task_loop_is_fenced_witness:
  "fenced_from None (sys_calls (snd (runTaskLoop (Suc 10) loop_example sys_example)))"
  using task_loop_is_fenced [OF sys_example_facts, of loop_example] by blast

end
