(* ===== verification/ArtifactBinding.thy ===== *)
theory ArtifactBinding
  imports Effects
begin

text \<open>
  Binding a signed gate report to immutable git objects (\<open>core/src/merge/artifact-binding.ts\<close>). The
  git binary and the report signer are arguments; every git command and its answer is recorded in
  the history. Errors are values: their callers catch them at once.
\<close>

section \<open>Errors, git and the signer\<close>

record thrown =
  th_code :: "string option"
  th_reason :: "string option"
  th_message :: string

text \<open>\<open>ReportIntegrityError\<close>.\<close>

definition integrityError :: "string \<Rightarrow> string \<Rightarrow> thrown" where
  "integrityError code msg =
     \<lparr>th_code = Some code,
      th_reason = Some (if code = ''evidence_blob_missing'' \<or> code = ''evidence_reference_missing''
                        then ''evidence_auth_unavailable'' else ''evidence_auth_mismatch''),
      th_message = msg\<rparr>"

record git_result =
  gx_ok :: bool
  gx_out :: string
  gx_err :: string

text \<open>The fields of a signed report, as \<open>{...report}\<close> copies them: absent fields are left out.\<close>

definition opt_field :: "string \<Rightarrow> ('a \<Rightarrow> js_val) \<Rightarrow> 'a option \<Rightarrow> payload" where
  "opt_field k f v = (case v of None \<Rightarrow> [] | Some x \<Rightarrow> [(k, f x)])"

definition check_val :: "gate_check \<Rightarrow> js_val" where
  "check_val c = VObj ([(''name'', VStr (gc_name c)), (''pass'', VBool (gc_pass c))]
     @ opt_field ''flakySuspect'' VBool (gc_flaky c) @ [(''evidenceRef'', VStr (gc_evidence_ref c))]
     @ opt_field ''detail'' VStr (gc_detail c) @ opt_field ''command'' VStr (gc_command c)
     @ opt_field ''outputTail'' VStr (gc_output_tail c))"

definition pass_val :: "gate_pass \<Rightarrow> js_val" where
  "pass_val p = (case p of GatePass \<Rightarrow> VBool True | GateFail \<Rightarrow> VBool False | GateNotEnabled \<Rightarrow> VStr ''not_enabled'')"

definition tier_val :: "gate_tier \<Rightarrow> js_val" where
  "tier_val t = VStr (case t of T0 \<Rightarrow> ''T0'' | T1 \<Rightarrow> ''T1'' | T2 \<Rightarrow> ''T2'' | T3 \<Rightarrow> ''T3'')"

definition report_payload :: "signed_report \<Rightarrow> payload" where
  "report_payload v = (let r = sg_report v in
     [(''tier'', tier_val (gr_tier r)), (''pass'', pass_val (gr_pass r)), (''gateConfigHash'', VStr (gr_config_hash r)),
      (''commitHash'', VStr (gr_commit_hash r)), (''worktreeHash'', VStr (gr_worktree_hash r))]
     @ opt_field ''artifactCommitHash'' VStr (gr_artifact_commit r) @ opt_field ''baseCommitHash'' VStr (gr_base_commit r)
     @ opt_field ''mergedCommitHash'' VStr (gr_merged_commit r)
     @ [(''envHash'', VStr (gr_env_hash r)), (''checks'', VArr (map check_val (gr_checks r))),
        (''scopeNote'', VStr (gr_scope_note r)), (''runId'', VStr (sg_run v)), (''taskId'', VStr (sg_task v)), (''auth'', sg_auth v)])"

record 'w git_env =
  gi_git :: "string \<Rightarrow> string list \<Rightarrow> 'w \<Rightarrow> git_result \<times> 'w"
  gi_verify :: "signed_report \<Rightarrow> 'w \<Rightarrow> (thrown + signed_report) \<times> 'w"
  gi_sign :: "gate_report \<Rightarrow> 'w \<Rightarrow> (thrown + signed_report) \<times> 'w"
  gi_repo :: string
  gi_task_branch :: string
  gi_main_branch :: string

definition git_run :: "'w git_env \<Rightarrow> string \<Rightarrow> string list \<Rightarrow> ('w, git_result) eff" where
  "git_run env cwd args =
     bind (ask (gi_git env cwd args)) (\<lambda>r.
     bind (record_call (CGit cwd args (gx_ok r) (gx_out r))) (\<lambda>_.
     ret r))"

type_synonym ('w, 'a) verdict_eff = "('w, thrown + 'a) eff"

text \<open>\<open>verify\<close> and \<open>sign\<close> of the signer, with what it was given and what it answered.\<close>

definition answer_of :: "'e + 'a \<Rightarrow> 'a option" where
  "answer_of r = (case r of Inl _ \<Rightarrow> None | Inr a \<Rightarrow> Some a)"

definition verify_report :: "'w git_env \<Rightarrow> signed_report \<Rightarrow> ('w, signed_report) verdict_eff" where
  "verify_report env report =
     bind (ask (gi_verify env report)) (\<lambda>r.
     bind (record_call (CVerify report (answer_of r))) (\<lambda>_.
     ret r))"

definition sign_report :: "'w git_env \<Rightarrow> gate_report \<Rightarrow> ('w, signed_report) verdict_eff" where
  "sign_report env report =
     bind (ask (gi_sign env report)) (\<lambda>r.
     bind (record_call (CSign report (answer_of r))) (\<lambda>_.
     ret r))"

text \<open>\<open>gitOut\<close> of the binding code: a failing command is a missing artifact.\<close>

definition gitOut :: "'w git_env \<Rightarrow> string list \<Rightarrow> ('w, string) verdict_eff" where
  "gitOut env args =
     bind (git_run env (gi_repo env) args) (\<lambda>r.
     if gx_ok r then vret (trim (gx_out r))
     else vthrow (integrityError ''artifact_identity_missing'' (''cannot resolve immutable Git artifact: '' @ gx_err r)))"

definition mismatch :: "string \<Rightarrow> ('w, 'a) verdict_eff" where
  "mismatch msg = vthrow (integrityError ''artifact_identity_mismatch'' msg)"

text \<open>\<open>s.split(/\s+/)\<close>.\<close>

fun ws_words :: "string \<Rightarrow> string \<Rightarrow> string list" where
  "ws_words w [] = [w]"
| "ws_words w [c] = (if is_ws c then [w, []] else [w @ [c]])"
| "ws_words w (c # d # cs) =
     (if is_ws c then (if is_ws d then ws_words w (d # cs) else w # ws_words [] (d # cs))
      else ws_words (w @ [c]) (d # cs))"

section \<open>The bindings\<close>

definition verifyMergeTopology :: "'w git_env \<Rightarrow> signed_report \<Rightarrow> string \<Rightarrow> ('w, unit) verdict_eff" where
  "verifyMergeTopology env verified mergeCommit =
     (case gr_artifact_commit (sg_report verified) of
        None \<Rightarrow> vthrow (integrityError ''artifact_identity_missing'' ''merge report is missing its task artifact commit'')
      | Some artifact \<Rightarrow>
          (case gr_base_commit (sg_report verified) of
             None \<Rightarrow> vthrow (integrityError ''artifact_identity_missing'' ''merge report is missing its signed base commit'')
           | Some base \<Rightarrow>
               vbind (gitOut env [''rev-list'', ''--parents'', ''-1'', mergeCommit]) (\<lambda>out.
               let parents = tl (ws_words [] out) in
               if parents = [] \<or> hd parents \<noteq> base
               then mismatch (''merge commit '' @ mergeCommit @ '' first parent ''
                      @ (case parents of [] \<Rightarrow> ''undefined'' | p # _ \<Rightarrow> p) @ '' does not match signed base commit '' @ base)
               else if artifact \<notin> set (tl parents)
               then mismatch (''merge commit '' @ mergeCommit @ '' does not contain signed task parent '' @ artifact)
               else vret ())))"

definition bindGateReportToTaskArtifact :: "'w git_env \<Rightarrow> signed_report \<Rightarrow> ('w, signed_report) verdict_eff" where
  "bindGateReportToTaskArtifact env report =
     vbind (verify_report env report) (\<lambda>verified.
     vbind (gitOut env [''rev-parse'', gi_task_branch env]) (\<lambda>taskCommit.
     vbind (gitOut env [''rev-parse'', gi_main_branch env]) (\<lambda>baseCommit.
     vbind (gitOut env [''rev-parse'', taskCommit @ ''^{tree}'']) (\<lambda>taskTree.
     let r = sg_report verified in
     if taskTree \<noteq> gr_worktree_hash r
     then mismatch (''signed worktree '' @ gr_worktree_hash r @ '' does not match task commit '' @ taskCommit @ '' tree '' @ taskTree)
     else if gr_artifact_commit r \<noteq> None \<and> gr_artifact_commit r \<noteq> Some taskCommit
     then mismatch (''signed task commit '' @ the (gr_artifact_commit r) @ '' does not match current '' @ gi_task_branch env @ '' tip '' @ taskCommit)
     else if gr_base_commit r \<noteq> None \<and> gr_base_commit r \<noteq> Some baseCommit
     then mismatch (''signed base commit '' @ the (gr_base_commit r) @ '' does not match current '' @ gi_main_branch env @ '' tip '' @ baseCommit)
     else if gr_artifact_commit r = Some taskCommit \<and> gr_base_commit r = Some baseCommit
     then vret verified
     else sign_report env (r\<lparr>gr_artifact_commit := Some taskCommit, gr_base_commit := Some baseCommit\<rparr>)))))"

definition non_empty :: "string option \<Rightarrow> string option" where
  "non_empty v = (case v of Some s \<Rightarrow> if s = [] then None else Some s | None \<Rightarrow> None)"

definition verifyTaskArtifactBinding :: "'w git_env \<Rightarrow> signed_report \<Rightarrow> ('w, signed_report) verdict_eff" where
  "verifyTaskArtifactBinding env report =
     vbind (verify_report env report) (\<lambda>verified.
     case non_empty (gr_artifact_commit (sg_report verified)) of
       None \<Rightarrow> vthrow (integrityError ''artifact_identity_missing'' ''gate report is not bound to an immutable task commit'')
     | Some artifact \<Rightarrow>
         (case non_empty (gr_base_commit (sg_report verified)) of
            None \<Rightarrow> vthrow (integrityError ''artifact_identity_missing'' ''gate report is not bound to an immutable target base commit'')
          | Some base \<Rightarrow>
              vbind (gitOut env [''cat-file'', ''-e'', base @ ''^{commit}'']) (\<lambda>_.
              vbind (gitOut env [''rev-parse'', gi_main_branch env]) (\<lambda>currentBase.
              if currentBase \<noteq> base
              then mismatch (''current '' @ gi_main_branch env @ '' tip '' @ currentBase @ '' does not match signed base commit '' @ base)
              else
                vbind (gitOut env [''rev-parse'', gi_task_branch env]) (\<lambda>currentTip.
                if currentTip \<noteq> artifact
                then mismatch (''current '' @ gi_task_branch env @ '' tip '' @ currentTip @ '' does not match signed task commit '' @ artifact)
                else
                  vbind (gitOut env [''rev-parse'', artifact @ ''^{tree}'']) (\<lambda>taskTree.
                  if taskTree \<noteq> gr_worktree_hash (sg_report verified)
                  then mismatch (''signed task commit '' @ artifact @ '' tree '' @ taskTree @ '' does not match gated tree ''
                         @ gr_worktree_hash (sg_report verified))
                  else vret verified))))))"

definition bindGateReportToMerge :: "'w git_env \<Rightarrow> signed_report \<Rightarrow> string \<Rightarrow> ('w, signed_report) verdict_eff" where
  "bindGateReportToMerge env report mergeCommit =
     vbind (verify_report env report) (\<lambda>verified.
     if gr_artifact_commit (sg_report verified) = None
     then vthrow (integrityError ''artifact_identity_missing'' ''cannot bind merge without a task artifact commit'')
     else
       vbind (verifyMergeTopology env verified mergeCommit) (\<lambda>_.
       sign_report env ((sg_report verified)\<lparr>gr_merged_commit := Some mergeCommit\<rparr>)))"

definition verifyMergedArtifactBinding ::
    "'w git_env \<Rightarrow> signed_report \<Rightarrow> string \<Rightarrow> string option \<Rightarrow> ('w, signed_report) verdict_eff" where
  "verifyMergedArtifactBinding env report expected requireRef =
     vbind (verify_report env report) (\<lambda>verified.
     let r = sg_report verified in
     if gr_merged_commit r \<noteq> Some expected
     then vthrow (integrityError
            (if gr_merged_commit r = None then ''artifact_identity_missing'' else ''artifact_identity_mismatch'')
            (''signed merge commit '' @ (case gr_merged_commit r of Some c \<Rightarrow> c | None \<Rightarrow> ''undefined'')
             @ '' does not match expected '' @ expected))
     else
       (case gr_artifact_commit r of
          None \<Rightarrow> vthrow (integrityError ''artifact_identity_missing'' ''final report is missing its task artifact commit'')
        | Some artifact \<Rightarrow>
            vbind (gitOut env [''rev-parse'', artifact @ ''^{tree}'']) (\<lambda>taskTree.
            if taskTree \<noteq> gr_worktree_hash r
            then mismatch (''signed task commit '' @ artifact @ '' tree '' @ taskTree @ '' does not match gated tree '' @ gr_worktree_hash r)
            else
              vbind (verifyMergeTopology env verified expected) (\<lambda>_.
              case requireRef of
                None \<Rightarrow> vret verified
              | Some ref \<Rightarrow>
                  vbind (gitOut env [''rev-parse'', ref]) (\<lambda>current.
                  if current \<noteq> expected
                  then mismatch (''current '' @ ref @ '' tip '' @ current @ '' does not match signed merge commit '' @ expected)
                  else vret verified)))))"

section \<open>What the bindings have read\<close>

definition read_only :: "string list \<Rightarrow> bool" where
  "read_only args \<longleftrightarrow> args \<noteq> [] \<and> hd args \<in> {''rev-parse'', ''rev-list'', ''cat-file''}"

fun reading :: "ext_call \<Rightarrow> bool" where
  "reading (CGit _ args _ _) = read_only args"
| "reading (CVerify _ _) = True"
| "reading (CSign _ _) = True"
| "reading _ = False"

text \<open>What the history shows: an answer of git, a report that verified (as what it verified to), a report that was
  signed (as what came back).\<close>

datatype binding_fact =
    Said "string list" string
  | Verified signed_report signed_report
  | Signed gate_report signed_report

fun holds :: "'w git_env \<Rightarrow> ext_call list \<Rightarrow> binding_fact \<Rightarrow> bool" where
  "holds env cs (Said args ans) = (\<exists>out. CGit (gi_repo env) args True out \<in> set cs \<and> trim out = ans)"
| "holds env cs (Verified r v) = (CVerify r (Some v) \<in> set cs)"
| "holds env cs (Signed r v) = (CSign r (Some v) \<in> set cs)"

lemma holds_mono: "holds env cs f \<Longrightarrow> set cs \<subseteq> set ds \<Longrightarrow> holds env ds f"
  by (cases f) auto

text \<open>Since the history \<open>c0\<close> only reads were made, and they showed these facts.\<close>

definition knows :: "'w git_env \<Rightarrow> ext_call list \<Rightarrow> binding_fact list \<Rightarrow> 'w sys \<Rightarrow> bool" where
  "knows env c0 L s \<longleftrightarrow> (\<exists>new. sys_calls s = c0 @ new \<and> list_all reading new \<and> (\<forall>f \<in> set L. holds env new f))"

lemma knows_weaken: "knows env c0 L s \<Longrightarrow> set L' \<subseteq> set L \<Longrightarrow> knows env c0 L' s"
  unfolding knows_def by blast

lemma knows_start: "knows env (sys_calls s) [] s"
  by (simp add: knows_def)

lemma knows_ask: "eff_ok (knows env c0 L) (ask g) (\<lambda>_. knows env c0 L) E"
  by (rule eff_ok_ask) (simp add: knows_def)

lemma knows_grow:
  assumes "knows env c0 L s" "reading c" "\<forall>f \<in> set L'. f \<in> set L \<or> holds env [c] f"
  shows "knows env c0 L' (s\<lparr>sys_calls := sys_calls s @ [c]\<rparr>)"
proof -
  obtain new where new: "sys_calls s = c0 @ new" "list_all reading new" "\<forall>f \<in> set L. holds env new f"
    using assms(1) unfolding knows_def by blast
  have "holds env (new @ [c]) f" if "f \<in> set L'" for f
    using assms(3) new(3) that holds_mono [of env new f "new @ [c]"] holds_mono [of env "[c]" f "new @ [c]"] by auto
  then show ?thesis unfolding knows_def using new assms(2) by (intro exI [of _ "new @ [c]"]) auto
qed

lemma gitOut_knows:
  assumes "read_only args"
  shows "eff_ok (knows env c0 L) (gitOut env args)
     (\<lambda>r s. case r of Inl _ \<Rightarrow> knows env c0 L s | Inr a \<Rightarrow> knows env c0 (Said args a # L) s) E"
proof -
  have "eff_ok (knows env c0 L) (git_run env (gi_repo env) args)
     (\<lambda>r s. knows env c0 L s \<and> (gx_ok r \<longrightarrow> knows env c0 (Said args (trim (gx_out r)) # L) s)) E"
    unfolding git_run_def
    by (intro eff_ok_bind [OF knows_ask] eff_ok_bind [OF eff_ok_record_call] eff_ok_ret)
       (auto intro!: knows_grow simp: assms)
  then show ?thesis
    unfolding gitOut_def
    by (rule eff_ok_bind) (auto intro!: eff_ok_if eff_ok_vret eff_ok_vthrow simp: eff_ok_def vret_def vthrow_def ret_def)
qed

text \<open>The shape of all four: errors keep what is known, success adds to it.\<close>

definition vknows :: "'w git_env \<Rightarrow> ext_call list \<Rightarrow> binding_fact list \<Rightarrow>
    ('a \<Rightarrow> 'w sys \<Rightarrow> bool) \<Rightarrow> thrown + 'a \<Rightarrow> 'w sys \<Rightarrow> bool" where
  "vknows env c0 L R r s = (case r of Inl _ \<Rightarrow> knows env c0 L s | Inr a \<Rightarrow> R a s)"

lemma vknows_simps [simp]: "vknows env c0 L R (Inl e) = knows env c0 L" "vknows env c0 L R (Inr a) = R a"
  by (simp_all add: fun_eq_iff vknows_def)

lemma vknows_then:
  assumes "eff_ok P m (vknows env c0 L R) E" "\<And>a. eff_ok (R a) (f a) (vknows env c0 L Q) E"
  shows "eff_ok P (vbind m f) (vknows env c0 L Q) E"
  by (rule eff_ok_vbind [OF eff_ok_weaken [OF assms(1)] assms(2)]) (auto simp: vknows_def split: sum.splits)

lemma vknows_git:
  assumes "read_only args" "set L \<subseteq> set L'"
  shows "eff_ok (knows env c0 L') (gitOut env args) (vknows env c0 L (\<lambda>a. knows env c0 (Said args a # L'))) E"
  by (rule eff_ok_weaken [OF gitOut_knows [OF assms(1), where L = L']])
     (use assms(2) in \<open>auto simp: vknows_def split: sum.splits elim: knows_weaken\<close>)

lemma vknows_ask:
  "set L \<subseteq> set L' \<Longrightarrow> eff_ok (knows env c0 L') (ask g) (vknows env c0 L (\<lambda>_. knows env c0 L')) E"
  by (rule eff_ok_weaken [OF knows_ask]) (auto simp: vknows_def split: sum.splits elim: knows_weaken)

lemma vknows_verify:
  "set L \<subseteq> set L' \<Longrightarrow> eff_ok (knows env c0 L') (verify_report env r) (vknows env c0 L (\<lambda>v. knows env c0 (Verified r v # L'))) E"
  unfolding verify_report_def
proof (rule eff_ok_bind [OF knows_ask])
  fix a
  assume "set L \<subseteq> set L'"
  then show "eff_ok (knows env c0 L') (bind (record_call (CVerify r (answer_of a))) (\<lambda>_. ret a))
      (vknows env c0 L (\<lambda>v. knows env c0 (Verified r v # L'))) E"
    by (cases a) (auto simp: eff_ok_def eff_defs answer_of_def intro!: knows_grow)
qed

lemma vknows_sign:
  "set L \<subseteq> set L' \<Longrightarrow> eff_ok (knows env c0 L') (sign_report env r) (vknows env c0 L (\<lambda>v. knows env c0 (Signed r v # L'))) E"
  unfolding sign_report_def
proof (rule eff_ok_bind [OF knows_ask])
  fix a
  assume "set L \<subseteq> set L'"
  then show "eff_ok (knows env c0 L') (bind (record_call (CSign r (answer_of a))) (\<lambda>_. ret a))
      (vknows env c0 L (\<lambda>v. knows env c0 (Signed r v # L'))) E"
    by (cases a) (auto simp: eff_ok_def eff_defs answer_of_def intro!: knows_grow)
qed

lemma vknows_throw: "set L \<subseteq> set L' \<Longrightarrow> eff_ok (knows env c0 L') (vthrow e) (vknows env c0 L R) E"
  by (rule eff_ok_vthrow) (auto elim: knows_weaken)

lemma vknows_mismatch: "set L \<subseteq> set L' \<Longrightarrow> eff_ok (knows env c0 L') (mismatch e) (vknows env c0 L R) E"
  unfolding mismatch_def by (rule vknows_throw)

lemma vknows_ret: "(\<And>s. P s \<Longrightarrow> R a s) \<Longrightarrow> eff_ok P (vret a) (vknows env c0 L R) E"
  by (rule eff_ok_vret) simp

lemmas vknows_rules = vknows_then [OF vknows_git] vknows_then [OF vknows_verify] vknows_then [OF vknows_sign] vknows_throw vknows_mismatch
  vknows_git vknows_verify vknows_sign vknows_ret

lemma read_only_simps [simp]:
  "read_only (''rev-parse'' # q)" "read_only (''rev-list'' # q)" "read_only (''cat-file'' # q)"
  by (simp_all add: read_only_def)

definition tip_query :: "string \<Rightarrow> string list" where
  "tip_query ref = [''rev-parse'', ref]"

definition tree_query :: "string \<Rightarrow> string list" where
  "tree_query c = [''rev-parse'', c @ ''^{tree}'']"

definition parents_query :: "string \<Rightarrow> string list" where
  "parents_query c = [''rev-list'', ''--parents'', ''-1'', c]"

text \<open>The report verified; the gated tree is the tree of the task commit, which is the tip of the task branch, and the
  signed base is a commit, the tip of the main branch.\<close>

definition task_facts :: "'w git_env \<Rightarrow> signed_report \<Rightarrow> signed_report \<Rightarrow> string \<Rightarrow> string \<Rightarrow> string \<Rightarrow> binding_fact list" where
  "task_facts env report v a b out =
     [Said (tree_query a) (gr_worktree_hash (sg_report v)), Said (tip_query (gi_task_branch env)) a,
      Said (tip_query (gi_main_branch env)) b, Said [''cat-file'', ''-e'', b @ ''^{commit}''] out, Verified report v]"

definition task_bound :: "'w git_env \<Rightarrow> ext_call list \<Rightarrow> signed_report \<Rightarrow> signed_report \<Rightarrow> 'w sys \<Rightarrow> bool" where
  "task_bound env c0 report v s \<longleftrightarrow> (\<exists>a b out. a \<noteq> [] \<and> b \<noteq> []
     \<and> gr_artifact_commit (sg_report v) = Some a \<and> gr_base_commit (sg_report v) = Some b
     \<and> knows env c0 (task_facts env report v a b out) s)"

lemma non_empty_Some: "non_empty x = Some a \<longleftrightarrow> x = Some a \<and> a \<noteq> []"
  by (auto simp: non_empty_def split: option.splits)

lemma verifyTaskArtifactBinding_ok:
  "eff_ok (knows env c0 []) (verifyTaskArtifactBinding env report) (vknows env c0 [] (task_bound env c0 report)) E"
  unfolding verifyTaskArtifactBinding_def
  by (auto intro!: vknows_rules eff_ok_if split: option.split
      simp: task_bound_def task_facts_def tip_query_def tree_query_def non_empty_Some)

text \<open>The merge commit joins the signed base, as first parent, with the gated task commit.\<close>

definition joins :: "string \<Rightarrow> gate_report \<Rightarrow> bool" where
  "joins out r \<longleftrightarrow> (\<exists>a b ps. gr_artifact_commit r = Some a \<and> gr_base_commit r = Some b
     \<and> tl (ws_words [] out) = b # ps \<and> a \<in> set ps)"

lemma verifyMergeTopology_ok:
  "set L \<subseteq> set L' \<Longrightarrow> eff_ok (knows env c0 L') (verifyMergeTopology env v c)
     (vknows env c0 L (\<lambda>_ s. \<exists>out. joins out (sg_report v) \<and> knows env c0 (Said (parents_query c) out # L') s)) E"
  unfolding verifyMergeTopology_def
  by (auto intro!: vknows_rules eff_ok_if simp: Let_def joins_def parents_query_def neq_Nil_conv split: option.split list.split)
     (metis list.collapse)+

text \<open>A report \<open>m\<close> bound to the merge \<open>c\<close>: what \<open>report\<close> verified to, with the merge commit added once its parents had been
  read, and signed.\<close>

definition merge_signed ::
    "'w git_env \<Rightarrow> ext_call list \<Rightarrow> signed_report \<Rightarrow> string \<Rightarrow> signed_report \<Rightarrow> 'w sys \<Rightarrow> bool" where
  "merge_signed env c0 report c m s \<longleftrightarrow> (\<exists>u out. joins out (sg_report u)
     \<and> knows env c0 [Signed ((sg_report u)\<lparr>gr_merged_commit := Some c\<rparr>) m, Said (parents_query c) out, Verified report u] s)"

lemma bindGateReportToMerge_ok:
  "eff_ok (knows env c0 []) (bindGateReportToMerge env report c) (vknows env c0 [] (merge_signed env c0 report c)) E"
proof -
  have sign: "eff_ok (\<lambda>s. \<exists>out. joins out (sg_report u) \<and> knows env c0 [Said (parents_query c) out, Verified report u] s)
      (sign_report env ((sg_report u)\<lparr>gr_merged_commit := Some c\<rparr>)) (vknows env c0 [] (merge_signed env c0 report c)) E" for u
    by (intro eff_ok_ex eff_ok_fact' eff_ok_weaken [OF vknows_sign [where L = "[]"]])
       (auto simp: merge_signed_def vknows_def split: sum.splits)
  show ?thesis
    unfolding bindGateReportToMerge_def
    by (rule vknows_then [OF vknows_verify]) (auto intro!: eff_ok_if vknows_throw vknows_then [OF verifyMergeTopology_ok sign])
qed

text \<open>The report \<open>m\<close> verified as one for the merge \<open>c\<close>, of the signed base with the gated commit; \<open>c\<close> is the tip of
  \<open>ref\<close>, where one is required.\<close>

definition tip_facts :: "string option \<Rightarrow> string \<Rightarrow> binding_fact list" where
  "tip_facts ref c = (case ref of Some r \<Rightarrow> [Said (tip_query r) c] | None \<Rightarrow> [])"

definition merge_bound ::
    "'w git_env \<Rightarrow> ext_call list \<Rightarrow> string \<Rightarrow> string option \<Rightarrow> signed_report \<Rightarrow> signed_report \<Rightarrow> 'w sys \<Rightarrow> bool" where
  "merge_bound env c0 c ref m v s \<longleftrightarrow> (\<exists>a out. gr_merged_commit (sg_report v) = Some c \<and> gr_artifact_commit (sg_report v) = Some a
     \<and> joins out (sg_report v)
     \<and> knows env c0 (tip_facts ref c @ [Said (parents_query c) out, Said (tree_query a) (gr_worktree_hash (sg_report v)), Verified m v]) s)"

lemma verifyMergedArtifactBinding_ok:
  "eff_ok (knows env c0 []) (verifyMergedArtifactBinding env m c ref) (vknows env c0 [] (merge_bound env c0 c ref m)) E"
proof -
  have last: "eff_ok (knows env c0 [Said (parents_query c) out, Said (tree_query a) (gr_worktree_hash (sg_report v)), Verified m v])
      (case ref of None \<Rightarrow> vret v | Some ref' \<Rightarrow> vbind (gitOut env [''rev-parse'', ref']) (\<lambda>current.
         if current \<noteq> c then mismatch (msg current ref') else vret v))
      (vknows env c0 [] (merge_bound env c0 c ref m)) E"
    if "gr_merged_commit (sg_report v) = Some c" "gr_artifact_commit (sg_report v) = Some a" "joins out (sg_report v)" for v a out msg
    using that by (cases ref) (auto intro!: vknows_rules eff_ok_if simp: merge_bound_def tip_facts_def tip_query_def)
  have rest: "eff_ok (knows env c0 [Said [''rev-parse'', a @ ''^{tree}''] (gr_worktree_hash (sg_report v)), Verified m v])
      (vbind (verifyMergeTopology env v c) (\<lambda>_. case ref of None \<Rightarrow> vret v | Some ref' \<Rightarrow>
         vbind (gitOut env [''rev-parse'', ref']) (\<lambda>current. if current \<noteq> c then mismatch (msg current ref') else vret v)))
      (vknows env c0 [] (merge_bound env c0 c ref m)) E"
    if "gr_merged_commit (sg_report v) = Some c" "gr_artifact_commit (sg_report v) = Some a" for v a msg
    by (rule vknows_then [OF verifyMergeTopology_ok])
       (auto intro!: eff_ok_ex eff_ok_fact' last [OF that, unfolded tree_query_def])
  have one: "eff_ok (knows env c0 [Verified m v])
      (case gr_artifact_commit (sg_report v) of
          None \<Rightarrow> vthrow e
        | Some artifact \<Rightarrow>
            vbind (gitOut env [''rev-parse'', artifact @ ''^{tree}'']) (\<lambda>taskTree.
            if taskTree \<noteq> gr_worktree_hash (sg_report v) then mismatch (m1 artifact taskTree)
            else
              vbind (verifyMergeTopology env v c) (\<lambda>_.
              case ref of
                None \<Rightarrow> vret v
              | Some ref' \<Rightarrow>
                  vbind (gitOut env [''rev-parse'', ref']) (\<lambda>current.
                  if current \<noteq> c then mismatch (m2 current ref') else vret v))))
      (vknows env c0 [] (merge_bound env c0 c ref m)) E"
    if "gr_merged_commit (sg_report v) = Some c" for v e m1 m2
  proof (cases "gr_artifact_commit (sg_report v)")
    case (Some a)
    show ?thesis unfolding Some option.case
      by (rule vknows_then [OF vknows_git]) (simp_all add: rest [OF that Some] vknows_mismatch)
  qed (simp add: vknows_throw)
  show ?thesis
    unfolding verifyMergedArtifactBinding_def Let_def
    by (intro vknows_then [OF vknows_verify] eff_ok_if vknows_throw one) simp_all
qed

end
