(* ===== verification/MergeQueue.thy ===== *)
theory MergeQueue
  imports ArtifactBinding Lease
begin

text \<open>
  The gated merge queue (\<open>core/src/merge/queue.ts\<close>): one candidate at a time under the lease
  \<open>merge-queue\<close>, T2 on the merged tree in an integration worktree, and the main branch moved by a
  compare-and-swap on the signed base. Git, the signer and the gate runner are arguments; the lease is
  the one of \<open>Lease\<close>, in the database the world carries.
\<close>

section \<open>The code\<close>

definition MERGE_QUEUE_LEASE_KEY :: string where
  "MERGE_QUEUE_LEASE_KEY = ''merge-queue''"

definition MERGE_QUEUE_LEASE_TTL_MS :: js_num where
  "MERGE_QUEUE_LEASE_TTL_MS = js_int 600000"

datatype approval_basis = BasisAuto | BasisHuman

fun basis_name :: "approval_basis \<Rightarrow> string" where
  "basis_name BasisAuto = ''auto_approved''"
| "basis_name BasisHuman = ''human_approved''"

datatype queue_outcome = QMerged | QRejectedT2 | QMergeConflict | QEvidenceInvalid

record queue_result =
  qr_outcome :: queue_outcome
  qr_commit :: "string option"
  qr_report :: "gate_report option"
  qr_attribution :: string

text \<open>\<open>mq_db\<close> and \<open>mq_set_db\<close> are the database the lease manager and the queue share with the rest
  of the world; \<open>mq_exists\<close> is the file-system test of the integration worktree.\<close>

record 'w queue_env =
  mq_run :: string
  mq_git :: "'w git_env"
  mq_worktree :: string
  mq_exists :: "string \<Rightarrow> 'w \<Rightarrow> bool \<times> 'w"
  mq_gate :: "'w \<Rightarrow> (thrown + gate_report) \<times> 'w"
  mq_now :: "'w \<Rightarrow> int"
  mq_db :: "'w \<Rightarrow> db"
  mq_set_db :: "db \<Rightarrow> 'w \<Rightarrow> 'w"

definition queue_claim :: "'w queue_env \<Rightarrow> string \<Rightarrow> 'w \<Rightarrow> bool \<times> 'w" where
  "queue_claim env owner w =
     (let (ok, d) = claim (mq_run env) (mq_now env w) (mq_now env w) MERGE_QUEUE_LEASE_KEY owner MERGE_QUEUE_LEASE_TTL_MS (mq_db env w)
      in (ok, mq_set_db env d w))"

definition queue_release :: "'w queue_env \<Rightarrow> string \<Rightarrow> 'w \<Rightarrow> unit \<times> 'w" where
  "queue_release env owner w =
     ((), mq_set_db env (release (mq_run env) (mq_now env w) MERGE_QUEUE_LEASE_KEY owner (mq_db env w)) w)"

definition auth_why :: "thrown \<Rightarrow> string" where
  "auth_why e =
     (case th_reason e of
        Some r \<Rightarrow> if r = ''evidence_auth_unavailable'' \<or> r = ''evidence_auth_mismatch'' then r else ''evidence_auth_mismatch''
      | None \<Rightarrow> ''evidence_auth_mismatch'')"

text \<open>The payload of an evidence failure, the same in the queue and in the merge engine.\<close>

definition evidenceAuthFailure :: "thrown \<Rightarrow> string \<Rightarrow> payload" where
  "evidenceAuthFailure e boundary =
     [(''why'', VStr (auth_why e)), (''boundary'', VStr boundary),
      (''code'', VStr (case th_code e of Some c \<Rightarrow> c | None \<Rightarrow> ''evidence_auth_failed'')),
      (''detail'', VStr (th_message e))]"

definition queue_event :: "'w queue_env \<Rightarrow> string \<Rightarrow> event_type \<Rightarrow> payload \<Rightarrow> ('w, unit) eff" where
  "queue_event env task ty pl = log_event \<lparr>ne_run = mq_run env, ne_task = Some task, ne_type = ty, ne_payload = pl\<rparr>"

definition evidenceInvalid :: "'w queue_env \<Rightarrow> string \<Rightarrow> thrown \<Rightarrow> string \<Rightarrow> ('w, queue_result) eff" where
  "evidenceInvalid env task e boundary =
     bind (queue_event env task E_ESCALATED (evidenceAuthFailure e boundary)) (\<lambda>_.
     ret \<lparr>qr_outcome = QEvidenceInvalid, qr_commit = None, qr_report = None, qr_attribution = task\<rparr>)"

text \<open>\<open>gitOut\<close> of the queue: a failing command throws, and nothing in the queue catches it.\<close>

definition queue_git :: "'w queue_env \<Rightarrow> string \<Rightarrow> string list \<Rightarrow> ('w, string) eff" where
  "queue_git env cwd args =
     bind (git_run (mq_git env) cwd args) (\<lambda>r. if gx_ok r then ret (trim (gx_out r)) else raise (gx_err r))"

definition ensureWorktreeAtMainHead :: "'w queue_env \<Rightarrow> ('w, string) eff" where
  "ensureWorktreeAtMainHead env =
     (let g = mq_git env; wt = mq_worktree env in
      bind (ask (mq_exists env (wt @ ''/.git''))) (\<lambda>there.
      if \<not> there
      then raise (''merge queue: integration worktree not set up at '' @ wt @ '' (expected `git worktree add` ahead of time)'')
      else
        bind (queue_git env (gi_repo g) [''rev-parse'', gi_main_branch g]) (\<lambda>mainHead.
        bind (git_run g wt [''reset'', ''--hard'', mainHead]) (\<lambda>_.
        bind (git_run g wt [''clean'', ''-fdx'']) (\<lambda>_.
        bind (queue_git env wt [''status'', ''--porcelain'']) (\<lambda>status.
        if status \<noteq> [] then raise (''merge queue: integration worktree not clean after reset: '' @ status)
        else ret mainHead))))))"

definition update_main_args :: "'w git_env \<Rightarrow> string \<Rightarrow> string \<Rightarrow> string list" where
  "update_main_args g new old = [''update-ref'', ''refs/heads/'' @ gi_main_branch g, new, old]"

definition opt_text :: "string option \<Rightarrow> string" where
  "opt_text v = (case v of Some s \<Rightarrow> s | None \<Rightarrow> ''undefined'')"

definition base_of :: "signed_report \<Rightarrow> string" where
  "base_of r = opt_text (gr_base_commit (sg_report r))"

definition artifact_of :: "signed_report \<Rightarrow> string" where
  "artifact_of r = opt_text (gr_artifact_commit (sg_report r))"

text \<open>The gate runner's T2 report, recorded in the history.\<close>

definition queue_gate :: "'w queue_env \<Rightarrow> ('w, thrown + gate_report) eff" where
  "queue_gate env =
     bind (record_call (CGate T2)) (\<lambda>_.
     bind (ask (mq_gate env)) (\<lambda>r.
     case r of
       Inl e \<Rightarrow> ret (Inl e)
     | Inr report \<Rightarrow> bind (record_call (CReport report)) (\<lambda>_. ret (Inr report))))"

definition queue_advance :: "'w queue_env \<Rightarrow> string \<Rightarrow> signed_report \<Rightarrow> gate_report \<Rightarrow> ('w, queue_result) eff" where
  "queue_advance env task verified t2 =
     (let g = mq_git env in
      bind (queue_git env (mq_worktree env) [''rev-parse'', ''HEAD'']) (\<lambda>newCommit.
      bind (git_run g (gi_repo g) (update_main_args g newCommit (base_of verified))) (\<lambda>advanced.
      if \<not> gx_ok advanced
      then evidenceInvalid env task
             (integrityError ''artifact_identity_mismatch''
                (''current '' @ gi_main_branch g @ '' changed after authorization; refusing to overwrite it''))
             ''merge_queue_update''
      else
        bind (queue_event env task E_MERGE_RESULT
               [(''outcome'', VStr ''merged''), (''mergeCommit'', VStr newCommit),
                (''tier'', VStr (if gr_pass t2 = GateNotEnabled then ''t1_only'' else ''t2''))]) (\<lambda>_.
        ret \<lparr>qr_outcome = QMerged, qr_commit = Some newCommit, qr_report = Some t2, qr_attribution = task\<rparr>))))"

definition queue_merge :: "'w queue_env \<Rightarrow> string \<Rightarrow> signed_report \<Rightarrow> signed_report \<Rightarrow> ('w, queue_result) eff" where
  "queue_merge env task original verified =
     (let g = mq_git env; wt = mq_worktree env in
      bind (git_run g wt [''merge'', ''--no-ff'', ''--no-edit'', artifact_of original]) (\<lambda>merge.
      if \<not> gx_ok merge
      then
        bind (git_run g wt [''merge'', ''--abort'']) (\<lambda>_.
        bind (queue_event env task E_MERGE_RESULT
               [(''outcome'', VStr ''merge_conflict''), (''attribution'', VStr task)]) (\<lambda>_.
        ret \<lparr>qr_outcome = QMergeConflict, qr_commit = None, qr_report = None, qr_attribution = task\<rparr>))
      else
        bind (queue_gate env) (\<lambda>gate.
        case gate of
          Inl e \<Rightarrow> evidenceInvalid env task e ''t2_result''
        | Inr t2 \<Rightarrow>
            if gr_pass t2 = GateFail
            then
              bind (queue_event env task E_MERGE_RESULT
                     [(''outcome'', VStr ''rejected_t2''), (''attribution'', VStr task), (''tier'', VStr ''t2'')]) (\<lambda>_.
              ret \<lparr>qr_outcome = QRejectedT2, qr_commit = None, qr_report = Some t2, qr_attribution = task\<rparr>)
            else queue_advance env task verified t2)))"

definition queue_body :: "'w queue_env \<Rightarrow> string \<Rightarrow> approval_basis \<Rightarrow> signed_report \<Rightarrow> ('w, queue_result) eff" where
  "queue_body env task basis original =
     (let g = mq_git env in
      bind (verifyTaskArtifactBinding g original) (\<lambda>authorized.
      case authorized of
        Inl e \<Rightarrow> evidenceInvalid env task e ''merge_queue''
      | Inr verified \<Rightarrow>
          bind (queue_event env task E_MERGE_ENQUEUED
                 [(''taskBranch'', VStr (gi_task_branch g)), (''approvalBasis'', VStr (basis_name basis)),
                  (''originalTier'', tier_val (gr_tier (sg_report original)))]) (\<lambda>_.
          bind (ensureWorktreeAtMainHead env) (\<lambda>mainHead.
          if Some mainHead \<noteq> gr_base_commit (sg_report verified)
          then evidenceInvalid env task
                 (integrityError ''artifact_identity_mismatch''
                    (''queue base '' @ mainHead @ '' does not match signed base commit '' @ base_of verified))
                 ''merge_queue''
          else queue_merge env task original verified))))"

text \<open>The UTF-8 bytes of U+2014.\<close>

definition em_dash :: string where
  "em_dash = [CHR 0xE2, CHR 0x80, CHR 0x94]"

text \<open>\<open>process\<close>: the lease brackets the body, whether it returns or throws.\<close>

definition process :: "'w queue_env \<Rightarrow> string \<Rightarrow> approval_basis \<Rightarrow> signed_report \<Rightarrow> ('w, queue_result) eff" where
  "process env task basis original =
     bind (ask (queue_claim env task)) (\<lambda>claimed.
     bind (record_call (CLock MERGE_QUEUE_LEASE_KEY claimed)) (\<lambda>_.
     if \<not> claimed
     then raise (''merge queue: lease contention '' @ em_dash @ '' another candidate holds the merge-queue lease (rejected '' @ task @ '')'')
     else
       bind (attempt (queue_body env task basis original)) (\<lambda>r.
       bind (ask (queue_release env task)) (\<lambda>_.
       bind (record_call (CUnlock MERGE_QUEUE_LEASE_KEY)) (\<lambda>_.
       case r of Inl e \<Rightarrow> raise e | Inr result \<Rightarrow> ret result)))))"

section \<open>Moves of the main branch\<close>

text \<open>The commands that change what the main branch points to, when they succeed.\<close>

definition moving_cmd :: "string list \<Rightarrow> bool" where
  "moving_cmd args \<longleftrightarrow> args \<noteq> [] \<and> hd args \<in> {''update-ref'', ''revert''}"

fun moving :: "ext_call \<Rightarrow> bool" where
  "moving (CGit _ args ok _) = (ok \<and> moving_cmd args)"
| "moving _ = False"

definition still :: "ext_call list \<Rightarrow> bool" where
  "still cs \<longleftrightarrow> list_all (\<lambda>c. \<not> moving c) cs"

lemma still_simps [simp]:
  "still []" "still (c # cs) \<longleftrightarrow> \<not> moving c \<and> still cs" "still (xs @ ys) \<longleftrightarrow> still xs \<and> still ys"
  by (simp_all add: still_def)

lemma still_filter: "still cs \<longleftrightarrow> filter moving cs = []"
  by (simp add: still_def list_all_iff filter_empty_conv)

lemma moving_cmd_simps [simp]:
  "moving_cmd (''update-ref'' # q)" "moving_cmd (''revert'' # q)" "\<not> moving_cmd []"
  "\<not> moving_cmd (''rev-parse'' # q)" "\<not> moving_cmd (''rev-list'' # q)" "\<not> moving_cmd (''cat-file'' # q)"
  "\<not> moving_cmd (''reset'' # q)" "\<not> moving_cmd (''clean'' # q)" "\<not> moving_cmd (''status'' # q)"
  "\<not> moving_cmd (''merge'' # q)" "\<not> moving_cmd (''worktree'' # q)" "\<not> moving_cmd (''checkout'' # q)"
  by (simp_all add: moving_cmd_def)

lemma reading_still: "list_all reading cs \<Longrightarrow> still cs"
proof (induction cs)
  case (Cons c cs)
  then have "reading c" "still cs" by simp_all
  then show ?case by (cases c) (auto simp: read_only_def moving_cmd_def)
qed simp

text \<open>Since the history \<open>c0\<close> the main branch has not moved, and the calls \<open>X\<close> were made, in this order.\<close>

definition sofar :: "ext_call list \<Rightarrow> ext_call list \<Rightarrow> 'w sys \<Rightarrow> bool" where
  "sofar c0 X s \<longleftrightarrow> (\<exists>new. sys_calls s = c0 @ new \<and> still new \<and> subseq X new)"

text \<open>It moved once, to the commit \<open>c\<close> from \<open>b\<close>, after calls of which \<open>F\<close> holds.\<close>

definition moved_once ::
    "'w git_env \<Rightarrow> ext_call list \<Rightarrow> string \<Rightarrow> string \<Rightarrow> (ext_call list \<Rightarrow> bool) \<Rightarrow> ext_call list \<Rightarrow> bool" where
  "moved_once g c0 c b F cs \<longleftrightarrow> (\<exists>pre out post. cs = c0 @ pre @ CGit (gi_repo g) (update_main_args g c b) True out # post
     \<and> still pre \<and> still post \<and> F pre)"

lemma sofar_start: "sofar (sys_calls s) [] s"
  by (simp add: sofar_def)

lemma sofar_mono: "sofar c0 Y s \<Longrightarrow> subseq X Y \<Longrightarrow> sofar c0 X s"
  unfolding sofar_def using subseq_order.trans by blast

lemma sofar_drop: "sofar c0 (X @ Y) s \<Longrightarrow> sofar c0 X s"
  by (erule sofar_mono) (rule list_emb_prefix [OF subseq_order.refl])

lemma sofar_grow:
  assumes "sofar c0 X s" "\<not> moving c"
  shows "sofar c0 (X @ [c]) (s\<lparr>sys_calls := sys_calls s @ [c]\<rparr>)"
proof -
  obtain new where "sys_calls s = c0 @ new" "still new" "subseq X new" using assms(1) unfolding sofar_def by blast
  then show ?thesis using assms(2) unfolding sofar_def
    by (intro exI [of _ "new @ [c]"]) (auto intro: list_emb_append_mono)
qed

lemma sofar_fields [simp]:
  "sofar c0 X (s\<lparr>sys_world := w\<rparr>) = sofar c0 X s" "sofar c0 X (s\<lparr>sys_log := l\<rparr>) = sofar c0 X s"
  by (simp_all add: sofar_def)

lemma sofar_ask: "eff_ok (sofar c0 X) (ask f) (\<lambda>_. sofar c0 X) E"
  by (rule eff_ok_ask) simp

lemma sofar_log: "eff_ok (sofar c0 X) (log_event e) (\<lambda>_. sofar c0 X) E"
  by (rule eff_ok_log) simp

lemma sofar_record:
  "\<not> moving c \<Longrightarrow> eff_ok (sofar c0 X) (record_call c) (\<lambda>_. sofar c0 (X @ [c])) E"
  by (rule eff_ok_record_call) (rule sofar_grow)

lemma sofar_git_says:
  assumes "\<not> moving_cmd args"
  shows "eff_ok (sofar c0 X) (git_run g cwd args) (\<lambda>r. sofar c0 (X @ [CGit cwd args (gx_ok r) (gx_out r)])) E"
  unfolding git_run_def
  by (intro eff_ok_bind [OF sofar_ask] eff_ok_bind [OF sofar_record] eff_ok_ret) (use assms in auto)

lemma sofar_git:
  assumes "\<not> moving_cmd args"
  shows "eff_ok (sofar c0 X) (git_run g cwd args) (\<lambda>_. sofar c0 X) E"
  by (rule eff_ok_weaken [OF sofar_git_says [OF assms]]) (auto elim: sofar_mono)

lemma sofar_raise: "eff_ok (sofar c0 X) (raise e) Q (sofar c0 [])"
  by (rule eff_ok_raise) (erule sofar_mono, simp)

lemma knows_sofar: "knows env c0 L s \<Longrightarrow> sofar c0 [] s"
  unfolding knows_def sofar_def using reading_still by auto

text \<open>The facts of \<open>task_bound\<close>, in the calls made: the report that was presented verified, and git confirmed what it
  says.\<close>

definition gated_artifact :: "'w git_env \<Rightarrow> signed_report \<Rightarrow> signed_report \<Rightarrow> ext_call list \<Rightarrow> bool" where
  "gated_artifact g report v X \<longleftrightarrow> (\<exists>a b out. a \<noteq> [] \<and> b \<noteq> []
     \<and> gr_artifact_commit (sg_report v) = Some a \<and> gr_base_commit (sg_report v) = Some b
     \<and> (\<forall>f \<in> set (task_facts g report v a b out). holds g X f))"

lemma gated_artifact_mono: "gated_artifact g report v X \<Longrightarrow> subseq X Y \<Longrightarrow> gated_artifact g report v Y"
proof -
  assume "gated_artifact g report v X" "subseq X Y"
  moreover from \<open>subseq X Y\<close> have "set X \<subseteq> set Y" by (auto elim: list_emb_set)
  ultimately show ?thesis unfolding gated_artifact_def by (blast intro: holds_mono)
qed

lemma task_bound_sofar: "task_bound g c0 report v s \<Longrightarrow> \<exists>X. gated_artifact g report v X \<and> sofar c0 X s"
proof -
  assume "task_bound g c0 report v s"
  then obtain a b out where *: "a \<noteq> []" "b \<noteq> []" "gr_artifact_commit (sg_report v) = Some a" "gr_base_commit (sg_report v) = Some b"
    "knows g c0 (task_facts g report v a b out) s"
    unfolding task_bound_def by blast
  then obtain new where new: "sys_calls s = c0 @ new" "list_all reading new" "\<forall>f \<in> set (task_facts g report v a b out). holds g new f"
    unfolding knows_def by blast
  then have "gated_artifact g report v new" "sofar c0 new s"
    unfolding gated_artifact_def sofar_def using * reading_still by blast+
  then show ?thesis by blast
qed

lemma moving_git:
  "eff_ok (sofar c0 X) (git_run g (gi_repo g) (update_main_args g c b))
     (\<lambda>r s. if gx_ok r then moved_once g c0 c b (subseq X) (sys_calls s) else sofar c0 X s) E"
  unfolding git_run_def
proof (intro eff_ok_bind [OF sofar_ask] eff_ok_bind [OF eff_ok_record_call] eff_ok_ret)
  fix r and s :: "'a sys"
  assume "sofar c0 X s"
  then obtain new where new: "sys_calls s = c0 @ new" "still new" "subseq X new" unfolding sofar_def by blast
  let ?c = "CGit (gi_repo g) (update_main_args g c b) (gx_ok r) (gx_out r)"
  show "if gx_ok r then moved_once g c0 c b (subseq X) (sys_calls (s\<lparr>sys_calls := sys_calls s @ [?c]\<rparr>))
        else sofar c0 X (s\<lparr>sys_calls := sys_calls s @ [?c]\<rparr>)"
  proof (cases "gx_ok r")
    case True
    then show ?thesis using new unfolding moved_once_def
      by (auto intro!: exI [of _ new])
  next
    case False
    then have "sofar c0 (X @ [?c]) (s\<lparr>sys_calls := sys_calls s @ [?c]\<rparr>)"
      by (intro sofar_grow [OF \<open>sofar c0 X s\<close>]) simp
    then show ?thesis using False by (auto elim: sofar_mono)
  qed
qed

section \<open>What a processed candidate has been through\<close>

text \<open>The integration worktree was brought to the main branch's head \<open>b\<close>, and is clean.\<close>

definition worktree_at :: "'w queue_env \<Rightarrow> string \<Rightarrow> ext_call list \<Rightarrow> bool" where
  "worktree_at env b steps \<longleftrightarrow> (\<exists>o1 o2 o3 o4 k2 k3. steps =
     [CGit (gi_repo (mq_git env)) [''rev-parse'', gi_main_branch (mq_git env)] True o1,
      CGit (mq_worktree env) [''reset'', ''--hard'', b] k2 o2, CGit (mq_worktree env) [''clean'', ''-fdx''] k3 o3,
      CGit (mq_worktree env) [''status'', ''--porcelain''] True o4] \<and> trim o1 = b \<and> trim o4 = [])"

lemma worktree_atI:
  "trim o1 = b \<Longrightarrow> trim o4 = [] \<Longrightarrow> worktree_at env b
     [CGit (gi_repo (mq_git env)) [''rev-parse'', gi_main_branch (mq_git env)] True o1,
      CGit (mq_worktree env) [''reset'', ''--hard'', b] k2 o2, CGit (mq_worktree env) [''clean'', ''-fdx''] k3 o3,
      CGit (mq_worktree env) [''status'', ''--porcelain''] True o4]"
  unfolding worktree_at_def by blast

text \<open>In it the task commit of the report was merged, T2 answered \<open>t2\<close>, and the commit there is \<open>c\<close>.\<close>

definition tested :: "'w queue_env \<Rightarrow> signed_report \<Rightarrow> string \<Rightarrow> gate_report \<Rightarrow> ext_call list \<Rightarrow> bool" where
  "tested env report c t2 steps \<longleftrightarrow> (\<exists>o1 o2. steps =
     [CGit (mq_worktree env) [''merge'', ''--no-ff'', ''--no-edit'', artifact_of report] True o1, CGate T2, CReport t2,
      CGit (mq_worktree env) [''rev-parse'', ''HEAD''] True o2] \<and> trim o2 = c)"

definition queue_passed ::
    "'w queue_env \<Rightarrow> signed_report \<Rightarrow> signed_report \<Rightarrow> string \<Rightarrow> string \<Rightarrow> gate_report \<Rightarrow> ext_call list \<Rightarrow> bool" where
  "queue_passed env report v b c t2 cs \<longleftrightarrow> (\<exists>X w t. gated_artifact (mq_git env) report v X \<and> worktree_at env b w
     \<and> tested env report c t2 t \<and> subseq (X @ w @ t) cs)"

definition queue_post :: "'w queue_env \<Rightarrow> signed_report \<Rightarrow> ext_call list \<Rightarrow> queue_result \<Rightarrow> ext_call list \<Rightarrow> bool" where
  "queue_post env report c0 r cs \<longleftrightarrow>
     (if qr_outcome r = QMerged
      then \<exists>c b v t2. qr_commit r = Some c \<and> qr_report r = Some t2 \<and> gr_pass t2 \<noteq> GateFail
             \<and> gr_base_commit (sg_report v) = Some b
             \<and> moved_once (mq_git env) c0 c b (queue_passed env report v b c t2) cs
      else qr_commit r = None \<and> (\<exists>new. cs = c0 @ new \<and> still new))"

lemma queue_passed_mono: "queue_passed env report v b c t2 X \<Longrightarrow> subseq X Y \<Longrightarrow> queue_passed env report v b c t2 Y"
  unfolding queue_passed_def using subseq_order.trans by blast

lemma moved_once_mono: "moved_once g c0 c b F cs \<Longrightarrow> (\<And>X. F X \<Longrightarrow> F' X) \<Longrightarrow> moved_once g c0 c b F' cs"
  unfolding moved_once_def by blast

lemma sofar_still: "sofar c0 X s \<Longrightarrow> \<exists>new. sys_calls s = c0 @ new \<and> still new"
  unfolding sofar_def by blast

lemma queue_event_ok: "eff_ok (sofar c0 X) (queue_event env task ty pl) (\<lambda>_. sofar c0 X) E"
  unfolding queue_event_def by (rule sofar_log)

lemma unmerged_ok:
  "qr_outcome r \<noteq> QMerged \<Longrightarrow> qr_commit r = None \<Longrightarrow>
   eff_ok (sofar c0 X) (ret r) (\<lambda>r s. queue_post env report c0 r (sys_calls s)) E"
  by (rule eff_ok_ret) (simp add: queue_post_def sofar_still)

lemma evidenceInvalid_ok:
  "eff_ok (sofar c0 X) (evidenceInvalid env task e boundary) (\<lambda>r s. queue_post env report c0 r (sys_calls s)) E"
  unfolding evidenceInvalid_def by (rule eff_ok_bind [OF queue_event_ok unmerged_ok]) simp_all

lemma queue_git_says:
  "\<not> moving_cmd args \<Longrightarrow> eff_ok (sofar c0 X) (queue_git env cwd args)
     (\<lambda>a s. \<exists>out. trim out = a \<and> sofar c0 (X @ [CGit cwd args True out]) s) (sofar c0 [])"
  unfolding queue_git_def
  by (rule eff_ok_bind [OF sofar_git_says]) (auto intro!: eff_ok_if eff_ok_ret sofar_raise)

lemma eff_ok_ex_fact:
  "(\<And>x. A x \<Longrightarrow> eff_ok (P x) m Q E) \<Longrightarrow> eff_ok (\<lambda>s. \<exists>x. A x \<and> P x s) m Q E"
  by (intro eff_ok_ex eff_ok_fact') simp

lemma ensureWorktreeAtMainHead_ok:
  "eff_ok (sofar c0 X) (ensureWorktreeAtMainHead env) (\<lambda>b s. \<exists>w. worktree_at env b w \<and> sofar c0 (X @ w) s) (sofar c0 [])"
proof -
  let ?wt = "mq_worktree env"
  have ended: "eff_ok (sofar c0 ((((X @ [CGit (gi_repo (mq_git env)) [''rev-parse'', gi_main_branch (mq_git env)] True o1]) @
        [CGit ?wt [''reset'', ''--hard'', b] k2 o2]) @ [CGit ?wt [''clean'', ''-fdx''] k3 o3]) @ [CGit ?wt [''status'', ''--porcelain''] True o4]))
      (ret b) (\<lambda>b s. \<exists>w. worktree_at env b w \<and> sofar c0 (X @ w) s) E"
    if "trim o1 = b" "\<not> st \<noteq> []" "trim o4 = st" for o1 o2 o3 o4 k2 k3 b st E
    by (rule eff_ok_ret, rule exI, rule conjI, rule worktree_atI [OF that(1), of o4 env k2 o2 k3 o3]) (use that in simp_all)
  show ?thesis
    unfolding ensureWorktreeAtMainHead_def Let_def
    by (intro eff_ok_bind [OF sofar_ask] eff_ok_bind [OF queue_git_says] eff_ok_ex_fact eff_ok_bind [OF sofar_git_says]
          eff_ok_if sofar_raise ended) simp_all
qed

lemma queue_gate_ok:
  "eff_ok (sofar c0 X) (queue_gate env)
     (\<lambda>r. case r of Inl _ \<Rightarrow> sofar c0 X | Inr t2 \<Rightarrow> sofar c0 (X @ [CGate T2, CReport t2])) E"
  unfolding queue_gate_def
proof (rule eff_ok_bind [OF sofar_record], simp)
  fix a
  show "eff_ok (sofar c0 (X @ [CGate T2])) (bind (ask (mq_gate env)) (\<lambda>r. case r of Inl e \<Rightarrow> ret (Inl e)
       | Inr report \<Rightarrow> bind (record_call (CReport report)) (\<lambda>_. ret (Inr report))))
     (\<lambda>r. case r of Inl _ \<Rightarrow> sofar c0 X | Inr t2 \<Rightarrow> sofar c0 (X @ [CGate T2, CReport t2])) E"
    by (rule eff_ok_bind [OF sofar_ask])
       (auto intro!: eff_ok_ret eff_ok_bind [OF sofar_record] elim: sofar_drop split: sum.split)
qed

lemma queue_advance_ok:
  assumes "gated_artifact (mq_git env) report v X" "worktree_at env b w" "gr_base_commit (sg_report v) = Some b" "gr_pass t2 \<noteq> GateFail"
  shows "eff_ok (sofar c0 (X @ w @ [CGit (mq_worktree env) [''merge'', ''--no-ff'', ''--no-edit'', artifact_of report] True o1, CGate T2, CReport t2]))
     (queue_advance env task v t2) (\<lambda>r s. queue_post env report c0 r (sys_calls s)) (sofar c0 [])"
    (is "eff_ok (sofar c0 ?X) _ _ _")
proof -
  let ?g = "mq_git env"
  let ?head = "\<lambda>out. CGit (mq_worktree env) [''rev-parse'', ''HEAD''] True out"
  have facts: "moved_once ?g c0 c b (queue_passed env report v b c t2) cs"
    if "moved_once ?g c0 c b (subseq (?X @ [?head out])) cs" "trim out = c" for c cs out
  proof -
    have t: "tested env report c t2 [CGit (mq_worktree env) [''merge'', ''--no-ff'', ''--no-edit'', artifact_of report] True o1,
        CGate T2, CReport t2, ?head out]"
      using that(2) by (simp add: tested_def)
    have "queue_passed env report v b c t2 (?X @ [?head out])"
      unfolding queue_passed_def using assms(1,2) t by (intro exI conjI) auto
    then show ?thesis using that(1) by (elim moved_once_mono) (rule queue_passed_mono)
  qed
  have log: "eff_ok (\<lambda>s. moved_once ?g c0 c b (subseq (?X @ [?head out])) (sys_calls s))
      (bind (queue_event env task ty pl) (\<lambda>_. ret \<lparr>qr_outcome = QMerged, qr_commit = Some c, qr_report = Some t2, qr_attribution = task\<rparr>))
      (\<lambda>r s. queue_post env report c0 r (sys_calls s)) (sofar c0 [])" if "trim out = c" for ty pl c out
    unfolding queue_event_def eff_ok_def
    using assms(3,4) facts [OF _ that] by (auto simp: eff_defs queue_post_def)
  have move: "eff_ok (sofar c0 (?X @ [?head out]))
      (bind (git_run ?g (gi_repo ?g) (update_main_args ?g c b)) (\<lambda>advanced.
       if \<not> gx_ok advanced then evidenceInvalid env task e boundary
       else bind (queue_event env task ty pl) (\<lambda>_. ret \<lparr>qr_outcome = QMerged, qr_commit = Some c, qr_report = Some t2, qr_attribution = task\<rparr>)))
      (\<lambda>r s. queue_post env report c0 r (sys_calls s)) (sofar c0 [])" if "trim out = c" for ty pl c out e boundary
  proof (rule eff_ok_bind [OF moving_git])
    fix r
    show "eff_ok (\<lambda>s. if gx_ok r then moved_once ?g c0 c b (subseq (?X @ [?head out])) (sys_calls s) else sofar c0 (?X @ [?head out]) s)
      (if \<not> gx_ok r then evidenceInvalid env task e boundary
       else bind (queue_event env task ty pl) (\<lambda>_. ret \<lparr>qr_outcome = QMerged, qr_commit = Some c, qr_report = Some t2, qr_attribution = task\<rparr>))
      (\<lambda>r s. queue_post env report c0 r (sys_calls s)) (sofar c0 [])"
      using log [OF that] evidenceInvalid_ok by (cases "gx_ok r") (simp_all only: simp_thms if_True if_False)
  qed
  show ?thesis
    unfolding queue_advance_def Let_def base_of_def assms(3) opt_text_def option.case
    by (intro eff_ok_bind [OF queue_git_says] eff_ok_ex_fact move) simp
qed

lemma queue_merge_ok:
  assumes "gated_artifact (mq_git env) report v X" "worktree_at env b w" "gr_base_commit (sg_report v) = Some b"
  shows "eff_ok (sofar c0 (X @ w)) (queue_merge env task report v) (\<lambda>r s. queue_post env report c0 r (sys_calls s)) (sofar c0 [])"
proof -
  let ?merge = "\<lambda>out. CGit (mq_worktree env) [''merge'', ''--no-ff'', ''--no-edit'', artifact_of report] True out"
  have gate: "eff_ok (case r of Inl _ \<Rightarrow> sofar c0 (X @ w @ [?merge out]) | Inr t2 \<Rightarrow> sofar c0 ((X @ w @ [?merge out]) @ [CGate T2, CReport t2]))
      (case r of Inl e \<Rightarrow> evidenceInvalid env task e ''t2_result''
        | Inr t2 \<Rightarrow> if gr_pass t2 = GateFail
            then bind (queue_event env task ty (pl t2)) (\<lambda>_.
              ret \<lparr>qr_outcome = QRejectedT2, qr_commit = None, qr_report = Some t2, qr_attribution = task\<rparr>)
            else queue_advance env task v t2)
      (\<lambda>r s. queue_post env report c0 r (sys_calls s)) (sofar c0 [])" for r ty pl out
    using queue_advance_ok [OF assms]
    by (cases r) (auto intro!: evidenceInvalid_ok eff_ok_bind [OF queue_event_ok] unmerged_ok)
  have merged: "eff_ok (sofar c0 (X @ w @ [?merge out])) (bind (queue_gate env) (\<lambda>r.
        case r of Inl e \<Rightarrow> evidenceInvalid env task e ''t2_result''
        | Inr t2 \<Rightarrow> if gr_pass t2 = GateFail
            then bind (queue_event env task ty (pl t2)) (\<lambda>_.
              ret \<lparr>qr_outcome = QRejectedT2, qr_commit = None, qr_report = Some t2, qr_attribution = task\<rparr>)
            else queue_advance env task v t2))
      (\<lambda>r s. queue_post env report c0 r (sys_calls s)) (sofar c0 [])" for ty pl out
    by (rule eff_ok_bind [OF queue_gate_ok gate])
  show ?thesis
    unfolding queue_merge_def Let_def
    by (rule eff_ok_bind [OF sofar_git_says], simp, rule eff_ok_if)
       (auto intro!: eff_ok_bind [OF sofar_git] eff_ok_bind [OF queue_event_ok] unmerged_ok merged)
qed

lemma queue_body_ok:
  "eff_ok (knows (mq_git env) c0 []) (queue_body env task basis report) (\<lambda>r s. queue_post env report c0 r (sys_calls s)) (sofar c0 [])"
proof -
  let ?g = "mq_git env"
  have go: "eff_ok (sofar c0 X)
      (bind (queue_event env task ty pl) (\<lambda>_. bind (ensureWorktreeAtMainHead env) (\<lambda>mainHead.
          if Some mainHead \<noteq> gr_base_commit (sg_report v) then evidenceInvalid env task (e mainHead) ''merge_queue''
          else queue_merge env task report v)))
      (\<lambda>r s. queue_post env report c0 r (sys_calls s)) (sofar c0 [])"
    if "gated_artifact ?g report v X" for v X ty pl e
    using that
    by (intro eff_ok_bind [OF queue_event_ok] eff_ok_bind [OF ensureWorktreeAtMainHead_ok] eff_ok_ex_fact eff_ok_if
          evidenceInvalid_ok queue_merge_ok) auto
  show ?thesis
    unfolding queue_body_def Let_def
  proof (rule eff_ok_bind [OF verifyTaskArtifactBinding_ok])
    fix r :: "thrown + signed_report"
    show "eff_ok (vknows ?g c0 [] (task_bound ?g c0 report) r)
      (case r of Inl e \<Rightarrow> evidenceInvalid env task e ''merge_queue''
       | Inr verified \<Rightarrow> bind (queue_event env task E_MERGE_ENQUEUED
             [(''taskBranch'', VStr (gi_task_branch ?g)), (''approvalBasis'', VStr (basis_name basis)),
              (''originalTier'', tier_val (gr_tier (sg_report report)))]) (\<lambda>_.
           bind (ensureWorktreeAtMainHead env) (\<lambda>mainHead.
           if Some mainHead \<noteq> gr_base_commit (sg_report verified)
           then evidenceInvalid env task (integrityError ''artifact_identity_mismatch''
               (''queue base '' @ mainHead @ '' does not match signed base commit '' @ base_of verified)) ''merge_queue''
           else queue_merge env task report verified)))
      (\<lambda>r s. queue_post env report c0 r (sys_calls s)) (sofar c0 [])"
    proof (cases r)
      case (Inl e)
      then show ?thesis by (auto intro!: eff_ok_weaken [OF evidenceInvalid_ok [where X = "[]"]] simp: knows_sofar)
    next
      case (Inr v)
      have "eff_ok (\<lambda>s. \<exists>X. gated_artifact ?g report v X \<and> sofar c0 X s)
         (bind (queue_event env task E_MERGE_ENQUEUED
             [(''taskBranch'', VStr (gi_task_branch ?g)), (''approvalBasis'', VStr (basis_name basis)),
              (''originalTier'', tier_val (gr_tier (sg_report report)))]) (\<lambda>_.
           bind (ensureWorktreeAtMainHead env) (\<lambda>mainHead.
           if Some mainHead \<noteq> gr_base_commit (sg_report v)
           then evidenceInvalid env task (integrityError ''artifact_identity_mismatch''
               (''queue base '' @ mainHead @ '' does not match signed base commit '' @ base_of v)) ''merge_queue''
           else queue_merge env task report v)))
         (\<lambda>r s. queue_post env report c0 r (sys_calls s)) (sofar c0 [])"
        by (intro eff_ok_ex_fact go)
      then show ?thesis unfolding Inr sum.case vknows_simps
        by (rule eff_ok_weaken) (use task_bound_sofar in blast)+
    qed
  qed
qed

section \<open>The lease brackets the candidate\<close>

lemma moved_once_bracket:
  assumes "moved_once g (c0 @ [l]) c b F cs" "\<not> moving l" "\<not> moving u" "\<And>X Y. F X \<Longrightarrow> subseq X Y \<Longrightarrow> F Y"
  shows "moved_once g c0 c b F (cs @ [u])"
proof -
  obtain pre out post where *: "cs = (c0 @ [l]) @ pre @ CGit (gi_repo g) (update_main_args g c b) True out # post"
    "still pre" "still post" "F pre" using assms(1) unfolding moved_once_def by blast
  have "F (l # pre)" by (rule assms(4) [OF *(4)]) auto
  with * assms(2,3) show ?thesis unfolding moved_once_def
    by (intro exI [of _ "l # pre"] exI [of _ out] exI [of _ "post @ [u]"]) simp
qed

lemma queue_post_bracket:
  assumes "queue_post env report (c0 @ [CLock k True]) r cs"
  shows "queue_post env report c0 r (cs @ [CUnlock k])"
proof -
  have "moved_once g c0 c b (queue_passed env report v b c t2) (cs @ [CUnlock k])"
    if "moved_once g (c0 @ [CLock k True]) c b (queue_passed env report v b c t2) cs" for g c b v t2
    by (rule moved_once_bracket [OF that]) (auto elim: queue_passed_mono)
  with assms show ?thesis unfolding queue_post_def by (fastforce split: if_splits)
qed

lemma queue_post_prefix: "queue_post env report c0 r cs \<Longrightarrow> \<exists>new. cs = c0 @ new"
  unfolding queue_post_def moved_once_def by (auto split: if_splits)

text \<open>A processed candidate, run to its end.\<close>

lemma process_cases:
  assumes "process env task basis orig s = (res, s')"
  obtains (refused) e where "res = Inl e" "sys_calls s' = sys_calls s @ [CLock MERGE_QUEUE_LEASE_KEY False]"
  | (ran) r s1 s2 where "queue_body env task basis orig s1 = (r, s2)" "res = r"
      "sys_calls s1 = sys_calls s @ [CLock MERGE_QUEUE_LEASE_KEY True]"
      "sys_calls s' = sys_calls s2 @ [CUnlock MERGE_QUEUE_LEASE_KEY]"
proof -
  obtain ok w1 where claim: "queue_claim env task (sys_world s) = (ok, w1)" by fastforce
  let ?s1 = "s\<lparr>sys_world := w1, sys_calls := sys_calls s @ [CLock MERGE_QUEUE_LEASE_KEY ok]\<rparr>"
  obtain r s2 where body: "queue_body env task basis orig ?s1 = (r, s2)" by fastforce
  obtain w2 where rel: "queue_release env task (sys_world s2) = ((), w2)" by (simp add: queue_release_def)
  show ?thesis
  proof (cases ok)
    case True
    have res: "res = r" and calls: "sys_calls s' = sys_calls s2 @ [CUnlock MERGE_QUEUE_LEASE_KEY]"
      using assms True claim body rel by (cases r; auto simp: process_def eff_defs)+
    show ?thesis by (rule ran [OF body res]) (simp_all add: True calls)
  next
    case False
    show ?thesis by (rule refused) (use assms False claim in \<open>auto simp: process_def eff_defs\<close>)
  qed
qed

lemma process_spec:
  assumes "process env task basis orig s = (res, s')"
  shows "\<exists>new. sys_calls s' = sys_calls s @ new
     \<and> (new = [CLock MERGE_QUEUE_LEASE_KEY False]
        \<or> (\<exists>mid. new = CLock MERGE_QUEUE_LEASE_KEY True # mid @ [CUnlock MERGE_QUEUE_LEASE_KEY]))
     \<and> (case res of Inl _ \<Rightarrow> still new | Inr r \<Rightarrow> queue_post env orig (sys_calls s) r (sys_calls s'))"
  using assms
proof (cases rule: process_cases)
  case (ran r s1 s2)
  let ?c1 = "sys_calls s1"
  have start: "knows (mq_git env) ?c1 [] s1" by (rule knows_start)
  show ?thesis
  proof (cases r)
    case (Inl e)
    have "sofar ?c1 [] s2" using eff_okE [OF queue_body_ok start] ran(1) Inl by blast
    then obtain new where "sys_calls s2 = ?c1 @ new" "still new" using sofar_still by blast
    then show ?thesis using ran(2-4) Inl by (auto intro!: exI [of _ "CLock MERGE_QUEUE_LEASE_KEY True # new @ [CUnlock MERGE_QUEUE_LEASE_KEY]"])
  next
    case (Inr q)
    have post: "queue_post env orig ?c1 q (sys_calls s2)" using eff_okD [OF queue_body_ok start] ran(1) Inr by blast
    then obtain new where "sys_calls s2 = ?c1 @ new" using queue_post_prefix by blast
    moreover have "queue_post env orig (sys_calls s) q (sys_calls s')"
      using queue_post_bracket post ran(3,4) by simp
    ultimately show ?thesis using ran(2-4) Inr
      by (auto intro!: exI [of _ "CLock MERGE_QUEUE_LEASE_KEY True # new @ [CUnlock MERGE_QUEUE_LEASE_KEY]"])
  qed
qed simp

text \<open>C8: the merge queue moves the main branch at most once per candidate, only while it holds the
  queue's lease, and only by a compare-and-swap from the signed base. Before it, in this order: the signer verified the
  report of this very candidate, git confirmed that the signed base is the tip of the main branch, the signed task
  commit the tip of the task branch and the gated tree that commit's tree; the integration worktree was reset to
  that base and found clean; the task commit was merged there, T2 ran and did not fail, and the commit the main
  branch is moved to was read there. In every other outcome, and when it throws, the main
  branch has not been moved; the lease is released at the end, also when the queue throws.\<close>

theorem merge_queue_gates_every_move:
  assumes "process env task basis orig s = (res, s')"
  shows "\<exists>new. sys_calls s' = sys_calls s @ new
     \<and> (new = [CLock MERGE_QUEUE_LEASE_KEY False]
        \<or> (\<exists>mid. new = CLock MERGE_QUEUE_LEASE_KEY True # mid @ [CUnlock MERGE_QUEUE_LEASE_KEY]))
     \<and> (case res of Inl _ \<Rightarrow> still new | Inr r \<Rightarrow> queue_post env orig (sys_calls s) r (sys_calls s'))"
  using assms by (rule process_spec)

text \<open>The queue is serialized. While another owner holds the lease \<open>merge-queue\<close>, a candidate is
  refused before any git command or gate runs, and the lease and the event log of the other owner are
  left as they were.\<close>

theorem merge_queue_is_serialized:
  assumes "db_reach (mq_db env (sys_world s))"
    and "verify (mq_now env (sys_world s)) MERGE_QUEUE_LEASE_KEY other k (mq_db env (sys_world s))" "other \<noteq> task"
    and "\<And>d w. mq_db env (mq_set_db env d w) = d"
  shows "\<exists>e s'. process env task basis orig s = (Inl e, s')
     \<and> sys_calls s' = sys_calls s @ [CLock MERGE_QUEUE_LEASE_KEY False]
     \<and> sys_log s' = sys_log s \<and> mq_db env (sys_world s') = mq_db env (sys_world s)"
proof -
  let ?w = "sys_world s"
  have "claim_pair (mq_run env) (mq_now env ?w) MERGE_QUEUE_LEASE_KEY (mq_now env ?w) task MERGE_QUEUE_LEASE_TTL_MS (mq_db env ?w)
      = (None, mq_db env ?w)"
    using task_lease.claim_excluded [OF db_reach_inv [OF assms(1)] assms(2,3)] .
  then have "claimLease (mq_run env) (mq_now env ?w) (mq_now env ?w) MERGE_QUEUE_LEASE_KEY task MERGE_QUEUE_LEASE_TTL_MS (mq_db env ?w)
      = (None, mq_db env ?w)"
    by (auto simp: claim_pair_def split: prod.splits)
  then have "queue_claim env task ?w = (False, mq_set_db env (mq_db env ?w) ?w)"
    by (simp add: queue_claim_def claim_def)
  then show ?thesis using assms(4) by (simp add: process_def eff_defs)
qed

section \<open>A concrete repository\<close>

definition demo_git :: "string \<Rightarrow> string list \<Rightarrow> 'w \<Rightarrow> git_result \<times> 'w" where
  "demo_git cwd args w =
     ((let answer = (\<lambda>out. \<lparr>gx_ok = True, gx_out = out, gx_err = []\<rparr>) in
       if args = [''rev-parse'', ''main''] then answer ''b''
       else if args = [''rev-parse'', ''task''] then answer ''a''
       else if args = [''rev-parse'', ''a^{tree}''] then answer ''t''
       else if args = [''rev-parse'', ''HEAD''] then answer ''c''
       else answer []), w)"

definition demo_report :: signed_report where
  "demo_report =
     \<lparr>sg_report = \<lparr>gr_tier = T1, gr_pass = GatePass, gr_config_hash = [], gr_commit_hash = [], gr_worktree_hash = ''t'',
        gr_artifact_commit = Some ''a'', gr_base_commit = Some ''b'', gr_merged_commit = None, gr_env_hash = [],
        gr_checks = [], gr_scope_note = []\<rparr>, sg_run = ''r'', sg_task = ''t1'', sg_auth = VNull\<rparr>"

definition demo_git_env :: "'w git_env" where
  "demo_git_env =
     \<lparr>gi_git = demo_git, gi_verify = (\<lambda>r w. (Inr r, w)), gi_sign = (\<lambda>r w. (Inr (demo_report\<lparr>sg_report := r\<rparr>), w)),
      gi_repo = ''repo'', gi_task_branch = ''task'', gi_main_branch = ''main''\<rparr>"

definition demo_queue :: "db queue_env" where
  "demo_queue =
     \<lparr>mq_run = ''r'', mq_git = demo_git_env, mq_worktree = ''wt'', mq_exists = (\<lambda>_ w. (True, w)),
      mq_gate = (\<lambda>w. (Inr (sg_report demo_report\<lparr>gr_tier := T2\<rparr>), w)), mq_now = (\<lambda>_. 5), mq_db = (\<lambda>w. w), mq_set_db = (\<lambda>d _. d)\<rparr>"

definition demo_sys :: "'w \<Rightarrow> 'w sys" where
  "demo_sys w = \<lparr>sys_world = w, sys_calls = [], sys_log = [], sys_budget = undefined\<rparr>"

lemmas demo_simps = demo_git_def demo_report_def demo_git_env_def demo_queue_def demo_sys_def

lemma demo_trim [simp]: "trim ''a'' = ''a''" "trim ''b'' = ''b''" "trim ''c'' = ''c''" "trim ''t'' = ''t''" "trim [] = []"
  by (simp_all add: trim_def is_ws_def)

lemmas binding_defs = verifyTaskArtifactBinding_def bindGateReportToTaskArtifact_def bindGateReportToMerge_def
  verifyMergedArtifactBinding_def verifyMergeTopology_def gitOut_def git_run_def mismatch_def non_empty_def
  verify_report_def sign_report_def answer_of_def

lemma demo_verify:
  "verifyTaskArtifactBinding demo_git_env demo_report s =
     (Inr (Inr demo_report), s\<lparr>sys_calls := sys_calls s @ [CVerify demo_report (Some demo_report), CGit ''repo'' [''cat-file'', ''-e'', ''b^{commit}''] True [],
        CGit ''repo'' [''rev-parse'', ''main''] True ''b'', CGit ''repo'' [''rev-parse'', ''task''] True ''a'',
        CGit ''repo'' [''rev-parse'', ''a^{tree}''] True ''t'']\<rparr>)"
  by (simp add: binding_defs eff_defs demo_simps)

lemma demo_claim: "\<exists>d. queue_claim demo_queue ''t1'' openDatabase = (True, d)"
  by (simp add: queue_claim_def claim_def demo_queue_def lease_eval MERGE_QUEUE_LEASE_KEY_def MERGE_QUEUE_LEASE_TTL_MS_def)

lemma demo_body:
  "\<exists>s'. queue_body demo_queue ''t1'' BasisAuto demo_report s =
     (Inr \<lparr>qr_outcome = QMerged, qr_commit = Some ''c'', qr_report = Some (sg_report demo_report\<lparr>gr_tier := T2\<rparr>),
            qr_attribution = ''t1''\<rparr>, s')"
proof -
  have git: "mq_git demo_queue = demo_git_env" by (simp add: demo_queue_def)
  show ?thesis
    unfolding queue_body_def Let_def git
    by (simp add: demo_verify eff_defs)
       (simp add: queue_event_def ensureWorktreeAtMainHead_def queue_git_def queue_merge_def queue_gate_def queue_advance_def
          git_run_def eff_defs git demo_git_env_def demo_git_def demo_queue_def demo_report_def artifact_of_def opt_text_def Let_def
          update_main_args_def)
qed

lemma demo_process:
  "\<exists>r s'. process demo_queue ''t1'' BasisAuto demo_report (demo_sys openDatabase) = (Inr r, s') \<and> qr_outcome r = QMerged"
proof -
  obtain d where d: "queue_claim demo_queue ''t1'' openDatabase = (True, d)" using demo_claim by blast
  let ?s1 = "demo_sys openDatabase\<lparr>sys_world := d, sys_calls := [CLock MERGE_QUEUE_LEASE_KEY True]\<rparr>"
  obtain s2 where "queue_body demo_queue ''t1'' BasisAuto demo_report ?s1 =
     (Inr \<lparr>qr_outcome = QMerged, qr_commit = Some ''c'', qr_report = Some (sg_report demo_report\<lparr>gr_tier := T2\<rparr>),
            qr_attribution = ''t1''\<rparr>, s2)" using demo_body by blast
  moreover have "sys_world (demo_sys openDatabase) = openDatabase" "sys_calls (demo_sys openDatabase) = []" by (simp_all add: demo_sys_def)
  ultimately show ?thesis using d by (simp add: process_def eff_defs queue_release_def)
qed

theorem merge_queue_gates_every_move_witness:
  "\<exists>r s'. process demo_queue ''t1'' BasisAuto demo_report (demo_sys openDatabase) = (Inr r, s')
     \<and> qr_outcome r = QMerged \<and> queue_post demo_queue demo_report [] r (sys_calls s')"
proof -
  obtain r s' where run: "process demo_queue ''t1'' BasisAuto demo_report (demo_sys openDatabase) = (Inr r, s')"
    "qr_outcome r = QMerged" using demo_process by blast
  have "sys_calls (demo_sys openDatabase) = []" by (simp add: demo_sys_def)
  with merge_queue_gates_every_move [OF run(1)] have "queue_post demo_queue demo_report [] r (sys_calls s')" by auto
  with run show ?thesis by blast
qed

text \<open>A database in which ''t0'' holds the lease of the queue.\<close>

definition demo_busy :: db where
  "demo_busy = run_op 0 0 (OpClaim ''r'' MERGE_QUEUE_LEASE_KEY ''t0'' MERGE_QUEUE_LEASE_TTL_MS) openDatabase"

theorem merge_queue_is_serialized_witness:
  "\<exists>e s'. process demo_queue ''t1'' BasisAuto demo_report (demo_sys demo_busy) = (Inl e, s')
     \<and> sys_calls s' = [CLock MERGE_QUEUE_LEASE_KEY False]"
proof -
  have reach: "db_reach (mq_db demo_queue (sys_world (demo_sys demo_busy)))"
    using db_reach.db_step [OF db_reach.db_open, of "OpClaim ''r'' MERGE_QUEUE_LEASE_KEY ''t0'' MERGE_QUEUE_LEASE_TTL_MS" 0 0]
    by (simp add: demo_busy_def demo_queue_def demo_sys_def)
  have held: "verify (mq_now demo_queue (sys_world (demo_sys demo_busy))) MERGE_QUEUE_LEASE_KEY ''t0'' 1
      (mq_db demo_queue (sys_world (demo_sys demo_busy)))"
    by (simp add: demo_busy_def demo_queue_def demo_sys_def lease_eval MERGE_QUEUE_LEASE_KEY_def MERGE_QUEUE_LEASE_TTL_MS_def)
  have "sys_calls (demo_sys demo_busy) = []" by (simp add: demo_sys_def)
  with merge_queue_is_serialized [OF reach held, of "''t1''" BasisAuto demo_report]
  show ?thesis by (auto simp: demo_queue_def)
qed

end
