(* ===== verification/AutoMerge.thy ===== *)
theory AutoMerge
  imports MergeQueue TaskMachine
begin

text \<open>
  Approval by policy and the merge continuation (\<open>core/src/merge/auto-merge.ts\<close>),
  directly or through the queue of \<open>MergeQueue\<close>. Git, the signer, the audit gate, the evidence store and
  the ownership check are arguments.
\<close>

section \<open>The decision\<close>

record mapped_ac =
  ma_id :: string
  ma_golden :: "bool option"

record auto_approve_input =
  aa_risk :: "risk_class option"
  aa_gates_green :: bool
  aa_acs :: "mapped_ac list"
  aa_diff_paths :: "string list"
  aa_patterns :: "string list"

datatype auto_approve_reason =
    AutoApproved | GatesNotGreen | ZeroAcceptanceCriteria | NonGoldenAc | RiskAboveL1
  | DepTouchingDiff | EvidenceAuthFailed

fun auto_reason_name :: "auto_approve_reason \<Rightarrow> string" where
  "auto_reason_name AutoApproved = ''auto_approved''"
| "auto_reason_name GatesNotGreen = ''gates_not_green''"
| "auto_reason_name ZeroAcceptanceCriteria = ''zero_acceptance_criteria''"
| "auto_reason_name NonGoldenAc = ''non_golden_ac''"
| "auto_reason_name RiskAboveL1 = ''risk_above_l1''"
| "auto_reason_name DepTouchingDiff = ''dep_touching_diff''"
| "auto_reason_name EvidenceAuthFailed = ''evidence_auth_failed''"

record auto_approve_decision =
  ad_approve :: bool
  ad_risk :: risk_class
  ad_reason :: auto_approve_reason

definition path_basename :: "string \<Rightarrow> string" where
  "path_basename p = rev (takeWhile (\<lambda>c. c \<noteq> CHR ''/'') (rev p))"

definition matchesDepManifest :: "string \<Rightarrow> string list \<Rightarrow> bool" where
  "matchesDepManifest path patterns =
     list_ex (\<lambda>pat. if CHR ''/'' \<in> set pat
                    then path = pat \<or> str_suffix (CHR ''/'' # pat) path
                    else path_basename path = pat) patterns"

definition decideAutoApprove :: "auto_approve_input \<Rightarrow> auto_approve_decision" where
  "decideAutoApprove i =
     (let declared = (case aa_risk i of Some r \<Rightarrow> r | None \<Rightarrow> L2);
          depTouch = list_ex (\<lambda>p. matchesDepManifest p (aa_patterns i)) (aa_diff_paths i);
          risk = (if depTouch \<and> risk_index declared < risk_index L2 then L2 else declared);
          decide = (\<lambda>ok reason. \<lparr>ad_approve = ok, ad_risk = risk, ad_reason = reason\<rparr>)
      in if \<not> aa_gates_green i then decide False GatesNotGreen
         else if aa_acs i = [] then decide False ZeroAcceptanceCriteria
         else if \<not> list_all (\<lambda>ac. ma_golden ac = Some True) (aa_acs i) then decide False NonGoldenAc
         else if risk_index risk > risk_index L1
         then decide False (if depTouch then DepTouchingDiff else RiskAboveL1)
         else decide True AutoApproved)"

section \<open>Sampling and reproduction\<close>

text \<open>The verdicts and content addresses of the checks, in order: what \<open>JSON.stringify\<close> compares.\<close>

definition reproduces :: "gate_report \<Rightarrow> gate_report \<Rightarrow> bool" where
  "reproduces original audit \<longleftrightarrow>
     map (\<lambda>c. (gc_name c, gc_pass c, gc_evidence_ref c)) (gr_checks original)
   = map (\<lambda>c. (gc_name c, gc_pass c, gc_evidence_ref c)) (gr_checks audit)"

definition hex_digit :: "char \<Rightarrow> nat" where
  "hex_digit c = (let n = of_char c in if n \<le> 57 then n - 48 else if n \<ge> 97 then n - 87 else n - 55)"

definition auditSampleValue :: "(string \<Rightarrow> string) \<Rightarrow> string \<Rightarrow> string \<Rightarrow> nat" where
  "auditSampleValue sha runId taskId =
     foldl (\<lambda>acc c. (acc * 16 + hex_digit c) mod 100) 0 (sha (runId @ taskId))"

section \<open>The merge environment\<close>

record 'w merge_env =
  me_git :: "'w git_env"
  me_run :: string
  me_task :: string
  me_rate :: js_num
  me_original :: signed_report
  me_sha :: "string \<Rightarrow> string"
  me_tmpdir :: "'w \<Rightarrow> (string + string) \<times> 'w"
  me_rmdir :: "string \<Rightarrow> 'w \<Rightarrow> (string + unit) \<times> 'w"
  me_assert :: "string \<Rightarrow> 'w \<Rightarrow> (string + unit) \<times> 'w"
  me_audit_gate :: "string \<Rightarrow> 'w \<Rightarrow> (string + gate_report) \<times> 'w"
  me_put_checks :: "gate_check list \<Rightarrow> 'w \<Rightarrow> (string + string) \<times> 'w"
  me_basis :: approval_basis
  me_queue :: "'w queue_env option"

record merge_outcome =
  mo_final :: task_state
  mo_commit :: "string option"
  mo_report :: "signed_report option"
  mo_sampled :: bool
  mo_reproduced :: "bool option"

definition merge_event :: "'w merge_env \<Rightarrow> event_type \<Rightarrow> payload \<Rightarrow> ('w, unit) eff" where
  "merge_event env ty pl = log_event \<lparr>ne_run = me_run env, ne_task = Some (me_task env), ne_type = ty, ne_payload = pl\<rparr>"

definition refusal_name :: "transition_reason \<Rightarrow> string" where
  "refusal_name r = (case r of IllegalTransition \<Rightarrow> ''illegal_transition''
     | NotEnabledPhase0 \<Rightarrow> ''not_enabled_phase0'' | NotEnabledPhase1 \<Rightarrow> ''not_enabled_phase1'')"

definition merge_move :: "'w merge_env \<Rightarrow> trigger \<Rightarrow> task_state \<Rightarrow> ('w, task_state) eff" where
  "merge_move env tr st =
     (case transition st tr of
        TrErr r detail \<Rightarrow>
          bind (merge_event env E_ERROR
                 [(''reason'', VStr (refusal_name r)), (''detail'', VStr detail),
                  (''from'', VStr (state_name st)), (''trigger'', VStr (trigger_name tr))]) (\<lambda>_.
          ret st)
      | TrOk n \<Rightarrow>
          bind (merge_event env E_TASK_STATE
                 [(''state'', VStr (state_name n)), (''trigger'', VStr (trigger_name tr))]) (\<lambda>_.
          ret n))"

text \<open>\<open>{ why, ...extra }\<close>: a \<open>why\<close> of the second part wins.\<close>

definition with_why :: "string \<Rightarrow> payload \<Rightarrow> payload" where
  "with_why why extra =
     (''why'', case map_of extra ''why'' of Some v \<Rightarrow> v | None \<Rightarrow> VStr why) # filter (\<lambda>(k, _). k \<noteq> ''why'') extra"

definition merge_escalate :: "'w merge_env \<Rightarrow> string \<Rightarrow> payload \<Rightarrow> task_state \<Rightarrow> ('w, task_state) eff" where
  "merge_escalate env why extra st =
     bind (merge_move env T_escalate st) (\<lambda>st'.
     bind (merge_event env E_ESCALATED (with_why why extra)) (\<lambda>_.
     ret st'))"

definition merge_stop ::
    "task_state \<Rightarrow> string option \<Rightarrow> signed_report option \<Rightarrow> bool \<Rightarrow> bool option \<Rightarrow> ('w, merge_outcome) eff" where
  "merge_stop st commit report sampled repro =
     ret \<lparr>mo_final = st, mo_commit = commit, mo_report = report, mo_sampled = sampled, mo_reproduced = repro\<rparr>"

text \<open>Escalate and return.\<close>

definition merge_fail ::
    "'w merge_env \<Rightarrow> string \<Rightarrow> payload \<Rightarrow> task_state \<Rightarrow> string option \<Rightarrow> signed_report option \<Rightarrow> bool \<Rightarrow>
     bool option \<Rightarrow> ('w, merge_outcome) eff" where
  "merge_fail env why extra st commit report sampled repro =
     bind (merge_escalate env why extra st) (\<lambda>st'. merge_stop st' commit report sampled repro)"

definition auth_fail ::
    "'w merge_env \<Rightarrow> thrown \<Rightarrow> string \<Rightarrow> task_state \<Rightarrow> string option \<Rightarrow> signed_report option \<Rightarrow> bool \<Rightarrow>
     ('w, merge_outcome) eff" where
  "auth_fail env e boundary st commit report sampled =
     merge_fail env (auth_why e) (evidenceAuthFailure e boundary) st commit report sampled None"

section \<open>Direct merge\<close>

text \<open>\<open>prepareDetachedMerge\<close>: a merge in a throwaway worktree. A thrown error is the left value;
  \<open>None\<close> is a conflict. The worktree is removed in every case.\<close>

definition prepareDetachedMerge :: "'w merge_env \<Rightarrow> string \<Rightarrow> string \<Rightarrow> ('w, thrown + string option) eff" where
  "prepareDetachedMerge env baseCommit artifactCommit =
     (let g = me_git env; repo = gi_repo g;
          plain = (\<lambda>msg. \<lparr>th_code = None, th_reason = None, th_message = msg\<rparr>) in
      bind (ask (me_tmpdir env)) (\<lambda>tmp.
      case tmp of
        Inl msg \<Rightarrow> vthrow (plain msg)
      | Inr tmproot \<Rightarrow>
          (let dir = tmproot @ ''/worktree'' in
           bind (git_run g repo [''worktree'', ''add'', ''--detach'', dir, baseCommit]) (\<lambda>added.
           bind (if \<not> gx_ok added
                 then vthrow (plain (''cannot prepare detached merge worktree from signed base '' @ baseCommit @ '': '' @ gx_err added))
                 else
                   bind (git_run g dir [''merge'', ''--no-ff'', ''--no-edit'', artifactCommit]) (\<lambda>merged.
                   if \<not> gx_ok merged
                   then bind (git_run g dir [''merge'', ''--abort'']) (\<lambda>_. vret None)
                   else
                     bind (git_run g dir [''rev-parse'', ''HEAD'']) (\<lambda>head.
                     if gx_ok head then vret (Some (trim (gx_out head))) else vthrow (plain (gx_err head))))) (\<lambda>r.
           bind (if gx_ok added
                 then bind (git_run g repo [''worktree'', ''remove'', ''--force'', dir]) (\<lambda>removed.
                      if gx_ok removed then vret ()
                      else vthrow (plain (''cannot remove detached merge worktree '' @ dir @ '': '' @ gx_err removed)))
                 else vret ()) (\<lambda>cleaned.
           case cleaned of
             Inl e \<Rightarrow> vthrow e
           | Inr _ \<Rightarrow>
               bind (ask (me_rmdir env tmproot)) (\<lambda>gone.
               case gone of Inl msg \<Rightarrow> vthrow (plain msg) | Inr _ \<Rightarrow> ret r)))))))"

text \<open>What the two merge paths hand on: a finished outcome, or the merge commit and, on the direct
  path, the report already bound to it.\<close>

type_synonym merge_progress = "merge_outcome + string \<times> signed_report option"

definition direct_merge :: "'w merge_env \<Rightarrow> signed_report \<Rightarrow> task_state \<Rightarrow> ('w, merge_progress) eff" where
  "direct_merge env report st =
     (let g = me_git env; stop = (\<lambda>m. bind m (\<lambda>out. ret (Inl out))) in
      bind (call (me_assert env ''direct_merge_prepare'')) (\<lambda>_.
      bind (prepareDetachedMerge env (base_of report) (artifact_of report)) (\<lambda>prepared.
      case prepared of
        Inl e \<Rightarrow>
          stop (merge_fail env ''merge_preparation_failed''
                  [(''boundary'', VStr ''direct_merge_prepare''), (''detail'', VStr (th_message e))] st None (Some report) False None)
      | Inr None \<Rightarrow>
          stop (merge_fail env ''merge_conflict'' [(''taskBranch'', VStr (gi_task_branch g))] st None (Some report) False None)
      | Inr (Some mergeCommit) \<Rightarrow>
          bind (bindGateReportToMerge g report mergeCommit) (\<lambda>bound.
          case bound of
            Inl e \<Rightarrow> stop (auth_fail env e ''direct_merge_prepare'' st None (Some report) False)
          | Inr mergedReport \<Rightarrow>
              bind (call (me_assert env ''direct_merge_update'')) (\<lambda>_.
              bind (git_run g (gi_repo g) (update_main_args g mergeCommit (base_of report))) (\<lambda>advanced.
              if \<not> gx_ok advanced
              then stop (auth_fail env
                     (integrityError ''artifact_identity_mismatch''
                        (''current '' @ gi_main_branch g @ '' changed after authorization; refusing to overwrite it''))
                     ''direct_merge_update'' st None (Some report) False)
              else ret (Inr (mergeCommit, Some mergedReport))))))))"

definition queued_merge ::
    "'w merge_env \<Rightarrow> 'w queue_env \<Rightarrow> signed_report \<Rightarrow> task_state \<Rightarrow> ('w, merge_progress) eff" where
  "queued_merge env queue report st =
     (let g = me_git env; stop = (\<lambda>m. bind m (\<lambda>out. ret (Inl out))) in
      bind (call (me_assert env ''merge_queue'')) (\<lambda>_.
      bind (process queue (me_task env) (me_basis env) report) (\<lambda>result.
      case qr_outcome result of
        QMergeConflict \<Rightarrow>
          stop (merge_fail env ''merge_conflict'' [(''taskBranch'', VStr (gi_task_branch g))] st None (Some report) False None)
      | QRejectedT2 \<Rightarrow>
          stop (merge_fail env ''t2_failed''
                  [(''taskBranch'', VStr (gi_task_branch g)), (''attribution'', VStr (qr_attribution result))] st None (Some report) False None)
      | QEvidenceInvalid \<Rightarrow>
          stop (bind (merge_move env T_escalate st) (\<lambda>st'. merge_stop st' None (Some report) False None))
      | QMerged \<Rightarrow> ret (Inr (case qr_commit result of Some c \<Rightarrow> c | None \<Rightarrow> ''null'', None)))))"

section \<open>After the merge\<close>

definition complete_merge :: "'w merge_env \<Rightarrow> task_state \<Rightarrow> string \<Rightarrow> signed_report \<Rightarrow> bool \<Rightarrow> bool option \<Rightarrow> ('w, merge_outcome) eff" where
  "complete_merge env st mergeCommit report sampled repro =
     bind (merge_move env T_audited st) (\<lambda>st1.
     bind (merge_move env T_completed st1) (\<lambda>st2.
     merge_stop st2 (Some mergeCommit) (Some report) sampled repro))"

definition audit_dir :: "'w merge_env \<Rightarrow> string \<Rightarrow> string" where
  "audit_dir env mergeCommit = gi_repo (me_git env) @ ''-audit-'' @ take 12 mergeCommit"

text \<open>T1 again, from a clean checkout of the merged tree; the checkout is removed also when the gate
  throws, and that error is not caught.\<close>

definition audit_gate :: "'w merge_env \<Rightarrow> string \<Rightarrow> ('w, gate_report) eff" where
  "audit_gate env mergeCommit =
     (let g = me_git env; dir = audit_dir env mergeCommit in
      bind (git_run g (gi_repo g) [''worktree'', ''add'', ''--detach'', dir, mergeCommit]) (\<lambda>_.
      bind (record_call (CGate T1)) (\<lambda>_.
      bind (attempt (call (me_audit_gate env dir))) (\<lambda>r.
      bind (case r of Inl _ \<Rightarrow> ret () | Inr report \<Rightarrow> record_call (CReport report)) (\<lambda>_.
      bind (git_run g (gi_repo g) [''worktree'', ''remove'', ''--force'', dir]) (\<lambda>_.
      case r of Inl e \<Rightarrow> raise e | Inr report \<Rightarrow> ret report))))))"

definition audit_merge :: "'w merge_env \<Rightarrow> task_state \<Rightarrow> string \<Rightarrow> signed_report \<Rightarrow> ('w, merge_outcome) eff" where
  "audit_merge env st mergeCommit report =
     (let g = me_git env;
          check = verifyMergedArtifactBinding g report mergeCommit (Some (gi_main_branch g)) in
      bind (call (me_assert env ''audit_gate'')) (\<lambda>_.
      bind (audit_gate env mergeCommit) (\<lambda>auditReport.
      bind check (\<lambda>before.
      case before of
        Inl e \<Rightarrow> auth_fail env e ''audit_comparison'' st (Some mergeCommit) (Some report) True
      | Inr _ \<Rightarrow>
          (let same = reproduces (sg_report report) auditReport in
           bind (call (me_put_checks env (gr_checks auditReport))) (\<lambda>ref.
           bind (merge_event env E_AUDIT_RESULT
                  [(''sampled'', VBool True), (''reproduced'', VBool same), (''mergeCommit'', VStr mergeCommit),
                   (''auditRef'', VStr ref)]) (\<lambda>_.
           if \<not> same
           then
             bind (call (me_assert env ''audit_revert'')) (\<lambda>_.
             bind (git_run g (gi_repo g) [''checkout'', ''-q'', gi_main_branch g]) (\<lambda>_.
             bind (git_run g (gi_repo g) [''revert'', ''-m'', ''1'', ''--no-edit'', mergeCommit]) (\<lambda>_.
             merge_fail env ''audit_mismatch'' [(''mergeCommit'', VStr mergeCommit)] st (Some mergeCommit) (Some report) True (Some False))))
           else
             bind check (\<lambda>after.
             case after of
               Inl e \<Rightarrow> auth_fail env e ''completion'' st (Some mergeCommit) (Some report) True
             | Inr _ \<Rightarrow> complete_merge env st mergeCommit report True (Some True)))))))))"

definition finish_merge :: "'w merge_env \<Rightarrow> task_state \<Rightarrow> string \<Rightarrow> signed_report \<Rightarrow> ('w, merge_outcome) eff" where
  "finish_merge env st mergeCommit report =
     (let g = me_git env in
      if \<not> js_lt (js_int (int (auditSampleValue (me_sha env) (me_run env) (me_task env)))) (me_rate env)
      then
        bind (verifyMergedArtifactBinding g report mergeCommit (Some (gi_main_branch g))) (\<lambda>ok.
        case ok of
          Inl e \<Rightarrow> auth_fail env e ''completion'' st (Some mergeCommit) (Some report) False
        | Inr _ \<Rightarrow>
            bind (merge_event env E_AUDIT_RESULT [(''sampled'', VBool False), (''mergeCommit'', VStr mergeCommit)]) (\<lambda>_.
            complete_merge env st mergeCommit report False None))
      else
        bind (merge_event env E_AUDIT_SAMPLED [(''mergeCommit'', VStr mergeCommit), (''rate'', VNum (me_rate env))]) (\<lambda>_.
        audit_merge env st mergeCommit report))"

definition merge_result :: "'w merge_env \<Rightarrow> task_state \<Rightarrow> signed_report \<Rightarrow> string \<Rightarrow> signed_report option \<Rightarrow> ('w, merge_outcome) eff" where
  "merge_result env st report mergeCommit already =
     (let g = me_git env in
      bind (vbind (case already of
                     Some r \<Rightarrow> vret r
                   | None \<Rightarrow> bindGateReportToMerge g report mergeCommit) (\<lambda>merged.
            vbind (verifyMergedArtifactBinding g merged mergeCommit (Some (gi_main_branch g))) (\<lambda>_.
            vret merged))) (\<lambda>bound.
      case bound of
        Inl e \<Rightarrow> auth_fail env e ''merge_result'' st (Some mergeCommit) None False
      | Inr merged \<Rightarrow>
          bind (merge_event env E_EVIDENCE_AUTHORIZED (report_payload merged)) (\<lambda>_.
          finish_merge env st mergeCommit merged)))"

definition authorized_merge :: "'w merge_env \<Rightarrow> task_state \<Rightarrow> signed_report \<Rightarrow> ('w, merge_outcome) eff" where
  "authorized_merge env st0 report =
     bind (merge_move env T_merge_queued st0) (\<lambda>st.
     bind (case me_queue env of
             Some queue \<Rightarrow> queued_merge env queue report st
           | None \<Rightarrow> direct_merge env report st) (\<lambda>progress.
     case progress of
       Inl out \<Rightarrow> ret out
     | Inr (mergeCommit, already) \<Rightarrow> merge_result env st report mergeCommit already))"

definition runApprovedMerge :: "'w merge_env \<Rightarrow> task_state \<Rightarrow> ('w, merge_outcome) eff" where
  "runApprovedMerge env st0 =
     bind (verifyTaskArtifactBinding (me_git env) (me_original env)) (\<lambda>authorized.
     case authorized of
       Inl e \<Rightarrow> auth_fail env e ''merge_queue_entry'' st0 None None False
     | Inr report \<Rightarrow> authorized_merge env st0 report)"

record 'w auto_merge_env =
  am_merge :: "'w merge_env"
  am_risk :: "risk_class option"
  am_gates_green :: bool
  am_acs :: "mapped_ac list"
  am_patterns :: "string list"

datatype merge_decision = DecAutoApprove | DecApprovalPackage | DecEvidenceInvalid

record auto_merge_outcome =
  ao_decision :: merge_decision
  ao_reason :: auto_approve_reason
  ao_risk :: risk_class
  ao_merge :: merge_outcome

text \<open>\<open>s.split('\n').filter(Boolean)\<close>.\<close>

fun split_lines :: "string \<Rightarrow> string \<Rightarrow> string list" where
  "split_lines w [] = (if w = [] then [] else [w])"
| "split_lines w (c # cs) =
     (if c = CHR 0x0A then (if w = [] then split_lines [] cs else w # split_lines [] cs)
      else split_lines (w @ [c]) cs)"

definition runAutoMerge :: "'w auto_merge_env \<Rightarrow> task_state \<Rightarrow> ('w, auto_merge_outcome) eff" where
  "runAutoMerge env st =
     (let m = am_merge env; g = me_git m in
      bind (bindGateReportToTaskArtifact g (me_original m)) (\<lambda>authorized.
      case authorized of
        Inl e \<Rightarrow>
          bind (merge_move m T_escalate st) (\<lambda>st'.
          bind (merge_event m E_ESCALATED (evidenceAuthFailure e ''auto_approval'')) (\<lambda>_.
          ret \<lparr>ao_decision = DecEvidenceInvalid, ao_reason = EvidenceAuthFailed,
               ao_risk = (case am_risk env of Some r \<Rightarrow> r | None \<Rightarrow> L2),
               ao_merge = \<lparr>mo_final = st', mo_commit = None, mo_report = None, mo_sampled = False, mo_reproduced = None\<rparr>\<rparr>))
      | Inr report \<Rightarrow>
          bind (git_run g (gi_repo g) [''diff'', ''--name-only'', base_of report @ ''...'' @ artifact_of report]) (\<lambda>diff.
          if \<not> gx_ok diff then raise (gx_err diff)
          else
            let decision = decideAutoApprove
                  \<lparr>aa_risk = am_risk env, aa_gates_green = am_gates_green env, aa_acs = am_acs env,
                   aa_diff_paths = split_lines [] (trim (gx_out diff)), aa_patterns = am_patterns env\<rparr> in
            if \<not> ad_approve decision
            then ret \<lparr>ao_decision = DecApprovalPackage, ao_reason = ad_reason decision, ao_risk = ad_risk decision,
                      ao_merge = \<lparr>mo_final = st, mo_commit = None, mo_report = Some report, mo_sampled = False, mo_reproduced = None\<rparr>\<rparr>
            else
              bind (merge_move m T_auto_approved st) (\<lambda>st1.
              bind (merge_event m E_AUTO_APPROVED
                     [(''by'', VStr ''auto_merge_policy''), (''riskClass'', VStr (risk_name (ad_risk decision))),
                      (''reason'', VStr (auto_reason_name (ad_reason decision)))]) (\<lambda>_.
              bind (runApprovedMerge (m\<lparr>me_original := report, me_basis := BasisAuto\<rparr>) st1) (\<lambda>out.
              ret \<lparr>ao_decision = DecAutoApprove, ao_reason = ad_reason decision, ao_risk = ad_risk decision, ao_merge = out\<rparr>))))))"

section \<open>The decision is policy only\<close>

lemma decideAutoApprove_cases:
  "ad_approve (decideAutoApprove i) \<longleftrightarrow> aa_gates_green i \<and> aa_acs i \<noteq> []
     \<and> (\<forall>ac \<in> set (aa_acs i). ma_golden ac = Some True)
     \<and> (\<exists>r. aa_risk i = Some r \<and> risk_index r \<le> 1)
     \<and> (\<forall>p \<in> set (aa_diff_paths i). \<not> matchesDepManifest p (aa_patterns i))"
  by (auto simp: decideAutoApprove_def Let_def list_all_iff list_ex_iff split: option.splits)

lemma decideAutoApprove_reason: "ad_approve (decideAutoApprove i) \<longleftrightarrow> ad_reason (decideAutoApprove i) = AutoApproved"
  by (auto simp: decideAutoApprove_def Let_def)

text \<open>A task is approved without a human exactly when its gates are green, it maps at least one
  acceptance criterion, all of them golden, its contract declares risk L0 or L1, and its diff touches
  no dependency manifest. A task whose contract declares no risk, or whose diff touches a manifest, has
  effective risk L2 at least; the policy never lowers a declared risk; and the reason it reports is
  \<open>auto_approved\<close> exactly when it approves.\<close>

theorem auto_approval_is_exactly_the_policy:
  "(ad_approve (decideAutoApprove i) \<longleftrightarrow> aa_gates_green i \<and> aa_acs i \<noteq> []
     \<and> (\<forall>ac \<in> set (aa_acs i). ma_golden ac = Some True)
     \<and> (\<exists>r. aa_risk i = Some r \<and> risk_index r \<le> 1)
     \<and> (\<forall>p \<in> set (aa_diff_paths i). \<not> matchesDepManifest p (aa_patterns i)))
   \<and> (aa_risk i = None \<or> (\<exists>p \<in> set (aa_diff_paths i). matchesDepManifest p (aa_patterns i))
       \<longrightarrow> 2 \<le> risk_index (ad_risk (decideAutoApprove i)))
   \<and> (\<forall>r. aa_risk i = Some r \<longrightarrow> risk_index r \<le> risk_index (ad_risk (decideAutoApprove i)))
   \<and> (ad_reason (decideAutoApprove i) = AutoApproved \<longleftrightarrow> ad_approve (decideAutoApprove i))"
proof (intro conjI)
  show "aa_risk i = None \<or> (\<exists>p \<in> set (aa_diff_paths i). matchesDepManifest p (aa_patterns i))
       \<longrightarrow> 2 \<le> risk_index (ad_risk (decideAutoApprove i))"
    by (auto simp: decideAutoApprove_def Let_def list_ex_iff not_less split: option.splits)
  show "\<forall>r. aa_risk i = Some r \<longrightarrow> risk_index r \<le> risk_index (ad_risk (decideAutoApprove i))"
    by (auto simp: decideAutoApprove_def Let_def)
qed (use decideAutoApprove_cases [of i] decideAutoApprove_reason [of i] in auto)

theorem auto_approval_is_exactly_the_policy_witness:
  "ad_approve (decideAutoApprove \<lparr>aa_risk = Some L1, aa_gates_green = True, aa_acs = [\<lparr>ma_id = ''AC-1'', ma_golden = Some True\<rparr>],
      aa_diff_paths = [''src/a.ts''], aa_patterns = [''package.json'']\<rparr>)
   \<and> 2 \<le> risk_index (ad_risk (decideAutoApprove \<lparr>aa_risk = Some L0, aa_gates_green = True, aa_acs = [\<lparr>ma_id = ''AC-1'', ma_golden = Some True\<rparr>],
      aa_diff_paths = [''sub/package.json''], aa_patterns = [''package.json'']\<rparr>))"
proof (rule conjI)
  have path: "path_basename ''src/a.ts'' = ''a.ts''" "path_basename ''sub/package.json'' = ''package.json''"
    by (simp_all add: path_basename_def)
  show "ad_approve (decideAutoApprove \<lparr>aa_risk = Some L1, aa_gates_green = True, aa_acs = [\<lparr>ma_id = ''AC-1'', ma_golden = Some True\<rparr>],
      aa_diff_paths = [''src/a.ts''], aa_patterns = [''package.json'']\<rparr>)"
    using auto_approval_is_exactly_the_policy [of "\<lparr>aa_risk = Some L1, aa_gates_green = True, aa_acs = [\<lparr>ma_id = ''AC-1'', ma_golden = Some True\<rparr>],
      aa_diff_paths = [''src/a.ts''], aa_patterns = [''package.json'']\<rparr>"]
    by (simp add: matchesDepManifest_def path)
  show "2 \<le> risk_index (ad_risk (decideAutoApprove \<lparr>aa_risk = Some L0, aa_gates_green = True, aa_acs = [\<lparr>ma_id = ''AC-1'', ma_golden = Some True\<rparr>],
      aa_diff_paths = [''sub/package.json''], aa_patterns = [''package.json'']\<rparr>))"
    using auto_approval_is_exactly_the_policy [of "\<lparr>aa_risk = Some L0, aa_gates_green = True, aa_acs = [\<lparr>ma_id = ''AC-1'', ma_golden = Some True\<rparr>],
      aa_diff_paths = [''sub/package.json''], aa_patterns = [''package.json'']\<rparr>"]
    by (simp add: matchesDepManifest_def path)
qed

text \<open>The sample value is a percentage.\<close>

lemma foldl_mod_bound: "acc < 100 \<Longrightarrow> foldl (\<lambda>a c. (a * 16 + hex_digit c) mod 100) acc cs < 100"
  by (induction cs arbitrary: acc) auto

lemma auditSampleValue_bound: "auditSampleValue sha r t < 100"
  unfolding auditSampleValue_def by (rule foldl_mod_bound) simp

end
