(* ===== verification/MergeSafety.thy ===== *)
theory MergeSafety
  imports AutoMerge
begin

text \<open>
  What a merge continuation has done to the main branch when it ends (\<open>runApprovedMerge\<close> of
  \<open>core/src/merge/auto-merge.ts\<close>): an invariant of the history of git commands, carried through the
  direct path, the queue path and the audit.
\<close>

section \<open>The history of a merge\<close>

text \<open>What the direct path has seen before it moves the main branch to \<open>c\<close>: the verified report \<open>v\<close> verified again, the
  parents of \<open>c\<close> are its signed base and its task commit, and the report \<open>m\<close> was signed with \<open>c\<close> added.\<close>

definition direct_bound :: "'w git_env \<Rightarrow> signed_report \<Rightarrow> string \<Rightarrow> signed_report \<Rightarrow> ext_call list \<Rightarrow> bool" where
  "direct_bound g v c m X \<longleftrightarrow> (\<exists>u out. joins out (sg_report u) \<and>
     (\<forall>f \<in> set [Signed ((sg_report u)\<lparr>gr_merged_commit := Some c\<rparr>) m, Said (parents_query c) out, Verified v u]. holds g X f))"

text \<open>Since \<open>c0\<close> the main branch moved once, to \<open>c\<close>, from the signed base: directly, after the report handed in had
  verified as \<open>v\<close>; or through the queue, which had been handed \<open>v\<close> and verified it again.\<close>

definition direct_passed :: "'w merge_env \<Rightarrow> signed_report \<Rightarrow> string \<Rightarrow> ext_call list \<Rightarrow> bool" where
  "direct_passed env v c Y \<longleftrightarrow> gated_artifact (me_git env) (me_original env) v Y \<and> (\<exists>m. direct_bound (me_git env) v c m Y)"

definition queued_passed ::
    "'w merge_env \<Rightarrow> 'w queue_env \<Rightarrow> signed_report \<Rightarrow> signed_report \<Rightarrow> string \<Rightarrow> string \<Rightarrow> gate_report \<Rightarrow> ext_call list \<Rightarrow> bool" where
  "queued_passed env q v v' b c t2 Y \<longleftrightarrow> gated_artifact (me_git env) (me_original env) v Y \<and> queue_passed q v v' b c t2 Y"

definition advanced :: "'w merge_env \<Rightarrow> signed_report \<Rightarrow> ext_call list \<Rightarrow> string \<Rightarrow> ext_call list \<Rightarrow> bool" where
  "advanced env v c0 c cs \<longleftrightarrow>
     (case me_queue env of
        None \<Rightarrow> \<exists>b. gr_base_commit (sg_report v) = Some b \<and> moved_once (me_git env) c0 c b (direct_passed env v c) cs
      | Some q \<Rightarrow> \<exists>b v' t2. gr_base_commit (sg_report v') = Some b \<and> gr_pass t2 \<noteq> GateFail
          \<and> moved_once (mq_git q) c0 c b (queued_passed env q v v' b c t2) cs)"

text \<open>Moreover the report \<open>m\<close> is what \<open>v\<close> verified to, signed with the merge commit; and the calls \<open>X\<close> were made.\<close>

definition sealed ::
    "'w merge_env \<Rightarrow> signed_report \<Rightarrow> ext_call list \<Rightarrow> string \<Rightarrow> signed_report \<Rightarrow> ext_call list \<Rightarrow> ext_call list \<Rightarrow> bool" where
  "sealed env v c0 c m X cs \<longleftrightarrow> advanced env v c0 c cs \<and>
     (\<exists>new u. cs = c0 @ new \<and> subseq X new \<and> CVerify v (Some u) \<in> set new
        \<and> CSign ((sg_report u)\<lparr>gr_merged_commit := Some c\<rparr>) (Some m) \<in> set new)"

text \<open>The main branch, read again after the move, is at \<open>c\<close>, a merge of the base with the gated commit that the verified
  form of \<open>m\<close> names.\<close>

definition confirmed ::
    "'w merge_env \<Rightarrow> signed_report \<Rightarrow> ext_call list \<Rightarrow> string \<Rightarrow> signed_report \<Rightarrow> ext_call list \<Rightarrow> 'w sys \<Rightarrow> bool" where
  "confirmed env v c0 c m X s \<longleftrightarrow> (\<exists>c1 w. sealed env v c0 c m X c1
     \<and> merge_bound (me_git env) c1 c (Some (gi_main_branch (me_git env))) m w s)"

definition reverted ::
    "'w merge_env \<Rightarrow> signed_report \<Rightarrow> ext_call list \<Rightarrow> string \<Rightarrow> signed_report \<Rightarrow> ext_call list \<Rightarrow> ext_call list \<Rightarrow> bool" where
  "reverted env v c0 c m X cs \<longleftrightarrow> (\<exists>c1 o1 o2 ok1 ok2. sealed env v c0 c m X c1
     \<and> cs = c1 @ [CGit (gi_repo (me_git env)) [''checkout'', ''-q'', gi_main_branch (me_git env)] ok1 o1,
                  CGit (gi_repo (me_git env)) [''revert'', ''-m'', ''1'', ''--no-edit'', c] ok2 o2])"

definition is_sampled :: "'w merge_env \<Rightarrow> bool" where
  "is_sampled env \<longleftrightarrow> js_lt (js_int (int (auditSampleValue (me_sha env) (me_run env) (me_task env)))) (me_rate env)"

text \<open>The calls of an audit, and whether it gave the verdicts of \<open>m\<close> again.\<close>

definition audit_said :: "signed_report \<Rightarrow> bool \<Rightarrow> ext_call list \<Rightarrow> bool" where
  "audit_said m same X \<longleftrightarrow> (\<exists>r. X = [CGate T1, CReport r] \<and> reproduces (sg_report m) r = same)"

definition completed_as ::
    "'w merge_env \<Rightarrow> signed_report \<Rightarrow> ext_call list \<Rightarrow> string \<Rightarrow> signed_report \<Rightarrow> bool \<Rightarrow> bool option \<Rightarrow> 'w sys \<Rightarrow> bool" where
  "completed_as env v c0 c m sampled repro s \<longleftrightarrow> sampled = is_sampled env \<and> repro = (if sampled then Some True else None)
     \<and> (\<exists>X. (if sampled then audit_said m True X else X = []) \<and> confirmed env v c0 c m X s)"

definition reverted_as :: "'w merge_env \<Rightarrow> signed_report \<Rightarrow> ext_call list \<Rightarrow> string \<Rightarrow> signed_report \<Rightarrow> ext_call list \<Rightarrow> bool" where
  "reverted_as env v c0 c m cs \<longleftrightarrow> (\<exists>X. audit_said m False X \<and> reverted env v c0 c m X cs)"

definition merge_post :: "'w merge_env \<Rightarrow> signed_report \<Rightarrow> ext_call list \<Rightarrow> merge_outcome \<Rightarrow> 'w sys \<Rightarrow> bool" where
  "merge_post env v c0 out s \<longleftrightarrow>
     mo_final out \<in> {S_COMPLETED, S_ESCALATED, S_APPROVED}
   \<and> (mo_final out = S_COMPLETED \<longrightarrow> (\<exists>c m. mo_commit out = Some c \<and> mo_report out = Some m
        \<and> completed_as env v c0 c m (mo_sampled out) (mo_reproduced out) s))
   \<and> (case mo_commit out of
        None \<Rightarrow> sofar c0 [] s
      | Some c \<Rightarrow> mo_final out \<noteq> S_APPROVED
          \<and> (if mo_reproduced out = Some False
             then mo_final out = S_ESCALATED \<and> (\<exists>m. mo_report out = Some m \<and> reverted_as env v c0 c m (sys_calls s))
             else advanced env v c0 c (sys_calls s)))"


section \<open>Steps that leave the main branch alone\<close>









text \<open>A property of the history alone.\<close>

definition on_calls :: "(ext_call list \<Rightarrow> bool) \<Rightarrow> 'w sys \<Rightarrow> bool" where
  "on_calls A s = A (sys_calls s)"






definition stay :: "ext_call list \<Rightarrow> ext_call list \<Rightarrow> bool" where
  "stay c0 cs \<longleftrightarrow> (\<exists>new. cs = c0 @ new \<and> still new)"


lemma stay_git: "\<not> moving_cmd args \<Longrightarrow> stay c0 cs \<Longrightarrow> stay c0 (cs @ [CGit cwd args ok out])"
  unfolding stay_def by fastforce




section \<open>The ends of a merge\<close>

lemma knows_fields [simp]:
  "knows g c0 L (s\<lparr>sys_world := w\<rparr>) = knows g c0 L s" "knows g c0 L (s\<lparr>sys_log := l\<rparr>) = knows g c0 L s"
  by (simp_all add: knows_def)

lemma confirmed_fields [simp]: "confirmed env v c0 c m X (s\<lparr>sys_log := l\<rparr>) = confirmed env v c0 c m X s"
  by (simp add: confirmed_def merge_bound_def)



lemma completed_as_fields [simp]: "completed_as env v c0 c m sm rp (s\<lparr>sys_log := l\<rparr>) = completed_as env v c0 c m sm rp s"
  by (simp add: completed_as_def)










section \<open>The audit\<close>












section \<open>The two merge paths\<close>

definition progress_post :: "'w merge_env \<Rightarrow> signed_report \<Rightarrow> ext_call list \<Rightarrow> merge_progress \<Rightarrow> 'w sys \<Rightarrow> bool" where
  "progress_post env v c0 p =
     (case p of
        Inl out \<Rightarrow> merge_post env v c0 out
      | Inr (c, None) \<Rightarrow> on_calls (advanced env v c0 c)
      | Inr (c, Some m) \<Rightarrow> on_calls (sealed env v c0 c m []))"

lemma progress_simps [simp]:
  "progress_post env v c0 (Inl out) = merge_post env v c0 out"
  "progress_post env v c0 (Inr (c, None)) = on_calls (advanced env v c0 c)"
  "progress_post env v c0 (Inr (c, Some m)) = on_calls (sealed env v c0 c m [])"
  by (simp_all add: progress_post_def)
















section \<open>The whole continuation\<close>








lemma repo_words [simp]: "ws_words [] ''c b a'' = [''c'', ''b'', ''a'']" "trim ''c b a'' = ''c b a''"
  by (simp_all add: is_ws_def trim_def)



end
