(* ===== verification/PrPolicy.thy ===== *)
theory PrPolicy
  imports Budget "HOL-Library.AList" "HOL-Library.Multiset" "HOL-Library.Char_ord" "HOL-Library.List_Lexorder"
begin

text \<open>
  The policy half of the pull-request gate (\<open>core/src/pr-gate/kernel.ts\<close>, \<open>types.ts\<close>): validation of
  untrusted checks and profiles, the merge of a repository's policy into its organization's, the merge
  of analysis fragments and the selection of checks. A validator returns the typed value it has
  accepted. Lists are sorted with the collation \<open>localeCompare\<close>, an argument.
\<close>

section \<open>Types\<close>

datatype risk_level = RiskLow | RiskMedium | RiskHigh | RiskCritical

fun risk_level_name :: "risk_level \<Rightarrow> string" where
  "risk_level_name RiskLow = ''LOW''"
| "risk_level_name RiskMedium = ''MEDIUM''"
| "risk_level_name RiskHigh = ''HIGH''"
| "risk_level_name RiskCritical = ''CRITICAL''"

definition RISK_ORDER :: "risk_level list" where
  "RISK_ORDER = [RiskLow, RiskMedium, RiskHigh, RiskCritical]"

text \<open>\<open>FindingSeverity\<close> and \<open>SEVERITY_ORDER\<close> are the same four names.\<close>

type_synonym severity = risk_level

abbreviation SEVERITY_ORDER :: "severity list" where
  "SEVERITY_ORDER \<equiv> RISK_ORDER"

datatype coverage = CovFull | CovPartial | CovLimited

definition COVERAGE_ORDER :: "coverage list" where
  "COVERAGE_ORDER = [CovFull, CovPartial, CovLimited]"

datatype check_kind = KBuild | KTest | KSecurity | KContract | KLint | KCustom

fun kind_name :: "check_kind \<Rightarrow> string" where
  "kind_name KBuild = ''build''" | "kind_name KTest = ''test''" | "kind_name KSecurity = ''security''"
| "kind_name KContract = ''contract''" | "kind_name KLint = ''lint''" | "kind_name KCustom = ''custom''"

record det_check =
  dc_id :: string
  dc_kind :: check_kind
  dc_command :: string
  dc_cwd :: "string option"
  dc_required :: bool
  dc_timeout :: js_num
  dc_network :: string
  dc_install :: bool
  dc_profiles :: "string list"
  dc_components :: "string list"

record quality_profile =
  qp_id :: string
  qp_technologies :: "string list option"
  qp_categories :: "string list option"
  qp_components :: "string list option"
  qp_contracts :: "string list option"
  qp_min_risk :: "risk_level option"
  qp_checks :: "det_check list"
  qp_dimensions :: "string list"
  qp_risk_floor :: "risk_level option"

record effective_policy =
  ep_reviewers :: js_num
  ep_blocking :: severity
  ep_secret_scan :: bool
  ep_stale_pass :: bool
  ep_network :: string
  ep_install :: bool
  ep_provider_timeout :: js_num
  ep_deadline :: js_num
  ep_max_cost :: js_num
  ep_risk_floor :: risk_level
  ep_human :: bool
  ep_checks :: "det_check list"
  ep_profiles :: "quality_profile list"

text \<open>The repository's layer is read from an untrusted file: a field that is absent is \<open>undefined\<close>.\<close>

record policy_layer =
  pl_reviewers :: js_val
  pl_blocking :: js_val
  pl_secret_scan :: js_val
  pl_stale_pass :: js_val
  pl_network :: js_val
  pl_install :: js_val
  pl_provider_timeout :: js_val
  pl_deadline :: js_val
  pl_max_cost :: js_val
  pl_risk_floor :: js_val
  pl_human :: js_val
  pl_checks :: js_val
  pl_profiles :: js_val

record change_analysis =
  ca_technologies :: "string list"
  ca_categories :: "string list"
  ca_components :: "string list"
  ca_contracts :: "string list"
  ca_edges :: "(string \<times> string \<times> string) list"
  ca_risk :: risk_level
  ca_reasons :: "string list"
  ca_coverage :: coverage
  ca_omitted :: "(string \<times> string) list"

text \<open>\<open>PrGatePolicyError\<close>: its code and message.\<close>

type_synonym pr_error = "string \<times> string"

section \<open>Orders and lists\<close>

fun index_of :: "'a \<Rightarrow> 'a list \<Rightarrow> nat option" where
  "index_of x [] = None"
| "index_of x (y # ys) = (if x = y then Some 0 else map_option Suc (index_of x ys))"

definition risk_rank :: "risk_level \<Rightarrow> nat" where
  "risk_rank r = the (index_of r RISK_ORDER)"

definition coverage_rank :: "coverage \<Rightarrow> nat" where
  "coverage_rank c = the (index_of c COVERAGE_ORDER)"

definition stricterRisk :: "risk_level \<Rightarrow> risk_level \<Rightarrow> risk_level" where
  "stricterRisk a b = RISK_ORDER ! max (risk_rank a) (risk_rank b)"

lemma risk_rank_simps [simp]:
  "risk_rank RiskLow = 0" "risk_rank RiskMedium = 1" "risk_rank RiskHigh = 2" "risk_rank RiskCritical = 3"
  by (simp_all add: risk_rank_def RISK_ORDER_def)

lemma coverage_rank_simps [simp]: "coverage_rank CovFull = 0" "coverage_rank CovPartial = 1" "coverage_rank CovLimited = 2"
  by (simp_all add: coverage_rank_def COVERAGE_ORDER_def)

instantiation risk_level :: linorder
begin

definition less_eq_risk_level :: "risk_level \<Rightarrow> risk_level \<Rightarrow> bool" where
  "less_eq_risk_level a b \<longleftrightarrow> risk_rank a \<le> risk_rank b"

definition less_risk_level :: "risk_level \<Rightarrow> risk_level \<Rightarrow> bool" where
  "less_risk_level a b \<longleftrightarrow> risk_rank a < risk_rank b"

instance
proof
  fix a b :: risk_level
  show "a \<le> b \<Longrightarrow> b \<le> a \<Longrightarrow> a = b" unfolding less_eq_risk_level_def by (cases a; cases b) simp_all
qed (auto simp: less_eq_risk_level_def less_risk_level_def)

end

lemma risk_rank_inj: "risk_rank a = risk_rank b \<Longrightarrow> a = b"
  by (cases a; cases b) simp_all

interpretation risk: ranked risk_rank stricterRisk
proof
  fix a b :: risk_level
  show "risk_rank a = risk_rank b \<Longrightarrow> a = b" by (rule risk_rank_inj)
  show "risk_rank (stricterRisk a b) = max (risk_rank a) (risk_rank b)"
    by (cases a; cases b) (simp_all add: stricterRisk_def RISK_ORDER_def)
qed

lemma stricterRisk_max: "stricterRisk a b = max a b"
  by (rule risk_rank_inj) (simp add: risk.rank_stricter max_def less_eq_risk_level_def)

text \<open>\<open>xs.sort((a, b) => cmp(a, b))\<close>: a stable sort; \<open>le a b\<close> says the comparison is not positive.\<close>

fun insert_by :: "('a \<Rightarrow> 'a \<Rightarrow> bool) \<Rightarrow> 'a \<Rightarrow> 'a list \<Rightarrow> 'a list" where
  "insert_by le x [] = [x]"
| "insert_by le x (y # ys) = (if le x y then x # y # ys else y # insert_by le x ys)"

definition sort_by :: "('a \<Rightarrow> 'a \<Rightarrow> bool) \<Rightarrow> 'a list \<Rightarrow> 'a list" where
  "sort_by le xs = foldr (insert_by le) xs []"

lemma mset_insert_by [simp]: "mset (insert_by le x xs) = add_mset x (mset xs)"
  by (induction xs) auto

lemma mset_sort_by [simp]: "mset (sort_by le xs) = mset xs"
  unfolding sort_by_def by (induction xs) auto

lemma set_sort_by [simp]: "set (sort_by le xs) = set xs"
  by (metis mset_sort_by set_mset_mset)

definition uniqueSorted :: "string list \<Rightarrow> string list" where
  "uniqueSorted values = sort (remdups (filter (\<lambda>v. v \<noteq> []) (map trim values)))"

lemma set_uniqueSorted [simp]: "set (uniqueSorted vs) = trim ` set vs - {[]}"
  by (auto simp: uniqueSorted_def)

section \<open>Validation of untrusted values\<close>

definition nonEmpty :: "js_val \<Rightarrow> bool" where
  "nonEmpty v = (case v of VStr s \<Rightarrow> trim s \<noteq> [] | _ \<Rightarrow> False)"

definition str_of :: "js_val \<Rightarrow> string" where
  "str_of v = (case v of VStr s \<Rightarrow> s | _ \<Rightarrow> [])"

definition str_opt :: "js_val \<Rightarrow> string option" where
  "str_opt v = (case v of VStr s \<Rightarrow> Some s | _ \<Rightarrow> None)"

definition elems :: "js_val \<Rightarrow> js_val list" where
  "elems v = (case v of VArr vs \<Rightarrow> vs | _ \<Rightarrow> [])"

definition is_arr :: "js_val \<Rightarrow> bool" where
  "is_arr v = (case v of VArr _ \<Rightarrow> True | _ \<Rightarrow> False)"

definition num_of :: "js_val \<Rightarrow> js_num" where
  "num_of v = (case v of VNum n \<Rightarrow> n | _ \<Rightarrow> JNaN)"

definition risk_of :: "js_val \<Rightarrow> risk_level option" where
  "risk_of v = find (\<lambda>r. VStr (risk_level_name r) = v) RISK_ORDER"

definition kind_of :: "js_val \<Rightarrow> check_kind option" where
  "kind_of v = find (\<lambda>k. VStr (kind_name k) = v) [KBuild, KTest, KSecurity, KContract, KLint, KCustom]"

definition string_array :: "js_val \<Rightarrow> bool" where
  "string_array v \<longleftrightarrow> is_arr v \<and> list_all nonEmpty (elems v)"

definition strings_of :: "js_val \<Rightarrow> string list" where
  "strings_of v = map str_of (elems v)"

definition is_bool :: "js_val \<Rightarrow> bool" where
  "is_bool v = (case v of VBool _ \<Rightarrow> True | _ \<Rightarrow> False)"

definition MAX_COMMAND_TIMEOUT_MS :: js_num where
  "MAX_COMMAND_TIMEOUT_MS = js_int 300000"

text \<open>The first of a list of guards that fails decides the error.\<close>

fun guards :: "(bool \<times> 'e) list \<Rightarrow> 'e + unit" where
  "guards [] = Inr ()"
| "guards ((bad, e) # gs) = (if bad then Inl e else guards gs)"

lemma guards_ok: "guards gs = Inr () \<longleftrightarrow> (\<forall>(bad, e) \<in> set gs. \<not> bad)"
  by (induction gs rule: guards.induct) auto

definition validateCheck :: "js_val \<Rightarrow> pr_error + det_check" where
  "validateCheck v =
     (let f = val_get v; cid = str_of (f ''id'') in
      e_bind (guards
        [(\<not> is_record v \<or> \<not> nonEmpty (f ''id'') \<or> \<not> nonEmpty (f ''command''),
            (''invalid_check'', ''check id and command must be non-empty'')),
         (kind_of (f ''kind'') = None \<or> \<not> is_bool (f ''required''),
            (''invalid_check'', ''check '' @ cid @ '' kind and required flag are invalid'')),
         (\<not> js_integer (num_of (f ''timeoutMs'')) \<or> js_le (num_of (f ''timeoutMs'')) (js_int 0)
            \<or> js_lt MAX_COMMAND_TIMEOUT_MS (num_of (f ''timeoutMs'')),
            (''invalid_check_timeout'', ''check '' @ cid @ '' timeout must be a positive integer no greater than 300000'')),
         (f ''network'' \<noteq> VStr ''none'' \<or> f ''install'' \<noteq> VBool False,
            (''isolation_loosened'', ''check '' @ cid @ '' must deny network and installation'')),
         (\<not> string_array (f ''profiles'') \<or> \<not> string_array (f ''components''),
            (''invalid_check'', ''check '' @ cid @ '' profiles and components must be string arrays'')),
         (f ''cwd'' \<noteq> VUndef \<and> \<not> nonEmpty (f ''cwd''),
            (''invalid_check'', ''check '' @ cid @ '' cwd is invalid''))]) (\<lambda>_.
      Inr \<lparr>dc_id = cid, dc_kind = the (kind_of (f ''kind'')), dc_command = str_of (f ''command''),
           dc_cwd = str_opt (f ''cwd''), dc_required = (f ''required'' = VBool True), dc_timeout = num_of (f ''timeoutMs''),
           dc_network = ''none'', dc_install = False, dc_profiles = strings_of (f ''profiles''),
           dc_components = strings_of (f ''components'')\<rparr>))"

text \<open>A typed check is the object with its fields; \<open>validateCheck\<close> is applied to it as well.\<close>

definition opt_val :: "string option \<Rightarrow> js_val" where
  "opt_val v = (case v of Some s \<Rightarrow> VStr s | None \<Rightarrow> VUndef)"

definition strs_val :: "string list \<Rightarrow> js_val" where
  "strs_val ss = VArr (map VStr ss)"

definition check_obj :: "det_check \<Rightarrow> js_val" where
  "check_obj c = VObj
     [(''id'', VStr (dc_id c)), (''kind'', VStr (kind_name (dc_kind c))), (''command'', VStr (dc_command c)),
      (''cwd'', opt_val (dc_cwd c)), (''required'', VBool (dc_required c)), (''timeoutMs'', VNum (dc_timeout c)),
      (''network'', VStr (dc_network c)), (''install'', VBool (dc_install c)), (''profiles'', strs_val (dc_profiles c)),
      (''components'', strs_val (dc_components c))]"

definition opt_strings :: "js_val \<Rightarrow> string list option" where
  "opt_strings v = (if v = VUndef then None else Some (strings_of v))"

definition validateProfile :: "js_val \<Rightarrow> pr_error + quality_profile" where
  "validateProfile v =
     (let f = val_get v; act = val_get (f ''activation''); pid = str_of (f ''id'') in
      e_bind (guards
        [(\<not> is_record v \<or> \<not> nonEmpty (f ''id'') \<or> \<not> is_record (f ''activation'') \<or> \<not> is_arr (f ''checks'')
            \<or> \<not> string_array (f ''reviewDimensions''),
            (''invalid_profile'', ''quality profile shape is invalid'')),
         (list_ex (\<lambda>d. d \<noteq> VUndef \<and> \<not> string_array d)
            [act ''technologies'', act ''categories'', act ''components'', act ''publicContracts''],
            (''invalid_profile'', ''profile '' @ pid @ '' activation is invalid'')),
         (act ''minimumRisk'' \<noteq> VUndef \<and> risk_of (act ''minimumRisk'') = None,
            (''invalid_profile'', ''profile '' @ pid @ '' minimum risk is invalid'')),
         (f ''riskFloor'' \<noteq> VUndef \<and> risk_of (f ''riskFloor'') = None,
            (''invalid_profile'', ''profile '' @ pid @ '' risk floor is invalid''))]) (\<lambda>_.
      e_bind (e_map validateCheck (elems (f ''checks''))) (\<lambda>checks.
      Inr \<lparr>qp_id = pid, qp_technologies = opt_strings (act ''technologies''), qp_categories = opt_strings (act ''categories''),
           qp_components = opt_strings (act ''components''), qp_contracts = opt_strings (act ''publicContracts''),
           qp_min_risk = risk_of (act ''minimumRisk''), qp_checks = checks, qp_dimensions = strings_of (f ''reviewDimensions''),
           qp_risk_floor = risk_of (f ''riskFloor'')\<rparr>)))"

definition opt_strs_val :: "string list option \<Rightarrow> js_val" where
  "opt_strs_val v = (case v of None \<Rightarrow> VUndef | Some ss \<Rightarrow> strs_val ss)"

definition opt_risk_val :: "risk_level option \<Rightarrow> js_val" where
  "opt_risk_val v = opt_val (map_option risk_level_name v)"

definition profile_obj :: "quality_profile \<Rightarrow> js_val" where
  "profile_obj p = VObj
     [(''id'', VStr (qp_id p)),
      (''activation'', VObj [(''technologies'', opt_strs_val (qp_technologies p)), (''categories'', opt_strs_val (qp_categories p)),
         (''components'', opt_strs_val (qp_components p)), (''publicContracts'', opt_strs_val (qp_contracts p)),
         (''minimumRisk'', opt_risk_val (qp_min_risk p))]),
      (''checks'', VArr (map check_obj (qp_checks p))), (''reviewDimensions'', strs_val (qp_dimensions p)),
      (''riskFloor'', opt_risk_val (qp_risk_floor p))]"

section \<open>Checks of several layers\<close>

text \<open>A loop over a state that may throw.\<close>

fun e_fold :: "('a \<Rightarrow> 's \<Rightarrow> 'e + 's) \<Rightarrow> 'a list \<Rightarrow> 's \<Rightarrow> 'e + 's" where
  "e_fold f [] s = Inr s"
| "e_fold f (x # xs) s = e_bind (f x s) (e_fold f xs)"

definition normalized_check :: "det_check \<Rightarrow> det_check" where
  "normalized_check c = c\<lparr>dc_profiles := uniqueSorted (dc_profiles c), dc_components := uniqueSorted (dc_components c)\<rparr>"

definition add_base :: "det_check \<Rightarrow> (string \<times> det_check) list \<Rightarrow> pr_error + (string \<times> det_check) list" where
  "add_base c ms = e_bind (validateCheck (check_obj c)) (\<lambda>_. Inr (AList.update (dc_id c) (normalized_check c) ms))"

definition combined_check :: "det_check \<Rightarrow> det_check \<Rightarrow> det_check" where
  "combined_check cur p = cur
     \<lparr>dc_required := dc_required cur \<or> dc_required p, dc_timeout := js_min (dc_timeout cur) (dc_timeout p),
      dc_profiles := uniqueSorted (dc_profiles cur @ dc_profiles p),
      dc_components := uniqueSorted (dc_components cur @ dc_components p)\<rparr>"

definition add_proposed :: "det_check \<Rightarrow> (string \<times> det_check) list \<Rightarrow> pr_error + (string \<times> det_check) list" where
  "add_proposed p ms =
     e_bind (validateCheck (check_obj p)) (\<lambda>_.
     case map_of ms (dc_id p) of
       None \<Rightarrow> Inr (AList.update (dc_id p) (normalized_check p) ms)
     | Some cur \<Rightarrow>
         e_bind (guards
           [(dc_command p \<noteq> dc_command cur \<or> dc_cwd p \<noteq> dc_cwd cur \<or> dc_kind p \<noteq> dc_kind cur,
               (''check_redefined'', ''repository policy cannot redefine check '' @ dc_id p)),
            (dc_required cur \<and> \<not> dc_required p,
               (''required_check_disabled'', ''repository policy cannot make check '' @ dc_id p @ '' optional'')),
            (js_lt (dc_timeout cur) (dc_timeout p),
               (''timeout_loosened'', ''repository policy cannot lengthen check '' @ dc_id p @ '' timeout''))]) (\<lambda>_.
         Inr (AList.update (dc_id p) (combined_check cur p) ms)))"

text \<open>\<open>loc\<close> is the collation of \<open>localeCompare\<close>: whether the first string does not come after the second.\<close>

definition mergeChecks :: "(string \<Rightarrow> string \<Rightarrow> bool) \<Rightarrow> det_check list \<Rightarrow> det_check list \<Rightarrow> pr_error + det_check list" where
  "mergeChecks loc base additions =
     e_bind (e_fold add_base base []) (\<lambda>ms.
     e_bind (e_fold add_proposed additions ms) (\<lambda>merged.
     Inr (sort_by (\<lambda>a b. loc (dc_id a) (dc_id b)) (map snd merged))))"

section \<open>Policies\<close>

definition validateHardPolicy :: "effective_policy \<Rightarrow> pr_error + unit" where
  "validateHardPolicy p =
     e_bind (guards
       [(ep_network p \<noteq> ''none'' \<or> ep_install p, (''isolation_loosened'', ''effective policy must deny network and installation'')),
        (\<not> ep_secret_scan p, (''secret_scan_disabled'', ''secret scanning is mandatory'')),
        (ep_stale_pass p, (''stale_pass_enabled'', ''stale snapshots cannot pass'')),
        (\<not> js_integer (ep_reviewers p) \<or> js_lt (ep_reviewers p) (js_int 1) \<or> js_lt (js_int 4) (ep_reviewers p),
           (''invalid_reviewer_count'', ''required reviewer count must be between 1 and 4'')),
        (\<not> js_finite (ep_max_cost p) \<or> js_lt (ep_max_cost p) (js_int 0),
           (''invalid_cost_cap'', ''maxCostUnits must be finite and non-negative'')),
        (js_le (ep_provider_timeout p) (js_int 0) \<or> js_lt (js_int 600000) (ep_provider_timeout p),
           (''provider_timeout_ceiling'', ''provider timeout must be within 1..600000 ms'')),
        (js_le (ep_deadline p) (js_int 0) \<or> js_lt (js_int 1800000) (ep_deadline p),
           (''run_deadline_ceiling'', ''run deadline must be within 1..1800000 ms''))]) (\<lambda>_.
     e_bind (e_map (\<lambda>c. validateCheck (check_obj c)) (ep_checks p)) (\<lambda>_.
     e_bind (e_map (\<lambda>q. validateProfile (profile_obj q)) (ep_profiles p)) (\<lambda>_.
     Inr ())))"

definition opt_num :: "js_val \<Rightarrow> js_num \<Rightarrow> js_num" where
  "opt_num v d = (if v = VUndef then d else num_of v)"

definition opt_risk :: "js_val \<Rightarrow> risk_level \<Rightarrow> risk_level" where
  "opt_risk v d = (if v = VUndef then d else the (risk_of v))"

definition given :: "js_val \<Rightarrow> bool" where
  "given v \<longleftrightarrow> v \<noteq> VUndef"

text \<open>The shape of the repository's layer.\<close>

definition layer_shape :: "policy_layer \<Rightarrow> pr_error + unit" where
  "layer_shape r = guards
     [(given (pl_secret_scan r) \<and> \<not> is_bool (pl_secret_scan r),
         (''invalid_secret_scan_policy'', ''repository secret scan flag must be boolean'')),
      (given (pl_stale_pass r) \<and> \<not> is_bool (pl_stale_pass r),
         (''invalid_stale_policy'', ''repository stale-pass flag must be boolean'')),
      (given (pl_blocking r) \<and> risk_of (pl_blocking r) = None,
         (''invalid_blocking_severity'', ''repository blocking severity is invalid'')),
      (given (pl_risk_floor r) \<and> risk_of (pl_risk_floor r) = None,
         (''invalid_risk_floor'', ''repository risk floor is invalid'')),
      (given (pl_reviewers r) \<and> \<not> js_integer (num_of (pl_reviewers r)),
         (''invalid_reviewer_count'', ''repository reviewer count must be an integer'')),
      (given (pl_provider_timeout r) \<and> (\<not> js_integer (num_of (pl_provider_timeout r)) \<or> js_le (num_of (pl_provider_timeout r)) (js_int 0)),
         (''invalid_provider_timeout'', ''repository provider timeout must be a positive integer'')),
      (given (pl_deadline r) \<and> (\<not> js_integer (num_of (pl_deadline r)) \<or> js_le (num_of (pl_deadline r)) (js_int 0)),
         (''invalid_run_deadline'', ''repository run deadline must be a positive integer'')),
      (given (pl_max_cost r) \<and> (\<not> js_finite (num_of (pl_max_cost r)) \<or> js_lt (num_of (pl_max_cost r)) (js_int 0)),
         (''invalid_cost_cap'', ''repository cost cap must be finite and non-negative'')),
      (given (pl_human r) \<and> \<not> is_bool (pl_human r),
         (''invalid_human_approval'', ''repository human approval flag must be boolean'')),
      (given (pl_checks r) \<and> \<not> is_arr (pl_checks r), (''invalid_checks'', ''repository checks must be an array'')),
      (given (pl_profiles r) \<and> \<not> is_arr (pl_profiles r), (''invalid_profiles'', ''repository profiles must be an array''))]"

text \<open>What the layer may not loosen.\<close>

definition layer_tightens :: "effective_policy \<Rightarrow> policy_layer \<Rightarrow> pr_error + unit" where
  "layer_tightens org r = guards
     [(given (pl_network r) \<and> pl_network r \<noteq> VStr ''none'', (''network_enabled'', ''repository policy cannot enable network'')),
      (given (pl_install r) \<and> pl_install r \<noteq> VBool False,
         (''install_enabled'', ''repository policy cannot enable package installation'')),
      (pl_secret_scan r = VBool False, (''secret_scan_disabled'', ''repository policy cannot disable secret scanning'')),
      (pl_stale_pass r = VBool True, (''stale_pass_enabled'', ''repository policy cannot allow stale pass'')),
      (given (pl_reviewers r) \<and> js_lt (num_of (pl_reviewers r)) (ep_reviewers org),
         (''reviewer_floor_lowered'', ''repository policy cannot lower required reviewer count'')),
      (given (pl_blocking r) \<and> risk_rank (the (risk_of (pl_blocking r))) > risk_rank (ep_blocking org),
         (''blocking_threshold_lowered'', ''repository policy cannot weaken blocking severity'')),
      (given (pl_risk_floor r) \<and> risk_rank (the (risk_of (pl_risk_floor r))) < risk_rank (ep_risk_floor org),
         (''risk_floor_lowered'', ''repository policy cannot lower risk'')),
      (given (pl_provider_timeout r) \<and> js_lt (ep_provider_timeout org) (num_of (pl_provider_timeout r)),
         (''timeout_loosened'', ''repository policy cannot lengthen provider timeout'')),
      (given (pl_deadline r) \<and> js_lt (ep_deadline org) (num_of (pl_deadline r)),
         (''deadline_loosened'', ''repository policy cannot lengthen run deadline'')),
      (given (pl_max_cost r) \<and> js_lt (ep_max_cost org) (num_of (pl_max_cost r)),
         (''cost_cap_loosened'', ''repository policy cannot increase cost cap'')),
      (ep_human org \<and> pl_human r = VBool False,
         (''human_approval_disabled'', ''repository policy cannot disable required human approval''))]"

fun fresh_profiles :: "quality_profile list \<Rightarrow> string list \<Rightarrow> pr_error + string list" where
  "fresh_profiles [] ids = Inr ids"
| "fresh_profiles (p # ps) ids =
     (if qp_id p \<in> set ids
      then Inl (''profile_redefined'', ''repository policy cannot redefine profile '' @ qp_id p)
      else fresh_profiles ps (qp_id p # ids))"

definition layered_policy :: "effective_policy \<Rightarrow> policy_layer \<Rightarrow> det_check list \<Rightarrow> quality_profile list \<Rightarrow> effective_policy" where
  "layered_policy org r checks profiles =
     org\<lparr>ep_reviewers := opt_num (pl_reviewers r) (ep_reviewers org),
         ep_blocking := (if pl_blocking r = VUndef \<or> risk_rank (the (risk_of (pl_blocking r))) > risk_rank (ep_blocking org)
                         then ep_blocking org else the (risk_of (pl_blocking r))),
         ep_secret_scan := True, ep_stale_pass := False, ep_network := ''none'', ep_install := False,
         ep_provider_timeout := js_min (opt_num (pl_provider_timeout r) (ep_provider_timeout org)) (ep_provider_timeout org),
         ep_deadline := js_min (opt_num (pl_deadline r) (ep_deadline org)) (ep_deadline org),
         ep_max_cost := js_min (opt_num (pl_max_cost r) (ep_max_cost org)) (ep_max_cost org),
         ep_risk_floor := stricterRisk (ep_risk_floor org) (opt_risk (pl_risk_floor r) (ep_risk_floor org)),
         ep_human := ep_human org \<or> pl_human r = VBool True,
         ep_checks := checks, ep_profiles := profiles\<rparr>"

definition mergeEffectivePolicy ::
    "(string \<Rightarrow> string \<Rightarrow> bool) \<Rightarrow> effective_policy \<Rightarrow> policy_layer \<Rightarrow> pr_error + effective_policy" where
  "mergeEffectivePolicy loc org r =
     e_bind (validateHardPolicy org) (\<lambda>_.
     e_bind (layer_shape r) (\<lambda>_.
     e_bind (e_map validateCheck (elems (pl_checks r))) (\<lambda>rchecks.
     e_bind (e_map validateProfile (elems (pl_profiles r))) (\<lambda>rprofiles.
     e_bind (layer_tightens org r) (\<lambda>_.
     e_bind (fresh_profiles rprofiles (map qp_id (ep_profiles org))) (\<lambda>_.
     e_bind (mergeChecks loc (ep_checks org) rchecks) (\<lambda>checks.
     let effective = layered_policy org r checks
           (sort_by (\<lambda>a b. loc (qp_id a) (qp_id b)) (ep_profiles org @ rprofiles)) in
     e_bind (validateHardPolicy effective) (\<lambda>_.
     Inr effective))))))))"

section \<open>A repository only tightens\<close>

text \<open>The check \<open>c'\<close> is the check \<open>c\<close>, at least as required and no slower.\<close>

definition tightens_check :: "det_check \<Rightarrow> det_check \<Rightarrow> bool" where
  "tightens_check c c' \<longleftrightarrow> dc_id c' = dc_id c \<and> dc_kind c' = dc_kind c \<and> dc_command c' = dc_command c \<and> dc_cwd c' = dc_cwd c
     \<and> (dc_required c \<longrightarrow> dc_required c') \<and> js_le (dc_timeout c') (dc_timeout c)
     \<and> set (uniqueSorted (dc_profiles c)) \<subseteq> set (dc_profiles c') \<and> set (uniqueSorted (dc_components c)) \<subseteq> set (dc_components c')"

lemma trim_trim [simp]: "trim (trim s) = trim s"
proof -
  have idem: "dropWhile P (dropWhile P xs) = dropWhile P xs" for P and xs :: string
    by (induction xs) auto
  have keep: "dropWhile P (rev (dropWhile P (rev xs))) = rev (dropWhile P (rev xs))" if "dropWhile P xs = xs" for P and xs :: string
  proof (cases "rev (dropWhile P (rev xs))")
    case (Cons y ys)
    obtain pre where pre: "rev xs = pre @ dropWhile P (rev xs)" by (metis takeWhile_dropWhile_id)
    then have "xs = rev (dropWhile P (rev xs)) @ rev pre" by (metis rev_append rev_rev_ident)
    then have "hd xs = y" "xs \<noteq> []" using Cons by auto
    then have "\<not> P y" using that by (metis hd_dropWhile)
    then show ?thesis using Cons by simp
  next
    case Nil
    show ?thesis unfolding Nil by simp
  qed
  let ?l = "dropWhile is_ws s"
  have "dropWhile is_ws (trim s) = trim s" unfolding trim_def by (rule keep [OF idem])
  then show ?thesis by (simp add: trim_def idem)
qed

lemma uniqueSorted_trans:
  assumes "set (uniqueSorted a) \<subseteq> set b" "set (uniqueSorted b) \<subseteq> set c"
  shows "set (uniqueSorted a) \<subseteq> set c"
proof
  fix x
  assume x: "x \<in> set (uniqueSorted a)"
  then have "x \<in> set b" "trim x = x" "x \<noteq> []" using assms(1) by auto
  then have "x \<in> trim ` set b" by (metis imageI)
  then have "x \<in> set (uniqueSorted b)" using \<open>x \<noteq> []\<close> by simp
  then show "x \<in> set c" using assms(2) by blast
qed

lemma tightens_check_trans:
  assumes "tightens_check a b" "tightens_check b c"
  shows "tightens_check a c"
proof -
  have "js_le (dc_timeout c) (dc_timeout a)"
    using assms js_le_trans [of "dc_timeout c" "dc_timeout b" "dc_timeout a"] by (simp add: tightens_check_def)
  moreover have "set (uniqueSorted (dc_profiles a)) \<subseteq> set (dc_profiles c)" "set (uniqueSorted (dc_components a)) \<subseteq> set (dc_components c)"
    using assms uniqueSorted_trans unfolding tightens_check_def by blast+
  ultimately show ?thesis using assms by (simp add: tightens_check_def)
qed

lemma tightens_normalized: "dc_timeout c \<noteq> JNaN \<Longrightarrow> tightens_check c (normalized_check c)"
  by (auto simp: tightens_check_def normalized_check_def)

lemma validateCheck_timeout:
  assumes "validateCheck (check_obj c) = Inr c'"
  shows "dc_timeout c \<noteq> JNaN"
proof -
  have "js_integer (num_of (val_get (check_obj c) ''timeoutMs''))"
    using assms by (auto simp: validateCheck_def Let_def e_bind_Inr_iff guards_ok simp del: guards.simps)
  then have "js_integer (dc_timeout c)" by (simp add: check_obj_def fields_get_def num_of_def)
  then show ?thesis by (auto simp: js_integer_def)
qed

lemma tightens_combined:
  "dc_timeout cur \<noteq> JNaN \<Longrightarrow> dc_timeout p \<noteq> JNaN \<Longrightarrow> tightens_check cur (combined_check cur p)"
  by (cases "dc_timeout cur"; cases "dc_timeout p") (auto simp: tightens_check_def combined_check_def)

text \<open>The state of a merge: the current check of every id, with normal lists.\<close>

definition layer_inv :: "(string \<times> det_check) list \<Rightarrow> bool" where
  "layer_inv ms \<longleftrightarrow> (\<forall>i c. map_of ms i = Some c \<longrightarrow> dc_id c = i \<and> tightens_check c c)"

lemma layer_invD: "layer_inv ms \<Longrightarrow> map_of ms i = Some c \<Longrightarrow> dc_id c = i" "layer_inv ms \<Longrightarrow> map_of ms i = Some c \<Longrightarrow> tightens_check c c"
  unfolding layer_inv_def by blast+

lemma layer_inv_update:
  "layer_inv ms \<Longrightarrow> dc_id c = i \<Longrightarrow> tightens_check c c \<Longrightarrow> layer_inv (AList.update i c ms)"
  by (simp add: layer_inv_def update_conv')

lemma uniqueSorted_idem: "set (uniqueSorted (uniqueSorted a)) \<subseteq> set (uniqueSorted a)"
  by auto

lemma normal_normalized: "dc_timeout c \<noteq> JNaN \<Longrightarrow> tightens_check (normalized_check c) (normalized_check c)"
  by (simp add: tightens_check_def normalized_check_def del: set_uniqueSorted) (metis uniqueSorted_idem)

lemma normal_combined:
  "dc_timeout cur \<noteq> JNaN \<Longrightarrow> dc_timeout p \<noteq> JNaN \<Longrightarrow> tightens_check (combined_check cur p) (combined_check cur p)"
  by (simp add: tightens_check_def combined_check_def del: set_uniqueSorted) (metis uniqueSorted_idem)

lemma tightens_timeout: "tightens_check c c' \<Longrightarrow> dc_timeout c' \<noteq> JNaN"
  by (auto simp: tightens_check_def)

lemma add_base_ok:
  assumes "add_base c ms = Inr ms'" "layer_inv ms"
  shows "layer_inv ms' \<and> map_of ms' = (map_of ms)(dc_id c \<mapsto> normalized_check c) \<and> dc_timeout c \<noteq> JNaN"
proof -
  have c: "dc_timeout c \<noteq> JNaN" and ms': "ms' = AList.update (dc_id c) (normalized_check c) ms"
    using assms(1) by (auto simp: add_base_def e_bind_Inr_iff dest: validateCheck_timeout)
  have "dc_id (normalized_check c) = dc_id c" by (simp add: normalized_check_def)
  then show ?thesis using layer_inv_update [OF assms(2) _ normal_normalized [OF c]] c by (simp add: ms' update_conv')
qed

lemma add_proposed_ok:
  assumes "add_proposed p ms = Inr ms'" "layer_inv ms"
  shows "layer_inv ms' \<and> (\<forall>i c. map_of ms i = Some c \<longrightarrow> (\<exists>c'. map_of ms' i = Some c' \<and> tightens_check c c'))"
proof -
  have p: "dc_timeout p \<noteq> JNaN" using assms(1) by (auto simp: add_proposed_def e_bind_Inr_iff dest: validateCheck_timeout)
  show ?thesis
  proof (cases "map_of ms (dc_id p)")
    case None
    then have ms': "ms' = AList.update (dc_id p) (normalized_check p) ms"
      using assms(1) by (auto simp: add_proposed_def e_bind_Inr_iff)
    have "dc_id (normalized_check p) = dc_id p" by (simp add: normalized_check_def)
    then have "layer_inv ms'" using layer_inv_update [OF assms(2) _ normal_normalized [OF p]] ms' by simp
    moreover have "map_of ms' i = Some c \<and> tightens_check c c" if "map_of ms i = Some c" for i c
      using that None layer_invD(2) [OF assms(2) that] by (cases "i = dc_id p") (simp_all add: ms' update_conv')
    ultimately show ?thesis by blast
  next
    case (Some cur)
    then have ms': "ms' = AList.update (dc_id p) (combined_check cur p) ms"
      using assms(1) by (auto simp: add_proposed_def e_bind_Inr_iff)
    have cur: "dc_id cur = dc_id p" "dc_timeout cur \<noteq> JNaN"
      using layer_invD [OF assms(2) Some] tightens_timeout by blast+
    then have "dc_id (combined_check cur p) = dc_id p" by (simp add: combined_check_def)
    then have "layer_inv ms'" using layer_inv_update [OF assms(2) _ normal_combined [OF cur(2) p]] ms' by simp
    moreover have "\<exists>c'. map_of ms' i = Some c' \<and> tightens_check c c'" if "map_of ms i = Some c" for i c
      using that Some layer_invD(2) [OF assms(2) that] tightens_combined [OF cur(2) p]
      by (cases "i = dc_id p") (simp_all add: ms' update_conv')
    ultimately show ?thesis by blast
  qed
qed

text \<open>The last check of an id.\<close>

definition last_check :: "det_check list \<Rightarrow> string \<Rightarrow> det_check option" where
  "last_check cs = map_of (rev (map (\<lambda>c. (dc_id c, c)) cs))"

lemma last_check_simps [simp]:
  "last_check [] i = None"
  "last_check (c # cs) i = (case last_check cs i of Some d \<Rightarrow> Some d | None \<Rightarrow> if i = dc_id c then Some c else None)"
  by (auto simp: last_check_def map_add_def split: option.split)

lemma e_fold_base_ok:
  assumes "e_fold add_base cs ms = Inr ms'" "layer_inv ms"
  shows "layer_inv ms' \<and> (case last_check cs i of None \<Rightarrow> map_of ms' i = map_of ms i
     | Some c \<Rightarrow> map_of ms' i = Some (normalized_check c) \<and> dc_timeout c \<noteq> JNaN)"
  using assms
proof (induction cs arbitrary: ms)
  case (Cons c cs)
  then obtain ms1 where step: "add_base c ms = Inr ms1" "e_fold add_base cs ms1 = Inr ms'" by (auto simp: e_bind_Inr_iff)
  have one: "layer_inv ms1" "map_of ms1 = (map_of ms)(dc_id c \<mapsto> normalized_check c)" "dc_timeout c \<noteq> JNaN"
    using add_base_ok [OF step(1) Cons.prems(2)] by simp_all
  from Cons.IH [OF step(2) one(1)] one(2,3) show ?case
    by (cases "last_check cs i"; cases "i = dc_id c") simp_all
qed simp

lemma e_fold_proposed_ok:
  "e_fold add_proposed ps ms = Inr ms' \<Longrightarrow> layer_inv ms \<Longrightarrow>
   layer_inv ms' \<and> (\<forall>i c. map_of ms i = Some c \<longrightarrow> (\<exists>c'. map_of ms' i = Some c' \<and> tightens_check c c'))"
proof (induction ps arbitrary: ms)
  case Nil
  then show ?case using layer_invD(2) by auto
next
  case (Cons p ps)
  then obtain ms1 where step: "add_proposed p ms = Inr ms1" "e_fold add_proposed ps ms1 = Inr ms'" by (auto simp: e_bind_Inr_iff)
  from add_proposed_ok [OF step(1) Cons.prems(2)] Cons.IH [OF step(2)] show ?case
    using tightens_check_trans by meson
qed

text \<open>Every check of the first layer survives; of several with one id, the last counts.\<close>

lemma mergeChecks_tightens:
  assumes "mergeChecks loc base adds = Inr cs" "last_check base i = Some c"
  shows "\<exists>c' \<in> set cs. tightens_check c c'"
proof -
  obtain ms ms' where ms: "e_fold add_base base [] = Inr ms" "e_fold add_proposed adds ms = Inr ms'"
    "cs = sort_by (\<lambda>a b. loc (dc_id a) (dc_id b)) (map snd ms')"
    using assms(1) by (auto simp: mergeChecks_def e_bind_Inr_iff)
  have "layer_inv []" by (simp add: layer_inv_def)
  from e_fold_base_ok [OF ms(1) this, of i] assms(2)
  have base: "layer_inv ms" "map_of ms i = Some (normalized_check c)" "dc_timeout c \<noteq> JNaN" by simp_all
  from e_fold_proposed_ok [OF ms(2) base(1)] base(2)
  obtain c' where c': "map_of ms' i = Some c'" "tightens_check (normalized_check c) c'" by blast
  then have "c' \<in> set cs" using map_of_SomeD [OF c'(1)] by (force simp: ms(3))
  moreover have "tightens_check c c'" using tightens_check_trans [OF tightens_normalized [OF base(3)] c'(2)] .
  ultimately show ?thesis by blast
qed

lemma mergeEffectivePolicyE:
  assumes "mergeEffectivePolicy loc org r = Inr eff"
  obtains rchecks rprofiles checks where
    "validateHardPolicy org = Inr ()" "layer_shape r = Inr ()" "layer_tightens org r = Inr ()"
    "mergeChecks loc (ep_checks org) rchecks = Inr checks"
    "eff = layered_policy org r checks (sort_by (\<lambda>a b. loc (qp_id a) (qp_id b)) (ep_profiles org @ rprofiles))"
    "validateHardPolicy eff = Inr ()"
  using assms by (auto simp: mergeEffectivePolicy_def e_bind_Inr_iff Let_def)

lemma hard_policy_facts:
  assumes "validateHardPolicy p = Inr ()"
  shows "ep_network p = ''none''" "\<not> ep_install p" "ep_secret_scan p" "\<not> ep_stale_pass p"
    "js_integer (ep_reviewers p)" "js_le (js_int 1) (ep_reviewers p)" "js_le (ep_reviewers p) (js_int 4)"
    "js_finite (ep_max_cost p)" "js_le (js_int 0) (ep_max_cost p)"
proof -
  note ok = assms [unfolded validateHardPolicy_def e_bind_Inr_iff guards_ok]
  from ok show "ep_network p = ''none''" "\<not> ep_install p" "ep_secret_scan p" "\<not> ep_stale_pass p" and int: "js_integer (ep_reviewers p)"
    and cost: "js_finite (ep_max_cost p)" by (auto simp del: guards.simps simp: guards_ok)
  have "ep_reviewers p \<noteq> JNaN" "ep_max_cost p \<noteq> JNaN" using int cost by (auto simp: js_integer_def)
  then show "js_le (js_int 1) (ep_reviewers p)" "js_le (ep_reviewers p) (js_int 4)" "js_le (js_int 0) (ep_max_cost p)"
    using ok by (auto simp del: guards.simps js_le.simps js_lt.simps simp: guards_ok js_not_le [symmetric])
qed

lemma js_min_le: "a = b \<or> a \<noteq> JNaN \<Longrightarrow> js_min a b = b \<or> js_le (js_min a b) b"
  by (cases a; cases b) auto

lemma js_integer_number: "js_integer n \<Longrightarrow> n \<noteq> JNaN"
  by (auto simp: js_integer_def)

lemma opt_num_number: "(given v \<Longrightarrow> num_of v \<noteq> JNaN) \<Longrightarrow> opt_num v d = d \<or> opt_num v d \<noteq> JNaN"
  by (auto simp: opt_num_def given_def)

lemma js_finite_number: "js_finite n \<Longrightarrow> n \<noteq> JNaN"
  by auto

lemma layer_facts:
  assumes "layer_shape r = Inr ()" "layer_tightens org r = Inr ()" "ep_reviewers org \<noteq> JNaN"
  shows "js_le (ep_reviewers org) (opt_num (pl_reviewers r) (ep_reviewers org))"
    "ep_risk_floor org \<le> opt_risk (pl_risk_floor r) (ep_risk_floor org)"
    "ep_human org \<longrightarrow> pl_human r \<noteq> VBool False"
    "opt_num (pl_max_cost r) d = d \<or> opt_num (pl_max_cost r) d \<noteq> JNaN"
    "opt_num (pl_provider_timeout r) d = d \<or> opt_num (pl_provider_timeout r) d \<noteq> JNaN"
    "opt_num (pl_deadline r) d = d \<or> opt_num (pl_deadline r) d \<noteq> JNaN"
proof -
  note shape = assms(1) [unfolded layer_shape_def guards_ok]
  note tight = assms(2) [unfolded layer_tightens_def guards_ok]
  show "ep_risk_floor org \<le> opt_risk (pl_risk_floor r) (ep_risk_floor org)" using tight
    by (auto simp: opt_risk_def less_eq_risk_level_def given_def)
  show "ep_human org \<longrightarrow> pl_human r \<noteq> VBool False" using tight by auto
  show "opt_num (pl_max_cost r) d = d \<or> opt_num (pl_max_cost r) d \<noteq> JNaN"
    by (rule opt_num_number, rule js_finite_number) (use shape in simp)
  show "opt_num (pl_provider_timeout r) d = d \<or> opt_num (pl_provider_timeout r) d \<noteq> JNaN"
    by (rule opt_num_number, rule js_integer_number) (use shape in simp)
  show "opt_num (pl_deadline r) d = d \<or> opt_num (pl_deadline r) d \<noteq> JNaN"
    by (rule opt_num_number, rule js_integer_number) (use shape in simp)
  show "js_le (ep_reviewers org) (opt_num (pl_reviewers r) (ep_reviewers org))"
  proof (cases "given (pl_reviewers r)")
    case True
    then have "js_integer (num_of (pl_reviewers r))" "\<not> js_lt (num_of (pl_reviewers r)) (ep_reviewers org)"
      using shape tight by simp_all
    then have "num_of (pl_reviewers r) \<noteq> JNaN" "\<not> js_lt (num_of (pl_reviewers r)) (ep_reviewers org)"
      by (auto simp: js_integer_def)
    then show ?thesis using True assms(3) js_not_le by (simp add: opt_num_def given_def) blast
  qed (simp add: opt_num_def given_def assms(3))
qed

text \<open>C23: a repository's policy can only tighten its organization's. Whatever the repository's file
  contains, if the merge succeeds then at least as many reviewers are required, findings of at most the
  same severity block, the risk floor is at least as high, human approval stays required where it was,
  secret scanning is on, stale passes, network and installation are off, costs and deadlines are not
  above the organization's, every check of the organization survives with its command, kind and
  directory, required if it was and with no longer a timeout, and every profile survives.\<close>

theorem repository_policy_only_tightens:
  assumes "mergeEffectivePolicy loc org r = Inr eff"
  shows "js_le (ep_reviewers org) (ep_reviewers eff) \<and> js_le (ep_reviewers eff) (js_int 4)
    \<and> ep_blocking eff \<le> ep_blocking org \<and> ep_risk_floor org \<le> ep_risk_floor eff \<and> (ep_human org \<longrightarrow> ep_human eff)
    \<and> ep_secret_scan eff \<and> \<not> ep_stale_pass eff \<and> ep_network eff = ''none'' \<and> \<not> ep_install eff
    \<and> js_le (ep_max_cost eff) (ep_max_cost org)
    \<and> (ep_provider_timeout eff = ep_provider_timeout org \<or> js_le (ep_provider_timeout eff) (ep_provider_timeout org))
    \<and> (ep_deadline eff = ep_deadline org \<or> js_le (ep_deadline eff) (ep_deadline org))
    \<and> (\<forall>i c. last_check (ep_checks org) i = Some c \<longrightarrow> (\<exists>c' \<in> set (ep_checks eff). tightens_check c c'))
    \<and> set (ep_profiles org) \<subseteq> set (ep_profiles eff)"
  using assms
proof (cases rule: mergeEffectivePolicyE)
  case (1 rchecks rprofiles checks)
  note org = hard_policy_facts [OF 1(1)] and eff = hard_policy_facts [OF 1(6)]
  have rev: "ep_reviewers org \<noteq> JNaN" using org(5) by (auto simp: js_integer_def)
  note layer = layer_facts [OF 1(2,3) rev]
  have blocking: "ep_blocking eff \<le> ep_blocking org"
    by (simp add: 1(5) layered_policy_def less_eq_risk_level_def)
  have floor: "ep_risk_floor org \<le> ep_risk_floor eff"
    using layer(2) by (simp add: 1(5) layered_policy_def stricterRisk_max)
  have cost: "js_le (ep_max_cost eff) (ep_max_cost org)"
  proof -
    have "ep_max_cost org \<noteq> JNaN" using org(8) by auto
    with js_min_le [OF layer(4), of "ep_max_cost org"] show ?thesis
      unfolding 1(5) layered_policy_def by (elim disjE) (simp_all del: js_min.simps)
  qed
  have checks: "\<exists>c' \<in> set (ep_checks eff). tightens_check c c'" if "last_check (ep_checks org) i = Some c" for i c
    using mergeChecks_tightens [OF 1(4) that] by (simp add: 1(5) layered_policy_def)
  have "set (ep_profiles org) \<subseteq> set (ep_profiles eff)" by (simp add: 1(5) layered_policy_def)
  moreover have "ep_provider_timeout eff = ep_provider_timeout org \<or> js_le (ep_provider_timeout eff) (ep_provider_timeout org)"
    "ep_deadline eff = ep_deadline org \<or> js_le (ep_deadline eff) (ep_deadline org)"
    using js_min_le [OF layer(5)] js_min_le [OF layer(6)] by (simp_all add: 1(5) layered_policy_def del: js_min.simps)
  moreover have "js_le (ep_reviewers org) (ep_reviewers eff)" "ep_human org \<longrightarrow> ep_human eff"
    using layer(1) by (simp_all add: 1(5) layered_policy_def)
  ultimately show ?thesis using blocking floor cost checks eff by blast
qed

text \<open>A missing deadline or timeout passes: \<open>NaN <= 0\<close> and \<open>NaN > 600000\<close> are both false.\<close>

lemma hard_policy_accepts_nan_timeouts:
  "validateHardPolicy p = Inr () \<Longrightarrow> validateHardPolicy (p\<lparr>ep_provider_timeout := JNaN, ep_deadline := JNaN\<rparr>) = Inr ()"
  by (auto simp: validateHardPolicy_def e_bind_Inr_iff guards_ok simp del: guards.simps)

definition demo_policy :: effective_policy where
  "demo_policy =
     \<lparr>ep_reviewers = js_int 2, ep_blocking = RiskHigh, ep_secret_scan = True, ep_stale_pass = False, ep_network = ''none'',
      ep_install = False, ep_provider_timeout = js_int 1000, ep_deadline = js_int 9000, ep_max_cost = js_int 10,
      ep_risk_floor = RiskLow, ep_human = False,
      ep_checks = [\<lparr>dc_id = ''t'', dc_kind = KTest, dc_command = ''npm t'', dc_cwd = None, dc_required = True,
                    dc_timeout = js_int 50, dc_network = ''none'', dc_install = False, dc_profiles = [], dc_components = []\<rparr>],
      ep_profiles = []\<rparr>"

definition demo_layer :: policy_layer where
  "demo_layer =
     \<lparr>pl_reviewers = vint 3, pl_blocking = VStr ''MEDIUM'', pl_secret_scan = VUndef, pl_stale_pass = VUndef, pl_network = VUndef,
      pl_install = VUndef, pl_provider_timeout = vint 500, pl_deadline = VUndef, pl_max_cost = VUndef, pl_risk_floor = VStr ''HIGH'',
      pl_human = VUndef, pl_checks = VUndef, pl_profiles = VUndef\<rparr>"

lemma demo_merge:
  "case mergeEffectivePolicy (\<lambda>_ _. True) demo_policy demo_layer of Inl _ \<Rightarrow> False
   | Inr eff \<Rightarrow> ep_reviewers eff = js_int 3 \<and> ep_blocking eff = RiskMedium \<and> ep_risk_floor eff = RiskHigh"
  by code_simp

theorem repository_policy_only_tightens_witness:
  "\<exists>eff. mergeEffectivePolicy (\<lambda>_ _. True) demo_policy demo_layer = Inr eff \<and> ep_reviewers eff = js_int 3
     \<and> ep_risk_floor eff = RiskHigh \<and> js_le (ep_reviewers eff) (js_int 4)"
proof -
  obtain eff where eff: "mergeEffectivePolicy (\<lambda>_ _. True) demo_policy demo_layer = Inr eff" "ep_reviewers eff = js_int 3"
    "ep_risk_floor eff = RiskHigh" using demo_merge by (auto split: sum.splits)
  from repository_policy_only_tightens [OF eff(1)] have "js_le (ep_reviewers eff) (js_int 4)" by (elim conjE)
  with eff show ?thesis by blast
qed

section \<open>Analysis of a change\<close>

text \<open>A fragment of analysis: an absent list is empty.\<close>

record analysis_fragment =
  af_technologies :: "string list"
  af_categories :: "string list"
  af_components :: "string list"
  af_contracts :: "string list"
  af_edges :: "(string \<times> string \<times> string) list"
  af_risk :: "risk_level option"
  af_reasons :: "string list"
  af_coverage :: "coverage option"
  af_omitted :: "(string \<times> string) list"

definition edge_key :: "string \<times> string \<times> string \<Rightarrow> string" where
  "edge_key e = (case e of (src, dst, reason) \<Rightarrow> src @ [CHR 0x00] @ dst @ [CHR 0x00] @ reason)"

definition omit_key :: "string \<times> string \<Rightarrow> string" where
  "omit_key item = (case item of (path, reason) \<Rightarrow> path @ [CHR 0x00] @ reason)"

definition put_all :: "('a \<Rightarrow> string) \<Rightarrow> 'a list \<Rightarrow> (string \<times> 'a) list \<Rightarrow> (string \<times> 'a) list" where
  "put_all key xs m = fold (\<lambda>x. AList.update (key x) x) xs m"

definition worse_coverage :: "coverage option \<Rightarrow> coverage \<Rightarrow> coverage" where
  "worse_coverage c cur = (case c of Some d \<Rightarrow> if coverage_rank d > coverage_rank cur then d else cur | None \<Rightarrow> cur)"

definition worse_risk :: "risk_level option \<Rightarrow> risk_level \<Rightarrow> risk_level" where
  "worse_risk r cur = (case r of Some s \<Rightarrow> stricterRisk cur s | None \<Rightarrow> cur)"

definition mergeChangeAnalysis ::
    "(string \<Rightarrow> string \<Rightarrow> bool) \<Rightarrow> analysis_fragment list \<Rightarrow> risk_level \<Rightarrow> change_analysis" where
  "mergeChangeAnalysis loc fragments riskFloor =
     (let edges = fold (\<lambda>f. put_all edge_key (af_edges f)) fragments [];
          omitted = fold (\<lambda>f. put_all omit_key (af_omitted f)) fragments [] in
      \<lparr>ca_technologies = uniqueSorted (concat (map af_technologies fragments)),
       ca_categories = uniqueSorted (concat (map af_categories fragments)),
       ca_components = uniqueSorted (concat (map af_components fragments)),
       ca_contracts = uniqueSorted (concat (map af_contracts fragments)),
       ca_edges = sort_by (\<lambda>a b. loc (edge_key a) (edge_key b)) (map snd edges),
       ca_risk = fold (\<lambda>f. worse_risk (af_risk f)) fragments riskFloor,
       ca_reasons = uniqueSorted (concat (map af_reasons fragments)),
       ca_coverage = fold (\<lambda>f. worse_coverage (af_coverage f)) fragments CovFull,
       ca_omitted = sort_by (\<lambda>a b. loc (omit_key a) (omit_key b)) (map snd omitted)\<rparr>)"

section \<open>Profiles and checks of a change\<close>

definition wants :: "string list option \<Rightarrow> string list \<Rightarrow> bool" where
  "wants wanted actual = (case wanted of None \<Rightarrow> True | Some ws \<Rightarrow> list_ex (\<lambda>w. w \<in> set actual) ws)"

definition profileMatches :: "quality_profile \<Rightarrow> change_analysis \<Rightarrow> bool" where
  "profileMatches p a \<longleftrightarrow>
     wants (qp_technologies p) (ca_technologies a) \<and> wants (qp_categories p) (ca_categories a)
   \<and> wants (qp_components p) (ca_components a) \<and> wants (qp_contracts p) (ca_contracts a)
   \<and> (case qp_min_risk p of None \<Rightarrow> True | Some r \<Rightarrow> risk_rank r \<le> risk_rank (ca_risk a))"

definition docsOnly :: "change_analysis \<Rightarrow> bool" where
  "docsOnly a \<longleftrightarrow> ca_categories a \<noteq> [] \<and> list_all (\<lambda>c. c = ''DOCUMENTATION'' \<or> c = ''CONFIGURATION'') (ca_categories a)"

definition resolveProfiles ::
    "(string \<Rightarrow> string \<Rightarrow> bool) \<Rightarrow> effective_policy \<Rightarrow> change_analysis \<Rightarrow> pr_error + quality_profile list \<times> det_check list" where
  "resolveProfiles loc policy a =
     (let profiles = filter (\<lambda>p. profileMatches p a) (ep_profiles policy) in
      e_bind (mergeChecks loc
        (filter (\<lambda>c. \<not> docsOnly a \<or> dc_kind c \<noteq> KBuild) (ep_checks policy))
        (filter (\<lambda>c. \<not> (docsOnly a \<and> dc_kind c = KBuild)
                   \<and> (dc_components c = [] \<or> list_ex (\<lambda>k. k \<in> set (ca_components a)) (dc_components c)))
           (concat (map qp_checks profiles)))) (\<lambda>checks.
      Inr (profiles, checks)))"

lemma last_check_filter:
  assumes "last_check cs i = Some c" "P c" "\<forall>d \<in> set cs. dc_id d = i \<longrightarrow> P d"
  shows "last_check (filter P cs) i = Some c"
  using assms
proof (induction cs)
  case (Cons d cs)
  have none: "last_check (filter P cs) i = None" if "last_check cs i = None"
    using that by (induction cs) (auto split: option.splits if_splits)
  show ?case using Cons none by (auto split: option.splits if_splits)
qed simp

lemma fold_risk_upper:
  "risk0 \<le> fold (\<lambda>f. worse_risk (af_risk f)) fs risk0
   \<and> (\<forall>f \<in> set fs. \<forall>r. af_risk f = Some r \<longrightarrow> r \<le> fold (\<lambda>f. worse_risk (af_risk f)) fs risk0)"
proof (induction fs arbitrary: risk0)
  case (Cons f fs)
  have step: "risk0 \<le> worse_risk (af_risk f) risk0" "\<And>r. af_risk f = Some r \<Longrightarrow> r \<le> worse_risk (af_risk f) risk0"
    by (auto simp: worse_risk_def stricterRisk_max split: option.splits)
  show ?case using Cons.IH [of "worse_risk (af_risk f) risk0"] step by (auto intro: order_trans)
qed simp

lemma fold_coverage_upper:
  "coverage_rank c0 \<le> coverage_rank (fold (\<lambda>f. worse_coverage (af_coverage f)) fs c0)
   \<and> (\<forall>f \<in> set fs. \<forall>c. af_coverage f = Some c \<longrightarrow> coverage_rank c \<le> coverage_rank (fold (\<lambda>f. worse_coverage (af_coverage f)) fs c0))"
proof (induction fs arbitrary: c0)
  case (Cons f fs)
  have step: "coverage_rank c0 \<le> coverage_rank (worse_coverage (af_coverage f) c0)"
    "\<And>c. af_coverage f = Some c \<Longrightarrow> coverage_rank c \<le> coverage_rank (worse_coverage (af_coverage f) c0)"
    by (auto simp: worse_coverage_def split: option.splits)
  show ?case using Cons.IH [of "worse_coverage (af_coverage f) c0"] step by (auto intro: order_trans)
qed simp

text \<open>No fragment of an analysis is watered down and no planned check lost. The merged risk is at
  least the risk0 and every fragment's risk, the merged coverage at least as bad as every fragment's;
  every check of the policy is planned, with its command and at least as strict, unless the change
  touches only documentation or configuration and the check is a build; and exactly the profiles whose
  activation matches are selected.\<close>

theorem analysis_and_plan_are_conservative:
  assumes "a = mergeChangeAnalysis loc fs risk0" "resolveProfiles loc policy a = Inr (profiles, checks)"
    "last_check (ep_checks policy) i = Some c" "\<forall>d \<in> set (ep_checks policy). dc_id d = i \<longrightarrow> \<not> docsOnly a \<or> dc_kind d \<noteq> KBuild"
  shows "risk0 \<le> ca_risk a \<and> (\<forall>f \<in> set fs. \<forall>r. af_risk f = Some r \<longrightarrow> r \<le> ca_risk a)
    \<and> (\<forall>f \<in> set fs. \<forall>v. af_coverage f = Some v \<longrightarrow> coverage_rank v \<le> coverage_rank (ca_coverage a))
    \<and> (\<exists>c' \<in> set checks. tightens_check c c') \<and> profiles = filter (\<lambda>p. profileMatches p a) (ep_profiles policy)"
proof -
  let ?keep = "\<lambda>c. \<not> docsOnly a \<or> dc_kind c \<noteq> KBuild"
  from assms(2) obtain adds where merged: "mergeChecks loc (filter ?keep (ep_checks policy)) adds = Inr checks"
    and profiles: "profiles = filter (\<lambda>p. profileMatches p a) (ep_profiles policy)"
    by (auto simp: resolveProfiles_def Let_def e_bind_Inr_iff)
  have mem: "c \<in> set (ep_checks policy)" "dc_id c = i"
    using assms(3) by (induction "ep_checks policy" rule: list.induct) (use assms(3) in \<open>auto simp: last_check_def dest!: map_of_SomeD\<close>)
  have "last_check (filter ?keep (ep_checks policy)) i = Some c"
    by (rule last_check_filter [OF assms(3) _ assms(4)]) (use assms(4) mem in blast)
  from mergeChecks_tightens [OF merged this] have "\<exists>c' \<in> set checks. tightens_check c c'" .
  with profiles fold_risk_upper [of risk0 fs] fold_coverage_upper [of CovFull fs] show ?thesis
    by (simp add: assms(1) mergeChangeAnalysis_def Let_def)
qed

definition demo_fragment :: analysis_fragment where
  "demo_fragment = \<lparr>af_technologies = [''ts''], af_categories = [''DOCUMENTATION''], af_components = [], af_contracts = [], af_edges = [],
     af_risk = Some RiskHigh, af_reasons = [], af_coverage = Some CovPartial, af_omitted = []\<rparr>"

lemma demo_resolve:
  "case resolveProfiles (\<lambda>_ _. True) demo_policy (mergeChangeAnalysis (\<lambda>_ _. True) [demo_fragment] RiskLow) of
     Inl _ \<Rightarrow> False | Inr _ \<Rightarrow> True"
  by code_simp

theorem analysis_and_plan_are_conservative_witness:
  "RiskHigh \<le> ca_risk (mergeChangeAnalysis (\<lambda>_ _. True) [demo_fragment] RiskLow)
   \<and> (\<exists>checks. resolveProfiles (\<lambda>_ _. True) demo_policy (mergeChangeAnalysis (\<lambda>_ _. True) [demo_fragment] RiskLow) = Inr ([], checks)
        \<and> (\<exists>c' \<in> set checks. dc_command c' = ''npm t''))"
proof -
  let ?a = "mergeChangeAnalysis (\<lambda>_ _. True) [demo_fragment] RiskLow"
  obtain profiles checks where run: "resolveProfiles (\<lambda>_ _. True) demo_policy ?a = Inr (profiles, checks)"
    using demo_resolve by (auto split: sum.splits)
  have c: "last_check (ep_checks demo_policy) ''t'' = Some (hd (ep_checks demo_policy))" by (simp add: demo_policy_def)
  have keep: "\<forall>d \<in> set (ep_checks demo_policy). dc_id d = ''t'' \<longrightarrow> \<not> docsOnly ?a \<or> dc_kind d \<noteq> KBuild" by (simp add: demo_policy_def)
  from analysis_and_plan_are_conservative [OF refl run c keep] run show ?thesis
    by (auto simp: tightens_check_def demo_policy_def demo_fragment_def)
qed

end
