(* ===== verification/PrReview.thy ===== *)
theory PrReview
  imports PrPolicy
begin

text \<open>
  The review half of the pull-request gate (\<open>core/src/pr-gate/kernel.ts\<close>): the checks on what a reviewer
  or the judge returns, which is untrusted, and the decision. A reviewer's finding is the parsed object
  as it arrived. A lookup in a plain JavaScript object also finds the properties every object inherits;
  reading through one of those throws, which is the left value.
\<close>

section \<open>Snapshots and evidence\<close>

record snapshot_identity =
  si_repository :: string
  si_number :: js_num
  si_base :: string
  si_head :: string
  si_merge_base :: string
  si_diff :: string
  si_policy :: string

definition sameSnapshot :: "snapshot_identity \<Rightarrow> snapshot_identity \<Rightarrow> bool" where
  "sameSnapshot a b \<longleftrightarrow>
     si_repository a = si_repository b \<and> (si_number a = si_number b \<and> si_number a \<noteq> JNaN)
   \<and> si_base a = si_base b \<and> si_head a = si_head b \<and> si_merge_base a = si_merge_base b
   \<and> si_diff a = si_diff b \<and> si_policy a = si_policy b"

record evidence_file =
  ef_lines :: js_num
  ef_hashes :: "(string \<times> string) list"

type_synonym evidence_index = "(string \<times> evidence_file) list"

text \<open>The names a plain object inherits.\<close>

definition OBJECT_PROTOTYPE :: "string list" where
  "OBJECT_PROTOTYPE =
     [''constructor'', ''__defineGetter__'', ''__defineSetter__'', ''hasOwnProperty'', ''__lookupGetter__'', ''__lookupSetter__'',
      ''isPrototypeOf'', ''propertyIsEnumerable'', ''toString'', ''valueOf'', ''__proto__'', ''toLocaleString'']"

datatype 'a js_property = Own 'a | Inherited | Absent

definition obj_lookup :: "(string \<times> 'a) list \<Rightarrow> string \<Rightarrow> 'a js_property" where
  "obj_lookup m k = (case map_of m k of Some v \<Rightarrow> Own v | None \<Rightarrow> if k \<in> set OBJECT_PROTOTYPE then Inherited else Absent)"

definition int_text :: "js_num \<Rightarrow> string" where
  "int_text n = (case n of JFin r \<Rightarrow> nat_str (nat \<lfloor>r\<rfloor>) | _ \<Rightarrow> [])"

definition range_key :: "js_num \<Rightarrow> js_num \<Rightarrow> string" where
  "range_key a b = int_text a @ '':'' @ int_text b"

section \<open>Findings of a reviewer\<close>

definition bad_lines :: "js_num \<Rightarrow> js_num \<Rightarrow> bool" where
  "bad_lines a b \<longleftrightarrow> \<not> js_integer a \<or> \<not> js_integer b \<or> js_lt a (js_int 1) \<or> js_lt b a"

text \<open>One citation: its errors. An inherited property has no \<open>lineCount\<close>, which no line exceeds, and no
  \<open>excerptHashes\<close>, which cannot be indexed.\<close>

definition citation_errors :: "evidence_index \<Rightarrow> js_val \<Rightarrow> string + string list" where
  "citation_errors idx c =
     (if \<not> nonEmpty (val_get c ''path'') then Inr [''evidence'']
      else
        let path = str_of (val_get c ''path''); a = num_of (val_get c ''startLine''); b = num_of (val_get c ''endLine'') in
        case obj_lookup idx path of
          Absent \<Rightarrow> Inr [''path:'' @ path]
        | Inherited \<Rightarrow>
            if bad_lines a b then Inr [''range:'' @ path]
            else Inl ''TypeError: cannot read properties of undefined''
        | Own file \<Rightarrow>
            if bad_lines a b \<or> js_lt (ef_lines file) b then Inr [''range:'' @ path]
            else if opt_val (map_of (ef_hashes file) (range_key a b)) \<noteq> val_get c ''excerptHash'' then Inr [''hash:'' @ path]
            else Inr [])"

definition FINDING_STRINGS :: "string list" where
  "FINDING_STRINGS = [''id'', ''category'', ''title'', ''finding'', ''rootCause'', ''trigger'', ''impact'', ''suggestedFix'']"

definition field_errors :: "js_val \<Rightarrow> string list" where
  "field_errors f =
     (if list_ex (\<lambda>k. \<not> nonEmpty (val_get f k)) FINDING_STRINGS then [''required_string''] else [])
   @ (if risk_of (val_get f ''severity'') = None then [''severity''] else [])
   @ (let n = num_of (val_get f ''confidence'') in
      if \<not> js_finite n \<or> js_lt n (js_int 0) \<or> js_lt (js_int 1) n then [''confidence''] else [])"

definition validateReviewerFinding :: "js_val \<Rightarrow> evidence_index \<Rightarrow> string + string list" where
  "validateReviewerFinding f idx =
     (let ev = val_get f ''evidence'' in
      if f = VNull \<or> f = VUndef then Inl ''TypeError: cannot read properties of null''
      else if \<not> is_arr ev \<or> elems ev = [] then Inr (uniqueSorted (field_errors f @ [''evidence'']))
      else e_bind (e_map (citation_errors idx) (elems ev)) (\<lambda>ess.
           Inr (uniqueSorted (field_errors f @ concat ess))))"

datatype reviewer_status =
    RvSucceeded | RvTimedOut | RvRateLimited | RvAuthFailed | RvFailed | RvInvalidResponse
  | RvContextLimited | RvUnavailable | RvCancelled

record reviewer_result =
  rr_request :: string
  rr_adapter :: string
  rr_model :: string
  rr_snapshot :: snapshot_identity
  rr_status :: reviewer_status
  rr_findings :: "js_val list"
  rr_cost :: js_val
  rr_transcript :: "string option"
  rr_actions :: "js_val list"
  rr_tools :: js_num
  rr_cancel_latency :: "js_num option"

text \<open>\<open>xs.some(f)\<close> with a test that may throw.\<close>

fun e_some :: "('a \<Rightarrow> 'e + bool) \<Rightarrow> 'a list \<Rightarrow> 'e + bool" where
  "e_some f [] = Inr False"
| "e_some f (x # xs) = e_bind (f x) (\<lambda>b. if b then Inr True else e_some f xs)"

definition normalizeReviewerResult ::
    "reviewer_result \<Rightarrow> snapshot_identity \<Rightarrow> evidence_index \<Rightarrow> string + reviewer_result" where
  "normalizeReviewerResult r snap idx =
     (let reject = r\<lparr>rr_status := RvInvalidResponse, rr_findings := []\<rparr> in
      if \<not> sameSnapshot (rr_snapshot r) snap \<or> rr_actions r \<noteq> [] \<or> rr_tools r \<noteq> js_int 0
         \<or> isl (validateCostUnits (rr_cost r))
      then Inr reject
      else if rr_status r \<noteq> RvSucceeded then Inr (r\<lparr>rr_findings := []\<rparr>)
      else e_bind (e_some (\<lambda>f. e_bind (validateReviewerFinding f idx) (\<lambda>es. Inr (es \<noteq> []))) (rr_findings r)) (\<lambda>bad.
           Inr (if bad then reject else r)))"

section \<open>Findings of the judge\<close>

datatype verification_class = VcVerified | VcPartial | VcUnverified | VcFalsePositive

fun class_name :: "verification_class \<Rightarrow> string" where
  "class_name VcVerified = ''VERIFIED''" | "class_name VcPartial = ''PARTIALLY_VERIFIED''"
| "class_name VcUnverified = ''UNVERIFIED''" | "class_name VcFalsePositive = ''FALSE_POSITIVE''"

definition class_of :: "js_val \<Rightarrow> verification_class option" where
  "class_of v = find (\<lambda>c. VStr (class_name c) = v) [VcVerified, VcPartial, VcUnverified, VcFalsePositive]"

record judged_finding =
  jf_key :: string
  jf_sources :: "string list"
  jf_class :: verification_class
  jf_severity :: severity
  jf_evidence :: "string list"
  jf_rationale :: string

record judge_result =
  jr_snapshot :: snapshot_identity
  jr_findings :: "js_val list"
  jr_actions :: "js_val list"
  jr_tools :: js_num

definition alnum :: "char \<Rightarrow> bool" where
  "alnum c = (let n = of_char c :: nat in 48 \<le> n \<and> n \<le> 57 \<or> 65 \<le> n \<and> n \<le> 90 \<or> 97 \<le> n \<and> n \<le> 122)"

text \<open>\<open>/^[a-z0-9][a-z0-9._:\/-]{2,127}$/i\<close>.\<close>

definition canonical_key :: "string \<Rightarrow> bool" where
  "canonical_key s \<longleftrightarrow> 3 \<le> length s \<and> length s \<le> 128 \<and> alnum (hd s) \<and> list_all (\<lambda>c. alnum c \<or> c \<in> set ''._:/-'') (tl s)"

definition all_in :: "js_val \<Rightarrow> string set \<Rightarrow> bool" where
  "all_in v S \<longleftrightarrow> is_arr v \<and> list_all (\<lambda>x. case x of VStr s \<Rightarrow> s \<in> S | _ \<Rightarrow> False) (elems v)"

definition judged_errors :: "string set \<Rightarrow> string set \<Rightarrow> js_val \<Rightarrow> string list" where
  "judged_errors sources refs f =
     (if \<not> (case val_get f ''canonicalFindingKey'' of VStr k \<Rightarrow> canonical_key k | _ \<Rightarrow> False) then [''canonical_key''] else [])
   @ (if \<not> all_in (val_get f ''sourceFindingIds'') sources then [''source_finding''] else [])
   @ (if \<not> all_in (val_get f ''evidenceRefs'') refs then [''evidence_ref''] else [])
   @ (if \<not> (case val_get f ''rationaleRef'' of VStr r \<Rightarrow> r \<in> refs | _ \<Rightarrow> False) then [''rationale_ref''] else [])
   @ (if class_of (val_get f ''classification'') = None then [''classification''] else [])
   @ (if risk_of (val_get f ''severity'') = None then [''severity''] else [])"

definition judged :: "js_val \<Rightarrow> judged_finding" where
  "judged f =
     \<lparr>jf_key = str_of (val_get f ''canonicalFindingKey''), jf_sources = strings_of (val_get f ''sourceFindingIds''),
      jf_class = the (class_of (val_get f ''classification'')), jf_severity = the (risk_of (val_get f ''severity'')),
      jf_evidence = strings_of (val_get f ''evidenceRefs''), jf_rationale = str_of (val_get f ''rationaleRef'')\<rparr>"

text \<open>A finding that is \<open>null\<close> or \<open>undefined\<close> has no fields to read: the outer left value. The inner one are the
  errors of a judgement that is not accepted.\<close>

definition validateJudgeResult ::
    "judge_result \<Rightarrow> snapshot_identity \<Rightarrow> string set \<Rightarrow> string set \<Rightarrow> string + (string list + judged_finding list)" where
  "validateJudgeResult r snap sources refs =
     (let errors = (if \<not> sameSnapshot (jr_snapshot r) snap then [''snapshot''] else [])
            @ (if jr_actions r \<noteq> [] then [''action_requests''] else [])
            @ (if jr_tools r \<noteq> js_int 0 then [''tool_use''] else [])
            @ concat (map (judged_errors sources refs) (jr_findings r)) in
      if VNull \<in> set (jr_findings r) \<or> VUndef \<in> set (jr_findings r) then Inl ''TypeError: cannot read properties of null''
      else if errors \<noteq> [] then Inr (Inl (uniqueSorted errors)) else Inr (Inr (map judged (jr_findings r))))"

definition groupJudgedFindings :: "judged_finding list \<Rightarrow> (string \<times> judged_finding list) list" where
  "groupJudgedFindings fs =
     fold (\<lambda>f m. AList.update (jf_key f) ((case map_of m (jf_key f) of Some gs \<Rightarrow> gs | None \<Rightarrow> []) @ [f]) m) fs []"

section \<open>The decision\<close>

datatype reviewer_coverage = RcFull | RcDegraded | RcInsufficient | RcInfrastructure

definition classifyReviewerCoverage :: "reviewer_result list \<Rightarrow> reviewer_coverage \<times> nat" where
  "classifyReviewerCoverage rs =
     (let available = length (filter (\<lambda>r. rr_status r = RvSucceeded) rs) in
      (if available \<ge> 4 then RcFull else if available = 3 then RcDegraded
       else if available = 2 then RcInsufficient else RcInfrastructure, available))"

definition hasFinding :: "judged_finding list \<Rightarrow> verification_class list \<Rightarrow> severity list \<Rightarrow> bool" where
  "hasFinding fs classes severities = list_ex (\<lambda>f. jf_class f \<in> set classes \<and> jf_severity f \<in> set severities) fs"

datatype check_status = CkPassed | CkFailed | CkTimedOut | CkInfrastructure

record check_result =
  cr_id :: string
  cr_status :: check_status
  cr_required :: bool
  cr_duration :: js_num
  cr_evidence :: string

record decision_input =
  di_checks :: "check_result list"
  di_risk :: risk_level
  di_coverage :: coverage
  di_reviewers :: "reviewer_result list"
  di_judged :: "judged_finding list"
  di_judge_available :: bool
  di_human :: "bool option"
  di_blocking :: "severity option"

datatype quality_decision = QdPass | QdPassWithWarnings | QdHuman | QdFail | QdInfrastructure

record quality_outcome =
  qo_decision :: quality_decision
  qo_reasons :: "string list"
  qo_coverage :: reviewer_coverage

definition blocking_index :: "decision_input \<Rightarrow> nat" where
  "blocking_index i = risk_rank (case di_blocking i of Some s \<Rightarrow> s | None \<Rightarrow> RiskHigh)"

definition reason_if :: "bool \<Rightarrow> string \<Rightarrow> string list" where
  "reason_if b r = (if b then [r] else [])"

definition decideQuality :: "decision_input \<Rightarrow> quality_outcome" where
  "decideQuality i =
     (let reviewerCoverage = fst (classifyReviewerCoverage (di_reviewers i));
          required = filter cr_required (di_checks i);
          deterministicBlocker = list_ex (\<lambda>c. cr_status c = CkFailed \<or> cr_status c = CkTimedOut) required;
          deterministicInfrastructure = list_ex (\<lambda>c. cr_status c = CkInfrastructure) required;
          blockingSeverities = drop (blocking_index i) SEVERITY_ORDER;
          warningSeverities = take (blocking_index i) SEVERITY_ORDER;
          verifiedBlocker = hasFinding (di_judged i) [VcVerified] blockingSeverities;
          outcome = (\<lambda>d rs. \<lparr>qo_decision = d, qo_reasons = rs, qo_coverage = reviewerCoverage\<rparr>) in
      if deterministicBlocker \<or> verifiedBlocker
      then outcome QdFail (reason_if deterministicBlocker ''deterministic_blocker'' @ reason_if verifiedBlocker ''verified_blocking_finding'')
      else if deterministicInfrastructure \<or> reviewerCoverage = RcInfrastructure
      then outcome QdInfrastructure
             (reason_if deterministicInfrastructure ''deterministic_infrastructure_failure''
              @ reason_if (reviewerCoverage = RcInfrastructure) ''reviewer_infrastructure_failure'')
      else
        let human = reason_if (\<not> di_judge_available i) ''judge_unavailable''
              @ reason_if (reviewerCoverage = RcInsufficient) ''insufficient_reviewers''
              @ reason_if (di_risk i = RiskCritical) ''critical_risk''
              @ reason_if (di_coverage i = CovLimited) ''limited_analysis''
              @ reason_if (di_human i = Some True) ''policy_requires_human''
              @ reason_if (hasFinding (di_judged i) [VcPartial, VcUnverified] blockingSeverities) ''unresolved_blocking_finding'' in
        if human \<noteq> [] then outcome QdHuman (uniqueSorted human)
        else
          let warnings = reason_if (reviewerCoverage = RcDegraded) ''degraded_reviewers''
                @ reason_if (di_coverage i = CovPartial) ''partial_analysis''
                @ reason_if (hasFinding (di_judged i) [VcVerified] warningSeverities) ''verified_warning'' in
          outcome (if warnings \<noteq> [] then QdPassWithWarnings else QdPass) (uniqueSorted warnings))"

section \<open>The decision is exactly the policy\<close>

lemma severities_split:
  "set (drop (risk_rank b) SEVERITY_ORDER) = {x. b \<le> x}" "set (take (risk_rank b) SEVERITY_ORDER) = {x. x < b}"
proof -
  have "x \<in> set (drop (risk_rank b) SEVERITY_ORDER) \<longleftrightarrow> b \<le> x" for x
    by (cases b; cases x) (simp_all add: RISK_ORDER_def less_eq_risk_level_def)
  then show "set (drop (risk_rank b) SEVERITY_ORDER) = {x. b \<le> x}" by blast
  have "x \<in> set (take (risk_rank b) SEVERITY_ORDER) \<longleftrightarrow> x < b" for x
    by (cases b; cases x) (simp_all add: RISK_ORDER_def less_risk_level_def numeral_3_eq_3 numeral_2_eq_2)
  then show "set (take (risk_rank b) SEVERITY_ORDER) = {x. x < b}" by blast
qed

definition blocking_level :: "decision_input \<Rightarrow> severity" where
  "blocking_level i = (case di_blocking i of Some s \<Rightarrow> s | None \<Rightarrow> RiskHigh)"

definition succeeded :: "decision_input \<Rightarrow> nat" where
  "succeeded i = length (filter (\<lambda>r. rr_status r = RvSucceeded) (di_reviewers i))"

definition blockers :: "decision_input \<Rightarrow> verification_class set \<Rightarrow> bool" where
  "blockers i classes \<longleftrightarrow> (\<exists>f \<in> set (di_judged i). jf_class f \<in> classes \<and> blocking_level i \<le> jf_severity f)"

definition required_all :: "decision_input \<Rightarrow> check_status set \<Rightarrow> bool" where
  "required_all i sts \<longleftrightarrow> (\<forall>c \<in> set (di_checks i). cr_required c \<longrightarrow> cr_status c \<in> sts)"

lemma hasFinding_blocking:
  "hasFinding (di_judged i) cs (drop (blocking_index i) SEVERITY_ORDER) \<longleftrightarrow> blockers i (set cs)"
  by (auto simp: hasFinding_def blockers_def list_ex_iff blocking_index_def blocking_level_def severities_split)

lemma hasFinding_warning:
  "hasFinding (di_judged i) cs (take (blocking_index i) SEVERITY_ORDER) \<longleftrightarrow>
     (\<exists>f \<in> set (di_judged i). jf_class f \<in> set cs \<and> jf_severity f < blocking_level i)"
  by (auto simp: hasFinding_def list_ex_iff blocking_index_def blocking_level_def severities_split)

lemma coverage_cases:
  "fst (classifyReviewerCoverage (di_reviewers i)) = RcFull \<longleftrightarrow> 4 \<le> succeeded i"
  "fst (classifyReviewerCoverage (di_reviewers i)) = RcDegraded \<longleftrightarrow> succeeded i = 3"
  "fst (classifyReviewerCoverage (di_reviewers i)) = RcInsufficient \<longleftrightarrow> succeeded i = 2"
  "fst (classifyReviewerCoverage (di_reviewers i)) = RcInfrastructure \<longleftrightarrow> succeeded i < 2"
  by (auto simp: classifyReviewerCoverage_def Let_def succeeded_def)

lemma reason_if_Nil [simp]: "reason_if b r = [] \<longleftrightarrow> \<not> b"
  by (simp add: reason_if_def)

lemma required_ex:
  "list_ex (\<lambda>c. cr_status c = CkFailed \<or> cr_status c = CkTimedOut) (filter cr_required (di_checks i))
     \<longleftrightarrow> \<not> required_all i {CkPassed, CkInfrastructure}"
  "list_ex (\<lambda>c. cr_status c = CkInfrastructure) (filter cr_required (di_checks i))
     \<longleftrightarrow> \<not> required_all i {CkPassed, CkFailed, CkTimedOut}"
proof -
  have st: "s \<in> {CkPassed, CkInfrastructure} \<longleftrightarrow> s \<noteq> CkFailed \<and> s \<noteq> CkTimedOut"
    "s \<in> {CkPassed, CkFailed, CkTimedOut} \<longleftrightarrow> s \<noteq> CkInfrastructure" for s by (cases s; simp)+
  show "list_ex (\<lambda>c. cr_status c = CkFailed \<or> cr_status c = CkTimedOut) (filter cr_required (di_checks i))
     \<longleftrightarrow> \<not> required_all i {CkPassed, CkInfrastructure}"
    "list_ex (\<lambda>c. cr_status c = CkInfrastructure) (filter cr_required (di_checks i))
     \<longleftrightarrow> \<not> required_all i {CkPassed, CkFailed, CkTimedOut}"
    unfolding required_all_def list_ex_iff st by auto
qed

lemma required_passed:
  "required_all i {CkPassed} \<longleftrightarrow> required_all i {CkPassed, CkInfrastructure} \<and> required_all i {CkPassed, CkFailed, CkTimedOut}"
  unfolding required_all_def by (auto, metis (full_types) check_status.exhaust check_status.distinct)

lemma blockers_all: "blockers i (A \<union> B) \<longleftrightarrow> blockers i A \<or> blockers i B"
  unfolding blockers_def by blast

lemma blockers_insert: "blockers i (insert a B) \<longleftrightarrow> blockers i {a} \<or> blockers i B"
  unfolding blockers_def by blast

text \<open>C35: the quality decision is exactly the stated policy, decision by decision. FAIL: a required check failed
  or timed out, or a finding of blocking severity was verified. INFRASTRUCTURE_FAILURE: not that, but a required
  check could not run or fewer than two reviewers answered. HUMAN_REVIEW_REQUIRED: neither, but the judge was not
  available, only two reviewers answered, the risk is critical, the analysis limited, human approval required by
  policy, or a finding of blocking severity not decided. A change passes, with or without warnings, exactly
  when every required check passed, at least three reviewers answered, the judge was available, the
  risk is not critical, the analysis not limited, no human approval is required, and every finding of
  blocking severity was judged a false positive; it passes without warnings exactly when, besides, four
  reviewers answered, the analysis was complete and no finding at all was verified.\<close>

theorem decision_is_exactly_the_policy:
  "(qo_decision (decideQuality i) = QdFail \<longleftrightarrow> \<not> required_all i {CkPassed, CkInfrastructure} \<or> blockers i {VcVerified})
   \<and> (qo_decision (decideQuality i) = QdInfrastructure \<longleftrightarrow>
        required_all i {CkPassed, CkInfrastructure} \<and> \<not> blockers i {VcVerified}
        \<and> (\<not> required_all i {CkPassed} \<or> succeeded i < 2))
   \<and> (qo_decision (decideQuality i) = QdHuman \<longleftrightarrow>
        required_all i {CkPassed} \<and> \<not> blockers i {VcVerified} \<and> 2 \<le> succeeded i
        \<and> (succeeded i = 2 \<or> \<not> di_judge_available i \<or> di_risk i = RiskCritical \<or> di_coverage i = CovLimited
           \<or> di_human i = Some True \<or> blockers i {VcPartial, VcUnverified}))
   \<and> (qo_decision (decideQuality i) \<in> {QdPass, QdPassWithWarnings} \<longleftrightarrow>
        required_all i {CkPassed} \<and> 3 \<le> succeeded i \<and> di_judge_available i \<and> di_risk i \<noteq> RiskCritical
        \<and> di_coverage i \<noteq> CovLimited \<and> di_human i \<noteq> Some True \<and> \<not> blockers i {VcVerified, VcPartial, VcUnverified})
   \<and> (qo_decision (decideQuality i) = QdPass \<longleftrightarrow>
        qo_decision (decideQuality i) \<in> {QdPass, QdPassWithWarnings} \<and> 4 \<le> succeeded i \<and> di_coverage i = CovFull
        \<and> (\<forall>f \<in> set (di_judged i). jf_class f \<noteq> VcVerified))"
proof -
  have quiet: "(\<forall>f \<in> set (di_judged i). jf_class f \<noteq> VcVerified) \<longleftrightarrow>
      \<not> blockers i {VcVerified} \<and> \<not> (\<exists>f \<in> set (di_judged i). jf_class f \<in> {VcVerified} \<and> jf_severity f < blocking_level i)"
    unfolding blockers_def by (auto simp: not_le)
  have full: "di_coverage i = CovFull \<longleftrightarrow> di_coverage i \<noteq> CovPartial \<and> di_coverage i \<noteq> CovLimited"
    by (cases "di_coverage i") simp_all
  note facts = hasFinding_blocking hasFinding_warning required_ex coverage_cases
  consider "succeeded i < 2" | "succeeded i = 2" | "succeeded i = 3" | "4 \<le> succeeded i" by linarith
  then show ?thesis
    unfolding decideQuality_def Let_def facts quiet required_passed full blockers_insert [of i VcVerified "{VcPartial, VcUnverified}"]
    by cases simp_all
qed

definition demo_decision :: decision_input where
  "demo_decision =
     \<lparr>di_checks = [\<lparr>cr_id = ''t'', cr_status = CkPassed, cr_required = True, cr_duration = js_int 1, cr_evidence = []\<rparr>],
      di_risk = RiskLow, di_coverage = CovFull, di_reviewers = [], di_judged = [], di_judge_available = True, di_human = None, di_blocking = None\<rparr>"

theorem decision_is_exactly_the_policy_witness:
  "qo_decision (decideQuality demo_decision) = QdInfrastructure"
  using decision_is_exactly_the_policy [of demo_decision]
  by (simp add: demo_decision_def required_all_def succeeded_def blockers_def)

section \<open>What an accepted review has passed\<close>

text \<open>Error names never trim to nothing, so no error is lost.\<close>

lemma trim_nonblank: "\<not> is_ws c \<Longrightarrow> trim (c # s) \<noteq> []"
  by (simp add: trim_def dropWhile_append)

lemma one_error: "trim x \<noteq> [] \<Longrightarrow> (\<forall>e \<in> set (if b then [x] else []). trim e = []) \<longleftrightarrow> \<not> b"
  by (cases b) simp_all

lemma error_names [simp]:
  "trim ''required_string'' \<noteq> []" "trim ''severity'' \<noteq> []" "trim ''confidence'' \<noteq> []" "trim ''evidence'' \<noteq> []"
  by (simp_all add: trim_nonblank is_ws_def)

lemma uniqueSorted_Nil: "uniqueSorted es = [] \<longleftrightarrow> (\<forall>e \<in> set es. trim e = [])"
proof -
  have "uniqueSorted es = [] \<longleftrightarrow> set (uniqueSorted es) = {}" by (simp only: set_empty)
  then show ?thesis by auto
qed

definition cited :: "evidence_index \<Rightarrow> js_val \<Rightarrow> bool" where
  "cited idx c \<longleftrightarrow> (\<exists>path file. val_get c ''path'' = VStr path \<and> map_of idx path = Some file
     \<and> js_integer (num_of (val_get c ''startLine'')) \<and> js_integer (num_of (val_get c ''endLine''))
     \<and> js_le (js_int 1) (num_of (val_get c ''startLine'')) \<and> js_le (num_of (val_get c ''startLine'')) (num_of (val_get c ''endLine''))
     \<and> \<not> js_lt (ef_lines file) (num_of (val_get c ''endLine''))
     \<and> (case map_of (ef_hashes file) (range_key (num_of (val_get c ''startLine'')) (num_of (val_get c ''endLine''))) of
          Some h \<Rightarrow> val_get c ''excerptHash'' = VStr h
        | None \<Rightarrow> val_get c ''excerptHash'' = VUndef))"

definition finding_ok :: "evidence_index \<Rightarrow> js_val \<Rightarrow> bool" where
  "finding_ok idx f \<longleftrightarrow> list_all (\<lambda>k. nonEmpty (val_get f k)) FINDING_STRINGS \<and> risk_of (val_get f ''severity'') \<noteq> None
     \<and> js_le (js_int 0) (num_of (val_get f ''confidence'')) \<and> js_le (num_of (val_get f ''confidence'')) (js_int 1)
     \<and> elems (val_get f ''evidence'') \<noteq> [] \<and> (\<forall>c \<in> set (elems (val_get f ''evidence'')). cited idx c)"

lemma bad_lines_iff: "\<not> bad_lines a b \<longleftrightarrow> js_integer a \<and> js_integer b \<and> js_le (js_int 1) a \<and> js_le a b"
proof -
  have "js_integer n \<Longrightarrow> n \<noteq> JNaN" for n by (rule js_integer_number)
  then show ?thesis unfolding bad_lines_def using js_not_le by (metis js_num.distinct(5))
qed

lemma citation_clean: "citation_errors idx c = Inr es \<Longrightarrow> (\<forall>e \<in> set es. trim e = []) \<Longrightarrow> cited idx c"
  by (auto simp: citation_errors_def Let_def cited_def bad_lines_iff obj_lookup_def nonEmpty_def str_of_def trim_nonblank is_ws_def
      opt_val_def split: if_splits js_property.splits option.splits js_val.splits)

lemma confidence_ok:
  "\<not> (\<not> js_finite n \<or> js_lt n (js_int 0) \<or> js_lt (js_int 1) n) \<longleftrightarrow> js_le (js_int 0) n \<and> js_le n (js_int 1)"
  by (cases n) auto

lemma field_clean:
  "(\<forall>e \<in> set (field_errors f). trim e = []) \<longleftrightarrow> list_all (\<lambda>k. nonEmpty (val_get f k)) FINDING_STRINGS
     \<and> risk_of (val_get f ''severity'') \<noteq> None
     \<and> js_le (js_int 0) (num_of (val_get f ''confidence'')) \<and> js_le (num_of (val_get f ''confidence'')) (js_int 1)"
  using confidence_ok [of "num_of (val_get f ''confidence'')"]
  by (simp only: field_errors_def Let_def set_append ball_Un one_error [OF error_names(1)] one_error [OF error_names(2)]
      one_error [OF error_names(3)]) (simp add: list_all_iff list_ex_iff)

lemma e_map_image: "e_map f xs = Inr ys \<Longrightarrow> x \<in> set xs \<Longrightarrow> \<exists>y \<in> set ys. f x = Inr y"
  by (induction xs arbitrary: ys) (auto simp: e_bind_Inr_iff)

lemma validate_clean:
  assumes "validateReviewerFinding f idx = Inr []"
  shows "finding_ok idx f"
proof -
  let ?ev = "val_get f ''evidence''"
  have arr: "is_arr ?ev" "elems ?ev \<noteq> []"
    using assms by (auto simp: validateReviewerFinding_def Let_def uniqueSorted_Nil split: if_splits)
  then obtain ess where ess: "e_map (citation_errors idx) (elems ?ev) = Inr ess" "uniqueSorted (field_errors f @ concat ess) = []"
    using assms by (auto simp: validateReviewerFinding_def Let_def e_bind_Inr_iff split: if_splits)
  have fields: "\<forall>e \<in> set (field_errors f). trim e = []" using ess(2) by (simp add: uniqueSorted_Nil)
  have "cited idx c" if c: "c \<in> set (elems ?ev)" for c
  proof -
    obtain es where "citation_errors idx c = Inr es" "es \<in> set ess" using e_map_image [OF ess(1) c] by blast
    moreover have "\<forall>e \<in> set es. trim e = []"
      using ess(2) \<open>es \<in> set ess\<close> unfolding uniqueSorted_Nil set_append set_concat by blast
    ultimately show ?thesis using citation_clean by blast
  qed
  then show ?thesis using arr(2) fields field_clean by (simp add: finding_ok_def)
qed

lemma e_some_False: "e_some f xs = Inr False \<Longrightarrow> x \<in> set xs \<Longrightarrow> f x = Inr False"
  by (induction xs) (auto simp: e_bind_Inr_iff split: if_splits)

text \<open>C36: only validated reviews count. If normalization returns a result that still SUCCEEDED, it is the
  reviewer's own, for exactly this snapshot, without action requests or tool use, with a valid cost, and
  every finding in it has all its texts, a known severity, a confidence between 0 and 1, and at least one
  citation; each citation names lines of a file of the snapshot and carries the hash the index holds for that
  range, or no hash where the index holds none. Any other
  result carries no findings, and normalization never turns another status into success.\<close>

theorem reviewer_result_is_validated:
  assumes "normalizeReviewerResult r snap idx = Inr r'"
  shows "(rr_status r' = RvSucceeded \<longrightarrow> r' = r \<and> sameSnapshot (rr_snapshot r) snap \<and> rr_actions r = [] \<and> rr_tools r = js_int 0
        \<and> (\<exists>n. validateCostUnits (rr_cost r) = Inr n) \<and> (\<forall>f \<in> set (rr_findings r). finding_ok idx f))
    \<and> (rr_status r' \<noteq> RvSucceeded \<longrightarrow> rr_findings r' = []) \<and> (rr_status r \<noteq> RvSucceeded \<longrightarrow> rr_status r' \<noteq> RvSucceeded)"
proof (cases "\<not> sameSnapshot (rr_snapshot r) snap \<or> rr_actions r \<noteq> [] \<or> rr_tools r \<noteq> js_int 0 \<or> isl (validateCostUnits (rr_cost r))")
  case True
  then have "r' = r\<lparr>rr_status := RvInvalidResponse, rr_findings := []\<rparr>"
    using assms by (simp add: normalizeReviewerResult_def Let_def)
  then show ?thesis by simp
next
  case ok: False
  then have cost: "\<exists>n. validateCostUnits (rr_cost r) = Inr n" by (cases "validateCostUnits (rr_cost r)") simp_all
  show ?thesis
  proof (cases "rr_status r = RvSucceeded")
    case True
    then obtain bad where bad: "e_some (\<lambda>f. e_bind (validateReviewerFinding f idx) (\<lambda>es. Inr (es \<noteq> []))) (rr_findings r) = Inr bad"
      "r' = (if bad then r\<lparr>rr_status := RvInvalidResponse, rr_findings := []\<rparr> else r)"
      using assms ok by (auto simp: normalizeReviewerResult_def Let_def e_bind_Inr_iff)
    have "finding_ok idx f" if "f \<in> set (rr_findings r)" "\<not> bad" for f
    proof -
      have "e_bind (validateReviewerFinding f idx) (\<lambda>es. Inr (es \<noteq> [])) = Inr False" using e_some_False [OF _ that(1)] bad(1) that(2) by simp
      then show ?thesis by (auto simp: e_bind_Inr_iff intro: validate_clean)
    qed
    then show ?thesis using bad(2) ok cost True by (cases bad) auto
  next
    case False
    then have "r' = r\<lparr>rr_findings := []\<rparr>" using assms ok by (simp add: normalizeReviewerResult_def Let_def)
    then show ?thesis using False by simp
  qed
qed

section \<open>What an accepted judgement has passed\<close>

lemma all_in_strings: "all_in v S \<Longrightarrow> set (strings_of v) \<subseteq> S"
  by (auto simp: all_in_def list_all_iff strings_of_def str_of_def split: js_val.splits dest!: bspec)

text \<open>An accepted judgement is about this snapshot, requests no action and used no tool, and each of
  its findings has a canonical key, names only findings the reviewers made, cites only evidence it was
  shown, and rests on a recorded rationale.\<close>

theorem judge_result_is_validated:
  assumes "validateJudgeResult r snap sources refs = Inr (Inr fs)"
  shows "sameSnapshot (jr_snapshot r) snap \<and> jr_actions r = [] \<and> jr_tools r = js_int 0 \<and> length fs = length (jr_findings r)
    \<and> (\<forall>f \<in> set fs. canonical_key (jf_key f) \<and> set (jf_sources f) \<subseteq> sources \<and> set (jf_evidence f) \<subseteq> refs \<and> jf_rationale f \<in> refs)"
proof -
  have head: "sameSnapshot (jr_snapshot r) snap" "jr_actions r = []" "jr_tools r = js_int 0" "fs = map judged (jr_findings r)"
    and clean: "\<forall>v \<in> set (jr_findings r). judged_errors sources refs v = []"
    using assms by (auto simp: validateJudgeResult_def Let_def split: if_splits)
  have "canonical_key (jf_key (judged v)) \<and> set (jf_sources (judged v)) \<subseteq> sources \<and> set (jf_evidence (judged v)) \<subseteq> refs \<and> jf_rationale (judged v) \<in> refs"
    if "judged_errors sources refs v = []" for v
    using that all_in_strings
    by (auto simp: judged_errors_def judged_def str_of_def split: if_splits js_val.splits)
  then show ?thesis using head clean by simp
qed

section \<open>Two gaps of the evidence check\<close>

definition citation :: "string \<Rightarrow> int \<Rightarrow> int \<Rightarrow> js_val" where
  "citation path a b = VObj [(''path'', VStr path), (''startLine'', vint a), (''endLine'', vint b)]"

text \<open>A citation without a hash matches a range the index holds no hash for: both are \<open>undefined\<close>.\<close>

lemma unhashed_citation_passes:
  assumes "map_of idx path = Some file" "trim path \<noteq> []" "1 \<le> a" "a \<le> b" "js_le (js_int b) (ef_lines file)"
    "map_of (ef_hashes file) (range_key (js_int a) (js_int b)) = None"
  shows "citation_errors idx (citation path a b) = Inr []"
proof -
  have "\<not> bad_lines (js_int a) (js_int b)" using assms(3,4) by (simp add: bad_lines_def js_integer_def)
  moreover have "\<not> js_lt (ef_lines file) (js_int b)" using assms(5) by (cases "ef_lines file") auto
  ultimately show ?thesis using assms(1,2,6)
    by (simp add: citation_errors_def citation_def fields_get_def nonEmpty_def str_of_def num_of_def obj_lookup_def opt_val_def)
qed

text \<open>A citation of a path every object inherits throws instead of being reported.\<close>

lemma inherited_path_throws:
  "map_of idx ''constructor'' = None \<Longrightarrow>
   citation_errors idx (citation ''constructor'' 1 1) = Inl ''TypeError: cannot read properties of undefined''"
  by (simp add: citation_errors_def citation_def fields_get_def nonEmpty_def str_of_def num_of_def obj_lookup_def
      OBJECT_PROTOTYPE_def bad_lines_def js_integer_def trim_def is_ws_def)

section \<open>Concrete reviews\<close>

definition demo_snapshot :: snapshot_identity where
  "demo_snapshot = \<lparr>si_repository = ''o/r'', si_number = js_int 1, si_base = ''b'', si_head = ''h'', si_merge_base = ''m'',
     si_diff = ''d'', si_policy = ''p''\<rparr>"

definition demo_finding :: js_val where
  "demo_finding = VObj
     ([(k, VStr ''x''). k \<leftarrow> FINDING_STRINGS] @ [(''severity'', VStr ''HIGH''), (''confidence'', vint 1),
      (''evidence'', VArr [VObj [(''path'', VStr ''a''), (''startLine'', vint 1), (''endLine'', vint 1), (''excerptHash'', VStr ''e'')]])])"

definition demo_review :: reviewer_result where
  "demo_review = \<lparr>rr_request = [], rr_adapter = [], rr_model = [], rr_snapshot = demo_snapshot, rr_status = RvSucceeded,
     rr_findings = [demo_finding], rr_cost = vint 1, rr_transcript = None, rr_actions = [], rr_tools = js_int 0, rr_cancel_latency = None\<rparr>"

definition demo_index :: evidence_index where
  "demo_index = [(''a'', \<lparr>ef_lines = js_int 1, ef_hashes = [(''1:1'', ''e'')]\<rparr>)]"

lemma demo_normal:
  "case normalizeReviewerResult demo_review demo_snapshot demo_index of Inl _ \<Rightarrow> False | Inr r \<Rightarrow> rr_status r = RvSucceeded"
  by code_simp

theorem reviewer_result_is_validated_witness:
  "normalizeReviewerResult demo_review demo_snapshot demo_index = Inr demo_review \<and> finding_ok demo_index demo_finding"
proof -
  obtain r where r: "normalizeReviewerResult demo_review demo_snapshot demo_index = Inr r" "rr_status r = RvSucceeded"
    using demo_normal by (auto split: sum.splits)
  from reviewer_result_is_validated [OF r(1)] r show ?thesis by (simp add: demo_review_def)
qed

definition demo_judgement :: judge_result where
  "demo_judgement = \<lparr>jr_snapshot = demo_snapshot,
     jr_findings = [VObj [(''canonicalFindingKey'', VStr ''abc''), (''sourceFindingIds'', VArr [VStr ''C0:x'']),
       (''evidenceRefs'', VArr [VStr ''e'']), (''rationaleRef'', VStr ''q''), (''classification'', VStr ''VERIFIED''),
       (''severity'', VStr ''LOW'')]],
     jr_actions = [], jr_tools = js_int 0\<rparr>"

lemma demo_judged:
  "case validateJudgeResult demo_judgement demo_snapshot (set [''C0:x'']) (set [''e'', ''q'']) of Inr (Inr _) \<Rightarrow> True | _ \<Rightarrow> False"
  by code_simp

theorem judge_result_is_validated_witness:
  "\<exists>f. validateJudgeResult demo_judgement demo_snapshot (set [''C0:x'']) (set [''e'', ''q'']) = Inr (Inr [f]) \<and> set (jf_evidence f) \<subseteq> {''e'', ''q''}"
proof -
  obtain fs where fs: "validateJudgeResult demo_judgement demo_snapshot (set [''C0:x'']) (set [''e'', ''q'']) = Inr (Inr fs)"
    using demo_judged by (auto split: sum.splits)
  note ok = judge_result_is_validated [OF fs]
  have "length fs = 1" using ok by (simp add: demo_judgement_def)
  then obtain f where "fs = [f]" by (metis One_nat_def length_0_conv length_Suc_conv)
  then show ?thesis using fs ok by simp
qed

end
