(* ===== verification/PrGate.thy ===== *)
theory PrGate
  imports PrReview Budget Machines "HOL-Library.Multiset"
begin

text \<open>
  The run of the pull-request gate: its state machine and usage accounting (\<open>core/src/pr-gate/kernel.ts\<close>)
  and the execution of the planned checks (\<open>core/src/pr-gate/checks.ts\<close>), whose executor, clock, abort
  signal and hash are arguments.
\<close>

section \<open>The state machine\<close>

datatype (plugins only: code size) pr_state =
    P_QUEUED | P_ACQUIRING | P_CLASSIFYING | P_SNAPSHOT_ATTESTING | P_CHECKING | P_REVIEWING | P_JUDGING
  | P_DECIDING | P_REPORTING | P_AWAITING_HUMAN | P_COMPLETED | P_CANCELLED_STALE | P_CANCELLED
  | P_FAILED_INFRASTRUCTURE | P_REPORTING_FAILED | P_FAILED_INTERNAL

fun NORMAL_NEXT :: "pr_state \<Rightarrow> pr_state option" where
  "NORMAL_NEXT P_QUEUED = Some P_ACQUIRING"
| "NORMAL_NEXT P_ACQUIRING = Some P_CLASSIFYING"
| "NORMAL_NEXT P_CLASSIFYING = Some P_SNAPSHOT_ATTESTING"
| "NORMAL_NEXT P_SNAPSHOT_ATTESTING = Some P_CHECKING"
| "NORMAL_NEXT P_CHECKING = Some P_REVIEWING"
| "NORMAL_NEXT P_REVIEWING = Some P_JUDGING"
| "NORMAL_NEXT P_JUDGING = Some P_DECIDING"
| "NORMAL_NEXT P_DECIDING = Some P_REPORTING"
| "NORMAL_NEXT P_REPORTING = Some P_COMPLETED"
| "NORMAL_NEXT P_AWAITING_HUMAN = Some P_REPORTING"
| "NORMAL_NEXT _ = None"

definition PR_ACTIVE_STATES :: "pr_state list" where
  "PR_ACTIVE_STATES =
     [P_QUEUED, P_ACQUIRING, P_CLASSIFYING, P_SNAPSHOT_ATTESTING, P_CHECKING, P_REVIEWING, P_JUDGING, P_DECIDING,
      P_REPORTING, P_AWAITING_HUMAN]"

definition TERMINAL_FROM_ACTIVE :: "pr_state list" where
  "TERMINAL_FROM_ACTIVE = [P_CANCELLED_STALE, P_CANCELLED, P_FAILED_INFRASTRUCTURE, P_FAILED_INTERNAL]"

text \<open>\<open>None\<close> is the refusal \<open>invalid_transition\<close>, with the state unchanged.\<close>

definition transitionPrGateState :: "pr_state \<Rightarrow> pr_state \<Rightarrow> quality_decision option \<Rightarrow> pr_state option" where
  "transitionPrGateState current nxt decision =
     (if NORMAL_NEXT current = Some nxt \<and> \<not> (current = P_REPORTING \<and> decision = Some QdHuman)
         \<or> current = P_REPORTING \<and> nxt = P_AWAITING_HUMAN \<and> decision = Some QdHuman
         \<or> current = P_REPORTING \<and> nxt = P_REPORTING_FAILED
         \<or> current \<in> set PR_ACTIVE_STATES \<and> nxt \<in> set TERMINAL_FROM_ACTIVE
      then Some nxt else None)"

type_synonym pr_event = "pr_state \<times> quality_decision option"

definition pr_step :: "pr_state \<Rightarrow> pr_event \<Rightarrow> pr_state option" where
  "pr_step s e = transitionPrGateState s (fst e) (snd e)"

definition pr_live :: "pr_state \<Rightarrow> bool" where
  "pr_live s \<longleftrightarrow> s \<in> set PR_ACTIVE_STATES"

text \<open>The states a run must have entered, in order, to be where it is.\<close>

definition PHASES :: "pr_state list" where
  "PHASES = [P_ACQUIRING, P_CLASSIFYING, P_SNAPSHOT_ATTESTING, P_CHECKING, P_REVIEWING, P_JUDGING, P_DECIDING, P_REPORTING]"

fun entered :: "pr_state \<Rightarrow> pr_state list" where
  "entered P_ACQUIRING = take 1 PHASES"
| "entered P_CLASSIFYING = take 2 PHASES"
| "entered P_SNAPSHOT_ATTESTING = take 3 PHASES"
| "entered P_CHECKING = take 4 PHASES"
| "entered P_REVIEWING = take 5 PHASES"
| "entered P_JUDGING = take 6 PHASES"
| "entered P_DECIDING = take 7 PHASES"
| "entered P_REPORTING = PHASES"
| "entered P_AWAITING_HUMAN = PHASES @ [P_AWAITING_HUMAN]"
| "entered P_COMPLETED = PHASES @ [P_COMPLETED]"
| "entered P_REPORTING_FAILED = PHASES @ [P_REPORTING_FAILED]"
| "entered _ = []"

definition pr_owes :: "pr_state \<Rightarrow> pr_event list set" where
  "pr_owes s = {h. map fst h = entered s}"

lemma subseq_of_map: "subseq xs (map f ys) \<Longrightarrow> \<exists>zs. subseq zs ys \<and> map f zs = xs"
proof (induction ys arbitrary: xs)
  case Nil
  then show ?case by (cases xs) auto
next
  case (Cons y ys)
  show ?case
  proof (cases xs)
    case (Cons x xs')
    show ?thesis
    proof (cases "x = f y")
      case True
      then have "subseq xs' (map f ys)" using Cons.prems Cons by (simp add: subseq_Cons2_iff)
      then obtain zs where "subseq zs ys" "map f zs = xs'" using Cons.IH by blast
      then show ?thesis using True Cons by (intro exI [of _ "y # zs"]) simp
    next
      case False
      then have "subseq xs (map f ys)" using Cons.prems Cons by (simp add: subseq_Cons2_iff)
      then obtain zs where "subseq zs ys" "map f zs = xs" using Cons.IH by blast
      then show ?thesis by (intro exI [of _ zs]) auto
    qed
  qed simp
qed

lemma entered_step:
  "transitionPrGateState s t d = Some t' \<Longrightarrow> t' = t \<and> subseq (entered t) (entered s @ [t])"
  by (cases s; cases t) (auto simp: transitionPrGateState_def PHASES_def PR_ACTIVE_STATES_def TERMINAL_FROM_ACTIVE_def split: if_splits)

interpretation pr_gate: milestone_machine pr_step pr_live pr_owes
proof unfold_locales
  fix s e
  show "\<not> pr_live s \<Longrightarrow> pr_step s e = None"
    by (cases s) (auto simp: pr_live_def pr_step_def transitionPrGateState_def PR_ACTIVE_STATES_def)
next
  fix s e t h
  assume step: "pr_step s e = Some t" and h: "h \<in> pr_owes s"
  have "t = fst e" "subseq (entered t) (map fst (h @ [e]))"
    using entered_step step h by (auto simp: pr_step_def pr_owes_def)
  then obtain h' where "subseq h' (h @ [e])" "map fst h' = entered t" using subseq_of_map by blast
  then show "\<exists>h' \<in> pr_owes t. subseq h' (h @ [e])" unfolding pr_owes_def by blast
qed

text \<open>C34: a run of the gate completes only after every phase, in order, from acquiring the source to
  reporting; the step that completes it is not taken on a decision that requires a human; and a run
  that has ended refuses every further step.\<close>

theorem pr_gate_completes_through_every_phase:
  assumes "pr_gate.run P_QUEUED es = Some P_COMPLETED"
  shows "subseq (PHASES @ [P_COMPLETED]) (map fst es) \<and> (\<exists>d. last es = (P_COMPLETED, d) \<and> d \<noteq> Some QdHuman)
    \<and> pr_gate.run P_QUEUED (es @ [e]) = None"
proof -
  obtain h where h: "h \<in> pr_owes P_COMPLETED" "subseq h es"
    using pr_gate.run_owes [OF assms] by (auto simp: pr_owes_def)
  have "subseq (map fst h) (map fst es)" using h(2) by (rule subseq_map)
  moreover have "map fst h = PHASES @ [P_COMPLETED]" using h(1) by (simp add: pr_owes_def)
  moreover have "es \<noteq> []" using assms by auto
  then obtain es' x where es: "es = es' @ [x]" by (metis rev_exhaust)
  then obtain u where "pr_step u x = Some P_COMPLETED" using assms pr_gate.run_snoc by blast
  then have "fst x = P_COMPLETED \<and> snd x \<noteq> Some QdHuman"
    by (cases u) (auto simp: pr_step_def transitionPrGateState_def TERMINAL_FROM_ACTIVE_def split: if_splits)
  then have "\<exists>d. last es = (P_COMPLETED, d) \<and> d \<noteq> Some QdHuman" using es by (cases x) auto
  moreover have "pr_gate.run P_QUEUED (es @ [e]) = None"
    using assms pr_gate.dead_stuck [of P_COMPLETED e] by (simp add: pr_gate.run_append pr_live_def PR_ACTIVE_STATES_def)
  ultimately show ?thesis by simp
qed

definition demo_phases :: "pr_event list" where
  "demo_phases = map (\<lambda>s. (s, Some QdHuman)) (PHASES @ [P_AWAITING_HUMAN]) @ [(P_REPORTING, None), (P_COMPLETED, Some QdPass)]"

theorem pr_gate_completes_through_every_phase_witness:
  "pr_gate.run P_QUEUED demo_phases = Some P_COMPLETED \<and> pr_gate.run P_QUEUED (demo_phases @ [(P_CANCELLED, None)]) = None"
proof -
  have "pr_gate.run P_QUEUED demo_phases = Some P_COMPLETED"
    by (simp add: demo_phases_def PHASES_def pr_step_def transitionPrGateState_def)
  then show ?thesis using pr_gate_completes_through_every_phase [of demo_phases "(P_CANCELLED, None)"] by blast
qed

section \<open>Usage\<close>

record usage_projection =
  up_run :: string
  up_head :: string
  up_cost :: js_num
  up_requests :: "(string \<times> js_num) list"

record usage_request =
  ur_run :: string
  ur_head :: string
  ur_id :: string
  ur_cost :: js_val

datatype usage_refusal = IdentityMismatch | InvalidCost

text \<open>The left value is the refusal, with the projection unchanged; the flag of the right one is \<open>replay\<close>.\<close>

definition applyUsage :: "usage_projection \<Rightarrow> usage_request \<Rightarrow> usage_refusal + bool \<times> usage_projection" where
  "applyUsage p r =
     (if ur_run r \<noteq> up_run p \<or> ur_head r \<noteq> up_head p then Inl IdentityMismatch
      else if obj_lookup (up_requests p) (ur_id r) \<noteq> Absent then Inr (True, p)
      else case validateCostUnits (ur_cost r) of
        Inl _ \<Rightarrow> Inl InvalidCost
      | Inr cost \<Rightarrow>
          (case addCostUnits (VNum (up_cost p)) (VNum cost) of
             Inl _ \<Rightarrow> Inl InvalidCost
           | Inr tot \<Rightarrow>
               Inr (False, p\<lparr>up_cost := tot, up_requests := AList.update (ur_id r) cost (up_requests p)\<rparr>)))"

definition usage_settle :: "usage_projection \<Rightarrow> usage_request \<Rightarrow> usage_projection" where
  "usage_settle p r = (case applyUsage p r of Inl _ \<Rightarrow> p | Inr (_, q) \<Rightarrow> q)"

text \<open>The books balance: the total is the sum of the recorded costs, in the order they were charged.\<close>

definition usage_inv :: "usage_projection \<Rightarrow> bool" where
  "usage_inv p \<longleftrightarrow> up_cost p = foldl js_add (js_int 0) (map snd (up_requests p)) \<and> distinct (map fst (up_requests p))
     \<and> cost_ok (up_cost p) \<and> (\<forall>c \<in> set (map snd (up_requests p)). js_finite c \<and> js_le (js_int 0) c)"

definition usage_empty :: "string \<Rightarrow> string \<Rightarrow> usage_projection" where
  "usage_empty run sha = \<lparr>up_run = run, up_head = sha, up_cost = js_int 0, up_requests = []\<rparr>"

lemma update_new: "map_of m k = None \<Longrightarrow> AList.update k v m = m @ [(k, v)]"
  by (induction m) (auto split: if_splits)

lemma obj_lookup_absent: "obj_lookup m k = Absent \<longleftrightarrow> map_of m k = None \<and> k \<notin> set OBJECT_PROTOTYPE"
  by (simp add: obj_lookup_def split: option.splits)

lemma addCostUnits_sum: "addCostUnits (VNum a) (VNum b) = Inr n \<Longrightarrow> n = js_add a b"
  by (auto simp: addCostUnits_def Let_def validateCostUnits_Inr split: sum.splits if_splits)

lemma applyUsage_cases:
  assumes "applyUsage p r = Inr (b, q)"
  shows "ur_run r = up_run p \<and> ur_head r = up_head p \<and>
    (if b then q = p \<and> (ur_id r \<in> set (map fst (up_requests p)) \<or> ur_id r \<in> set OBJECT_PROTOTYPE)
     else \<exists>cost. ur_cost r = VNum cost \<and> js_finite cost \<and> js_le (js_int 0) cost
       \<and> addCostUnits (VNum (up_cost p)) (VNum cost) = Inr (up_cost q)
       \<and> ur_id r \<notin> set (map fst (up_requests p))
       \<and> q = p\<lparr>up_cost := js_add (up_cost p) cost, up_requests := up_requests p @ [(ur_id r, cost)]\<rparr>)"
proof (cases "obj_lookup (up_requests p) (ur_id r) = Absent")
  case True
  then have new: "map_of (up_requests p) (ur_id r) = None" by (simp add: obj_lookup_absent)
  obtain cost total where v: "validateCostUnits (ur_cost r) = Inr cost"
    and a: "addCostUnits (VNum (up_cost p)) (VNum cost) = Inr total" and b: "\<not> b"
    and q: "q = p\<lparr>up_cost := total, up_requests := AList.update (ur_id r) cost (up_requests p)\<rparr>"
    using assms True by (auto simp: applyUsage_def split: if_splits sum.splits)
  have "js_finite cost \<and> js_le (js_int 0) cost \<and> ur_cost r = VNum cost" using v by (auto simp: validateCostUnits_Inr)
  moreover have "total = js_add (up_cost p) cost" using addCostUnits_sum [OF a] .
  moreover have "ur_id r \<notin> set (map fst (up_requests p))" using new by (simp add: map_of_eq_None_iff)
  moreover have "ur_run r = up_run p \<and> ur_head r = up_head p" using assms by (simp add: applyUsage_def split: if_splits)
  ultimately show ?thesis using b q a update_new [OF new] by simp
next
  case False
  then have "map_of (up_requests p) (ur_id r) \<noteq> None \<or> ur_id r \<in> set OBJECT_PROTOTYPE" by (simp add: obj_lookup_absent)
  then show ?thesis using assms False by (auto simp: applyUsage_def map_of_eq_None_iff split: if_splits)
qed

lemma usage_step_inv:
  assumes "usage_inv p"
  shows "usage_inv (usage_settle p r) \<and> js_le (up_cost p) (up_cost (usage_settle p r))
    \<and> up_run (usage_settle p r) = up_run p \<and> up_head (usage_settle p r) = up_head p
    \<and> (\<exists>new. up_requests (usage_settle p r) = up_requests p @ new)"
proof (cases "\<exists>q. applyUsage p r = Inr (False, q)")
  case True
  then obtain q where step: "applyUsage p r = Inr (False, q)" by blast
  obtain cost where c: "js_finite cost" "js_le (js_int 0) cost" "addCostUnits (VNum (up_cost p)) (VNum cost) = Inr (up_cost q)"
      "ur_id r \<notin> set (map fst (up_requests p))"
      "q = p\<lparr>up_cost := js_add (up_cost p) cost, up_requests := up_requests p @ [(ur_id r, cost)]\<rparr>"
    using applyUsage_cases [OF step] by auto
  have "cost_ok (up_cost q) \<and> js_le (up_cost p) (up_cost q)"
    using addCostUnits_Inr [OF c(3)] assms unfolding usage_inv_def by blast
  then show ?thesis using c assms step by (auto simp: usage_settle_def usage_inv_def)
next
  case False
  have "usage_settle p r = p"
  proof (cases "applyUsage p r")
    case (Inr a)
    then show ?thesis using False applyUsage_cases [of p r "fst a" "snd a"] by (cases a) (auto simp: usage_settle_def split: if_splits)
  qed (simp add: usage_settle_def)
  moreover have "up_cost p \<noteq> JNaN" using assms by (auto simp: usage_inv_def cost_ok_def)
  ultimately show ?thesis using assms by simp
qed

lemma usage_fold_inv:
  assumes "usage_inv p"
  shows "usage_inv (foldl usage_settle p rs) \<and> js_le (up_cost p) (up_cost (foldl usage_settle p rs))
    \<and> up_run (foldl usage_settle p rs) = up_run p \<and> up_head (foldl usage_settle p rs) = up_head p
    \<and> (\<exists>new. up_requests (foldl usage_settle p rs) = up_requests p @ new)"
  using assms
proof (induction rs arbitrary: p)
  case Nil
  then show ?case by (auto simp: usage_inv_def cost_ok_def)
next
  case (Cons r rs)
  have "usage_inv (usage_settle p r)" using usage_step_inv [OF Cons.prems] by blast
  then show ?case using usage_step_inv [OF Cons.prems, of r] Cons.IH [of "usage_settle p r"]
    by (force intro: js_le_trans)
qed

lemma usage_empty_inv: "usage_inv (usage_empty run sha)"
  by (auto simp: usage_inv_def usage_empty_def cost_ok_def is_double_def)

text \<open>Through any sequence of usage reports, refused and replayed ones included, the total of a gate
  run stays the sum of its recorded request costs, each finite, non-negative and recorded once; a
  report never lowers the total or drops a record; and a request that has been charged is answered
  as a replay ever after, at no further cost.\<close>

theorem usage_books_balance:
  "let p = foldl usage_settle (usage_empty run sha) before; q = foldl usage_settle p after in
     usage_inv p \<and> usage_inv q \<and> js_le (up_cost p) (up_cost q) \<and> (\<exists>new. up_requests q = up_requests p @ new)
     \<and> list_all (\<lambda>(k, c). applyUsage q \<lparr>ur_run = run, ur_head = sha, ur_id = k, ur_cost = v\<rparr> = Inr (True, q)) (up_requests p)"
proof -
  define p where "p = foldl usage_settle (usage_empty run sha) before"
  define q where "q = foldl usage_settle p after"
  have p: "usage_inv p" "up_run p = run" "up_head p = sha"
    unfolding p_def using usage_fold_inv [OF usage_empty_inv, of run sha before] by (simp_all add: usage_empty_def)
  have q: "usage_inv q" "up_run q = run" "up_head q = sha" "js_le (up_cost p) (up_cost q)"
    "\<exists>new. up_requests q = up_requests p @ new"
    unfolding q_def using usage_fold_inv [OF p(1), of after] p(2,3) by simp_all
  have "applyUsage q \<lparr>ur_run = run, ur_head = sha, ur_id = k, ur_cost = v\<rparr> = Inr (True, q)"
    if "(k, c) \<in> set (up_requests p)" for k c
  proof -
    have "k \<in> set (map fst (up_requests q))" using q(5) that by force
    then have "obj_lookup (up_requests q) k \<noteq> Absent" by (auto simp: obj_lookup_absent map_of_eq_None_iff)
    then show ?thesis using q(2,3) by (simp add: applyUsage_def)
  qed
  then show ?thesis using p(1) q unfolding p_def [symmetric] q_def [symmetric] Let_def by (auto simp: list_all_iff)
qed

section \<open>The planned checks\<close>

text \<open>A check result as it is imported: its status is any text until it has been matched with the plan.\<close>

record imported_check =
  ic_id :: string
  ic_status :: string
  ic_required :: bool
  ic_duration :: js_num
  ic_evidence :: string

definition CHECK_STATUSES :: "string list" where
  "CHECK_STATUSES = [''PASSED'', ''FAILED'', ''TIMED_OUT'', ''INFRASTRUCTURE_FAILURE'']"

definition is_hex :: "char \<Rightarrow> bool" where
  "is_hex c \<longleftrightarrow> (let n = of_char c :: nat in 48 \<le> n \<and> n \<le> 57 \<or> 97 \<le> n \<and> n \<le> 102)"

definition sha256_ref :: "string \<Rightarrow> bool" where
  "sha256_ref s \<longleftrightarrow> take 7 s = ''sha256:'' \<and> length s = 71 \<and> list_all is_hex (drop 7 s)"

definition imported_ok :: "imported_check \<Rightarrow> bool" where
  "imported_ok r \<longleftrightarrow> ic_status r \<in> set CHECK_STATUSES \<and> js_finite (ic_duration r) \<and> \<not> js_lt (ic_duration r) (js_int 0)
     \<and> sha256_ref (ic_evidence r)"

text \<open>\<open>new Map(...)\<close>: of two checks with one id, the later.\<close>

definition planned_map :: "det_check list \<Rightarrow> string \<Rightarrow> det_check option" where
  "planned_map checks = map_of (rev (map (\<lambda>c. (dc_id c, c)) checks))"

fun match_results :: "(string \<Rightarrow> det_check option) \<Rightarrow> string list \<Rightarrow> imported_check list \<Rightarrow> bool" where
  "match_results planned seen [] = True"
| "match_results planned seen (r # rs) =
     (case planned (ic_id r) of
        None \<Rightarrow> False
      | Some check \<Rightarrow> ic_id r \<notin> set seen \<and> ic_required r = dc_required check \<and> imported_ok r
          \<and> match_results planned (ic_id r # seen) rs)"

text \<open>\<open>False\<close> is the thrown \<open>deterministic report does not match resolved check plan\<close>.\<close>

definition assertDeterministicReportMatchesPlan :: "det_check list \<Rightarrow> imported_check list \<Rightarrow> bool" where
  "assertDeterministicReportMatchesPlan checks results \<longleftrightarrow>
     length (uniq (map dc_id checks)) = length checks \<and> length results = length checks
     \<and> match_results (planned_map checks) [] results"

lemma match_results_iff:
  "match_results planned seen rs \<longleftrightarrow>
     (\<forall>r \<in> set rs. ic_id r \<notin> set seen \<and> imported_ok r \<and> map_option dc_required (planned (ic_id r)) = Some (ic_required r))
     \<and> distinct (map ic_id rs)"
  by (induction rs arbitrary: seen) (force simp: image_iff split: option.splits)+

lemma uniq_length: "length (uniq xs) = length xs \<longleftrightarrow> distinct xs"
proof -
  have "length (uniq xs) = card (set xs)" using distinct_card [OF distinct_uniq, of xs] by simp
  then show ?thesis using card_distinct [of xs] distinct_card [of xs] by metis
qed

lemma planned_map_Some:
  "distinct (map dc_id checks) \<Longrightarrow> planned_map checks k = Some c \<longleftrightarrow> c \<in> set checks \<and> dc_id c = k"
  unfolding planned_map_def
  by (subst map_of_eq_Some_iff) (auto simp: rev_map [symmetric] comp_def distinct_rev simp del: rev_map)

text \<open>The reference: the report covers the plan, check for check.\<close>

definition plan_key :: "det_check \<Rightarrow> string \<times> bool" where
  "plan_key c = (dc_id c, dc_required c)"

definition result_key :: "imported_check \<Rightarrow> string \<times> bool" where
  "result_key r = (ic_id r, ic_required r)"

text \<open>A report is accepted exactly when the plan's ids are distinct, the report's results are the
  plan's checks with their required flags, each once and in any order, and every result is well formed
  (a known status, a finite non-negative duration, a SHA-256 evidence reference).\<close>

theorem report_matches_plan_iff:
  "assertDeterministicReportMatchesPlan checks results \<longleftrightarrow>
     distinct (map dc_id checks) \<and> mset (map result_key results) = mset (map plan_key checks) \<and> list_all imported_ok results"
proof (cases "distinct (map dc_id checks)")
  case dist: True
  have lookup: "map_option dc_required (planned_map checks (ic_id r)) = Some (ic_required r) \<longleftrightarrow> result_key r \<in> set (map plan_key checks)" for r
  proof -
    have "map_option dc_required (planned_map checks (ic_id r)) = Some (ic_required r)
        \<longleftrightarrow> (\<exists>c. planned_map checks (ic_id r) = Some c \<and> dc_required c = ic_required r)" by auto
    also have "\<dots> \<longleftrightarrow> (\<exists>c \<in> set checks. result_key r = plan_key c)"
      by (auto simp: planned_map_Some [OF dist] result_key_def plan_key_def intro: sym)
    finally show ?thesis by (simp add: image_iff)
  qed
  have keys: "distinct (map plan_key checks)" using dist by (simp add: distinct_map inj_on_def plan_key_def)
  have fst_keys: "map fst (map plan_key checks) = map dc_id checks" "map fst (map result_key results) = map ic_id results"
    by (simp_all add: plan_key_def result_key_def)
  have "length (uniq (map dc_id checks)) = length checks" using dist uniq_length [of "map dc_id checks"] by simp
  moreover have "length results = length checks \<and> set (map result_key results) \<subseteq> set (map plan_key checks) \<and> distinct (map ic_id results)
      \<longleftrightarrow> mset (map result_key results) = mset (map plan_key checks)" (is "?l \<longleftrightarrow> ?r")
  proof
    assume l: ?l
    then have d: "distinct (map result_key results)" using fst_keys(2) by (metis distinct_map)
    have "card (set (map result_key results)) = card (set (map plan_key checks))"
      using l distinct_card [OF d] distinct_card [OF keys] by simp
    then have "set (map result_key results) = set (map plan_key checks)" using l by (intro card_subset_eq) auto
    then show ?r using d keys set_eq_iff_mset_eq_distinct by blast
  next
    assume r: ?r
    then have "mset (map ic_id results) = mset (map dc_id checks)" using fst_keys by (metis mset_map)
    then have "distinct (map ic_id results)" using dist by (metis mset_eq_imp_distinct_iff)
    then show ?l using r mset_eq_length [OF r] mset_eq_setD [OF r] by simp
  qed
  ultimately show ?thesis using dist lookup
    unfolding assertDeterministicReportMatchesPlan_def match_results_iff by (auto simp: list_all_iff)
next
  case False
  then show ?thesis using uniq_length [of "map dc_id checks"] by (simp add: assertDeterministicReportMatchesPlan_def)
qed

text \<open>
  What the outside does during one check: whether the run has been aborted when the check is reached and
  after the executor is done, whether the check's timer has fired, and what the executor returns or throws.
\<close>

record check_outcome =
  po_status :: check_status
  po_duration :: js_num
  po_evidence :: string

record check_turn =
  ct_aborted_before :: bool
  ct_result :: "string + check_outcome"
  ct_aborted_after :: bool
  ct_timed_out :: bool

record check_world =
  cw_turn :: "nat \<Rightarrow> det_check \<Rightarrow> check_turn"
  cw_reason :: string
  cw_timeout_ref :: "string \<Rightarrow> string"
  cw_report_ref :: "snapshot_identity \<Rightarrow> check_result list \<Rightarrow> string"

record planned_report =
  pr_snapshot :: snapshot_identity
  pr_checks :: "check_result list"
  pr_ref :: string

text \<open>\<open>AbortSignal.timeout\<close> takes a whole number of milliseconds that fits 32 bits, and throws otherwise.\<close>

definition timeout_ok :: "js_num \<Rightarrow> bool" where
  "timeout_ok n \<longleftrightarrow> js_integer n \<and> js_le (js_int 0) n \<and> js_le n (js_int 4294967295)"

definition run_check :: "check_world \<Rightarrow> nat \<Rightarrow> det_check \<Rightarrow> string + check_result" where
  "run_check w i check =
     (let t = cw_turn w i check in
      if ct_aborted_before t then Inl (cw_reason w)
      else if dc_network check \<noteq> ''none'' \<or> dc_install check
        then Inl (''check '' @ dc_id check @ '' violates enforcing isolation policy'')
      else if \<not> timeout_ok (dc_timeout check) then Inl ''ERR_OUT_OF_RANGE''
      else e_bind
        (case ct_result t of
           Inr outcome \<Rightarrow> Inr outcome
         | Inl err \<Rightarrow>
             if ct_aborted_after t then Inl (cw_reason w)
             else if ct_timed_out t
               then Inr \<lparr>po_status = CkTimedOut, po_duration = dc_timeout check, po_evidence = cw_timeout_ref w (dc_id check)\<rparr>
             else Inl err)
        (\<lambda>outcome. Inr \<lparr>cr_id = dc_id check, cr_status = po_status outcome, cr_required = dc_required check,
                         cr_duration = po_duration outcome, cr_evidence = po_evidence outcome\<rparr>))"

fun status_text :: "check_status \<Rightarrow> string" where
  "status_text CkPassed = ''PASSED''"
| "status_text CkFailed = ''FAILED''"
| "status_text CkTimedOut = ''TIMED_OUT''"
| "status_text CkInfrastructure = ''INFRASTRUCTURE_FAILURE''"

definition imported :: "check_result \<Rightarrow> imported_check" where
  "imported r = \<lparr>ic_id = cr_id r, ic_status = status_text (cr_status r), ic_required = cr_required r,
     ic_duration = cr_duration r, ic_evidence = cr_evidence r\<rparr>"

definition runPlannedChecks :: "check_world \<Rightarrow> snapshot_identity \<Rightarrow> det_check list \<Rightarrow> string + planned_report" where
  "runPlannedChecks w snap checks =
     e_bind (e_map (\<lambda>(i, c). run_check w i c) (enumerate 0 checks)) (\<lambda>results.
       if assertDeterministicReportMatchesPlan checks (map imported results)
       then Inr \<lparr>pr_snapshot = snap, pr_checks = results, pr_ref = cw_report_ref w snap results\<rparr>
       else Inl ''deterministic report does not match resolved check plan'')"

definition ran_isolated :: "check_world \<Rightarrow> nat \<Rightarrow> det_check \<Rightarrow> check_result \<Rightarrow> bool" where
  "ran_isolated w i c r \<longleftrightarrow> \<not> ct_aborted_before (cw_turn w i c) \<and> dc_network c = ''none'' \<and> \<not> dc_install c
     \<and> cr_id r = dc_id c \<and> cr_required r = dc_required c
     \<and> (case ct_result (cw_turn w i c) of
          Inr out \<Rightarrow> cr_status r = po_status out \<and> cr_duration r = po_duration out \<and> cr_evidence r = po_evidence out
        | Inl _ \<Rightarrow> \<not> ct_aborted_after (cw_turn w i c) \<and> ct_timed_out (cw_turn w i c)
            \<and> cr_status r = CkTimedOut \<and> cr_duration r = dc_timeout c)"

lemma run_check_isolated: "run_check w i c = Inr r \<Longrightarrow> ran_isolated w i c r"
  by (auto simp: run_check_def ran_isolated_def Let_def e_bind_Inr_iff split: if_splits sum.splits)

text \<open>A report is produced only when every planned check was executed in plan order, without network or
  install, by a run that was not aborted; each result is the executor's own, or \<open>TIMED_OUT\<close> when it
  threw after the check's own timer fired; and the report passes the check an imported one must pass.\<close>

theorem planned_checks_run_isolated:
  assumes "runPlannedChecks w snap checks = Inr rep"
  shows "pr_snapshot rep = snap \<and> length (pr_checks rep) = length checks
    \<and> (\<forall>i < length checks. ran_isolated w i (checks ! i) (pr_checks rep ! i))
    \<and> assertDeterministicReportMatchesPlan checks (map imported (pr_checks rep))"
proof -
  obtain results where e: "e_map (\<lambda>(i, c). run_check w i c) (enumerate 0 checks) = Inr results"
    and m: "assertDeterministicReportMatchesPlan checks (map imported results)"
    and rep: "rep = \<lparr>pr_snapshot = snap, pr_checks = results, pr_ref = cw_report_ref w snap results\<rparr>"
    using assms by (auto simp: runPlannedChecks_def e_bind_Inr_iff split: if_splits)
  have l: "list_all2 (\<lambda>(i, c) r. run_check w i c = Inr r) (enumerate 0 checks) results"
    using e by (simp add: e_map_Inr_iff case_prod_unfold)
  have "ran_isolated w i (checks ! i) (results ! i)" if "i < length checks" for i
    using list_all2_nthD [OF l, of i] that by (simp add: nth_enumerate_eq run_check_isolated)
  moreover have "length results = length checks" using list_all2_lengthD [OF l] by simp
  ultimately show ?thesis using m rep by simp
qed

definition demo_checks :: "det_check list" where
  "demo_checks = [\<lparr>dc_id = ''lint'', dc_kind = KLint, dc_command = ''npm run lint'', dc_cwd = None, dc_required = True,
     dc_timeout = js_int 1000, dc_network = ''none'', dc_install = False, dc_profiles = [], dc_components = []\<rparr>]"

definition demo_ref :: string where
  "demo_ref = ''sha256:'' @ replicate 64 (CHR ''a'')"

definition demo_world :: check_world where
  "demo_world = \<lparr>cw_turn = (\<lambda>i c. \<lparr>ct_aborted_before = False, ct_result = Inl ''AbortError'', ct_aborted_after = False, ct_timed_out = True\<rparr>),
     cw_reason = ''cancelled'', cw_timeout_ref = (\<lambda>_. demo_ref), cw_report_ref = (\<lambda>_ _. demo_ref)\<rparr>"

theorem planned_checks_run_isolated_witness:
  "\<exists>rep. runPlannedChecks demo_world demo_snapshot demo_checks = Inr rep \<and> map cr_status (pr_checks rep) = [CkTimedOut]
     \<and> ran_isolated demo_world 0 (demo_checks ! 0) (pr_checks rep ! 0)"
proof -
  have "assertDeterministicReportMatchesPlan demo_checks
      [\<lparr>ic_id = ''lint'', ic_status = ''TIMED_OUT'', ic_required = True, ic_duration = js_int 1000, ic_evidence = demo_ref\<rparr>]"
    by (simp add: assertDeterministicReportMatchesPlan_def demo_checks_def planned_map_def imported_ok_def demo_ref_def sha256_ref_def
        CHECK_STATUSES_def is_hex_def uniq_def list_all_iff)
  then have "\<exists>rep. runPlannedChecks demo_world demo_snapshot demo_checks = Inr rep \<and> map cr_status (pr_checks rep) = [CkTimedOut]"
    by (simp add: runPlannedChecks_def demo_checks_def run_check_def demo_world_def Let_def timeout_ok_def js_integer_def imported_def)
  then show ?thesis using planned_checks_run_isolated [of demo_world demo_snapshot demo_checks]
    by (fastforce simp: demo_checks_def)
qed

end
