(* ===== verification/Rounding.thy ===== *)
theory Rounding
  imports Budget
begin

text \<open>
  Products and quotients of JavaScript numbers: the exact rational result, rounded to the nearest double
  (ties to even). Sums are rounded in the prelude, where the exact result is a whole number of units.
\<close>

section \<open>Rounding a rational\<close>

definition half_even_rat :: "rat \<Rightarrow> int" where
  "half_even_rat r =
     (let d = \<lfloor>r\<rfloor>; f = r - of_int d
      in if 2 * f < 1 \<or> (2 * f = 1 \<and> even d) then d else d + 1)"

definition round_rat :: "rat \<Rightarrow> rat" where
  "round_rat r =
     (let q = \<bar>r\<bar> * 2 ^ unit_exp; u = ulp_units \<lfloor>q\<rfloor>
      in sgn r * of_int (half_even_rat (q / of_int u) * u) / 2 ^ unit_exp)"

definition js_of_rat :: "rat \<Rightarrow> js_num" where
  "js_of_rat r =
     (let v = round_rat r
      in if v \<ge> 2 ^ double_emax then JPosInf else if v \<le> - (2 ^ double_emax) then JNegInf else JFin v)"

text \<open>The sign of a zero is not kept: a quotient by zero takes the sign of its dividend.\<close>

fun js_mul :: "js_num \<Rightarrow> js_num \<Rightarrow> js_num" where
  "js_mul (JFin a) (JFin b) = js_of_rat (a * b)"
| "js_mul JNaN _ = JNaN"
| "js_mul _ JNaN = JNaN"
| "js_mul JPosInf (JFin b) = (if b = 0 then JNaN else if b > 0 then JPosInf else JNegInf)"
| "js_mul (JFin a) JPosInf = (if a = 0 then JNaN else if a > 0 then JPosInf else JNegInf)"
| "js_mul JNegInf (JFin b) = (if b = 0 then JNaN else if b > 0 then JNegInf else JPosInf)"
| "js_mul (JFin a) JNegInf = (if a = 0 then JNaN else if a > 0 then JNegInf else JPosInf)"
| "js_mul JPosInf JPosInf = JPosInf"
| "js_mul JPosInf JNegInf = JNegInf"
| "js_mul JNegInf JPosInf = JNegInf"
| "js_mul JNegInf JNegInf = JPosInf"

fun js_div :: "js_num \<Rightarrow> js_num \<Rightarrow> js_num" where
  "js_div (JFin a) (JFin b) =
     (if b = 0 then (if a = 0 then JNaN else if a > 0 then JPosInf else JNegInf) else js_of_rat (a / b))"
| "js_div (JFin a) JPosInf = JFin 0"
| "js_div (JFin a) JNegInf = JFin 0"
| "js_div JPosInf (JFin b) = (if b < 0 then JNegInf else JPosInf)"
| "js_div JNegInf (JFin b) = (if b < 0 then JPosInf else JNegInf)"
| "js_div _ _ = JNaN"

section \<open>Rounding keeps the order\<close>

lemma half_even_rat_nonneg: "0 \<le> r \<Longrightarrow> 0 \<le> half_even_rat r"
  by (simp add: half_even_rat_def Let_def)

lemma half_even_rat_le: "r \<le> of_int k \<Longrightarrow> half_even_rat r \<le> k"
proof -
  assume r: "r \<le> of_int k"
  then have le: "\<lfloor>r\<rfloor> \<le> k" by (metis floor_mono floor_of_int)
  have "\<lfloor>r\<rfloor> < k" if "\<not> 2 * (r - of_int \<lfloor>r\<rfloor>) < 1"
  proof (rule ccontr)
    assume "\<not> \<lfloor>r\<rfloor> < k"
    then have "of_int \<lfloor>r\<rfloor> = (of_int k :: rat)" using le by simp
    then have "2 * (r - of_int \<lfloor>r\<rfloor>) \<le> 0" using r by simp
    then show False using that by (meson le_less_trans zero_less_one)
  qed
  then show ?thesis using le by (auto simp: half_even_rat_def Let_def)
qed

lemma half_even_rat_int [simp]: "half_even_rat (of_int k) = k"
  by (simp add: half_even_rat_def Let_def)

lemma round_rat_nonneg: "0 \<le> r \<Longrightarrow> 0 \<le> round_rat r"
proof -
  assume r: "0 \<le> r"
  let ?u = "ulp_units \<lfloor>r * 2 ^ unit_exp\<rfloor>"
  have u: "0 < ?u" by (rule ulp_units_pos)
  have "0 \<le> half_even_rat (r * 2 ^ unit_exp / of_int ?u)" using r u by (intro half_even_rat_nonneg) simp
  then have "0 \<le> half_even_rat (r * 2 ^ unit_exp / of_int ?u) * ?u" using u by simp
  then have "(0::rat) \<le> of_int (half_even_rat (r * 2 ^ unit_exp / of_int ?u) * ?u)" by (rule iffD2 [OF of_int_0_le_iff])
  then show ?thesis using r by (simp add: round_rat_def Let_def sgn_if)
qed

text \<open>The rounded value of a non-negative number is below every double the number is below.\<close>

lemma round_rat_le:
  assumes "0 \<le> r" "r \<le> c" "is_double c"
  shows "round_rat r \<le> c"
proof (cases "r = 0")
  case False
  let ?q = "r * 2 ^ unit_exp" and ?u = "ulp_units \<lfloor>r * 2 ^ unit_exp\<rfloor>"
  obtain n where n: "c = of_int n / 2 ^ unit_exp" "ulp_units n dvd n" using assms(3) by (auto simp: is_double_def)
  have q: "?q \<le> of_int n" using assms(2) n(1) by (simp add: field_simps)
  then have m: "\<lfloor>?q\<rfloor> \<le> n" by (metis floor_mono floor_of_int)
  have "0 \<le> \<lfloor>?q\<rfloor>" using assms(1) by simp
  then have "ulp_units n = 2 ^ (floorlog 2 (nat n) - 53)" "?u = 2 ^ (floorlog 2 (nat \<lfloor>?q\<rfloor>) - 53)"
    using m by (intro ulp_units_abs; linarith)+
  then have "?u dvd ulp_units n" using m by (simp add: le_imp_power_dvd diff_le_mono floorlog_mono nat_mono)
  then obtain j where j: "n = ?u * j" using n(2) by (meson dvd_trans dvdE)
  have u: "(0::rat) < of_int ?u" using ulp_units_pos by simp
  have "?q / of_int ?u \<le> of_int j" using q u by (simp add: j pos_divide_le_eq mult.commute)
  then have "half_even_rat (?q / of_int ?u) \<le> j" by (rule half_even_rat_le)
  then have "half_even_rat (?q / of_int ?u) * ?u \<le> n" using ulp_units_pos [of "\<lfloor>?q\<rfloor>"] j
    by (metis mult.commute mult_right_mono order_less_imp_le)
  then have "(of_int (half_even_rat (?q / of_int ?u) * ?u) :: rat) \<le> of_int n" by (rule iffD2 [OF of_int_le_iff])
  then show ?thesis using assms(1) False unfolding round_rat_def n(1) Let_def
    by (simp add: divide_right_mono sgn_if)
qed (use assms in \<open>simp add: round_rat_def\<close>)

text \<open>Whole numbers up to \<open>2 ^ 53\<close> are not rounded.\<close>

lemma round_rat_int:
  assumes "\<bar>k\<bar> \<le> 2 ^ 53"
  shows "round_rat (of_int k) = of_int k"
proof -
  let ?n = "\<bar>k\<bar> * 2 ^ unit_exp"
  have n: "\<bar>of_int k\<bar> * 2 ^ unit_exp = (of_int ?n :: rat)" by simp
  have "ulp_units ?n dvd ?n" using assms by (intro ulp_units_scaled) simp
  then obtain j where j: "?n = ulp_units ?n * j" by (rule dvdE)
  have "(of_int ?n / of_int (ulp_units ?n) :: rat) = of_int j"
    using ulp_units_pos [of ?n] by (subst j) simp
  then have "half_even_rat (of_int ?n / of_int (ulp_units ?n)) * ulp_units ?n = ?n"
    by (subst (2) j) (simp add: mult.commute)
  moreover have "round_rat (of_int k) =
      sgn (of_int k) * of_int (half_even_rat (of_int ?n / of_int (ulp_units ?n)) * ulp_units ?n) / 2 ^ unit_exp"
    by (simp only: round_rat_def Let_def n floor_of_int)
  ultimately have "round_rat (of_int k) = sgn (of_int k) * of_int ?n / 2 ^ unit_exp" by (simp only:)
  also have "\<dots> = sgn (of_int k) * \<bar>of_int k\<bar>" by simp
  also have "\<dots> = of_int k" by (simp add: mult_sgn_abs)
  finally show ?thesis .
qed

lemma js_of_rat_int:
  assumes "\<bar>k\<bar> \<le> 2 ^ 53"
  shows "js_of_rat (of_int k) = JFin (of_int k)"
proof -
  have "of_int \<bar>k\<bar> \<le> (of_int (2 ^ 53) :: rat)" using assms by (rule iffD2 [OF of_int_le_iff])
  also have "\<dots> < 2 ^ double_emax" unfolding double_emax_def by (simp add: power_strict_increasing)
  finally have "\<bar>of_int k\<bar> < (2 ^ double_emax :: rat)" by simp
  then show ?thesis by (simp add: js_of_rat_def round_rat_int [OF assms] Let_def abs_less_iff)
qed

lemma js_of_rat_01 [simp]: "js_of_rat 0 = JFin 0" "js_of_rat 1 = JFin 1"
  using js_of_rat_int [of 0] js_of_rat_int [of 1] by simp_all

text \<open>The sum of the prelude, rounded, is below every double the exact one is below.\<close>

lemma round_double_le:
  assumes "0 \<le> r" "r \<le> c" "is_double c"
  shows "round_double r \<le> c"
proof -
  obtain n where n: "c = of_int n / 2 ^ unit_exp" "ulp_units n dvd n" using assms(3) by (auto simp: is_double_def)
  define k where "k = \<lfloor>r * 2 ^ unit_exp\<rfloor>"
  have "r * 2 ^ unit_exp \<le> of_int n" using assms(2) n(1) by (simp add: field_simps)
  then have m: "k \<le> n" unfolding k_def by (metis floor_mono floor_of_int)
  have m0: "0 \<le> k" unfolding k_def using assms(1) by simp
  then have "ulp_units n = 2 ^ (floorlog 2 (nat n) - 53)" "ulp_units k = 2 ^ (floorlog 2 (nat k) - 53)"
    using m by (intro ulp_units_abs; linarith)+
  then have "ulp_units k dvd ulp_units n" using m by (simp add: le_imp_power_dvd diff_le_mono floorlog_mono nat_mono)
  then obtain j where j: "n = ulp_units k * j" using n(2) by (meson dvd_trans dvdE)
  have "round_units k \<le> n"
  proof (cases "k = n")
    case True
    then show ?thesis using round_units_exact [of n] n(2) by simp
  next
    case False
    then have "k < ulp_units k * j" using m j by simp
    then have "half_even k (ulp_units k) \<le> j" by (rule half_even_le [OF ulp_units_pos])
    then have "half_even k (ulp_units k) * ulp_units k \<le> j * ulp_units k"
      using ulp_units_pos [of k] by (intro mult_right_mono) auto
    then have le: "half_even k (ulp_units k) * ulp_units k \<le> n" using j by (simp add: mult.commute)
    show ?thesis using m0 m le by (cases "k = 0") (auto simp: round_units_def)
  qed
  then have "(of_int (round_units k) :: rat) \<le> of_int n" by (rule iffD2 [OF of_int_le_iff])
  then show ?thesis unfolding n(1) round_double_def k_def [symmetric] by (rule divide_right_mono) simp
qed

lemma js_sub_bounds:
  assumes "is_double a" "0 \<le> b" "b \<le> a" "a < 2 ^ double_emax"
  shows "\<exists>v. js_sub (JFin a) (JFin b) = JFin v \<and> 0 \<le> v \<and> v \<le> a \<and> is_double v"
proof -
  have r: "0 \<le> a - b" "a - b \<le> a" using assms by simp_all
  then have v: "0 \<le> round_double (a - b)" "round_double (a - b) \<le> a" "is_double (round_double (a - b))"
    using assms(1) by (auto intro: round_double_nonneg round_double_le is_double_round)
  then have "round_double (a - b) < 2 ^ double_emax" using assms(4) by linarith
  moreover have "- (2 ^ double_emax) < (0::rat)" by simp
  then have "\<not> round_double (a - b) \<le> - (2 ^ double_emax)" using v(1) by linarith
  ultimately show ?thesis using v by (auto simp: js_sub_def to_js_def Let_def)
qed

end
