(* ===== verification/Breaker.thy ===== *)
theory Breaker
  imports Rounding CoreTypes
begin

text \<open>
  The circuit breaker of the agent layer (\<open>aal/src/breaker.ts\<close>): per key, closed until the failure rate
  of a full window trips it, open for a cooldown, then half open for one probe. The injected clock
  is read at most twice by an operation: \<open>fst c\<close> is its first reading and \<open>snd c\<close> the second. The sink
  is the list of the transitions handed to it.
\<close>

section \<open>The breaker\<close>

datatype breaker_state = BrClosed | BrOpen | BrHalfOpen

record breaker_opts =
  bo_window :: js_num
  bo_threshold :: js_num
  bo_open_ms :: js_num

definition DEFAULT_BREAKER_OPTIONS :: breaker_opts where
  "DEFAULT_BREAKER_OPTIONS = \<lparr>bo_window = js_int 5, bo_threshold = JFin (1 / 2), bo_open_ms = js_int 30000\<rparr>"

record breaker_transition =
  bx_key :: string
  bx_from :: breaker_state
  bx_to :: breaker_state
  bx_at :: int

record key_state =
  ks_status :: breaker_state
  ks_window :: "bool list"
  ks_opened :: int
  ks_probe :: bool

record breaker =
  bk_keys :: "string \<Rightarrow> key_state option"
  bk_sink :: "breaker_transition list"

type_synonym clock = "int \<times> int"

definition createBreaker :: breaker where
  "createBreaker = \<lparr>bk_keys = (\<lambda>_. None), bk_sink = []\<rparr>"

definition fresh_key :: key_state where
  "fresh_key = \<lparr>ks_status = BrClosed, ks_window = [], ks_opened = 0, ks_probe = False\<rparr>"

definition ensure :: "string \<Rightarrow> breaker \<Rightarrow> key_state" where
  "ensure k b = (case bk_keys b k of Some s \<Rightarrow> s | None \<Rightarrow> fresh_key)"

definition put_key :: "string \<Rightarrow> key_state \<Rightarrow> breaker \<Rightarrow> breaker" where
  "put_key k s b = b\<lparr>bk_keys := (bk_keys b)(k \<mapsto> s)\<rparr>"

definition emit_transition :: "string \<Rightarrow> breaker_state \<Rightarrow> breaker_state \<Rightarrow> int \<Rightarrow> breaker \<Rightarrow> breaker" where
  "emit_transition k from to t b = b\<lparr>bk_sink := bk_sink b @ [\<lparr>bx_key = k, bx_from = from, bx_to = to, bx_at = t\<rparr>]\<rparr>"

definition promote :: "breaker_opts \<Rightarrow> clock \<Rightarrow> string \<Rightarrow> breaker \<Rightarrow> breaker" where
  "promote opts c k b =
     (let s = ensure k b in
      if ks_status s = BrOpen \<and> js_le (bo_open_ms opts) (js_int (fst c - ks_opened s))
      then emit_transition k BrOpen BrHalfOpen (snd c) (put_key k (s\<lparr>ks_status := BrHalfOpen, ks_probe := False\<rparr>) b)
      else put_key k s b)"

definition tripsOpen :: "breaker_opts \<Rightarrow> bool list \<Rightarrow> bool" where
  "tripsOpen opts w =
     (if js_lt (js_int (int (length w))) (bo_window opts) then False
      else js_le (bo_threshold opts)
             (js_div (js_int (int (length (filter Not w)))) (js_int (int (length w)))))"

text \<open>\<open>push\<close>, then \<open>shift\<close> when the window is over its size.\<close>

definition push_outcome :: "breaker_opts \<Rightarrow> bool \<Rightarrow> bool list \<Rightarrow> bool list" where
  "push_outcome opts ok w =
     (let w' = w @ [ok] in if js_lt (bo_window opts) (js_int (int (length w'))) then tl w' else w')"

definition brk_state :: "breaker_opts \<Rightarrow> clock \<Rightarrow> string \<Rightarrow> breaker \<Rightarrow> breaker_state \<times> breaker" where
  "brk_state opts c k b = (let b' = promote opts c k b in (ks_status (ensure k b'), b'))"

definition allowProbe :: "breaker_opts \<Rightarrow> clock \<Rightarrow> string \<Rightarrow> breaker \<Rightarrow> bool \<times> breaker" where
  "allowProbe opts c k b =
     (let b' = promote opts c k b; s = ensure k b' in
      case ks_status s of
        BrClosed \<Rightarrow> (True, b')
      | BrOpen \<Rightarrow> (False, b')
      | BrHalfOpen \<Rightarrow> if ks_probe s then (False, b') else (True, put_key k (s\<lparr>ks_probe := True\<rparr>) b'))"

definition recordSuccess :: "breaker_opts \<Rightarrow> clock \<Rightarrow> string \<Rightarrow> breaker \<Rightarrow> breaker" where
  "recordSuccess opts c k b =
     (let s = ensure k b in
      if ks_status s = BrHalfOpen
      then emit_transition k BrHalfOpen BrClosed (fst c)
             (put_key k (s\<lparr>ks_status := BrClosed, ks_window := [], ks_probe := False\<rparr>) b)
      else put_key k (s\<lparr>ks_window := push_outcome opts True (ks_window s)\<rparr>) b)"

definition recordFailure :: "breaker_opts \<Rightarrow> clock \<Rightarrow> string \<Rightarrow> breaker \<Rightarrow> breaker" where
  "recordFailure opts c k b =
     (let s = ensure k b in
      if ks_status s = BrHalfOpen
      then emit_transition k BrHalfOpen BrOpen (snd c)
             (put_key k (s\<lparr>ks_status := BrOpen, ks_opened := fst c, ks_window := [], ks_probe := False\<rparr>) b)
      else if ks_status s \<noteq> BrClosed then put_key k s b
      else
        let w = push_outcome opts False (ks_window s) in
        if tripsOpen opts w
        then emit_transition k BrClosed BrOpen (snd c)
               (put_key k (s\<lparr>ks_status := BrOpen, ks_opened := fst c, ks_window := []\<rparr>) b)
        else put_key k (s\<lparr>ks_window := w\<rparr>) b)"

datatype breaker_op = OpState | OpAllow | OpSuccess | OpFailure

definition breaker_step :: "breaker_opts \<Rightarrow> string \<times> breaker_op \<times> clock \<Rightarrow> breaker \<Rightarrow> breaker" where
  "breaker_step opts e b =
     (case e of (k, oper, c) \<Rightarrow>
        (case oper of
           OpState \<Rightarrow> snd (brk_state opts c k b)
         | OpAllow \<Rightarrow> snd (allowProbe opts c k b)
         | OpSuccess \<Rightarrow> recordSuccess opts c k b
         | OpFailure \<Rightarrow> recordFailure opts c k b))"

section \<open>Its transitions are a path\<close>

text \<open>
  A machine that logs its transitions: the log of every run is a path of legal edges from the state it
  started in to the one it is in.
\<close>

locale logged_machine =
  fixes step :: "'e \<Rightarrow> 's \<Rightarrow> 's"
    and now_at :: "'s \<Rightarrow> 'q"
    and log :: "'s \<Rightarrow> 't list"
    and src :: "'t \<Rightarrow> 'q" and tgt :: "'t \<Rightarrow> 'q"
    and legal :: "'q \<Rightarrow> 'q \<Rightarrow> bool"
  assumes step_logs:
    "log (step e s) = log s \<and> now_at (step e s) = now_at s
     \<or> (\<exists>t. log (step e s) = log s @ [t] \<and> src t = now_at s \<and> tgt t = now_at (step e s) \<and> legal (src t) (tgt t))"
begin

fun path :: "'q \<Rightarrow> 't list \<Rightarrow> 'q \<Rightarrow> bool" where
  "path q [] q' \<longleftrightarrow> q = q'"
| "path q (t # ts) q' \<longleftrightarrow> src t = q \<and> legal q (tgt t) \<and> path (tgt t) ts q'"

lemma run_path: "\<exists>new. log (fold step es s) = log s @ new \<and> path (now_at s) new (now_at (fold step es s))"
proof (induction es arbitrary: s)
  case (Cons e es)
  obtain new where "log (fold step es (step e s)) = log (step e s) @ new"
      "path (now_at (step e s)) new (now_at (fold step es (step e s)))" using Cons.IH by blast
  then show ?case using step_logs [of e s] by (elim disjE exE) (auto intro: exI [of _ new])
qed simp

end

fun breaker_edge :: "breaker_state \<Rightarrow> breaker_state \<Rightarrow> bool" where
  "breaker_edge BrClosed BrOpen = True"
| "breaker_edge BrOpen BrHalfOpen = True"
| "breaker_edge BrHalfOpen BrClosed = True"
| "breaker_edge BrHalfOpen BrOpen = True"
| "breaker_edge _ _ = False"

definition key_log :: "string \<Rightarrow> breaker \<Rightarrow> breaker_transition list" where
  "key_log k b = [t \<leftarrow> bk_sink b. bx_key t = k]"

definition key_status :: "string \<Rightarrow> breaker \<Rightarrow> breaker_state" where
  "key_status k b = ks_status (ensure k b)"

lemma ensure_put [simp]: "ensure k (put_key j s b) = (if k = j then s else ensure k b)"
  by (simp add: ensure_def put_key_def)

lemma ensure_emit [simp]: "ensure k (emit_transition j q r t b) = ensure k b"
  by (simp add: ensure_def emit_transition_def)

lemma sink_simps [simp]:
  "bk_sink (put_key j s b) = bk_sink b"
  "bk_sink (emit_transition j q r t b) = bk_sink b @ [\<lparr>bx_key = j, bx_from = q, bx_to = r, bx_at = t\<rparr>]"
  by (simp_all add: put_key_def emit_transition_def)

lemmas breaker_defs = breaker_step_def brk_state_def allowProbe_def recordSuccess_def recordFailure_def promote_def Let_def

lemma breaker_step_logs:
  "key_log k (breaker_step opts e b) = key_log k b \<and> key_status k (breaker_step opts e b) = key_status k b
   \<or> (\<exists>t. key_log k (breaker_step opts e b) = key_log k b @ [t] \<and> bx_from t = key_status k b
        \<and> bx_to t = key_status k (breaker_step opts e b) \<and> breaker_edge (bx_from t) (bx_to t))"
proof (cases e)
  case (fields j oper c)
  show ?thesis unfolding fields
    by (cases oper; cases "ks_status (ensure j b)") (auto simp: breaker_defs key_log_def key_status_def)
qed

interpretation breaker_log: logged_machine "breaker_step opts" "key_status k" "key_log k" bx_from bx_to breaker_edge
  for opts k
  by unfold_locales (rule breaker_step_logs)

lemma breaker_step_local:
  "ensure k (breaker_step opts e b) = (if fst e = k then ensure k (breaker_step opts e b) else ensure k b)"
  "key_log k (breaker_step opts e b) = (if fst e = k then key_log k (breaker_step opts e b) else key_log k b)"
proof -
  obtain j oper c where e: "e = (j, oper, c)" by (cases e)
  show "ensure k (breaker_step opts e b) = (if fst e = k then ensure k (breaker_step opts e b) else ensure k b)"
    by (cases oper; cases "ks_status (ensure j b)") (auto simp: e breaker_defs)
  show "key_log k (breaker_step opts e b) = (if fst e = k then key_log k (breaker_step opts e b) else key_log k b)"
    by (cases oper; cases "ks_status (ensure j b)") (auto simp: e breaker_defs key_log_def)
qed

lemma breaker_step_cong:
  assumes "ensure k a = ensure k b" "key_log k a = key_log k b" "fst e = k"
  shows "ensure k (breaker_step opts e a) = ensure k (breaker_step opts e b)
    \<and> key_log k (breaker_step opts e a) = key_log k (breaker_step opts e b)"
proof -
  obtain oper c where e: "e = (k, oper, c)" using assms(3) by (cases e) simp
  show ?thesis using assms(1,2)
    by (cases oper; cases "ks_status (ensure k b)") (auto simp: e breaker_defs key_log_def)
qed

lemma breaker_independent:
  assumes "ensure k a = ensure k b" "key_log k a = key_log k b"
  shows "ensure k (fold (breaker_step opts) es a) = ensure k (fold (breaker_step opts) [e \<leftarrow> es. fst e = k] b)
    \<and> key_log k (fold (breaker_step opts) es a) = key_log k (fold (breaker_step opts) [e \<leftarrow> es. fst e = k] b)"
  using assms
proof (induction es arbitrary: a b)
  case (Cons e es)
  show ?case
  proof (cases "fst e = k")
    case True
    show ?thesis using Cons.IH [of "breaker_step opts e a" "breaker_step opts e b"] breaker_step_cong [OF Cons.prems True] True by simp
  next
    case False
    show ?thesis using Cons.IH [of "breaker_step opts e a" b] Cons.prems breaker_step_local [of k opts e a] False by simp
  qed
qed simp

text \<open>Whatever is recorded and asked, of whatever keys, the transitions reported for a key form a path
  of legal edges (closed to open, open to half open, half open to closed or open) from closed to the
  state the key is in; and a key's state and report depend on the operations on that key alone.\<close>

theorem breaker_transitions_are_a_path:
  "let b = fold (breaker_step opts) es createBreaker; own = fold (breaker_step opts) [e \<leftarrow> es. fst e = k] createBreaker in
     breaker_log.path BrClosed (key_log k b) (key_status k b) \<and> key_log k b = key_log k own \<and> ensure k b = ensure k own"
proof -
  have "key_log k createBreaker = []" "key_status k createBreaker = BrClosed"
    by (simp_all add: createBreaker_def key_log_def key_status_def ensure_def fresh_key_def)
  then show ?thesis
    using breaker_log.run_path [where s = createBreaker and es = es and opts = opts and k = k] breaker_independent [of k createBreaker createBreaker opts es]
    by (simp add: Let_def)
qed

section \<open>One probe\<close>

lemma probing_step:
  assumes "ks_status (ensure k b) = BrHalfOpen" "ks_probe (ensure k b)" "fst e = k \<longrightarrow> fst (snd e) \<in> {OpState, OpAllow}"
  shows "ks_status (ensure k (breaker_step opts e b)) = BrHalfOpen \<and> ks_probe (ensure k (breaker_step opts e b))"
proof -
  obtain j oper c where e: "e = (j, oper, c)" by (cases e)
  show ?thesis
  proof (cases "j = k")
    case True
    then show ?thesis using assms by (cases oper) (auto simp: e breaker_defs)
  next
    case False
    then have "ensure k (breaker_step opts e b) = ensure k b" using breaker_step_local(1) [of k opts e b] by (simp add: e)
    then show ?thesis using assms by simp
  qed
qed

lemma probing_fold:
  assumes "ks_status (ensure k b) = BrHalfOpen" "ks_probe (ensure k b)"
    "\<forall>e \<in> set es. fst e = k \<longrightarrow> fst (snd e) \<in> {OpState, OpAllow}"
  shows "ks_status (ensure k (fold (breaker_step opts) es b)) = BrHalfOpen \<and> ks_probe (ensure k (fold (breaker_step opts) es b))"
  using assms
proof (induction es arbitrary: b)
  case (Cons e es)
  have "ks_status (ensure k (breaker_step opts e b)) = BrHalfOpen \<and> ks_probe (ensure k (breaker_step opts e b))"
    using Cons.prems by (intro probing_step) auto
  then show ?case using Cons.IH [of "breaker_step opts e b"] Cons.prems(3) by simp
qed simp

text \<open>C30: a key that is not closed admits a send only when it is half open, or open with its cooldown elapsed,
  and no probe is in flight; and from then on it admits no other, however often it is asked and whatever
  the other keys do, until the outcome of the probe is recorded.\<close>

theorem breaker_admits_one_probe:
  assumes "key_status k b \<noteq> BrClosed" "allowProbe opts c k b = (True, b1)"
    and "\<forall>e \<in> set es. fst e = k \<longrightarrow> fst (snd e) \<in> {OpState, OpAllow}"
  shows "(key_status k b = BrOpen \<longrightarrow> js_le (bo_open_ms opts) (js_int (fst c - ks_opened (ensure k b))))
    \<and> (key_status k b = BrHalfOpen \<longrightarrow> \<not> ks_probe (ensure k b))
    \<and> \<not> fst (allowProbe opts c' k (fold (breaker_step opts) es b1))
    \<and> key_status k (fold (breaker_step opts) es b1) = BrHalfOpen"
proof -
  have b1: "ks_status (ensure k b1) = BrHalfOpen \<and> ks_probe (ensure k b1)"
    and pre: "key_status k b = BrOpen \<longrightarrow> js_le (bo_open_ms opts) (js_int (fst c - ks_opened (ensure k b)))"
      "key_status k b = BrHalfOpen \<longrightarrow> \<not> ks_probe (ensure k b)"
    using assms(1,2) by (cases "ks_status (ensure k b)";
        auto simp: allowProbe_def promote_def Let_def key_status_def split: if_splits)+
  have after: "ks_status (ensure k (fold (breaker_step opts) es b1)) = BrHalfOpen \<and> ks_probe (ensure k (fold (breaker_step opts) es b1))"
    using probing_fold b1 assms(3) by blast
  then have "\<not> fst (allowProbe opts c' k (fold (breaker_step opts) es b1))"
    by (simp add: allowProbe_def promote_def Let_def)
  then show ?thesis using pre after by (simp add: key_status_def)
qed

definition demo_breaker :: breaker_opts where
  "demo_breaker = \<lparr>bo_window = js_int 2, bo_threshold = js_int 1, bo_open_ms = js_int 30\<rparr>"

definition demo_failures :: "(string \<times> breaker_op \<times> clock) list" where
  "demo_failures = [(''a@1'', OpFailure, (1, 1)), (''a@1'', OpFailure, (2, 2))]"

lemma demo_breaker_opens:
  "key_status ''a@1'' (fold (breaker_step demo_breaker) demo_failures createBreaker) = BrOpen"
  "fst (allowProbe demo_breaker (40, 40) ''a@1'' (fold (breaker_step demo_breaker) demo_failures createBreaker))"
  by (simp_all add: demo_failures_def demo_breaker_def breaker_defs createBreaker_def fresh_key_def push_outcome_def tripsOpen_def
      key_status_def ensure_def put_key_def emit_transition_def)

theorem breaker_admits_one_probe_witness:
  "\<not> fst (allowProbe demo_breaker (60, 60) ''a@1''
       (fold (breaker_step demo_breaker) [(''a@1'', OpAllow, (50, 50)), (''b@1'', OpFailure, (51, 51))]
         (snd (allowProbe demo_breaker (40, 40) ''a@1'' (fold (breaker_step demo_breaker) demo_failures createBreaker)))))"
proof -
  let ?b = "fold (breaker_step demo_breaker) demo_failures createBreaker"
  have "key_status ''a@1'' ?b \<noteq> BrClosed" using demo_breaker_opens(1) by simp
  moreover have "allowProbe demo_breaker (40, 40) ''a@1'' ?b = (True, snd (allowProbe demo_breaker (40, 40) ''a@1'' ?b))"
    using demo_breaker_opens(2) by (simp add: prod_eq_iff)
  ultimately show ?thesis
    using breaker_admits_one_probe [of "''a@1''" ?b demo_breaker "(40, 40)" "snd (allowProbe demo_breaker (40, 40) ''a@1'' ?b)"
        "[(''a@1'', OpAllow, (50, 50)), (''b@1'', OpFailure, (51, 51))]" "(60, 60)"]
    by simp
qed

end
