(* ===== verification/AgentRegistry.thy ===== *)
theory AgentRegistry
  imports Breaker "HOL-Library.Sublist" "HOL-Library.AList"
begin

text \<open>
  Which agent may be asked: the eligibility decision (\<open>aal/src/eligibility.ts\<close>), the adapter registry
  (\<open>aal/src/registry.ts\<close>) and the plain router (\<open>aal/src/router.ts\<close>). An adapter is its manifest and
  whether it comes with a health probe; what a probe answers is an argument of the refresh (\<open>None\<close> when
  it throws or does not answer in time), and a refresh runs to its end before the next operation. Asking the breaker for a state may promote it, so
  \<open>eligible\<close> returns the breaker it leaves; the \<open>n\<close>-th question reads the clock \<open>clk n\<close>.
\<close>

section \<open>Manifests, conformance and health\<close>

datatype determinism = DetNone | DetSeed

record capability_manifest =
  cm_adapter :: string
  cm_structured :: bool
  cm_tools :: bool
  cm_window :: js_num
  cm_determinism :: determinism
  cm_lineage :: "string option"

datatype health_reason = QuotaThreshold | ProbeFailed

record adapter_health =
  ah_ok :: bool
  ah_reason :: "health_reason option"
  ah_windows :: "(js_num \<times> js_num) option"

datatype probe_id = PbP1 | PbP2 | PbP3 | PbP4 | PbP5 | PbP6 | PbP8

definition PASS_FAIL_PROBES :: "probe_id list" where
  "PASS_FAIL_PROBES = [PbP1, PbP2, PbP3, PbP4, PbP5, PbP6, PbP8]"

record conformance_record =
  cf_adapter :: string
  cf_model :: string
  cf_probes :: "(probe_id \<times> bool) list"
  cf_p7 :: js_num

definition breakerKey :: "string \<Rightarrow> string \<Rightarrow> string" where
  "breakerKey adapter model = adapter @ ''@'' @ model"

section \<open>Eligibility\<close>

record route_hints =
  rh_max :: "js_num option"
  rh_exclude :: "string list option"

datatype observed_breaker = ObBreaker breaker_state | ObUnconfigured | ObUnknown

datatype observed_health = OhHealth adapter_health | OhUnconfigured | OhUnknown

text \<open>\<open>None\<close> is the \<open>null\<close> of a projection that does not know the value.\<close>

record eligibility_input =
  ei_role :: role
  ei_manifest :: "capability_manifest option"
  ei_conformance :: "bool option"
  ei_stale :: "bool option"
  ei_breaker :: observed_breaker
  ei_health :: observed_health
  ei_susceptibility :: "js_num option"
  ei_lineage :: "string option"
  ei_hints :: "route_hints option"

datatype eligibility = Eligible | Ineligible | EligibilityUnknown

definition noted :: "bool \<Rightarrow> string \<Rightarrow> string list" where
  "noted b r = (if b then [r] else [])"

fun health_reason_name :: "health_reason option \<Rightarrow> string" where
  "health_reason_name (Some QuotaThreshold) = ''quota_threshold''"
| "health_reason_name (Some ProbeFailed) = ''probe_failed''"
| "health_reason_name None = ''health_unavailable''"

definition max_hint :: "eligibility_input \<Rightarrow> js_num option" where
  "max_hint i = Option.bind (ei_hints i) rh_max"

definition exclude_hint :: "eligibility_input \<Rightarrow> string list" where
  "exclude_hint i = (case Option.bind (ei_hints i) rh_exclude of None \<Rightarrow> [] | Some ls \<Rightarrow> ls)"

definition denials :: "eligibility_input \<Rightarrow> string list" where
  "denials i =
     noted (ei_role i \<in> {Implementer, TestDesigner} \<and> (case ei_manifest i of None \<Rightarrow> False | Some m \<Rightarrow> \<not> cm_structured m))
          ''structured_output_required''
   @ noted (ei_conformance i = Some False) ''conformance_failed''
   @ noted (ei_stale i = Some True) ''stale_conformance''
   @ noted (ei_breaker i = ObBreaker BrOpen) ''breaker_open''
   @ (case ei_health i of OhHealth h \<Rightarrow> noted (\<not> ah_ok h) (health_reason_name (ah_reason h)) | _ \<Rightarrow> [])
   @ noted (case (max_hint i, ei_susceptibility i) of (Some m, Some s) \<Rightarrow> js_lt m s | _ \<Rightarrow> False) ''susceptibility_exceeded''
   @ noted (case ei_lineage i of Some l \<Rightarrow> l \<in> set (exclude_hint i) | None \<Rightarrow> False) ''lineage_excluded''"

definition unknowns :: "eligibility_input \<Rightarrow> string list" where
  "unknowns i =
     noted (ei_manifest i = None) ''manifest_unknown''
   @ noted (ei_conformance i = None) ''conformance_unknown''
   @ noted (ei_stale i = None) ''staleness_unknown''
   @ noted (ei_breaker i = ObUnknown) ''breaker_unknown''
   @ noted (ei_health i = OhUnknown) ''health_unknown''
   @ noted (max_hint i \<noteq> None \<and> ei_susceptibility i = None) ''susceptibility_unknown''
   @ noted (exclude_hint i \<noteq> [] \<and> ei_lineage i = None) ''lineage_unknown''"

definition evaluateEligibility :: "eligibility_input \<Rightarrow> eligibility \<times> string list" where
  "evaluateEligibility i =
     (if denials i \<noteq> [] then (Ineligible, denials i)
      else if unknowns i \<noteq> [] then (EligibilityUnknown, unknowns i)
      else (Eligible, []))"

section \<open>The registry\<close>

record registered_adapter =
  ra_manifest :: capability_manifest
  ra_record :: conformance_record
  ra_stale :: bool
  ra_susceptibility :: js_num
  ra_lineage :: string
  ra_probed :: bool

record registry =
  rg_by_id :: "(string \<times> registered_adapter) list"
  rg_health :: "(string \<times> adapter_health) list"

definition createRegistry :: registry where
  "createRegistry = \<lparr>rg_by_id = [], rg_health = []\<rparr>"

definition recordPasses :: "conformance_record \<Rightarrow> bool" where
  "recordPasses r = list_all (\<lambda>p. map_of (cf_probes r) p = Some True) PASS_FAIL_PROBES"

definition key_of :: "registered_adapter \<Rightarrow> string" where
  "key_of r = breakerKey (cf_adapter (ra_record r)) (cf_model (ra_record r))"

text \<open>\<open>None\<close> is the thrown refusal.\<close>

definition register :: "capability_manifest \<Rightarrow> conformance_record \<Rightarrow> bool \<Rightarrow> registry \<Rightarrow> registry option" where
  "register m r probed g =
     (if \<not> recordPasses r then None
      else Some (g\<lparr>rg_by_id := AList.update (cf_adapter r)
             \<lparr>ra_manifest = m, ra_record = r, ra_stale = False, ra_susceptibility = cf_p7 r,
              ra_lineage = (case cm_lineage m of Some l \<Rightarrow> l | None \<Rightarrow> ''unknown''), ra_probed = probed\<rparr> (rg_by_id g)\<rparr>))"

definition recordConformance :: "string \<Rightarrow> conformance_record \<Rightarrow> registry \<Rightarrow> registry option" where
  "recordConformance adapter r g =
     (case map_of (rg_by_id g) adapter of
        None \<Rightarrow> None
      | Some existing \<Rightarrow> Some (g\<lparr>rg_by_id := AList.update adapter
          (existing\<lparr>ra_record := r, ra_stale := \<not> recordPasses r, ra_susceptibility := cf_p7 r\<rparr>) (rg_by_id g)\<rparr>))"

record health_change =
  hc_key :: string
  hc_adapter :: string
  hc_health :: adapter_health

definition probeWithTimeout :: "adapter_health option \<Rightarrow> adapter_health" where
  "probeWithTimeout answer =
     (case answer of Some h \<Rightarrow> h | None \<Rightarrow> \<lparr>ah_ok = False, ah_reason = Some ProbeFailed, ah_windows = None\<rparr>)"

text \<open>\<open>JSON.stringify\<close> writes \<open>null\<close> for every number that is not finite; \<open>json_health\<close> is what two
  snapshots with equal texts have in common.\<close>

definition json_num :: "js_num \<Rightarrow> rat option" where
  "json_num n = (case n of JFin r \<Rightarrow> Some r | _ \<Rightarrow> None)"

definition json_health :: "adapter_health \<Rightarrow> bool \<times> health_reason option \<times> (rat option \<times> rat option) option" where
  "json_health h = (ah_ok h, ah_reason h, map_option (map_prod json_num json_num) (ah_windows h))"

fun refresh_from :: "(nat \<Rightarrow> adapter_health option) \<Rightarrow> nat \<Rightarrow> registered_adapter list \<Rightarrow> registry \<Rightarrow> health_change list \<times> registry" where
  "refresh_from answers n [] g = ([], g)"
| "refresh_from answers n (r # rs) g =
     (if \<not> ra_probed r then refresh_from answers (Suc n) rs g
      else
        let key = key_of r; nxt = probeWithTimeout (answers n); prev = map_of (rg_health g) key;
            g' = g\<lparr>rg_health := AList.update key nxt (rg_health g)\<rparr>;
            (changes, g'') = refresh_from answers (Suc n) rs g' in
        (if map_option json_health prev \<noteq> Some (json_health nxt)
         then (\<lparr>hc_key = key, hc_adapter = cf_adapter (ra_record r), hc_health = nxt\<rparr> # changes, g'')
         else (changes, g'')))"

definition refreshHealth :: "(nat \<Rightarrow> adapter_health option) \<Rightarrow> registry \<Rightarrow> health_change list \<times> registry" where
  "refreshHealth answers g = refresh_from answers 0 (map snd (rg_by_id g)) g"

definition eligibility_of :: "role \<Rightarrow> route_hints option \<Rightarrow> registry \<Rightarrow> observed_breaker \<Rightarrow> registered_adapter \<Rightarrow> eligibility_input" where
  "eligibility_of role hints g br r =
     \<lparr>ei_role = role, ei_manifest = Some (ra_manifest r), ei_conformance = Some (recordPasses (ra_record r)),
      ei_stale = Some (ra_stale r), ei_breaker = br,
      ei_health = (if \<not> ra_probed r then OhUnconfigured
                   else case map_of (rg_health g) (key_of r) of Some h \<Rightarrow> OhHealth h | None \<Rightarrow> OhUnknown),
      ei_susceptibility = Some (ra_susceptibility r), ei_lineage = Some (ra_lineage r), ei_hints = hints\<rparr>"

text \<open>\<open>opts\<close> is \<open>None\<close> when no breaker is configured.\<close>

definition ask_breaker :: "breaker_opts option \<Rightarrow> clock \<Rightarrow> string \<Rightarrow> breaker \<Rightarrow> observed_breaker \<times> breaker" where
  "ask_breaker opts c key b =
     (case opts of
        None \<Rightarrow> (ObUnconfigured, b)
      | Some os \<Rightarrow> (let (s, b') = brk_state os c key b in (ObBreaker s, b')))"

fun eligible_from ::
    "breaker_opts option \<Rightarrow> (nat \<Rightarrow> clock) \<Rightarrow> role \<Rightarrow> route_hints option \<Rightarrow> registry \<Rightarrow> nat \<Rightarrow> registered_adapter list
     \<Rightarrow> breaker \<Rightarrow> registered_adapter list \<times> breaker" where
  "eligible_from opts clk role hints g n [] b = ([], b)"
| "eligible_from opts clk role hints g n (r # rs) b =
     (let (br, b') = ask_breaker opts (clk n) (key_of r) b;
          (kept, b'') = eligible_from opts clk role hints g (Suc n) rs b' in
      (if fst (evaluateEligibility (eligibility_of role hints g br r)) \<noteq> Ineligible then r # kept else kept, b''))"

definition eligibleAdapters ::
    "breaker_opts option \<Rightarrow> (nat \<Rightarrow> clock) \<Rightarrow> role \<Rightarrow> route_hints option \<Rightarrow> registry \<Rightarrow> breaker
     \<Rightarrow> registered_adapter list \<times> breaker" where
  "eligibleAdapters opts clk role hints g b = eligible_from opts clk role hints g 0 (map snd (rg_by_id g)) b"

definition registry_all :: "registry \<Rightarrow> registered_adapter list" where
  "registry_all g = map snd (rg_by_id g)"

definition registry_get :: "registry \<Rightarrow> string \<Rightarrow> registered_adapter option" where
  "registry_get g adapter = map_of (rg_by_id g) adapter"

text \<open>\<open>None\<close> is \<open>NoCapacityError\<close>.\<close>

definition route ::
    "breaker_opts option \<Rightarrow> (nat \<Rightarrow> clock) \<Rightarrow> role \<Rightarrow> route_hints option \<Rightarrow> registry \<Rightarrow> breaker
     \<Rightarrow> registered_adapter option \<times> breaker" where
  "route opts clk role hints g b =
     (case eligibleAdapters opts clk role hints g b of
        ([], b') \<Rightarrow> (None, b')
      | (r # _, b') \<Rightarrow> (Some r, b'))"

section \<open>Only fit adapters are asked\<close>

datatype registry_op =
    OpRegister capability_manifest conformance_record bool
  | OpConformance string conformance_record
  | OpRefresh "nat \<Rightarrow> adapter_health option"

text \<open>A refused operation leaves the registry as it was.\<close>

definition registry_settle :: "registry_op \<Rightarrow> registry \<Rightarrow> registry" where
  "registry_settle oper g =
     (case oper of
        OpRegister m r probed \<Rightarrow> (case register m r probed g of Some g' \<Rightarrow> g' | None \<Rightarrow> g)
      | OpConformance adapter r \<Rightarrow> (case recordConformance adapter r g of Some g' \<Rightarrow> g' | None \<Rightarrow> g)
      | OpRefresh answers \<Rightarrow> snd (refreshHealth answers g))"

definition registry_inv :: "registry \<Rightarrow> bool" where
  "registry_inv g \<longleftrightarrow> distinct (map fst (rg_by_id g))
     \<and> (\<forall>r \<in> snd ` set (rg_by_id g). ra_stale r \<longleftrightarrow> \<not> recordPasses (ra_record r))"

text \<open>What a route asks of an adapter, the breaker aside.\<close>

definition fit :: "role \<Rightarrow> route_hints option \<Rightarrow> registry \<Rightarrow> registered_adapter \<Rightarrow> bool" where
  "fit role hints g r \<longleftrightarrow>
     recordPasses (ra_record r) \<and> \<not> ra_stale r
   \<and> (role \<in> {Implementer, TestDesigner} \<longrightarrow> cm_structured (ra_manifest r))
   \<and> (ra_probed r \<longrightarrow> (case map_of (rg_health g) (key_of r) of None \<Rightarrow> True | Some h \<Rightarrow> ah_ok h))
   \<and> (case Option.bind hints rh_max of None \<Rightarrow> True | Some m \<Rightarrow> \<not> js_lt m (ra_susceptibility r))
   \<and> (case Option.bind hints rh_exclude of None \<Rightarrow> True | Some ls \<Rightarrow> ra_lineage r \<notin> set ls)"

lemma denials_nil: "fst (evaluateEligibility i) \<noteq> Ineligible \<longleftrightarrow> denials i = []"
  by (simp add: evaluateEligibility_def)

lemma noted_nil [simp]: "noted b r = [] \<longleftrightarrow> \<not> b"
  by (simp add: noted_def)

lemma eligibility_fit:
  "denials (eligibility_of role hints g br r) = [] \<longleftrightarrow> fit role hints g r \<and> br \<noteq> ObBreaker BrOpen"
  by (auto simp: denials_def fit_def eligibility_of_def max_hint_def exclude_hint_def split: option.splits)

lemma update_snd: "snd ` set (AList.update k v m) \<subseteq> insert v (snd ` set m)"
  by (induction m) auto

lemma refresh_by_id: "rg_by_id (snd (refresh_from answers n rs g)) = rg_by_id g"
  by (induction answers n rs g rule: refresh_from.induct) (simp_all add: Let_def case_prod_beta)

lemma registry_inv_put:
  assumes "registry_inv g" "ra_stale v \<longleftrightarrow> \<not> recordPasses (ra_record v)"
  shows "registry_inv (g\<lparr>rg_by_id := AList.update k v (rg_by_id g)\<rparr>)"
proof -
  have "snd ` set (AList.update k v (rg_by_id g)) \<subseteq> insert v (snd ` set (rg_by_id g))" by (rule update_snd)
  then have "\<forall>r \<in> snd ` set (AList.update k v (rg_by_id g)). ra_stale r \<longleftrightarrow> \<not> recordPasses (ra_record r)"
    using assms unfolding registry_inv_def by blast
  moreover have "distinct (map fst (AList.update k v (rg_by_id g)))"
    using assms(1) unfolding registry_inv_def by (blast intro: distinct_update)
  moreover have "rg_by_id (g\<lparr>rg_by_id := AList.update k v (rg_by_id g)\<rparr>) = AList.update k v (rg_by_id g)" by simp
  ultimately show ?thesis unfolding registry_inv_def by presburger
qed

lemma register_inv: "registry_inv g \<Longrightarrow> register m r probed g = Some g' \<Longrightarrow> registry_inv g'"
  unfolding register_def by (auto split: if_splits intro!: registry_inv_put)

lemma recordConformance_inv: "registry_inv g \<Longrightarrow> recordConformance adapter r g = Some g' \<Longrightarrow> registry_inv g'"
  unfolding recordConformance_def by (auto split: option.splits intro!: registry_inv_put)

lemma registry_inv_settle:
  assumes "registry_inv g"
  shows "registry_inv (registry_settle oper g)"
proof (cases oper)
  case (OpRegister m r probed)
  then show ?thesis using assms by (cases "register m r probed g") (simp_all add: registry_settle_def register_inv)
next
  case (OpConformance adapter r)
  then show ?thesis using assms by (cases "recordConformance adapter r g") (simp_all add: registry_settle_def recordConformance_inv)
next
  case (OpRefresh answers)
  then show ?thesis using assms by (simp add: registry_settle_def refreshHealth_def registry_inv_def refresh_by_id)
qed

lemma registry_inv_fold: "registry_inv g \<Longrightarrow> registry_inv (fold registry_settle ops g)"
  by (induction ops arbitrary: g) (simp_all add: registry_inv_settle)

text \<open>Asking the breaker never opens a key.\<close>

lemma ask_never_opens: "key_status k (snd (ask_breaker opts c j b)) = BrOpen \<Longrightarrow> key_status k b = BrOpen"
  by (auto simp: ask_breaker_def brk_state_def promote_def key_status_def Let_def split: option.splits if_splits)

lemma ask_answer: "fst (ask_breaker opts c k b) = ObBreaker s \<Longrightarrow> key_status k (snd (ask_breaker opts c k b)) = s"
  by (auto simp: ask_breaker_def brk_state_def key_status_def Let_def split: option.splits)

lemma eligible_never_opens:
  "key_status k (snd (eligible_from opts clk role hints g n rs b)) = BrOpen \<Longrightarrow> key_status k b = BrOpen"
  by (induction rs arbitrary: n b) (auto simp: case_prod_beta Let_def dest: ask_never_opens)

lemma eligible_from_spec:
  "subseq (fst (eligible_from opts clk role hints g n rs b)) rs
   \<and> (\<forall>r \<in> set (fst (eligible_from opts clk role hints g n rs b)).
        fit role hints g r \<and> (opts \<noteq> None \<longrightarrow> key_status (key_of r) (snd (eligible_from opts clk role hints g n rs b)) \<noteq> BrOpen))
   \<and> (\<forall>r \<in> set rs. fit role hints g r \<and> (opts \<noteq> None \<longrightarrow> key_status (key_of r) b \<noteq> BrOpen)
        \<longrightarrow> r \<in> set (fst (eligible_from opts clk role hints g n rs b)))"
proof (induction rs arbitrary: n b)
  case (Cons r rs)
  obtain br b1 where ask: "ask_breaker opts (clk n) (key_of r) b = (br, b1)" by (cases "ask_breaker opts (clk n) (key_of r) b")
  obtain kept b2 where rest: "eligible_from opts clk role hints g (Suc n) rs b1 = (kept, b2)"
    by (cases "eligible_from opts clk role hints g (Suc n) rs b1")
  have eq: "eligible_from opts clk role hints g n (r # rs) b =
      (if fit role hints g r \<and> br \<noteq> ObBreaker BrOpen then r # kept else kept, b2)"
    by (simp add: ask rest denials_nil eligibility_fit Let_def)
  have shut: "key_status (key_of r) b1 = BrOpen \<longleftrightarrow> br = ObBreaker BrOpen" if "opts \<noteq> None"
    using ask_answer [of opts "clk n" "key_of r" b] ask that by (auto simp: ask_breaker_def Let_def split: option.splits prod.splits)
  have later: "key_status k b2 = BrOpen \<Longrightarrow> key_status k b1 = BrOpen" "key_status k b1 = BrOpen \<Longrightarrow> key_status k b = BrOpen" for k
    using eligible_never_opens [of k opts clk role hints g "Suc n" rs b1] ask_never_opens [of k opts "clk n" "key_of r" b] ask rest by simp_all
  have closed: "opts = None \<Longrightarrow> br \<noteq> ObBreaker BrOpen" using ask by (auto simp: ask_breaker_def)
  have IH: "subseq kept rs"
    "\<forall>x \<in> set kept. fit role hints g x \<and> (opts \<noteq> None \<longrightarrow> key_status (key_of x) b2 \<noteq> BrOpen)"
    "\<forall>x \<in> set rs. fit role hints g x \<and> (opts \<noteq> None \<longrightarrow> key_status (key_of x) b1 \<noteq> BrOpen) \<longrightarrow> x \<in> set kept"
    using Cons.IH [of "Suc n" b1] rest by auto
  let ?out = "if fit role hints g r \<and> br \<noteq> ObBreaker BrOpen then r # kept else kept"
  have sub: "subseq ?out (r # rs)" using IH(1) by (auto intro: list_emb_Cons)
  have sound: "fit role hints g x \<and> (opts \<noteq> None \<longrightarrow> key_status (key_of x) b2 \<noteq> BrOpen)" if x: "x \<in> set ?out" for x
  proof -
    consider "x \<in> set kept" | "x = r" "fit role hints g r" "br \<noteq> ObBreaker BrOpen" using x by (auto split: if_splits)
    then show ?thesis
    proof cases
      case 1
      then show ?thesis using IH(2) by blast
    next
      case 2
      then show ?thesis using shut later(1) by blast
    qed
  qed
  have complete: "x \<in> set ?out" if "x \<in> set (r # rs)" "fit role hints g x" "opts \<noteq> None \<longrightarrow> key_status (key_of x) b \<noteq> BrOpen" for x
    using that IH(3) shut later(2) closed by (cases "opts = None") auto
  show ?case unfolding eq fst_conv snd_conv using sub sound complete by blast
qed simp

text \<open>Whatever has been registered, re-tested and probed, the adapters a route is offered are registered
  ones in registration order; each has passed every pass/fail conformance probe on its latest record, is
  not stale, offers structured output where the role needs it, was healthy when last probed, respects the
  susceptibility cap and the excluded lineages, and has a breaker that is not open. No adapter of which
  all this holds beforehand is left out, and the route takes the first, or reports no capacity.\<close>

theorem eligible_adapters_are_fit:
  "let g = fold registry_settle ops createRegistry; (out, b') = eligibleAdapters opts clk role hints g b in
     subseq out (map snd (rg_by_id g))
   \<and> list_all (\<lambda>r. fit role hints g r \<and> (opts = None \<or> key_status (key_of r) b' \<noteq> BrOpen)) out
   \<and> list_all (\<lambda>r. r \<in> set out \<or> \<not> fit role hints g r \<or> (opts \<noteq> None \<and> key_status (key_of r) b = BrOpen)) (map snd (rg_by_id g))
   \<and> list_all (\<lambda>r. ra_stale r = (\<not> recordPasses (ra_record r))) (map snd (rg_by_id g))
   \<and> route opts clk role hints g b = (if out = [] then None else Some (hd out), b')"
proof -
  define g where "g = fold registry_settle ops createRegistry"
  have "registry_inv g" unfolding g_def
    by (rule registry_inv_fold) (simp add: registry_inv_def createRegistry_def)
  moreover obtain out b' where e: "eligibleAdapters opts clk role hints g b = (out, b')" by (cases "eligibleAdapters opts clk role hints g b")
  moreover have "route opts clk role hints g b = (if out = [] then None else Some (hd out), b')"
    by (cases out) (simp_all add: route_def e)
  ultimately show ?thesis
    using eligible_from_spec [of opts clk role hints g 0 "map snd (rg_by_id g)" b]
    unfolding g_def [symmetric] eligibleAdapters_def Let_def by (auto simp: list_all_iff registry_inv_def)
qed

definition demo_adapter :: registry_op where
  "demo_adapter = OpRegister
     \<lparr>cm_adapter = ''a'', cm_structured = True, cm_tools = False, cm_window = js_int 1000, cm_determinism = DetNone, cm_lineage = None\<rparr>
     \<lparr>cf_adapter = ''a'', cf_model = ''1'', cf_probes = map (\<lambda>p. (p, True)) PASS_FAIL_PROBES, cf_p7 = js_int 0\<rparr> False"

lemma demo_adapter_fit:
  "\<exists>r. map snd (rg_by_id (fold registry_settle [demo_adapter] createRegistry)) = [r]
     \<and> fit Implementer None (fold registry_settle [demo_adapter] createRegistry) r"
  by (simp add: demo_adapter_def registry_settle_def register_def createRegistry_def recordPasses_def PASS_FAIL_PROBES_def fit_def)

theorem eligible_adapters_are_fit_witness:
  "fst (eligibleAdapters None (\<lambda>_. (0, 0)) Implementer None (fold registry_settle [demo_adapter] createRegistry) createBreaker) \<noteq> []"
  using demo_adapter_fit
    eligible_adapters_are_fit [of "[demo_adapter]" None "\<lambda>_. (0, 0)" Implementer None createBreaker]
  by (auto simp: Let_def case_prod_beta)

end
