(* ===== verification/OutcomeRouting.thy ===== *)
theory OutcomeRouting
  imports AgentRegistry AutoMerge PrPolicy
begin

text \<open>
  Routing by outcome (\<open>aal/src/shadow.ts\<close> and \<open>wrapRouterForOutcome\<close> of \<open>aal/src/router.ts\<close>): the statistics
  folded from the event log, the pick a shadow would make, and the active reordering of the eligible
  adapters. The SHA-256 hex digest of the exploration key is an argument, as is what an append to the
  log throws. A task is identified by its run and its name; the value a shadow event gives as \<open>live\<close> is a
  primitive.
\<close>

section \<open>Statistics\<close>

record outcome_stats =
  os_attempts :: nat
  os_reached :: nat

type_synonym stats_table = "(string \<times> outcome_stats) list"

definition task_key :: "event \<Rightarrow> string" where
  "task_key e = ev_run e @ [char_of (0::nat)] @ (case ev_task e of Some t \<Rightarrow> t | None \<Rightarrow> ''null'')"

definition reviewing_tasks :: "event list \<Rightarrow> string set" where
  "reviewing_tasks es = task_key ` set [e \<leftarrow> es. ev_type e = E_TASK_STATE \<and> fields_get (ev_payload e) ''state'' = VStr ''REVIEWING'']"

definition add_task :: "event \<Rightarrow> (js_val \<times> string list) list \<Rightarrow> (js_val \<times> string list) list" where
  "add_task e m =
     (if ev_type e = E_SHADOW_ROUTE
      then let live = fields_get (ev_payload e) ''live''; ts = (case map_of m live of Some ts \<Rightarrow> ts | None \<Rightarrow> []) in
           AList.update live (if task_key e \<in> set ts then ts else ts @ [task_key e]) m
      else m)"

definition add_stats :: "(js_num \<Rightarrow> string) \<Rightarrow> string set \<Rightarrow> js_val \<times> string list \<Rightarrow> stats_table \<Rightarrow> stats_table" where
  "add_stats shw reviewing e st =
     (if js_String shw (fst e) = ''__proto__'' then st
      else AList.update (js_String shw (fst e))
             \<lparr>os_attempts = length (snd e), os_reached = length [t \<leftarrow> snd e. t \<in> reviewing]\<rparr> st)"

definition computeShadowOutcomeStats :: "(js_num \<Rightarrow> string) \<Rightarrow> event list \<Rightarrow> stats_table" where
  "computeShadowOutcomeStats shw es = fold (add_stats shw (reviewing_tasks es)) (fold add_task es []) []"

text \<open>\<open>rateOf\<close>: \<open>None\<close> without an attempt.\<close>

definition rate_of_key :: "stats_table \<Rightarrow> string \<Rightarrow> js_num option" where
  "rate_of_key st key =
     (case map_of st key of
        None \<Rightarrow> None
      | Some s \<Rightarrow> if os_attempts s = 0 then None
                  else Some (js_div (js_int (int (os_reached s))) (js_int (int (os_attempts s)))))"

section \<open>The shadow\<close>

definition better :: "string \<times> js_num \<Rightarrow> string \<times> js_num \<Rightarrow> string \<times> js_num" where
  "better a b = (if js_lt (snd a) (snd b) then b else a)"

definition shadowWouldChoose :: "string \<Rightarrow> string list \<Rightarrow> stats_table \<Rightarrow> string \<times> string" where
  "shadowWouldChoose live keys st =
     (case List.map_filter (\<lambda>k. map_option (Pair k) (rate_of_key st k)) keys of
        [] \<Rightarrow> (live, ''insufficient_data'')
      | r # rs \<Rightarrow> (fst (foldl better r rs), ''highest_reviewing_rate''))"

definition shadowFrozen :: "registered_adapter list \<Rightarrow> bool" where
  "shadowFrozen adapters = list_ex ra_stale adapters"

record shadow_divergence =
  sd_at :: int
  sd_live :: js_val
  sd_shadow :: js_val

record shadow_comparison =
  sc_n :: nat
  sc_agreement :: js_num
  sc_divergences :: "shadow_divergence list"

definition strict_differs :: "js_val \<Rightarrow> js_val \<Rightarrow> bool" where
  "strict_differs a b \<longleftrightarrow> a \<noteq> b \<or> a = VNum JNaN"

definition compareShadow :: "event list \<Rightarrow> shadow_comparison" where
  "compareShadow es =
     (let routes = [e \<leftarrow> es. ev_type e = E_SHADOW_ROUTE];
          divergences = map (\<lambda>e. \<lparr>sd_at = ev_ts e, sd_live = fields_get (ev_payload e) ''live'',
                                   sd_shadow = fields_get (ev_payload e) ''wouldChoose''\<rparr>)
            [e \<leftarrow> routes. strict_differs (fields_get (ev_payload e) ''live'') (fields_get (ev_payload e) ''wouldChoose'')];
          n = length routes in
      \<lparr>sc_n = n,
       sc_agreement = (if n = 0 then js_int 1
         else js_div (js_int (int n - int (length divergences))) (js_int (int n))),
       sc_divergences = divergences\<rparr>)"

record shadow_report =
  sp_proven :: bool
  sp_n :: nat
  sp_agreement :: js_num
  sp_divergences :: "shadow_divergence list"
  sp_per_adapter :: stats_table

definition shadowProven :: "(js_num \<Rightarrow> string) \<Rightarrow> event list \<Rightarrow> js_num \<Rightarrow> js_num option \<Rightarrow> shadow_report" where
  "shadowProven shw es minSamples minDivergences =
     (let c = compareShadow es; least = (case minDivergences of Some d \<Rightarrow> d | None \<Rightarrow> js_int 1) in
      \<lparr>sp_proven = js_le minSamples (js_int (int (sc_n c))) \<and> js_le least (js_int (int (length (sc_divergences c)))),
       sp_n = sc_n c, sp_agreement = sc_agreement c, sp_divergences = sc_divergences c,
       sp_per_adapter = computeShadowOutcomeStats shw es\<rparr>)"

section \<open>The active reordering\<close>

definition hashPercent :: "(string \<Rightarrow> string) \<Rightarrow> string \<Rightarrow> nat" where
  "hashPercent sha key = foldl (\<lambda>acc c. (acc * 16 + hex_digit c) mod 100) 0 (sha key)"

definition rate_of :: "stats_table \<Rightarrow> registered_adapter \<Rightarrow> js_num option" where
  "rate_of st r = rate_of_key st (key_of r)"

definition rated :: "stats_table \<Rightarrow> registered_adapter \<Rightarrow> bool" where
  "rated st r \<longleftrightarrow> rate_of st r \<noteq> None"

definition rated_slots :: "stats_table \<Rightarrow> registered_adapter list \<Rightarrow> (nat \<times> registered_adapter) list" where
  "rated_slots st adapters = [s \<leftarrow> enumerate 0 adapters. rated st (snd s)]"

text \<open>\<open>(x, y) => y.rate - x.rate\<close>: \<open>x\<close> stays before \<open>y\<close> unless its rate is lower.\<close>

definition no_worse :: "stats_table \<Rightarrow> registered_adapter \<Rightarrow> registered_adapter \<Rightarrow> bool" where
  "no_worse st x y \<longleftrightarrow> \<not> js_lt (the (rate_of st x)) (the (rate_of st y))"

definition place :: "nat \<times> 'a \<Rightarrow> 'a list \<Rightarrow> 'a list" where
  "place s xs = xs[fst s := snd s]"

definition reorderByOutcome ::
    "registered_adapter list \<Rightarrow> stats_table \<Rightarrow> registered_adapter list \<times> bool \<times> nat list" where
  "reorderByOutcome adapters st =
     (let slots = rated_slots st adapters in
      if slots = [] then (adapters, False, [])
      else
        let winners = map snd (sort_by (\<lambda>x y. no_worse st (snd x) (snd y)) slots) in
        (fold place (zip (map fst slots) winners) adapters, True, map fst slots))"

definition swapWithRatedRunnerUp :: "'a list \<Rightarrow> nat list \<Rightarrow> 'a list" where
  "swapWithRatedRunnerUp order slots =
     (case slots of
        p # q # _ \<Rightarrow> order[p := order ! q, q := order ! p]
      | _ \<Rightarrow> order)"

record outcome_deps =
  od_stats :: stats_table
  od_epsilon :: js_num
  od_sha :: "string \<Rightarrow> string"
  od_explore_key :: string
  od_append :: "new_event \<Rightarrow> string option"
  od_run :: string
  od_task :: string

text \<open>\<open>safeAppend\<close>: the events that reach the log; \<open>od_append\<close> gives the message an append throws, if it does.\<close>

definition safeAppend :: "outcome_deps \<Rightarrow> event_type \<Rightarrow> payload \<Rightarrow> new_event list" where
  "safeAppend d ty p =
     (let e = \<lparr>ne_run = od_run d, ne_task = Some (od_task d), ne_type = ty, ne_payload = p\<rparr> in
      case od_append d e of
        None \<Rightarrow> [e]
      | Some msg \<Rightarrow>
          let err = \<lparr>ne_run = od_run d, ne_task = Some (od_task d), ne_type = E_ERROR,
                     ne_payload = [(''reason'', VStr ''outcome_route_append_failed''), (''detail'', VStr msg)]\<rparr> in
          if od_append d err = None then [err] else [])"

definition explores :: "outcome_deps \<Rightarrow> bool \<Rightarrow> nat list \<Rightarrow> bool" where
  "explores d reordered slots \<longleftrightarrow>
     reordered \<and> 2 \<le> length slots \<and> js_lt (js_int (int (hashPercent (od_sha d) (od_explore_key d)))) (od_epsilon d)"

definition outcome_order ::
    "outcome_deps \<Rightarrow> string \<Rightarrow> registered_adapter list \<Rightarrow> bool \<Rightarrow> registered_adapter list
     \<Rightarrow> registered_adapter list \<times> new_event list" where
  "outcome_order d role everyone recording adapters =
     (if shadowFrozen everyone
      then (adapters, if recording then safeAppend d E_ROUTING_FROZEN [(''role'', VStr role)] else [])
      else
        let (order, reordered, slots) = reorderByOutcome adapters (od_stats d);
            explored = explores d reordered slots;
            final = (if explored then swapWithRatedRunnerUp order slots else order) in
        (final,
         if recording
         then safeAppend d E_OUTCOME_ROUTE
           [(''role'', VStr role), (''order'', VArr (map (VStr \<circ> key_of) final)), (''explored'', VBool explored),
            (''basis'', VStr (if reordered then ''reorder'' else ''insufficient_data''))]
         else []))"

fun role_text :: "role \<Rightarrow> string" where
  "role_text Planner = ''planner''" | "role_text TestDesigner = ''test_designer''" | "role_text Implementer = ''implementer''"
| "role_text Diagnostician = ''diagnostician''" | "role_text Reviewer = ''reviewer''"

definition wrapRouterForOutcome ::
    "outcome_deps \<Rightarrow> breaker_opts option \<Rightarrow> (nat \<Rightarrow> clock) \<Rightarrow> role \<Rightarrow> route_hints option \<Rightarrow> bool \<Rightarrow> registry \<Rightarrow> breaker
     \<Rightarrow> (registered_adapter list \<times> new_event list) \<times> breaker" where
  "wrapRouterForOutcome d opts clk role hints recording g b =
     (let (adapters, b') = eligibleAdapters opts clk role hints g b in
      (outcome_order d (role_text role) (registry_all g) recording adapters, b'))"

section \<open>What a reordering keeps\<close>

text \<open>The reference: put \<open>ys\<close>, in order, where \<open>P\<close> holds.\<close>

fun put_where :: "('a \<Rightarrow> bool) \<Rightarrow> 'a list \<Rightarrow> 'a list \<Rightarrow> 'a list" where
  "put_where P [] ys = []"
| "put_where P (x # xs) ys =
     (if P x then (case ys of [] \<Rightarrow> x # xs | y # ys' \<Rightarrow> y # put_where P xs ys') else x # put_where P xs ys)"

lemma filter_enumerate_none: "\<forall>x \<in> set xs. \<not> P x \<Longrightarrow> [s \<leftarrow> enumerate n xs. P (snd s)] = []"
  by (induction xs arbitrary: n) auto

lemma place_put:
  "length pre = n \<Longrightarrow>
   fold place (zip (map fst [s \<leftarrow> enumerate n xs. P (snd s)]) ys) (pre @ xs) = pre @ put_where P xs ys"
proof (induction xs arbitrary: n pre ys)
  case (Cons x xs)
  show ?case
  proof (cases "P x")
    case True
    show ?thesis
    proof (cases ys)
      case (Cons y ys')
      have "(pre @ x # xs)[n := y] = (pre @ [y]) @ xs" using Cons.prems by (simp add: list_update_append)
      then show ?thesis using Cons.IH [of "pre @ [y]" "Suc n" ys'] Cons.prems True Cons by (simp add: place_def)
    qed (use True in simp)
  next
    case False
    then show ?thesis using Cons.IH [of "pre @ [x]" "Suc n" ys] Cons.prems by simp
  qed
qed simp

lemma put_where_props:
  assumes "length ys = length (filter P xs)" "\<forall>y \<in> set ys. P y"
  shows "filter P (put_where P xs ys) = ys \<and> length (put_where P xs ys) = length xs
    \<and> (\<forall>i < length xs. \<not> P (xs ! i) \<longrightarrow> put_where P xs ys ! i = xs ! i)
    \<and> mset (put_where P xs ys) + mset (filter P xs) = mset xs + mset ys"
  using assms
proof (induction xs arbitrary: ys)
  case (Cons x xs)
  show ?case
  proof (cases "P x")
    case True
    then obtain y ys' where ys: "ys = y # ys'" using Cons.prems(1) by (cases ys) auto
    show ?thesis using Cons.IH [of ys'] Cons.prems True ys by (auto simp: nth_Cons split: nat.splits)
  next
    case False
    then show ?thesis using Cons.IH [of ys] Cons.prems by (auto simp: nth_Cons split: nat.splits)
  qed
qed simp

lemma put_where_none: "\<forall>x \<in> set xs. \<not> P x \<Longrightarrow> put_where P xs ys = xs"
  by (induction xs) auto

lemma put_where_append: "\<forall>x \<in> set xs. \<not> P x \<Longrightarrow> put_where P (xs @ zs) ys = xs @ put_where P zs ys"
  by (induction xs) auto

fun swap_first :: "'a list \<Rightarrow> 'a list" where
  "swap_first (x # y # zs) = y # x # zs"
| "swap_first xs = xs"

lemma swap_put:
  assumes "map fst [s \<leftarrow> enumerate 0 xs. P (snd s)] = p # q # rest" "length ys = length (filter P xs)"
  shows "(let zs = put_where P xs ys in zs[p := zs ! q, q := zs ! p])
      = put_where P xs (swap_first ys)"
proof -
  have len: "length (filter P xs) = length (p # q # rest)"
  proof -
    have "filter P xs = map snd [s \<leftarrow> enumerate 0 xs. P (snd s)]"
      by (metis (no_types, lifting) comp_apply filter_cong filter_map map_snd_enumerate)
    then show ?thesis using assms(1) by (metis length_map)
  qed
  then obtain x0 fs where "filter P xs = x0 # fs" by (cases "filter P xs") auto
  then obtain as r where xs: "xs = as @ x0 # r" "\<forall>x \<in> set as. \<not> P x" "P x0" "filter P r = fs"
    by (auto simp: filter_eq_Cons_iff)
  have "fs \<noteq> []" using len \<open>filter P xs = x0 # fs\<close> by auto
  then obtain x1 fs' where "filter P r = x1 # fs'" using xs(4) by (cases fs) auto
  then obtain bs cs where r: "r = bs @ x1 # cs" "\<forall>x \<in> set bs. \<not> P x" "P x1" by (auto simp: filter_eq_Cons_iff)
  obtain y0 y1 ys' where ys: "ys = y0 # y1 # ys'"
    using assms(2) len by (cases ys; cases "tl ys") auto
  have "map fst [s \<leftarrow> enumerate 0 xs. P (snd s)] = length as # Suc (length as + length bs) #
      map fst [s \<leftarrow> enumerate (Suc (Suc (length as + length bs))) cs. P (snd s)]"
    using xs r by (simp add: enumerate_append_eq filter_enumerate_none)
  then have pq: "p = length as" "q = Suc (length as + length bs)" using assms(1) by simp_all
  have put: "put_where P xs (u # v # ys') = as @ u # bs @ v # put_where P cs ys'" for u v
    using xs r by (simp add: put_where_append)
  show ?thesis by (simp add: ys put pq nth_append list_update_append)
qed

section \<open>Sorting by a total preorder\<close>

lemma insert_by_sorted:
  assumes "\<And>a b. a \<in> insert x (set xs) \<Longrightarrow> b \<in> insert x (set xs) \<Longrightarrow> le a b \<or> le b a"
    "\<And>a b c. le a b \<Longrightarrow> le b c \<Longrightarrow> le a c" "sorted_wrt le xs"
  shows "sorted_wrt le (insert_by le x xs)"
  using assms(1,3)
proof (induction xs)
  case (Cons y ys)
  have set: "set (insert_by le x ys) = insert x (set ys)" by (metis mset_insert_by set_mset_add_mset_insert set_mset_mset)
  have IH: "sorted_wrt le (insert_by le x ys)"
  proof (rule Cons.IH)
    show "le a b \<or> le b a" if "a \<in> insert x (set ys)" "b \<in> insert x (set ys)" for a b
      by (rule Cons.prems(1)) (use that in auto)
  qed (use Cons.prems(2) in simp)
  show ?case
  proof (cases "le x y")
    case True
    then show ?thesis using Cons.prems(2) assms(2) by auto
  next
    case False
    then have "le y x" using Cons.prems(1) [of x y] by simp
    then show ?thesis using False IH set Cons.prems(2) by simp
  qed
qed simp

lemma sort_by_sorted:
  assumes "\<And>a b. a \<in> set xs \<Longrightarrow> b \<in> set xs \<Longrightarrow> le a b \<or> le b a" "\<And>a b c. le a b \<Longrightarrow> le b c \<Longrightarrow> le a c"
  shows "sorted_wrt le (sort_by le xs)"
  using assms(1)
proof (induction xs)
  case (Cons x xs)
  have "set (sort_by le xs) = set xs" by simp
  then show ?case using Cons insert_by_sorted [of x "sort_by le xs" le] assms(2) by (auto simp: sort_by_def)
qed (simp add: sort_by_def)

lemma insert_by_stable:
  assumes "\<And>a b c. le a b \<Longrightarrow> le b c \<Longrightarrow> le a c"
  shows "[z \<leftarrow> insert_by le x xs. le z a \<and> le a z] = [z \<leftarrow> x # xs. le z a \<and> le a z]"
  by (induction xs) (auto dest: assms)

lemma sort_by_stable:
  assumes "\<And>a b c. le a b \<Longrightarrow> le b c \<Longrightarrow> le a c"
  shows "[z \<leftarrow> sort_by le xs. le z a \<and> le a z] = [z \<leftarrow> xs. le z a \<and> le a z]"
proof (induction xs)
  case (Cons x xs)
  then show ?case using insert_by_stable [where le = le and x = x and a = a and xs = "sort_by le xs", OF assms] by (simp add: sort_by_def)
qed (simp add: sort_by_def)

lemma sort_by_map: "map f (sort_by (\<lambda>x y. le (f x) (f y)) xs) = sort_by le (map f xs)"
proof -
  have "map f (insert_by (\<lambda>x y. le (f x) (f y)) x ys) = insert_by le (f x) (map f ys)" for x ys
    by (induction ys) auto
  then show ?thesis by (induction xs) (simp_all add: sort_by_def)
qed

section \<open>Outcome routing only reorders the rated\<close>

lemma rate_not_nan: "rate_of st r = Some n \<Longrightarrow> n \<noteq> JNaN"
  by (auto simp: rate_of_def rate_of_key_def js_of_rat_def Let_def split: option.splits if_splits)

definition rated_le :: "stats_table \<Rightarrow> registered_adapter \<Rightarrow> registered_adapter \<Rightarrow> bool" where
  "rated_le st x y \<longleftrightarrow> rated st x \<and> rated st y \<and> js_le (the (rate_of st y)) (the (rate_of st x))"

lemma no_worse_rated: "rated st x \<Longrightarrow> rated st y \<Longrightarrow> no_worse st x y \<longleftrightarrow> rated_le st x y"
  using js_not_le [of "the (rate_of st y)" "the (rate_of st x)"] rate_not_nan [of st x] rate_not_nan [of st y]
  by (auto simp: no_worse_def rated_le_def rated_def)

lemma rated_le_total: "rated st x \<Longrightarrow> rated st y \<Longrightarrow> rated_le st x y \<or> rated_le st y x"
  using rate_not_nan [of st x] rate_not_nan [of st y] js_not_le [of "the (rate_of st y)" "the (rate_of st x)"]
  by (auto simp: rated_le_def rated_def dest: js_lt_imp_le)

lemma rated_le_trans: "rated_le st a b \<Longrightarrow> rated_le st b c \<Longrightarrow> rated_le st a c"
  by (auto simp: rated_le_def intro: js_le_trans)

lemma insert_by_cong: "(\<And>y. y \<in> set xs \<Longrightarrow> le x y = le' x y) \<Longrightarrow> insert_by le x xs = insert_by le' x xs"
  by (induction xs) auto

lemma sort_by_cong: "(\<And>x y. x \<in> set xs \<Longrightarrow> y \<in> set xs \<Longrightarrow> le x y = le' x y) \<Longrightarrow> sort_by le xs = sort_by le' xs"
proof (induction xs)
  case (Cons x xs)
  have "set (sort_by le' xs) = set xs" by simp
  then show ?case using Cons insert_by_cong [of "sort_by le' xs" le x le'] by (simp add: sort_by_def)
qed (simp add: sort_by_def)

text \<open>The rated adapters, best rate first, ties in the order they had.\<close>

definition ranking :: "stats_table \<Rightarrow> registered_adapter list \<Rightarrow> registered_adapter list" where
  "ranking st adapters = sort_by (rated_le st) (filter (rated st) adapters)"

lemma ranking_facts:
  "sorted_wrt (rated_le st) (ranking st xs)" "mset (ranking st xs) = mset (filter (rated st) xs)"
  "[z \<leftarrow> ranking st xs. rated_le st z a \<and> rated_le st a z] = [z \<leftarrow> filter (rated st) xs. rated_le st z a \<and> rated_le st a z]"
proof -
  show "sorted_wrt (rated_le st) (ranking st xs)" unfolding ranking_def
    by (rule sort_by_sorted) (auto dest: rated_le_total rated_le_trans)
  show "mset (ranking st xs) = mset (filter (rated st) xs)" by (simp add: ranking_def)
  show "[z \<leftarrow> ranking st xs. rated_le st z a \<and> rated_le st a z] = [z \<leftarrow> filter (rated st) xs. rated_le st z a \<and> rated_le st a z]"
    unfolding ranking_def by (rule sort_by_stable) (rule rated_le_trans)
qed

lemma rated_slots_snd: "map snd (rated_slots st xs) = filter (rated st) xs"
proof -
  have "map snd [s \<leftarrow> enumerate n xs. rated st (snd s)] = filter (rated st) xs" for n
    by (induction xs arbitrary: n) auto
  then show ?thesis by (simp add: rated_slots_def)
qed

lemma reorder_is_put:
  "fst (reorderByOutcome xs st) = put_where (rated st) xs (ranking st xs)"
  "snd (snd (reorderByOutcome xs st)) = map fst (rated_slots st xs)"
proof -
  have winners: "map snd (sort_by (\<lambda>x y. no_worse st (snd x) (snd y)) (rated_slots st xs)) = ranking st xs"
    unfolding sort_by_map rated_slots_snd ranking_def by (rule sort_by_cong) (simp add: no_worse_rated)
  have "put_where (rated st) xs (ranking st xs) = xs" if "rated_slots st xs = []"
  proof (rule put_where_none)
    have "filter (rated st) xs = []" using rated_slots_snd [of st xs] that by (metis list.map(1))
    then show "\<forall>x \<in> set xs. \<not> rated st x" by (simp add: filter_empty_conv)
  qed
  then show "fst (reorderByOutcome xs st) = put_where (rated st) xs (ranking st xs)"
    using place_put [of "[]" 0 "rated st" xs "ranking st xs"] winners by (simp add: reorderByOutcome_def Let_def rated_slots_def)
  show "snd (snd (reorderByOutcome xs st)) = map fst (rated_slots st xs)" by (simp add: reorderByOutcome_def Let_def)
qed

text \<open>The reference order: the rated adapters of \<open>xs\<close> sit in the slots they had, best rate first (ties as they
  were), the first two exchanged when the round explores.\<close>

definition reference_order :: "outcome_deps \<Rightarrow> bool \<Rightarrow> registered_adapter list \<Rightarrow> registered_adapter list" where
  "reference_order d explored xs =
     put_where (rated (od_stats d)) xs ((if explored then swap_first else id) (ranking (od_stats d) xs))"

lemma outcome_order_reference:
  assumes "\<not> shadowFrozen everyone"
  shows "\<exists>explored. fst (outcome_order d role everyone recording xs) = reference_order d explored xs
    \<and> (explored \<longrightarrow> js_lt (js_int (int (hashPercent (od_sha d) (od_explore_key d)))) (od_epsilon d))"
proof -
  obtain order reordered slots where r: "reorderByOutcome xs (od_stats d) = (order, reordered, slots)"
    by (cases "reorderByOutcome xs (od_stats d)")
  have order: "order = put_where (rated (od_stats d)) xs (ranking (od_stats d) xs)" "slots = map fst (rated_slots (od_stats d) xs)"
    using reorder_is_put [of xs "od_stats d"] r by simp_all
  show ?thesis
  proof (cases "explores d reordered slots")
    case True
    then obtain p q rest where slots: "slots = p # q # rest"
      by (cases slots; cases "tl slots") (auto simp: explores_def)
    have "length (ranking (od_stats d) xs) = length (filter (rated (od_stats d)) xs)"
      using ranking_facts(2) by (metis size_mset)
    moreover have "map fst [s \<leftarrow> enumerate 0 xs. rated (od_stats d) (snd s)] = p # q # rest"
      using order(2) slots by (simp add: rated_slots_def)
    moreover have "swapWithRatedRunnerUp order slots = order[p := order ! q, q := order ! p]"
      by (simp add: swapWithRatedRunnerUp_def slots)
    ultimately have "swapWithRatedRunnerUp order slots = put_where (rated (od_stats d)) xs (swap_first (ranking (od_stats d) xs))"
      using swap_put [of "rated (od_stats d)" xs p q rest "ranking (od_stats d) xs"] by (simp add: order(1) Let_def)
    then have "fst (outcome_order d role everyone recording xs) = reference_order d True xs"
      using assms True by (simp add: outcome_order_def r Let_def reference_order_def)
    then show ?thesis using True by (auto simp: explores_def)
  next
    case False
    then have "fst (outcome_order d role everyone recording xs) = reference_order d False xs"
      using assms order(1) by (simp add: outcome_order_def r Let_def reference_order_def)
    then show ?thesis by blast
  qed
qed

lemma swap_first_props: "mset (swap_first xs) = mset xs" "set (swap_first xs) = set xs" "length (swap_first xs) = length xs"
  by (cases xs rule: swap_first.cases; auto)+

lemma reference_order_props:
  "mset (reference_order d explored xs) = mset xs
   \<and> list_all2 (\<lambda>x y. rated (od_stats d) x \<or> x = y) xs (reference_order d explored xs)
   \<and> filter (rated (od_stats d)) (reference_order d explored xs) = (if explored then swap_first else id) (ranking (od_stats d) xs)"
proof -
  let ?P = "rated (od_stats d)" and ?ys = "(if explored then swap_first else id) (ranking (od_stats d) xs)"
  have m: "mset ?ys = mset (filter ?P xs)" by (simp add: ranking_facts(2) swap_first_props(1))
  then have len: "length ?ys = length (filter ?P xs)" by (metis size_mset)
  have "set ?ys = set (filter ?P xs)" using m by (metis set_mset_mset)
  then have "\<forall>y \<in> set ?ys. ?P y" by (simp only: set_filter) blast
  note props = put_where_props [OF len this]
  from props have p: "filter ?P (put_where ?P xs ?ys) = ?ys" "length (put_where ?P xs ?ys) = length xs"
      "\<forall>i < length xs. \<not> ?P (xs ! i) \<longrightarrow> put_where ?P xs ?ys ! i = xs ! i"
      "mset (put_where ?P xs ?ys) + mset (filter ?P xs) = mset xs + mset ?ys"
    by blast+
  have eq: "reference_order d explored xs = put_where ?P xs ?ys" by (rule reference_order_def)
  have "mset (reference_order d explored xs) = mset xs" unfolding eq by (rule add_right_imp_eq [OF p(4) [unfolded m]])
  moreover have "list_all2 (\<lambda>x y. ?P x \<or> x = y) xs (reference_order d explored xs)"
    unfolding eq using p(2,3) by (intro list_all2_all_nthI) auto
  moreover have "filter ?P (reference_order d explored xs) = ?ys" unfolding eq by (rule p(1))
  ultimately show ?thesis by (rule conjI [OF _ conjI])
qed

text \<open>C32: routing by outcome never adds, drops or invents: the order returned is the eligible one with its
  rated adapters permuted among the slots they had, highest rate of reviews reached first and ties as
  they were; when it is another order than that, the first two of them are exchanged, and only in a round whose hash
  falls below epsilon. An unrated adapter never moves, a stale adapter anywhere freezes the order, and at most one
  event is written, none by a mere peek.\<close>

theorem outcome_routing_only_reorders:
  "let (out, events) = outcome_order d role everyone recording xs; st = od_stats d; best = ranking st xs in
     mset out = mset xs \<and> list_all2 (\<lambda>x y. rated st x \<or> x = y) xs out
   \<and> (if shadowFrozen everyone then out = xs
      else filter (rated st) out = best
           \<or> filter (rated st) out = swap_first best \<and> js_lt (js_int (int (hashPercent (od_sha d) (od_explore_key d)))) (od_epsilon d))
   \<and> sorted_wrt (rated_le st) best \<and> mset best = mset (filter (rated st) xs)
   \<and> [z \<leftarrow> best. rated_le st z a \<and> rated_le st a z] = [z \<leftarrow> filter (rated st) xs. rated_le st z a \<and> rated_le st a z]
   \<and> length events \<le> (if recording then 1 else 0)"
proof -
  obtain out events where o: "outcome_order d role everyone recording xs = (out, events)"
    by (cases "outcome_order d role everyone recording xs")
  have "length (safeAppend d ty p) \<le> 1" for ty p by (simp add: safeAppend_def Let_def split: option.splits)
  then have events: "length events \<le> (if recording then 1 else 0)"
    using o by (auto simp: outcome_order_def Let_def split: if_splits prod.splits)
  show ?thesis
  proof (cases "shadowFrozen everyone")
    case True
    then have "out = xs" using o by (simp add: outcome_order_def)
    then show ?thesis using o True events ranking_facts by (simp add: list_all2_refl)
  next
    case False
    then obtain explored where e: "out = reference_order d explored xs"
        "explored \<longrightarrow> js_lt (js_int (int (hashPercent (od_sha d) (od_explore_key d)))) (od_epsilon d)"
      using outcome_order_reference [OF False, of d role recording xs] o by auto
    show ?thesis using o e(2) events ranking_facts reference_order_props [of d explored xs] False
      unfolding e(1) by (cases explored) simp_all
  qed
qed

end
