(* ===== verification/RoutingConfig.thy ===== *)
theory RoutingConfig
  imports CoreTypes "HOL-Library.AList"
begin

text \<open>
  The routing policy file (\<open>aal/src/routing-config.ts\<close>): every field of the untrusted JSON is guarded, and
  what is missing or malformed falls back to the strictest value. \<open>None\<close> as a file is one that cannot be
  read or parsed.
\<close>

record bucket_config =
  bc_capacity :: js_num
  bc_refill :: js_num

datatype outcome_mode = ModeOff | ModeShadow | ModeActive

record outcome_config =
  oc_mode :: outcome_mode
  oc_epsilon :: js_num
  oc_min_samples :: js_num
  oc_min_divergences :: js_num

record routing_config =
  rc_max_susceptibility :: js_num
  rc_max_parallel :: js_num
  rc_buckets :: "(string \<times> bucket_config) list"
  rc_allowlist :: "string list"
  rc_outcome :: outcome_config

definition DEFAULT_ROUTING_CONFIG :: routing_config where
  "DEFAULT_ROUTING_CONFIG =
     \<lparr>rc_max_susceptibility = js_int 0, rc_max_parallel = js_int 1, rc_buckets = [], rc_allowlist = [],
      rc_outcome = \<lparr>oc_mode = ModeOff, oc_epsilon = js_int 0, oc_min_samples = js_int 20, oc_min_divergences = js_int 1\<rparr>\<rparr>"

definition guardSusceptibility :: "js_val \<Rightarrow> js_num" where
  "guardSusceptibility v =
     (case v of
        VNum n \<Rightarrow> if js_finite n \<and> js_le (js_int 0) n \<and> js_le n (js_int 1) then n else rc_max_susceptibility DEFAULT_ROUTING_CONFIG
      | _ \<Rightarrow> rc_max_susceptibility DEFAULT_ROUTING_CONFIG)"

definition guardMaxParallel :: "js_val \<Rightarrow> js_num" where
  "guardMaxParallel v =
     (case v of
        VNum n \<Rightarrow> if js_integer n \<and> js_le (js_int 1) n then n else rc_max_parallel DEFAULT_ROUTING_CONFIG
      | _ \<Rightarrow> rc_max_parallel DEFAULT_ROUTING_CONFIG)"

definition bucket_number :: "js_val \<Rightarrow> js_num option" where
  "bucket_number v = (case v of VNum n \<Rightarrow> if js_finite n \<and> js_le (js_int 0) n then Some n else None | _ \<Rightarrow> None)"

text \<open>Assigning to the key \<open>__proto__\<close> of an object adds no entry.\<close>

definition guard_entry :: "string \<times> js_val \<Rightarrow> (string \<times> bucket_config) list \<Rightarrow> (string \<times> bucket_config) list" where
  "guard_entry e out =
     (case e of (key, raw) \<Rightarrow>
        if \<not> is_record raw then out
        else case bucket_number (val_get raw ''capacity'') of
          None \<Rightarrow> out
        | Some c \<Rightarrow>
            (case bucket_number (val_get raw ''refillPerSec'') of
               None \<Rightarrow> out
             | Some r \<Rightarrow>
                 if key = ''__proto__'' then out else AList.update key \<lparr>bc_capacity = c, bc_refill = r\<rparr> out))"

definition guardBuckets :: "js_val \<Rightarrow> (string \<times> bucket_config) list" where
  "guardBuckets v = (case v of VObj fs \<Rightarrow> fold guard_entry fs [] | _ \<Rightarrow> [])"

definition guardAllowlist :: "js_val \<Rightarrow> string list" where
  "guardAllowlist v =
     (case val_get v ''scriptAllowlist'' of
        VArr xs \<Rightarrow> List.map_filter (\<lambda>x. case x of VStr s \<Rightarrow> Some s | _ \<Rightarrow> None) xs
      | _ \<Rightarrow> [])"

fun mode_name :: "outcome_mode \<Rightarrow> string" where
  "mode_name ModeOff = ''off''" | "mode_name ModeShadow = ''shadow''" | "mode_name ModeActive = ''active''"

definition VALID_MODES :: "outcome_mode list" where
  "VALID_MODES = [ModeOff, ModeShadow, ModeActive]"

definition guardMode :: "js_val \<Rightarrow> outcome_mode" where
  "guardMode v =
     (case find (\<lambda>m. VStr (mode_name m) = v) VALID_MODES of
        Some m \<Rightarrow> m | None \<Rightarrow> oc_mode (rc_outcome DEFAULT_ROUTING_CONFIG))"

definition guardEpsilon :: "js_val \<Rightarrow> js_num" where
  "guardEpsilon v =
     (case v of
        VNum n \<Rightarrow> if js_integer n \<and> js_le (js_int 0) n \<and> js_lt n (js_int 100) then n else oc_epsilon (rc_outcome DEFAULT_ROUTING_CONFIG)
      | _ \<Rightarrow> oc_epsilon (rc_outcome DEFAULT_ROUTING_CONFIG))"

definition guardNonNegativeInt :: "js_val \<Rightarrow> js_num \<Rightarrow> js_num" where
  "guardNonNegativeInt v fallback =
     (case v of VNum n \<Rightarrow> if js_integer n \<and> js_le (js_int 0) n then n else fallback | _ \<Rightarrow> fallback)"

definition guardOutcomeRouting :: "js_val \<Rightarrow> outcome_config" where
  "guardOutcomeRouting v =
     (let def = rc_outcome DEFAULT_ROUTING_CONFIG in
      if \<not> is_record v then def
      else \<lparr>oc_mode = guardMode (val_get v ''mode''), oc_epsilon = guardEpsilon (val_get v ''epsilon''),
            oc_min_samples = guardNonNegativeInt (val_get v ''minSamples'') (oc_min_samples def),
            oc_min_divergences = guardNonNegativeInt (val_get v ''minDivergences'') (oc_min_divergences def)\<rparr>)"

definition parseRoutingConfig :: "js_val \<Rightarrow> routing_config" where
  "parseRoutingConfig raw =
     (if \<not> is_record raw then DEFAULT_ROUTING_CONFIG
      else \<lparr>rc_max_susceptibility = guardSusceptibility (val_get raw ''maxSusceptibility''),
            rc_max_parallel = guardMaxParallel (val_get raw ''maxParallel''),
            rc_buckets = guardBuckets (val_get raw ''tokenBuckets''),
            rc_allowlist = guardAllowlist (val_get raw ''sched''),
            rc_outcome = guardOutcomeRouting (val_get raw ''outcomeRouting'')\<rparr>)"

definition loadRoutingConfig :: "js_val option \<Rightarrow> routing_config" where
  "loadRoutingConfig file = (case file of None \<Rightarrow> DEFAULT_ROUTING_CONFIG | Some raw \<Rightarrow> parseRoutingConfig raw)"

section \<open>A guarded policy\<close>

definition bucket_ok :: "string \<times> bucket_config \<Rightarrow> bool" where
  "bucket_ok e \<longleftrightarrow> fst e \<noteq> ''__proto__'' \<and> js_finite (bc_capacity (snd e)) \<and> js_le (js_int 0) (bc_capacity (snd e))
     \<and> js_finite (bc_refill (snd e)) \<and> js_le (js_int 0) (bc_refill (snd e))"

definition count_ok :: "js_num \<Rightarrow> bool" where
  "count_ok n \<longleftrightarrow> js_integer n \<and> js_le (js_int 0) n"

definition config_ok :: "routing_config \<Rightarrow> bool" where
  "config_ok c \<longleftrightarrow>
     js_finite (rc_max_susceptibility c) \<and> js_le (js_int 0) (rc_max_susceptibility c) \<and> js_le (rc_max_susceptibility c) (js_int 1)
   \<and> js_integer (rc_max_parallel c) \<and> js_le (js_int 1) (rc_max_parallel c)
   \<and> list_all bucket_ok (rc_buckets c) \<and> distinct (map fst (rc_buckets c))
   \<and> count_ok (oc_epsilon (rc_outcome c)) \<and> js_lt (oc_epsilon (rc_outcome c)) (js_int 100)
   \<and> count_ok (oc_min_samples (rc_outcome c)) \<and> count_ok (oc_min_divergences (rc_outcome c))"

text \<open>The JSON a policy is written as.\<close>

definition bucket_val :: "string \<times> bucket_config \<Rightarrow> string \<times> js_val" where
  "bucket_val e = (fst e, VObj [(''capacity'', VNum (bc_capacity (snd e))), (''refillPerSec'', VNum (bc_refill (snd e)))])"

definition config_val :: "routing_config \<Rightarrow> js_val" where
  "config_val c = VObj
     [(''maxSusceptibility'', VNum (rc_max_susceptibility c)), (''maxParallel'', VNum (rc_max_parallel c)),
      (''tokenBuckets'', VObj (map bucket_val (rc_buckets c))),
      (''sched'', VObj [(''scriptAllowlist'', VArr (map VStr (rc_allowlist c)))]),
      (''outcomeRouting'', VObj
         [(''mode'', VStr (mode_name (oc_mode (rc_outcome c)))), (''epsilon'', VNum (oc_epsilon (rc_outcome c))),
          (''minSamples'', VNum (oc_min_samples (rc_outcome c))), (''minDivergences'', VNum (oc_min_divergences (rc_outcome c)))])]"

lemma bucket_number_Some: "bucket_number v = Some n \<Longrightarrow> js_finite n \<and> js_le (js_int 0) n"
  by (simp add: bucket_number_def split: js_val.splits if_splits)

lemma update_bucket: "list_all bucket_ok m \<Longrightarrow> bucket_ok (k, v) \<Longrightarrow> list_all bucket_ok (AList.update k v m)"
  by (induction m) (auto simp: bucket_ok_def)

lemma guard_entry_ok:
  assumes "list_all bucket_ok out" "distinct (map fst out)"
  shows "list_all bucket_ok (guard_entry e out) \<and> distinct (map fst (guard_entry e out))"
  using assms
  by (auto simp: guard_entry_def bucket_ok_def [of "(_, _)"] distinct_update dest!: bucket_number_Some intro!: update_bucket split: prod.splits option.splits)

lemma guard_entries_ok:
  "list_all bucket_ok out \<Longrightarrow> distinct (map fst out) \<Longrightarrow>
     list_all bucket_ok (fold guard_entry es out) \<and> distinct (map fst (fold guard_entry es out))"
  by (induction es arbitrary: out) (simp_all add: guard_entry_ok)

lemma guardBuckets_ok: "list_all bucket_ok (guardBuckets v) \<and> distinct (map fst (guardBuckets v))"
  by (cases v) (simp_all add: guardBuckets_def guard_entries_ok)

lemma guard_count_ok: "count_ok d \<Longrightarrow> count_ok (guardNonNegativeInt v d)"
  by (simp add: guardNonNegativeInt_def count_ok_def split: js_val.splits)

lemma guardOutcome_ok:
  "count_ok (oc_epsilon (guardOutcomeRouting v)) \<and> js_lt (oc_epsilon (guardOutcomeRouting v)) (js_int 100)
   \<and> count_ok (oc_min_samples (guardOutcomeRouting v)) \<and> count_ok (oc_min_divergences (guardOutcomeRouting v))"
proof -
  have d: "count_ok (js_int 20)" "count_ok (js_int 1)" "count_ok (js_int 0)" by (simp_all add: count_ok_def js_integer_def)
  have "count_ok (guardEpsilon x) \<and> js_lt (guardEpsilon x) (js_int 100)" for x
    using d(3) by (simp add: guardEpsilon_def DEFAULT_ROUTING_CONFIG_def count_ok_def split: js_val.splits)
  then show ?thesis using d guard_count_ok
    by (simp add: guardOutcomeRouting_def Let_def DEFAULT_ROUTING_CONFIG_def)
qed

lemma parse_ok: "config_ok (parseRoutingConfig raw)"
proof -
  have "js_finite (guardSusceptibility v) \<and> js_le (js_int 0) (guardSusceptibility v) \<and> js_le (guardSusceptibility v) (js_int 1)" for v
    by (simp add: guardSusceptibility_def DEFAULT_ROUTING_CONFIG_def split: js_val.splits)
  moreover have "js_integer (guardMaxParallel v) \<and> js_le (js_int 1) (guardMaxParallel v)" for v
    by (simp add: guardMaxParallel_def DEFAULT_ROUTING_CONFIG_def js_integer_def split: js_val.splits)
  moreover have "config_ok DEFAULT_ROUTING_CONFIG"
    by (simp add: config_ok_def DEFAULT_ROUTING_CONFIG_def count_ok_def js_integer_def)
  ultimately show ?thesis using guardBuckets_ok guardOutcome_ok
    by (simp add: parseRoutingConfig_def config_ok_def)
qed

lemma guard_entries_vals:
  assumes "list_all bucket_ok bs" "distinct (map fst (out @ bs))"
  shows "fold guard_entry (map bucket_val bs) out = out @ bs"
  using assms
proof (induction bs arbitrary: out)
  case (Cons b bs)
  have fresh: "AList.update k v m = m @ [(k, v)]" if "k \<notin> fst ` set m" for k v and m :: "(string \<times> bucket_config) list"
    using that by (induction m) auto
  obtain k c r where b: "b = (k, \<lparr>bc_capacity = c, bc_refill = r\<rparr>)" by (cases b; cases "snd b") auto
  show ?case using Cons.prems Cons.IH [of "out @ [b]"] fresh [of "fst b" out "snd b"]
    by (simp add: b guard_entry_def bucket_val_def bucket_ok_def bucket_number_def fields_get_def)
qed simp

lemma config_val_roundtrip: "config_ok c \<Longrightarrow> parseRoutingConfig (config_val c) = c"
proof -
  assume ok: "config_ok c"
  have mode: "guardMode (VStr (mode_name m)) = m" for m
    by (cases m) (simp_all add: guardMode_def VALID_MODES_def)
  have strs: "List.map_filter (\<lambda>x. case x of VStr s \<Rightarrow> Some s | _ \<Rightarrow> None) (map VStr xs) = xs" for xs
    by (induction xs) (simp_all add: map_filter_simps)
  show ?thesis using ok mode strs guard_entries_vals [of "rc_buckets c" "[]"]
    by (simp add: config_ok_def parseRoutingConfig_def config_val_def fields_get_def guardSusceptibility_def guardMaxParallel_def
        guardBuckets_def guardAllowlist_def guardOutcomeRouting_def Let_def guardEpsilon_def guardNonNegativeInt_def count_ok_def)
qed

text \<open>Whatever the policy file holds, the policy read from it is within bounds (susceptibility in [0,1], at
  least one send at a time, non-negative buckets, an exploration below 100 percent); a susceptibility cap
  above the strictest, a fan-out above one and outcome routing that is not off are only ever the file's own
  words; a file that cannot be read gives the strict policy; and a policy within bounds, written out, is
  read back unchanged.\<close>

theorem routing_policy_never_loosens:
  assumes "config_ok c"
  shows "config_ok (loadRoutingConfig file)
    \<and> (file = None \<longrightarrow> loadRoutingConfig file = DEFAULT_ROUTING_CONFIG)
    \<and> (rc_max_susceptibility (parseRoutingConfig raw) = js_int 0
         \<or> val_get raw ''maxSusceptibility'' = VNum (rc_max_susceptibility (parseRoutingConfig raw)))
    \<and> (rc_max_parallel (parseRoutingConfig raw) = js_int 1
         \<or> val_get raw ''maxParallel'' = VNum (rc_max_parallel (parseRoutingConfig raw)))
    \<and> (oc_mode (rc_outcome (parseRoutingConfig raw)) = ModeOff
         \<or> val_get (val_get raw ''outcomeRouting'') ''mode'' = VStr (mode_name (oc_mode (rc_outcome (parseRoutingConfig raw)))))
    \<and> parseRoutingConfig (config_val c) = c"
proof -
  have mode: "guardMode v = ModeOff \<or> v = VStr (mode_name (guardMode v))" for v
    by (auto simp: guardMode_def VALID_MODES_def DEFAULT_ROUTING_CONFIG_def)
  have "config_ok DEFAULT_ROUTING_CONFIG" using parse_ok [of VNull] by (simp add: parseRoutingConfig_def)
  then show ?thesis using mode config_val_roundtrip [OF assms] parse_ok
    by (auto simp: loadRoutingConfig_def parseRoutingConfig_def DEFAULT_ROUTING_CONFIG_def guardSusceptibility_def guardMaxParallel_def
        guardOutcomeRouting_def Let_def split: option.splits js_val.splits)
qed

definition demo_routing :: routing_config where
  "demo_routing = \<lparr>rc_max_susceptibility = JFin (1 / 4), rc_max_parallel = js_int 3,
     rc_buckets = [(''a'', \<lparr>bc_capacity = js_int 5, bc_refill = js_int 1\<rparr>)], rc_allowlist = [''lint''],
     rc_outcome = \<lparr>oc_mode = ModeActive, oc_epsilon = js_int 10, oc_min_samples = js_int 20, oc_min_divergences = js_int 2\<rparr>\<rparr>"

theorem routing_policy_never_loosens_witness:
  "parseRoutingConfig (config_val demo_routing) = demo_routing \<and> loadRoutingConfig None = DEFAULT_ROUTING_CONFIG"
proof -
  have "config_ok demo_routing"
    by (simp add: config_ok_def demo_routing_def bucket_ok_def count_ok_def js_integer_def)
  from routing_policy_never_loosens [OF this, of None] show ?thesis by blast
qed

end
