(* ===== verification/Dispatch.thy ===== *)
theory Dispatch
  imports AgentRegistry
begin

text \<open>
  Sending to the agents: the token bucket (\<open>aal/src/ratelimit.ts\<close>) and the bounded parallel dispatcher
  (\<open>aal/src/dispatch.ts\<close>). The dispatcher's workers interleave at their awaits, so a dispatch is a step
  relation; what an adapter answers or throws and the readings of the clock are arguments of the steps.
\<close>

section \<open>The token bucket\<close>

record bucket_opts =
  bo_capacity :: js_num
  bo_refill :: js_num

record token_bucket =
  tb_tokens :: js_num
  tb_last :: int

definition createTokenBucket :: "bucket_opts \<Rightarrow> int \<Rightarrow> token_bucket" where
  "createTokenBucket opts now = \<lparr>tb_tokens = bo_capacity opts, tb_last = now\<rparr>"

definition refill :: "bucket_opts \<Rightarrow> int \<Rightarrow> token_bucket \<Rightarrow> token_bucket" where
  "refill opts t b =
     (let elapsed = js_div (js_int (t - tb_last b)) (js_int 1000) in
      if js_lt (js_int 0) elapsed
      then \<lparr>tb_tokens = js_min (bo_capacity opts) (js_add (tb_tokens b) (js_mul elapsed (bo_refill opts))), tb_last = t\<rparr>
      else b)"

definition tryTake :: "bucket_opts \<Rightarrow> int \<Rightarrow> js_num \<Rightarrow> token_bucket \<Rightarrow> bool \<times> token_bucket" where
  "tryTake opts now n b =
     (let b' = refill opts now b in
      if js_le n (tb_tokens b') then (True, b'\<lparr>tb_tokens := js_sub (tb_tokens b') n\<rparr>) else (False, b'))"

definition available :: "bucket_opts \<Rightarrow> int \<Rightarrow> token_bucket \<Rightarrow> js_num \<times> token_bucket" where
  "available opts now b = (let b' = refill opts now b in (tb_tokens b', b'))"

definition peekAvailable :: "token_bucket \<Rightarrow> js_num" where
  "peekAvailable b = tb_tokens b"

section \<open>The dispatcher\<close>

datatype adapter_error_kind =
    AeQuotaLimited | AeAuthUnavailable | AeTransport | AeInvalidResponse | AeTimedOut | AeCancelled
  | AeContextLimited | AeUnavailable

record adapter_error =
  ae_kind :: adapter_error_kind
  ae_message :: string

text \<open>What \<open>send\<close> throws: an \<open>AdapterError\<close>, or anything else, known by its text.\<close>

datatype thrown = ThrownAdapter adapter_error | ThrownOther string

fun captured :: "thrown \<Rightarrow> adapter_error" where
  "captured (ThrownAdapter e) = e"
| "captured (ThrownOther text) = \<lparr>ae_kind = AeTransport, ae_message = text\<rparr>"

record rate_observation =
  ro_target :: string
  ro_policy :: "string option"
  ro_limited :: bool
  ro_available :: "js_num option"

definition effectiveMaxParallel :: "js_num \<Rightarrow> js_num option \<Rightarrow> js_num" where
  "effectiveMaxParallel maxParallel ceil =
     js_max (js_int 1) (js_min maxParallel (case ceil of Some c \<Rightarrow> c | None \<Rightarrow> maxParallel))"

definition worker_count :: "js_num \<Rightarrow> nat \<Rightarrow> nat" where
  "worker_count par n = length [w \<leftarrow> [0..<n]. js_lt (js_int (int w)) (js_min par (js_int (int n)))]"

datatype phase = Waiting | Sending

record 'a dispatch =
  ds_next :: nat
  ds_flight :: "(nat \<times> phase) list"
  ds_results :: "(adapter_error + 'a) option list"
  ds_buckets :: "string \<Rightarrow> token_bucket option"
  ds_limited :: "string \<Rightarrow> bool option"
  ds_observed :: "rate_observation list"
  ds_sent :: "nat list"

record dispatch_opts =
  dp_bucket :: "string \<Rightarrow> bucket_opts"
  dp_parallel :: js_num
  dp_ceiling :: "js_num option"

definition dispatchAll :: "string list \<Rightarrow> (string \<Rightarrow> token_bucket option) \<Rightarrow> (string \<Rightarrow> bool option) \<Rightarrow> 'a dispatch" where
  "dispatchAll targets buckets limited =
     \<lparr>ds_next = 0, ds_flight = [], ds_results = replicate (length targets) None, ds_buckets = buckets,
      ds_limited = limited, ds_observed = [], ds_sent = []\<rparr>"

definition emitRate :: "rate_observation \<Rightarrow> bool \<Rightarrow> 'a dispatch \<Rightarrow> 'a dispatch" where
  "emitRate r force s =
     (if \<not> force \<and> ds_limited s (ro_target r) = Some (ro_limited r) then s
      else s\<lparr>ds_limited := (ds_limited s)(ro_target r \<mapsto> ro_limited r), ds_observed := ds_observed s @ [r]\<rparr>)"

text \<open>Worker slots are filled in the order of the items.\<close>

definition pick :: "'a dispatch \<Rightarrow> 'a dispatch" where
  "pick s = s\<lparr>ds_next := Suc (ds_next s), ds_flight := ds_flight s @ [(ds_next s, Waiting)]\<rparr>"

definition start_send :: "nat \<Rightarrow> 'a dispatch \<Rightarrow> 'a dispatch" where
  "start_send i s =
     s\<lparr>ds_flight := map (\<lambda>(j, p). (j, if j = i then Sending else p)) (ds_flight s), ds_sent := ds_sent s @ [i]\<rparr>"

definition settle_item :: "nat \<Rightarrow> adapter_error + 'a \<Rightarrow> 'a dispatch \<Rightarrow> 'a dispatch" where
  "settle_item i r s =
     s\<lparr>ds_flight := [f \<leftarrow> ds_flight s. fst f \<noteq> i], ds_results := (ds_results s)[i := Some r]\<rparr>"

definition take_record :: "string \<Rightarrow> bool \<Rightarrow> token_bucket \<Rightarrow> rate_observation" where
  "take_record target allowed b =
     \<lparr>ro_target = target, ro_policy = Some target, ro_limited = \<not> allowed, ro_available = Some (peekAvailable b)\<rparr>"

definition put_bucket :: "string \<Rightarrow> token_bucket \<Rightarrow> 'a dispatch \<Rightarrow> 'a dispatch" where
  "put_bucket target b s = s\<lparr>ds_buckets := (ds_buckets s)(target \<mapsto> b)\<rparr>"

inductive dispatch_step :: "dispatch_opts \<Rightarrow> string list \<Rightarrow> 'a dispatch \<Rightarrow> 'a dispatch \<Rightarrow> bool"
  for opts targets where
  Pick: "ds_next s < length targets \<Longrightarrow>
     length (ds_flight s) < worker_count (effectiveMaxParallel (dp_parallel opts) (dp_ceiling opts)) (length targets) \<Longrightarrow>
     dispatch_step opts targets s (pick s)"
| Unlimited: "(i, Waiting) \<in> set (ds_flight s) \<Longrightarrow> ds_buckets s (targets ! i) = None \<Longrightarrow>
     dispatch_step opts targets s (start_send i
       (emitRate \<lparr>ro_target = targets ! i, ro_policy = None, ro_limited = False, ro_available = None\<rparr> True s))"
| Take: "(i, Waiting) \<in> set (ds_flight s) \<Longrightarrow> ds_buckets s (targets ! i) = Some b \<Longrightarrow>
     tryTake (dp_bucket opts (targets ! i)) now (js_int 1) b = (True, b') \<Longrightarrow>
     dispatch_step opts targets s (start_send i (emitRate (take_record (targets ! i) True b') True (put_bucket (targets ! i) b' s)))"
| Sleep: "(i, Waiting) \<in> set (ds_flight s) \<Longrightarrow> ds_buckets s (targets ! i) = Some b \<Longrightarrow>
     tryTake (dp_bucket opts (targets ! i)) now (js_int 1) b = (False, b') \<Longrightarrow>
     dispatch_step opts targets s (emitRate (take_record (targets ! i) False b') False (put_bucket (targets ! i) b' s))"
| Answer: "(i, Sending) \<in> set (ds_flight s) \<Longrightarrow> dispatch_step opts targets s (settle_item i (Inr a) s)"
| Throws: "(i, Sending) \<in> set (ds_flight s) \<Longrightarrow> dispatch_step opts targets s (settle_item i (Inl (captured e)) s)"

inductive_cases dispatch_stepE: "dispatch_step opts targets s t"

section \<open>A bucket stays between empty and full\<close>

definition bucket_opts_ok :: "bucket_opts \<Rightarrow> bool" where
  "bucket_opts_ok opts \<longleftrightarrow> (\<exists>c r. bo_capacity opts = JFin c \<and> is_double c \<and> 0 \<le> c \<and> c < 2 ^ double_emax
     \<and> bo_refill opts = JFin r \<and> 0 \<le> r)"

definition bucket_inv :: "bucket_opts \<Rightarrow> token_bucket \<Rightarrow> bool" where
  "bucket_inv opts b \<longleftrightarrow> (\<exists>v. tb_tokens b = JFin v \<and> is_double v \<and> 0 \<le> v \<and> js_le (tb_tokens b) (bo_capacity opts))"

lemma is_double_int:
  assumes "\<bar>k\<bar> \<le> 2 ^ 53"
  shows "is_double (of_int k)"
  unfolding is_double_def using ulp_units_scaled [OF assms, of unit_exp] by (intro exI [of _ "k * 2 ^ unit_exp"]) simp

lemma js_of_rat_nonneg: "0 \<le> r \<Longrightarrow> js_of_rat r = JPosInf \<or> (\<exists>v \<ge> 0. js_of_rat r = JFin v)"
proof -
  assume "0 \<le> r"
  then have "0 \<le> round_rat r" by (rule round_rat_nonneg)
  moreover have "- (2 ^ double_emax) < (0::rat)" by simp
  ultimately show ?thesis by (auto simp: js_of_rat_def Let_def)
qed

lemma elapsed_finite:
  assumes "0 < d" "d \<le> 2 ^ 53"
  shows "\<exists>e \<ge> 0. js_div (js_int d) (js_int 1000) = JFin e"
proof -
  have "round_rat (of_int d / 1000) \<le> of_int d"
    using assms is_double_int [of d] by (intro round_rat_le) (auto simp: field_simps)
  also have "(of_int d :: rat) \<le> of_int (2 ^ 53)" using assms(2) by (rule iffD2 [OF of_int_le_iff])
  also have "\<dots> < 2 ^ double_emax" unfolding double_emax_def by (simp add: power_strict_increasing)
  finally have "js_of_rat (of_int d / 1000) \<noteq> JPosInf" by (auto simp: js_of_rat_def Let_def)
  then show ?thesis using js_of_rat_nonneg [of "of_int d / 1000"] assms by auto
qed

lemma refill_inv:
  assumes "bucket_opts_ok opts" "bucket_inv opts b" "t - tb_last b \<le> 2 ^ 53"
  shows "bucket_inv opts (refill opts t b)"
proof (cases "0 < t - tb_last b")
  case False
  then have "\<not> js_lt (js_int 0) (js_div (js_int (t - tb_last b)) (js_int 1000))"
  proof -
    let ?r = "of_int (t - tb_last b) / 1000 :: rat"
    have "?r \<le> 0" using False by (simp add: divide_le_0_iff)
    then have "round_rat ?r \<le> 0" using round_rat_nonneg [of "- ?r"]
      by (simp add: round_rat_def Let_def sgn_if split: if_splits)
    moreover have "(0::rat) < 2 ^ double_emax" by simp
    ultimately have "\<not> 2 ^ double_emax \<le> round_rat ?r" by linarith
    then show ?thesis using \<open>round_rat ?r \<le> 0\<close> by (simp add: js_of_rat_def Let_def)
  qed
  then show ?thesis using assms(2) by (simp add: refill_def Let_def)
next
  case True
  obtain e where e: "0 \<le> e" "js_div (js_int (t - tb_last b)) (js_int 1000) = JFin e"
    using elapsed_finite [OF True assms(3)] by blast
  obtain c r where o: "bo_capacity opts = JFin c" "is_double c" "0 \<le> c" "bo_refill opts = JFin r" "0 \<le> r"
    using assms(1) by (auto simp: bucket_opts_ok_def)
  obtain v where v: "tb_tokens b = JFin v" "is_double v" "0 \<le> v" using assms(2) by (auto simp: bucket_inv_def)
  have "\<exists>w. js_min (JFin c) (js_add (JFin v) (js_of_rat (e * r))) = JFin w \<and> is_double w \<and> 0 \<le> w \<and> w \<le> c"
  proof (cases "js_of_rat (e * r)")
    case (JFin m)
    have "0 \<le> e * r" using e(1) o(5) by simp
    then have "0 \<le> m" using js_of_rat_nonneg JFin by fastforce
    then have s: "0 \<le> v + m" using v(3) by simp
    show ?thesis
    proof (cases "to_js (v + m)")
      case (JFin w)
      then have "w = round_double (v + m)" by (simp add: to_js_def Let_def split: if_splits)
      then have "is_double w \<and> 0 \<le> w" using is_double_round [OF s] round_double_nonneg [OF s] by simp
      then show ?thesis using \<open>js_of_rat (e * r) = JFin m\<close> JFin o by auto
    qed (use to_js_nonneg [OF s] o \<open>js_of_rat (e * r) = JFin m\<close> in auto)
  qed (use js_of_rat_nonneg [of "e * r"] e(1) o in auto)
  then show ?thesis using assms(2) e(2) o(1,4) v(1)
    by (auto simp: refill_def bucket_inv_def Let_def simp del: js_min.simps js_add.simps js_div.simps)
qed

lemma tryTake_inv:
  assumes "bucket_opts_ok opts" "bucket_inv opts b" "t - tb_last b \<le> 2 ^ 53" "0 \<le> n"
  shows "bucket_inv opts (snd (tryTake opts t (JFin n) b))
    \<and> (fst (tryTake opts t (JFin n) b) \<longleftrightarrow> js_le (JFin n) (tb_tokens (refill opts t b)))
    \<and> tb_last (snd (tryTake opts t (JFin n) b)) = tb_last (refill opts t b)"
proof -
  have inv: "bucket_inv opts (refill opts t b)" by (rule refill_inv [OF assms(1-3)])
  then obtain v c where v: "tb_tokens (refill opts t b) = JFin v" "is_double v" "0 \<le> v" "bo_capacity opts = JFin c" "v \<le> c" "c < 2 ^ double_emax"
    using assms(1) by (auto simp: bucket_inv_def bucket_opts_ok_def)
  have "bucket_inv opts (snd (tryTake opts t (JFin n) b))"
  proof (cases "n \<le> v")
    case True
    then obtain w where "js_sub (JFin v) (JFin n) = JFin w" "0 \<le> w" "w \<le> v" "is_double w"
      using js_sub_bounds [of v n] v assms(4) by auto
    then show ?thesis using True v by (simp add: tryTake_def Let_def bucket_inv_def)
  qed (use inv v in \<open>simp add: tryTake_def Let_def\<close>)
  then show ?thesis by (simp add: tryTake_def Let_def)
qed

text \<open>A bucket's requests: when they came and how many tokens they asked for.\<close>

fun serve :: "bucket_opts \<Rightarrow> (int \<times> rat) list \<Rightarrow> token_bucket \<Rightarrow> token_bucket" where
  "serve opts [] b = b"
| "serve opts ((t, n) # rs) b = serve opts rs (snd (tryTake opts t (JFin n) b))"

definition clock_ok :: "int \<Rightarrow> bool" where
  "clock_ok t \<longleftrightarrow> 0 \<le> t \<and> t \<le> 2 ^ 53"

lemma serve_inv:
  assumes "bucket_opts_ok opts" "bucket_inv opts b" "0 \<le> tb_last b" "\<forall>(t, n) \<in> set rs. clock_ok t \<and> 0 \<le> n"
  shows "bucket_inv opts (serve opts rs b) \<and> 0 \<le> tb_last (serve opts rs b)"
  using assms(2-4)
proof (induction rs arbitrary: b)
  case (Cons r rs)
  obtain t n where r: "r = (t, n)" by (cases r)
  have t: "clock_ok t" "0 \<le> n" using Cons.prems(3) r by auto
  then have d: "t - tb_last b \<le> 2 ^ 53" using Cons.prems(2) by (simp add: clock_ok_def)
  have "0 \<le> tb_last (refill opts t b)" using t(1) Cons.prems(2) by (simp add: refill_def Let_def clock_ok_def)
  then show ?case using Cons tryTake_inv [OF assms(1) Cons.prems(1) d t(2)] r by simp
qed simp

text \<open>However often tokens are asked for and however the clock moves, a bucket never holds less than
  nothing or more than its capacity, and a request is granted exactly when the refilled bucket holds the
  tokens it asks for; a refused one takes none.\<close>

theorem bucket_stays_within_capacity:
  assumes "bucket_opts_ok opts" "\<forall>(t, n) \<in> set rs. clock_ok t \<and> 0 \<le> n" "clock_ok start" "clock_ok now" "0 \<le> k"
  shows "let b = serve opts rs (createTokenBucket opts start); (granted, b') = tryTake opts now (JFin k) b in
     js_le (js_int 0) (tb_tokens b) \<and> js_le (tb_tokens b) (bo_capacity opts)
   \<and> js_le (js_int 0) (tb_tokens b') \<and> js_le (tb_tokens b') (bo_capacity opts)
   \<and> granted = js_le (JFin k) (tb_tokens (refill opts now b))
   \<and> (if granted then tb_tokens b' = js_sub (tb_tokens (refill opts now b)) (JFin k) else b' = refill opts now b)"
proof -
  define b where "b = serve opts rs (createTokenBucket opts start)"
  have "bucket_inv opts (createTokenBucket opts start)"
    using assms(1) by (auto simp: bucket_opts_ok_def bucket_inv_def createTokenBucket_def)
  then have inv: "bucket_inv opts b" "0 \<le> tb_last b"
    using serve_inv [OF assms(1) _ _ assms(2)] assms(3) unfolding b_def by (simp_all add: createTokenBucket_def clock_ok_def)
  then have d: "now - tb_last b \<le> 2 ^ 53" using assms(4) by (simp add: clock_ok_def)
  obtain granted b' where take: "tryTake opts now (JFin k) b = (granted, b')" by (cases "tryTake opts now (JFin k) b")
  have "js_le (js_int 0) (tb_tokens x)" "js_le (tb_tokens x) (bo_capacity opts)" if "bucket_inv opts x" for x
    using that by (auto simp: bucket_inv_def)
  moreover have "if granted then tb_tokens b' = js_sub (tb_tokens (refill opts now b)) (JFin k) else b' = refill opts now b"
    using take by (auto simp: tryTake_def Let_def split: if_splits)
  ultimately show ?thesis using tryTake_inv [OF assms(1) inv(1) d assms(5)] inv(1) take
    unfolding b_def [symmetric] Let_def by simp
qed

definition demo_bucket :: bucket_opts where
  "demo_bucket = \<lparr>bo_capacity = js_int 2, bo_refill = js_int 1\<rparr>"

theorem bucket_stays_within_capacity_witness:
  "let b = serve demo_bucket [(10, 1), (10, 1), (10, 1)] (createTokenBucket demo_bucket 10) in
     js_le (tb_tokens b) (js_int 2) \<and> \<not> fst (tryTake demo_bucket 10 (JFin 1) b)"
proof -
  have "bucket_opts_ok demo_bucket" using is_double_int [of 2] by (simp add: bucket_opts_ok_def demo_bucket_def double_emax_def)
  from bucket_stays_within_capacity [OF this, of "[(10, 1), (10, 1), (10, 1)]" 10 10 1]
  have "js_le (tb_tokens (serve demo_bucket [(10, 1), (10, 1), (10, 1)] (createTokenBucket demo_bucket 10))) (js_int 2)"
    by (simp add: clock_ok_def demo_bucket_def Let_def case_prod_beta)
  moreover have "js_sub (js_int 2) (js_int 1) = js_int 1" "js_sub (js_int 1) (js_int 1) = js_int 0"
    using js_add_int [of 2 "- 1"] js_add_int [of 1 "- 1"] by (simp_all add: js_sub_def)
  then have "\<not> fst (tryTake demo_bucket 10 (JFin 1) (serve demo_bucket [(10, 1), (10, 1), (10, 1)] (createTokenBucket demo_bucket 10)))"
    by (simp add: tryTake_def refill_def createTokenBucket_def demo_bucket_def Let_def)
  ultimately show ?thesis by (simp add: Let_def)
qed

section \<open>Every item is sent once, within the bound\<close>

definition dispatch_inv :: "dispatch_opts \<Rightarrow> string list \<Rightarrow> 'a dispatch \<Rightarrow> bool" where
  "dispatch_inv opts targets s \<longleftrightarrow>
     length (ds_flight s) \<le> worker_count (effectiveMaxParallel (dp_parallel opts) (dp_ceiling opts)) (length targets)
   \<and> ds_next s \<le> length targets \<and> length (ds_results s) = length targets
   \<and> distinct (map fst (ds_flight s)) \<and> (\<forall>i \<in> fst ` set (ds_flight s). i < ds_next s \<and> ds_results s ! i = None)
   \<and> (\<forall>i < length targets. ds_results s ! i = None \<longrightarrow> ds_next s \<le> i \<or> i \<in> fst ` set (ds_flight s))
   \<and> (\<forall>i < length targets. ds_results s ! i \<noteq> None \<longrightarrow> i < ds_next s)
   \<and> distinct (ds_sent s)
   \<and> (\<forall>i < length targets. i \<in> set (ds_sent s) \<longleftrightarrow> ds_results s ! i \<noteq> None \<or> (i, Sending) \<in> set (ds_flight s))"

lemma dispatch_start_inv: "dispatch_inv opts targets (dispatchAll targets buckets limited)"
  by (simp add: dispatch_inv_def dispatchAll_def)

lemma emitRate_fields [simp]:
  "ds_next (emitRate r f s) = ds_next s" "ds_flight (emitRate r f s) = ds_flight s" "ds_results (emitRate r f s) = ds_results s"
  "ds_sent (emitRate r f s) = ds_sent s" "ds_buckets (emitRate r f s) = ds_buckets s"
  by (simp_all add: emitRate_def)

lemma put_bucket_fields [simp]:
  "ds_next (put_bucket t b s) = ds_next s" "ds_flight (put_bucket t b s) = ds_flight s"
  "ds_results (put_bucket t b s) = ds_results s" "ds_sent (put_bucket t b s) = ds_sent s"
  by (simp_all add: put_bucket_def)

lemma pick_inv:
  assumes "dispatch_inv opts targets s" "ds_next s < length targets"
    "length (ds_flight s) < worker_count (effectiveMaxParallel (dp_parallel opts) (dp_ceiling opts)) (length targets)"
  shows "dispatch_inv opts targets (pick s)"
proof -
  have none: "ds_results s ! ds_next s = None" using assms(1,2) unfolding dispatch_inv_def by blast
  have fresh: "ds_next s \<notin> fst ` set (ds_flight s)" using assms(1) unfolding dispatch_inv_def by blast
  show ?thesis using assms none fresh by (auto simp: dispatch_inv_def pick_def less_Suc_eq not_less_eq_eq) 
qed

lemma flight_unique:
  assumes "distinct (map fst fl)" "(i, p) \<in> set fl" "(i, q) \<in> set fl"
  shows "p = q"
  using assms by (metis eq_key_imp_eq_value)

lemma start_send_inv:
  assumes inv: "dispatch_inv opts targets s" and i: "(i, Waiting) \<in> set (ds_flight s)"
  shows "dispatch_inv opts targets (start_send i s)"
proof -
  let ?fl = "map (\<lambda>(j, p). (j, if j = i then Sending else p)) (ds_flight s)"
  have comp: "map (fst \<circ> (\<lambda>(j, p). (j, if j = i then Sending else p))) (ds_flight s) = map fst (ds_flight s)" by auto
  then have fst: "map fst ?fl = map fst (ds_flight s)" by simp
  then have fst_set: "fst ` set ?fl = fst ` set (ds_flight s)" by (metis set_map)
  have i_fl: "i \<in> fst ` set (ds_flight s)" using i by force
  then have i_ok: "i < length targets" "ds_results s ! i = None" using inv unfolding dispatch_inv_def by fastforce+
  have "(i, Sending) \<notin> set (ds_flight s)" using flight_unique [OF _ i] inv unfolding dispatch_inv_def by blast
  then have unsent: "i \<notin> set (ds_sent s)" using inv i_ok unfolding dispatch_inv_def by blast
  have send: "(j, Sending) \<in> set ?fl \<longleftrightarrow> j = i \<or> (j, Sending) \<in> set (ds_flight s)" for j
    using i by (force simp: image_iff split: if_splits)
  show ?thesis using inv unsent i_ok unfolding dispatch_inv_def start_send_def
    by (simp add: comp fst_set send del: set_map) auto
qed

lemma settle_inv:
  assumes inv: "dispatch_inv opts targets s" and i: "(i, Sending) \<in> set (ds_flight s)"
  shows "dispatch_inv opts targets (settle_item i r s)"
proof -
  let ?fl = "[f \<leftarrow> ds_flight s. fst f \<noteq> i]"
  have i_fl: "i \<in> fst ` set (ds_flight s)" using i by force
  then have i_ok: "i < length targets" "i < ds_next s" using inv unfolding dispatch_inv_def by fastforce+
  have fst_set: "fst ` set ?fl = fst ` set (ds_flight s) - {i}" by auto
  have send: "(j, Sending) \<in> set ?fl \<longleftrightarrow> j \<noteq> i \<and> (j, Sending) \<in> set (ds_flight s)" for j by auto
  have "distinct (map fst ?fl)" using inv by (simp add: dispatch_inv_def distinct_map_filter)
  moreover have "length ?fl \<le> length (ds_flight s)" by (rule length_filter_le)
  with inv have "length ?fl \<le> worker_count (effectiveMaxParallel (dp_parallel opts) (dp_ceiling opts)) (length targets)"
    unfolding dispatch_inv_def by linarith
  ultimately show ?thesis using inv i i_ok unfolding dispatch_inv_def settle_item_def
    by (simp add: fst_set send nth_list_update del: set_filter) auto
qed

lemma dispatch_inv_observed [simp]:
  "dispatch_inv opts targets (emitRate r f s) = dispatch_inv opts targets s"
  "dispatch_inv opts targets (put_bucket k b s) = dispatch_inv opts targets s"
  by (simp_all add: dispatch_inv_def)

lemma dispatch_inv_step:
  assumes "dispatch_step opts targets s t" "dispatch_inv opts targets s"
  shows "dispatch_inv opts targets t"
  using assms by (elim dispatch_stepE) (auto intro!: start_send_inv settle_inv pick_inv)

lemma dispatch_inv_reach:
  "(dispatch_step opts targets)\<^sup>*\<^sup>* (dispatchAll targets buckets limited) s \<Longrightarrow> dispatch_inv opts targets s"
  by (induction rule: rtranclp_induct) (auto intro: dispatch_start_inv dispatch_inv_step)

lemma worker_bound:
  assumes "js_integer par"
  shows "js_le (js_int (int (worker_count par n))) (js_max (js_int 0) par)"
proof -
  obtain k where k: "par = js_int k" using assms by (cases par) (auto simp: js_integer_def intro: sym)
  have "worker_count par n \<le> length [w \<leftarrow> [0..<n]. w < nat k]"
  proof -
    have "[w \<leftarrow> [0..<n]. js_lt (js_int (int w)) (js_min par (js_int (int n)))] = [w \<leftarrow> [0..<n]. w < nat k]"
      by (rule filter_cong) (auto simp: k)
    then show ?thesis by (simp add: worker_count_def)
  qed
  also have "\<dots> = card {w. w < n \<and> w < nat k}" by (simp add: distinct_length_filter Int_def conj_commute)
  also have "\<dots> \<le> card {..<nat k}" by (intro card_mono) auto
  finally have "worker_count par n \<le> nat k" by simp
  then show ?thesis by (auto simp: k)
qed

lemma effective_parallel:
  assumes "js_integer (dp_parallel opts)" "\<forall>c. dp_ceiling opts = Some c \<longrightarrow> js_integer c"
  shows "js_integer (effectiveMaxParallel (dp_parallel opts) (dp_ceiling opts))
    \<and> js_le (js_int 1) (effectiveMaxParallel (dp_parallel opts) (dp_ceiling opts))"
proof -
  obtain k where k: "dp_parallel opts = js_int k" using assms(1) by (cases "dp_parallel opts") (auto simp: js_integer_def intro: sym)
  have int: "\<exists>l. c = js_int l" if "js_integer c" for c using that by (cases c) (auto simp: js_integer_def intro: sym)
  show ?thesis
  proof (cases "dp_ceiling opts")
    case None
    then show ?thesis by (simp add: effectiveMaxParallel_def k js_integer_def)
  next
    case (Some c)
    then obtain l where "c = js_int l" using int assms(2) by blast
    then show ?thesis using Some by (simp add: effectiveMaxParallel_def k js_integer_def)
  qed
qed

lemma worker_exists:
  assumes "js_le (js_int 1) par" "0 < n"
  shows "0 < worker_count par n"
proof -
  have "js_lt (js_int (int 0)) (js_min par (js_int (int n)))" using assms by (cases par) auto
  then have "0 \<in> set [w \<leftarrow> [0..<n]. js_lt (js_int (int w)) (js_min par (js_int (int n)))]" using assms(2) by simp
  then show ?thesis unfolding worker_count_def by (metis length_pos_if_in_set)
qed

text \<open>Every step of an item in flight is possible: it takes a token, sleeps, or is answered.\<close>

lemma flight_moves:
  assumes "(i, p) \<in> set (ds_flight s)"
  shows "\<exists>t. dispatch_step opts targets s t"
proof (cases p)
  case Sending
  then show ?thesis using Throws assms by blast
next
  case Waiting
  show ?thesis
  proof (cases "ds_buckets s (targets ! i)")
    case None
    then show ?thesis using Unlimited assms Waiting by blast
  next
    case (Some b)
    note item = assms [unfolded Waiting]
    obtain granted b' where take: "tryTake (dp_bucket opts (targets ! i)) 0 (js_int 1) b = (granted, b')"
      by (cases "tryTake (dp_bucket opts (targets ! i)) 0 (js_int 1) b")
    show ?thesis
    proof (cases granted)
      case True
      show ?thesis by (rule exI, rule Take [OF item Some]) (use take True in simp)
    next
      case False
      show ?thesis by (rule exI, rule Sleep [OF item Some]) (use take False in simp)
    qed
  qed
qed

lemma dispatch_progress:
  assumes "dispatch_inv opts targets s" "i < length targets" "ds_results s ! i = None"
    "js_le (js_int 1) (effectiveMaxParallel (dp_parallel opts) (dp_ceiling opts))"
  shows "\<exists>t. dispatch_step opts targets s t"
proof (cases "ds_flight s")
  case Nil
  then have "ds_next s < length targets" using assms(1,2,3) unfolding dispatch_inv_def by fastforce
  moreover have "0 < worker_count (effectiveMaxParallel (dp_parallel opts) (dp_ceiling opts)) (length targets)"
    by (rule worker_exists [OF assms(4)]) (use assms(2) in linarith)
  ultimately have "dispatch_step opts targets s (pick s)" by (intro Pick) (simp_all add: Nil)
  then show ?thesis by (rule exI)
next
  case (Cons f fs)
  then show ?thesis using flight_moves [of "fst f" "snd f" s] by auto
qed

text \<open>C31: in every interleaving of the workers, whatever the adapters answer or throw, at most the effective
  number of sends is in flight; no item is sent twice; an item has a result only if it was sent, and an
  item that was sent has a result or is still in flight; and until every item has its result some step is
  possible, so no item is dropped and none blocks the others.\<close>

theorem dispatch_is_bounded_and_complete:
  assumes "(dispatch_step opts targets)\<^sup>*\<^sup>* (dispatchAll targets buckets limited) s"
    and "js_integer (dp_parallel opts)" "\<forall>c. dp_ceiling opts = Some c \<longrightarrow> js_integer c"
  shows "js_le (js_int (int (length (ds_flight s)))) (effectiveMaxParallel (dp_parallel opts) (dp_ceiling opts))
    \<and> distinct (ds_sent s)
    \<and> (\<forall>i < length targets. i \<in> set (ds_sent s) \<longleftrightarrow> ds_results s ! i \<noteq> None \<or> (i, Sending) \<in> set (ds_flight s))
    \<and> ((\<forall>i < length targets. ds_results s ! i \<noteq> None) \<or> (\<exists>t. dispatch_step opts targets s t))"
proof -
  let ?par = "effectiveMaxParallel (dp_parallel opts) (dp_ceiling opts)"
  have inv: "dispatch_inv opts targets s" using dispatch_inv_reach assms(1) by blast
  have par: "js_integer ?par" "js_le (js_int 1) ?par" using effective_parallel [OF assms(2,3)] by auto
  have "js_le (js_int (int (worker_count ?par (length targets)))) (js_max (js_int 0) ?par)" by (rule worker_bound [OF par(1)])
  then have "js_le (js_int (int (worker_count ?par (length targets)))) ?par" using par by (cases ?par) (auto split: if_splits)
  moreover have "length (ds_flight s) \<le> worker_count ?par (length targets)" using inv unfolding dispatch_inv_def by blast
  ultimately have "js_le (js_int (int (length (ds_flight s)))) ?par" by (cases ?par) auto
  then show ?thesis using inv dispatch_progress [OF inv _ _ par(2)] unfolding dispatch_inv_def by blast
qed

definition demo_dispatch :: dispatch_opts where
  "demo_dispatch = \<lparr>dp_bucket = (\<lambda>_. demo_bucket), dp_parallel = js_int 2, dp_ceiling = Some (js_int 1)\<rparr>"

theorem dispatch_is_bounded_and_complete_witness:
  "\<exists>s :: string dispatch. (dispatch_step demo_dispatch [''a'', ''b''])\<^sup>*\<^sup>* (dispatchAll [''a'', ''b''] (\<lambda>_. None) (\<lambda>_. None)) s
     \<and> ds_sent s = [0] \<and> (\<exists>t. dispatch_step demo_dispatch [''a'', ''b''] s t)"
proof -
  let ?s0 = "dispatchAll [''a'', ''b''] (\<lambda>_. None) (\<lambda>_. None) :: string dispatch"
  let ?s1 = "pick ?s0"
  let ?s2 = "start_send 0 (emitRate \<lparr>ro_target = [''a'', ''b''] ! 0, ro_policy = None, ro_limited = False, ro_available = None\<rparr> True ?s1)"
  have "dispatch_step demo_dispatch [''a'', ''b''] ?s0 ?s1"
    by (rule Pick) (simp_all add: dispatchAll_def demo_dispatch_def worker_count_def effectiveMaxParallel_def)
  moreover have "dispatch_step demo_dispatch [''a'', ''b''] ?s1 ?s2"
    by (rule Unlimited) (simp_all add: dispatchAll_def pick_def)
  ultimately have reach: "(dispatch_step demo_dispatch [''a'', ''b''])\<^sup>*\<^sup>* ?s0 ?s2" by (meson rtranclp.rtrancl_into_rtrancl rtranclp.rtrancl_refl)
  have "js_integer (dp_parallel demo_dispatch)" "\<forall>c. dp_ceiling demo_dispatch = Some c \<longrightarrow> js_integer c"
    by (simp_all add: demo_dispatch_def js_integer_def)
  note facts = dispatch_is_bounded_and_complete [OF reach this]
  have "ds_sent ?s2 = [0]" "ds_results ?s2 ! 1 = None" by (simp_all add: start_send_def pick_def dispatchAll_def)
  then have "\<exists>t. dispatch_step demo_dispatch [''a'', ''b''] ?s2 t" using facts by fastforce
  then show ?thesis using reach \<open>ds_sent ?s2 = [0]\<close> by blast
qed

end
