(* ===== verification/Deploy.thy ===== *)
theory Deploy
  imports Contract Hypothesis "HOL-Library.Sublist"
begin

text \<open>
  The deploy stage of \<open>core/src/deploy/stage.ts\<close>: canary, observe, then expand or roll back, after the
  approved package has been authenticated again. Every command goes through the executor, every state
  is a \<open>DEPLOY_STATE\<close> event, and a fenced ownership check precedes both. The executor, the evidence
  store, the deploy clock, the approval check and the ownership check are arguments; \<open>CFence\<close>,
  \<open>CCommand\<close> and \<open>CExit\<close> are the history of the checks passed, the commands issued and their verdicts.
\<close>

section \<open>The stage's data\<close>

datatype deploy_state =
    D_PENDING_APPROVAL | D_CANARY | D_OBSERVING | D_EXPANDED | D_ROLLING_BACK | D_ROLLED_BACK | D_ESCALATED

fun deploy_state_name :: "deploy_state \<Rightarrow> string" where
  "deploy_state_name D_PENDING_APPROVAL = ''PENDING_APPROVAL''"
| "deploy_state_name D_CANARY = ''CANARY''"
| "deploy_state_name D_OBSERVING = ''OBSERVING''"
| "deploy_state_name D_EXPANDED = ''EXPANDED''"
| "deploy_state_name D_ROLLING_BACK = ''ROLLING_BACK''"
| "deploy_state_name D_ROLLED_BACK = ''ROLLED_BACK''"
| "deploy_state_name D_ESCALATED = ''ESCALATED''"

datatype deploy_trigger =
    DT_start | DT_evidence_invalid | DT_canary_ok | DT_canary_failed | DT_observe_ok | DT_observe_failed
  | DT_expand_ok | DT_expand_failed | DT_rollback_ok | DT_rollback_failed | DT_manual_rollback

fun deploy_trigger_name :: "deploy_trigger \<Rightarrow> string" where
  "deploy_trigger_name DT_start = ''start''"
| "deploy_trigger_name DT_evidence_invalid = ''evidence_invalid''"
| "deploy_trigger_name DT_canary_ok = ''canary_ok''"
| "deploy_trigger_name DT_canary_failed = ''canary_failed''"
| "deploy_trigger_name DT_observe_ok = ''observe_ok''"
| "deploy_trigger_name DT_observe_failed = ''observe_failed''"
| "deploy_trigger_name DT_expand_ok = ''expand_ok''"
| "deploy_trigger_name DT_expand_failed = ''expand_failed''"
| "deploy_trigger_name DT_rollback_ok = ''rollback_ok''"
| "deploy_trigger_name DT_rollback_failed = ''rollback_failed''"
| "deploy_trigger_name DT_manual_rollback = ''manual_rollback''"

record root_cause =
  rc_trigger :: deploy_trigger
  rc_failed :: nat
  rc_refs :: "string list"

record probe_result =
  pr_pass :: bool
  pr_ref :: string

record deploy_outcome =
  do_final :: deploy_state
  do_results :: "probe_result list"
  do_cause :: "root_cause option"

text \<open>What the approval check throws: its \<open>code\<close> and \<open>reason\<close>, when it has them, and its message.\<close>

record approval_error =
  ae_code :: "string option"
  ae_reason :: "string option"
  ae_detail :: string

record 'w deploy_deps =
  dp_run :: string
  dp_task :: string
  dp_config :: deploy_spec
  dp_execute :: "action \<Rightarrow> role \<Rightarrow> 'w \<Rightarrow> (string + exec_outcome) \<times> 'w"
  dp_put :: "string \<Rightarrow> 'w \<Rightarrow> (string + string) \<times> 'w"
  dp_wait :: "js_num \<Rightarrow> 'w \<Rightarrow> unit \<times> 'w"
  dp_verify :: "'w \<Rightarrow> (approval_error + unit) \<times> 'w"
  dp_own :: "(string \<Rightarrow> 'w \<Rightarrow> (string + unit) \<times> 'w) option"

section \<open>\<open>JSON.stringify\<close> of a flat record of strings\<close>

definition hex_digit :: "nat \<Rightarrow> char" where
  "hex_digit n = char_of (if n < 10 then 48 + n else 87 + n)"

definition json_char :: "char \<Rightarrow> string" where
  "json_char c =
     (let n = of_char c :: nat; bs = CHR 0x5C in
      if n = 34 \<or> n = 92 then [bs, c]
      else if n = 8 then [bs, CHR ''b''] else if n = 9 then [bs, CHR ''t'']
      else if n = 10 then [bs, CHR ''n''] else if n = 12 then [bs, CHR ''f'']
      else if n = 13 then [bs, CHR ''r'']
      else if n < 32 then bs # ''u00'' @ [hex_digit (n div 16), hex_digit (n mod 16)]
      else [c])"

definition json_string :: "string \<Rightarrow> string" where
  "json_string s = CHR 0x22 # concat (map json_char s) @ [CHR 0x22]"

definition json_record :: "(string \<times> string) list \<Rightarrow> string" where
  "json_record fs = ''{'' @ join '','' (map (\<lambda>(k, v). json_string k @ '':'' @ json_string v) fs) @ ''}''"

section \<open>Commands and states\<close>

definition assertOwnership :: "'w deploy_deps \<Rightarrow> string \<Rightarrow> ('w, unit) eff" where
  "assertOwnership dp boundary =
     (case dp_own dp of
        None \<Rightarrow> ret ()
      | Some f \<Rightarrow> bind (call (f boundary)) (\<lambda>_. record_call (CFence boundary)))"

definition deploy_event :: "'w deploy_deps \<Rightarrow> event_type \<Rightarrow> payload \<Rightarrow> ('w, unit) eff" where
  "deploy_event dp ty pl =
     log_event \<lparr>ne_run = dp_run dp, ne_task = Some (dp_task dp), ne_type = ty, ne_payload = pl\<rparr>"

definition record_state :: "'w deploy_deps \<Rightarrow> deploy_state \<Rightarrow> deploy_trigger \<Rightarrow> payload \<Rightarrow> ('w, unit) eff" where
  "record_state dp st tr extra =
     bind (assertOwnership dp (''deploy_state:'' @ deploy_state_name st @ '':'' @ deploy_trigger_name tr)) (\<lambda>_.
     deploy_event dp E_DEPLOY_STATE
       ([(''state'', VStr (deploy_state_name st)), (''trigger'', VStr (deploy_trigger_name tr)),
         (''simulation'', VBool True)] @ extra))"

record command_run =
  cr_ok :: bool
  cr_exit :: "int option"
  cr_ref :: string

definition exit_zero :: "exec_outcome \<Rightarrow> bool" where
  "exit_zero out = (case out of Applied _ ex \<Rightarrow> ex = Some 0 | _ \<Rightarrow> False)"

definition runDeployCommand :: "'w deploy_deps \<Rightarrow> string \<Rightarrow> string \<Rightarrow> ('w, command_run) eff" where
  "runDeployCommand dp aid cmd =
     bind (assertOwnership dp aid) (\<lambda>_.
     bind (record_call (CCommand aid cmd)) (\<lambda>_.
     bind (call (dp_execute dp (RunCommand aid cmd None NetNone None) Diagnostician)) (\<lambda>out.
     bind (record_call (CExit aid (exit_zero out))) (\<lambda>_.
     case out of
       Applied oref ex \<Rightarrow>
         bind (case oref of
                 Some r \<Rightarrow> ret r
               | None \<Rightarrow> call (dp_put dp (''exit:'' @ (case ex of None \<Rightarrow> ''null'' | Some n \<Rightarrow> int_str n)))) (\<lambda>r.
         ret \<lparr>cr_ok = (ex = Some 0), cr_exit = ex, cr_ref = r\<rparr>)
     | SkippedDuplicate \<Rightarrow>
         bind (call (dp_put dp (json_record [(''status'', ''skipped_duplicate'')]))) (\<lambda>r.
         ret \<lparr>cr_ok = False, cr_exit = None, cr_ref = r\<rparr>)
     | ExecRejected rj \<Rightarrow>
         bind (call (dp_put dp (json_record
                 [(''actionId'', rej_action rj), (''reason'', reason_name (rej_reason rj)),
                  (''detail'', rej_detail rj)]))) (\<lambda>r.
         ret \<lparr>cr_ok = False, cr_exit = None, cr_ref = r\<rparr>)))))"

definition refs_field :: "nat \<Rightarrow> string list \<Rightarrow> payload" where
  "refs_field n refs = [(''failedProbes'', vint (int n)), (''refs'', VArr (map VStr refs))]"

definition runRollback ::
    "'w deploy_deps \<Rightarrow> deploy_trigger \<Rightarrow> nat \<Rightarrow> string list \<Rightarrow> ('w, deploy_state \<times> root_cause) eff" where
  "runRollback dp tr failed refs =
     bind (assertOwnership dp ''deploy-rollback'') (\<lambda>_.
     bind (record_state dp D_ROLLING_BACK tr (refs_field failed refs)) (\<lambda>_.
     bind (runDeployCommand dp ''deploy-rollback'' (ds_rollback_cmd (dp_config dp))) (\<lambda>rb.
     let allRefs = refs @ [cr_ref rb] in
     if cr_ok rb
     then
       bind (record_state dp D_ROLLED_BACK DT_rollback_ok (refs_field failed allRefs)) (\<lambda>_.
       ret (D_ROLLED_BACK, \<lparr>rc_trigger = tr, rc_failed = failed, rc_refs = allRefs\<rparr>))
     else
       bind (record_state dp D_ESCALATED DT_rollback_failed (refs_field failed allRefs)) (\<lambda>_.
       ret (D_ESCALATED, \<lparr>rc_trigger = DT_rollback_failed, rc_failed = failed, rc_refs = allRefs\<rparr>)))))"

section \<open>The stage\<close>

definition why_invalid :: "approval_error \<Rightarrow> string" where
  "why_invalid e =
     (case ae_reason e of
        Some r \<Rightarrow> if r = ''evidence_auth_unavailable'' \<or> r = ''evidence_auth_mismatch'' then r
                  else ''evidence_auth_mismatch''
      | None \<Rightarrow> ''evidence_auth_mismatch'')"

definition invalid_field :: "approval_error \<Rightarrow> payload" where
  "invalid_field e =
     [(''why'', VStr (why_invalid e)), (''boundary'', VStr ''deploy_stage''),
      (''code'', VStr (case ae_code e of Some c \<Rightarrow> c | None \<Rightarrow> ''evidence_auth_failed'')),
      (''detail'', VStr (ae_detail e))]"

definition refuse_deploy :: "'w deploy_deps \<Rightarrow> approval_error \<Rightarrow> ('w, deploy_outcome) eff" where
  "refuse_deploy dp e =
     bind (record_state dp D_ESCALATED DT_evidence_invalid (invalid_field e)) (\<lambda>_.
     bind (assertOwnership dp ''deploy_error'') (\<lambda>_.
     bind (deploy_event dp E_ESCALATED (invalid_field e)) (\<lambda>_.
     ret \<lparr>do_final = D_ESCALATED, do_results = [], do_cause = None\<rparr>)))"

definition probe_id :: "nat \<Rightarrow> string" where
  "probe_id i = ''deploy-observe-'' @ nat_str (Suc i)"

definition run_probe :: "'w deploy_deps \<Rightarrow> nat \<Rightarrow> ('w, probe_result) eff" where
  "run_probe dp i =
     bind (if 0 < i then ask (dp_wait dp (do_interval (ds_observe (dp_config dp)))) else ret ()) (\<lambda>_.
     bind (runDeployCommand dp (probe_id i) (ds_observe_cmd (dp_config dp))) (\<lambda>probe.
     bind (assertOwnership dp (''deploy_probe:'' @ nat_str (Suc i))) (\<lambda>_.
     bind (deploy_event dp E_PROBE_RUN
            [(''cmd'', VStr (ds_observe_cmd (dp_config dp))),
             (''exit'', (case cr_exit probe of None \<Rightarrow> VNull | Some n \<Rightarrow> vint n)),
             (''evidenceRef'', VStr (cr_ref probe)), (''error'', VBool (cr_exit probe = None))]) (\<lambda>_.
     ret \<lparr>pr_pass = cr_ok probe, pr_ref = cr_ref probe\<rparr>))))"

text \<open>\<open>observe dp i n\<close>: the probes \<open>i\<close> to \<open>i + n - 1\<close>.\<close>

fun observe :: "'w deploy_deps \<Rightarrow> nat \<Rightarrow> nat \<Rightarrow> ('w, probe_result list) eff" where
  "observe dp i 0 = ret []"
| "observe dp i (Suc n) =
     bind (run_probe dp i) (\<lambda>r. bind (observe dp (Suc i) n) (\<lambda>rs. ret (r # rs)))"

definition rolled :: "probe_result list \<Rightarrow> deploy_state \<times> root_cause \<Rightarrow> deploy_outcome" where
  "rolled results r = \<lparr>do_final = fst r, do_results = results, do_cause = Some (snd r)\<rparr>"

definition failed_results :: "probe_result list \<Rightarrow> probe_result list" where
  "failed_results = filter (\<lambda>p. \<not> pr_pass p)"

definition expand_or_roll_back :: "'w deploy_deps \<Rightarrow> probe_result list \<Rightarrow> ('w, deploy_outcome) eff" where
  "expand_or_roll_back dp results =
     (let failed = length (failed_results results) in
      if do_threshold (ds_observe (dp_config dp)) < failed
      then bind (runRollback dp DT_observe_failed failed (map pr_ref (failed_results results))) (\<lambda>r. ret (rolled results r))
      else
        bind (runDeployCommand dp ''deploy-expand'' (ds_expand_cmd (dp_config dp))) (\<lambda>expand.
        if \<not> cr_ok expand
        then bind (runRollback dp DT_expand_failed failed [cr_ref expand]) (\<lambda>r. ret (rolled results r))
        else
          bind (record_state dp D_EXPANDED DT_expand_ok []) (\<lambda>_.
          ret \<lparr>do_final = D_EXPANDED, do_results = results, do_cause = None\<rparr>)))"

definition run_canary :: "'w deploy_deps \<Rightarrow> ('w, deploy_outcome) eff" where
  "run_canary dp =
     bind (record_state dp D_CANARY DT_start []) (\<lambda>_.
     bind (runDeployCommand dp ''deploy-canary'' (ds_canary_cmd (dp_config dp))) (\<lambda>canary.
     if \<not> cr_ok canary
     then bind (runRollback dp DT_canary_failed 0 [cr_ref canary]) (\<lambda>r. ret (rolled [] r))
     else
       bind (record_state dp D_OBSERVING DT_canary_ok []) (\<lambda>_.
       bind (observe dp 0 (do_probes (ds_observe (dp_config dp)))) (\<lambda>results.
       expand_or_roll_back dp results))))"

definition runDeployStage :: "'w deploy_deps \<Rightarrow> ('w, deploy_outcome) eff" where
  "runDeployStage dp =
     bind (ask (dp_verify dp)) (\<lambda>v.
     case v of Inl e \<Rightarrow> refuse_deploy dp e | Inr _ \<Rightarrow> run_canary dp)"

definition runManualRollback :: "'w deploy_deps \<Rightarrow> ('w, deploy_outcome) eff" where
  "runManualRollback dp = bind (runRollback dp DT_manual_rollback 0 []) (\<lambda>r. ret (rolled [] r))"

section \<open>The specification: a story told by four verdicts\<close>

text \<open>
  What a stage does is a function of the verdicts of its commands: the canary's \<open>c\<close>, the probes' \<open>ps\<close>,
  the expansion's \<open>e\<close> and the rollback's \<open>r\<close>. A story lists the commands with their verdicts, the
  states recorded, the final one and the cause of a rollback.
\<close>

record story =
  st_runs :: "(string \<times> bool) list"
  st_states :: "deploy_state list"
  st_cause :: "deploy_trigger option"

definition with_rollback :: "deploy_trigger \<Rightarrow> bool \<Rightarrow> story \<Rightarrow> story" where
  "with_rollback why r s =
     \<lparr>st_runs = st_runs s @ [(''deploy-rollback'', r)],
      st_states = st_states s @ [D_ROLLING_BACK, if r then D_ROLLED_BACK else D_ESCALATED],
      st_cause = Some (if r then why else DT_rollback_failed)\<rparr>"

definition probe_runs :: "nat \<Rightarrow> bool list \<Rightarrow> (string \<times> bool) list" where
  "probe_runs i ps = map (\<lambda>(k, p). (probe_id k, p)) (enumerate i ps)"

definition failures :: "bool list \<Rightarrow> nat" where
  "failures ps = length (filter Not ps)"

definition deploy_story :: "deploy_observe \<Rightarrow> bool \<Rightarrow> bool list \<Rightarrow> bool \<Rightarrow> bool \<Rightarrow> story" where
  "deploy_story ob c ps e r =
     (if \<not> c then
        with_rollback DT_canary_failed r \<lparr>st_runs = [(''deploy-canary'', False)], st_states = [D_CANARY], st_cause = None\<rparr>
      else
        let watched = \<lparr>st_runs = (''deploy-canary'', True) # probe_runs 0 ps, st_states = [D_CANARY, D_OBSERVING],
                       st_cause = None\<rparr> in
        if do_threshold ob < failures ps then with_rollback DT_observe_failed r watched
        else if \<not> e then with_rollback DT_expand_failed r (watched\<lparr>st_runs := st_runs watched @ [(''deploy-expand'', False)]\<rparr>)
        else watched\<lparr>st_runs := st_runs watched @ [(''deploy-expand'', True)], st_states := st_states watched @ [D_EXPANDED]\<rparr>)"

text \<open>What the history and the log of a run show.\<close>

fun exits_of :: "ext_call list \<Rightarrow> (string \<times> bool) list" where
  "exits_of (CExit a ok # cs) = (a, ok) # exits_of cs"
| "exits_of (_ # cs) = exits_of cs"
| "exits_of [] = []"

fun commands_of :: "ext_call list \<Rightarrow> (string \<times> string) list" where
  "commands_of (CCommand a c # cs) = (a, c) # commands_of cs"
| "commands_of (_ # cs) = commands_of cs"
| "commands_of [] = []"

definition states_of :: "new_event list \<Rightarrow> js_val list" where
  "states_of es = [fields_get (ne_payload e) ''state''. e \<leftarrow> es, ne_type e = E_DEPLOY_STATE]"

definition state_vals :: "deploy_state list \<Rightarrow> js_val list" where
  "state_vals = map (\<lambda>d. VStr (deploy_state_name d))"

definition command_text :: "deploy_spec \<Rightarrow> string \<Rightarrow> string" where
  "command_text cfg a =
     (if a = ''deploy-canary'' then ds_canary_cmd cfg
      else if a = ''deploy-expand'' then ds_expand_cmd cfg
      else if a = ''deploy-rollback'' then ds_rollback_cmd cfg
      else ds_observe_cmd cfg)"

text \<open>Every command is issued right after the ownership check of its own name.\<close>

fun owned :: "string option \<Rightarrow> ext_call list \<Rightarrow> bool" where
  "owned b [] = True"
| "owned b (CFence f # cs) = owned (Some f) cs"
| "owned b (CCommand a c # cs) = (b = Some a \<and> owned None cs)"
| "owned b (_ # cs) = owned None cs"


section \<open>The stage implements the story\<close>

definition fences :: "'w deploy_deps \<Rightarrow> string \<Rightarrow> ext_call list" where
  "fences dp b = (case dp_own dp of None \<Rightarrow> [] | Some _ \<Rightarrow> [CFence b])"

definition state_calls :: "'w deploy_deps \<Rightarrow> deploy_state \<Rightarrow> deploy_trigger \<Rightarrow> ext_call list" where
  "state_calls dp st tr = fences dp (''deploy_state:'' @ deploy_state_name st @ '':'' @ deploy_trigger_name tr)"

definition cmd_calls :: "'w deploy_deps \<Rightarrow> string \<Rightarrow> string \<Rightarrow> bool \<Rightarrow> ext_call list" where
  "cmd_calls dp aid cmd ok = fences dp aid @ [CCommand aid cmd, CExit aid ok]"

definition rollback_calls :: "'w deploy_deps \<Rightarrow> deploy_trigger \<Rightarrow> bool \<Rightarrow> ext_call list" where
  "rollback_calls dp tr r =
     fences dp ''deploy-rollback'' @ state_calls dp D_ROLLING_BACK tr @
     cmd_calls dp ''deploy-rollback'' (ds_rollback_cmd (dp_config dp)) r @
     (if r then state_calls dp D_ROLLED_BACK DT_rollback_ok else state_calls dp D_ESCALATED DT_rollback_failed)"

fun probe_calls :: "'w deploy_deps \<Rightarrow> nat \<Rightarrow> bool list \<Rightarrow> ext_call list" where
  "probe_calls dp i [] = []"
| "probe_calls dp i (p # ps) =
     cmd_calls dp (probe_id i) (ds_observe_cmd (dp_config dp)) p @
     fences dp (''deploy_probe:'' @ nat_str (Suc i)) @ probe_calls dp (Suc i) ps"

definition seen :: "ext_call list \<Rightarrow> deploy_state list \<Rightarrow> 'w sys \<Rightarrow> bool" where
  "seen cs ls s \<longleftrightarrow> sys_calls s = cs \<and> states_of (sys_log s) = state_vals ls"

definition stopped :: "ext_call list \<Rightarrow> deploy_state list \<Rightarrow> 'w sys \<Rightarrow> bool" where
  "stopped cs ls s \<longleftrightarrow> prefix (sys_calls s) cs \<and> prefix (states_of (sys_log s)) (state_vals ls)"

lemma states_of_snoc [simp]:
  "states_of (es @ [e]) = states_of es @ (if ne_type e = E_DEPLOY_STATE then [fields_get (ne_payload e) ''state''] else [])"
  by (simp add: states_of_def)

lemma state_vals_simps [simp]:
  "state_vals [] = []" "state_vals (d # ds) = VStr (deploy_state_name d) # state_vals ds"
  "state_vals (ds @ ds') = state_vals ds @ state_vals ds'"
  by (simp_all add: state_vals_def)

lemma seen_stopped: "seen cs ls s \<Longrightarrow> prefix cs cs' \<Longrightarrow> prefix ls ls' \<Longrightarrow> stopped cs' ls' s"
  by (auto simp: seen_def stopped_def prefix_def)

lemma stopped_mono: "stopped cs ls s \<Longrightarrow> prefix cs cs' \<Longrightarrow> prefix ls ls' \<Longrightarrow> stopped cs' ls' s"
  by (auto simp: stopped_def prefix_def)

lemma fence_rule:
  assumes "\<And>s. seen cs ls s \<Longrightarrow> E s"
  shows "eff_ok (seen cs ls) (assertOwnership dp b) (\<lambda>_. seen (cs @ fences dp b) ls) E"
  unfolding assertOwnership_def
  by (cases "dp_own dp")
     (auto simp: fences_def seen_def eff_ok_def bind_def call_def ret_def record_call_def
        intro!: assms [unfolded seen_def] split: prod.splits sum.splits)

lemma event_rule:
  "eff_ok (seen cs ls) (deploy_event dp ty pl)
     (\<lambda>_ s. sys_calls s = cs \<and> states_of (sys_log s) =
        state_vals ls @ (if ty = E_DEPLOY_STATE then [fields_get pl ''state''] else [])) E"
  unfolding deploy_event_def by (rule eff_ok_log) (simp add: seen_def)

lemma state_rule:
  assumes "\<And>s. seen cs ls s \<Longrightarrow> E s"
  shows "eff_ok (seen cs ls) (record_state dp st tr extra) (\<lambda>_. seen (cs @ state_calls dp st tr) (ls @ [st])) E"
  unfolding record_state_def state_calls_def
  by (rule eff_ok_bind [OF fence_rule [OF assms]], assumption, rule eff_ok_weaken [OF event_rule])
     (auto simp: seen_def fields_get_def)

text \<open>The evidence store and the clock touch neither the history nor the log.\<close>

lemma put_rule:
  assumes "\<And>s. seen cs ls s \<Longrightarrow> E s"
  shows "eff_ok (seen cs ls) (call (dp_put dp x)) (\<lambda>_. seen cs ls) E"
  by (rule eff_ok_call) (auto simp: seen_def intro: assms [unfolded seen_def])

lemma wait_rule: "eff_ok (seen cs ls) (ask g) (\<lambda>_. seen cs ls) E"
  by (rule eff_ok_ask) (simp add: seen_def)

lemma command_tail:
  assumes E: "\<And>s. seen cs ls s \<Longrightarrow> E s"
  shows "eff_ok (seen cs ls)
     (case out of
       Applied oref ex \<Rightarrow>
         bind (case oref of
                 Some r \<Rightarrow> ret r
               | None \<Rightarrow> call (dp_put dp (''exit:'' @ (case ex of None \<Rightarrow> ''null'' | Some n \<Rightarrow> int_str n)))) (\<lambda>r.
         ret \<lparr>cr_ok = (ex = Some 0), cr_exit = ex, cr_ref = r\<rparr>)
     | SkippedDuplicate \<Rightarrow>
         bind (call (dp_put dp (json_record [(''status'', ''skipped_duplicate'')]))) (\<lambda>r.
         ret \<lparr>cr_ok = False, cr_exit = None, cr_ref = r\<rparr>)
     | ExecRejected rj \<Rightarrow>
         bind (call (dp_put dp (json_record
                 [(''actionId'', rej_action rj), (''reason'', reason_name (rej_reason rj)),
                  (''detail'', rej_detail rj)]))) (\<lambda>r.
         ret \<lparr>cr_ok = False, cr_exit = None, cr_ref = r\<rparr>))
     (\<lambda>run s. seen cs ls s \<and> cr_ok run = exit_zero out) E"
proof (cases out)
  case (Applied oref ex)
  have "eff_ok (seen cs ls) (case oref of Some r \<Rightarrow> ret r
      | None \<Rightarrow> call (dp_put dp (''exit:'' @ (case ex of None \<Rightarrow> ''null'' | Some n \<Rightarrow> int_str n)))) (\<lambda>_. seen cs ls) E"
    by (cases oref) (auto intro: put_rule E eff_ok_ret)
  then show ?thesis
    unfolding Applied exec_outcome.case by (rule eff_ok_bind) (auto simp: exit_zero_def intro: eff_ok_ret)
qed (auto simp: exit_zero_def intro!: eff_ok_bind [OF put_rule [OF E]] eff_ok_ret)

lemma command_rule:
  assumes E: "\<And>ok s. stopped (cs @ cmd_calls dp aid cmd ok) ls s \<Longrightarrow> E s"
  shows "eff_ok (seen cs ls) (runDeployCommand dp aid cmd)
           (\<lambda>run. seen (cs @ cmd_calls dp aid cmd (cr_ok run)) ls) E"
proof -
  have pre: "E s" if "seen c ls s" "prefix c (cs @ cmd_calls dp aid cmd ok)" for c ok s
    using E [of ok s] seen_stopped [OF that] by simp
  have exec: "eff_ok (seen (cs @ fences dp aid @ [CCommand aid cmd]) ls) (call g)
      (\<lambda>_. seen (cs @ fences dp aid @ [CCommand aid cmd]) ls) E" for g
    by (rule eff_ok_call) (auto simp: seen_def cmd_calls_def intro!: pre [where ok = True, unfolded seen_def])
  have rec: "eff_ok (seen (cs @ fences dp aid @ [CCommand aid cmd]) ls) (record_call (CExit aid ok))
      (\<lambda>_. seen (cs @ cmd_calls dp aid cmd ok) ls) E" for ok
    by (rule eff_ok_record_call) (simp add: seen_def cmd_calls_def)
  have cmd: "eff_ok (seen (cs @ fences dp aid) ls) (record_call (CCommand aid cmd))
      (\<lambda>_. seen (cs @ fences dp aid @ [CCommand aid cmd]) ls) E"
    by (rule eff_ok_record_call) (simp add: seen_def)
  have fence: "eff_ok (seen cs ls) (assertOwnership dp aid) (\<lambda>_. seen (cs @ fences dp aid) ls) E"
    by (rule fence_rule) (erule pre [where ok = True], simp)
  have tail: "eff_ok (seen (cs @ cmd_calls dp aid cmd (exit_zero out)) ls) m
      (\<lambda>run. seen (cs @ cmd_calls dp aid cmd (cr_ok run)) ls) E"
    if m: "eff_ok (seen (cs @ cmd_calls dp aid cmd (exit_zero out)) ls) m
      (\<lambda>run s. seen (cs @ cmd_calls dp aid cmd (exit_zero out)) ls s \<and> cr_ok run = exit_zero out) E" for out m
    by (rule eff_ok_weaken [OF m]) auto
  show ?thesis
    unfolding runDeployCommand_def
    by (rule eff_ok_bind [OF fence] eff_ok_bind [OF cmd] eff_ok_bind [OF exec] eff_ok_bind [OF rec])+
       (rule tail, rule command_tail, erule pre, rule prefix_order.order_refl)
qed

definition after :: "bool \<Rightarrow> deploy_state" where
  "after r = (if r then D_ROLLED_BACK else D_ESCALATED)"

lemma rollback_rule:
  assumes E: "\<And>r s. stopped (cs @ rollback_calls dp tr r) (ls @ [D_ROLLING_BACK, after r]) s \<Longrightarrow> E s"
  shows "eff_ok (seen cs ls) (runRollback dp tr n refs)
           (\<lambda>x s. \<exists>r. seen (cs @ rollback_calls dp tr r) (ls @ [D_ROLLING_BACK, after r]) s
              \<and> fst x = after r \<and> rc_trigger (snd x) = (if r then tr else DT_rollback_failed)
              \<and> rc_failed (snd x) = n) E"
proof -
  let ?c1 = "cs @ fences dp ''deploy-rollback''"
  let ?c2 = "?c1 @ state_calls dp D_ROLLING_BACK tr"
  let ?cmd = "cmd_calls dp ''deploy-rollback'' (ds_rollback_cmd (dp_config dp))"
  let ?l = "ls @ [D_ROLLING_BACK]"
  have pre: "E s" if "stopped c l s" "prefix c (cs @ rollback_calls dp tr r)" "prefix l (ls @ [D_ROLLING_BACK, after r])"
    for c l s r
    using E [of r s] stopped_mono [OF that] by simp
  have pre': "E s" if "seen c l s" "prefix c (cs @ rollback_calls dp tr r)" "prefix l (ls @ [D_ROLLING_BACK, after r])"
    for c l s r
    using E [of r s] seen_stopped [OF that] by simp
  have 1: "eff_ok (seen cs ls) (assertOwnership dp ''deploy-rollback'') (\<lambda>_. seen ?c1 ls) E"
    by (rule fence_rule) (erule pre' [where r = True], simp_all)
  have 2: "eff_ok (seen ?c1 ls) (record_state dp D_ROLLING_BACK tr x) (\<lambda>_. seen ?c2 ?l) E" for x
    by (rule state_rule) (erule pre' [where r = True], simp_all add: rollback_calls_def)
  have 3: "eff_ok (seen ?c2 ?l) (runDeployCommand dp ''deploy-rollback'' (ds_rollback_cmd (dp_config dp)))
      (\<lambda>run. seen (?c2 @ ?cmd (cr_ok run)) ?l) E"
  proof (rule command_rule)
    fix ok and s :: "'a sys"
    assume "stopped (?c2 @ ?cmd ok) ?l s"
    then show "E s" by (rule pre [where r = ok]) (simp_all add: rollback_calls_def)
  qed
  have 4: "eff_ok (seen (?c2 @ ?cmd r) ?l) (record_state dp (after r) (if r then DT_rollback_ok else DT_rollback_failed) x)
      (\<lambda>_. seen (cs @ rollback_calls dp tr r) (ls @ [D_ROLLING_BACK, after r])) E" for r x
  proof -
    have eq: "cs @ rollback_calls dp tr r =
        (?c2 @ ?cmd r) @ state_calls dp (after r) (if r then DT_rollback_ok else DT_rollback_failed)"
      by (simp add: rollback_calls_def after_def)
    have l: "ls @ [D_ROLLING_BACK, after r] = ?l @ [after r]" by simp
    show ?thesis
      unfolding eq l by (rule state_rule) (erule pre' [where r = r, unfolded eq l], simp_all)
  qed
  show ?thesis
    unfolding runRollback_def Let_def
  proof (rule eff_ok_bind [OF 1], rule eff_ok_bind [OF 2], rule eff_ok_bind [OF 3])
    fix run
    show "eff_ok (seen (?c2 @ ?cmd (cr_ok run)) ?l)
      (if cr_ok run then bind (record_state dp D_ROLLED_BACK DT_rollback_ok (refs_field n (refs @ [cr_ref run])))
          (\<lambda>_. ret (D_ROLLED_BACK, \<lparr>rc_trigger = tr, rc_failed = n, rc_refs = refs @ [cr_ref run]\<rparr>))
       else bind (record_state dp D_ESCALATED DT_rollback_failed (refs_field n (refs @ [cr_ref run])))
          (\<lambda>_. ret (D_ESCALATED, \<lparr>rc_trigger = DT_rollback_failed, rc_failed = n, rc_refs = refs @ [cr_ref run]\<rparr>)))
      (\<lambda>x s. \<exists>r. seen (cs @ rollback_calls dp tr r) (ls @ [D_ROLLING_BACK, after r]) s
              \<and> fst x = after r \<and> rc_trigger (snd x) = (if r then tr else DT_rollback_failed)
              \<and> rc_failed (snd x) = n) E"
    proof (cases "cr_ok run")
      case True
      then have yes: "cr_ok run = True" by simp
      have "eff_ok (seen (?c2 @ ?cmd True) ?l) (record_state dp D_ROLLED_BACK DT_rollback_ok x)
          (\<lambda>_. seen (cs @ rollback_calls dp tr True) (ls @ [D_ROLLING_BACK, D_ROLLED_BACK])) E" for x
        using 4 [of True x] by (simp add: after_def)
      then show ?thesis
        unfolding yes if_True by (rule eff_ok_bind) (rule eff_ok_ret, rule exI [of _ True], simp add: after_def)
    next
      case False
      then have no: "cr_ok run = False" by simp
      have "eff_ok (seen (?c2 @ ?cmd False) ?l) (record_state dp D_ESCALATED DT_rollback_failed x)
          (\<lambda>_. seen (cs @ rollback_calls dp tr False) (ls @ [D_ROLLING_BACK, D_ESCALATED])) E" for x
        using 4 [of False x] by (simp add: after_def)
      then show ?thesis
        unfolding no if_False by (rule eff_ok_bind) (rule eff_ok_ret, rule exI [of _ False], simp add: after_def)
    qed
  qed
qed

declare probe_calls.simps(2) [simp del]

lemma probe_calls_single:
  "probe_calls dp i [p] = cmd_calls dp (probe_id i) (ds_observe_cmd (dp_config dp)) p @
     fences dp (''deploy_probe:'' @ nat_str (Suc i))"
  by (simp add: probe_calls.simps(2))

lemma run_probe_rule:
  assumes E: "\<And>p s. stopped (cs @ probe_calls dp i [p]) ls s \<Longrightarrow> E s"
  shows "eff_ok (seen cs ls) (run_probe dp i) (\<lambda>x. seen (cs @ probe_calls dp i [pr_pass x]) ls) E"
proof -
  let ?cmd = "cmd_calls dp (probe_id i) (ds_observe_cmd (dp_config dp))"
  have pre: "E s" if "stopped c ls s" "prefix c (cs @ probe_calls dp i [p])" for c s p
    using E [of p s] stopped_mono [OF that] by simp
  have 1: "eff_ok (seen cs ls) (if 0 < i then ask g else ret ()) (\<lambda>_. seen cs ls) E" for g
    by (auto intro: wait_rule eff_ok_ret)
  have 2: "eff_ok (seen cs ls) (runDeployCommand dp (probe_id i) (ds_observe_cmd (dp_config dp)))
      (\<lambda>run. seen (cs @ ?cmd (cr_ok run)) ls) E"
  proof (rule command_rule)
    fix ok and s :: "'a sys"
    assume "stopped (cs @ ?cmd ok) ls s"
    then show "E s" by (rule pre [where p = ok]) (simp add: probe_calls_single)
  qed
  have 3: "eff_ok (seen (cs @ ?cmd p) ls) (assertOwnership dp (''deploy_probe:'' @ nat_str (Suc i)))
      (\<lambda>_. seen (cs @ probe_calls dp i [p]) ls) E" for p
  proof -
    have "E s" if "seen (cs @ ?cmd p) ls s" for s :: "'a sys"
      using seen_stopped [OF that] by (intro pre [where p = p and c = "cs @ ?cmd p"]) (auto simp: probe_calls_single)
    then show ?thesis using fence_rule [of "cs @ ?cmd p" ls E dp] by (simp add: probe_calls_single)
  qed
  have 4: "eff_ok (seen c ls) (deploy_event dp E_PROBE_RUN pl) (\<lambda>_. seen c ls) E" for c pl
    by (rule eff_ok_weaken [OF event_rule]) (auto simp: seen_def)
  show ?thesis
    unfolding run_probe_def
    by (rule eff_ok_bind [OF 1] eff_ok_bind [OF 2] eff_ok_bind [OF 3] eff_ok_bind [OF 4])+ (rule eff_ok_ret, simp)
qed

lemma observe_rule:
  assumes "\<And>ps s. length ps = n \<Longrightarrow> stopped (cs @ probe_calls dp i ps) ls s \<Longrightarrow> E s"
  shows "eff_ok (seen cs ls) (observe dp i n)
           (\<lambda>rs s. length rs = n \<and> seen (cs @ probe_calls dp i (map pr_pass rs)) ls s) E"
  using assms
proof (induction n arbitrary: i cs)
  case (Suc n)
  have first: "eff_ok (seen cs ls) (run_probe dp i) (\<lambda>x. seen (cs @ probe_calls dp i [pr_pass x]) ls) E"
  proof (rule run_probe_rule)
    fix p and s :: "'a sys"
    assume "stopped (cs @ probe_calls dp i [p]) ls s"
    then show "E s"
      by (intro Suc.prems [of "p # replicate n True"])
         (auto simp: probe_calls.simps(2) elim!: stopped_mono)
  qed
  have rest: "eff_ok (seen (cs @ probe_calls dp i [pr_pass x]) ls) (observe dp (Suc i) n)
      (\<lambda>rs s. length rs = n \<and> seen (cs @ probe_calls dp i (map pr_pass (x # rs))) ls s) E" for x
  proof -
    have thrown: "E s" if "length ps = n" "stopped ((cs @ probe_calls dp i [pr_pass x]) @ probe_calls dp (Suc i) ps) ls s"
      for ps and s :: "'a sys"
      using Suc.prems [of "pr_pass x # ps" s] that by (simp add: probe_calls.simps(2))
    have IH: "eff_ok (seen (cs @ probe_calls dp i [pr_pass x]) ls) (observe dp (Suc i) n)
        (\<lambda>rs s. length rs = n \<and>
          seen ((cs @ probe_calls dp i [pr_pass x]) @ probe_calls dp (Suc i) (map pr_pass rs)) ls s) E"
      by (rule Suc.IH) (rule thrown)
    show ?thesis
      by (rule eff_ok_weaken [OF IH]) (auto simp: probe_calls.simps(2))
  qed
  show ?case
    by (simp, rule eff_ok_bind [OF first], rule eff_ok_bind [OF rest], rule eff_ok_ret) auto
qed (auto intro: eff_ok_ret)

definition canary_calls :: "'w deploy_deps \<Rightarrow> bool \<Rightarrow> ext_call list" where
  "canary_calls dp c =
     state_calls dp D_CANARY DT_start @ cmd_calls dp ''deploy-canary'' (ds_canary_cmd (dp_config dp)) c"

definition watch_calls :: "'w deploy_deps \<Rightarrow> bool list \<Rightarrow> ext_call list" where
  "watch_calls dp ps = canary_calls dp True @ state_calls dp D_OBSERVING DT_canary_ok @ probe_calls dp 0 ps"

definition expand_calls :: "'w deploy_deps \<Rightarrow> bool list \<Rightarrow> bool \<Rightarrow> ext_call list" where
  "expand_calls dp ps e = watch_calls dp ps @ cmd_calls dp ''deploy-expand'' (ds_expand_cmd (dp_config dp)) e"

definition stage_calls :: "'w deploy_deps \<Rightarrow> bool \<Rightarrow> bool list \<Rightarrow> bool \<Rightarrow> bool \<Rightarrow> ext_call list" where
  "stage_calls dp c ps e r =
     (if \<not> c then canary_calls dp False @ rollback_calls dp DT_canary_failed r
      else if do_threshold (ds_observe (dp_config dp)) < failures ps
      then watch_calls dp ps @ rollback_calls dp DT_observe_failed r
      else if \<not> e then expand_calls dp ps False @ rollback_calls dp DT_expand_failed r
      else expand_calls dp ps True @ state_calls dp D_EXPANDED DT_expand_ok)"

abbreviation story_of :: "'w deploy_deps \<Rightarrow> bool \<Rightarrow> bool list \<Rightarrow> bool \<Rightarrow> bool \<Rightarrow> story" where
  "story_of dp \<equiv> deploy_story (ds_observe (dp_config dp))"

abbreviation probes_due :: "'w deploy_deps \<Rightarrow> nat" where
  "probes_due dp \<equiv> do_probes (ds_observe (dp_config dp))"

text \<open>An outcome agrees with a story.\<close>

definition agrees :: "story \<Rightarrow> bool \<Rightarrow> bool list \<Rightarrow> deploy_outcome \<Rightarrow> bool" where
  "agrees st c ps out \<longleftrightarrow>
     do_final out = last (st_states st) \<and> map pr_pass (do_results out) = (if c then ps else []) \<and>
     map_option (\<lambda>rc. (rc_trigger rc, rc_failed rc)) (do_cause out) =
       map_option (\<lambda>t. (t, if c then failures ps else 0)) (st_cause st)"

definition told :: "'w deploy_deps \<Rightarrow> deploy_outcome \<Rightarrow> 'w sys \<Rightarrow> bool" where
  "told dp out s \<longleftrightarrow>
     (\<exists>c ps e r. length ps = probes_due dp \<and> agrees (story_of dp c ps e r) c ps out
        \<and> seen (stage_calls dp c ps e r) (st_states (story_of dp c ps e r)) s)"

definition cut_short :: "'w deploy_deps \<Rightarrow> 'w sys \<Rightarrow> bool" where
  "cut_short dp s \<longleftrightarrow>
     (\<exists>c ps e r. length ps = probes_due dp
        \<and> stopped (stage_calls dp c ps e r) (st_states (story_of dp c ps e r)) s)"

lemma cut_shortI:
  "stopped cs ls s \<Longrightarrow> length ps = probes_due dp \<Longrightarrow> prefix cs (stage_calls dp c ps e r)
   \<Longrightarrow> prefix ls (st_states (story_of dp c ps e r)) \<Longrightarrow> cut_short dp s"
  unfolding cut_short_def using stopped_mono by blast

lemma seen_imp_stopped: "seen cs ls s \<Longrightarrow> stopped cs ls s"
  by (erule seen_stopped) simp_all

lemmas story_simps = deploy_story_def with_rollback_def stage_calls_def Let_def after_def

lemma failures_results: "length (failed_results rs) = failures (map pr_pass rs)"
  by (induction rs) (simp_all add: failed_results_def failures_def)

text \<open>A rollback ends every story that needs one.\<close>

lemma rolled_rule:
  assumes "length ps = probes_due dp"
    and calls: "\<And>r. stage_calls dp c ps e r = cs @ rollback_calls dp tr r"
    and states: "\<And>r. st_states (story_of dp c ps e r) = ls @ [D_ROLLING_BACK, after r]"
    and cause: "\<And>r. st_cause (story_of dp c ps e r) = Some (if r then tr else DT_rollback_failed)"
    and "m = (if c then failures ps else 0)" "map pr_pass rs = (if c then ps else [])"
  shows "eff_ok (seen cs ls) (bind (runRollback dp tr m refs) (\<lambda>x. ret (rolled rs x))) (told dp) (cut_short dp)"
proof (rule eff_ok_bind, rule rollback_rule)
  fix r and s :: "'a sys"
  assume "stopped (cs @ rollback_calls dp tr r) (ls @ [D_ROLLING_BACK, after r]) s"
  then show "cut_short dp s"
    by (rule cut_shortI [where c = c and ps = ps and e = e and r = r]) (simp_all add: assms)
next
  fix x
  show "eff_ok (\<lambda>s. \<exists>r. seen (cs @ rollback_calls dp tr r) (ls @ [D_ROLLING_BACK, after r]) s \<and> fst x = after r
      \<and> rc_trigger (snd x) = (if r then tr else DT_rollback_failed) \<and> rc_failed (snd x) = m)
    (ret (rolled rs x)) (told dp) (cut_short dp)"
  proof (rule eff_ok_ret, elim exE conjE)
    fix s :: "'a sys" and r
    assume "seen (cs @ rollback_calls dp tr r) (ls @ [D_ROLLING_BACK, after r]) s" "fst x = after r"
      "rc_trigger (snd x) = (if r then tr else DT_rollback_failed)" "rc_failed (snd x) = m"
    then show "told dp (rolled rs x) s"
      unfolding told_def
      by (intro exI [of _ c] exI [of _ ps] exI [of _ e] exI [of _ r])
         (simp add: assms agrees_def rolled_def)
  qed
qed

lemma expand_rule:
  assumes n: "length rs = probes_due dp"
  shows "eff_ok (seen (watch_calls dp (map pr_pass rs)) [D_CANARY, D_OBSERVING])
           (expand_or_roll_back dp rs) (told dp) (cut_short dp)"
proof -
  let ?ps = "map pr_pass rs"
  let ?W = "watch_calls dp ?ps" and ?L = "[D_CANARY, D_OBSERVING]"
  let ?X = "expand_calls dp ?ps"
  have len: "length ?ps = probes_due dp" using n by simp
  show ?thesis
  proof (cases "do_threshold (ds_observe (dp_config dp)) < failures ?ps")
    case True
    then show ?thesis
      unfolding expand_or_roll_back_def Let_def failures_results
      by (simp only: if_True) (rule rolled_rule [OF len, where c = True and e = True],
        simp_all add: story_simps)
  next
    case False
    have 1: "eff_ok (seen ?W ?L) (runDeployCommand dp ''deploy-expand'' (ds_expand_cmd (dp_config dp)))
        (\<lambda>run. seen (?X (cr_ok run)) ?L) (cut_short dp)"
      unfolding expand_calls_def
    proof (rule command_rule)
      fix ok and s :: "'a sys"
      assume "stopped (?W @ cmd_calls dp ''deploy-expand'' (ds_expand_cmd (dp_config dp)) ok) ?L s"
      then show "cut_short dp s"
        by (rule cut_shortI [OF _ len, where c = True and e = ok and r = True])
           (use False in \<open>simp_all add: story_simps expand_calls_def\<close>)
    qed
    have 2: "eff_ok (seen (?X False) ?L) (bind (runRollback dp DT_expand_failed (failures ?ps) refs)
        (\<lambda>r. ret (rolled rs r))) (told dp) (cut_short dp)" for refs
      by (rule rolled_rule [OF len, where c = True and e = False]) (use False in \<open>simp_all add: story_simps\<close>)
    have 3: "eff_ok (seen (?X True) ?L) (record_state dp D_EXPANDED DT_expand_ok [])
        (\<lambda>_. seen (stage_calls dp True ?ps True True) (st_states (story_of dp True ?ps True True))) (cut_short dp)"
    proof -
      have eqs: "stage_calls dp True ?ps True True = ?X True @ state_calls dp D_EXPANDED DT_expand_ok"
        "st_states (story_of dp True ?ps True True) = ?L @ [D_EXPANDED]"
        using False by (simp_all add: story_simps)
      show ?thesis
        unfolding eqs
        by (rule state_rule, drule seen_imp_stopped, erule cut_shortI [OF _ len, where c = True and e = True and r = True])
           (simp_all add: eqs)
    qed
    have 4: "eff_ok (seen (?X True) ?L) (bind (record_state dp D_EXPANDED DT_expand_ok [])
        (\<lambda>_. ret \<lparr>do_final = D_EXPANDED, do_results = rs, do_cause = None\<rparr>)) (told dp) (cut_short dp)"
    proof (rule eff_ok_bind [OF 3], rule eff_ok_ret)
      fix s :: "'a sys"
      assume "seen (stage_calls dp True ?ps True True) (st_states (story_of dp True ?ps True True)) s"
      then show "told dp \<lparr>do_final = D_EXPANDED, do_results = rs, do_cause = None\<rparr> s"
        unfolding told_def using False
        by (intro exI [of _ True] exI [of _ ?ps] exI [of _ True] exI [of _ True])
           (simp add: n agrees_def story_simps)
    qed
    have 5: "eff_ok (seen (?X ok) ?L)
        (if \<not> ok then bind (runRollback dp DT_expand_failed (failures ?ps) refs) (\<lambda>r. ret (rolled rs r))
         else bind (record_state dp D_EXPANDED DT_expand_ok [])
                (\<lambda>_. ret \<lparr>do_final = D_EXPANDED, do_results = rs, do_cause = None\<rparr>)) (told dp) (cut_short dp)" for ok refs
      using 2 4 by (cases ok) simp_all
    show ?thesis
      unfolding expand_or_roll_back_def Let_def failures_results using False
      by (simp only: if_False) (rule eff_ok_bind [OF 1], rule 5)
  qed
qed

lemma stage_prefixes:
  "prefix (canary_calls dp c) (stage_calls dp c ps e r)"
  "prefix (watch_calls dp ps) (stage_calls dp True ps e r)"
  "prefix [D_CANARY] (st_states (story_of dp c ps e r))"
  "prefix [D_CANARY, D_OBSERVING] (st_states (story_of dp True ps e r))"
  by (auto simp: story_simps watch_calls_def expand_calls_def)

lemma canary_rule: "eff_ok (seen [] []) (run_canary dp) (told dp) (cut_short dp)"
proof -
  let ?N = "replicate (probes_due dp) True"
  have cut: "cut_short dp s" if "stopped cs ls s" "prefix cs (canary_calls dp c)" "prefix ls [D_CANARY]"
    for cs ls c and s :: "'a sys"
    by (rule cut_shortI [OF that(1), where c = c and ps = ?N and e = True and r = True])
       (auto intro: prefix_order.trans [OF that(2)] prefix_order.trans [OF that(3)] stage_prefixes)
  have watch: "cut_short dp s" if "stopped cs ls s" "prefix cs (watch_calls dp ps)" "length ps = probes_due dp"
      "prefix ls [D_CANARY, D_OBSERVING]" for cs ls ps and s :: "'a sys"
    by (rule cut_shortI [OF that(1,3), where c = True and e = True and r = True])
       (auto intro: prefix_order.trans [OF that(2)] prefix_order.trans [OF that(4)] stage_prefixes)
  have 1: "eff_ok (seen [] []) (record_state dp D_CANARY DT_start [])
      (\<lambda>_. seen (state_calls dp D_CANARY DT_start) [D_CANARY]) (cut_short dp)"
    by (rule state_rule [where cs = "[]" and ls = "[]", simplified], drule seen_imp_stopped, erule cut) simp_all
  have 2: "eff_ok (seen (state_calls dp D_CANARY DT_start) [D_CANARY])
      (runDeployCommand dp ''deploy-canary'' (ds_canary_cmd (dp_config dp)))
      (\<lambda>run. seen (canary_calls dp (cr_ok run)) [D_CANARY]) (cut_short dp)"
    unfolding canary_calls_def by (rule command_rule, erule cut) (auto simp: canary_calls_def)
  have 3: "eff_ok (seen (canary_calls dp True) [D_CANARY]) (record_state dp D_OBSERVING DT_canary_ok [])
      (\<lambda>_. seen (canary_calls dp True @ state_calls dp D_OBSERVING DT_canary_ok) [D_CANARY, D_OBSERVING]) (cut_short dp)"
    by (rule state_rule [where ls = "[D_CANARY]", simplified], drule seen_imp_stopped, erule cut) auto
  have 4: "eff_ok (seen (canary_calls dp True @ state_calls dp D_OBSERVING DT_canary_ok) [D_CANARY, D_OBSERVING])
      (observe dp 0 (probes_due dp))
      (\<lambda>rs s. length rs = probes_due dp \<and> seen (watch_calls dp (map pr_pass rs)) [D_CANARY, D_OBSERVING] s) (cut_short dp)"
    unfolding watch_calls_def append_assoc [symmetric]
    by (rule observe_rule, erule watch) (auto simp: watch_calls_def)
  have 5: "eff_ok (\<lambda>s. length rs = probes_due dp \<and> seen (watch_calls dp (map pr_pass rs)) [D_CANARY, D_OBSERVING] s)
      (expand_or_roll_back dp rs) (told dp) (cut_short dp)" for rs
    by (rule eff_ok_fact', rule expand_rule)
  have 6: "eff_ok (seen (canary_calls dp False) [D_CANARY]) (bind (runRollback dp DT_canary_failed 0 refs)
      (\<lambda>r. ret (rolled [] r))) (told dp) (cut_short dp)" for refs
    by (rule rolled_rule [where c = False and ps = ?N and e = True]) (simp_all add: story_simps)
  have 7: "eff_ok (seen (canary_calls dp True) [D_CANARY])
      (bind (record_state dp D_OBSERVING DT_canary_ok []) (\<lambda>_. bind (observe dp 0 (probes_due dp)) (expand_or_roll_back dp)))
      (told dp) (cut_short dp)"
    by (rule eff_ok_bind [OF 3], rule eff_ok_bind [OF 4], rule 5)
  have "eff_ok (seen (canary_calls dp c) [D_CANARY])
      (if \<not> c then bind (runRollback dp DT_canary_failed 0 refs) (\<lambda>r. ret (rolled [] r))
       else bind (record_state dp D_OBSERVING DT_canary_ok []) (\<lambda>_. bind (observe dp 0 (probes_due dp)) (expand_or_roll_back dp)))
      (told dp) (cut_short dp)" for c refs
    using 6 7 by (cases c) simp_all
  then show ?thesis
    unfolding run_canary_def by (rule eff_ok_bind [OF 1 eff_ok_bind [OF 2]])
qed

text \<open>What a history says about commands, verdicts and ownership survives a cut.\<close>

lemma of_append [simp]:
  "exits_of (cs @ ds) = exits_of cs @ exits_of ds" "commands_of (cs @ ds) = commands_of cs @ commands_of ds"
  by (induction cs rule: exits_of.induct; simp) (induction cs rule: commands_of.induct; simp)

lemma of_fences [simp]:
  "exits_of (fences dp b) = []" "commands_of (fences dp b) = []"
  "exits_of (state_calls dp st tr) = []" "commands_of (state_calls dp st tr) = []"
  "exits_of (cmd_calls dp a c ok) = [(a, ok)]" "commands_of (cmd_calls dp a c ok) = [(a, c)]"
  by (simp_all add: fences_def state_calls_def cmd_calls_def split: option.split)

lemma probe_calls_runs [simp]: "exits_of (probe_calls dp i ps) = probe_runs i ps"
  by (induction ps arbitrary: i) (simp_all add: probe_calls.simps(2) probe_runs_def)

lemma probe_id_names: "probe_id i \<noteq> ''deploy-canary'' \<and> probe_id i \<noteq> ''deploy-expand'' \<and> probe_id i \<noteq> ''deploy-rollback''"
  by (simp add: probe_id_def)

lemma probe_calls_commands [simp]:
  "commands_of (probe_calls dp i ps) = map (\<lambda>(a, _). (a, command_text (dp_config dp) a)) (probe_runs i ps)"
  by (induction ps arbitrary: i)
     (simp_all add: probe_calls.simps(2) probe_runs_def command_text_def probe_id_names)

lemma stage_runs: "exits_of (stage_calls dp c ps e r) = st_runs (story_of dp c ps e r)"
  by (simp add: story_simps canary_calls_def watch_calls_def expand_calls_def rollback_calls_def)

lemma stage_commands:
  "commands_of (stage_calls dp c ps e r) =
     map (\<lambda>(a, _). (a, command_text (dp_config dp) a)) (st_runs (story_of dp c ps e r))"
  by (simp add: story_simps canary_calls_def watch_calls_def expand_calls_def rollback_calls_def command_text_def)

lemma of_prefix:
  assumes "prefix cs ds"
  shows "prefix (exits_of cs) (exits_of ds)" "prefix (commands_of cs) (commands_of ds)"
  using assms by (auto simp: prefix_def)

lemma owned_prefix: "owned b ds \<Longrightarrow> prefix cs ds \<Longrightarrow> owned b cs"
  by (induction b ds arbitrary: cs rule: owned.induct) (auto simp: prefix_Cons)

lemma owned_segments:
  assumes "dp_own dp = Some f"
  shows "owned b (fences dp x @ cs) = owned (Some x) cs"
    "owned b (cmd_calls dp a c ok @ cs) = owned None cs"
    "owned b (state_calls dp st tr @ cs) = owned (Some (''deploy_state:'' @ deploy_state_name st @ '':'' @ deploy_trigger_name tr)) cs"
  using assms by (simp_all add: fences_def cmd_calls_def state_calls_def)

lemma owned_ends:
  assumes "dp_own dp = Some f"
  shows "owned b (state_calls dp st tr)" "owned b (cmd_calls dp a c ok)" "owned b (fences dp x)"
  using owned_segments [OF assms, where cs = "[]" and b = b] by simp_all

lemma owned_probes:
  assumes "dp_own dp = Some f" "\<And>b. owned b cs"
  shows "owned b (probe_calls dp i ps @ cs)"
  by (induction ps arbitrary: i b) (simp_all add: assms probe_calls.simps(2) owned_segments [OF assms(1)])

lemma owned_rollback: "dp_own dp = Some f \<Longrightarrow> owned b (rollback_calls dp tr r)"
  by (simp add: rollback_calls_def owned_segments owned_ends)

lemma owned_stage: "dp_own dp = Some f \<Longrightarrow> owned b (stage_calls dp c ps e r)"
  by (auto simp: stage_calls_def canary_calls_def watch_calls_def expand_calls_def owned_segments owned_ends
        intro!: owned_probes owned_rollback)

lemma told_facts:
  assumes "told dp out s"
  shows "dp_own dp \<noteq> None \<Longrightarrow> owned None (sys_calls s)"
    and "\<exists>c ps e r. length ps = probes_due dp \<and> agrees (story_of dp c ps e r) c ps out \<and>
      exits_of (sys_calls s) = st_runs (story_of dp c ps e r) \<and>
      commands_of (sys_calls s) = map (\<lambda>(a, _). (a, command_text (dp_config dp) a)) (st_runs (story_of dp c ps e r)) \<and>
      states_of (sys_log s) = state_vals (st_states (story_of dp c ps e r))"
proof -
  obtain c ps e r where "length ps = probes_due dp" "agrees (story_of dp c ps e r) c ps out"
    and seen: "seen (stage_calls dp c ps e r) (st_states (story_of dp c ps e r)) s"
    using assms unfolding told_def by blast
  then show "\<exists>c ps e r. length ps = probes_due dp \<and> agrees (story_of dp c ps e r) c ps out \<and>
      exits_of (sys_calls s) = st_runs (story_of dp c ps e r) \<and>
      commands_of (sys_calls s) = map (\<lambda>(a, _). (a, command_text (dp_config dp) a)) (st_runs (story_of dp c ps e r)) \<and>
      states_of (sys_log s) = state_vals (st_states (story_of dp c ps e r))"
    by (intro exI [of _ c] exI [of _ ps] exI [of _ e] exI [of _ r])
       (simp add: seen_def stage_runs stage_commands)
  show "owned None (sys_calls s)" if "dp_own dp \<noteq> None"
    using that seen by (auto simp: seen_def owned_stage)
qed

lemma cut_short_facts:
  assumes "cut_short dp s"
  shows "dp_own dp \<noteq> None \<Longrightarrow> owned None (sys_calls s)"
    and "\<exists>c ps e r. length ps = probes_due dp \<and>
      prefix (exits_of (sys_calls s)) (st_runs (story_of dp c ps e r)) \<and>
      prefix (commands_of (sys_calls s)) (map (\<lambda>(a, _). (a, command_text (dp_config dp) a)) (st_runs (story_of dp c ps e r))) \<and>
      prefix (states_of (sys_log s)) (state_vals (st_states (story_of dp c ps e r)))"
proof -
  obtain c ps e r where len: "length ps = probes_due dp"
    and cut: "prefix (sys_calls s) (stage_calls dp c ps e r)"
      "prefix (states_of (sys_log s)) (state_vals (st_states (story_of dp c ps e r)))"
    using assms unfolding cut_short_def stopped_def by blast
  show "\<exists>c ps e r. length ps = probes_due dp \<and>
      prefix (exits_of (sys_calls s)) (st_runs (story_of dp c ps e r)) \<and>
      prefix (commands_of (sys_calls s)) (map (\<lambda>(a, _). (a, command_text (dp_config dp) a)) (st_runs (story_of dp c ps e r))) \<and>
      prefix (states_of (sys_log s)) (state_vals (st_states (story_of dp c ps e r)))"
    using len cut(2) of_prefix [OF cut(1)]
    by (intro exI [of _ c] exI [of _ ps] exI [of _ e] exI [of _ r]) (simp add: stage_runs stage_commands)
  show "owned None (sys_calls s)" if "dp_own dp \<noteq> None"
    using that owned_prefix [OF owned_stage cut(1)] by auto
qed

definition refused :: "'w deploy_deps \<Rightarrow> 'w sys \<Rightarrow> bool" where
  "refused dp s \<longleftrightarrow> commands_of (sys_calls s) = [] \<and> prefix (states_of (sys_log s)) [VStr ''ESCALATED'']
     \<and> (dp_own dp \<noteq> None \<longrightarrow> owned None (sys_calls s))"

lemma deploy_refuse_rule:
  "eff_ok (seen [] []) (refuse_deploy dp e)
     (\<lambda>out s. refused dp s \<and> states_of (sys_log s) = [VStr ''ESCALATED''] \<and> do_final out = D_ESCALATED) (refused dp)"
proof -
  let ?c = "state_calls dp D_ESCALATED DT_evidence_invalid"
  let ?d = "?c @ fences dp ''deploy_error''"
  have ref: "refused dp s" if "seen cs ls s" "prefix cs ?d" "prefix ls [D_ESCALATED]" for cs ls and s :: "'a sys"
  proof -
    have "owned None ?d" if "dp_own dp \<noteq> None" using that by (auto simp: owned_segments owned_ends)
    moreover have "prefix (commands_of cs) []" using of_prefix(2) [OF that(2)] by simp
    moreover have "prefix (state_vals ls) [VStr ''ESCALATED'']" using that(3) by (auto simp: prefix_Cons)
    ultimately show ?thesis using that(1) owned_prefix [OF _ that(2)] by (auto simp: refused_def seen_def)
  qed
  have 1: "eff_ok (seen [] []) (record_state dp D_ESCALATED DT_evidence_invalid x) (\<lambda>_. seen ?c [D_ESCALATED]) (refused dp)" for x
    by (rule state_rule [where cs = "[]" and ls = "[]", simplified], erule ref) simp_all
  have 2: "eff_ok (seen ?c [D_ESCALATED]) (assertOwnership dp ''deploy_error'') (\<lambda>_. seen ?d [D_ESCALATED]) (refused dp)"
    by (rule fence_rule, erule ref) simp_all
  have 3: "eff_ok (seen ?d [D_ESCALATED]) (deploy_event dp E_ESCALATED x) (\<lambda>_. seen ?d [D_ESCALATED]) (refused dp)" for x
    by (rule eff_ok_weaken [OF event_rule [where ls = "[D_ESCALATED]"]]) (auto simp: seen_def)
  show ?thesis
    unfolding refuse_deploy_def
    by (rule eff_ok_bind [OF 1], rule eff_ok_bind [OF 2], rule eff_ok_bind [OF 3], rule eff_ok_ret)
       (auto simp: seen_def intro!: ref [where cs = ?d and ls = "[D_ESCALATED]", unfolded seen_def])
qed

lemma manual_rollback_rule:
  "eff_ok (seen [] []) (runManualRollback dp)
     (\<lambda>out s. \<exists>r. seen (rollback_calls dp DT_manual_rollback r) [D_ROLLING_BACK, after r] s \<and> do_final out = after r
        \<and> do_results out = [])
     (\<lambda>s. \<exists>r. stopped (rollback_calls dp DT_manual_rollback r) [D_ROLLING_BACK, after r] s)"
  unfolding runManualRollback_def
proof (rule eff_ok_bind [OF rollback_rule])
  fix x
  show "eff_ok (\<lambda>s. \<exists>r. seen ([] @ rollback_calls dp DT_manual_rollback r) ([] @ [D_ROLLING_BACK, after r]) s
      \<and> fst x = after r \<and> rc_trigger (snd x) = (if r then DT_manual_rollback else DT_rollback_failed) \<and> rc_failed (snd x) = 0)
    (ret (rolled [] x))
    (\<lambda>out s. \<exists>r. seen (rollback_calls dp DT_manual_rollback r) [D_ROLLING_BACK, after r] s \<and> do_final out = after r
        \<and> do_results out = [])
    (\<lambda>s. \<exists>r. stopped (rollback_calls dp DT_manual_rollback r) [D_ROLLING_BACK, after r] s)"
    by (rule eff_ok_ret) (auto simp: rolled_def)
qed auto

text \<open>C9: a deploy stage that is started does exactly what its story says. When the approved package no
  longer authenticates, no command is issued at all and the stage is escalated. Otherwise the commands
  issued, their order and texts, the states recorded and the outcome are the story of the verdicts: a
  failed canary is rolled back unobserved, more failed probes than the threshold roll back without
  expansion, a failed expansion rolls back, a rollback is attempted once and its failure escalates, and
  \<open>EXPANDED\<close> is reported only after a canary, few enough failed probes and an expansion that succeeded. A
  stage that throws has done a prefix of such a story, and where ownership is checked every command
  follows the check of its own name.
\<close>

theorem deploy_follows_its_story:
  assumes "sys_calls s = []" "sys_log s = []"
  shows "case runDeployStage dp s of (res, s') \<Rightarrow>
     (dp_own dp \<noteq> None \<longrightarrow> owned None (sys_calls s')) \<and>
     (if isl (fst (dp_verify dp (sys_world s)))
      then commands_of (sys_calls s') = [] \<and>
        (case res of
           Inl _ \<Rightarrow> prefix (states_of (sys_log s')) [VStr ''ESCALATED'']
         | Inr out \<Rightarrow> do_final out = D_ESCALATED \<and> states_of (sys_log s') = [VStr ''ESCALATED''])
      else
        (\<exists>c ps e r. let st = deploy_story (ds_observe (dp_config dp)) c ps e r;
                       cmds = map (\<lambda>(a, _). (a, command_text (dp_config dp) a)) (st_runs st) in
           length ps = do_probes (ds_observe (dp_config dp)) \<and>
           (case res of
              Inl _ \<Rightarrow>
                prefix (exits_of (sys_calls s')) (st_runs st) \<and> prefix (commands_of (sys_calls s')) cmds \<and>
                prefix (states_of (sys_log s')) (state_vals (st_states st))
            | Inr out \<Rightarrow>
                exits_of (sys_calls s') = st_runs st \<and> commands_of (sys_calls s') = cmds \<and>
                states_of (sys_log s') = state_vals (st_states st) \<and> agrees st c ps out)))"
proof -
  obtain v w where v: "dp_verify dp (sys_world s) = (v, w)" by fastforce
  let ?s = "s\<lparr>sys_world := w\<rparr>"
  have start: "seen [] [] ?s" using assms by (simp add: seen_def states_of_def)
  show ?thesis
  proof (cases v)
    case (Inl e)
    then have run: "runDeployStage dp s = refuse_deploy dp e ?s"
      by (simp add: runDeployStage_def bind_def ask_def v)
    obtain res s' where res: "refuse_deploy dp e ?s = (res, s')" by fastforce
    show ?thesis
      using eff_okE [OF deploy_refuse_rule start] eff_okD [OF deploy_refuse_rule start] res
      by (cases res) (simp_all add: run v Inl refused_def)
  next
    case (Inr u)
    then have run: "runDeployStage dp s = run_canary dp ?s"
      by (simp add: runDeployStage_def bind_def ask_def v)
    obtain res s' where res: "run_canary dp ?s = (res, s')" by fastforce
    show ?thesis
    proof (cases res)
      case (Inl x)
      then have "cut_short dp s'" using eff_okE [OF canary_rule start] res by simp
      from cut_short_facts [OF this] show ?thesis by (simp add: run res v Inl Inr Let_def)
    next
      case out: (Inr out)
      then have "told dp out s'" using eff_okD [OF canary_rule start] res by simp
      from told_facts [OF this] show ?thesis by (simp add: run res v Inr out Let_def) blast
    qed
  qed
qed

text \<open>A canary that passes, three probes of which two fail, a threshold of one: rolled back, not expanded.\<close>

definition demo_deploy :: "bool list deploy_deps" where
  "demo_deploy =
     \<lparr>dp_run = ''run'', dp_task = ''t1'',
      dp_config = \<lparr>ds_canary_cmd = ''canary'', ds_observe_cmd = ''probe'', ds_expand_cmd = ''expand'',
        ds_rollback_cmd = ''undo'', ds_observe = \<lparr>do_probes = 3, do_threshold = 1, do_interval = js_int 10\<rparr>\<rparr>,
      dp_execute = (\<lambda>_ _ w. (Inr (Applied (Some ''ref'') (Some (if hd w then 0 else 1))), tl w)),
      dp_put = (\<lambda>_ w. (Inr ''put'', w)), dp_wait = (\<lambda>_ w. ((), w)), dp_verify = (\<lambda>w. (Inr (), w)),
      dp_own = Some (\<lambda>_ w. (Inr (), w))\<rparr>"

definition demo_world :: "bool list sys" where
  "demo_world = \<lparr>sys_world = [True, False, True, False, True], sys_calls = [], sys_log = [],
     sys_budget = createBudget \<lparr>bl_max_iterations = 10, bl_max_cost = JFin 100, bl_max_wallclock = 1000\<rparr> 0\<rparr>"

lemma nat_str_digits:
  "nat_str (Suc 0) = ''1''" "nat_str (Suc (Suc 0)) = ''2''" "nat_str (Suc (Suc (Suc 0))) = ''3''"
  by code_simp+

lemmas deploy_eval = runDeployStage_def run_canary_def expand_or_roll_back_def runRollback_def run_probe_def
  runDeployCommand_def record_state_def deploy_event_def assertOwnership_def eff_defs rolled_def
  failed_results_def refs_field_def exit_zero_def numeral_3_eq_3 probe_id_def nat_str_digits states_of_def fields_get_def

lemma deploy_follows_its_story_witness:
  "case runDeployStage demo_deploy demo_world of
     (Inl _, _) \<Rightarrow> False
   | (Inr out, s') \<Rightarrow>
       do_final out = D_ROLLED_BACK \<and> map_option rc_failed (do_cause out) = Some 2 \<and>
       owned None (sys_calls s') \<and>
       exits_of (sys_calls s') = [(''deploy-canary'', True), (''deploy-observe-1'', False), (''deploy-observe-2'', True),
         (''deploy-observe-3'', False), (''deploy-rollback'', True)] \<and>
       (\<exists>c ps e r. agrees (deploy_story (ds_observe (dp_config demo_deploy)) c ps e r) c ps out)"
proof -
  have start: "sys_calls demo_world = []" "sys_log demo_world = []" by (simp_all add: demo_world_def)
  have run: "case runDeployStage demo_deploy demo_world of (Inl _, _) \<Rightarrow> False | (Inr out, s') \<Rightarrow>
       do_final out = D_ROLLED_BACK \<and> map_option rc_failed (do_cause out) = Some 2 \<and>
       exits_of (sys_calls s') = [(''deploy-canary'', True), (''deploy-observe-1'', False), (''deploy-observe-2'', True),
         (''deploy-observe-3'', False), (''deploy-rollback'', True)]"
    by (simp add: deploy_eval demo_deploy_def demo_world_def)
  obtain res s' where res: "runDeployStage demo_deploy demo_world = (res, s')" by fastforce
  obtain out where out: "res = Inr out" using run res by (cases res) simp_all
  have env: "dp_own demo_deploy \<noteq> None" "\<not> isl (fst (dp_verify demo_deploy (sys_world demo_world)))"
    by (simp_all add: demo_deploy_def)
  from deploy_follows_its_story [OF start, of demo_deploy]
  have "owned None (sys_calls s') \<and> (\<exists>c ps e r. agrees (deploy_story (ds_observe (dp_config demo_deploy)) c ps e r) c ps out)"
    using env by (auto simp: res out Let_def)
  with run show ?thesis by (simp add: res out)
qed

end
