(* ===== verification/PathPolicy.thy ===== *)
theory PathPolicy
  imports CoreTypes "HOL-Library.Sublist"
begin

text \<open>
  Which paths a role may touch: the least-privilege policy of \<open>core/src/executor/path-policy.ts\<close>, the
  lookup of a frozen RED artifact (\<open>core/src/gates/red-provenance.ts\<close>) and the realpath containment
  check of the executor (\<open>core/src/executor/executor.ts\<close>). Paths are POSIX strings; \<open>normalize\<close>,
  \<open>resolve\<close> and \<open>dirname\<close> are Node's, written out on the components of a path. The file system is an
  argument: \<open>realpath\<close> is \<open>realpathSync\<close>, \<open>None\<close> when it throws.
\<close>

section \<open>Strings of components\<close>

text \<open>\<open>s.split(c)\<close> for a separator of one character.\<close>

fun split_on :: "char \<Rightarrow> string \<Rightarrow> string list" where
  "split_on c [] = [[]]"
| "split_on c (x # xs) =
     (if x = c then [] # split_on c xs
      else (case split_on c xs of s # ss \<Rightarrow> (x # s) # ss | [] \<Rightarrow> [[x]]))"

abbreviation slash :: char where
  "slash \<equiv> CHR ''/''"

lemma split_on_nonempty [simp]: "split_on c s \<noteq> []"
  by (cases s) (auto split: list.split)

lemma split_on_none: "c \<notin> set s \<Longrightarrow> split_on c s = [s]"
  by (induction s) auto

lemma split_on_cons: "c \<notin> set s \<Longrightarrow> split_on c (s @ c # t) = s # split_on c t"
  by (induction s) auto

lemma split_on_parts: "x \<in> set (split_on c s) \<Longrightarrow> c \<notin> set x"
  by (induction s arbitrary: x) (auto split: if_splits list.splits)

lemma split_on_join:
  "ss \<noteq> [] \<Longrightarrow> (\<And>s. s \<in> set ss \<Longrightarrow> c \<notin> set s) \<Longrightarrow> split_on c (join [c] ss) = ss"
proof (induction "[c]" ss rule: join.induct)
  case (3 s s' ss)
  then show ?case using split_on_cons [of c s] by simp
qed (simp_all add: split_on_none)

lemma join_Cons: "ss \<noteq> [] \<Longrightarrow> join sep (s # ss) = s @ sep @ join sep ss"
  by (cases ss) simp_all

section \<open>Node's path functions\<close>

text \<open>One component of \<open>normalizeString\<close>; the stack holds the result backwards.\<close>

definition norm_seg :: "bool \<Rightarrow> string \<Rightarrow> string list \<Rightarrow> string list" where
  "norm_seg up seg st =
     (if seg = [] \<or> seg = ''.'' then st
      else if seg = ''..'' then
        (case st of
           [] \<Rightarrow> if up then [''..''] else []
         | t # r \<Rightarrow> if t = ''..'' then (if up then ''..'' # st else st) else r)
      else seg # st)"

definition resolve_segs :: "bool \<Rightarrow> string list \<Rightarrow> string list" where
  "resolve_segs up segs = rev (fold (norm_seg up) segs [])"

definition is_abs :: "string \<Rightarrow> bool" where
  "is_abs s \<longleftrightarrow> s \<noteq> [] \<and> hd s = slash"

definition posix_normalize :: "string \<Rightarrow> string" where
  "posix_normalize s =
     (if s = [] then ''.''
      else
        let trail = (last s = slash);
            body = join ''/'' (resolve_segs (\<not> is_abs s) (split_on slash s)) in
        if body = [] then (if is_abs s then ''/'' else if trail then ''./'' else ''.'')
        else (if is_abs s then ''/'' else []) @ body @ (if trail then ''/'' else []))"

text \<open>\<open>resolve(root, rel)\<close> for an absolute root.\<close>

definition path_resolve :: "string \<Rightarrow> string \<Rightarrow> string" where
  "path_resolve base rel =
     slash # join ''/'' (resolve_segs False (split_on slash (if is_abs rel then rel else base @ slash # rel)))"

text \<open>\<open>dirname(p)\<close> of a path without a trailing separator.\<close>

definition path_dirname :: "string \<Rightarrow> string" where
  "path_dirname p =
     (let up = rev (dropWhile (\<lambda>c. c \<noteq> slash) (rev p)) in
      if up = [] then ''.'' else if butlast up = [] then ''/'' else butlast up)"

section \<open>The policy\<close>

datatype policy_decision = Allowed | Denied rejection_reason

text \<open>The frozen RED index: the records by canonical path, looked up after its own resolution.\<close>

fun frozen_parts :: "string list \<Rightarrow> string list \<Rightarrow> string list option" where
  "frozen_parts st [] = Some (rev st)"
| "frozen_parts st (p # ps) =
     (if p = [] \<or> p = ''.'' then frozen_parts st ps
      else if p = ''..'' then (case st of [] \<Rightarrow> None | _ # r \<Rightarrow> frozen_parts r ps)
      else frozen_parts (p # st) ps)"

definition slashed :: "string \<Rightarrow> string" where
  "slashed s = map (\<lambda>c. if c = CHR 0x5C then slash else c) s"

definition frozen_get :: "(string \<Rightarrow> 'r option) \<Rightarrow> string \<Rightarrow> 'r option" where
  "frozen_get records path =
     (let n = slashed path in
      if is_abs n then None
      else (case frozen_parts [] (split_on slash n) of
              None \<Rightarrow> None
            | Some parts \<Rightarrow> records (join ''/'' parts)))"

definition GOLDEN_PREFIX :: string where
  "GOLDEN_PREFIX = ''test/golden/''"

definition COMMAND_ROLES :: "role list" where
  "COMMAND_ROLES = [Implementer, Diagnostician]"

fun WRITE_PREFIXES :: "role \<Rightarrow> string list" where
  "WRITE_PREFIXES Planner = []"
| "WRITE_PREFIXES TestDesigner = [''test/ai-generated/'']"
| "WRITE_PREFIXES Implementer = [''src/'', ''test/ai-generated/'']"
| "WRITE_PREFIXES Diagnostician = []"
| "WRITE_PREFIXES Reviewer = []"

definition normalizeWorktreeRelativePath :: "js_val \<Rightarrow> string option" where
  "normalizeWorktreeRelativePath v =
     (case v of
        VStr s \<Rightarrow>
          if s = [] \<or> is_abs s then None
          else let pth = posix_normalize (slashed s) in
            if pth = ''..'' \<or> str_prefix ''../'' pth then None else Some pth
      | _ \<Rightarrow> None)"

definition writeRoots :: "role \<Rightarrow> string list" where
  "writeRoots r = map (\<lambda>p. if str_suffix ''/'' p then butlast p else p) (WRITE_PREFIXES r)"

text \<open>\<open>fr\<close> is the frozen RED index of the policy, when it has one.\<close>

definition checkWrite :: "(string \<Rightarrow> 'r option) option \<Rightarrow> role \<Rightarrow> js_val \<Rightarrow> policy_decision" where
  "checkWrite fr r v =
     (case normalizeWorktreeRelativePath v of
        None \<Rightarrow> Denied RPathOutsideAllowlist
      | Some pth \<Rightarrow>
          if str_prefix GOLDEN_PREFIX pth \<or> pth = ''test/golden'' then Denied RGoldenWriteDenied
          else if r = Implementer \<and> (case fr of None \<Rightarrow> False | Some recs \<Rightarrow> frozen_get recs pth \<noteq> None)
          then Denied RRedArtifactFrozen
          else if \<not> list_ex (\<lambda>p. str_prefix p pth) (WRITE_PREFIXES r) then Denied RPathOutsideAllowlist
          else Allowed)"

definition checkRead :: "role \<Rightarrow> js_val \<Rightarrow> policy_decision" where
  "checkRead r v = (if normalizeWorktreeRelativePath v = None then Denied RPathOutsideAllowlist else Allowed)"

definition checkCommand :: "role \<Rightarrow> policy_decision" where
  "checkCommand r = (if r \<in> set COMMAND_ROLES then Allowed else Denied RCommandRoleDenied)"

text \<open>\<open>createExecutor\<close> denies frozen RED artifacts a second time, over the policy it is given.\<close>

definition executor_checkWrite ::
    "(string \<Rightarrow> 'r option) option \<Rightarrow> (role \<Rightarrow> js_val \<Rightarrow> policy_decision) \<Rightarrow> role \<Rightarrow> js_val \<Rightarrow> policy_decision" where
  "executor_checkWrite red pol r v =
     (case red of
        None \<Rightarrow> pol r v
      | Some recs \<Rightarrow>
          (case pol r v of
             Denied why \<Rightarrow> Denied why
           | Allowed \<Rightarrow>
               (case normalizeWorktreeRelativePath v of
                  Some pth \<Rightarrow> if r = Implementer \<and> frozen_get recs pth \<noteq> None then Denied RRedArtifactFrozen else Allowed
                | None \<Rightarrow> Allowed)))"

section \<open>Realpath containment\<close>

lemma path_dirname_shorter:
  assumes "path_dirname p \<noteq> p"
  shows "(if path_dirname p = ''.'' then 0 else Suc (length (path_dirname p)))
    < (if p = ''.'' then 0 else Suc (length p))"
proof -
  let ?up = "rev (dropWhile (\<lambda>c. c \<noteq> slash) (rev p))"
  have len: "length ?up \<le> length p" using length_dropWhile_le [of "\<lambda>c. c \<noteq> slash" "rev p"] by simp
  show ?thesis
  proof (cases "?up = []")
    case True
    then show ?thesis using assms by (auto simp: path_dirname_def Let_def)
  next
    case False
    have last: "last ?up = slash"
      using False hd_dropWhile [of "\<lambda>c. c \<noteq> slash" "rev p"] by (simp add: last_rev)
    then have notdot: "p \<noteq> ''.''" using False by auto
    show ?thesis
    proof (cases "butlast ?up = []")
      case True
      then have "?up = [slash]" using False last by (metis append_butlast_last_id append_Nil)
      then have d: "path_dirname p = ''/''" by (simp add: path_dirname_def)
      have "p \<noteq> []" using False by auto
      moreover have "length p \<noteq> 1"
      proof
        assume "length p = 1"
        then obtain c where "p = [c]" by (metis One_nat_def length_0_conv length_Suc_conv)
        then show False using d assms False by (auto split: if_splits)
      qed
      ultimately have "1 < length p" by (cases p) (auto simp: neq_Nil_conv)
      then show ?thesis using d notdot by simp
    next
      case no: False
      then have d: "path_dirname p = butlast ?up" using False by (auto simp: path_dirname_def Let_def)
      have "0 < length p" using False by auto
      then have "length (butlast ?up) < length p" using len by (simp only: length_butlast)
      then show ?thesis using d notdot by auto
    qed
  qed
qed

function contained_from :: "(string \<Rightarrow> string option) \<Rightarrow> string \<Rightarrow> string \<Rightarrow> bool" where
  "contained_from realpath rootReal probe =
     (case realpath probe of
        Some actual \<Rightarrow> actual = rootReal \<or> str_prefix (rootReal @ ''/'') actual
      | None \<Rightarrow>
          if path_dirname probe = probe then False else contained_from realpath rootReal (path_dirname probe))"
  by pat_completeness auto
termination
  by (relation "measure (\<lambda>(_, _, p). if p = ''.'' then 0 else Suc (length p))")
     (auto dest: path_dirname_shorter split: if_splits)

declare contained_from.simps [simp del]

text \<open>\<open>Inl\<close> is the error of \<open>realpathSync(worktreeDir)\<close>, which nothing here catches.\<close>

definition resolveContained :: "(string \<Rightarrow> string option) \<Rightarrow> string \<Rightarrow> string \<Rightarrow> string + string option" where
  "resolveContained realpath worktree rel =
     (let abs = path_resolve worktree rel in
      case realpath worktree of
        None \<Rightarrow> Inl ''ENOENT''
      | Some rootReal \<Rightarrow>
          if \<not> str_prefix (rootReal @ ''/'') abs \<and> abs \<noteq> rootReal \<and>
             \<not> str_prefix (path_resolve worktree [] @ ''/'') abs
          then Inr None
          else Inr (if contained_from realpath rootReal abs then Some abs else None))"

section \<open>What normalization does\<close>

definition plain :: "string \<Rightarrow> bool" where
  "plain x \<longleftrightarrow> x \<noteq> [] \<and> x \<noteq> ''.'' \<and> x \<noteq> ''..'' \<and> slash \<notin> set x"

definition norm_stack :: "bool \<Rightarrow> string list \<Rightarrow> bool" where
  "norm_stack up st \<longleftrightarrow> (\<exists>k ps. st = ps @ replicate k ''..'' \<and> list_all plain ps \<and> (\<not> up \<longrightarrow> k = 0))"

lemma norm_seg_stack: "norm_stack up st \<Longrightarrow> slash \<notin> set seg \<Longrightarrow> norm_stack up (norm_seg up seg st)"
proof -
  assume "norm_stack up st" and seg: "slash \<notin> set seg"
  then obtain k ps where st: "st = ps @ replicate k ''..''" "list_all plain ps" "\<not> up \<longrightarrow> k = 0"
    unfolding norm_stack_def by blast
  show "norm_stack up (norm_seg up seg st)"
  proof (cases "seg = [] \<or> seg = ''.''")
    case True
    then show ?thesis using st by (auto simp: norm_seg_def norm_stack_def)
  next
    case no: False
    show ?thesis
    proof (cases "seg = ''..''")
      case dots: True
      show ?thesis
      proof (cases ps)
        case Nil
        then have "norm_seg up seg st = replicate (if up then Suc k else k) ''..''"
          using st dots by (cases k) (auto simp: norm_seg_def)
        then show ?thesis using st unfolding norm_stack_def
          by (intro exI [of _ "if up then Suc k else k"] exI [of _ "[]"]) auto
      next
        case (Cons p ps')
        then have "norm_seg up seg st = ps' @ replicate k ''..''"
          using st dots by (auto simp: norm_seg_def plain_def)
        then show ?thesis using st Cons unfolding norm_stack_def by (intro exI [of _ k] exI [of _ ps']) auto
      qed
    next
      case False
      then have "norm_seg up seg st = (seg # ps) @ replicate k ''..''" using no st by (simp add: norm_seg_def)
      then show ?thesis using no False seg st unfolding norm_stack_def
        by (intro exI [of _ k] exI [of _ "seg # ps"]) (auto simp: plain_def)
    qed
  qed
qed

lemma fold_norm_stack:
  "norm_stack up st \<Longrightarrow> (\<And>x. x \<in> set segs \<Longrightarrow> slash \<notin> set x) \<Longrightarrow> norm_stack up (fold (norm_seg up) segs st)"
  by (induction segs arbitrary: st) (simp_all add: norm_seg_stack)

lemma resolve_segs_shape:
  assumes "\<And>x. x \<in> set segs \<Longrightarrow> slash \<notin> set x"
  obtains k ps where "resolve_segs up segs = replicate k ''..'' @ ps" "list_all plain ps" "\<not> up \<Longrightarrow> k = 0"
proof -
  have "norm_stack up []" by (auto simp: norm_stack_def)
  from fold_norm_stack [OF this assms] obtain k ps where
    "fold (norm_seg up) segs [] = ps @ replicate k ''..''" "list_all plain ps" "\<not> up \<longrightarrow> k = 0"
    unfolding norm_stack_def by blast
  then show ?thesis using that [of k "rev ps"] by (simp add: resolve_segs_def list_all_iff)
qed

text \<open>Plain components are resolved already.\<close>

lemma fold_plain: "list_all plain ps \<Longrightarrow> fold (norm_seg up) ps st = rev ps @ st"
  by (induction ps arbitrary: st) (auto simp: norm_seg_def plain_def)

lemma resolve_plain: "list_all plain ps \<Longrightarrow> resolve_segs up ps = ps"
  by (simp add: resolve_segs_def fold_plain)

lemma resolve_plain_snoc: "list_all plain ps \<Longrightarrow> resolve_segs up (ps @ [[]]) = ps"
  by (simp add: resolve_segs_def fold_plain norm_seg_def)

text \<open>The frozen index resolves a canonical path to itself.\<close>

lemma frozen_parts_plain: "list_all plain ps \<Longrightarrow> frozen_parts st ps = Some (rev st @ ps)"
  by (induction ps arbitrary: st) (auto simp: plain_def)

lemma frozen_parts_plain_snoc: "list_all plain ps \<Longrightarrow> frozen_parts st (ps @ [[]]) = Some (rev st @ ps)"
  by (induction ps arbitrary: st) (auto simp: plain_def)

lemma slashed_no_backslash: "CHR 0x5C \<notin> set (slashed s)"
  by (auto simp: slashed_def)

lemma slashed_id: "CHR 0x5C \<notin> set s \<Longrightarrow> slashed s = s"
  by (induction s) (auto simp: slashed_def)

lemma set_join_subset: "set (join sep ss) \<subseteq> \<Union> (set ` set ss) \<union> set sep"
  by (induction sep ss rule: join.induct) auto

lemma join_empty: "list_all plain ps \<Longrightarrow> join ''/'' ps = [] \<longleftrightarrow> ps = []"
  by (cases ps rule: join.cases [of "(''/'', ps)" for ps, simplified]) (auto simp: plain_def)

section \<open>The shape of a normalized path\<close>

definition path_text :: "string list \<Rightarrow> bool \<Rightarrow> string" where
  "path_text ps trail = join ''/'' ps @ (if trail then ''/'' else [])"

definition resolved :: "string \<Rightarrow> string list" where
  "resolved s = resolve_segs True (split_on slash (slashed s))"

definition trailing :: "string \<Rightarrow> bool" where
  "trailing s \<longleftrightarrow> last (slashed s) = slash"

lemma slashed_Nil [simp]: "slashed s = [] \<longleftrightarrow> s = []"
  by (simp add: slashed_def)

lemma plain_no_slash: "list_all plain ps \<Longrightarrow> x \<in> set ps \<Longrightarrow> slash \<notin> set x"
  by (auto simp: list_all_iff plain_def)

lemma split_join_plain:
  assumes "list_all plain ps" "ps \<noteq> []"
  shows "split_on slash (join ''/'' ps @ slash # u) = ps @ split_on slash u"
  using assms
proof (induction ps)
  case (Cons p ps)
  then have "slash \<notin> set p" by (simp add: plain_def)
  then show ?case
    using Cons by (cases "ps = []") (simp_all add: split_on_cons join_Cons)
qed simp

lemma split_path_text:
  assumes "list_all plain ps" "ps \<noteq> []"
  shows "split_on slash (path_text ps t) = ps @ (if t then [[]] else [])"
proof (cases t)
  case True
  then show ?thesis using split_join_plain [OF assms, of "[]"] by (simp add: path_text_def)
next
  case False
  then show ?thesis using assms by (simp add: path_text_def split_on_join plain_no_slash)
qed

lemma join_append: "xs \<noteq> [] \<Longrightarrow> ys \<noteq> [] \<Longrightarrow> join sep (xs @ ys) = join sep xs @ sep @ join sep ys"
proof (induction xs)
  case (Cons x xs)
  then show ?case by (cases "xs = []") (simp_all add: join_Cons)
qed simp

lemma str_prefix_iff: "str_prefix p s \<longleftrightarrow> (\<exists>u. s = p @ u)"
  by (metis append_eq_conv_conj str_prefix_def append_take_drop_id)

text \<open>A path starts with a directory exactly when its components do.\<close>

lemma dir_prefix:
  assumes ps: "list_all plain ps" "ps \<noteq> []" and rs: "list_all plain rs" "rs \<noteq> []"
  shows "str_prefix (join ''/'' rs @ ''/'') (path_text ps t) \<longleftrightarrow> prefix rs ps \<and> (length rs < length ps \<or> t)"
proof
  assume "str_prefix (join ''/'' rs @ ''/'') (path_text ps t)"
  then obtain u where "path_text ps t = join ''/'' rs @ slash # u" by (auto simp: str_prefix_iff)
  then have eq: "ps @ (if t then [[]] else []) = rs @ split_on slash u"
    using split_path_text [OF ps, of t] split_join_plain [OF rs, of u] by simp
  show "prefix rs ps \<and> (length rs < length ps \<or> t)"
  proof (cases t)
    case True
    then have "butlast (ps @ [[]]) = butlast (rs @ split_on slash u)" using eq by simp
    then have "ps = rs @ butlast (split_on slash u)" by (simp add: butlast_append)
    then show ?thesis using True by simp
  next
    case False
    then have "ps = rs @ split_on slash u" using eq by simp
    then show ?thesis by simp
  qed
next
  assume r: "prefix rs ps \<and> (length rs < length ps \<or> t)"
  then obtain qs where qs: "ps = rs @ qs" by (auto simp: prefix_def)
  show "str_prefix (join ''/'' rs @ ''/'') (path_text ps t)"
  proof (cases "qs = []")
    case True
    then show ?thesis using r qs by (simp add: path_text_def str_prefix_def)
  next
    case False
    then show ?thesis using qs rs by (simp add: path_text_def join_append str_prefix_def)
  qed
qed

lemma up_prefix: "k \<noteq> 0 \<Longrightarrow> path_text (replicate k ''..'' @ ps) t = ''..'' \<or> str_prefix ''../'' (path_text (replicate k ''..'' @ ps) t)"
  by (cases k; cases "replicate (k - 1) ''..'' @ ps") (auto simp: path_text_def str_prefix_def)

lemma plain_no_up:
  assumes "list_all plain ps" "ps \<noteq> []"
  shows "path_text ps t \<noteq> ''..'' \<and> \<not> str_prefix ''../'' (path_text ps t)"
proof -
  have hd: "hd (split_on slash (path_text ps t)) \<noteq> ''..''"
    using assms split_path_text [OF assms, of t] by (cases ps) (auto simp: plain_def)
  have "split_on slash (''../'' @ u) = ''..'' # split_on slash u" for u by simp
  moreover have "split_on slash ''..'' = [''..'']" by simp
  ultimately show ?thesis using hd by (auto simp: str_prefix_iff)
qed

theorem normal_form:
  assumes "s \<noteq> []" "\<not> is_abs (slashed s)"
  shows "normalizeWorktreeRelativePath (VStr s) =
    (if resolved s \<noteq> [] \<and> hd (resolved s) = ''..'' then None
     else Some (if resolved s = [] then (if trailing s then ''./'' else ''.'')
                else path_text (resolved s) (trailing s)))"
proof -
  have rel: "\<not> is_abs s" using assms by (cases s) (auto simp: is_abs_def slashed_def)
  obtain k ps where shape: "resolved s = replicate k ''..'' @ ps" "list_all plain ps"
    unfolding resolved_def by (rule resolve_segs_shape) (auto dest: split_on_parts)
  have body: "join ''/'' (resolved s) = [] \<longleftrightarrow> resolved s = []"
    using shape join_empty [OF shape(2)] by (cases k; cases "replicate (k - 1) ''..'' @ ps") auto
  have norm: "posix_normalize (slashed s) =
      (if resolved s = [] then (if trailing s then ''./'' else ''.'') else path_text (resolved s) (trailing s))"
    using assms body by (simp add: posix_normalize_def Let_def resolved_def trailing_def path_text_def)
  show ?thesis
  proof (cases "k = 0")
    case False
    then have up: "hd (resolved s) = ''..''" "resolved s \<noteq> []" using shape(1) by (cases k; simp)+
    then show ?thesis
      using assms rel norm up_prefix [OF False, of ps "trailing s"] shape(1)
      by (auto simp: normalizeWorktreeRelativePath_def Let_def)
  next
    case True
    then have ps: "resolved s = ps" using shape(1) by simp
    have "ps \<noteq> [] \<Longrightarrow> hd ps \<noteq> ''..''" using shape(2) by (cases ps) (auto simp: plain_def)
    then show ?thesis
      using assms rel norm ps shape(2) plain_no_up [OF shape(2), of "trailing s"]
      by (auto simp: normalizeWorktreeRelativePath_def Let_def str_prefix_def)
  qed
qed

lemma resolved_plain:
  assumes "resolved s \<noteq> [] \<Longrightarrow> hd (resolved s) \<noteq> ''..''"
  shows "list_all plain (resolved s)"
proof -
  obtain k ps where shape: "resolved s = replicate k ''..'' @ ps" "list_all plain ps"
    unfolding resolved_def by (rule resolve_segs_shape) (auto dest: split_on_parts)
  then have "k = 0" using assms by (cases k) auto
  then show ?thesis using shape by simp
qed

section \<open>The policy by components\<close>

lemma split_on_chars: "x \<in> set (split_on c s) \<Longrightarrow> set x \<subseteq> set s"
  by (induction s arbitrary: x) (fastforce split: if_splits list.splits)+

lemma fold_norm_set: "set (fold (norm_seg up) segs st) \<subseteq> set segs \<union> set st \<union> {''..''}"
proof (induction segs arbitrary: st)
  case (Cons x xs)
  have "set (norm_seg up x st) \<subseteq> {x} \<union> set st \<union> {''..''}"
    by (cases st) (auto simp: norm_seg_def)
  then show ?case using Cons [of "norm_seg up x st"] by auto
qed auto

lemma resolved_no_backslash: "x \<in> set (resolved s) \<Longrightarrow> CHR 0x5C \<notin> set x"
proof -
  assume "x \<in> set (resolved s)"
  then have "x \<in> set (split_on slash (slashed s)) \<or> x = ''..''"
    using fold_norm_set [of True "split_on slash (slashed s)" "[]"] by (auto simp: resolved_def resolve_segs_def)
  then show ?thesis using split_on_chars slashed_no_backslash by fastforce
qed

lemma path_text_no_backslash:
  assumes "\<And>x. x \<in> set ps \<Longrightarrow> CHR 0x5C \<notin> set x"
  shows "CHR 0x5C \<notin> set (path_text ps t)"
  using set_join_subset [of "''/''" ps] assms by (auto simp: path_text_def)

lemma path_text_relative: "list_all plain ps \<Longrightarrow> ps \<noteq> [] \<Longrightarrow> \<not> is_abs (path_text ps t)"
  by (cases ps; cases "tl ps") (auto simp: path_text_def is_abs_def plain_def hd_append dest!: hd_in_set)

lemma frozen_get_resolved:
  assumes "list_all plain (resolved s)" "resolved s \<noteq> []"
  shows "frozen_get recs (path_text (resolved s) t) = recs (join ''/'' (resolved s))"
  using assms path_text_no_backslash [of "resolved s" t, OF resolved_no_backslash] path_text_relative [OF assms, of t]
  by (simp add: frozen_get_def Let_def slashed_id split_path_text frozen_parts_plain frozen_parts_plain_snoc)

lemma plain_roots:
  "list_all plain [''test'', ''golden'']" "list_all plain [''test'', ''ai-generated'']" "list_all plain [''src'']"
  by (simp_all add: plain_def)

lemma golden_prefix_iff:
  assumes "list_all plain ps" "ps \<noteq> []"
  shows "str_prefix GOLDEN_PREFIX (path_text ps t) \<or> path_text ps t = ''test/golden'' \<longleftrightarrow> prefix [''test'', ''golden''] ps"
proof -
  have "path_text ps t = ''test/golden'' \<Longrightarrow> prefix [''test'', ''golden''] ps"
    using split_path_text [OF assms, of t] by (cases t) auto
  moreover have "path_text [''test'', ''golden''] False = ''test/golden''" by (simp add: path_text_def)
  moreover have "str_prefix GOLDEN_PREFIX (path_text ps t) \<longleftrightarrow>
      prefix [''test'', ''golden''] ps \<and> (length [''test'', ''golden''] < length ps \<or> t)"
    using dir_prefix [OF assms plain_roots(1), of t] by (simp add: GOLDEN_PREFIX_def)
  moreover have "ps = [''test'', ''golden'']" if "prefix [''test'', ''golden''] ps" "\<not> length [''test'', ''golden''] < length ps"
    using that by (auto simp: prefix_def)
  ultimately show ?thesis by (cases t) auto
qed

lemma write_prefix_iff:
  assumes "list_all plain ps" "ps \<noteq> []"
  shows "list_ex (\<lambda>p. str_prefix p (path_text ps t)) (WRITE_PREFIXES r) \<longleftrightarrow>
    list_ex (\<lambda>d. prefix (split_on slash d) ps \<and> (length (split_on slash d) < length ps \<or> t)) (writeRoots r)"
  using dir_prefix [OF assms plain_roots(2), of t] dir_prefix [OF assms plain_roots(3), of t]
  by (cases r) (simp_all add: writeRoots_def str_suffix_def)

text \<open>
  The reference: the decision on the components a path resolves to. A trailing separator counts only for
  a root itself.
\<close>

definition write_reference :: "(string \<Rightarrow> 'r option) option \<Rightarrow> role \<Rightarrow> string list \<Rightarrow> bool \<Rightarrow> policy_decision" where
  "write_reference fr r ps trail =
     (if \<not> list_all plain ps then Denied RPathOutsideAllowlist
      else if prefix [''test'', ''golden''] ps then Denied RGoldenWriteDenied
      else if r = Implementer \<and> (case fr of None \<Rightarrow> False | Some recs \<Rightarrow> recs (join ''/'' ps) \<noteq> None)
      then Denied RRedArtifactFrozen
      else if list_ex (\<lambda>d. prefix (split_on slash d) ps \<and> (length (split_on slash d) < length ps \<or> trail)) (writeRoots r)
      then Allowed
      else Denied RPathOutsideAllowlist)"

lemma up_not_plain: "resolved s \<noteq> [] \<Longrightarrow> hd (resolved s) = ''..'' \<Longrightarrow> \<not> list_all plain (resolved s)"
  by (cases "resolved s") (auto simp: plain_def)

lemma absolute_alias:
  assumes "is_abs (slashed s)" "normalizeWorktreeRelativePath (VStr s) = Some n"
  shows "\<exists>u. n = slash # u"
  using assms by (auto simp: normalizeWorktreeRelativePath_def posix_normalize_def Let_def split: if_splits)

lemma write_absolute_denied:
  assumes "s = [] \<or> is_abs (slashed s)"
  shows "checkWrite fr r (VStr s) = Denied RPathOutsideAllowlist"
proof (cases "normalizeWorktreeRelativePath (VStr s)")
  case None
  then show ?thesis by (simp add: checkWrite_def)
next
  case (Some n)
  then have "s \<noteq> []" by (auto simp: normalizeWorktreeRelativePath_def)
  then obtain u where n: "n = slash # u" using assms Some absolute_alias [of s n] by auto
  have "\<not> list_ex (\<lambda>p. str_prefix p n) (WRITE_PREFIXES r)" "\<not> str_prefix GOLDEN_PREFIX n"
    by (cases r; simp add: n str_prefix_def) (simp add: n str_prefix_def GOLDEN_PREFIX_def)
  moreover have "frozen_get recs n = None" for recs :: "string \<Rightarrow> 'a option"
    by (simp add: frozen_get_def n slashed_def is_abs_def)
  ultimately show ?thesis using Some n by (auto simp: checkWrite_def split: option.split)
qed

text \<open>The worktree itself.\<close>

lemma write_root:
  assumes "s \<noteq> []" "\<not> is_abs (slashed s)" "resolved s = []"
  shows "checkWrite fr r (VStr s) = write_reference fr r [] (trailing s)"
proof -
  define n where "n = (if trailing s then ''./'' else ''.'')"
  have "\<not> list_ex (\<lambda>p. str_prefix p n) (WRITE_PREFIXES r)"
    by (cases r) (simp_all add: str_prefix_def n_def)
  moreover have "frozen_get recs n = recs []" for recs :: "string \<Rightarrow> 'a option"
    by (simp add: frozen_get_def slashed_def is_abs_def Let_def n_def)
  moreover have "\<not> list_ex (\<lambda>d. prefix (split_on slash d) [] \<and> (length (split_on slash d) < 0 \<or> t)) (writeRoots r)" for t
    by (cases r) (simp_all add: writeRoots_def str_suffix_def)
  moreover have "\<not> str_prefix GOLDEN_PREFIX n" "n \<noteq> ''test/golden''"
    by (simp_all add: str_prefix_def GOLDEN_PREFIX_def n_def)
  moreover have "normalizeWorktreeRelativePath (VStr s) = Some n" using assms by (simp add: normal_form n_def)
  ultimately show ?thesis by (cases fr) (simp_all add: checkWrite_def write_reference_def)
qed

text \<open>C20: a write is decided by the role, the components its path resolves to and whether it ends in a separator, and
  by nothing else: whatever mixture of separators, dots, empty components and \<open>..\<close> it is spelled with, it is allowed
  exactly when the resolved path stays inside the worktree, lies below a root of the role (or is that root, ending in a
  separator), is not in the golden tree and, when the role is the implementer, is not a frozen RED artifact; a test
  designer may write frozen artifacts. Anything that is not a string, is empty or is absolute under
  either separator is outside.
\<close>

theorem write_policy_is_by_components:
  "checkWrite fr r v =
     (case v of
        VStr s \<Rightarrow>
          if s = [] \<or> is_abs (slashed s) then Denied RPathOutsideAllowlist
          else write_reference fr r (resolved s) (trailing s)
      | _ \<Rightarrow> Denied RPathOutsideAllowlist)"
proof (cases v)
  case (VStr s)
  show ?thesis
  proof (cases "s = [] \<or> is_abs (slashed s)")
    case True
    then show ?thesis using VStr write_absolute_denied [OF True] by auto
  next
    case False
    then have s: "s \<noteq> []" "\<not> is_abs (slashed s)" by simp_all
    show ?thesis
    proof (cases "resolved s \<noteq> [] \<and> hd (resolved s) = ''..''")
      case True
      then show ?thesis using s VStr up_not_plain [of s] by (simp add: checkWrite_def normal_form write_reference_def)
    next
      case no: False
      then have plain: "list_all plain (resolved s)" using resolved_plain [of s] by blast
      show ?thesis
      proof (cases "resolved s = []")
        case True
        then show ?thesis using s VStr write_root [OF s True] by simp
      next
        case False
        then show ?thesis
          using s VStr no plain golden_prefix_iff [OF plain False] write_prefix_iff [OF plain False, of _ r]
          by (cases fr) (auto simp: checkWrite_def normal_form write_reference_def frozen_get_resolved)
      qed
    qed
  qed
qed (simp_all add: checkWrite_def normalizeWorktreeRelativePath_def)

section \<open>Consequences\<close>

lemma write_needs_writer: "checkWrite fr r v = Allowed \<Longrightarrow> r = TestDesigner \<or> r = Implementer"
  by (cases r) (auto simp: checkWrite_def split: option.splits if_splits)

text \<open>A path that is contained has an existing ancestor whose realpath is inside the worktree's.\<close>

lemma contained_from_ancestor:
  "contained_from realpath rootReal probe \<Longrightarrow>
     \<exists>k actual. realpath ((path_dirname ^^ k) probe) = Some actual
       \<and> (actual = rootReal \<or> str_prefix (rootReal @ ''/'') actual)
       \<and> list_all (\<lambda>i. realpath ((path_dirname ^^ i) probe) = None) [0..<k]"
proof (induction realpath rootReal probe rule: contained_from.induct)
  case (1 realpath rootReal probe)
  show ?case
  proof (cases "realpath probe")
    case (Some actual)
    then show ?thesis using "1.prems" by (subst (asm) contained_from.simps) (auto intro!: exI [of _ 0])
  next
    case None
    then have up: "path_dirname probe \<noteq> probe" "contained_from realpath rootReal (path_dirname probe)"
      using "1.prems" by (subst (asm) contained_from.simps, simp split: if_splits)+
    from "1.IH" [OF None up] obtain k actual where
      "realpath ((path_dirname ^^ k) (path_dirname probe)) = Some actual"
      "actual = rootReal \<or> str_prefix (rootReal @ ''/'') actual"
      "list_all (\<lambda>i. realpath ((path_dirname ^^ i) (path_dirname probe)) = None) [0..<k]" by blast
    then show ?thesis
      using None by (intro exI [of _ "Suc k"] exI [of _ actual])
        (auto simp: funpow_swap1 list_all_iff upt_conv_Cons_Cons less_Suc_eq_0_disj simp del: upt_Suc)
  qed
qed

text \<open>
  A leading backslash is turned into a separator only after the test for an absolute path, so such a path
  normalizes to an absolute one instead of being refused: reads of it are allowed by this policy (the
  executor's containment check still refuses them), writes are not.
\<close>

lemma leading_backslash_normalizes_to_absolute:
  "normalizeWorktreeRelativePath (VStr (CHR 0x5C # ''etc/passwd'')) = Some ''/etc/passwd''"
  "checkRead r (VStr (CHR 0x5C # ''etc/passwd'')) = Allowed"
  "checkWrite fr r (VStr (CHR 0x5C # ''etc/passwd'')) = Denied RPathOutsideAllowlist"
proof -
  show n: "normalizeWorktreeRelativePath (VStr (CHR 0x5C # ''etc/passwd'')) = Some ''/etc/passwd''"
    by code_simp
  show "checkRead r (VStr (CHR 0x5C # ''etc/passwd'')) = Allowed" using n by (simp add: checkRead_def)
  show "checkWrite fr r (VStr (CHR 0x5C # ''etc/passwd'')) = Denied RPathOutsideAllowlist"
    using n by (cases fr; cases r)
      (simp_all add: checkWrite_def GOLDEN_PREFIX_def str_prefix_def frozen_get_def is_abs_def slashed_def)
qed

end
