(* ===== verification/Executor.thy ===== *)
theory Executor
  imports EventLog PathPolicy "HOL-Library.Char_ord" "HOL-Library.List_Lexorder"
begin

text \<open>
  The action executor of \<open>core/src/executor/executor.ts\<close>: validation of untrusted actions, policy gates,
  the \<open>ACTION_INTENT\<close> / \<open>ACTION_APPLIED\<close> / \<open>ACTION_REJECTED\<close> protocol and replay-based crash recovery. An
  action is the JSON value the agent sent. A computation reads and writes the run database and the
  world (worktree, evidence store, clock, child processes), of any type, and returns or throws. What the
  executor only calls -- snapshots and restores of the tree (\<open>captureArtifactState\<close>, \<open>rollbackTo\<close>,
  \<open>snapshotWorktree\<close>), the mutation boundary (\<open>mutation-path.ts\<close>), patch inspection and application
  (\<open>patch.ts\<close>), the command executor, tool handlers -- are functions of the world in \<open>exec_env\<close>. An
  operation control's deadline is the answer of its checkpoints.
\<close>

section \<open>Computations\<close>

datatype exec_error =
    XFence string
  | XFrozen rejection_reason string
  | XIdentity string
  | XMutation string
  | XPatch rejection_reason string
  | XCrash string
  | XOther string

fun error_message :: "exec_error \<Rightarrow> string" where
  "error_message (XFence m) = m"
| "error_message (XFrozen _ m) = m"
| "error_message (XIdentity m) = m"
| "error_message (XMutation m) = m"
| "error_message (XPatch _ m) = m"
| "error_message (XCrash m) = ''crash injected: '' @ m"
| "error_message (XOther m) = m"

record 'w xstate =
  xs_db :: db
  xs_world :: 'w

type_synonym ('w, 'a) xeff = "'w xstate \<Rightarrow> (exec_error + 'a) \<times> 'w xstate"

type_synonym ('w, 'a) xport = "'w \<Rightarrow> (exec_error + 'a) \<times> 'w"

definition xret :: "'a \<Rightarrow> ('w, 'a) xeff" where
  "xret a s = (Inr a, s)"

definition xthrow :: "exec_error \<Rightarrow> ('w, 'a) xeff" where
  "xthrow e s = (Inl e, s)"

definition xbind :: "('w, 'a) xeff \<Rightarrow> ('a \<Rightarrow> ('w, 'b) xeff) \<Rightarrow> ('w, 'b) xeff" where
  "xbind m f s = (case m s of (Inl e, s') \<Rightarrow> (Inl e, s') | (Inr a, s') \<Rightarrow> f a s')"

definition xcatch :: "('w, 'a) xeff \<Rightarrow> (exec_error \<Rightarrow> ('w, 'a) xeff) \<Rightarrow> ('w, 'a) xeff" where
  "xcatch m h s = (case m s of (Inl e, s') \<Rightarrow> h e s' | (Inr a, s') \<Rightarrow> (Inr a, s'))"

definition xport :: "('w, 'a) xport \<Rightarrow> ('w, 'a) xeff" where
  "xport f s = (case f (xs_world s) of (r, w) \<Rightarrow> (r, s\<lparr>xs_world := w\<rparr>))"

definition xlog :: "('w, db) xeff" where
  "xlog s = (Inr (xs_db s), s)"

text \<open>The result of a computation as a value, for a \<open>catch\<close> that decides later.\<close>

definition xattempt :: "('w, 'a) xeff \<Rightarrow> ('w, exec_error + 'a) xeff" where
  "xattempt m s = (case m s of (r, s') \<Rightarrow> (Inr r, s'))"

section \<open>JavaScript values\<close>

fun js_falsy :: "js_val \<Rightarrow> bool" where
  "js_falsy VUndef = True"
| "js_falsy VNull = True"
| "js_falsy (VBool b) = (\<not> b)"
| "js_falsy (VNum n) = (n = JFin 0 \<or> n = JNaN)"
| "js_falsy (VStr s) = (s = [])"
| "js_falsy _ = False"

fun is_num :: "js_val \<Rightarrow> bool" where
  "is_num (VNum _) = True"
| "is_num _ = False"

fun str_of :: "js_val \<Rightarrow> string" where
  "str_of (VStr s) = s"
| "str_of _ = []"

fun role_text :: "role \<Rightarrow> string" where
  "role_text Planner = ''planner''"
| "role_text TestDesigner = ''test_designer''"
| "role_text Implementer = ''implementer''"
| "role_text Diagnostician = ''diagnostician''"
| "role_text Reviewer = ''reviewer''"

definition role_of_val :: "js_val \<Rightarrow> role option" where
  "role_of_val v = find (\<lambda>r. v = VStr (role_text r)) [Planner, TestDesigner, Implementer, Diagnostician, Reviewer]"

definition non_empty :: "js_val \<Rightarrow> bool" where
  "non_empty v = (case v of VStr s \<Rightarrow> s \<noteq> [] | _ \<Rightarrow> False)"

section \<open>Validation\<close>

definition MAX_COMMAND_TIMEOUT_MS :: int where
  "MAX_COMMAND_TIMEOUT_MS = 300000"

definition network_ok :: "js_val \<Rightarrow> bool" where
  "network_ok v = (case v of VStr s \<Rightarrow> s = ''none'' \<or> str_prefix ''allowlist:'' s | _ \<Rightarrow> False)"

definition timeout_ok :: "js_val \<Rightarrow> bool" where
  "timeout_ok v =
     (case v of VUndef \<Rightarrow> True
      | VNum n \<Rightarrow> js_finite n \<and> js_integer n \<and> js_lt (js_int 0) n \<and> js_le n (js_int MAX_COMMAND_TIMEOUT_MS)
      | _ \<Rightarrow> False)"

definition validate :: "js_val \<Rightarrow> string option" where
  "validate a =
     (let f = val_get a in
      if \<not> non_empty (f ''actionId'') then Some ''actionId must be a non-empty string''
      else if f ''type'' = VStr ''WRITE_FILE'' then
        (if \<not> non_empty (f ''path'') \<or> js_falsy (f ''contentRef'')
         then Some ''WRITE_FILE requires a non-empty string path and contentRef'' else None)
      else if f ''type'' = VStr ''APPLY_PATCH'' then
        (if js_falsy (f ''diffRef'') then Some ''APPLY_PATCH requires diffRef'' else None)
      else if f ''type'' = VStr ''RUN_COMMAND'' then
        (if \<not> non_empty (f ''cmd'') then Some ''RUN_COMMAND requires cmd''
         else if \<not> network_ok (f ''network'') then Some ''network must be \"none\" or \"allowlist:<name>\"''
         else if f ''cwd'' \<noteq> VUndef \<and> \<not> non_empty (f ''cwd'')
         then Some ''RUN_COMMAND cwd must be a non-empty string when present''
         else if \<not> timeout_ok (f ''timeoutMs'')
         then Some ''timeoutMs must be a finite positive integer no greater than 300000''
         else None)
      else if f ''type'' = VStr ''READ_FILE'' then
        (if \<not> non_empty (f ''path'') then Some ''READ_FILE requires a non-empty string path'' else None)
      else if f ''type'' = VStr ''REQUEST_TOOL'' then
        (if js_falsy (f ''name'') then Some ''REQUEST_TOOL requires name'' else None)
      else Some ''unknown action type'')"

definition is_mutating :: "js_val \<Rightarrow> bool" where
  "is_mutating a \<longleftrightarrow> val_get a ''type'' \<in> {VStr ''WRITE_FILE'', VStr ''APPLY_PATCH'', VStr ''RUN_COMMAND''}"

section \<open>The executor's environment\<close>

record xsnap =
  sn_ref :: string
  sn_persistent :: string
  sn_artifact :: "string option"

record patch_path =
  pp_old :: "string option"
  pp_new :: "string option"

datatype patch_effect = PeText | PeNoop | PeCopy

record prepared_patch =
  pt_bytes :: string
  pt_paths :: "patch_path list"
  pt_mutations :: "string list"
  pt_effect :: patch_effect

text \<open>What the core command executor answers: evidence is the reference of the command's output and the
  record \<open>res.evidence\<close> as stored.\<close>

datatype command_result =
    CrRejected rejection_reason string string
  | CrSandbox string
  | CrFailed string string string
  | CrSignaled string string
  | CrCompleted int string js_val

record exec_outcome_info =
  ap_hash :: string
  ap_extra :: payload

datatype exec_result =
    ResApplied string exec_outcome_info
  | ResSkipped string
  | ResRejected action_rejection

record 'w exec_env =
  xe_run :: string
  xe_task :: string
  xe_worktree :: string
  xe_now :: "'w \<Rightarrow> int \<times> 'w"
  xe_fence :: "('w \<Rightarrow> fenced_claim \<times> 'w) option"
  xe_write_policy :: "role \<Rightarrow> js_val \<Rightarrow> policy_decision"
  xe_read_policy :: "role \<Rightarrow> js_val \<Rightarrow> policy_decision"
  xe_command_policy :: "role \<Rightarrow> policy_decision"
  xe_roots :: "role \<Rightarrow> string list"
  xe_realpath :: "'w \<Rightarrow> string \<Rightarrow> string option"
  xe_persistent_outputs :: "string list"
  xe_get :: "js_val \<Rightarrow> ('w, string) xport"
  xe_put :: "string \<Rightarrow> ('w, string) xport"
  xe_checkpoint :: "('w, unit) xport"
  xe_check_paths :: "string list \<Rightarrow> string \<Rightarrow> string \<Rightarrow> ('w, unit) xport"
  xe_before_commit :: "string list \<Rightarrow> ('w, unit) xport"
  xe_apply_write :: "string list \<Rightarrow> string \<Rightarrow> string \<Rightarrow> ('w, unit) xport"
  xe_prepare_patch :: "string \<Rightarrow> ('w, prepared_patch) xport"
  xe_check_patch :: "prepared_patch \<Rightarrow> string list \<Rightarrow> ('w, unit) xport"
  xe_apply_patch :: "prepared_patch \<Rightarrow> string list \<Rightarrow> ('w, unit) xport"
  xe_command :: "js_val \<Rightarrow> role \<Rightarrow> ('w, command_result) xport"
  xe_capture :: "('w, string) xport"
  xe_snapshot :: "string \<Rightarrow> ('w, xsnap) xport"
  xe_rollback :: "xsnap \<Rightarrow> ('w, unit) xport"
  xe_load_artifact :: "string \<Rightarrow> ('w, unit) xport"
  xe_load_persistent :: "string \<Rightarrow> ('w, unit) xport"
  xe_read :: "string \<Rightarrow> ('w, string) xport"
  xe_list :: "'w \<Rightarrow> string list \<times> 'w"
  xe_tool :: "string \<Rightarrow> (js_val \<Rightarrow> role \<Rightarrow> ('w, exec_result) xport) option"
  xe_number :: "js_num \<Rightarrow> string"
  xe_crash_after_intent :: bool
  xe_crash_after_apply :: bool

definition xask :: "('w \<Rightarrow> 'a \<times> 'w) \<Rightarrow> ('w, 'a) xeff" where
  "xask f = xport (\<lambda>w. case f w of (a, w') \<Rightarrow> (Inr a, w'))"

section \<open>Events\<close>

definition xevent :: "'w exec_env \<Rightarrow> event_type \<Rightarrow> payload \<Rightarrow> new_event" where
  "xevent env ty pl = \<lparr>ne_run = xe_run env, ne_task = Some (xe_task env), ne_type = ty, ne_payload = pl\<rparr>"

definition log_append :: "'w exec_env \<Rightarrow> new_event \<Rightarrow> ('w, event) xeff" where
  "log_append env e =
     xbind (xask (xe_now env)) (\<lambda>ts.
     (\<lambda>s. case append ts e (xs_db s) of (row, d) \<Rightarrow> (Inr row, s\<lparr>xs_db := d\<rparr>)))"

definition lease_lost_message :: string where
  "lease_lost_message = ''task lease was lost before the event could be committed''"

definition appendCoreEvent :: "'w exec_env \<Rightarrow> new_event \<Rightarrow> ('w, event) xeff" where
  "appendCoreEvent env e =
     (case xe_fence env of
        None \<Rightarrow> log_append env e
      | Some fence \<Rightarrow>
          xbind (xask fence) (\<lambda>claim.
          xbind (xask (xe_now env)) (\<lambda>now.
          xbind (xask (xe_now env)) (\<lambda>ts.
          (\<lambda>s. case appendFenced now ts e claim (xs_db s) of
                 (None, d) \<Rightarrow> (Inl (XFence lease_lost_message), s\<lparr>xs_db := d\<rparr>)
               | (Some row, d) \<Rightarrow> (Inr row, s\<lparr>xs_db := d\<rparr>))))))"

definition reject :: "'w exec_env \<Rightarrow> string \<Rightarrow> rejection_reason \<Rightarrow> string \<Rightarrow> payload \<Rightarrow> ('w, exec_result) xeff" where
  "reject env aid why detail metadata =
     xbind (log_append env (xevent env E_ACTION_REJECTED
       ([(''actionId'', VStr aid), (''reason'', VStr (reason_name why)), (''detail'', VStr detail)] @ metadata))) (\<lambda>_.
     xret (ResRejected \<lparr>rej_action = aid, rej_reason = why, rej_detail = detail\<rparr>))"

definition contained :: "'w exec_env \<Rightarrow> string \<Rightarrow> ('w, string option) xeff" where
  "contained env rel =
     (\<lambda>s. case resolveContained (xe_realpath env (xs_world s)) (xe_worktree env) rel of
            Inl m \<Rightarrow> (Inl (XOther m), s)
          | Inr r \<Rightarrow> (Inr r, s))"

definition decision_reason :: "policy_decision \<Rightarrow> rejection_reason option" where
  "decision_reason d = (case d of Allowed \<Rightarrow> None | Denied r \<Rightarrow> Some r)"

section \<open>The history of intents\<close>

record generation =
  gn_intent :: event
  gn_terminals :: "event list"

definition my_events :: "'w exec_env \<Rightarrow> db \<Rightarrow> event list" where
  "my_events env d = [e \<leftarrow> all_events (Some (xe_task env)) None d. ev_run e = xe_run env]"

definition pay :: "event \<Rightarrow> string \<Rightarrow> js_val" where
  "pay e k = fields_get (ev_payload e) k"

definition is_terminal_of :: "event \<Rightarrow> event \<Rightarrow> bool" where
  "is_terminal_of intent e \<longleftrightarrow>
     ev_seq intent < ev_seq e \<and> (ev_type e = E_ACTION_APPLIED \<or> ev_type e = E_ACTION_REJECTED) \<and>
     strict_eq (pay e ''actionId'') (pay intent ''actionId'') \<and>
     strict_eq (pay e ''intentSeq'') (vint (int (ev_seq intent)))"

definition history_of :: "event list \<Rightarrow> generation list" where
  "history_of es =
     [\<lparr>gn_intent = i, gn_terminals = filter (is_terminal_of i) es\<rparr>. i \<leftarrow> es, ev_type i = E_ACTION_INTENT]"

definition mutatingIntentHistory :: "'w exec_env \<Rightarrow> db \<Rightarrow> generation list" where
  "mutatingIntentHistory env d = history_of (my_events env d)"

definition danglingMutatingIntents :: "'w exec_env \<Rightarrow> db \<Rightarrow> generation list" where
  "danglingMutatingIntents env d = [g \<leftarrow> mutatingIntentHistory env d. gn_terminals g = []]"

definition invalidates :: "event \<Rightarrow> event \<Rightarrow> bool" where
  "invalidates applied e \<longleftrightarrow>
     ev_seq applied < ev_seq e \<and> ev_type e = E_ACTION_REJECTED \<and>
     strict_eq (pay e ''actionId'') (pay applied ''actionId'') \<and>
     strict_eq (pay e ''invalidatesAppliedSeq'') (vint (int (ev_seq applied)))"

text \<open>The order of a replay: by the sequence number of the intent, then by the event's own. Sorting is
  stable, so the two comparisons are two sorts.\<close>

definition intent_key :: "event \<Rightarrow> rat" where
  "intent_key e = (case pay e ''intentSeq'' of VNum (JFin r) \<Rightarrow> r | _ \<Rightarrow> of_nat (ev_seq e))"

definition in_force :: "event list \<Rightarrow> event \<Rightarrow> bool" where
  "in_force es e \<longleftrightarrow>
     ev_type e = E_ACTION_APPLIED \<and> pay e ''duplicate'' \<noteq> VBool True \<and> \<not> list_ex (invalidates e) es"

definition activeAppliedEvents :: "'w exec_env \<Rightarrow> db \<Rightarrow> event list" where
  "activeAppliedEvents env d =
     (let es = my_events env d in sort_key intent_key (sort_key ev_seq (filter (in_force es) es)))"

definition last_such :: "('a \<Rightarrow> bool) \<Rightarrow> 'a list \<Rightarrow> 'a option" where
  "last_such P xs = find P (rev xs)"

definition alreadyApplied :: "'w exec_env \<Rightarrow> string \<Rightarrow> db \<Rightarrow> event option" where
  "alreadyApplied env aid d =
     last_such (\<lambda>e. pay e ''actionId'' = VStr aid \<and> is_str (pay e ''resultHash'')) (activeAppliedEvents env d)"

section \<open>Snapshots and rollback\<close>

definition isSafeRelativePath :: "string \<Rightarrow> bool" where
  "isSafeRelativePath p \<longleftrightarrow>
     p \<noteq> [] \<and> hd p \<noteq> slash \<and> CHR 0x00 \<notin> set p \<and>
     list_all (\<lambda>c. c \<noteq> [] \<and> c \<noteq> ''.'' \<and> c \<noteq> ''..'') (split_on slash p)"

definition persistentRoots :: "'w exec_env \<Rightarrow> exec_error + string list" where
  "persistentRoots env =
     (let roots = sort (uniq (xe_persistent_outputs env)) in
      case find (\<lambda>r. \<not> isSafeRelativePath r \<or> r = ''.git'' \<or> str_prefix ''.git/'' r) roots of
        Some r \<Rightarrow> Inl (XOther (''unsafe persistent output root: '' @ r))
      | None \<Rightarrow> Inr roots)"

definition git_ref :: "string \<Rightarrow> bool" where
  "git_ref s \<longleftrightarrow> 40 \<le> length s \<and> length s \<le> 64 \<and> list_all (\<lambda>c. c \<in> set ''0123456789abcdef'') s"

definition lift_result :: "exec_error + 'a \<Rightarrow> ('w, 'a) xeff" where
  "lift_result r s = (r, s)"

definition actionSnapshotFromPayload :: "'w exec_env \<Rightarrow> event \<Rightarrow> ('w, xsnap) xeff" where
  "actionSnapshotFromPayload env e =
     (let snap = pay e ''snapshotRef''; per = pay e ''persistentSnapshotRef''; art = pay e ''artifactSnapshotRef'' in
      if \<not> (is_str snap \<and> git_ref (str_of snap))
      then xthrow (XOther ''recovery intent has an invalid Git snapshot ref'')
      else if art \<noteq> VUndef \<and> \<not> (is_str art \<and> str_prefix ''blob://'' (str_of art))
      then xthrow (XOther ''recovery intent has an invalid artifact snapshot ref'')
      else if is_str per
      then xret \<lparr>sn_ref = str_of snap, sn_persistent = str_of per,
                 sn_artifact = (if is_str art then Some (str_of art) else None)\<rparr>
      else
        xbind (lift_result (persistentRoots env)) (\<lambda>roots.
        if roots \<noteq> [] then xthrow (XOther ''recovery intent is missing its persistent-output snapshot ref'')
        else
          xbind (xport (xe_put env ''{\"version\":1,\"roots\":[],\"entries\":[]}'')) (\<lambda>ref.
          xret \<lparr>sn_ref = str_of snap, sn_persistent = ref, sn_artifact = None\<rparr>)))"

text \<open>A rollback that was stopped by the shared deadline is run again under one of its own.\<close>

definition reconcileAfterFailure :: "'w exec_env \<Rightarrow> xsnap \<Rightarrow> ('w, unit) xeff" where
  "reconcileAfterFailure env snap =
     xcatch (xport (xe_rollback env snap))
       (\<lambda>e. case e of XFrozen _ _ \<Rightarrow> xport (xe_rollback env snap) | _ \<Rightarrow> xthrow e)"

section \<open>Applying a mutation\<close>

definition patch_denial :: "'w exec_env \<Rightarrow> role \<Rightarrow> string option \<Rightarrow> ('w, (rejection_reason \<times> string) option) xeff" where
  "patch_denial env r endpoint =
     xbind (xport (xe_checkpoint env)) (\<lambda>_.
     case endpoint of
       None \<Rightarrow> xret None
     | Some path \<Rightarrow>
         (case xe_write_policy env r (VStr path) of
            Denied why \<Rightarrow> xret (Some (why, path))
          | Allowed \<Rightarrow>
              xbind (contained env path) (\<lambda>c.
              xret (if c = None then Some (RPathOutsideAllowlist, path) else None))))"

fun patch_denials ::
    "'w exec_env \<Rightarrow> role \<Rightarrow> string option list \<Rightarrow> ('w, (rejection_reason \<times> string) list) xeff" where
  "patch_denials env r [] = xret []"
| "patch_denials env r (p # ps) =
     xbind (patch_denial env r p) (\<lambda>d.
     xbind (patch_denials env r ps) (\<lambda>ds.
     xret (case d of None \<Rightarrow> ds | Some x \<Rightarrow> x # ds)))"

definition patch_endpoints :: "patch_path list \<Rightarrow> string option list" where
  "patch_endpoints ps = concat (map (\<lambda>p. [pp_old p, pp_new p]) ps)"

definition patchPolicyRejection :: "'w exec_env \<Rightarrow> prepared_patch \<Rightarrow> role \<Rightarrow> ('w, (rejection_reason \<times> string) option) xeff" where
  "patchPolicyRejection env pt r =
     xbind (patch_denials env r (patch_endpoints (pt_paths pt))) (\<lambda>denials.
     xbind (xport (xe_checkpoint env)) (\<lambda>_.
     let denial = (case find (\<lambda>d. fst d = RGoldenWriteDenied) denials of
                     Some d \<Rightarrow> Some d
                   | None \<Rightarrow> (case denials of [] \<Rightarrow> None | d # _ \<Rightarrow> Some d)) in
     xret (map_option (\<lambda>(why, path). (why, ''patch path '' @ path @ '' denied for role '' @ role_text r)) denial)))"

definition preparePatchAction :: "'w exec_env \<Rightarrow> js_val \<Rightarrow> role \<Rightarrow> ('w, prepared_patch) xeff" where
  "preparePatchAction env a r =
     xbind
       (xcatch
         (xbind (xport (xe_checkpoint env)) (\<lambda>_.
          xbind (xport (xe_get env (val_get a ''diffRef''))) (\<lambda>bytes.
          xbind (xport (xe_checkpoint env)) (\<lambda>_. xret bytes))))
         (\<lambda>e. case e of
                XFrozen _ _ \<Rightarrow> xthrow e
              | _ \<Rightarrow> xthrow (XPatch REvidenceInvalid (''patch evidence is missing or invalid: '' @ error_message e)))) (\<lambda>bytes.
     xbind (xport (xe_prepare_patch env bytes)) (\<lambda>pt.
     xbind (patchPolicyRejection env pt r) (\<lambda>rejected.
     case rejected of
       Some (why, detail) \<Rightarrow> xthrow (XPatch why detail)
     | None \<Rightarrow>
         if pt_effect pt = PeCopy then xthrow (XPatch RPatchUnsupported ''copy patches are unsupported in Phase 0'')
         else if pt_effect pt = PeNoop then xthrow (XPatch RPatchNoop ''patch produces no artifact change'')
         else
           xbind (xport (xe_check_patch env pt (xe_roots env r))) (\<lambda>_. xret pt))))"

text \<open>The result of an application: its record, or a rejection with its reason.\<close>

type_synonym apply_result = "(rejection_reason \<times> string) + exec_outcome_info"

definition performWrite :: "'w exec_env \<Rightarrow> js_val \<Rightarrow> role \<Rightarrow> ('w, apply_result) xeff" where
  "performWrite env a r =
     (let path = str_of (val_get a ''path'') in
      xbind
        (xcatch
          (xbind (xport (xe_before_commit env [path])) (\<lambda>_.
           xbind (xport (xe_get env (val_get a ''contentRef''))) (\<lambda>content.
           xbind (xport (xe_apply_write env (xe_roots env r) path content)) (\<lambda>_. xret None))))
          (\<lambda>e. case e of XMutation m \<Rightarrow> xret (Some (RPathOutsideAllowlist, m)) | _ \<Rightarrow> xthrow e)) (\<lambda>rej.
      case rej of
        Some x \<Rightarrow> xret (Inl x)
      | None \<Rightarrow> xbind (xport (xe_capture env)) (\<lambda>h. xret (Inr \<lparr>ap_hash = h, ap_extra = []\<rparr>))))"

definition performPatch :: "'w exec_env \<Rightarrow> prepared_patch option \<Rightarrow> role \<Rightarrow> ('w, apply_result) xeff" where
  "performPatch env prepared r =
     (case prepared of
        None \<Rightarrow> xret (Inl (RPatchMalformed, ''verified patch bytes are unavailable''))
      | Some pt \<Rightarrow>
          xbind
            (xcatch
              (xbind (xport (xe_before_commit env (pt_mutations pt))) (\<lambda>_.
               xbind (xport (xe_apply_patch env pt (xe_roots env r))) (\<lambda>_. xret None)))
              (\<lambda>e. case e of XPatch why m \<Rightarrow> xret (Some (why, m)) | _ \<Rightarrow> xthrow e)) (\<lambda>rej.
          case rej of
            Some x \<Rightarrow> xret (Inl x)
          | None \<Rightarrow> xbind (xport (xe_capture env)) (\<lambda>h. xret (Inr \<lparr>ap_hash = h, ap_extra = []\<rparr>))))"

definition performCommand :: "'w exec_env \<Rightarrow> js_val \<Rightarrow> role \<Rightarrow> ('w, apply_result) xeff" where
  "performCommand env a r =
     xbind (xport (xe_command env a r)) (\<lambda>res.
     case res of
       CrRejected why detail ref \<Rightarrow>
         xret (Inl (why, reason_name why @ '': '' @ detail @ ''; evidence='' @ ref))
     | CrSandbox ref \<Rightarrow> xret (Inl (RSandboxViolation, ''sandbox_violation; evidence='' @ ref))
     | CrFailed ex sig ref \<Rightarrow>
         xret (Inl (RCommandFailed, ''command_failed: exit='' @ ex @ '' signal='' @ sig @ ''; evidence='' @ ref))
     | CrSignaled sig ref \<Rightarrow>
         xret (Inl (RCommandFailed, ''command_failed: signal='' @ sig @ ''; evidence='' @ ref))
     | CrCompleted ex ref evd \<Rightarrow>
         xbind (xport (xe_checkpoint env)) (\<lambda>_.
         xbind (xport (xe_capture env)) (\<lambda>h.
         xret (Inr \<lparr>ap_hash = h,
           ap_extra = [(''outputRef'', VStr ref), (''exitCode'', vint ex), (''egressBlocked'', VBool True),
                       (''signal'', VNull), (''commandEvidence'', evd)]\<rparr>))))"

definition performApply :: "'w exec_env \<Rightarrow> js_val \<Rightarrow> role \<Rightarrow> prepared_patch option \<Rightarrow> ('w, apply_result) xeff" where
  "performApply env a r prepared =
     (if val_get a ''type'' = VStr ''WRITE_FILE'' then performWrite env a r
      else if val_get a ''type'' = VStr ''APPLY_PATCH'' then performPatch env prepared r
      else performCommand env a r)"

definition applied_payload :: "string \<Rightarrow> nat \<Rightarrow> payload \<Rightarrow> exec_outcome_info \<Rightarrow> payload" where
  "applied_payload aid intentSeq flags ap =
     [(''actionId'', VStr aid), (''intentSeq'', vint (int intentSeq)), (''duplicate'', VBool False)] @ flags @
     [(''resultHash'', VStr (ap_hash ap))] @ ap_extra ap"

section \<open>Recovery\<close>

datatype recovery_action = RecNone | RecReplayed | RecRolledBack

datatype recovery_source = SrcConsistent | SrcDangling | SrcMismatch | SrcFailedClosed

record recovery_report =
  rr_action :: recovery_action
  rr_detail :: string
  rr_coherent :: bool
  rr_source :: recovery_source

fun source_text :: "recovery_source \<Rightarrow> string" where
  "source_text SrcConsistent = ''consistent''"
| "source_text SrcDangling = ''dangling_intent''"
| "source_text SrcMismatch = ''artifact_mismatch''"
| "source_text SrcFailedClosed = ''failed_closed''"

definition consistent_report :: recovery_report where
  "consistent_report = \<lparr>rr_action = RecNone, rr_detail = ''log and worktree consistent'', rr_coherent = True,
     rr_source = SrcConsistent\<rparr>"

definition failed_report :: "recovery_action \<Rightarrow> string \<Rightarrow> recovery_report" where
  "failed_report act detail = \<lparr>rr_action = act, rr_detail = detail, rr_coherent = False, rr_source = SrcFailedClosed\<rparr>"

fun find_index :: "('a \<Rightarrow> bool) \<Rightarrow> 'a list \<Rightarrow> nat option" where
  "find_index P [] = None"
| "find_index P (x # xs) = (if P x then Some 0 else map_option Suc (find_index P xs))"

text \<open>An applied event that carries an artifact identity, not the reference of a read.\<close>

definition has_identity :: "event \<Rightarrow> bool" where
  "has_identity e \<longleftrightarrow> is_str (pay e ''resultHash'') \<and> \<not> str_prefix ''blob://'' (str_of (pay e ''resultHash''))"

definition intent_seq_is :: "event \<Rightarrow> generation \<Rightarrow> bool" where
  "intent_seq_is e g \<longleftrightarrow> strict_eq (vint (int (ev_seq (gn_intent g)))) (pay e ''intentSeq'')"

definition seq_before :: "event \<Rightarrow> generation \<Rightarrow> bool" where
  "seq_before e g \<longleftrightarrow>
     (case pay e ''intentSeq'' of VNum n \<Rightarrow> js_lt n (js_int (int (ev_seq (gn_intent g)))) | _ \<Rightarrow> False)"

text \<open>Where a replay starts: an index of the history, with the source of the recovery and the detail of an
  identity mismatch; or no replay, with the report.\<close>

type_synonym boundary = "recovery_report + nat \<times> recovery_source \<times> string option"

definition refuse_recovery :: "'w exec_env \<Rightarrow> event \<Rightarrow> string \<Rightarrow> string \<Rightarrow> ('w, boundary) xeff" where
  "refuse_recovery env applied why detail =
     xbind (reject env (str_of (pay applied ''actionId'')) RCommandArtifactUnavailable why []) (\<lambda>_.
     xret (Inl (failed_report RecNone detail)))"

definition dangling_boundary :: "'w exec_env \<Rightarrow> db \<Rightarrow> generation list \<Rightarrow> nat \<Rightarrow> ('w, boundary) xeff" where
  "dangling_boundary env d hist b =
     (case last_such (\<lambda>e. has_identity e \<and> seq_before e (hist ! b)) (activeAppliedEvents env d) of
        None \<Rightarrow> xret (Inr (b, SrcDangling, None))
      | Some preceding \<Rightarrow>
          (case find_index (intent_seq_is preceding) hist of
             None \<Rightarrow>
               refuse_recovery env preceding ''preceding ACTION_APPLIED has no matching recovery intent''
                 ''preceding ACTION_APPLIED has no matching recovery intent; dangling reconciliation refused''
           | Some i \<Rightarrow> xret (Inr (i, SrcDangling, None))))"

definition identity_detail :: "exec_error + string \<Rightarrow> string" where
  "identity_detail r =
     (case r of Inl e \<Rightarrow> ''artifact identity capture failed: '' @ error_message e
      | Inr _ \<Rightarrow> ''artifact identity hash disagreed'')"

definition identity_boundary :: "'w exec_env \<Rightarrow> bool \<Rightarrow> db \<Rightarrow> generation list \<Rightarrow> ('w, boundary) xeff" where
  "identity_boundary env admission d hist =
     (case last_such has_identity (activeAppliedEvents env d) of
        None \<Rightarrow> xret (Inl consistent_report)
      | Some lastApplied \<Rightarrow>
          (case find_index (intent_seq_is lastApplied) hist of
             None \<Rightarrow>
               refuse_recovery env lastApplied ''last ACTION_APPLIED has no matching recovery intent''
                 ''last ACTION_APPLIED has no matching recovery intent; reconciliation refused''
           | Some i \<Rightarrow>
               xbind (xattempt (xport (xe_capture env))) (\<lambda>current.
               case current of
                 Inl (XFrozen why m) \<Rightarrow>
                   if admission then xthrow (XFrozen why m)
                   else xret (Inr (i, SrcMismatch, Some (identity_detail current)))
               | _ \<Rightarrow>
                   if current = Inr (str_of (pay lastApplied ''resultHash'')) then xret (Inl consistent_report)
                   else xret (Inr (i, SrcMismatch, Some (identity_detail current))))))"

record replay_gen =
  rg_gen :: generation
  rg_action :: js_val
  rg_role :: role
  rg_snap :: xsnap
  rg_terminal :: "event option"

definition intent_tag :: "generation \<Rightarrow> string" where
  "intent_tag g = ''intentSeq='' @ nat_str (ev_seq (gn_intent g))"

definition terminal_applied :: "event option \<Rightarrow> bool" where
  "terminal_applied t = (case t of Some e \<Rightarrow> ev_type e = E_ACTION_APPLIED | None \<Rightarrow> False)"

definition terminal_rejected :: "event option \<Rightarrow> bool" where
  "terminal_rejected t = (case t of Some e \<Rightarrow> ev_type e = E_ACTION_REJECTED | None \<Rightarrow> False)"

definition load_evidence :: "'w exec_env \<Rightarrow> xsnap \<Rightarrow> js_val \<Rightarrow> ('w, unit) xeff" where
  "load_evidence env snap a =
     xbind (case sn_artifact snap of
              Some ref \<Rightarrow> xport (xe_load_artifact env ref)
            | None \<Rightarrow> xport (xe_load_persistent env (sn_persistent snap))) (\<lambda>_.
     if val_get a ''type'' = VStr ''WRITE_FILE''
     then xbind (xport (xe_get env (val_get a ''contentRef''))) (\<lambda>_. xret ())
     else if val_get a ''type'' = VStr ''APPLY_PATCH''
     then xbind (xport (xe_get env (val_get a ''diffRef''))) (\<lambda>_. xret ())
     else xret ())"

definition check_generation :: "'w exec_env \<Rightarrow> generation \<Rightarrow> ('w, replay_gen) xeff" where
  "check_generation env g =
     (let a = pay (gn_intent g) ''action''; terminal = (case gn_terminals g of [] \<Rightarrow> None | t # _ \<Rightarrow> Some t) in
      if 1 < length (gn_terminals g)
      then xthrow (XOther (intent_tag g @ '' has multiple causal terminal events''))
      else if \<not> is_mutating a then xthrow (XOther (intent_tag g @ '' has an invalid mutating action''))
      else if validate a \<noteq> None \<or> val_get a ''actionId'' \<noteq> pay (gn_intent g) ''actionId''
      then xthrow (XOther (intent_tag g @ '' action failed recovery validation: '' @
             (case validate a of Some m \<Rightarrow> m | None \<Rightarrow> ''actionId mismatch'')))
      else
        (case role_of_val (pay (gn_intent g) ''role'') of
           None \<Rightarrow> xthrow (XOther (intent_tag g @ '' has a missing or invalid recovery role''))
         | Some r \<Rightarrow>
             xbind (actionSnapshotFromPayload env (gn_intent g)) (\<lambda>snap.
             xbind (if terminal_rejected terminal then xret () else load_evidence env snap a) (\<lambda>_.
             if terminal_applied terminal \<and>
                (case terminal of Some t \<Rightarrow> \<not> has_identity t | None \<Rightarrow> False)
             then xthrow (XOther (intent_tag g @ '' has unusable applied artifact evidence''))
             else xret \<lparr>rg_gen = g, rg_action = a, rg_role = r, rg_snap = snap, rg_terminal = terminal\<rparr>))))"

fun check_generations :: "'w exec_env \<Rightarrow> generation list \<Rightarrow> ('w, replay_gen list) xeff" where
  "check_generations env [] = xret []"
| "check_generations env (g # gs) =
     xbind (check_generation env g) (\<lambda>r. xbind (check_generations env gs) (\<lambda>rs. xret (r # rs)))"

datatype pending_terminal =
    PendApplied replay_gen exec_outcome_info
  | PendRejected replay_gen rejection_reason string

record replay_acc =
  ra_pending :: "pending_terminal list"
  ra_replayed :: nat
  ra_rejected :: nat
  ra_final :: "string option"

definition pend_rejection :: "replay_gen \<Rightarrow> rejection_reason \<times> string \<Rightarrow> replay_acc \<Rightarrow> replay_acc" where
  "pend_rejection g x acc =
     acc\<lparr>ra_pending := ra_pending acc @ [PendRejected g (fst x) (snd x)], ra_rejected := Suc (ra_rejected acc)\<rparr>"

definition count_replayed :: "replay_gen \<Rightarrow> exec_outcome_info \<Rightarrow> replay_acc \<Rightarrow> replay_acc" where
  "count_replayed g ap acc =
     acc\<lparr>ra_final := Some (ap_hash ap), ra_replayed := Suc (ra_replayed acc),
         ra_pending := ra_pending acc @ (if rg_terminal g = None then [PendApplied g ap] else [])\<rparr>"

text \<open>A patch is prepared again; its rejection is a value, any other error is thrown.\<close>

definition prepare_replay :: "'w exec_env \<Rightarrow> replay_gen \<Rightarrow> ('w, (rejection_reason \<times> string) + prepared_patch option) xeff" where
  "prepare_replay env g =
     (if val_get (rg_action g) ''type'' = VStr ''APPLY_PATCH''
      then
        xcatch (xbind (preparePatchAction env (rg_action g) (rg_role g)) (\<lambda>pt. xret (Inr (Some pt))))
          (\<lambda>e. case e of XPatch why m \<Rightarrow> xret (Inl (why, m)) | _ \<Rightarrow> xthrow e)
      else xret (Inr None))"

definition replay_one :: "'w exec_env \<Rightarrow> replay_gen \<Rightarrow> replay_acc \<Rightarrow> ('w, replay_acc) xeff" where
  "replay_one env g acc =
     (if terminal_rejected (rg_terminal g) then xret acc
      else
        xbind (prepare_replay env g) (\<lambda>prepared.
        case prepared of
          Inl x \<Rightarrow>
            if terminal_applied (rg_terminal g)
            then xthrow (XOther (intent_tag (rg_gen g) @ '' replay was rejected despite its ACTION_APPLIED: '' @ snd x))
            else xret (pend_rejection g x acc)
        | Inr pt \<Rightarrow>
            xbind (performApply env (rg_action g) (rg_role g) pt) (\<lambda>applied.
            case applied of
              Inl x \<Rightarrow>
                xbind (reconcileAfterFailure env (rg_snap g)) (\<lambda>_.
                if terminal_applied (rg_terminal g)
                then xthrow (XOther (intent_tag (rg_gen g) @ '' replay failed despite its ACTION_APPLIED: '' @ snd x))
                else xret (pend_rejection g x acc))
            | Inr ap \<Rightarrow>
                if (case rg_terminal g of
                      Some t \<Rightarrow> ev_type t = E_ACTION_APPLIED \<and> ap_hash ap \<noteq> str_of (pay t ''resultHash'')
                    | None \<Rightarrow> False)
                then xthrow (XOther (intent_tag (rg_gen g) @ '' replay artifact identity disagreed with ACTION_APPLIED''))
                else xret (count_replayed g ap acc))))"

fun replay_all :: "'w exec_env \<Rightarrow> replay_gen list \<Rightarrow> replay_acc \<Rightarrow> ('w, replay_acc) xeff" where
  "replay_all env [] acc = xret acc"
| "replay_all env (g # gs) acc = xbind (replay_one env g acc) (\<lambda>acc'. replay_all env gs acc')"

definition final_identity :: "'w exec_env \<Rightarrow> replay_acc \<Rightarrow> ('w, unit) xeff" where
  "final_identity env acc =
     (case ra_final acc of
        None \<Rightarrow> xret ()
      | Some h \<Rightarrow>
          xbind (xport (xe_capture env)) (\<lambda>current.
          if current \<noteq> h
          then xthrow (XOther ''replayed suffix final artifact identity disagreed with its accepted history'')
          else xret ()))"

definition append_pending :: "'w exec_env \<Rightarrow> pending_terminal \<Rightarrow> ('w, unit) xeff" where
  "append_pending env p =
     (case p of
        PendApplied g ap \<Rightarrow>
          xbind (appendCoreEvent env (xevent env E_ACTION_APPLIED
            (applied_payload (str_of (val_get (rg_action g) ''actionId'')) (ev_seq (gn_intent (rg_gen g)))
               [(''recovered'', VBool True)] ap))) (\<lambda>_. xret ())
      | PendRejected g why detail \<Rightarrow>
          xbind (reject env (str_of (val_get (rg_action g) ''actionId'')) why detail
            [(''intentSeq'', vint (int (ev_seq (gn_intent (rg_gen g)))))]) (\<lambda>_. xret ()))"

fun append_pendings :: "'w exec_env \<Rightarrow> pending_terminal list \<Rightarrow> ('w, unit) xeff" where
  "append_pendings env [] = xret ()"
| "append_pendings env (p # ps) = xbind (append_pending env p) (\<lambda>_. append_pendings env ps)"

definition invalidate_generation :: "'w exec_env \<Rightarrow> string \<Rightarrow> generation \<Rightarrow> ('w, unit) xeff" where
  "invalidate_generation env detail g =
     xbind
       (case find (\<lambda>t. ev_type t = E_ACTION_APPLIED) (gn_terminals g) of
          None \<Rightarrow> xret ()
        | Some applied \<Rightarrow>
            xbind (reject env (str_of (pay applied ''actionId'')) RCommandArtifactUnavailable
              (''recovery invalidated accepted suffix event '' @ nat_str (ev_seq applied) @ '': '' @ detail)
              [(''invalidatesAppliedSeq'', vint (int (ev_seq applied)))]) (\<lambda>_. xret ())) (\<lambda>_.
     if gn_terminals g = []
     then
       xbind (reject env (str_of (pay (gn_intent g) ''actionId'')) RCommandArtifactUnavailable
         (''recovery failed closed for '' @ intent_tag g @ '': '' @ detail)
         [(''intentSeq'', vint (int (ev_seq (gn_intent g))))]) (\<lambda>_. xret ())
     else xret ())"

fun invalidate_suffix :: "'w exec_env \<Rightarrow> string \<Rightarrow> generation list \<Rightarrow> ('w, unit) xeff" where
  "invalidate_suffix env detail [] = xret ()"
| "invalidate_suffix env detail (g # gs) =
     xbind (invalidate_generation env detail g) (\<lambda>_. invalidate_suffix env detail gs)"

definition replay_suffix ::
    "'w exec_env \<Rightarrow> generation list \<Rightarrow> xsnap \<Rightarrow> recovery_source \<Rightarrow> string option \<Rightarrow> ('w, recovery_report) xeff" where
  "replay_suffix env gs earliest src mismatch =
     xbind (check_generations env gs) (\<lambda>gens.
     xbind (reconcileAfterFailure env earliest) (\<lambda>_.
     xbind (replay_all env gens \<lparr>ra_pending = [], ra_replayed = 0, ra_rejected = 0, ra_final = None\<rparr>) (\<lambda>acc.
     xbind (final_identity env acc) (\<lambda>_.
     xbind (append_pendings env (ra_pending acc)) (\<lambda>_.
     xret \<lparr>rr_action = (if 0 < ra_replayed acc then RecReplayed else RecRolledBack),
           rr_detail = (case mismatch of None \<Rightarrow> [] | Some m \<Rightarrow> m @ ''; '') @ ''restored '' @ sn_ref earliest @
             '' and replayed '' @ nat_str (ra_replayed acc) @ '' accepted mutation(s); '' @
             nat_str (ra_rejected acc) @ '' dangling mutation(s) rejected'',
           rr_coherent = True, rr_source = src\<rparr>)))))"

definition fail_suffix :: "'w exec_env \<Rightarrow> generation list \<Rightarrow> xsnap \<Rightarrow> exec_error \<Rightarrow> ('w, recovery_report) xeff" where
  "fail_suffix env gs earliest e =
     xbind (reconcileAfterFailure env earliest) (\<lambda>_.
     xbind (invalidate_suffix env (error_message e) gs) (\<lambda>_.
     case e of
       XFrozen _ _ \<Rightarrow> xthrow e
     | _ \<Rightarrow> xret (failed_report RecRolledBack (''rolled back to '' @ sn_ref earliest @
              ''; suffix replay failed closed: '' @ error_message e))))"

definition recover_from :: "'w exec_env \<Rightarrow> generation list \<Rightarrow> nat \<times> recovery_source \<times> string option \<Rightarrow> ('w, recovery_report) xeff" where
  "recover_from env hist b =
     (case b of (i, src, mismatch) \<Rightarrow>
        (case drop i hist of
           [] \<Rightarrow> xthrow (XOther ''recovery history lost its dangling intent boundary'')
         | g # gs \<Rightarrow>
             xbind (xattempt (actionSnapshotFromPayload env (gn_intent g))) (\<lambda>snap.
             case snap of
               Inl e \<Rightarrow>
                 xret (failed_report RecNone
                   (''recovery failed closed before rollback; dangling suffix remains: '' @ error_message e))
             | Inr earliest \<Rightarrow>
                 xcatch (replay_suffix env (g # gs) earliest src mismatch) (fail_suffix env (g # gs) earliest))))"

text \<open>\<open>admission\<close>: the recovery that admits a mutating action, under that action's operation control.\<close>

definition recoverWorktree :: "'w exec_env \<Rightarrow> bool \<Rightarrow> ('w, recovery_report) xeff" where
  "recoverWorktree env admission =
     xbind xlog (\<lambda>d.
     let hist = mutatingIntentHistory env d in
     xbind (case find_index (\<lambda>g. gn_terminals g = []) hist of
              Some b \<Rightarrow> dangling_boundary env d hist b
            | None \<Rightarrow> identity_boundary env admission d hist) (\<lambda>boundary.
     case boundary of
       Inl report \<Rightarrow> xret report
     | Inr b \<Rightarrow> recover_from env hist b))"

section \<open>Executing an action\<close>

text \<open>A step that may end the handler: \<open>Inl\<close> is its result, \<open>Inr\<close> goes on.\<close>

definition xthen :: "('w, exec_result + 'a) xeff \<Rightarrow> ('a \<Rightarrow> ('w, exec_result) xeff) \<Rightarrow> ('w, exec_result) xeff" where
  "xthen m f = xbind m (\<lambda>r. case r of Inl res \<Rightarrow> xret res | Inr a \<Rightarrow> f a)"

definition refuse :: "'w exec_env \<Rightarrow> string \<Rightarrow> rejection_reason \<Rightarrow> string \<Rightarrow> ('w, exec_result + 'a) xeff" where
  "refuse env aid why detail = xbind (reject env aid why detail []) (\<lambda>r. xret (Inl r))"

definition admit_report :: "'w exec_env \<Rightarrow> string \<Rightarrow> recovery_report \<Rightarrow> ('w, exec_result + recovery_report option) xeff" where
  "admit_report env aid report =
     xbind xlog (\<lambda>d.
     let dangling = length (danglingMutatingIntents env d) in
     if \<not> rr_coherent report \<or> 0 < dangling
     then refuse env aid RCommandArtifactUnavailable
            (''mutating action refused after '' @ source_text (rr_source report) @ '' reconciliation: '' @
             rr_detail report @ ''; dangling='' @ nat_str dangling)
     else xret (Inr (Some report)))"

definition admit_error :: "'w exec_env \<Rightarrow> string \<Rightarrow> exec_error \<Rightarrow> ('w, exec_result + recovery_report option) xeff" where
  "admit_error env aid e =
     (case e of
        XFrozen _ _ \<Rightarrow> xthrow e
      | _ \<Rightarrow> refuse env aid RCommandArtifactUnavailable
               (''mutating action admission reconciliation failed: '' @ error_message e))"

definition admit :: "'w exec_env \<Rightarrow> js_val \<Rightarrow> string \<Rightarrow> ('w, exec_result + recovery_report option) xeff" where
  "admit env a aid =
     (if \<not> is_mutating a then xret (Inr None)
      else
        xbind (xattempt (recoverWorktree env True)) (\<lambda>res.
        case res of Inl e \<Rightarrow> admit_error env aid e | Inr report \<Rightarrow> admit_report env aid report))"

text \<open>An action id that is in force already is skipped, unless its artifact had to be restored.\<close>

definition skip_applied :: "'w exec_env \<Rightarrow> string \<Rightarrow> recovery_report option \<Rightarrow> ('w, exec_result + unit) xeff" where
  "skip_applied env aid report =
     (case report of
        Some r \<Rightarrow>
          if rr_source r = SrcMismatch
          then refuse env aid RCommandArtifactUnavailable
                 (''duplicate action refused because admission reconciled a stale ACTION_APPLIED artifact identity: '' @ rr_detail r)
          else
            xbind (appendCoreEvent env (xevent env E_ACTION_APPLIED
              [(''actionId'', VStr aid), (''duplicate'', VBool True)])) (\<lambda>_.
            xret (Inl (ResSkipped aid)))
      | None \<Rightarrow>
          xbind (appendCoreEvent env (xevent env E_ACTION_APPLIED
            [(''actionId'', VStr aid), (''duplicate'', VBool True)])) (\<lambda>_.
          xret (Inl (ResSkipped aid))))"

definition skip_duplicate :: "'w exec_env \<Rightarrow> string \<Rightarrow> recovery_report option \<Rightarrow> ('w, exec_result + unit) xeff" where
  "skip_duplicate env aid report =
     xbind xlog (\<lambda>d.
     case alreadyApplied env aid d of None \<Rightarrow> xret (Inr ()) | Some _ \<Rightarrow> skip_applied env aid report)"

definition gate_write :: "'w exec_env \<Rightarrow> js_val \<Rightarrow> string \<Rightarrow> role \<Rightarrow> ('w, exec_result + unit) xeff" where
  "gate_write env a aid r =
     (let path = str_of (val_get a ''path'') in
      case xe_write_policy env r (VStr path) of
        Denied why \<Rightarrow> refuse env aid why (''write to '' @ path @ '' denied for role '' @ role_text r)
      | Allowed \<Rightarrow>
          xbind (contained env path) (\<lambda>c.
          if c = None then refuse env aid RPathOutsideAllowlist (''path escapes worktree: '' @ path)
          else
            xbind (xattempt
              (xbind (xport (xe_get env (val_get a ''contentRef''))) (\<lambda>content.
               xport (xe_check_paths env (xe_roots env r) path content)))) (\<lambda>res.
            case res of
              Inr _ \<Rightarrow> xret (Inr ())
            | Inl e \<Rightarrow>
                (case e of
                   XFrozen _ _ \<Rightarrow> xthrow e
                 | XMutation m \<Rightarrow> refuse env aid RPathOutsideAllowlist m
                 | _ \<Rightarrow> refuse env aid REvidenceInvalid
                          (''write evidence is missing or invalid: '' @ error_message e)))))"

definition gate_read :: "'w exec_env \<Rightarrow> js_val \<Rightarrow> string \<Rightarrow> role \<Rightarrow> ('w, exec_result + unit) xeff" where
  "gate_read env a aid r =
     (let path = str_of (val_get a ''path'') in
      case xe_read_policy env r (VStr path) of
        Denied _ \<Rightarrow> refuse env aid RPathOutsideAllowlist (''read of '' @ path @ '' denied'')
      | Allowed \<Rightarrow> xret (Inr ()))"

definition gate_patch :: "'w exec_env \<Rightarrow> js_val \<Rightarrow> string \<Rightarrow> role \<Rightarrow> ('w, exec_result + prepared_patch) xeff" where
  "gate_patch env a aid r =
     xbind (xattempt (preparePatchAction env a r)) (\<lambda>res.
     case res of
       Inr pt \<Rightarrow> xret (Inr pt)
     | Inl e \<Rightarrow>
         (case e of
            XFrozen _ _ \<Rightarrow> xthrow e
          | XPatch why m \<Rightarrow> refuse env aid why m
          | _ \<Rightarrow> refuse env aid RPatchUnsupported (''patch inspection failed: '' @ error_message e)))"

definition gate_command :: "'w exec_env \<Rightarrow> js_val \<Rightarrow> string \<Rightarrow> role \<Rightarrow> ('w, exec_result + unit) xeff" where
  "gate_command env a aid r =
     (case xe_command_policy env r of
        Denied why \<Rightarrow>
          refuse env aid why (''RUN_COMMAND denied for role '' @ role_text r @
            ''; only implementer and diagnostician may run commands'')
      | Allowed \<Rightarrow>
          if val_get a ''network'' \<noteq> VStr ''none''
          then refuse env aid RNetworkGrantUnavailable ''Phase 0 rejects every network grant before command spawn''
          else if val_get a ''cwd'' = VUndef then xret (Inr ())
          else
            xbind (contained env (str_of (val_get a ''cwd''))) (\<lambda>c.
            if c = None
            then refuse env aid RPathOutsideAllowlist (''cwd escapes worktree: '' @ str_of (val_get a ''cwd''))
            else xret (Inr ())))"

definition run_tool :: "'w exec_env \<Rightarrow> js_val \<Rightarrow> string \<Rightarrow> role \<Rightarrow> ('w, exec_result) xeff" where
  "run_tool env a aid r =
     (let name = js_String (xe_number env) (val_get a ''name'') in
      case xe_tool env name of
        Some handler \<Rightarrow> xport (handler a r)
      | None \<Rightarrow> reject env aid RUnsupportedActionPhase0
                  (''no tool handlers enabled in this phase (requested: '' @ name @ '')'') [])"

text \<open>\<open>relative(root, path)\<close> of two absolute paths.\<close>

fun path_relative :: "string list \<Rightarrow> string list \<Rightarrow> string list" where
  "path_relative (x # xs) (y # ys) =
     (if x = y then path_relative xs ys else replicate (Suc (length xs)) ''..'' @ y # ys)"
| "path_relative xs ys = replicate (length xs) ''..'' @ ys"

definition relative_to :: "string \<Rightarrow> string \<Rightarrow> string" where
  "relative_to base path =
     join ''/'' (path_relative (resolve_segs False (split_on slash base)) (resolve_segs False (split_on slash path)))"

definition read_file :: "'w exec_env \<Rightarrow> js_val \<Rightarrow> string \<Rightarrow> ('w, exec_result) xeff" where
  "read_file env a aid =
     (let path = str_of (val_get a ''path'') in
      xbind (contained env path) (\<lambda>c.
      case c of
        None \<Rightarrow> reject env aid RPathOutsideAllowlist (''path escapes worktree: '' @ path) []
      | Some path_abs \<Rightarrow>
          xbind (xattempt (xport (xe_read env (relative_to (path_resolve (xe_worktree env) []) path_abs)))) (\<lambda>res.
          case res of
            Inl e \<Rightarrow>
              (case e of
                 XFrozen _ _ \<Rightarrow> xthrow e
               | _ \<Rightarrow>
                   if str_includes (error_message e) ''[Errno 2]''
                   then
                     xbind (xask (xe_list env)) (\<lambda>available.
                     reject env aid RSchemaViolation
                       (''file not found: '' @ path @ '' | available: '' @ join '', '' available) [])
                   else reject env aid RSchemaViolation (''read failed: '' @ error_message e) [])
          | Inr content \<Rightarrow>
              xbind (xport (xe_put env content)) (\<lambda>ref.
              xbind (appendCoreEvent env (xevent env E_ACTION_APPLIED
                [(''actionId'', VStr aid), (''resultHash'', VStr ref), (''outputRef'', VStr ref),
                 (''duplicate'', VBool False)])) (\<lambda>_.
              xret (ResApplied aid \<lparr>ap_hash = ref, ap_extra = [(''outputRef'', VStr ref)]\<rparr>))))))"

definition intent_payload :: "js_val \<Rightarrow> string \<Rightarrow> role \<Rightarrow> xsnap \<Rightarrow> payload" where
  "intent_payload a aid r snap =
     [(''actionId'', VStr aid), (''snapshotRef'', VStr (sn_ref snap)),
      (''persistentSnapshotRef'', VStr (sn_persistent snap)),
      (''artifactSnapshotRef'', (case sn_artifact snap of None \<Rightarrow> VUndef | Some ref \<Rightarrow> VStr ref)),
      (''action'', a), (''role'', VStr (role_text r))]"

text \<open>The \<open>catch\<close> of the mutating path. \<open>seq\<close> is the sequence number of the intent, once it is logged.\<close>

definition seq_field :: "nat option \<Rightarrow> payload" where
  "seq_field seq = (case seq of None \<Rightarrow> [] | Some n \<Rightarrow> [(''intentSeq'', vint (int n))])"

definition mutation_failed ::
    "'w exec_env \<Rightarrow> string \<Rightarrow> (nat \<times> xsnap) option \<Rightarrow> exec_error \<Rightarrow> ('w, exec_result) xeff" where
  "mutation_failed env aid logged e =
     (case e of
        XCrash _ \<Rightarrow> xthrow e
      | _ \<Rightarrow>
          xbind (case logged of None \<Rightarrow> xret () | Some (_, snap) \<Rightarrow> reconcileAfterFailure env snap) (\<lambda>_.
          let seq = seq_field (map_option fst logged) in
          case e of
            XFence m \<Rightarrow> reject env aid RCancelled m (seq @ [(''reasonCode'', VStr ''lease_lost'')])
          | XFrozen why m \<Rightarrow> reject env aid why m seq
          | XIdentity m \<Rightarrow> reject env aid RCommandArtifactUnavailable m seq
          | _ \<Rightarrow> xthrow e))"

text \<open>From the logged intent to its terminal event.\<close>

definition after_intent ::
    "'w exec_env \<Rightarrow> js_val \<Rightarrow> string \<Rightarrow> role \<Rightarrow> prepared_patch option \<Rightarrow> xsnap \<Rightarrow> nat \<Rightarrow> ('w, exec_result) xeff" where
  "after_intent env a aid r prepared snap n =
     (if xe_crash_after_intent env then xthrow (XCrash ''after_intent'')
      else
        xbind (performApply env a r prepared) (\<lambda>applied.
        case applied of
          Inl x \<Rightarrow>
            xbind (reconcileAfterFailure env snap) (\<lambda>_.
            reject env aid (fst x) (snd x) (seq_field (Some n)))
        | Inr ap \<Rightarrow>
            xbind (xport (xe_checkpoint env)) (\<lambda>_.
            if xe_crash_after_apply env then xthrow (XCrash ''after_apply'')
            else
              xbind (appendCoreEvent env (xevent env E_ACTION_APPLIED (applied_payload aid n [] ap))) (\<lambda>_.
              xret (ResApplied aid ap)))))"

definition mutate :: "'w exec_env \<Rightarrow> js_val \<Rightarrow> string \<Rightarrow> role \<Rightarrow> prepared_patch option \<Rightarrow> ('w, exec_result) xeff" where
  "mutate env a aid r prepared =
     xbind (xattempt
       (xbind (xport (xe_checkpoint env)) (\<lambda>_.
        xbind (xport (xe_snapshot env aid)) (\<lambda>snap.
        xbind (xport (xe_checkpoint env)) (\<lambda>_.
        xbind (appendCoreEvent env (xevent env E_ACTION_INTENT (intent_payload a aid r snap))) (\<lambda>intent.
        xret (snap, ev_seq intent))))))) (\<lambda>started.
     case started of
       Inl e \<Rightarrow> mutation_failed env aid None e
     | Inr (snap, n) \<Rightarrow>
         xcatch (after_intent env a aid r prepared snap n) (mutation_failed env aid (Some (n, snap))))"

definition executeValidAction :: "'w exec_env \<Rightarrow> js_val \<Rightarrow> string \<Rightarrow> role \<Rightarrow> ('w, exec_result) xeff" where
  "executeValidAction env a aid r =
     (let ty = val_get a ''type'' in
      xthen (admit env a aid) (\<lambda>report.
      xthen (skip_duplicate env aid report) (\<lambda>_.
      if ty = VStr ''WRITE_FILE'' then xthen (gate_write env a aid r) (\<lambda>_. mutate env a aid r None)
      else if ty = VStr ''READ_FILE'' then xthen (gate_read env a aid r) (\<lambda>_. read_file env a aid)
      else if ty = VStr ''APPLY_PATCH'' then xthen (gate_patch env a aid r) (\<lambda>pt. mutate env a aid r (Some pt))
      else if ty = VStr ''REQUEST_TOOL'' then run_tool env a aid r
      else xthen (gate_command env a aid r) (\<lambda>_. mutate env a aid r None))))"

definition executeOnce :: "'w exec_env \<Rightarrow> js_val \<Rightarrow> role \<Rightarrow> ('w, exec_result) xeff" where
  "executeOnce env a r =
     (let aid = (case val_get a ''actionId'' of VStr s \<Rightarrow> s | _ \<Rightarrow> ''(missing)'') in
      if \<not> is_record a then reject env aid RSchemaViolation ''action must be an object'' []
      else
        (case validate a of
           Some m \<Rightarrow> reject env aid RSchemaViolation m []
         | None \<Rightarrow>
             xcatch
               (xbind (if is_mutating a then xport (xe_checkpoint env) else xret ()) (\<lambda>_.
                executeValidAction env a aid r))
               (\<lambda>e. case e of
                      XFence m \<Rightarrow> reject env aid RCancelled m [(''reasonCode'', VStr ''lease_lost'')]
                    | XFrozen why m \<Rightarrow> reject env aid why m []
                    | _ \<Rightarrow> xthrow e)))"

text \<open>\<open>createExecutor\<close>: the policy it enforces denies frozen RED artifacts to implementers.\<close>

definition createExecutor :: "(string \<Rightarrow> 'r option) option \<Rightarrow> 'w exec_env \<Rightarrow> 'w exec_env" where
  "createExecutor red env = env\<lparr>xe_write_policy := executor_checkWrite red (xe_write_policy env)\<rparr>"

end
