(* ===== verification/ExecProtocol.thy ===== *)
theory ExecProtocol
  imports Executor
begin

text \<open>
  What the log of the executor shows, whatever the worktree, the agents and the crashes: mutating actions
  are bracketed by an intent and its one terminal event, never two at a time, and an action is in force
  at most once. The protocol is an automaton over the events of a task; its states are the open intent
  and the applications in force.
\<close>

section \<open>The protocol as an automaton\<close>

type_synonym prot = "(nat \<times> string) option \<times> (string \<times> nat) list"

definition closes :: "(nat \<times> string) option \<Rightarrow> event \<Rightarrow> bool" where
  "closes op e \<longleftrightarrow>
     (case op of None \<Rightarrow> False
      | Some (n, a) \<Rightarrow> pay e ''intentSeq'' = vint (int n) \<and> pay e ''actionId'' = VStr a)"

definition kills :: "event \<Rightarrow> string \<times> nat \<Rightarrow> bool" where
  "kills e x \<longleftrightarrow> pay e ''actionId'' = VStr (fst x) \<and> pay e ''invalidatesAppliedSeq'' = vint (int (snd x))"

fun pstep :: "prot \<Rightarrow> event \<Rightarrow> prot option" where
  "pstep (op, act) e =
     (if ev_type e = E_ACTION_INTENT then
        (case (op, pay e ''actionId'') of
           (None, VStr a) \<Rightarrow> if a \<in> fst ` set act then None else Some (Some (ev_seq e, a), act)
         | _ \<Rightarrow> None)
      else if ev_type e = E_ACTION_APPLIED \<and> is_num (pay e ''intentSeq'') then
        (if closes op e \<and> pay e ''duplicate'' = VBool False \<and> is_str (pay e ''resultHash'')
         then Some (None, (str_of (pay e ''actionId''), ev_seq e) # act) else None)
      else if ev_type e = E_ACTION_REJECTED \<and> is_num (pay e ''intentSeq'') then
        (if closes op e \<and> pay e ''invalidatesAppliedSeq'' = VUndef then Some (None, act) else None)
      else if ev_type e = E_ACTION_REJECTED then Some (op, filter (\<lambda>x. \<not> kills e x) act)
      else Some (op, act))"

fun prun :: "prot \<Rightarrow> event list \<Rightarrow> prot option" where
  "prun q [] = Some q"
| "prun q (e # es) = (case pstep q e of None \<Rightarrow> None | Some q' \<Rightarrow> prun q' es)"

lemma prun_append: "prun q (es @ fs) = (case prun q es of None \<Rightarrow> None | Some q' \<Rightarrow> prun q' fs)"
  by (induction q es rule: prun.induct) (auto split: option.split)

lemma prun_snoc: "prun q (es @ [e]) = (case prun q es of None \<Rightarrow> None | Some q' \<Rightarrow> pstep q' e)"
  by (simp add: prun_append split: option.split)

definition protocol :: "event list \<Rightarrow> prot option" where
  "protocol es = prun (None, []) es"

lemma protocol_prefix: "protocol (es @ fs) \<noteq> None \<Longrightarrow> protocol es \<noteq> None"
  by (auto simp: protocol_def prun_append split: option.splits)

section \<open>What acceptance means\<close>

definition in_order :: "event list \<Rightarrow> bool" where
  "in_order es \<longleftrightarrow> sorted_wrt (<) (map ev_seq es)"

lemma in_order_snoc: "in_order (es @ [e]) \<longleftrightarrow> in_order es \<and> (\<forall>x \<in> set es. ev_seq x < ev_seq e)"
  by (auto simp: in_order_def sorted_wrt_append)

lemma in_order_inj: "in_order es \<Longrightarrow> x \<in> set es \<Longrightarrow> y \<in> set es \<Longrightarrow> ev_seq x = ev_seq y \<Longrightarrow> x = y"
  by (induction es) (force simp: in_order_def)+

definition terms :: "event list \<Rightarrow> event \<Rightarrow> event list" where
  "terms es i = filter (is_terminal_of i) es"

lemma terms_snoc: "terms (es @ [e]) i = terms es i @ (if is_terminal_of i e then [e] else [])"
  by (simp add: terms_def)

lemma in_force_snoc:
  "in_force (es @ [e]) x \<longleftrightarrow> in_force es x \<and> \<not> invalidates x e"
  by (auto simp: in_force_def)

definition intent :: "event \<Rightarrow> bool" where
  "intent e \<longleftrightarrow> ev_type e = E_ACTION_INTENT"

text \<open>A mutation in force: an applied event that closed an intent, neither a duplicate nor invalidated.\<close>

definition mutation_in_force :: "event list \<Rightarrow> event \<Rightarrow> bool" where
  "mutation_in_force es e \<longleftrightarrow> in_force es e \<and> is_num (pay e ''intentSeq'')"

definition terms_ok :: "event list \<Rightarrow> (nat \<times> string) option \<Rightarrow> bool" where
  "terms_ok es op \<longleftrightarrow>
     (\<forall>i \<in> set es. intent i \<longrightarrow>
        length (terms es i) \<le> 1 \<and> (terms es i = [] \<longleftrightarrow> (\<exists>a. op = Some (ev_seq i, a))))"

definition open_ok :: "event list \<Rightarrow> prot \<Rightarrow> bool" where
  "open_ok es q \<longleftrightarrow>
     (\<forall>n a. fst q = Some (n, a) \<longrightarrow>
        (\<exists>i \<in> set es. intent i \<and> ev_seq i = n \<and> pay i ''actionId'' = VStr a) \<and> a \<notin> fst ` set (snd q))"

definition act_sound :: "event list \<Rightarrow> (string \<times> nat) list \<Rightarrow> bool" where
  "act_sound es act \<longleftrightarrow>
     (\<forall>x \<in> set act. \<exists>e \<in> set es. mutation_in_force es e \<and> ev_seq e = snd x \<and> pay e ''actionId'' = VStr (fst x)
        \<and> is_str (pay e ''resultHash''))"

definition act_complete :: "event list \<Rightarrow> (string \<times> nat) list \<Rightarrow> bool" where
  "act_complete es act \<longleftrightarrow>
     (\<forall>e \<in> set es. mutation_in_force es e \<longrightarrow> (\<exists>a. pay e ''actionId'' = VStr a \<and> (a, ev_seq e) \<in> set act))"

definition tracked :: "event list \<Rightarrow> prot \<Rightarrow> bool" where
  "tracked es q \<longleftrightarrow>
     terms_ok es (fst q) \<and> open_ok es q \<and> act_sound es (snd q) \<and> act_complete es (snd q) \<and> distinct (map fst (snd q))"

lemma is_num_vint: "v = vint k \<Longrightarrow> is_num v"
  by simp

lemma not_terminal_of_other: "\<not> is_num (pay e ''intentSeq'') \<Longrightarrow> \<not> is_terminal_of i e"
  by (auto simp: is_terminal_of_def strict_eq_num)

lemma not_terminal_by_type: "ev_type e \<noteq> E_ACTION_APPLIED \<Longrightarrow> ev_type e \<noteq> E_ACTION_REJECTED \<Longrightarrow> \<not> is_terminal_of i e"
  by (simp add: is_terminal_of_def)

text \<open>The terminal event of an open intent.\<close>

lemma tracked_terminal:
  assumes "tracked es (Some (n, a), act)" "in_order (es @ [e])" "closes (Some (n, a)) e"
    "ev_type e = E_ACTION_APPLIED \<or> ev_type e = E_ACTION_REJECTED" "i \<in> set es" "intent i"
  shows "is_terminal_of i e \<longleftrightarrow> ev_seq i = n"
proof
  assume "is_terminal_of i e"
  then show "ev_seq i = n" using assms(3) by (auto simp: is_terminal_of_def closes_def strict_eq_num)
next
  assume n: "ev_seq i = n"
  obtain j where j: "j \<in> set es" "intent j" "ev_seq j = n" "pay j ''actionId'' = VStr a"
    using assms(1) unfolding tracked_def open_ok_def by auto
  have "i = j" using assms(2,5) j n by (auto simp: in_order_snoc intro: in_order_inj)
  then show "is_terminal_of i e"
    using j assms(2-5) by (auto simp: is_terminal_of_def closes_def in_order_snoc strict_eq_str strict_eq_num)
qed

lemma terms_self: "in_order (es @ [e]) \<Longrightarrow> intent e \<Longrightarrow> terms (es @ [e]) e = []"
  by (auto simp: terms_def is_terminal_of_def in_order_snoc intent_def filter_empty_conv)

subsection \<open>One event\<close>

text \<open>An event that is neither an intent nor a terminal leaves the brackets as they are.\<close>

lemma terms_ok_neutral:
  assumes "terms_ok es op" "\<not> intent e" "\<And>i. \<not> is_terminal_of i e"
  shows "terms_ok (es @ [e]) op"
  using assms by (auto simp: terms_ok_def terms_snoc)

lemma open_ok_snoc:
  assumes "open_ok es (op, act)" "set act' \<subseteq> set act"
  shows "open_ok (es @ [e]) (op, act')"
  unfolding open_ok_def fst_conv snd_conv
proof (intro allI impI conjI)
  fix n a
  assume "op = Some (n, a)"
  then have *: "\<exists>i\<in>set es. intent i \<and> ev_seq i = n \<and> pay i ''actionId'' = VStr a" "a \<notin> fst ` set act"
    using assms(1) by (auto simp: open_ok_def)
  show "\<exists>i\<in>set (es @ [e]). intent i \<and> ev_seq i = n \<and> pay i ''actionId'' = VStr a" using *(1) by auto
  show "a \<notin> fst ` set act'" using *(2) assms(2) by blast
qed

text \<open>An event that invalidates nothing keeps the mutations in force.\<close>

lemma force_keep: "\<not> invalidates x e \<Longrightarrow> mutation_in_force (es @ [e]) x \<longleftrightarrow> mutation_in_force es x"
  by (simp add: mutation_in_force_def in_force_snoc)

lemma act_sound_keep: "act_sound es act \<Longrightarrow> (\<And>x. \<not> invalidates x e) \<Longrightarrow> act_sound (es @ [e]) act"
  by (fastforce simp: act_sound_def force_keep)

lemma act_complete_keep:
  assumes "act_complete es act" "\<And>x. \<not> invalidates x e" "\<not> mutation_in_force (es @ [e]) e"
  shows "act_complete (es @ [e]) act"
  using assms by (auto simp: act_complete_def force_keep)

lemma invalidates_by_type: "ev_type e \<noteq> E_ACTION_REJECTED \<Longrightarrow> \<not> invalidates x e"
  by (simp add: invalidates_def)

lemma step_intent:
  assumes tr: "tracked es (None, act)" and ord: "in_order (es @ [e])" and e: "ev_type e = E_ACTION_INTENT"
    and a: "pay e ''actionId'' = VStr a" "a \<notin> fst ` set act"
  shows "tracked (es @ [e]) (Some (ev_seq e, a), act)"
proof -
  have nt: "\<not> is_terminal_of i e" for i using e by (simp add: is_terminal_of_def)
  have i: "intent e" using e by (simp add: intent_def)
  have "terms_ok (es @ [e]) (Some (ev_seq e, a))"
    using tr ord terms_self [OF ord i] unfolding tracked_def terms_ok_def
    by (auto simp: terms_snoc nt in_order_snoc)
  moreover have "open_ok (es @ [e]) (Some (ev_seq e, a), act)" using a i by (auto simp: open_ok_def)
  moreover have "\<not> mutation_in_force (es @ [e]) e" using e by (simp add: mutation_in_force_def in_force_def)
  ultimately show ?thesis
    using tr e by (auto simp: tracked_def intro!: act_sound_keep act_complete_keep invalidates_by_type)
qed

lemma terms_ok_close:
  assumes tr: "tracked es (Some (n, a), act)" and ord: "in_order (es @ [e])" and c: "closes (Some (n, a)) e"
    and ty: "ev_type e = E_ACTION_APPLIED \<or> ev_type e = E_ACTION_REJECTED"
  shows "terms_ok (es @ [e]) None"
  unfolding terms_ok_def
proof (intro ballI impI)
  fix i
  assume i: "i \<in> set (es @ [e])" "intent i"
  then have i': "i \<in> set es" using ty by (auto simp: intent_def)
  have "length (terms es i) \<le> 1" "terms es i = [] \<longleftrightarrow> ev_seq i = n"
    using tr i' i(2) unfolding tracked_def terms_ok_def by auto
  then show "length (terms (es @ [e]) i) \<le> 1 \<and> (terms (es @ [e]) i = [] \<longleftrightarrow> (\<exists>a. None = Some (ev_seq i, a)))"
    using tracked_terminal [OF tr ord c ty i' i(2)] by (auto simp: terms_snoc)
qed

lemma step_applied:
  assumes tr: "tracked es (Some (n, a), act)" and ord: "in_order (es @ [e])" and c: "closes (Some (n, a)) e"
    and e: "ev_type e = E_ACTION_APPLIED" "pay e ''duplicate'' = VBool False" "is_str (pay e ''resultHash'')"
  shows "tracked (es @ [e]) (None, (a, ev_seq e) # act)"
proof -
  have ni: "\<And>x. \<not> invalidates x e" using e by (simp add: invalidates_def)
  have aid: "pay e ''actionId'' = VStr a" "is_num (pay e ''intentSeq'')" using c by (auto simp: closes_def)
  have none: "\<not> list_ex (invalidates e) (es @ [e])"
    using ord by (auto simp: list_ex_iff invalidates_def in_order_snoc)
  have self: "mutation_in_force (es @ [e]) e"
    using e aid none by (simp add: mutation_in_force_def in_force_def)
  have parts: "act_sound es act" "act_complete es act" "distinct (map fst act)" "a \<notin> fst ` set act"
    using tr by (auto simp: tracked_def open_ok_def)
  have "act_sound (es @ [e]) ((a, ev_seq e) # act)"
    using act_sound_keep [OF parts(1) ni] self aid e(3) by (auto simp: act_sound_def)
  moreover have "act_complete (es @ [e]) ((a, ev_seq e) # act)"
    using parts(2) aid by (auto simp: act_complete_def force_keep [OF ni])
  moreover have "terms_ok (es @ [e]) None" using terms_ok_close [OF tr ord c] e by simp
  ultimately show ?thesis using parts by (auto simp: tracked_def open_ok_def)
qed

lemma step_rejected:
  assumes tr: "tracked es (Some (n, a), act)" and ord: "in_order (es @ [e])" and c: "closes (Some (n, a)) e"
    and e: "ev_type e = E_ACTION_REJECTED" "pay e ''invalidatesAppliedSeq'' = VUndef"
  shows "tracked (es @ [e]) (None, act)"
proof -
  have ni: "\<And>x. \<not> invalidates x e" using e by (simp add: invalidates_def)
  have "\<not> mutation_in_force (es @ [e]) e" using e by (simp add: mutation_in_force_def in_force_def)
  then show ?thesis
    using tr ni terms_ok_close [OF tr ord c]
    by (auto simp: tracked_def open_ok_def e intro!: act_sound_keep act_complete_keep)
qed

lemma step_neutral:
  assumes tr: "tracked es (op, act)"
    and e: "ev_type e \<noteq> E_ACTION_INTENT" "ev_type e \<noteq> E_ACTION_REJECTED"
      "ev_type e = E_ACTION_APPLIED \<Longrightarrow> \<not> is_num (pay e ''intentSeq'')"
  shows "tracked (es @ [e]) (op, act)"
proof -
  have ni: "\<And>x. \<not> invalidates x e" using e by (simp add: invalidates_def)
  have nt: "\<And>i. \<not> is_terminal_of i e"
    using e not_terminal_of_other not_terminal_by_type by blast
  have "\<not> mutation_in_force (es @ [e]) e" using e by (auto simp: mutation_in_force_def in_force_def)
  then show ?thesis
    using tr ni nt e
    by (auto simp: tracked_def intent_def intro!: terms_ok_neutral act_sound_keep act_complete_keep open_ok_snoc)
qed

lemma step_invalidation:
  assumes tr: "tracked es (op, act)" and ord: "in_order (es @ [e])"
    and e: "ev_type e = E_ACTION_REJECTED" "\<not> is_num (pay e ''intentSeq'')"
  shows "tracked (es @ [e]) (op, filter (\<lambda>x. \<not> kills e x) act)"
proof -
  let ?act = "filter (\<lambda>x. \<not> kills e x) act"
  have parts: "terms_ok es op" "open_ok es (op, act)" "act_sound es act" "act_complete es act" "distinct (map fst act)"
    using tr by (simp_all add: tracked_def)
  have kill: "invalidates x e \<longleftrightarrow> kills e (a, ev_seq x)" if "x \<in> set es" "pay x ''actionId'' = VStr a" for x a
    using that e ord by (auto simp: invalidates_def kills_def in_order_snoc strict_eq_str strict_eq_num)
  have "act_sound (es @ [e]) ?act"
    unfolding act_sound_def
  proof
    fix x
    assume x: "x \<in> set ?act"
    then obtain y where y: "y \<in> set es" "mutation_in_force es y" "ev_seq y = snd x" "pay y ''actionId'' = VStr (fst x)"
        "is_str (pay y ''resultHash'')"
      using parts(3) by (auto simp: act_sound_def)
    then have "\<not> invalidates y e" using kill [OF y(1,4)] x by simp
    then show "\<exists>e'\<in>set (es @ [e]). mutation_in_force (es @ [e]) e' \<and> ev_seq e' = snd x \<and> pay e' ''actionId'' = VStr (fst x)
        \<and> is_str (pay e' ''resultHash'')"
      using y force_keep [of y e es] by auto
  qed
  moreover have "act_complete (es @ [e]) ?act"
    unfolding act_complete_def
  proof (intro ballI impI)
    fix x
    assume x: "x \<in> set (es @ [e])" "mutation_in_force (es @ [e]) x"
    then have x': "x \<in> set es" using e by (auto simp: mutation_in_force_def in_force_def)
    have f: "mutation_in_force es x" "\<not> invalidates x e"
      using x(2) by (auto simp: mutation_in_force_def in_force_snoc)
    then obtain a where a: "pay x ''actionId'' = VStr a" "(a, ev_seq x) \<in> set act"
      using parts(4) x' by (auto simp: act_complete_def)
    then show "\<exists>a. pay x ''actionId'' = VStr a \<and> (a, ev_seq x) \<in> set ?act"
      using kill [OF x' a(1)] f by auto
  qed
  moreover have "terms_ok (es @ [e]) op"
    using parts(1) e not_terminal_of_other by (intro terms_ok_neutral) (auto simp: intent_def)
  moreover have "open_ok (es @ [e]) (op, ?act)" using parts(2) by (rule open_ok_snoc) auto
  ultimately show ?thesis using parts(5) by (simp add: tracked_def distinct_map_filter)
qed

lemma tracked_step:
  assumes "tracked es q" "in_order (es @ [e])" "pstep q e = Some q'"
  shows "tracked (es @ [e]) q'"
proof -
  obtain op act where q: "q = (op, act)" by fastforce
  consider "ev_type e = E_ACTION_INTENT"
    | "ev_type e = E_ACTION_APPLIED" "is_num (pay e ''intentSeq'')"
    | "ev_type e = E_ACTION_REJECTED" "is_num (pay e ''intentSeq'')"
    | "ev_type e = E_ACTION_REJECTED" "\<not> is_num (pay e ''intentSeq'')"
    | "ev_type e \<noteq> E_ACTION_INTENT" "ev_type e \<noteq> E_ACTION_REJECTED"
        "ev_type e = E_ACTION_APPLIED \<Longrightarrow> \<not> is_num (pay e ''intentSeq'')"
    by blast
  then show ?thesis
  proof cases
    case 1
    then show ?thesis using assms q
      by (auto split: option.splits js_val.splits if_splits intro: step_intent)
  next
    case 2
    then obtain n a where "op = Some (n, a)" "closes op e" "pay e ''duplicate'' = VBool False"
        "is_str (pay e ''resultHash'')" "q' = (None, (str_of (pay e ''actionId''), ev_seq e) # act)"
      using assms(3) q by (auto split: if_splits option.splits simp: closes_def)
    then show ?thesis using assms(1,2) q 2 step_applied [of es n a act e] by (auto simp: closes_def)
  next
    case 3
    then obtain n a where "op = Some (n, a)" "closes op e" "pay e ''invalidatesAppliedSeq'' = VUndef" "q' = (None, act)"
      using assms(3) q by (auto split: if_splits option.splits simp: closes_def)
    then show ?thesis using assms(1,2) q 3 step_rejected [of es n a act e] by auto
  next
    case 4
    then show ?thesis using assms q by (auto intro: step_invalidation)
  next
    case 5
    then show ?thesis using assms q by (auto intro: step_neutral split: if_splits)
  qed
qed

lemma tracked_empty: "tracked [] (None, [])"
  by (simp add: tracked_def terms_ok_def open_ok_def act_sound_def act_complete_def)

theorem protocol_tracked: "protocol es = Some q \<Longrightarrow> in_order es \<Longrightarrow> tracked es q"
proof (induction es arbitrary: q rule: rev_induct)
  case Nil
  then show ?case using tracked_empty by (auto simp: protocol_def)
next
  case (snoc e es)
  then show ?case
    by (auto simp: protocol_def prun_snoc in_order_snoc split: option.splits intro!: tracked_step [of es _ e q])
qed

section \<open>The events of a task in the log\<close>

lemma all_events_filter:
  assumes "log_inv d"
  shows "all_events tid ty d =
    [e \<leftarrow> db_events d. (case tid of None \<Rightarrow> True | Some t \<Rightarrow> ev_task e = Some t) \<and>
                     (case ty of None \<Rightarrow> True | Some y \<Rightarrow> ev_type e = y)]"
proof -
  have "sorted (map ev_seq (db_events d))" using assms by (simp add: log_inv_def del: upt_Suc)
  then show ?thesis unfolding all_events_def by (intro sort_key_id_if_sorted sorted_filter)
qed

lemma my_events_filter:
  "log_inv d \<Longrightarrow> my_events env d = [e \<leftarrow> db_events d. ev_task e = Some (xe_task env) \<and> ev_run e = xe_run env]"
  by (auto simp: my_events_def all_events_filter intro: filter_cong)

lemma my_events_order: "log_inv d \<Longrightarrow> in_order (my_events env d)"
proof -
  assume d: "log_inv d"
  then have "sorted_wrt (<) (map ev_seq (db_events d))" by (simp add: log_inv_def del: upt_Suc)
  then have "sorted_wrt (\<lambda>x y. ev_seq x < ev_seq y) (db_events d)" by (simp add: sorted_wrt_map)
  then show ?thesis by (simp add: my_events_filter [OF d] in_order_def sorted_wrt_map sorted_wrt_filter)
qed

lemma my_events_insert:
  assumes "log_inv d"
  shows "my_events env (snd (insertEvent ts e d)) =
    my_events env d @ (if ne_task e = Some (xe_task env) \<and> ne_run e = xe_run env then [fst (insertEvent ts e d)] else [])"
  using assms log_inv_insert [OF assms, of ts e]
  by (simp add: my_events_filter insertEvent_def Let_def)

section \<open>Rules\<close>

text \<open>\<open>xok P m Q E\<close>: from a state satisfying \<open>P\<close>, \<open>m\<close> ends in \<open>Q\<close> when it returns and in \<open>E\<close> when it throws.\<close>

definition xok ::
    "('w xstate \<Rightarrow> bool) \<Rightarrow> ('w, 'a) xeff \<Rightarrow> ('a \<Rightarrow> 'w xstate \<Rightarrow> bool) \<Rightarrow> ('w xstate \<Rightarrow> bool) \<Rightarrow> bool" where
  "xok P m Q E \<longleftrightarrow> (\<forall>s. P s \<longrightarrow> (case m s of (Inl _, s') \<Rightarrow> E s' | (Inr a, s') \<Rightarrow> Q a s'))"

lemma xokI:
  assumes "\<And>s a s'. P s \<Longrightarrow> m s = (Inr a, s') \<Longrightarrow> Q a s'" "\<And>s e s'. P s \<Longrightarrow> m s = (Inl e, s') \<Longrightarrow> E s'"
  shows "xok P m Q E"
  unfolding xok_def
proof (intro allI impI)
  fix s
  assume "P s"
  then show "case m s of (Inl _, s') \<Rightarrow> E s' | (Inr a, s') \<Rightarrow> Q a s'"
    using assms by (cases "m s"; cases "fst (m s)") auto
qed

lemma xokD: "xok P m Q E \<Longrightarrow> P s \<Longrightarrow> m s = (Inr a, s') \<Longrightarrow> Q a s'"
  by (fastforce simp: xok_def)

lemma xokE: "xok P m Q E \<Longrightarrow> P s \<Longrightarrow> m s = (Inl e, s') \<Longrightarrow> E s'"
  by (fastforce simp: xok_def)

lemma xok_bind: "xok P m R E \<Longrightarrow> (\<And>a. xok (R a) (f a) Q E) \<Longrightarrow> xok P (xbind m f) Q E"
  unfolding xok_def xbind_def by (fastforce split: prod.splits sum.splits)

lemma xok_ret: "(\<And>s. P s \<Longrightarrow> Q a s) \<Longrightarrow> xok P (xret a) Q E"
  by (simp add: xok_def xret_def)

lemma xok_throw: "(\<And>s. P s \<Longrightarrow> E s) \<Longrightarrow> xok P (xthrow e) Q E"
  by (simp add: xok_def xthrow_def)

lemma xok_catch: "xok P m Q E' \<Longrightarrow> (\<And>e. xok E' (h e) Q E) \<Longrightarrow> xok P (xcatch m h) Q E"
  unfolding xok_def xcatch_def by (fastforce split: prod.splits sum.splits)

lemma xok_attempt:
  assumes "xok P m R E'" "\<And>a s. R a s \<Longrightarrow> Q (Inr a) s" "\<And>e s. E' s \<Longrightarrow> Q (Inl e) s"
  shows "xok P (xattempt m) Q E"
proof (rule xokI)
  fix s a s'
  assume "P s" "xattempt m s = (Inr a, s')"
  then show "Q a s'"
    using assms(2,3) xokD [OF assms(1)] xokE [OF assms(1)]
    by (cases a) (auto simp: xattempt_def split: prod.splits)
qed (simp add: xattempt_def split: prod.splits)

lemma xok_weaken:
  assumes "xok P' m Q' E'" "\<And>s. P s \<Longrightarrow> P' s" "\<And>a s. Q' a s \<Longrightarrow> Q a s" "\<And>s. E' s \<Longrightarrow> E s"
  shows "xok P m Q E"
  by (rule xokI) (blast intro: assms(2-4) xokD [OF assms(1)] xokE [OF assms(1)])+

lemma xok_fact: "(A \<Longrightarrow> xok P m Q E) \<Longrightarrow> xok (\<lambda>s. A \<and> P s) m Q E"
  by (auto simp: xok_def)

lemma xok_ex: "(\<And>x. xok (P x) m Q E) \<Longrightarrow> xok (\<lambda>s. \<exists>x. P x s) m Q E"
  by (rule xokI) (blast dest: xokD xokE)+

lemma xok_if: "(c \<Longrightarrow> xok P m Q E) \<Longrightarrow> (\<not> c \<Longrightarrow> xok P n Q E) \<Longrightarrow> xok P (if c then m else n) Q E"
  by simp

text \<open>A predicate of the database only, and the computations that leave the database alone.\<close>

definition on_db :: "(db \<Rightarrow> bool) \<Rightarrow> 'w xstate \<Rightarrow> bool" where
  "on_db P s \<longleftrightarrow> P (xs_db s)"

definition still :: "('w, 'a) xeff \<Rightarrow> bool" where
  "still m \<longleftrightarrow> (\<forall>s. xs_db (snd (m s)) = xs_db s)"

named_theorems still_rules "computations that do not write the log"

lemma xok_still: "still m \<Longrightarrow> xok (on_db P) m (\<lambda>_. on_db P) (on_db P)"
  unfolding still_def xok_def on_db_def by (auto split: prod.splits sum.splits) (metis snd_conv)+

lemma still_ret [still_rules]: "still (xret a)" by (simp add: still_def xret_def)
lemma still_throw [still_rules]: "still (xthrow e)" by (simp add: still_def xthrow_def)
lemma still_port [still_rules]: "still (xport f)" by (simp add: still_def xport_def split: prod.split)
lemma still_log [still_rules]: "still xlog" by (simp add: still_def xlog_def)
lemma still_ask [still_rules]: "still (xask f)" unfolding xask_def by (rule still_port)
lemma still_lift [still_rules]: "still (lift_result r)" by (simp add: still_def lift_result_def)

lemma still_contained [still_rules]: "still (contained env p)"
  by (simp add: still_def contained_def split: sum.split)

lemma still_bind [still_rules]: "still m \<Longrightarrow> (\<And>a. still (f a)) \<Longrightarrow> still (xbind m f)"
  by (auto simp: still_def xbind_def split: prod.split sum.split) (metis snd_conv)+

lemma still_catch [still_rules]: "still m \<Longrightarrow> (\<And>e. still (h e)) \<Longrightarrow> still (xcatch m h)"
  by (auto simp: still_def xcatch_def split: prod.split sum.split) (metis snd_conv)+

lemma still_attempt [still_rules]: "still m \<Longrightarrow> still (xattempt m)"
  by (auto simp: still_def xattempt_def split: prod.split) (metis snd_conv)

lemma still_if [still_rules]: "still m \<Longrightarrow> still n \<Longrightarrow> still (if c then m else n)"
  by simp

lemma still_snapshot [still_rules]: "still (actionSnapshotFromPayload env e)"
  unfolding actionSnapshotFromPayload_def Let_def by (intro still_rules)

lemma still_reconcile [still_rules]: "still (reconcileAfterFailure env snap)"
  unfolding reconcileAfterFailure_def by (intro still_rules) (auto intro!: still_rules split: exec_error.split)

lemma still_denials [still_rules]: "still (patch_denials env r ps)"
  by (induction ps) (auto simp: patch_denial_def intro!: still_rules split: option.split policy_decision.split)

lemma still_prepare [still_rules]: "still (preparePatchAction env a r)"
  unfolding preparePatchAction_def patchPolicyRejection_def Let_def
  by (auto intro!: still_rules split: exec_error.split option.split)

lemma still_apply [still_rules]: "still (performApply env a r pt)"
  unfolding performApply_def performWrite_def performPatch_def performCommand_def Let_def
  by (auto intro!: still_rules split: exec_error.split option.split command_result.split)

lemma still_load [still_rules]: "still (load_evidence env snap a)"
  unfolding load_evidence_def by (auto intro!: still_rules split: option.split)

lemma still_check [still_rules]: "still (check_generation env g)"
  unfolding check_generation_def Let_def by (auto intro!: still_rules split: option.split)

lemma still_checks [still_rules]: "still (check_generations env gs)"
  by (induction gs) (auto intro!: still_rules)

lemma still_replay_one [still_rules]: "still (replay_one env g acc)"
  unfolding replay_one_def prepare_replay_def
  by (auto intro!: still_rules split: exec_error.split option.split sum.split)

lemma still_replay [still_rules]: "still (replay_all env gs acc)"
  by (induction gs arbitrary: acc) (auto intro!: still_rules)

lemma still_final [still_rules]: "still (final_identity env acc)"
  unfolding final_identity_def by (auto intro!: still_rules split: option.split)

section \<open>Appending an event\<close>

definition St :: "'w exec_env \<Rightarrow> prot \<Rightarrow> db \<Rightarrow> bool" where
  "St env q d \<longleftrightarrow> log_inv d \<and> protocol (my_events env d) = Some q"

definition Ok :: "'w exec_env \<Rightarrow> db \<Rightarrow> bool" where
  "Ok env d \<longleftrightarrow> (\<exists>q. St env q d)"

lemma St_Ok: "St env q d \<Longrightarrow> Ok env d"
  unfolding Ok_def by blast

definition wrote :: "'w exec_env \<Rightarrow> event_type \<Rightarrow> payload \<Rightarrow> event \<Rightarrow> db \<Rightarrow> bool" where
  "wrote env ty pl row d \<longleftrightarrow>
     my_events env d \<noteq> [] \<and> last (my_events env d) = row \<and> ev_type row = ty \<and> ev_payload row = pl"

lemma insert_mine:
  assumes "St env q d" "pstep q (fst (insertEvent ts (xevent env ty pl) d)) = Some q'"
  shows "St env q' (snd (insertEvent ts (xevent env ty pl) d)) \<and>
    wrote env ty pl (fst (insertEvent ts (xevent env ty pl) d)) (snd (insertEvent ts (xevent env ty pl) d))"
  using assms log_inv_insert [of d ts "xevent env ty pl"]
  by (auto simp: St_def my_events_insert protocol_def prun_snoc wrote_def) (simp_all add: xevent_def)

lemma row_pay [simp]:
  "pay (fst (insertEvent ts (xevent env ty pl) d)) k = fields_get pl k"
  by (simp add: pay_def xevent_def)

lemma row_type [simp]: "ev_type (fst (insertEvent ts (xevent env ty pl) d)) = ty"
  by (simp add: xevent_def)

lemma log_append_rule:
  assumes "\<And>row. ev_type row = ty \<Longrightarrow> ev_payload row = pl \<Longrightarrow> pstep q row = Some (q' row)"
  shows "xok (on_db (St env q)) (log_append env (xevent env ty pl))
           (\<lambda>row. on_db (\<lambda>d. St env (q' row) d \<and> wrote env ty pl row d)) E"
proof (rule xokI)
  fix s row s'
  assume s: "on_db (St env q) s" and run: "log_append env (xevent env ty pl) s = (Inr row, s')"
  obtain ts w where "xe_now env (xs_world s) = (ts, w)" by fastforce
  then have ts: "row = fst (insertEvent ts (xevent env ty pl) (xs_db s))"
    "xs_db s' = snd (insertEvent ts (xevent env ty pl) (xs_db s))"
    using run by (auto simp: log_append_def xbind_def xask_def xport_def append_def split: prod.splits)
  have "pstep q (fst (insertEvent ts (xevent env ty pl) (xs_db s))) = Some (q' row)"
    unfolding ts(1) by (rule assms) (simp_all add: xevent_def)
  from insert_mine [OF _ this] s show "on_db (\<lambda>d. St env (q' row) d \<and> wrote env ty pl row d) s'"
    by (simp add: on_db_def ts)
next
  fix s e s'
  assume "log_append env (xevent env ty pl) s = (Inl e, s')"
  then show "E s'" by (auto simp: log_append_def xbind_def xask_def xport_def split: prod.splits)
qed

lemma fenced_result:
  "appendFenced now ts e c d = (None, d) \<or>
   appendFenced now ts e c d = (Some (fst (insertEvent ts e d)), snd (insertEvent ts e d))"
  by (rule appendFenced_cases [of now ts e c d]) simp_all

lemma appendCoreEvent_rule:
  assumes step: "\<And>row. ev_type row = ty \<Longrightarrow> ev_payload row = pl \<Longrightarrow> pstep q row = Some (q' row)"
  shows "xok (on_db (St env q)) (appendCoreEvent env (xevent env ty pl))
           (\<lambda>row. on_db (\<lambda>d. St env (q' row) d \<and> wrote env ty pl row d)) (on_db (St env q))"
proof (cases "xe_fence env")
  case None
  have "appendCoreEvent env (xevent env ty pl) = log_append env (xevent env ty pl)"
    unfolding appendCoreEvent_def None option.case by (rule refl)
  then show ?thesis by (simp only:) (rule log_append_rule, rule step)
next
  case (Some fence)
  have tail: "xok (on_db (St env q))
      (\<lambda>s. case appendFenced now ts (xevent env ty pl) claim (xs_db s) of
         (None, d) \<Rightarrow> (Inl (XFence lease_lost_message), s\<lparr>xs_db := d\<rparr>)
       | (Some row, d) \<Rightarrow> (Inr row, s\<lparr>xs_db := d\<rparr>))
      (\<lambda>row. on_db (\<lambda>d. St env (q' row) d \<and> wrote env ty pl row d)) (on_db (St env q))" for now ts claim
  proof (rule xokI)
    fix s row s'
    assume s: "on_db (St env q) s"
      and run: "(case appendFenced now ts (xevent env ty pl) claim (xs_db s) of
         (None, d) \<Rightarrow> (Inl (XFence lease_lost_message), s\<lparr>xs_db := d\<rparr>)
       | (Some row, d) \<Rightarrow> (Inr row, s\<lparr>xs_db := d\<rparr>)) = (Inr row, s')"
    have "row = fst (insertEvent ts (xevent env ty pl) (xs_db s)) \<and>
      xs_db s' = snd (insertEvent ts (xevent env ty pl) (xs_db s))"
      using fenced_result [of now ts "xevent env ty pl" claim "xs_db s"]
    proof
      assume "appendFenced now ts (xevent env ty pl) claim (xs_db s) = (None, xs_db s)"
      then show ?thesis using run by simp
    next
      assume "appendFenced now ts (xevent env ty pl) claim (xs_db s) =
        (Some (fst (insertEvent ts (xevent env ty pl) (xs_db s))), snd (insertEvent ts (xevent env ty pl) (xs_db s)))"
      then show ?thesis using run by auto
    qed
    note ts = this [THEN conjunct1] this [THEN conjunct2]
    have "pstep q (fst (insertEvent ts (xevent env ty pl) (xs_db s))) = Some (q' row)"
      unfolding ts(1) by (rule step) (simp_all add: xevent_def)
    from insert_mine [OF _ this] s show "on_db (\<lambda>d. St env (q' row) d \<and> wrote env ty pl row d) s'"
      by (simp add: on_db_def ts)
  next
    fix s e s'
    assume s: "on_db (St env q) s"
      and run: "(case appendFenced now ts (xevent env ty pl) claim (xs_db s) of
         (None, d) \<Rightarrow> (Inl (XFence lease_lost_message), s\<lparr>xs_db := d\<rparr>)
       | (Some row, d) \<Rightarrow> (Inr row, s\<lparr>xs_db := d\<rparr>)) = (Inl e, s')"
    have "xs_db s' = xs_db s"
      using fenced_result [of now ts "xevent env ty pl" claim "xs_db s"]
    proof
      assume "appendFenced now ts (xevent env ty pl) claim (xs_db s) = (None, xs_db s)"
      then show ?thesis using run by auto
    next
      assume "appendFenced now ts (xevent env ty pl) claim (xs_db s) =
        (Some (fst (insertEvent ts (xevent env ty pl) (xs_db s))), snd (insertEvent ts (xevent env ty pl) (xs_db s)))"
      then show ?thesis using run by simp
    qed
    then show "on_db (St env q) s'" using s by (simp add: on_db_def)
  qed
  have eq: "appendCoreEvent env (xevent env ty pl) =
    xbind (xask fence) (\<lambda>claim. xbind (xask (xe_now env)) (\<lambda>now. xbind (xask (xe_now env)) (\<lambda>ts.
      (\<lambda>s. case appendFenced now ts (xevent env ty pl) claim (xs_db s) of
         (None, d) \<Rightarrow> (Inl (XFence lease_lost_message), s\<lparr>xs_db := d\<rparr>)
       | (Some row, d) \<Rightarrow> (Inr row, s\<lparr>xs_db := d\<rparr>)))))"
    unfolding appendCoreEvent_def Some option.case by (rule refl)
  show ?thesis
    unfolding eq
    by (rule xok_bind [OF xok_still [OF still_ask]], rule xok_bind [OF xok_still [OF still_ask]],
        rule xok_bind [OF xok_still [OF still_ask]], rule tail)
qed

subsection \<open>Rejections\<close>

definition reject_payload :: "string \<Rightarrow> rejection_reason \<Rightarrow> string \<Rightarrow> payload \<Rightarrow> payload" where
  "reject_payload aid why detail meta =
     [(''actionId'', VStr aid), (''reason'', VStr (reason_name why)), (''detail'', VStr detail)] @ meta"

definition told :: "'w exec_env \<Rightarrow> exec_result \<Rightarrow> db \<Rightarrow> bool" where
  "told env res d \<longleftrightarrow>
     (let es = my_events env d in
      es \<noteq> [] \<and>
      (case res of
         ResApplied aid ap \<Rightarrow>
           ev_type (last es) = E_ACTION_APPLIED \<and> pay (last es) ''actionId'' = VStr aid \<and>
           pay (last es) ''duplicate'' = VBool False \<and> pay (last es) ''resultHash'' = VStr (ap_hash ap)
       | ResSkipped aid \<Rightarrow>
           ev_type (last es) = E_ACTION_APPLIED \<and> pay (last es) ''actionId'' = VStr aid \<and>
           pay (last es) ''duplicate'' = VBool True
       | ResRejected rj \<Rightarrow>
           ev_type (last es) = E_ACTION_REJECTED \<and> pay (last es) ''actionId'' = VStr (rej_action rj) \<and>
           pay (last es) ''reason'' = VStr (reason_name (rej_reason rj)) \<and>
           pay (last es) ''detail'' = VStr (rej_detail rj)))"

lemma reject_rule:
  assumes "\<And>row. ev_type row = E_ACTION_REJECTED \<Longrightarrow> ev_payload row = reject_payload aid why detail meta \<Longrightarrow>
      pstep q row = Some q'"
  shows "xok (on_db (St env q)) (reject env aid why detail meta)
           (\<lambda>res. on_db (\<lambda>d. St env q' d \<and> told env res d)) E"
  unfolding reject_def
  by (rule xok_bind [OF log_append_rule [where q' = "\<lambda>_. q'"]], rule assms)
     (auto simp: reject_payload_def wrote_def on_db_def told_def Let_def pay_def fields_get_def intro!: xok_ret)

lemma fields_get_reject:
  "k \<notin> {''actionId'', ''reason'', ''detail''} \<Longrightarrow> fields_get (reject_payload aid why detail meta) k = fields_get meta k"
  by (simp add: reject_payload_def fields_get_def)

lemma reject_aid [simp]: "fields_get (reject_payload aid why detail meta) ''actionId'' = VStr aid"
  by (simp add: reject_payload_def fields_get_def)

text \<open>A rejection without causal fields, one that closes the open intent, one that invalidates.\<close>

lemma reject_neutral:
  assumes "fields_get meta ''intentSeq'' = VUndef" "fields_get meta ''invalidatesAppliedSeq'' = VUndef"
  shows "xok (on_db (St env q)) (reject env aid why detail meta) (\<lambda>res. on_db (\<lambda>d. St env q d \<and> told env res d)) E"
proof (rule reject_rule)
  fix row :: event
  assume "ev_type row = E_ACTION_REJECTED" "ev_payload row = reject_payload aid why detail meta"
  then show "pstep q row = Some q"
    using assms by (cases q) (simp add: pay_def fields_get_reject kills_def)
qed

lemma reject_closing:
  assumes "fields_get meta ''intentSeq'' = vint (int n)" "fields_get meta ''invalidatesAppliedSeq'' = VUndef"
  shows "xok (on_db (St env (Some (n, aid), act))) (reject env aid why detail meta)
    (\<lambda>res. on_db (\<lambda>d. St env (None, act) d \<and> told env res d)) E"
proof (rule reject_rule)
  fix row :: event
  assume "ev_type row = E_ACTION_REJECTED" "ev_payload row = reject_payload aid why detail meta"
  then show "pstep (Some (n, aid), act) row = Some (None, act)"
    using assms by (simp add: pay_def fields_get_reject closes_def)
qed

lemma reject_invalidating:
  assumes "fields_get meta ''intentSeq'' = VUndef"
  shows "xok (on_db (St env (op, act))) (reject env aid why detail meta)
    (\<lambda>res. on_db (\<lambda>d. (\<exists>act'. St env (op, act') d) \<and> told env res d)) E"
proof (rule xok_weaken [OF reject_rule [where q' = "(op, filter (\<lambda>x. \<not> (VStr aid = VStr (fst x) \<and>
    fields_get meta ''invalidatesAppliedSeq'' = vint (int (snd x)))) act)"]])
  fix row :: event
  assume "ev_type row = E_ACTION_REJECTED" "ev_payload row = reject_payload aid why detail meta"
  then show "pstep (op, act) row = Some (op, filter (\<lambda>x. \<not> (VStr aid = VStr (fst x) \<and>
      fields_get meta ''invalidatesAppliedSeq'' = vint (int (snd x)))) act)"
    using assms by (simp add: pay_def fields_get_reject kills_def)
qed (auto simp: on_db_def)

end
