(* ===== verification/ExecSafety.thy ===== *)
theory ExecSafety
  imports ExecProtocol
begin

text \<open>
  The executor keeps its protocol: every operation of \<open>Executor\<close> takes an accepted log to an accepted
  log, whether it returns or throws, and what it returns is what it logged last. Over a whole history of
  executions, recoveries, crashes and foreign events this gives the properties of the executor.
\<close>

lemma xbind_ret [simp]: "xbind (xret a) f = f a"
  by (simp add: fun_eq_iff xbind_def xret_def)

section \<open>Recovery keeps the protocol\<close>

text \<open>A generation without a terminal is the open intent; generations are told apart by their intents.\<close>

definition linked :: "prot \<Rightarrow> generation \<Rightarrow> bool" where
  "linked q g \<longleftrightarrow>
     (gn_terminals g = [] \<longrightarrow>
        (\<exists>a. fst q = Some (ev_seq (gn_intent g), a) \<and> pay (gn_intent g) ''actionId'' = VStr a)) \<and>
     list_all (\<lambda>t. ev_type t = E_ACTION_APPLIED \<or> ev_type t = E_ACTION_REJECTED) (gn_terminals g)"

definition linked_all :: "prot \<Rightarrow> generation list \<Rightarrow> bool" where
  "linked_all q gs \<longleftrightarrow> list_all (linked q) gs \<and> distinct (map (ev_seq \<circ> gn_intent) gs)"

lemma linked_all_drop: "linked_all q gs \<Longrightarrow> linked_all q (drop i gs)"
  by (auto simp: linked_all_def list_all_iff drop_map [symmetric] dest: in_set_dropD)

lemma linked_all_Cons: "linked_all q (g # gs) \<Longrightarrow> linked q g \<and> linked_all q gs"
  by (simp add: linked_all_def)

lemma linked_act: "linked (op, act) g = linked (op, act') g"
  by (simp add: linked_def)

lemma linked_all_act: "linked_all (op, act) gs = linked_all (op, act') gs"
  using linked_act [of op act _ act'] by (simp add: linked_all_def list_all_iff)

text \<open>Once the open generation is closed, no other is open.\<close>

lemma linked_all_closed:
  assumes "linked_all (op, act) (g # gs)" "gn_terminals g = []"
  shows "linked_all (None, act) gs"
proof -
  have "gn_terminals h \<noteq> []" if "h \<in> set gs" for h
  proof
    assume "gn_terminals h = []"
    moreover have "linked (op, act) h" "linked (op, act) g" using assms(1) that by (auto simp: linked_all_def list_all_iff)
    ultimately have "ev_seq (gn_intent h) = ev_seq (gn_intent g)" using assms(2) by (auto simp: linked_def)
    moreover have "ev_seq (gn_intent g) \<notin> (ev_seq \<circ> gn_intent) ` set gs" using assms(1) by (simp add: linked_all_def)
    ultimately show False using that by (metis comp_apply image_eqI)
  qed
  then show ?thesis using assms(1) by (auto simp: linked_all_def list_all_iff linked_def)
qed

lemma concat_filter: "concat (map (\<lambda>i. if P i then [f i] else []) es) = map f (filter P es)"
  by (induction es) simp_all

lemma history_map: "history_of es = map (\<lambda>i. \<lparr>gn_intent = i, gn_terminals = terms es i\<rparr>) (filter intent es)"
  unfolding history_of_def terms_def intent_def by (rule concat_filter)

lemma St_tracked: "St env q d \<Longrightarrow> tracked (my_events env d) q"
  unfolding St_def by (elim conjE) (rule protocol_tracked, assumption, rule my_events_order)

lemma in_order_distinct: "in_order es \<Longrightarrow> distinct (map ev_seq es)"
  by (simp add: in_order_def strict_sorted_iff)

lemma history_linked:
  assumes "St env q d"
  shows "linked_all q (mutatingIntentHistory env d)"
proof -
  let ?es = "my_events env d"
  have tr: "terms_ok ?es (fst q)" "open_ok ?es q" using St_tracked [OF assms] by (simp_all add: tracked_def)
  have ord: "in_order ?es" using assms my_events_order by (auto simp: St_def)
  have "linked q \<lparr>gn_intent = i, gn_terminals = terms ?es i\<rparr>" if i: "i \<in> set ?es" "intent i" for i
  proof -
    have "list_all (\<lambda>t. ev_type t = E_ACTION_APPLIED \<or> ev_type t = E_ACTION_REJECTED) (terms ?es i)"
      by (auto simp: terms_def is_terminal_of_def list_all_iff)
    moreover have "\<exists>a. fst q = Some (ev_seq i, a) \<and> pay i ''actionId'' = VStr a" if none: "terms ?es i = []"
    proof -
      obtain a where a: "fst q = Some (ev_seq i, a)" using tr(1) i none by (auto simp: terms_ok_def)
      then obtain j where "j \<in> set ?es" "ev_seq j = ev_seq i" "pay j ''actionId'' = VStr a"
        using tr(2) by (auto simp: open_ok_def)
      then have "pay i ''actionId'' = VStr a" using in_order_inj [OF ord] i by metis
      then show ?thesis using a by simp
    qed
    ultimately show ?thesis by (simp add: linked_def)
  qed
  moreover have "distinct (map (ev_seq \<circ> gn_intent) (history_of ?es))"
    using in_order_distinct [OF ord] by (simp add: history_map comp_def distinct_map_filter)
  ultimately show ?thesis
    unfolding linked_all_def mutatingIntentHistory_def by (auto simp: history_map list_all_iff)
qed

subsection \<open>What a replay leaves pending\<close>

definition pend_gen :: "pending_terminal \<Rightarrow> replay_gen" where
  "pend_gen p = (case p of PendApplied g _ \<Rightarrow> g | PendRejected g _ _ \<Rightarrow> g)"

definition ready :: "replay_gen \<Rightarrow> bool" where
  "ready r \<longleftrightarrow> rg_terminal r = (case gn_terminals (rg_gen r) of [] \<Rightarrow> None | t # _ \<Rightarrow> Some t)
     \<and> val_get (rg_action r) ''actionId'' = pay (gn_intent (rg_gen r)) ''actionId''"

lemma xbind_Inr: "xbind m f s = (Inr b, s') \<longleftrightarrow> (\<exists>a t. m s = (Inr a, t) \<and> f a t = (Inr b, s'))"
  by (auto simp: xbind_def split: prod.splits sum.splits)

lemma xret_Inr: "xret a s = (Inr b, s') \<longleftrightarrow> b = a \<and> s' = s"
  by (auto simp: xret_def)

lemma xthrow_Inr: "xthrow e s \<noteq> (Inr b, s')"
  by (simp add: xthrow_def)

lemmas run_simps = xbind_Inr xret_Inr xthrow_Inr

lemma check_generation_ready:
  "check_generation env g s = (Inr r, s') \<Longrightarrow> ready r \<and> rg_gen r = g"
  unfolding check_generation_def Let_def
  by (auto simp: run_simps ready_def split: if_splits option.splits list.splits)

lemma check_generations_ready:
  "check_generations env gs s = (Inr rs, s') \<Longrightarrow> list_all ready rs \<and> map rg_gen rs = gs"
proof (induction gs arbitrary: rs s s')
  case (Cons g gs)
  then show ?case using check_generation_ready by (fastforce simp: run_simps)
qed (simp add: run_simps)

text \<open>Only generations without a terminal are pending after a replay, each of them once.\<close>

definition open_gens :: "replay_gen list \<Rightarrow> replay_gen list" where
  "open_gens rs = filter (\<lambda>r. rg_terminal r = None) rs"

definition adds :: "replay_gen \<Rightarrow> replay_acc \<Rightarrow> replay_acc \<Rightarrow> bool" where
  "adds g acc acc' \<longleftrightarrow>
     map pend_gen (ra_pending acc') = map pend_gen (ra_pending acc) @ (if rg_terminal g = None then [g] else [])"

lemma xok_any: "xok P m (\<lambda>_ _. True) (\<lambda>_. True)"
  by (rule xokI) simp_all

lemma replay_one_adds:
  assumes "rg_terminal g = None \<or> terminal_applied (rg_terminal g) \<or> terminal_rejected (rg_terminal g)"
  shows "xok (\<lambda>_. True) (replay_one env g acc) (\<lambda>acc' _. adds g acc acc') (\<lambda>_. True)"
proof (cases "terminal_rejected (rg_terminal g)")
  case True
  then have "rg_terminal g \<noteq> None" by (auto simp: terminal_rejected_def split: option.splits)
  then show ?thesis using True by (auto simp: replay_one_def adds_def intro: xok_ret)
next
  case False
  have rejected: "\<not> terminal_applied (rg_terminal g) \<Longrightarrow> adds g acc (pend_rejection g x acc)" for x
    using assms False by (auto simp: adds_def pend_rejection_def pend_gen_def)
  have counted: "adds g acc (count_replayed g ap acc)" for ap
    by (auto simp: adds_def count_replayed_def pend_gen_def)
  show ?thesis
    using False unfolding replay_one_def
    by (auto intro!: xok_bind [OF xok_any] xok_throw xok_ret rejected counted split: sum.split)
qed

lemma replay_all_pending:
  assumes "replay_all env gs acc s = (Inr acc', s')"
    and "list_all (\<lambda>g. rg_terminal g = None \<or> terminal_applied (rg_terminal g) \<or> terminal_rejected (rg_terminal g)) gs"
  shows "map pend_gen (ra_pending acc') = map pend_gen (ra_pending acc) @ open_gens gs"
  using assms
proof (induction gs arbitrary: acc s)
  case Nil
  then show ?case by (simp add: run_simps open_gens_def)
next
  case (Cons g gs)
  then obtain acc1 s1 where one: "replay_one env g acc s = (Inr acc1, s1)"
    and rest: "replay_all env gs acc1 s1 = (Inr acc', s')" by (auto simp: run_simps)
  have "adds g acc acc1" using Cons.prems(2) by (intro xokD [OF replay_one_adds TrueI one]) simp
  then show ?case using Cons.IH [OF rest] Cons.prems(2) by (auto simp: adds_def open_gens_def)
qed

lemma open_gens_single:
  assumes "linked_all q gs" "list_all ready rs" "map rg_gen rs = gs"
  shows "length (open_gens rs) \<le> 1"
proof -
  have open_seq: "\<exists>a. fst q = Some (ev_seq (gn_intent (rg_gen r)), a)" if "r \<in> set (open_gens rs)" for r
  proof -
    have "ready r" "rg_terminal r = None" using that assms(2) by (auto simp: open_gens_def list_all_iff)
    then have "gn_terminals (rg_gen r) = []" by (cases "gn_terminals (rg_gen r)") (simp_all add: ready_def)
    moreover have "linked q (rg_gen r)" using that assms(1,3) by (auto simp: open_gens_def linked_all_def list_all_iff)
    ultimately show ?thesis by (auto simp: linked_def)
  qed
  have "map (ev_seq \<circ> gn_intent) gs = map (\<lambda>r. ev_seq (gn_intent (rg_gen r))) rs"
    unfolding assms(3) [symmetric] by simp
  then have "distinct (map (\<lambda>r. ev_seq (gn_intent (rg_gen r))) rs)"
    using assms(1) by (simp only: linked_all_def)
  then have dist: "distinct (map (\<lambda>r. ev_seq (gn_intent (rg_gen r))) (open_gens rs))"
    unfolding open_gens_def by (rule distinct_map_filter)
  show ?thesis
  proof (rule ccontr)
    assume "\<not> length (open_gens rs) \<le> 1"
    then obtain x y zs where xy: "open_gens rs = x # y # zs"
      by (cases "open_gens rs"; cases "tl (open_gens rs)") auto
    then show False using dist open_seq [of x] open_seq [of y] by auto
  qed
qed

lemma open_gen_facts:
  assumes "linked_all q gs" "list_all ready rs" "map rg_gen rs = gs" "r \<in> set (open_gens rs)"
  obtains a where "fst q = Some (ev_seq (gn_intent (rg_gen r)), a)" "val_get (rg_action r) ''actionId'' = VStr a"
proof -
  have r: "r \<in> set rs" "rg_terminal r = None" using assms(4) by (auto simp: open_gens_def)
  then have rd: "ready r" using assms(2) by (simp add: list_all_iff)
  have "gn_terminals (rg_gen r) = []" using rd r by (cases "gn_terminals (rg_gen r)") (simp_all add: ready_def)
  moreover have "linked q (rg_gen r)" using r assms(1,3) by (auto simp: linked_all_def list_all_iff)
  ultimately show ?thesis using rd that by (auto simp: linked_def ready_def)
qed

lemma applied_payload_fields:
  "fields_get (applied_payload a n flags ap) ''actionId'' = VStr a"
  "fields_get (applied_payload a n flags ap) ''intentSeq'' = vint (int n)"
  "fields_get (applied_payload a n flags ap) ''duplicate'' = VBool False"
  "map_of flags ''resultHash'' = None \<Longrightarrow> fields_get (applied_payload a n flags ap) ''resultHash'' = VStr (ap_hash ap)"
  by (simp_all add: applied_payload_def fields_get_def map_add_def)

definition StO :: "'w exec_env \<Rightarrow> (nat \<times> string) option \<Rightarrow> db \<Rightarrow> bool" where
  "StO env op d \<longleftrightarrow> (\<exists>act. St env (op, act) d)"

lemma StO_ex: "on_db (StO env op) = (\<lambda>s. \<exists>act. on_db (St env (op, act)) s)"
  by (auto simp: on_db_def StO_def fun_eq_iff)

lemma StO_Ok: "StO env op d \<Longrightarrow> Ok env d"
  by (auto simp: StO_def intro: St_Ok)

text \<open>A log that satisfies the protocol with no intent open.\<close>

abbreviation Idle :: "'w exec_env \<Rightarrow> db \<Rightarrow> bool" where
  "Idle env \<equiv> StO env None"

lemma append_applied_rule:
  assumes "map_of flags ''resultHash'' = None"
  shows "xok (on_db (St env (Some (n, a), act)))
    (appendCoreEvent env (xevent env E_ACTION_APPLIED (applied_payload a n flags ap)))
    (\<lambda>row. on_db (\<lambda>d. Idle env d \<and> told env (ResApplied a ap) d)) (on_db (St env (Some (n, a), act)))"
proof (rule xok_weaken [OF appendCoreEvent_rule [where q' = "\<lambda>row. (None, (a, ev_seq row) # act)"]])
  fix row :: event
  assume "ev_type row = E_ACTION_APPLIED" "ev_payload row = applied_payload a n flags ap"
  then show "pstep (Some (n, a), act) row = Some (None, (a, ev_seq row) # act)"
    using assms by (simp add: pay_def applied_payload_fields closes_def)
next
  fix row s
  assume "on_db (\<lambda>d. St env (None, (a, ev_seq row) # act) d \<and>
    wrote env E_ACTION_APPLIED (applied_payload a n flags ap) row d) s"
  then show "on_db (\<lambda>d. Idle env d \<and> told env (ResApplied a ap) d) s"
    using assms by (auto simp: on_db_def told_def Let_def wrote_def pay_def applied_payload_fields StO_def)
qed

lemma append_pending_rule:
  assumes "fst q = Some (ev_seq (gn_intent (rg_gen (pend_gen p))), a)"
    "val_get (rg_action (pend_gen p)) ''actionId'' = VStr a"
  shows "xok (on_db (St env q)) (append_pending env p) (\<lambda>_. on_db (Idle env)) (on_db (St env q))"
proof -
  obtain act where q: "q = (Some (ev_seq (gn_intent (rg_gen (pend_gen p))), a), act)"
    using assms(1) by (cases q) auto
  show ?thesis
  proof (cases p)
    case (PendApplied g ap)
    have "xok (on_db (St env (Some (ev_seq (gn_intent (rg_gen g)), a), act)))
      (xbind (appendCoreEvent env (xevent env E_ACTION_APPLIED
            (applied_payload a (ev_seq (gn_intent (rg_gen g))) [(''recovered'', VBool True)] ap))) (\<lambda>_. xret ()))
      (\<lambda>_. on_db (Idle env)) (on_db (St env (Some (ev_seq (gn_intent (rg_gen g)), a), act)))"
      by (rule xok_bind [OF append_applied_rule], simp, rule xok_ret) (simp add: on_db_def)
    then show ?thesis using assms(2) by (simp add: append_pending_def PendApplied pend_gen_def q)
  next
    case (PendRejected g why detail)
    have "xok (on_db (St env (Some (ev_seq (gn_intent (rg_gen g)), a), act)))
      (xbind (reject env a why detail [(''intentSeq'', vint (int (ev_seq (gn_intent (rg_gen g)))))]) (\<lambda>_. xret ()))
      (\<lambda>_. on_db (Idle env)) (on_db (St env (Some (ev_seq (gn_intent (rg_gen g)), a), act)))"
      by (rule xok_bind [OF reject_closing], simp add: fields_get_def, simp add: fields_get_def, rule xok_ret)
         (auto simp: on_db_def StO_def)
    then show ?thesis using assms(2) by (simp add: append_pending_def PendRejected pend_gen_def q)
  qed
qed

text \<open>The generations cover the open intent.\<close>

definition covers :: "prot \<Rightarrow> generation list \<Rightarrow> bool" where
  "covers q gs \<longleftrightarrow> (fst q \<noteq> None \<longrightarrow> (\<exists>g \<in> set gs. gn_terminals g = []))"

lemma covers_open:
  assumes "covers q gs" "list_all ready rs" "map rg_gen rs = gs" "open_gens rs = []"
  shows "fst q = None"
proof (rule ccontr)
  assume "fst q \<noteq> None"
  then obtain r where "r \<in> set rs" "gn_terminals (rg_gen r) = []" using assms(1,3) by (auto simp: covers_def)
  moreover from this have "ready r" using assms(2) by (simp add: list_all_iff)
  ultimately show False using assms(4) by (auto simp: ready_def open_gens_def filter_empty_conv)
qed

lemma append_pendings_rule:
  assumes "linked_all q gs" "list_all ready rs" "map rg_gen rs = gs" "covers q gs" "map pend_gen ps = open_gens rs"
  shows "xok (on_db (St env q)) (append_pendings env ps) (\<lambda>_. on_db (Idle env)) (on_db (St env q))"
proof -
  have "length ps \<le> 1" using open_gens_single [OF assms(1-3)] arg_cong [OF assms(5), of length] by simp
  then consider "ps = []" | p where "ps = [p]" by (cases ps; cases "tl ps") auto
  then show ?thesis
  proof cases
    case 1
    then have "fst q = None" using assms(5) by (intro covers_open [OF assms(4,2,3)]) simp
    then have "St env q d \<Longrightarrow> Idle env d" for d by (cases q) (auto simp: StO_def)
    then show ?thesis using 1 by (auto simp: on_db_def intro!: xok_ret)
  next
    case 2
    then have "pend_gen p \<in> set (open_gens rs)" by (simp add: assms(5) [symmetric])
    then obtain a where a: "fst q = Some (ev_seq (gn_intent (rg_gen (pend_gen p))), a)"
      "val_get (rg_action (pend_gen p)) ''actionId'' = VStr a"
      by (rule open_gen_facts [OF assms(1-3)])
    show ?thesis
      unfolding 2 append_pendings.simps by (rule xok_bind [OF append_pending_rule [OF a]]) (rule xok_ret)
  qed
qed

subsection \<open>A recovery that fails closed\<close>

lemma invalidate_rule:
  "fields_get meta ''intentSeq'' = VUndef \<Longrightarrow>
   xok (on_db (StO env op)) (xbind (reject env aid why detail meta) (\<lambda>_. xret ())) (\<lambda>_. on_db (StO env op)) E"
  unfolding StO_ex
  by (rule xok_ex, rule xok_bind [OF reject_invalidating], assumption, rule xok_ret) (auto simp: on_db_def)

lemma close_rule:
  "xok (on_db (StO env (Some (n, a))))
     (xbind (reject env a why detail [(''intentSeq'', vint (int n))]) (\<lambda>_. xret ())) (\<lambda>_. on_db (StO env None)) E"
  unfolding StO_ex
  by (rule xok_ex, rule xok_bind [OF reject_closing], simp add: fields_get_def, simp add: fields_get_def, rule xok_ret)
     (auto simp: on_db_def)

lemma invalidate_suffix_rule:
  "linked_all (op, []) gs \<Longrightarrow>
   xok (on_db (StO env op)) (invalidate_suffix env detail gs) (\<lambda>_. on_db (Ok env)) E"
proof (induction gs arbitrary: op)
  case Nil
  then show ?case by (auto intro!: xok_ret simp: on_db_def StO_Ok)
next
  case (Cons g gs)
  have first: "xok (on_db (StO env op))
      (case find (\<lambda>t. ev_type t = E_ACTION_APPLIED) (gn_terminals g) of
          None \<Rightarrow> xret ()
        | Some applied \<Rightarrow>
            xbind (reject env (str_of (pay applied ''actionId'')) RCommandArtifactUnavailable
              (''recovery invalidated accepted suffix event '' @ nat_str (ev_seq applied) @ '': '' @ detail)
              [(''invalidatesAppliedSeq'', vint (int (ev_seq applied)))]) (\<lambda>_. xret ()))
      (\<lambda>_. on_db (StO env op)) E"
    by (auto split: option.split intro!: xok_ret invalidate_rule simp: fields_get_def)
  show ?case
  proof (cases "gn_terminals g = []")
    case True
    then obtain a where op: "op = Some (ev_seq (gn_intent g), a)" "pay (gn_intent g) ''actionId'' = VStr a"
      using linked_all_Cons [OF Cons.prems] by (auto simp: linked_def)
    have "linked_all (None, []) gs" using linked_all_closed [OF Cons.prems True] .
    note rest = Cons.IH [OF this]
    show ?thesis
      by (simp only: invalidate_suffix.simps invalidate_generation_def True find.simps option.case if_True xbind_ret op
          str_of.simps simp_thms(6)) (rule xok_bind [OF close_rule rest])
  next
    case False
    have "linked_all (op, []) gs" using linked_all_Cons [OF Cons.prems] by simp
    note rest = Cons.IH [OF this]
    have one: "xok (on_db (StO env op)) (invalidate_generation env detail g) (\<lambda>_. on_db (StO env op)) E"
      unfolding invalidate_generation_def using False by (simp only: if_False) (rule xok_bind [OF first], rule xok_ret)
    show ?thesis unfolding invalidate_suffix.simps by (rule xok_bind [OF one rest])
  qed
qed

lemma reconcile_rule: "xok (on_db P) (reconcileAfterFailure env snap) (\<lambda>_. on_db P) (on_db P)"
  by (rule xok_still [OF still_reconcile])

text \<open>A recovery that reports coherence leaves no intent open.\<close>

definition Rec :: "'w exec_env \<Rightarrow> recovery_report \<Rightarrow> db \<Rightarrow> bool" where
  "Rec env rep d \<longleftrightarrow> Ok env d \<and> (rr_coherent rep \<longrightarrow> Idle env d)"

lemma Rec_Ok: "Rec env rep d \<Longrightarrow> Ok env d"
  by (simp add: Rec_def)

lemma Rec_Idle: "Idle env d \<Longrightarrow> Rec env rep d"
  by (simp add: Rec_def StO_Ok)

lemma Rec_failed [simp]: "Rec env (failed_report act detail) d \<longleftrightarrow> Ok env d"
  by (simp add: Rec_def failed_report_def)

lemma fail_suffix_rule:
  assumes "linked_all q gs"
  shows "xok (on_db (St env q)) (fail_suffix env gs snap e) (\<lambda>rep. on_db (Rec env rep)) (on_db (Ok env))"
proof -
  obtain op act where q: "q = (op, act)" by fastforce
  have l: "linked_all (op, []) gs" using assms linked_all_act unfolding q by blast
  have 1: "xok (on_db (St env q)) (reconcileAfterFailure env snap) (\<lambda>_. on_db (StO env op)) (on_db (Ok env))"
    by (rule xok_weaken [OF reconcile_rule [where P = "StO env op"]]) (auto simp: on_db_def StO_def q intro: St_Ok)
  have tail: "xok (on_db (Ok env)) (case e of XFrozen x y \<Rightarrow> xthrow e | _ \<Rightarrow> xret (failed_report act why))
      (\<lambda>rep. on_db (Rec env rep)) (on_db (Ok env))" for act why
    by (cases e) (auto simp: on_db_def intro!: xok_ret xok_throw)
  show ?thesis
    unfolding fail_suffix_def
    by (rule xok_bind [OF 1], rule xok_bind [OF invalidate_suffix_rule [OF l]], rule tail)
qed

subsection \<open>The whole recovery\<close>

lemma xok_run:
  assumes "xok P m (\<lambda>_. Q) E" "\<And>s a s'. P s \<Longrightarrow> m s = (Inr a, s') \<Longrightarrow> A a"
  shows "xok P m (\<lambda>a s. A a \<and> Q s) E"
  by (rule xokI) (auto dest: xokD [OF assms(1)] xokE [OF assms(1)] assms(2))

lemma replay_suffix_rule:
  assumes l: "linked_all q gs" "covers q gs"
  shows "xok (on_db (St env q)) (replay_suffix env gs snap src mm) (\<lambda>_. on_db (Idle env)) (on_db (St env q))"
proof -
  have 1: "xok (on_db (St env q)) (check_generations env gs)
      (\<lambda>rs s. (list_all ready rs \<and> map rg_gen rs = gs) \<and> on_db (St env q) s) (on_db (St env q))"
    by (rule xok_run [OF xok_still [OF still_checks]]) (rule check_generations_ready)
  have 2: "xok (on_db (St env q)) (reconcileAfterFailure env snap) (\<lambda>_. on_db (St env q)) (on_db (St env q))"
    by (rule reconcile_rule)
  let ?acc = "\<lparr>ra_pending = [], ra_replayed = 0, ra_rejected = 0, ra_final = None\<rparr>"
  have 3: "xok (on_db (St env q)) (replay_all env rs ?acc)
      (\<lambda>acc s. map pend_gen (ra_pending acc) = open_gens rs \<and> on_db (St env q) s) (on_db (St env q))"
    if rs: "list_all ready rs" "map rg_gen rs = gs" for rs
  proof (rule xok_run [OF xok_still [OF still_replay]])
    fix s acc s'
    assume run: "replay_all env rs ?acc s = (Inr acc, s')"
    have "rg_terminal r = None \<or> terminal_applied (rg_terminal r) \<or> terminal_rejected (rg_terminal r)" if "r \<in> set rs" for r
    proof -
      have "ready r" "linked q (rg_gen r)" using that rs l by (auto simp: list_all_iff linked_all_def)
      then show ?thesis
        by (cases "gn_terminals (rg_gen r)") (auto simp: ready_def linked_def terminal_applied_def terminal_rejected_def)
    qed
    then have "list_all (\<lambda>g. rg_terminal g = None \<or> terminal_applied (rg_terminal g) \<or> terminal_rejected (rg_terminal g)) rs"
      by (simp add: list_all_iff)
    from replay_all_pending [OF run this]
    show "map pend_gen (ra_pending acc) = open_gens rs" by simp
  qed
  have 4: "xok (on_db (St env q)) (final_identity env acc) (\<lambda>_. on_db (St env q)) (on_db (St env q))" for acc
    by (rule xok_still [OF still_final])
  have 5: "xok (on_db (St env q)) (append_pendings env (ra_pending acc)) (\<lambda>_. on_db (Idle env)) (on_db (St env q))"
    if "list_all ready rs" "map rg_gen rs = gs" "map pend_gen (ra_pending acc) = open_gens rs" for rs acc
    by (rule append_pendings_rule [OF l(1) that(1,2) l(2) that(3)])
  show ?thesis
    unfolding replay_suffix_def
    by (rule xok_bind [OF 1], rule xok_fact, elim conjE, rule xok_bind [OF 2], rule xok_bind [OF 3], assumption, assumption,
        rule xok_fact, rule xok_bind [OF 4], rule xok_bind [OF 5], assumption, assumption, assumption, rule xok_ret)
qed

lemma recover_from_rule:
  assumes "linked_all q hist" "covers q (drop (fst b) hist)"
  shows "xok (on_db (St env q)) (recover_from env hist b) (\<lambda>rep. on_db (Rec env rep)) (on_db (Ok env))"
proof -
  obtain i src mm where b: "b = (i, src, mm)" by (cases b)
  have snap: "xok (on_db (St env q)) (xattempt (actionSnapshotFromPayload env e)) (\<lambda>_. on_db (St env q)) (on_db (Ok env))" for e
    by (rule xok_attempt [OF xok_still [OF still_snapshot]])
  have l: "linked_all q (drop i hist)" by (rule linked_all_drop [OF assms(1)])
  have body: "xok (on_db (St env q)) (xcatch (replay_suffix env gs earliest src mm) (fail_suffix env gs earliest))
      (\<lambda>rep. on_db (Rec env rep)) (on_db (Ok env))" if "linked_all q gs" "covers q gs" for gs earliest
    by (rule xok_catch [OF xok_weaken [OF replay_suffix_rule [OF that]] fail_suffix_rule [OF that(1)]])
       (auto simp: on_db_def intro: Rec_Idle)
  show ?thesis
  proof (cases "drop i hist")
    case Nil
    then show ?thesis by (auto simp: recover_from_def b on_db_def intro!: xok_throw St_Ok)
  next
    case (Cons g gs)
    then show ?thesis
      using body [of "g # gs"] l assms(2)
      by (auto simp: recover_from_def b on_db_def intro!: xok_bind [OF snap] xok_ret St_Ok split: sum.split)
  qed
qed

lemma refuse_recovery_rule:
  "xok (on_db (St env q)) (refuse_recovery env e why detail) (\<lambda>_. on_db (St env q)) E"
  unfolding refuse_recovery_def
  by (rule xok_bind [OF reject_neutral], simp add: fields_get_def, simp add: fields_get_def, rule xok_ret) (simp add: on_db_def)

lemma no_dangling_closed:
  assumes "St env (op, act) d" "danglingMutatingIntents env d = []"
  shows "op = None"
proof (rule ccontr)
  assume "op \<noteq> None"
  then obtain n a where op: "op = Some (n, a)" by (cases op) auto
  have tr: "terms_ok (my_events env d) op" "open_ok (my_events env d) (op, act)"
    using St_tracked [OF assms(1)] by (simp_all add: tracked_def)
  obtain i where i: "i \<in> set (my_events env d)" "intent i" "ev_seq i = n"
    using tr(2) op by (auto simp: open_ok_def)
  then have "terms (my_events env d) i = []" using tr(1) op by (auto simp: terms_ok_def)
  then have "\<lparr>gn_intent = i, gn_terminals = []\<rparr> \<in> set (mutatingIntentHistory env d)"
    using i by (auto simp: mutatingIntentHistory_def history_map image_iff intro!: bexI [of _ i])
  then show False using assms(2) by (auto simp: danglingMutatingIntents_def filter_empty_conv)
qed

lemma idle_no_dangling:
  assumes "Idle env d"
  shows "danglingMutatingIntents env d = []"
proof -
  obtain act where "St env (None, act) d" using assms by (auto simp: StO_def)
  then have "terms_ok (my_events env d) None" using St_tracked by (fastforce simp: tracked_def)
  then show ?thesis
    by (auto simp: danglingMutatingIntents_def mutatingIntentHistory_def history_map filter_empty_conv terms_ok_def)
qed

lemma find_index_Some: "find_index P xs = Some i \<Longrightarrow> i < length xs \<and> P (xs ! i)"
  by (induction xs arbitrary: i) (auto split: if_splits)

lemma find_index_None: "find_index P xs = None \<longleftrightarrow> filter P xs = []"
  by (induction xs) auto

text \<open>A replay starts at or before the open intent: intents are in the order of their sequence numbers.\<close>

lemma history_order:
  assumes "log_inv d" "i < length (mutatingIntentHistory env d)" "j < length (mutatingIntentHistory env d)"
    "ev_seq (gn_intent (mutatingIntentHistory env d ! i)) < ev_seq (gn_intent (mutatingIntentHistory env d ! j))"
  shows "i < j"
proof (rule ccontr)
  assume "\<not> i < j"
  moreover have "sorted_wrt (<) (map (ev_seq \<circ> gn_intent) (mutatingIntentHistory env d))"
    using my_events_order [OF assms(1), of env]
    by (simp add: in_order_def mutatingIntentHistory_def history_map comp_def sorted_wrt_map sorted_wrt_filter)
  ultimately show False
    using assms(2-4) sorted_wrt_nth_less [of "(<)" "map (ev_seq \<circ> gn_intent) (mutatingIntentHistory env d)" j i]
    by (cases "i = j") auto
qed

lemma seq_before_less: "seq_before e g \<Longrightarrow> intent_seq_is e h \<Longrightarrow> ev_seq (gn_intent h) < ev_seq (gn_intent g)"
  by (auto simp: seq_before_def intent_seq_is_def split: js_val.splits)

definition Bnd :: "'w exec_env \<Rightarrow> prot \<Rightarrow> generation list \<Rightarrow> boundary \<Rightarrow> db \<Rightarrow> bool" where
  "Bnd env q hist r d \<longleftrightarrow>
     (case r of Inl rep \<Rightarrow> Rec env rep d | Inr b \<Rightarrow> covers q (drop (fst b) hist) \<and> St env q d)"

lemma Bnd_simps [simp]:
  "Bnd env q hist (Inl rep) d \<longleftrightarrow> Rec env rep d"
  "Bnd env q hist (Inr b) d \<longleftrightarrow> covers q (drop (fst b) hist) \<and> St env q d"
  by (simp_all add: Bnd_def)

lemma refuse_boundary_rule:
  "xok (on_db (St env q)) (refuse_recovery env e why detail) (\<lambda>r. on_db (Bnd env q hist r)) E"
  unfolding refuse_recovery_def
  by (rule xok_bind [OF reject_neutral], simp add: fields_get_def, simp add: fields_get_def, rule xok_ret)
     (auto simp: on_db_def intro: St_Ok)

lemma covers_from:
  assumes "b < length hist" "gn_terminals (hist ! b) = []" "i \<le> b"
  shows "covers q (drop i hist)"
proof -
  have "drop i hist ! (b - i) \<in> set (drop i hist)" using assms by (intro nth_mem) simp
  then show ?thesis using assms by (auto simp: covers_def intro!: bexI [of _ "hist ! b"])
qed

lemma dangling_boundary_rule:
  assumes d: "log_inv d" and hist: "hist = mutatingIntentHistory env d"
    and b: "find_index (\<lambda>g. gn_terminals g = []) hist = Some b"
  shows "xok (on_db (St env q)) (dangling_boundary env d hist b) (\<lambda>r. on_db (Bnd env q hist r)) E"
proof -
  note b' = find_index_Some [OF b, THEN conjunct1] find_index_Some [OF b, THEN conjunct2]
  have "covers q (drop i hist)"
    if "seq_before e (hist ! b)" "find_index (intent_seq_is e) hist = Some i" for e i
  proof (rule covers_from [OF b'])
    have "i < length hist" "intent_seq_is e (hist ! i)" using find_index_Some [OF that(2)] by simp_all
    then show "i \<le> b" using history_order [OF d, of i env b] b'(1) seq_before_less [OF that(1)] hist by force
  qed
  moreover have "covers q (drop b hist)" by (rule covers_from [OF b']) simp
  ultimately show ?thesis
    unfolding dangling_boundary_def
    by (auto simp: on_db_def [where P = "Bnd env q hist (Inr r)" for r] on_db_def [where P = "St env q"] last_such_def find_Some_iff
      split: option.split intro!: xok_ret refuse_boundary_rule)
qed

lemma identity_boundary_rule:
  assumes "fst q = None"
  shows "xok (on_db (St env q)) (identity_boundary env adm d hist) (\<lambda>r. on_db (Bnd env q hist r)) (on_db (Ok env))"
proof -
  have cap: "xok (on_db (St env q)) (xattempt (xport (xe_capture env))) (\<lambda>_. on_db (St env q)) (on_db (Ok env))"
    by (rule xok_attempt [OF xok_still [OF still_port]])
  have ok: "on_db (St env q) s \<Longrightarrow> on_db (Ok env) s" for s :: "'a xstate" by (auto simp: on_db_def intro: St_Ok)
  have at: "on_db (St env q) s \<Longrightarrow> on_db (Bnd env q hist (Inr b)) s" for s :: "'a xstate" and b
    using assms by (simp add: on_db_def covers_def)
  have idle: "on_db (St env q) s \<Longrightarrow> on_db (Bnd env q hist (Inl rep)) s" for s :: "'a xstate" and rep
    using assms by (cases q) (auto simp: on_db_def StO_def intro!: Rec_Idle)
  show ?thesis
    unfolding identity_boundary_def
    by (auto split: option.split sum.split exec_error.split
          intro!: xok_ret xok_throw refuse_boundary_rule xok_bind [OF cap] ok at idle)
qed

lemma xlog_rule: "xok (on_db P) xlog (\<lambda>d s. P d \<and> on_db P s) E"
  by (rule xokI) (auto simp: xlog_def on_db_def)

theorem recoverWorktree_rule:
  "xok (on_db (Ok env)) (recoverWorktree env adm) (\<lambda>rep. on_db (Rec env rep)) (on_db (Ok env))"
proof -
  have St: "xok (on_db (St env q)) (recoverWorktree env adm) (\<lambda>rep. on_db (Rec env rep)) (on_db (Ok env))" for q
  proof -
    have log: "xok (on_db (St env q)) xlog (\<lambda>d s. St env q d \<and> on_db (St env q) s) (on_db (Ok env))"
      by (rule xok_weaken [OF xlog_rule]) auto
    have boundary: "xok (on_db (St env q))
        (case find_index (\<lambda>g. gn_terminals g = []) hist of
           Some b \<Rightarrow> dangling_boundary env d hist b | None \<Rightarrow> identity_boundary env adm d hist)
        (\<lambda>r. on_db (Bnd env q hist r)) (on_db (Ok env))"
      if d: "St env q d" and hist: "hist = mutatingIntentHistory env d" for hist d
    proof (cases "find_index (\<lambda>g. gn_terminals g = []) hist")
      case None
      then have "danglingMutatingIntents env d = []" by (simp add: find_index_None hist danglingMutatingIntents_def)
      then have "fst q = None" using d no_dangling_closed by (cases q) auto
      then show ?thesis using None by (simp add: identity_boundary_rule)
    next
      case (Some b)
      have "log_inv d" using d by (simp add: St_def)
      then show ?thesis using dangling_boundary_rule [OF _ hist Some] Some by simp
    qed
    have body: "xok (on_db (Bnd env q hist r)) (case r of Inl report \<Rightarrow> xret report | Inr b \<Rightarrow> recover_from env hist b)
        (\<lambda>rep. on_db (Rec env rep)) (on_db (Ok env))" if "linked_all q hist" for hist r
    proof (cases r)
      case (Inr b)
      have "(on_db (Bnd env q hist (Inr b)) :: 'a xstate \<Rightarrow> bool) = (\<lambda>s. covers q (drop (fst b) hist) \<and> on_db (St env q) s)"
        by (simp add: on_db_def fun_eq_iff)
      then show ?thesis
        unfolding Inr sum.case by (simp only:) (rule xok_fact, rule recover_from_rule [OF that])
    qed (auto simp: on_db_def intro!: xok_ret)
    show ?thesis
      unfolding recoverWorktree_def Let_def
      by (rule xok_bind [OF log], rule xok_fact, rule xok_bind [OF boundary [OF _ refl]], assumption)
         (rule body [OF history_linked])
  qed
  have eq: "on_db (Ok env) = (\<lambda>s. \<exists>q. on_db (St env q) s)" by (auto simp: on_db_def Ok_def fun_eq_iff)
  show ?thesis by (subst (1) eq) (rule xok_ex, rule St)
qed

section \<open>Execution keeps the protocol\<close>

definition Done :: "'w exec_env \<Rightarrow> exec_result \<Rightarrow> db \<Rightarrow> bool" where
  "Done env res d \<longleftrightarrow> Ok env d \<and> told env res d"

definition Rdy :: "'w exec_env \<Rightarrow> string \<Rightarrow> db \<Rightarrow> bool" where
  "Rdy env aid d \<longleftrightarrow> (\<exists>act. aid \<notin> fst ` set act \<and> St env (None, act) d)"

lemma Ok_ex: "on_db (Ok env) = (\<lambda>s. \<exists>q. on_db (St env q) s)"
  by (auto simp: on_db_def Ok_def fun_eq_iff)

lemma Rdy_ex: "on_db (Rdy env aid) = (\<lambda>s. \<exists>act. aid \<notin> fst ` set act \<and> on_db (St env (None, act)) s)"
  by (auto simp: on_db_def Rdy_def fun_eq_iff)

lemma Rdy_Ok: "Rdy env aid d \<Longrightarrow> Ok env d"
  by (auto simp: Rdy_def intro: St_Ok)

lemma Done_Ok: "Done env res d \<Longrightarrow> Ok env d"
  by (simp add: Done_def)

lemma reject_Ok:
  assumes "fields_get meta ''intentSeq'' = VUndef" "fields_get meta ''invalidatesAppliedSeq'' = VUndef"
  shows "xok (on_db (Ok env)) (reject env aid why detail meta) (\<lambda>res. on_db (Done env res)) E"
  unfolding Ok_ex
  by (rule xok_ex, rule xok_weaken [OF reject_neutral [OF assms]]) (auto simp: on_db_def Done_def intro: St_Ok)

lemma reject_plain: "xok (on_db (Ok env)) (reject env aid why detail []) (\<lambda>res. on_db (Done env res)) E"
  by (rule reject_Ok) (simp_all add: fields_get_def)

text \<open>A step that ends the handler has logged its result.\<close>

definition ends :: "'w exec_env \<Rightarrow> ('a \<Rightarrow> db \<Rightarrow> bool) \<Rightarrow> exec_result + 'a \<Rightarrow> 'w xstate \<Rightarrow> bool" where
  "ends env R r = (case r of Inl res \<Rightarrow> on_db (Done env res) | Inr a \<Rightarrow> on_db (R a))"

lemma ends_simps [simp]:
  "ends env R (Inl res) = on_db (Done env res)" "ends env R (Inr a) = on_db (R a)"
  by (simp_all add: ends_def)

lemma xthen_rule:
  assumes "xok P m (ends env R) E" "\<And>a. xok (on_db (R a)) (f a) Q E" "\<And>res s. on_db (Done env res) s \<Longrightarrow> Q res s"
  shows "xok P (xthen m f) Q E"
  unfolding xthen_def
proof (rule xok_bind [OF assms(1)])
  fix r
  show "xok (ends env R r) (case r of Inl res \<Rightarrow> xret res | Inr a \<Rightarrow> f a) Q E"
    using assms(2,3) by (cases r) (auto intro: xok_ret)
qed

lemma refuse_rule:
  assumes "\<And>d. P d \<Longrightarrow> Ok env d"
  shows "xok (on_db P) (refuse env aid why detail) (ends env R) E"
proof -
  have "xok (on_db P) (reject env aid why detail []) (\<lambda>res. on_db (Done env res)) E"
    by (rule xok_weaken [OF reject_plain]) (auto simp: on_db_def assms)
  then show ?thesis unfolding refuse_def by (rule xok_bind) (rule xok_ret, simp)
qed

text \<open>A call that does not write the log keeps any predicate of the log.\<close>

lemma still_then:
  assumes "still m" "\<And>d. P d \<Longrightarrow> Ok env d" "\<And>a. xok (on_db P) (f a) Q (on_db (Ok env))"
  shows "xok (on_db P) (xbind m f) Q (on_db (Ok env))"
proof (rule xok_bind [OF _ assms(3)])
  show "xok (on_db P) m (\<lambda>_. on_db P) (on_db (Ok env))"
    by (rule xok_weaken [OF xok_still [OF assms(1), of P]]) (auto simp: on_db_def assms(2))
qed

lemma xlog_same: "xok (on_db P) xlog (\<lambda>d. on_db (\<lambda>d'. d' = d \<and> P d)) E"
  by (rule xokI) (auto simp: xlog_def on_db_def)

subsection \<open>Admission\<close>

lemma not_applied_free:
  assumes "St env (op, act) d" "alreadyApplied env aid d = None"
  shows "aid \<notin> fst ` set act"
proof
  assume "aid \<in> fst ` set act"
  then obtain x where x: "x \<in> set act" "fst x = aid" by auto
  have "act_sound (my_events env d) act" using St_tracked [OF assms(1)] by (simp add: tracked_def)
  then obtain e where e: "e \<in> set (my_events env d)" "mutation_in_force (my_events env d) e"
      "pay e ''actionId'' = VStr aid" "is_str (pay e ''resultHash'')"
    using x by (auto simp: act_sound_def)
  then have "e \<in> set (activeAppliedEvents env d)"
    by (simp add: activeAppliedEvents_def Let_def mutation_in_force_def)
  then show False using e assms(2) by (auto simp: alreadyApplied_def last_such_def find_None_iff)
qed

definition admitted :: "'w exec_env \<Rightarrow> js_val \<Rightarrow> db \<Rightarrow> bool" where
  "admitted env a d \<longleftrightarrow> Ok env d \<and> (is_mutating a \<longrightarrow> danglingMutatingIntents env d = [])"

definition cleared :: "'w exec_env \<Rightarrow> js_val \<Rightarrow> string \<Rightarrow> db \<Rightarrow> bool" where
  "cleared env a aid d \<longleftrightarrow> (if is_mutating a then Rdy env aid d else Ok env d)"

lemma admit_report_rule: "xok (on_db (Ok env)) (admit_report env aid rep) (ends env (\<lambda>_. admitted env a)) E"
  unfolding admit_report_def Let_def
  by (rule xok_bind [OF xlog_same], intro xok_if refuse_rule xok_ret) (auto simp: admitted_def on_db_def)

lemma admit_error_rule:
  "xok (on_db (Ok env)) (admit_error env aid e) (ends env (\<lambda>_. admitted env a)) (on_db (Ok env))"
  unfolding admit_error_def by (cases e) (auto intro: refuse_rule xok_throw)

lemma admit_rule: "xok (on_db (Ok env)) (admit env a aid) (ends env (\<lambda>_. admitted env a)) (on_db (Ok env))"
proof (cases "is_mutating a")
  case False
  then show ?thesis by (auto simp: admit_def admitted_def on_db_def intro!: xok_ret)
next
  case True
  have rec: "xok (on_db (Ok env)) (xattempt (recoverWorktree env True)) (\<lambda>_. on_db (Ok env)) (on_db (Ok env))"
    by (rule xok_attempt [OF recoverWorktree_rule]) (auto simp: on_db_def Rec_Ok)
  show ?thesis
    unfolding admit_def using True
    by (auto intro!: xok_bind [OF rec] admit_report_rule admit_error_rule split: sum.split)
qed

lemma skip_event_rule:
  "xok (on_db (Ok env)) (appendCoreEvent env (xevent env E_ACTION_APPLIED [(''actionId'', VStr aid), (''duplicate'', VBool True)]))
     (\<lambda>_. on_db (Done env (ResSkipped aid))) (on_db (Ok env))"
proof -
  have "xok (on_db (St env q))
     (appendCoreEvent env (xevent env E_ACTION_APPLIED [(''actionId'', VStr aid), (''duplicate'', VBool True)]))
     (\<lambda>_. on_db (Done env (ResSkipped aid))) (on_db (Ok env))" for q
    by (rule xok_weaken [OF appendCoreEvent_rule [where q = q and q' = "\<lambda>_. q"]])
       (cases q, auto simp: on_db_def pay_def fields_get_def Done_def told_def wrote_def Let_def intro: St_Ok)
  then show ?thesis by (subst (1) Ok_ex) (rule xok_ex)
qed

lemma skip_applied_rule: "xok (on_db (Ok env)) (skip_applied env aid report) (ends env R) (on_db (Ok env))"
  unfolding skip_applied_def
  by (auto intro!: refuse_rule xok_bind [OF skip_event_rule] xok_ret split: option.split)

lemma cleared_if:
  assumes "admitted env a d" "alreadyApplied env aid d = None"
  shows "cleared env a aid d"
proof (cases "is_mutating a")
  case True
  then have nd: "danglingMutatingIntents env d = []" and "\<exists>q. St env q d"
    using assms(1) by (auto simp only: admitted_def Ok_def)
  then obtain q where "St env q d" by blast
  moreover obtain op act where "q = (op, act)" by fastforce
  ultimately have st: "St env (op, act) d" by simp
  then have "op = None" "aid \<notin> fst ` set act"
    using no_dangling_closed [OF st nd] not_applied_free [OF st assms(2)] by auto
  then show ?thesis using st True by (auto simp: cleared_def Rdy_def)
next
  case False
  then show ?thesis using assms by (simp add: cleared_def admitted_def)
qed

lemma skip_rule:
  "xok (on_db (admitted env a)) (skip_duplicate env aid report) (ends env (\<lambda>_. cleared env a aid)) (on_db (Ok env))"
  unfolding skip_duplicate_def
proof (rule xok_bind [OF xlog_same])
  fix d
  show "xok (on_db (\<lambda>d'. d' = d \<and> admitted env a d))
    (case alreadyApplied env aid d of None \<Rightarrow> xret (Inr ()) | Some _ \<Rightarrow> skip_applied env aid report)
    (ends env (\<lambda>_. cleared env a aid)) (on_db (Ok env))"
  proof (cases "alreadyApplied env aid d")
    case None
    then show ?thesis using cleared_if by (auto simp: on_db_def intro!: xok_ret)
  next
    case (Some e)
    then show ?thesis
      by (simp, intro xok_weaken [OF skip_applied_rule]) (auto simp: on_db_def admitted_def)
  qed
qed

subsection \<open>The gates\<close>

lemma gates_rule:
  assumes "\<And>d. P d \<Longrightarrow> Ok env d"
  shows "xok (on_db P) (gate_write env a aid r) (ends env (\<lambda>_. P)) (on_db (Ok env))"
    and "xok (on_db P) (gate_read env a aid r) (ends env (\<lambda>_. P)) (on_db (Ok env))"
    and "xok (on_db P) (gate_patch env a aid r) (ends env (\<lambda>_. P)) (on_db (Ok env))"
    and "xok (on_db P) (gate_command env a aid r) (ends env (\<lambda>_. P)) (on_db (Ok env))"
proof -
  have thr: "on_db P s \<Longrightarrow> on_db (Ok env) s" for s :: "'a xstate" by (simp add: on_db_def assms)
  note rules = still_then [OF _ assms] still_rules refuse_rule [OF assms] xok_ret xok_throw thr
  show "xok (on_db P) (gate_write env a aid r) (ends env (\<lambda>_. P)) (on_db (Ok env))"
    unfolding gate_write_def Let_def
    by (auto intro!: rules split: policy_decision.split sum.split exec_error.split)
  show "xok (on_db P) (gate_read env a aid r) (ends env (\<lambda>_. P)) (on_db (Ok env))"
    unfolding gate_read_def Let_def by (auto intro!: rules split: policy_decision.split)
  show "xok (on_db P) (gate_patch env a aid r) (ends env (\<lambda>_. P)) (on_db (Ok env))"
    unfolding gate_patch_def by (auto intro!: rules split: sum.split exec_error.split)
  show "xok (on_db P) (gate_command env a aid r) (ends env (\<lambda>_. P)) (on_db (Ok env))"
    unfolding gate_command_def by (auto intro!: rules split: policy_decision.split)
qed

subsection \<open>The mutating path\<close>

abbreviation opened :: "'w exec_env \<Rightarrow> nat \<Rightarrow> string \<Rightarrow> (string \<times> nat) list \<Rightarrow> db \<Rightarrow> bool" where
  "opened env n aid act \<equiv> St env (Some (n, aid), act)"

lemma intent_fields:
  "fields_get (intent_payload a aid r snap) ''actionId'' = VStr aid"
  by (simp add: intent_payload_def fields_get_def)

lemma intent_rule:
  assumes "aid \<notin> fst ` set act"
  shows "xok (on_db (St env (None, act)))
    (appendCoreEvent env (xevent env E_ACTION_INTENT (intent_payload a aid r snap)))
    (\<lambda>row. on_db (opened env (ev_seq row) aid act)) (on_db (St env (None, act)))"
proof (rule xok_weaken [OF appendCoreEvent_rule [where q' = "\<lambda>row. (Some (ev_seq row, aid), act)"]])
  fix row :: event
  assume "ev_type row = E_ACTION_INTENT" "ev_payload row = intent_payload a aid r snap"
  then show "pstep (None, act) row = Some (Some (ev_seq row, aid), act)"
    using assms by (simp add: pay_def intent_fields)
qed (auto simp: on_db_def)

lemma after_intent_rule:
  "xok (on_db (opened env n aid act)) (after_intent env a aid r prepared snap n)
     (\<lambda>res. on_db (Done env res)) (on_db (opened env n aid act))"
proof -
  have app: "xok (on_db (opened env n aid act)) (performApply env a r prepared) (\<lambda>_. on_db (opened env n aid act))
      (on_db (opened env n aid act))" by (rule xok_still [OF still_apply])
  have rec: "xok (on_db (opened env n aid act)) (reconcileAfterFailure env snap) (\<lambda>_. on_db (opened env n aid act))
      (on_db (opened env n aid act))" by (rule xok_still [OF still_reconcile])
  have chk: "xok (on_db (opened env n aid act)) (xport (xe_checkpoint env)) (\<lambda>_. on_db (opened env n aid act))
      (on_db (opened env n aid act))" by (rule xok_still [OF still_port])
  have rej: "xok (on_db (opened env n aid act)) (reject env aid why detail (seq_field (Some n))) (\<lambda>res. on_db (Done env res)) E"
    for why detail E
    by (rule xok_weaken [OF reject_closing]) (auto simp: seq_field_def fields_get_def on_db_def Done_def intro: St_Ok)
  have finished: "xok (on_db (opened env n aid act))
      (xbind (appendCoreEvent env (xevent env E_ACTION_APPLIED (applied_payload aid n [] ap))) (\<lambda>_. xret (ResApplied aid ap)))
      (\<lambda>res. on_db (Done env res)) (on_db (opened env n aid act))" for ap
    by (rule xok_bind [OF append_applied_rule]) (auto simp: on_db_def Done_def StO_Ok intro!: xok_ret)
  show ?thesis
    unfolding after_intent_def
    by (auto intro!: xok_throw xok_bind [OF app] xok_bind [OF rec] xok_bind [OF chk] rej finished split: sum.split)
qed

lemma mutation_failed_rule:
  assumes "case logged of None \<Rightarrow> P = Ok env | Some (n, snap) \<Rightarrow> (\<exists>act. P = opened env n aid act)"
  shows "xok (on_db P) (mutation_failed env aid logged e) (\<lambda>res. on_db (Done env res)) (on_db (Ok env))"
proof -
  have ok: "P d \<Longrightarrow> Ok env d" for d using assms by (cases logged) (auto intro: St_Ok)
  have rec: "xok (on_db P) (case logged of None \<Rightarrow> xret () | Some (_, snap) \<Rightarrow> reconcileAfterFailure env snap)
      (\<lambda>_. on_db P) (on_db (Ok env))"
    by (rule xok_weaken [where P' = "on_db P" and Q' = "\<lambda>_. on_db P" and E' = "on_db P"])
       (auto split: option.split simp: ok on_db_def [where P = P] on_db_def [where P = "Ok env"] simp del: split_paired_All
         intro!: xok_ret reconcile_rule)
  have rej: "xok (on_db P) (reject env aid why detail (seq_field (map_option fst logged) @ extra)) (\<lambda>res. on_db (Done env res)) E"
    if "fields_get extra ''intentSeq'' = VUndef" "fields_get extra ''invalidatesAppliedSeq'' = VUndef" for why detail extra E
  proof (cases logged)
    case None
    then show ?thesis using assms that by (auto simp: seq_field_def intro!: reject_Ok)
  next
    case (Some x)
    then obtain n snap act where x: "x = (n, snap)" "P = opened env n aid act" using assms by (cases x) auto
    have "fields_get (seq_field (Some n) @ extra) ''intentSeq'' = vint (int n)"
      "fields_get (seq_field (Some n) @ extra) ''invalidatesAppliedSeq'' = VUndef"
      using that by (simp_all add: seq_field_def fields_get_def)
    from reject_closing [OF this] show ?thesis
      unfolding Some x option.map fst_conv
      by (rule xok_weaken) (auto simp: on_db_def Done_def intro: St_Ok)
  qed
  have none: "fields_get [] k = VUndef" for k by (simp add: fields_get_def)
  have code: "fields_get [(''reasonCode'', v)] ''intentSeq'' = VUndef" "fields_get [(''reasonCode'', v)] ''invalidatesAppliedSeq'' = VUndef" for v
    by (simp_all add: fields_get_def)
  have thr: "on_db P s \<Longrightarrow> on_db (Ok env) s" for s :: "'a xstate" by (simp add: on_db_def ok)
  note rej0 = rej [OF none none, unfolded append_Nil2]
  show ?thesis
    unfolding mutation_failed_def Let_def
    by (cases e) (auto intro!: xok_throw thr xok_bind [OF rec] rej [OF code] rej0)
qed

lemma mutate_rule:
  "xok (on_db (Rdy env aid)) (mutate env a aid r prepared) (\<lambda>res. on_db (Done env res)) (on_db (Ok env))"
proof -
  have St: "xok (on_db (St env (None, act))) (mutate env a aid r prepared) (\<lambda>res. on_db (Done env res)) (on_db (Ok env))"
    if act: "aid \<notin> fst ` set act" for act
  proof -
    have chk: "xok (on_db (St env (None, act))) (xport f) (\<lambda>_. on_db (St env (None, act))) (on_db (St env (None, act)))"
      for f :: "('a, 'b) xport"
      by (rule xok_still [OF still_port])
    have ret: "xok (on_db (opened env (ev_seq row) aid act)) (xret (snap, ev_seq row))
        (\<lambda>x. on_db (opened env (snd x) aid act)) (on_db (St env (None, act)))" for row :: event and snap :: xsnap
      by (rule xok_ret) simp
    have start: "xok (on_db (St env (None, act)))
       (xbind (xport (xe_checkpoint env)) (\<lambda>_.
        xbind (xport (xe_snapshot env aid)) (\<lambda>snap.
        xbind (xport (xe_checkpoint env)) (\<lambda>_.
        xbind (appendCoreEvent env (xevent env E_ACTION_INTENT (intent_payload a aid r snap))) (\<lambda>intent.
        xret (snap, ev_seq intent))))))
       (\<lambda>x. on_db (opened env (snd x) aid act)) (on_db (St env (None, act)))"
      by (rule xok_bind [OF chk], rule xok_bind [OF chk], rule xok_bind [OF chk], rule xok_bind [OF intent_rule [OF act] ret])
    have att: "xok (on_db (St env (None, act)))
       (xattempt (xbind (xport (xe_checkpoint env)) (\<lambda>_.
        xbind (xport (xe_snapshot env aid)) (\<lambda>snap.
        xbind (xport (xe_checkpoint env)) (\<lambda>_.
        xbind (appendCoreEvent env (xevent env E_ACTION_INTENT (intent_payload a aid r snap))) (\<lambda>intent.
        xret (snap, ev_seq intent)))))))
       (\<lambda>x. case x of Inl _ \<Rightarrow> on_db (Ok env) | Inr y \<Rightarrow> on_db (opened env (snd y) aid act)) (on_db (Ok env))"
      by (rule xok_attempt [OF start]) (auto simp: on_db_def intro: St_Ok)
    show ?thesis
      unfolding mutate_def
    proof (rule xok_bind [OF att])
      fix x
      show "xok (case x of Inl _ \<Rightarrow> on_db (Ok env) | Inr y \<Rightarrow> on_db (opened env (snd y) aid act))
        (case x of Inl e \<Rightarrow> mutation_failed env aid None e
         | Inr (snap, n) \<Rightarrow> xcatch (after_intent env a aid r prepared snap n) (mutation_failed env aid (Some (n, snap))))
        (\<lambda>res. on_db (Done env res)) (on_db (Ok env))"
      proof (cases x)
        case (Inl e)
        then show ?thesis by (simp add: mutation_failed_rule)
      next
        case (Inr y)
        obtain snap n where y: "y = (snap, n)" by fastforce
        show ?thesis
          unfolding Inr y sum.case prod.case snd_conv
          by (rule xok_catch [OF after_intent_rule], rule mutation_failed_rule) auto
      qed
    qed
  qed
  show ?thesis unfolding Rdy_ex by (rule xok_ex, rule xok_fact, rule St)
qed

subsection \<open>Reading, and the whole\<close>

lemma read_event_rule:
  "xok (on_db (Ok env)) (appendCoreEvent env (xevent env E_ACTION_APPLIED
      [(''actionId'', VStr aid), (''resultHash'', VStr ref), (''outputRef'', VStr ref), (''duplicate'', VBool False)]))
     (\<lambda>_. on_db (Done env (ResApplied aid \<lparr>ap_hash = ref, ap_extra = [(''outputRef'', VStr ref)]\<rparr>))) (on_db (Ok env))"
proof -
  have "xok (on_db (St env q)) (appendCoreEvent env (xevent env E_ACTION_APPLIED
      [(''actionId'', VStr aid), (''resultHash'', VStr ref), (''outputRef'', VStr ref), (''duplicate'', VBool False)]))
     (\<lambda>_. on_db (Done env (ResApplied aid \<lparr>ap_hash = ref, ap_extra = [(''outputRef'', VStr ref)]\<rparr>))) (on_db (Ok env))" for q
    by (rule xok_weaken [OF appendCoreEvent_rule [where q = q and q' = "\<lambda>_. q"]])
       (cases q, auto simp: on_db_def pay_def fields_get_def Done_def told_def wrote_def Let_def intro: St_Ok)
  then show ?thesis by (subst (1) Ok_ex) (rule xok_ex)
qed

lemma read_file_rule:
  "xok (on_db (Ok env)) (read_file env a aid) (\<lambda>res. on_db (Done env res)) (on_db (Ok env))"
proof -
  have ok: "\<And>d. Ok env d \<Longrightarrow> Ok env d" .
  show ?thesis
    unfolding read_file_def Let_def
    by (auto intro!: still_then [OF _ ok] still_rules reject_plain xok_throw xok_bind [OF read_event_rule] xok_ret
          split: option.split sum.split exec_error.split)
qed

definition Told :: "'w exec_env \<Rightarrow> js_val \<Rightarrow> exec_result \<Rightarrow> db \<Rightarrow> bool" where
  "Told env a res d \<longleftrightarrow> Ok env d \<and> (val_get a ''type'' = VStr ''REQUEST_TOOL'' \<or> told env res d)"

lemma Done_Told: "on_db (Done env res) s \<Longrightarrow> on_db (Told env a res) s"
  by (simp add: on_db_def Done_def Told_def)

lemma told_weaken:
  "xok P m (\<lambda>res. on_db (Done env res)) E \<Longrightarrow> xok P m (\<lambda>res. on_db (Told env a res)) E"
  by (erule xok_weaken) (auto intro: Done_Told)

lemma run_tool_rule:
  assumes "val_get a ''type'' = VStr ''REQUEST_TOOL''"
  shows "xok (on_db (Ok env)) (run_tool env a aid r) (\<lambda>res. on_db (Told env a res)) (on_db (Ok env))"
proof -
  have "xok (on_db (Ok env)) (xport f) (\<lambda>res. on_db (Told env a res)) (on_db (Ok env))" for f
    by (rule xok_weaken [OF xok_still [OF still_port, of "Ok env"]]) (auto simp: on_db_def Told_def assms)
  then show ?thesis
    unfolding run_tool_def Let_def by (auto intro: told_weaken [OF reject_plain] split: option.split)
qed

lemma executeValidAction_rule:
  assumes "validate a = None"
  shows "xok (on_db (Ok env)) (executeValidAction env a aid r) (\<lambda>res. on_db (Told env a res)) (on_db (Ok env))"
proof -
  have ty: "val_get a ''type'' \<in> {VStr ''WRITE_FILE'', VStr ''APPLY_PATCH'', VStr ''RUN_COMMAND'', VStr ''READ_FILE'', VStr ''REQUEST_TOOL''}"
    using assms by (auto simp: validate_def Let_def split: if_splits)
  have mut: "is_mutating a \<Longrightarrow> cleared env a aid = Rdy env aid" by (simp add: cleared_def fun_eq_iff)
  have rd: "\<not> is_mutating a \<Longrightarrow> cleared env a aid = Ok env" by (simp add: cleared_def fun_eq_iff)
  note rdy = Rdy_Ok [of env aid]
  note gates = gates_rule [where P = "Rdy env aid", OF rdy] gates_rule [where P = "Ok env"]
  note mutate = told_weaken [OF mutate_rule]
  have body: "xok (on_db (cleared env a aid))
      (if val_get a ''type'' = VStr ''WRITE_FILE'' then xthen (gate_write env a aid r) (\<lambda>_. mutate env a aid r None)
      else if val_get a ''type'' = VStr ''READ_FILE'' then xthen (gate_read env a aid r) (\<lambda>_. read_file env a aid)
      else if val_get a ''type'' = VStr ''APPLY_PATCH'' then xthen (gate_patch env a aid r) (\<lambda>pt. mutate env a aid r (Some pt))
      else if val_get a ''type'' = VStr ''REQUEST_TOOL'' then run_tool env a aid r
      else xthen (gate_command env a aid r) (\<lambda>_. mutate env a aid r None))
      (\<lambda>res. on_db (Told env a res)) (on_db (Ok env))"
    using ty
    by (auto simp: mut rd is_mutating_def intro!: xthen_rule [OF gates(1)] xthen_rule [OF gates(3)] xthen_rule [OF gates(4)]
          xthen_rule [OF gates(6)] mutate told_weaken [OF read_file_rule] run_tool_rule Done_Told)
  show ?thesis
    unfolding executeValidAction_def Let_def
    by (rule xthen_rule [OF admit_rule xthen_rule [OF skip_rule]], rule body) (auto intro: Done_Told)
qed

theorem executeOnce_rule:
  "xok (on_db (Ok env)) (executeOnce env a r) (\<lambda>res. on_db (Told env a res)) (on_db (Ok env))"
proof -
  have code: "fields_get [(''reasonCode'', v)] ''intentSeq'' = VUndef" "fields_get [(''reasonCode'', v)] ''invalidatesAppliedSeq'' = VUndef" for v
    by (simp_all add: fields_get_def)
  have ok: "\<And>d. Ok env d \<Longrightarrow> Ok env d" .
  have run: "xok (on_db (Ok env))
     (xcatch
       (xbind (if is_mutating a then xport (xe_checkpoint env) else xret ()) (\<lambda>_. executeValidAction env a aid r))
       (\<lambda>e. case e of
              XFence m \<Rightarrow> reject env aid RCancelled m [(''reasonCode'', VStr ''lease_lost'')]
            | XFrozen why m \<Rightarrow> reject env aid why m []
            | _ \<Rightarrow> xthrow e)) (\<lambda>res. on_db (Told env a res)) (on_db (Ok env))" if v: "validate a = None" for aid
  proof (rule xok_catch [where E' = "on_db (Ok env)"])
    show "xok (on_db (Ok env))
      (xbind (if is_mutating a then xport (xe_checkpoint env) else xret ()) (\<lambda>_. executeValidAction env a aid r))
      (\<lambda>res. on_db (Told env a res)) (on_db (Ok env))"
      by (rule still_then [OF _ ok executeValidAction_rule [OF v]]) (intro still_rules)
    fix e
    show "xok (on_db (Ok env)) (case e of
              XFence m \<Rightarrow> reject env aid RCancelled m [(''reasonCode'', VStr ''lease_lost'')]
            | XFrozen why m \<Rightarrow> reject env aid why m []
            | _ \<Rightarrow> xthrow e) (\<lambda>res. on_db (Told env a res)) (on_db (Ok env))"
      by (cases e) (auto intro!: told_weaken [OF reject_plain] told_weaken [OF reject_Ok [OF code]] xok_throw)
  qed
  note plain = told_weaken [OF reject_plain]
  show ?thesis
  proof (cases "is_record a")
    case False
    then show ?thesis by (simp add: executeOnce_def Let_def plain)
  next
    case rec: True
    show ?thesis
    proof (cases "validate a")
      case None
      show ?thesis
        unfolding executeOnce_def Let_def None using rec
        by (simp only: not_True_eq_False if_False option.case) (rule run [OF None])
    next
      case (Some m)
      then show ?thesis using rec by (simp add: executeOnce_def Let_def plain)
    qed
  qed
qed

section \<open>Histories\<close>

text \<open>
  What can happen to the log of a task: an execution of any action in any world, a recovery, a crash that
  leaves an earlier log, a change of leases, and events of other writers. The events of other
  writers that are covered are no intents and no applications for the task, and rejections only without causal fields
  (\<open>aal/src/source.ts\<close> logs such rejections). Left out are the applications, without an intent, that the handler of
  the tool \<open>fusion.deliberate\<close> appends for the task (\<open>console/backend/src/fusion.ts\<close>).
\<close>

definition foreign :: "'w exec_env \<Rightarrow> new_event \<Rightarrow> bool" where
  "foreign env e \<longleftrightarrow>
     ne_task e \<noteq> Some (xe_task env) \<or> ne_run e \<noteq> xe_run env \<or>
     (ne_type e \<noteq> E_ACTION_INTENT \<and> ne_type e \<noteq> E_ACTION_APPLIED \<and>
      (ne_type e = E_ACTION_REJECTED \<longrightarrow>
         fields_get (ne_payload e) ''intentSeq'' = VUndef \<and> fields_get (ne_payload e) ''invalidatesAppliedSeq'' = VUndef))"

definition truncate_log :: "nat \<Rightarrow> db \<Rightarrow> db" where
  "truncate_log n d = d\<lparr>db_events := take n (db_events d), db_seq := length (take n (db_events d))\<rparr>"

inductive exec_reach :: "'w exec_env \<Rightarrow> db \<Rightarrow> bool" for env where
  start: "exec_reach env openDatabase"
| execute: "exec_reach env d \<Longrightarrow> exec_reach env (xs_db (snd (executeOnce env a r \<lparr>xs_db = d, xs_world = w\<rparr>)))"
| recover: "exec_reach env d \<Longrightarrow> exec_reach env (xs_db (snd (recoverWorktree env adm \<lparr>xs_db = d, xs_world = w\<rparr>)))"
| crash: "exec_reach env d \<Longrightarrow> exec_reach env (truncate_log n d)"
| lease: "exec_reach env d \<Longrightarrow> exec_reach env (d\<lparr>db_leases := l, db_fences := f\<rparr>)"
| other: "exec_reach env d \<Longrightarrow> foreign env e \<Longrightarrow> exec_reach env (snd (append ts e d))"

lemma xok_Ok:
  assumes "xok (on_db (Ok env)) m Q (on_db (Ok env))" "\<And>a s. Q a s \<Longrightarrow> on_db (Ok env) s" "Ok env d"
  shows "Ok env (xs_db (snd (m \<lparr>xs_db = d, xs_world = w\<rparr>)))"
proof -
  let ?s = "\<lparr>xs_db = d, xs_world = w\<rparr>"
  obtain res s' where run: "m ?s = (res, s')" by fastforce
  have pre: "on_db (Ok env) ?s" using assms(3) by (simp add: on_db_def)
  show ?thesis
  proof (cases res)
    case (Inl e)
    then show ?thesis using xokE [OF assms(1) pre, of e s'] run by (simp add: on_db_def)
  next
    case (Inr a)
    then show ?thesis using assms(2) xokD [OF assms(1) pre, of a s'] run by (simp add: on_db_def)
  qed
qed

lemma truncate_inv:
  assumes "log_inv d"
  shows "log_inv (truncate_log n d)"
proof -
  have ev: "map ev_seq (db_events d) = [1..<Suc (db_seq d)]" and len: "db_seq d = length (db_events d)"
    using assms by (simp_all only: log_inv_def)
  have "map ev_seq (take n (db_events d)) = [1..<Suc (min n (db_seq d))]"
    unfolding take_map [symmetric] ev by (simp add: take_upt min_def del: upt_Suc)
  then show ?thesis using len by (simp add: log_inv_def truncate_log_def min.commute del: upt_Suc)
qed

lemma Ok_truncate:
  assumes "Ok env d"
  shows "Ok env (truncate_log n d)"
proof -
  obtain q where "St env q d" using assms unfolding Ok_def by blast
  then have d: "log_inv d" "protocol (my_events env d) \<noteq> None" by (simp_all add: St_def)
  let ?P = "\<lambda>e. ev_task e = Some (xe_task env) \<and> ev_run e = xe_run env"
  have "my_events env d = my_events env (truncate_log n d) @ filter ?P (drop n (db_events d))"
    unfolding my_events_filter [OF d(1)] my_events_filter [OF truncate_inv [OF d(1)]]
    by (simp add: truncate_log_def filter_append [symmetric] del: filter_append)
  then have "protocol (my_events env (truncate_log n d)) \<noteq> None" using d(2) by (metis protocol_prefix)
  then show ?thesis unfolding Ok_def St_def using truncate_inv [OF d(1)] by blast
qed

lemma Ok_lease: "Ok env d \<Longrightarrow> Ok env (d\<lparr>db_leases := l, db_fences := f\<rparr>)"
  by (simp add: Ok_def St_def my_events_def all_events_def)

lemma Ok_foreign:
  assumes "Ok env d" "foreign env e"
  shows "Ok env (snd (append ts e d))"
proof -
  obtain q where "St env q d" using assms unfolding Ok_def by blast
  then have d: "log_inv d" "protocol (my_events env d) = Some q" by (simp_all add: St_def)
  obtain op act where q: "q = (op, act)" by fastforce
  have row: "ev_type (fst (insertEvent ts e d)) = ne_type e" "pay (fst (insertEvent ts e d)) k = fields_get (ne_payload e) k" for k
    by (simp_all add: pay_def)
  have "\<exists>q'. protocol (my_events env (snd (insertEvent ts e d))) = Some q'"
    using assms(2) d(2) by (auto simp: my_events_insert [OF d(1)] protocol_def prun_snoc q foreign_def row)
  then show ?thesis unfolding Ok_def St_def append_def using log_inv_insert [OF d(1)] by blast
qed

lemma Ok_open: "Ok env openDatabase"
proof -
  have "protocol (my_events env openDatabase) = Some (None, [])"
    by (simp add: protocol_def my_events_def all_events_def openDatabase_def)
  then show ?thesis unfolding Ok_def St_def using log_inv_open by blast
qed

theorem exec_reach_Ok: "exec_reach env d \<Longrightarrow> Ok env d"
proof (induction rule: exec_reach.induct)
  case start
  then show ?case by (rule Ok_open)
next
  case (execute d a r w)
  then show ?case by (intro xok_Ok [OF executeOnce_rule]) (auto simp: on_db_def Told_def)
next
  case (recover d adm w)
  then show ?case by (intro xok_Ok [OF recoverWorktree_rule]) (auto simp: on_db_def Rec_Ok)
qed (auto intro: Ok_truncate Ok_lease Ok_foreign)

end
