(* ===== verification/ExecGuarantees.thy ===== *)
theory ExecGuarantees
  imports ExecSafety "HOL-Library.Multiset"
begin

text \<open>
  What the executor guarantees over any history of executions, recoveries, crashes and foreign events, and a
  concrete worktree on which the guarantees are applied. The last section follows one history the protocol
  allows and recovery does not handle: the replay of a mutation that an earlier recovery has invalidated.
\<close>

section \<open>A concrete worktree\<close>

text \<open>
  The world is the tree, a string and its own hash, and whether the evidence store answers. A write appends
  its content, a snapshot keeps the tree.
\<close>

type_synonym demo_world = "string \<times> bool"

definition demo_env :: "demo_world exec_env" where
  "demo_env = \<lparr>xe_run = ''run'', xe_task = ''task'', xe_worktree = ''/w'',
     xe_now = (\<lambda>w. (0, w)), xe_fence = None,
     xe_write_policy = checkWrite (None :: (string \<Rightarrow> unit option) option), xe_read_policy = checkRead,
     xe_command_policy = checkCommand, xe_roots = writeRoots, xe_realpath = (\<lambda>_. Some), xe_persistent_outputs = [],
     xe_get = (\<lambda>v w. (if snd w then Inr (str_of v) else Inl (XOther ''blob missing''), w)), xe_put = (\<lambda>c w. (Inr c, w)), xe_checkpoint = (\<lambda>w. (Inr (), w)),
     xe_check_paths = (\<lambda>_ _ _ w. (Inr (), w)), xe_before_commit = (\<lambda>_ w. (Inr (), w)),
     xe_apply_write = (\<lambda>_ _ c w. (Inr (), (fst w @ c, snd w))),
     xe_prepare_patch = (\<lambda>_ w. (Inl (XOther ''no patch''), w)), xe_check_patch = (\<lambda>_ _ w. (Inr (), w)),
     xe_apply_patch = (\<lambda>_ _ w. (Inr (), w)), xe_command = (\<lambda>_ _ w. (Inr (CrSandbox ''blob://c''), w)),
     xe_capture = (\<lambda>w. (Inr (fst w), w)),
     xe_snapshot = (\<lambda>_ w. (Inr \<lparr>sn_ref = replicate 40 CHR ''a'', sn_persistent = fst w, sn_artifact = None\<rparr>, w)),
     xe_rollback = (\<lambda>s w. (Inr (), (sn_persistent s, snd w))), xe_load_artifact = (\<lambda>_ w. (Inr (), w)),
     xe_load_persistent = (\<lambda>_ w. (Inr (), w)), xe_read = (\<lambda>_ w. (Inr (fst w), w)), xe_list = (\<lambda>w. ([], w)),
     xe_tool = (\<lambda>_. None), xe_number = (\<lambda>_. ''0''), xe_crash_after_intent = False, xe_crash_after_apply = False\<rparr>"

definition demo_write :: "string \<Rightarrow> string \<Rightarrow> js_val" where
  "demo_write aid content =
     VObj [(''actionId'', VStr aid), (''type'', VStr ''WRITE_FILE''), (''path'', VStr ''src/x''), (''contentRef'', VStr content)]"

text \<open>Two writes, one after the other, as the log shows them.\<close>

definition demo_intent :: "nat \<Rightarrow> string \<Rightarrow> string \<Rightarrow> string \<Rightarrow> event" where
  "demo_intent n aid content tree =
     \<lparr>ev_seq = n, ev_ts = 0, ev_run = ''run'', ev_task = Some ''task'', ev_type = E_ACTION_INTENT,
      ev_payload = intent_payload (demo_write aid content) aid Implementer
        \<lparr>sn_ref = replicate 40 CHR ''a'', sn_persistent = tree, sn_artifact = None\<rparr>\<rparr>"

definition demo_applied :: "nat \<Rightarrow> string \<Rightarrow> string \<Rightarrow> event" where
  "demo_applied n aid tree =
     \<lparr>ev_seq = Suc n, ev_ts = 0, ev_run = ''run'', ev_task = Some ''task'', ev_type = E_ACTION_APPLIED,
      ev_payload = applied_payload aid n [] \<lparr>ap_hash = tree, ap_extra = []\<rparr>\<rparr>"

definition demo_log :: "event list \<Rightarrow> db" where
  "demo_log es = \<lparr>db_events = es, db_seq = length es, db_leases = Map.empty, db_fences = Map.empty\<rparr>"

definition demo_first :: "event list" where
  "demo_first = [demo_intent 1 ''a'' ''1'' [], demo_applied 1 ''a'' ''1'']"

definition demo_second :: "event list" where
  "demo_second = [demo_intent 3 ''b'' ''2'' ''1'', demo_applied 3 ''b'' ''12'']"

definition demo_db :: db where
  "demo_db = demo_log (demo_first @ demo_second)"

definition demo_execute :: "js_val \<Rightarrow> db \<Rightarrow> demo_world \<Rightarrow> (exec_error + exec_result) \<times> demo_world xstate" where
  "demo_execute a d w = executeOnce demo_env a Implementer \<lparr>xs_db = d, xs_world = w\<rparr>"

definition demo_recover :: "db \<Rightarrow> demo_world \<Rightarrow> (exec_error + recovery_report) \<times> demo_world xstate" where
  "demo_recover d w = recoverWorktree demo_env False \<lparr>xs_db = d, xs_world = w\<rparr>"

text \<open>A log is reached by its events; leases play no part here.\<close>

lemma demo_log_reached:
  assumes "exec_reach demo_env d" "db_events d = es" "db_seq d = length es"
  shows "exec_reach demo_env (demo_log es)"
proof -
  have "demo_log es = d\<lparr>db_leases := Map.empty, db_fences := Map.empty\<rparr>" using assms(2,3) by (simp add: demo_log_def)
  then show ?thesis using exec_reach.lease [OF assms(1)] by simp
qed

lemma demo_execute_reached: "exec_reach demo_env d \<Longrightarrow> exec_reach demo_env (xs_db (snd (demo_execute a d w)))"
  unfolding demo_execute_def by (rule exec_reach.execute)

lemma demo_recover_reached: "exec_reach demo_env d \<Longrightarrow> exec_reach demo_env (xs_db (snd (demo_recover d w)))"
  unfolding demo_recover_def by (rule exec_reach.recover)

lemma demo_first_reached: "exec_reach demo_env (demo_log demo_first)"
proof (rule demo_log_reached [OF demo_execute_reached [OF exec_reach.start]])
  show "db_events (xs_db (snd (demo_execute (demo_write ''a'' ''1'') openDatabase ([], True)))) = demo_first" by code_simp
  show "db_seq (xs_db (snd (demo_execute (demo_write ''a'' ''1'') openDatabase ([], True)))) = length demo_first" by code_simp
qed

lemma demo_db_reached: "exec_reach demo_env demo_db"
  unfolding demo_db_def
proof (rule demo_log_reached [OF demo_execute_reached [OF demo_first_reached]])
  show "db_events (xs_db (snd (demo_execute (demo_write ''b'' ''2'') (demo_log demo_first) (''1'', True)))) =
    demo_first @ demo_second" by code_simp
  show "db_seq (xs_db (snd (demo_execute (demo_write ''b'' ''2'') (demo_log demo_first) (''1'', True)))) =
    length (demo_first @ demo_second)" by code_simp
qed

section \<open>At most once\<close>

lemma exec_reach_St:
  assumes "exec_reach env d"
  obtains q where "St env q d"
  using exec_reach_Ok [OF assms] that by (auto simp: Ok_def)

lemma one_dangling:
  assumes "St env q d"
  shows "length (danglingMutatingIntents env d) \<le> 1"
proof -
  let ?gs = "danglingMutatingIntents env d"
  have l: "linked_all q (mutatingIntentHistory env d)" by (rule history_linked [OF assms])
  have seq: "\<exists>a. fst q = Some (ev_seq (gn_intent g), a)" if "g \<in> set ?gs" for g
    using that l by (auto simp: danglingMutatingIntents_def linked_all_def list_all_iff linked_def)
  have dist: "distinct (map (ev_seq \<circ> gn_intent) ?gs)"
    using l by (auto simp: danglingMutatingIntents_def linked_all_def distinct_map_filter)
  show ?thesis
  proof (rule ccontr)
    assume "\<not> ?thesis"
    then obtain x y zs where xy: "?gs = x # y # zs" by (cases ?gs; cases "tl ?gs") auto
    then show False using dist seq [of x] seq [of y] by auto
  qed
qed

lemma one_terminal:
  assumes "St env q d" "g \<in> set (mutatingIntentHistory env d)"
  shows "length (gn_terminals g) \<le> 1"
  using St_tracked [OF assms(1)] assms(2)
  by (auto simp: mutatingIntentHistory_def history_map tracked_def terms_ok_def)

text \<open>The mutations in force, by action: each is an application of the automaton's state.\<close>

lemma in_force_once:
  assumes "St env q d"
  shows "distinct (map (\<lambda>e. pay e ''actionId'') (filter (\<lambda>e. is_num (pay e ''intentSeq'')) (activeAppliedEvents env d)))"
proof -
  let ?es = "my_events env d" and ?key = "\<lambda>e. pay e ''actionId''"
  let ?mut = "filter (\<lambda>e. is_num (pay e ''intentSeq'')) (activeAppliedEvents env d)"
  have tr: "act_complete ?es (snd q)" "distinct (map fst (snd q))"
    using St_tracked [OF assms] by (simp_all add: tracked_def)
  have ord: "in_order ?es" using assms my_events_order by (auto simp: St_def)
  have "mset ?mut = filter_mset (\<lambda>e. is_num (pay e ''intentSeq'')) (filter_mset (in_force ?es) (mset ?es))"
    by (simp only: activeAppliedEvents_def Let_def mset_filter mset_sort)
  also have "\<dots> = mset (filter (mutation_in_force ?es) ?es)"
    by (simp add: filter_filter_mset mutation_in_force_def)
  finally have mset: "mset ?mut = mset (filter (mutation_in_force ?es) ?es)" .
  have "inj_on ?key (set (filter (mutation_in_force ?es) ?es))"
  proof (rule inj_onI)
    fix x y
    assume *: "x \<in> set (filter (mutation_in_force ?es) ?es)" "y \<in> set (filter (mutation_in_force ?es) ?es)" "?key x = ?key y"
    then have es: "x \<in> set ?es" "y \<in> set ?es" by simp_all
    have act: "\<exists>a. ?key e = VStr a \<and> (a, ev_seq e) \<in> set (snd q)"
      if "e \<in> set (filter (mutation_in_force ?es) ?es)" for e
      using tr(1) that by (auto simp: act_complete_def)
    obtain a where a: "?key x = VStr a" "(a, ev_seq x) \<in> set (snd q)" using act [OF *(1)] by blast
    obtain b where b: "?key y = VStr b" "(b, ev_seq y) \<in> set (snd q)" using act [OF *(2)] by blast
    have "(a, ev_seq y) \<in> set (snd q)" using a b *(3) by simp
    with a(2) have "ev_seq x = ev_seq y" by (rule eq_key_imp_eq_value [OF tr(2)])
    then show "x = y" by (rule in_order_inj [OF ord es])
  qed
  moreover have "distinct ?es" using in_order_distinct [OF ord] by (simp add: distinct_map)
  ultimately have dist: "distinct (map ?key (filter (mutation_in_force ?es) ?es))" by (simp add: distinct_map)
  have "mset (map ?key ?mut) = mset (map ?key (filter (mutation_in_force ?es) ?es))" by (simp only: mset_map mset)
  from iffD2 [OF mset_eq_imp_distinct_iff [OF this] dist] show ?thesis .
qed

text \<open>C1: whatever executions, recoveries, crashes, lease changes and foreign events a task has seen (foreign events
  being those of other writers that are neither intents nor applications of the task), at
  most one mutating intent is open, every intent has at most one terminal event, and of every action at
  most one mutation is in force.\<close>

theorem mutations_apply_at_most_once:
  assumes "exec_reach env d"
  shows "length (danglingMutatingIntents env d) \<le> 1 \<and>
    list_all (\<lambda>g. length (gn_terminals g) \<le> 1) (mutatingIntentHistory env d) \<and>
    distinct (map (\<lambda>e. pay e ''actionId'') (filter (\<lambda>e. is_num (pay e ''intentSeq'')) (activeAppliedEvents env d)))"
proof (rule exec_reach_St [OF assms], intro conjI)
  fix q
  assume q: "St env q d"
  show "length (danglingMutatingIntents env d) \<le> 1" by (rule one_dangling [OF q])
  show "list_all (\<lambda>g. length (gn_terminals g) \<le> 1) (mutatingIntentHistory env d)"
    using one_terminal [OF q] by (simp add: list_all_iff)
  show "distinct (map (\<lambda>e. pay e ''actionId'') (filter (\<lambda>e. is_num (pay e ''intentSeq'')) (activeAppliedEvents env d)))"
    by (rule in_force_once [OF q])
qed

theorem mutations_apply_at_most_once_witness:
  "length (danglingMutatingIntents demo_env demo_db) \<le> 1 \<and>
   map (\<lambda>e. pay e ''actionId'') (activeAppliedEvents demo_env demo_db) = [VStr ''a'', VStr ''b'']"
proof -
  have "map (\<lambda>e. pay e ''actionId'') (activeAppliedEvents demo_env demo_db) = [VStr ''a'', VStr ''b'']" by code_simp
  then show ?thesis using mutations_apply_at_most_once [OF demo_db_reached] by simp
qed

section \<open>The result is the log\<close>

text \<open>C24: what \<open>executeOnce\<close> answers is what it logged last: an applied action with its artifact identity, a
  skipped one as a duplicate, a refused one with its reason and detail. Only tools answer for themselves.\<close>

theorem execution_reports_what_it_logged:
  assumes "exec_reach env d" "val_get a ''type'' \<noteq> VStr ''REQUEST_TOOL''"
    and "executeOnce env a r \<lparr>xs_db = d, xs_world = w\<rparr> = (Inr res, s')"
  shows "my_events env (xs_db s') \<noteq> [] \<and>
    (let e = last (my_events env (xs_db s')) in
     case res of
       ResApplied aid ap \<Rightarrow>
         ev_type e = E_ACTION_APPLIED \<and> pay e ''actionId'' = VStr aid \<and> pay e ''duplicate'' = VBool False \<and>
         pay e ''resultHash'' = VStr (ap_hash ap)
     | ResSkipped aid \<Rightarrow>
         ev_type e = E_ACTION_APPLIED \<and> pay e ''actionId'' = VStr aid \<and> pay e ''duplicate'' = VBool True
     | ResRejected rj \<Rightarrow>
         ev_type e = E_ACTION_REJECTED \<and> pay e ''actionId'' = VStr (rej_action rj) \<and>
         pay e ''reason'' = VStr (reason_name (rej_reason rj)) \<and> pay e ''detail'' = VStr (rej_detail rj))"
  using xokD [OF executeOnce_rule _ assms(3)] exec_reach_Ok [OF assms(1)] assms(2)
  by (simp add: on_db_def Told_def told_def Let_def)

text \<open>The second write of an action in force is skipped.\<close>

definition demo_again :: "(exec_error + exec_result) \<times> demo_world xstate" where
  "demo_again = demo_execute (demo_write ''a'' ''3'') demo_db (''12'', True)"

theorem execution_reports_what_it_logged_witness:
  "fst demo_again = Inr (ResSkipped ''a'') \<and>
   pay (last (my_events demo_env (xs_db (snd demo_again)))) ''duplicate'' = VBool True"
proof -
  have skipped: "fst demo_again = Inr (ResSkipped ''a'')" by code_simp
  then have run: "executeOnce demo_env (demo_write ''a'' ''3'') Implementer \<lparr>xs_db = demo_db, xs_world = (''12'', True)\<rparr> =
      (Inr (ResSkipped ''a''), snd demo_again)" by (metis demo_again_def demo_execute_def prod.collapse)
  have "val_get (demo_write ''a'' ''3'') ''type'' \<noteq> VStr ''REQUEST_TOOL''" by code_simp
  from execution_reports_what_it_logged [OF demo_db_reached this run] show ?thesis
    using skipped by (simp only: exec_result.case Let_def)
qed

section \<open>Recovery\<close>

text \<open>C5: a recovery that reports coherence leaves no mutating intent open, whatever crash it found.\<close>

theorem coherent_recovery_closes_every_intent:
  assumes "exec_reach env d" "recoverWorktree env admission \<lparr>xs_db = d, xs_world = w\<rparr> = (Inr report, s')"
    and "rr_coherent report"
  shows "danglingMutatingIntents env (xs_db s') = []"
  using xokD [OF recoverWorktree_rule _ assms(2)] exec_reach_Ok [OF assms(1)] assms(3)
  by (intro idle_no_dangling) (simp add: on_db_def Rec_def)

text \<open>A crash between the second intent and its terminal event: the write is applied again and logged.\<close>

definition demo_crashed :: db where
  "demo_crashed = truncate_log 3 demo_db"

definition demo_recovered :: "(exec_error + recovery_report) \<times> demo_world xstate" where
  "demo_recovered = demo_recover demo_crashed (''1?'', True)"

theorem coherent_recovery_closes_every_intent_witness:
  "length (danglingMutatingIntents demo_env demo_crashed) = 1 \<and>
   danglingMutatingIntents demo_env (xs_db (snd demo_recovered)) = [] \<and>
   fst (xs_world (snd demo_recovered)) = ''12''"
proof -
  have one: "length (danglingMutatingIntents demo_env demo_crashed) = 1" by code_simp
  have w: "fst (xs_world (snd demo_recovered)) = ''12''" by code_simp
  have "(case fst demo_recovered of Inl _ \<Rightarrow> False | Inr r \<Rightarrow> rr_coherent r)" by code_simp
  then obtain r where r: "fst demo_recovered = Inr r" "rr_coherent r" by (cases "fst demo_recovered") auto
  then have run: "recoverWorktree demo_env False \<lparr>xs_db = demo_crashed, xs_world = (''1?'', True)\<rparr> =
      (Inr r, snd demo_recovered)" by (metis demo_recovered_def demo_recover_def prod.collapse)
  have "exec_reach demo_env demo_crashed"
    unfolding demo_crashed_def by (rule exec_reach.crash [OF demo_db_reached])
  from coherent_recovery_closes_every_intent [OF this run r(2)] show ?thesis using one w by blast
qed

section \<open>A mutation that recovery brings back\<close>

text \<open>
  The history behind the finding on \<open>recoverWorktree\<close>. Evidence is missing when \<open>b\<close> is to be replayed, so
  its application is invalidated and the tree is left as \<open>a\<close> made it. When the tree is tampered with once
  more, the evidence being back, the replayed suffix holds \<open>b\<close> again: its intent still has the terminal
  \<open>ACTION_APPLIED\<close>, and whether that application is in force is not asked. The recovery reports coherence
  with \<open>b\<close> in the tree, and only \<open>a\<close> in force.
\<close>

definition demo_invalidation :: event where
  "demo_invalidation =
     \<lparr>ev_seq = 5, ev_ts = 0, ev_run = ''run'', ev_task = Some ''task'', ev_type = E_ACTION_REJECTED,
      ev_payload = reject_payload ''b'' RCommandArtifactUnavailable
        ''recovery invalidated accepted suffix event 4: blob missing'' [(''invalidatesAppliedSeq'', vint 4)]\<rparr>"

definition demo_invalidated :: db where
  "demo_invalidated = demo_log (demo_first @ demo_second @ [demo_invalidation])"

lemma demo_invalidated_reached: "exec_reach demo_env demo_invalidated"
  unfolding demo_invalidated_def
proof (rule demo_log_reached [OF demo_recover_reached [OF demo_db_reached]])
  show "db_events (xs_db (snd (demo_recover demo_db (''12z'', False)))) = demo_first @ demo_second @ [demo_invalidation]"
    by code_simp
  show "db_seq (xs_db (snd (demo_recover demo_db (''12z'', False)))) = length (demo_first @ demo_second @ [demo_invalidation])"
    by code_simp
qed

definition demo_revived :: "(exec_error + recovery_report) \<times> demo_world xstate" where
  "demo_revived = demo_recover demo_invalidated (''1z'', True)"

lemma revived_coherent: "(case fst demo_revived of Inl _ \<Rightarrow> False | Inr r \<Rightarrow> rr_coherent r)"
  by code_simp

lemma revived_log: "db_events (xs_db (snd demo_revived)) = db_events demo_invalidated"
  by code_simp

lemma revived_in_force:
  "map (\<lambda>e. pay e ''actionId'') (activeAppliedEvents demo_env demo_invalidated) = [VStr ''a'']"
  by code_simp

theorem recovery_revives_an_invalidated_mutation:
  "exec_reach demo_env demo_invalidated \<and>
   (case fst demo_revived of Inl _ \<Rightarrow> False | Inr r \<Rightarrow> rr_coherent r) \<and>
   fst (xs_world (snd demo_revived)) = ''12'' \<and>
   map (\<lambda>e. pay e ''actionId'') (activeAppliedEvents demo_env (xs_db (snd demo_revived))) = [VStr ''a'']"
proof (intro conjI)
  show "fst (xs_world (snd demo_revived)) = ''12''" by code_simp
  show "map (\<lambda>e. pay e ''actionId'') (activeAppliedEvents demo_env (xs_db (snd demo_revived))) = [VStr ''a'']"
    using revived_in_force by (simp add: activeAppliedEvents_def my_events_def all_events_def revived_log)
qed (rule demo_invalidated_reached revived_coherent)+

end
