(* ===== verification/Governance.thy ===== *)
theory Governance
  imports PrReview PathPolicy
begin

text \<open>
  Meta-governance (\<open>core/src/governance/policy.ts\<close>): a run starts only on the policy files a human approved
  last. The governance log is its sequence of parsed lines, oldest first; appending serializes a record,
  which drops fields that are \<open>undefined\<close>. Records come from a file and are any JSON value; reading a field
  of \<open>null\<close> throws, which is the left value. SHA-256, the collation of \<open>localeCompare\<close> and the rendering of
  a number are arguments; \<open>ts\<close> is the ISO rendering of the clock reading.
\<close>

section \<open>Policy snapshots\<close>

definition POLICY_FILES :: "string list" where
  "POLICY_FILES =
     [''gate-ladder.json'', ''security-plane.json'', ''automation.json'', ''provider-data-policy.json'',
      ''routing.json'', ''fusion-profiles.json'', ''pr-quality-gate.json'', ''agent-capabilities.json'']"

definition ABSENT :: string where
  "ABSENT = ''absent''"

text \<open>A policy directory maps the name of an existing file to its bytes.\<close>

definition computePolicySnapshot :: "(string \<Rightarrow> string) \<Rightarrow> (string \<Rightarrow> string option) \<Rightarrow> (string \<times> string) list" where
  "computePolicySnapshot sha dir =
     map (\<lambda>name. (name, case dir name of Some content \<Rightarrow> sha content | None \<Rightarrow> ABSENT)) POLICY_FILES"

definition nl :: string where
  "nl = [CHR 0x0A]"

definition snapshotHash :: "(string \<Rightarrow> string \<Rightarrow> bool) \<Rightarrow> (string \<Rightarrow> string) \<Rightarrow> (string \<times> string) list \<Rightarrow> string" where
  "snapshotHash loc sha files =
     sha (join nl (map (\<lambda>(path, h). path @ '':'' @ h) (sort_by (\<lambda>a b. loc (fst a) (fst b)) files)))"

section \<open>Records\<close>

definition PROPOSED :: js_val where
  "PROPOSED = VStr ''GOVERNANCE_PROPOSED''"

definition CHANGED :: js_val where
  "CHANGED = VStr ''GOVERNANCE_CHANGE''"

text \<open>\<open>r.k\<close> of a parsed value.\<close>

definition gov_get :: "js_val \<Rightarrow> string \<Rightarrow> string + js_val" where
  "gov_get r k = (if r = VNull \<or> r = VUndef then Inl ''TypeError'' else Inr (val_get r k))"

definition json_obj :: "payload \<Rightarrow> js_val" where
  "json_obj fs = VObj (filter (\<lambda>(_, v). v \<noteq> VUndef) fs)"

definition governanceProposalId ::
    "(js_num \<Rightarrow> string) \<Rightarrow> (string \<Rightarrow> string) \<Rightarrow> string \<Rightarrow> js_val \<Rightarrow> string \<Rightarrow> string option \<Rightarrow> string" where
  "governanceProposalId shw sha kind beforeHash afterHash taskId =
     ''gov-'' @ take 16 (sha (join nl [kind, js_String shw (nullish beforeHash (VStr ''null'')), afterHash,
       case taskId of None \<Rightarrow> [] | Some t \<Rightarrow> t]))"

fun last_policy_hash :: "js_val \<Rightarrow> js_val list \<Rightarrow> string + js_val" where
  "last_policy_hash h [] = Inr h"
| "last_policy_hash h (r # rs) =
     e_bind (gov_get r ''type'') (\<lambda>t.
       last_policy_hash (if t = CHANGED \<and> val_get r ''kind'' = VStr ''policy_change'' then val_get r ''afterHash'' else h) rs)"

definition lastApprovedPolicyHash :: "js_val list \<Rightarrow> string + js_val" where
  "lastApprovedPolicyHash records = last_policy_hash VNull records"

definition has_val :: "js_val list \<Rightarrow> js_val \<Rightarrow> bool" where
  "has_val vs v \<longleftrightarrow> list_ex (\<lambda>w. strict_eq w v) vs"

text \<open>\<open>const { type, ts, ...proposal } = r\<close>\<close>

fun proposal_of :: "js_val \<Rightarrow> js_val" where
  "proposal_of (VObj fs) = VObj (filter (\<lambda>(k, _). k \<noteq> ''type'' \<and> k \<noteq> ''ts'') fs)"
| "proposal_of v = v"

fun pending_from :: "js_val list \<Rightarrow> js_val list \<Rightarrow> js_val list \<Rightarrow> js_val list" where
  "pending_from approved seen [] = []"
| "pending_from approved seen (r # rs) =
     (if val_get r ''type'' \<noteq> PROPOSED \<or> has_val approved (val_get r ''id'') \<or> has_val seen (val_get r ''id'')
      then pending_from approved seen rs
      else proposal_of r # pending_from approved (val_get r ''id'' # seen) rs)"

definition listPendingProposals :: "js_val list \<Rightarrow> string + js_val list" where
  "listPendingProposals records =
     e_bind (e_map (\<lambda>r. gov_get r ''type'') records) (\<lambda>_.
     Inr (pending_from (map (\<lambda>r. val_get r ''id'') (filter (\<lambda>r. val_get r ''type'' = CHANGED) records)) [] records))"

section \<open>Proposing\<close>

definition proposal_fields :: "string \<Rightarrow> string \<Rightarrow> js_val \<Rightarrow> string \<Rightarrow> string \<Rightarrow> payload \<Rightarrow> payload" where
  "proposal_fields pid kind beforeHash afterHash rationale extra =
     [(''id'', VStr pid), (''kind'', VStr kind), (''beforeHash'', beforeHash), (''afterHash'', VStr afterHash),
      (''rationale'', VStr rationale)] @ extra"

definition already_proposed :: "string \<Rightarrow> js_val list \<Rightarrow> string + bool" where
  "already_proposed pid records =
     e_some (\<lambda>r. e_bind (gov_get r ''type'') (\<lambda>t. Inr (t = PROPOSED \<and> strict_eq (val_get r ''id'') (VStr pid)))) records"

definition proposed_record :: "string \<Rightarrow> payload \<Rightarrow> js_val" where
  "proposed_record ts fs = json_obj ([(''type'', PROPOSED), (''ts'', VStr ts)] @ fs)"

definition record_proposal :: "string \<Rightarrow> string \<Rightarrow> payload \<Rightarrow> js_val list \<Rightarrow> string + js_val list" where
  "record_proposal ts pid fs records =
     e_bind (already_proposed pid records) (\<lambda>b.
     Inr (if b then records else records @ [proposed_record ts fs]))"

datatype ensure_result =
    EnsureOk string
  | PolicyUnapproved js_val string

text \<open>An operation returns its result and the log it leaves; a throw leaves the log as it was.\<close>

type_synonym 'a gov = "js_val list \<Rightarrow> (string + 'a) \<times> js_val list"

definition gov_return :: "string + 'a \<times> js_val list \<Rightarrow> 'a gov" where
  "gov_return r recs = (case r of Inl e \<Rightarrow> (Inl e, recs) | Inr (a, recs') \<Rightarrow> (Inr a, recs'))"

definition ensureGovernanceApproved ::
    "(string \<Rightarrow> string \<Rightarrow> bool) \<Rightarrow> (js_num \<Rightarrow> string) \<Rightarrow> (string \<Rightarrow> string) \<Rightarrow> (string \<Rightarrow> string option) \<Rightarrow> string option \<Rightarrow> string
       \<Rightarrow> ensure_result gov" where
  "ensureGovernanceApproved loc shw sha dir rationale ts recs = gov_return
     (let afterHash = snapshotHash loc sha (computePolicySnapshot sha dir) in
      e_bind (lastApprovedPolicyHash recs) (\<lambda>beforeHash.
      if strict_eq beforeHash (VStr afterHash) then Inr (EnsureOk afterHash, recs)
      else
        let pid = governanceProposalId shw sha ''policy_change'' beforeHash afterHash None;
            fs = proposal_fields pid ''policy_change'' beforeHash afterHash
              (case rationale of None \<Rightarrow> ''policy snapshot changed'' | Some r \<Rightarrow> r) [] in
        e_bind (record_proposal ts pid fs recs) (\<lambda>recs'.
        Inr (PolicyUnapproved (VObj fs) (''platform governance approve '' @ pid), recs')))) recs"

definition proposeLessonPromotion ::
    "(js_num \<Rightarrow> string) \<Rightarrow> (string \<Rightarrow> string) \<Rightarrow> string \<Rightarrow> string option \<Rightarrow> string \<Rightarrow> js_val gov" where
  "proposeLessonPromotion shw sha lessonId rationale ts recs = gov_return
     (let afterHash = ''lesson:'' @ lessonId;
          pid = governanceProposalId shw sha ''lesson_promote'' VNull afterHash (Some lessonId);
          fs = proposal_fields pid ''lesson_promote'' VNull afterHash
            (case rationale of None \<Rightarrow> ''lesson '' @ lessonId @ '' proposed for promotion'' | Some r \<Rightarrow> r)
            [(''lessonId'', VStr lessonId)] in
      e_bind (record_proposal ts pid fs recs) (\<lambda>recs'. Inr (VObj fs, recs'))) recs"

definition proposeFlakyQuarantine ::
    "(js_num \<Rightarrow> string) \<Rightarrow> (string \<Rightarrow> string) \<Rightarrow> string \<Rightarrow> string option \<Rightarrow> string \<Rightarrow> js_val gov" where
  "proposeFlakyQuarantine shw sha taskId rationale ts recs = gov_return
     (let afterHash = ''flaky:'' @ taskId;
          pid = governanceProposalId shw sha ''flaky_quarantine'' VNull afterHash (Some taskId);
          fs = proposal_fields pid ''flaky_quarantine'' VNull afterHash
            (case rationale of None \<Rightarrow> ''flaky gate suspected for task '' @ taskId | Some r \<Rightarrow> r)
            [(''taskId'', VStr taskId)] in
      e_bind (record_proposal ts pid fs recs) (\<lambda>recs'. Inr (VObj fs, recs'))) recs"

section \<open>Approving\<close>

datatype decided_by = ByHuman | ByFixture

definition decided_val :: "decided_by \<Rightarrow> js_val" where
  "decided_val d = VStr (case d of ByHuman \<Rightarrow> ''human'' | ByFixture \<Rightarrow> ''ci-fixture'')"

definition change_fields :: "string \<Rightarrow> js_val \<Rightarrow> decided_by \<Rightarrow> payload" where
  "change_fields ts p by =
     [(''type'', CHANGED), (''ts'', VStr ts)] @
     map (\<lambda>k. (k, val_get p k)) [''id'', ''kind'', ''beforeHash'', ''afterHash'', ''rationale''] @
     [(''decidedBy'', decided_val by), (''taskId'', val_get p ''taskId''), (''lessonId'', val_get p ''lessonId'')]"

datatype approve_result = Approved js_val | NoSuchProposal

definition approveProposal :: "string \<Rightarrow> decided_by \<Rightarrow> string \<Rightarrow> approve_result gov" where
  "approveProposal pid by ts recs = gov_return
     (e_bind (listPendingProposals recs) (\<lambda>ps.
      case find (\<lambda>p. strict_eq (val_get p ''id'') (VStr pid)) ps of
        None \<Rightarrow> Inr (NoSuchProposal, recs)
      | Some p \<Rightarrow> let change = json_obj (change_fields ts p by) in Inr (Approved change, recs @ [change]))) recs"

text \<open>The hooks an approval fires, in order.\<close>

datatype gov_hook = FireQuarantine js_val | PromoteLesson js_val

definition approval_hooks :: "bool \<Rightarrow> js_val \<Rightarrow> gov_hook list" where
  "approval_hooks promotes change =
     (if val_get change ''kind'' = VStr ''flaky_quarantine'' \<and> val_get change ''taskId'' \<noteq> VUndef
      then [FireQuarantine (val_get change ''taskId'')] else []) @
     (if val_get change ''kind'' = VStr ''lesson_promote'' \<and> val_get change ''lessonId'' \<noteq> VUndef \<and> promotes
      then [PromoteLesson (val_get change ''lessonId'')] else [])"

definition applyGovernanceApproval :: "string \<Rightarrow> bool \<Rightarrow> string \<Rightarrow> (js_val option \<times> gov_hook list) gov" where
  "applyGovernanceApproval pid promotes ts recs =
     (case approveProposal pid ByHuman ts recs of
        (Inl e, recs') \<Rightarrow> (Inl e, recs')
      | (Inr NoSuchProposal, recs') \<Rightarrow> (Inr (None, []), recs')
      | (Inr (Approved change), recs') \<Rightarrow> (Inr (Some (val_get change ''kind''), approval_hooks promotes change), recs'))"

fun quarantines_from :: "js_val list \<Rightarrow> js_val list \<Rightarrow> string + js_val list" where
  "quarantines_from seen [] = Inr []"
| "quarantines_from seen (r # rs) =
     e_bind (gov_get r ''type'') (\<lambda>t.
     let task = val_get r ''taskId'' in
     if t = CHANGED \<and> val_get r ''kind'' = VStr ''flaky_quarantine'' \<and> task \<noteq> VUndef \<and> \<not> has_val seen task
     then e_bind (quarantines_from (task # seen) rs) (\<lambda>out. Inr (task # out))
     else quarantines_from seen rs)"

definition pendingQuarantines :: "js_val list \<Rightarrow> string + js_val list" where
  "pendingQuarantines records = quarantines_from [] records"

definition seedFixtureSnapshot ::
    "(string \<Rightarrow> string \<Rightarrow> bool) \<Rightarrow> (js_num \<Rightarrow> string) \<Rightarrow> (string \<Rightarrow> string) \<Rightarrow> (string \<Rightarrow> string option) \<Rightarrow> string \<Rightarrow> js_val gov" where
  "seedFixtureSnapshot loc shw sha dir ts recs = gov_return
     (let afterHash = snapshotHash loc sha (computePolicySnapshot sha dir) in
      e_bind (lastApprovedPolicyHash recs) (\<lambda>beforeHash.
      let change = json_obj
        [(''type'', CHANGED), (''ts'', VStr ts),
         (''id'', VStr (governanceProposalId shw sha ''policy_change'' beforeHash afterHash None)),
         (''kind'', VStr ''policy_change''), (''beforeHash'', beforeHash), (''afterHash'', VStr afterHash),
         (''rationale'', VStr ''ci-fixture approved snapshot''), (''decidedBy'', decided_val ByFixture)] in
      Inr (change, recs @ [change]))) recs"

section \<open>The bootstrap append\<close>

definition BOOTSTRAP_POLICY_RATIONALE :: string where
  "BOOTSTRAP_POLICY_RATIONALE = ''bootstrap single-operator authority policy snapshot''"

datatype boot_reason =
    LogPrefixMutated | LogMalformed | LogDuplicateId | LogAppendCount | LogAppendShape | LogChainBreak
  | LogSnapshotMismatch

record boot_append =
  bo_before :: js_val
  bo_after :: string
  bo_id :: string

fun parse_lines :: "(string \<Rightarrow> js_val option) \<Rightarrow> string list \<Rightarrow> js_val list option" where
  "parse_lines parse [] = Some []"
| "parse_lines parse (l # ls) =
     (case parse l of None \<Rightarrow> None | Some v \<Rightarrow> map_option (\<lambda>vs. v # vs) (parse_lines parse ls))"

text \<open>\<open>decode\<close> is the fatal UTF-8 decoder and \<open>parse\<close> is \<open>JSON.parse\<close>; both are \<open>None\<close> when they throw.\<close>

definition parseGovernanceLogBytes ::
    "(string \<Rightarrow> string option) \<Rightarrow> (string \<Rightarrow> js_val option) \<Rightarrow> string \<Rightarrow> js_val list option" where
  "parseGovernanceLogBytes decode parse bytes =
     (case decode bytes of
        None \<Rightarrow> None
      | Some content \<Rightarrow>
          if content \<noteq> [] \<and> \<not> str_suffix nl content then None
          else if content = [] then Some []
          else
            let ls = split_on (CHR 0x0A) (butlast content) in
            if [] \<in> set ls then None else parse_lines parse ls)"

definition hasExactKeys :: "js_val \<Rightarrow> string list \<Rightarrow> bool" where
  "hasExactKeys v expected = (case v of VObj fs \<Rightarrow> sort (map fst fs) = sort expected | _ \<Rightarrow> False)"

text \<open>The states of the ids seen so far: whether each was proposed and changed.\<close>

type_synonym id_states = "string \<Rightarrow> (bool \<times> bool) option"

definition id_state :: "js_val \<Rightarrow> id_states \<Rightarrow> boot_reason + id_states" where
  "id_state r st =
     (case val_get r ''id'' of
        VStr i \<Rightarrow>
          if \<not> is_record r then Inl LogMalformed
          else
            (case (case st i of Some x \<Rightarrow> x | None \<Rightarrow> (False, False)) of
               (proposed, changed) \<Rightarrow>
                 if val_get r ''type'' = PROPOSED then
                   (if proposed then Inl LogDuplicateId else Inr (st(i \<mapsto> (True, changed))))
                 else if val_get r ''type'' = CHANGED then
                   (if changed \<or> \<not> proposed then Inl LogDuplicateId else Inr (st(i \<mapsto> (proposed, True))))
                 else Inl LogMalformed)
      | _ \<Rightarrow> Inl LogMalformed)"

fun id_states_of :: "js_val list \<Rightarrow> id_states \<Rightarrow> boot_reason + id_states" where
  "id_states_of [] st = Inr st"
| "id_states_of (r # rs) st = e_bind (id_state r st) (\<lambda>st'. id_states_of rs st')"

definition record_keys :: "string list" where
  "record_keys = [''type'', ''ts'', ''id'', ''kind'', ''beforeHash'', ''afterHash'', ''rationale'']"

text \<open>\<open>stamp\<close> is the time of a canonical ISO timestamp, \<open>None\<close> for any other string.\<close>

definition append_shape :: "(string \<Rightarrow> int option) \<Rightarrow> js_val \<Rightarrow> js_val \<Rightarrow> bool" where
  "append_shape stamp p c \<longleftrightarrow>
     is_record p \<and> is_record c \<and> hasExactKeys p record_keys \<and> hasExactKeys c (record_keys @ [''decidedBy'']) \<and>
     val_get p ''type'' = PROPOSED \<and> val_get c ''type'' = CHANGED \<and>
     val_get p ''kind'' = VStr ''policy_change'' \<and> val_get c ''kind'' = VStr ''policy_change'' \<and>
     val_get c ''decidedBy'' = VStr ''human'' \<and>
     (case (val_get p ''ts'', val_get c ''ts'') of
        (VStr a, VStr b) \<Rightarrow> (case (stamp a, stamp b) of (Some ta, Some tb) \<Rightarrow> \<not> tb < ta | _ \<Rightarrow> False)
      | _ \<Rightarrow> False) \<and>
     val_get p ''rationale'' = VStr BOOTSTRAP_POLICY_RATIONALE \<and> val_get c ''rationale'' = VStr BOOTSTRAP_POLICY_RATIONALE"

definition check_appended ::
    "(js_num \<Rightarrow> string) \<Rightarrow> (string \<Rightarrow> string) \<Rightarrow> id_states \<Rightarrow> js_val \<Rightarrow> js_val \<Rightarrow> js_val \<Rightarrow> string
       \<Rightarrow> boot_reason + boot_append" where
  "check_appended shw sha st beforeHash p c expectedAfter =
     (let expectedId = governanceProposalId shw sha ''policy_change'' beforeHash expectedAfter None in
      if \<not> strict_eq (val_get p ''beforeHash'') beforeHash \<or> \<not> strict_eq (val_get c ''beforeHash'') beforeHash \<or>
              val_get p ''id'' \<noteq> VStr expectedId \<or> val_get c ''id'' \<noteq> VStr expectedId \<or> st expectedId \<noteq> None
      then Inl (if st expectedId \<noteq> None then LogDuplicateId else LogChainBreak)
      else if val_get p ''afterHash'' \<noteq> VStr expectedAfter \<or> val_get c ''afterHash'' \<noteq> VStr expectedAfter
      then Inl LogSnapshotMismatch
      else Inr \<lparr>bo_before = beforeHash, bo_after = expectedAfter, bo_id = expectedId\<rparr>)"

definition validateBootstrapGovernanceAppend ::
    "(js_num \<Rightarrow> string) \<Rightarrow> (string \<Rightarrow> string) \<Rightarrow> (string \<Rightarrow> int option) \<Rightarrow> (string \<Rightarrow> string option) \<Rightarrow> (string \<Rightarrow> js_val option)
       \<Rightarrow> string \<Rightarrow> string \<Rightarrow> string \<Rightarrow> string + (boot_reason + boot_append)" where
  "validateBootstrapGovernanceAppend shw sha stamp decode parse base head expectedAfter =
     (if length head \<le> length base \<or> take (length base) head \<noteq> base then Inr (Inl LogPrefixMutated)
      else
        (case (parseGovernanceLogBytes decode parse base, parseGovernanceLogBytes decode parse head) of
           (Some bs, Some hs) \<Rightarrow>
             (case id_states_of bs (\<lambda>_. None) of
                Inl e \<Rightarrow> Inr (Inl e)
              | Inr st \<Rightarrow>
                  if length hs \<noteq> length bs + 2 then Inr (Inl LogAppendCount)
                  else if \<not> append_shape stamp (hs ! length bs) (hs ! Suc (length bs)) then Inr (Inl LogAppendShape)
                  else
                    e_bind (lastApprovedPolicyHash bs) (\<lambda>beforeHash.
                    Inr (check_appended shw sha st beforeHash (hs ! length bs) (hs ! Suc (length bs)) expectedAfter)))
         | _ \<Rightarrow> Inr (Inl LogMalformed)))"

section \<open>Logs of objects\<close>

text \<open>Every record the code writes is an object, and on such logs no field access throws.\<close>

definition objs :: "js_val list \<Rightarrow> bool" where
  "objs recs \<longleftrightarrow> list_all is_record recs"

lemma objs_snoc [simp]: "objs (recs @ [r]) \<longleftrightarrow> objs recs \<and> is_record r"
  by (simp add: objs_def)

lemma objs_simps [simp]: "objs []" "objs (r # rs) \<longleftrightarrow> is_record r \<and> objs rs"
  by (simp_all add: objs_def)

lemma gov_get_obj [simp]: "is_record r \<Longrightarrow> gov_get r k = Inr (val_get r k)"
  by (cases r) (simp_all add: gov_get_def)

definition approves :: "js_val \<Rightarrow> bool" where
  "approves r \<longleftrightarrow> val_get r ''type'' = CHANGED \<and> val_get r ''kind'' = VStr ''policy_change''"

text \<open>The hash the last policy change of a log names.\<close>

definition approved_hash :: "js_val list \<Rightarrow> js_val" where
  "approved_hash recs = (case rev (filter approves recs) of [] \<Rightarrow> VNull | r # _ \<Rightarrow> val_get r ''afterHash'')"

lemma last_policy_hash_fold:
  "objs rs \<Longrightarrow> last_policy_hash h rs = Inr (case rev (filter approves rs) of [] \<Rightarrow> h | r # _ \<Rightarrow> val_get r ''afterHash'')"
  by (induction h rs rule: last_policy_hash.induct) (auto simp: approves_def split: list.split)

lemma lastApproved_objs: "objs recs \<Longrightarrow> lastApprovedPolicyHash recs = Inr (approved_hash recs)"
  by (simp add: lastApprovedPolicyHash_def last_policy_hash_fold approved_hash_def)

lemma approved_hash_snoc:
  "approved_hash (recs @ [r]) = (if approves r then val_get r ''afterHash'' else approved_hash recs)"
  by (simp add: approved_hash_def)

definition ids_of :: "js_val \<Rightarrow> js_val list \<Rightarrow> js_val list" where
  "ids_of ty recs = map (\<lambda>r. val_get r ''id'') (filter (\<lambda>r. val_get r ''type'' = ty) recs)"

lemma ids_of_snoc: "ids_of ty (recs @ [r]) = ids_of ty recs @ (if val_get r ''type'' = ty then [val_get r ''id''] else [])"
  by (simp add: ids_of_def)

lemma already_proposed_objs:
  "objs recs \<Longrightarrow> already_proposed pid recs = Inr (VStr pid \<in> set (ids_of PROPOSED recs))"
  unfolding already_proposed_def
  by (induction recs) (auto simp: ids_of_def strict_eq_str)

lemma listPending_objs:
  "objs recs \<Longrightarrow> listPendingProposals recs = Inr (pending_from (ids_of CHANGED recs) [] recs)"
proof -
  assume "objs recs"
  then have "e_map (\<lambda>r. gov_get r ''type'') recs = Inr (map (\<lambda>r. val_get r ''type'') recs)"
    by (induction recs) auto
  then show ?thesis by (simp add: listPendingProposals_def ids_of_def)
qed

lemma strict_eq_imp: "strict_eq v w \<Longrightarrow> v = w"
  by (cases "(v, w)" rule: strict_eq.cases) auto

lemma has_val_str: "has_val vs (VStr s) \<longleftrightarrow> VStr s \<in> set vs"
  by (auto simp: has_val_def list_ex_iff strict_eq_str)

text \<open>A pending proposal is a recorded one whose id no change has.\<close>

lemma val_get_filter: "P k \<Longrightarrow> val_get (VObj (filter (\<lambda>(k, _). P k) fs)) k = val_get (VObj fs) k"
  by (induction fs) (auto simp: fields_get_def split: prod.splits)

lemma proposal_of_get: "k \<noteq> ''type'' \<Longrightarrow> k \<noteq> ''ts'' \<Longrightarrow> val_get (proposal_of r) k = val_get r k"
  by (cases r) (auto simp: val_get_filter simp del: val_get.simps)

lemma pending_sound:
  assumes "p \<in> set (pending_from approved seen rs)"
  shows "\<exists>r \<in> set rs. val_get r ''type'' = PROPOSED \<and> p = proposal_of r \<and> \<not> has_val approved (val_get r ''id'')"
  using assms by (induction approved seen rs rule: pending_from.induct) (auto split: if_splits)

lemma pending_complete:
  assumes "r \<in> set rs" "val_get r ''type'' = PROPOSED" "val_get r ''id'' = VStr s" "VStr s \<notin> set approved" "VStr s \<notin> set seen"
  shows "\<exists>p \<in> set (pending_from approved seen rs). val_get p ''id'' = VStr s"
  using assms
proof (induction approved seen rs rule: pending_from.induct)
  case (2 approved seen r' rs)
  then show ?case
    by (cases "val_get r' ''id'' = VStr s") (auto simp: has_val_str proposal_of_get)
qed simp

lemma fields_get_defined:
  "distinct (map fst fs) \<Longrightarrow> fields_get (filter (\<lambda>(_, v). v \<noteq> VUndef) fs) k = fields_get fs k"
proof (induction fs)
  case (Cons x fs)
  obtain k' v where x: "x = (k', v)" by fastforce
  have "map_of fs k' = None" using Cons.prems x by (simp add: map_of_eq_None_iff)
  then show ?case using Cons x by (auto simp: fields_get_def)
qed simp

lemma val_get_json: "distinct (map fst fs) \<Longrightarrow> val_get (json_obj fs) k = fields_get fs k"
  by (simp add: json_obj_def fields_get_defined)

lemma is_record_json [simp]: "is_record (json_obj fs)"
  by (simp add: json_obj_def)

section \<open>The life of a log\<close>

inductive gov_reach ::
    "(string \<Rightarrow> string \<Rightarrow> bool) \<Rightarrow> (js_num \<Rightarrow> string) \<Rightarrow> (string \<Rightarrow> string) \<Rightarrow> js_val list \<Rightarrow> bool" for loc shw sha where
  start: "gov_reach loc shw sha []"
| ensure: "gov_reach loc shw sha recs \<Longrightarrow>
    gov_reach loc shw sha (snd (ensureGovernanceApproved loc shw sha dir why ts recs))"
| lesson: "gov_reach loc shw sha recs \<Longrightarrow> gov_reach loc shw sha (snd (proposeLessonPromotion shw sha lid why ts recs))"
| flaky: "gov_reach loc shw sha recs \<Longrightarrow> gov_reach loc shw sha (snd (proposeFlakyQuarantine shw sha tid why ts recs))"
| approve: "gov_reach loc shw sha recs \<Longrightarrow> gov_reach loc shw sha (snd (approveProposal pid decided ts recs))"
| seed: "gov_reach loc shw sha recs \<Longrightarrow> gov_reach loc shw sha (snd (seedFixtureSnapshot loc shw sha dir ts recs))"

definition proposal_keys :: "string list" where
  "proposal_keys = [''id'', ''kind'', ''beforeHash'', ''afterHash'', ''rationale'', ''taskId'', ''lessonId'']"

definition human_change :: "js_val \<Rightarrow> bool" where
  "human_change r \<longleftrightarrow> val_get r ''type'' = CHANGED \<and> val_get r ''decidedBy'' = decided_val ByHuman"

definition proposes :: "js_val \<Rightarrow> js_val \<Rightarrow> bool" where
  "proposes p r \<longleftrightarrow> val_get p ''type'' = PROPOSED \<and> list_all (\<lambda>k. val_get p k = val_get r k) proposal_keys"

definition human_ids :: "js_val list \<Rightarrow> js_val list" where
  "human_ids recs = map (\<lambda>r. val_get r ''id'') (filter human_change recs)"

definition backed :: "js_val list \<Rightarrow> bool" where
  "backed recs \<longleftrightarrow> (\<forall>i < length recs. human_change (recs ! i) \<longrightarrow> (\<exists>j < i. proposes (recs ! j) (recs ! i)))"

definition gov_inv :: "js_val list \<Rightarrow> bool" where
  "gov_inv recs \<longleftrightarrow> objs recs \<and> set (ids_of PROPOSED recs) \<subseteq> range VStr \<and> distinct (ids_of PROPOSED recs) \<and>
     distinct (human_ids recs) \<and> backed recs"

lemma human_ids_snoc: "human_ids (recs @ [r]) = human_ids recs @ (if human_change r then [val_get r ''id''] else [])"
  by (simp add: human_ids_def)

lemma human_changed: "set (human_ids recs) \<subseteq> set (ids_of CHANGED recs)"
  by (auto simp: human_ids_def ids_of_def human_change_def)

lemma backed_snoc:
  assumes "backed recs" "human_change r \<Longrightarrow> \<exists>p \<in> set recs. proposes p r"
  shows "backed (recs @ [r])"
  unfolding backed_def
proof (intro allI impI)
  fix i
  assume i: "i < length (recs @ [r])" "human_change ((recs @ [r]) ! i)"
  show "\<exists>j < i. proposes ((recs @ [r]) ! j) ((recs @ [r]) ! i)"
  proof (cases "i < length recs")
    case True
    then obtain j where "j < i" "proposes (recs ! j) (recs ! i)" using assms(1) i by (auto simp: backed_def nth_append)
    then show ?thesis using True by (intro exI [of _ j]) (simp add: nth_append)
  next
    case False
    then have r: "i = length recs" using i by simp
    then obtain p where "p \<in> set recs" "proposes p r" using assms(2) i by auto
    then show ?thesis using r by (auto simp: in_set_conv_nth nth_append)
  qed
qed

lemma gov_inv_proposed:
  assumes "gov_inv recs" "is_record r" "val_get r ''type'' = PROPOSED" "val_get r ''id'' = VStr pid"
    "VStr pid \<notin> set (ids_of PROPOSED recs)"
  shows "gov_inv (recs @ [r])"
  using assms backed_snoc [of recs r]
  by (auto simp: gov_inv_def ids_of_snoc human_ids_snoc human_change_def PROPOSED_def CHANGED_def)

lemma gov_inv_changed:
  assumes "gov_inv recs" "is_record r" "val_get r ''type'' = CHANGED"
    and "human_change r \<Longrightarrow> val_get r ''id'' \<notin> set (ids_of CHANGED recs) \<and> (\<exists>p \<in> set recs. proposes p r)"
  shows "gov_inv (recs @ [r])"
  using assms backed_snoc [of recs r] human_changed [of recs]
  by (auto simp: gov_inv_def ids_of_snoc human_ids_snoc PROPOSED_def CHANGED_def)

subsection \<open>Operations\<close>

lemma record_proposal_cases:
  assumes "objs recs"
  shows "record_proposal ts pid fs recs =
    Inr (if VStr pid \<in> set (ids_of PROPOSED recs) then recs else recs @ [proposed_record ts fs])"
  using assms by (simp add: record_proposal_def already_proposed_objs)

lemma is_record_proposed [simp]: "is_record (proposed_record ts fs)"
  by (simp add: proposed_record_def)

text \<open>The extra fields of a proposal name its task or its lesson.\<close>

definition extra_ok :: "payload \<Rightarrow> bool" where
  "extra_ok extra \<longleftrightarrow> distinct (map fst extra) \<and> set (map fst extra) \<subseteq> {''taskId'', ''lessonId''}"

lemma extra_ok_simps [simp]: "extra_ok []" "extra_ok [(''taskId'', v)]" "extra_ok [(''lessonId'', v)]"
  by (simp_all add: extra_ok_def)

lemma proposed_get [simp]:
  assumes "extra_ok extra"
  shows "val_get (proposed_record ts (proposal_fields pid kind before after why extra)) ''type'' = PROPOSED"
    and "val_get (proposed_record ts (proposal_fields pid kind before after why extra)) ''id'' = VStr pid"
    and "val_get (proposed_record ts (proposal_fields pid kind before after why extra)) ''kind'' = VStr kind"
    and "val_get (proposed_record ts (proposal_fields pid kind before after why extra)) ''beforeHash'' = before"
    and "val_get (proposed_record ts (proposal_fields pid kind before after why extra)) ''afterHash'' = VStr after"
proof -
  have "distinct (map fst ([(''type'', PROPOSED), (''ts'', VStr ts)] @ proposal_fields pid kind before after why extra))"
    using assms by (auto simp: proposal_fields_def extra_ok_def)
  note get = val_get_json [OF this, folded proposed_record_def]
  show "val_get (proposed_record ts (proposal_fields pid kind before after why extra)) ''type'' = PROPOSED"
    "val_get (proposed_record ts (proposal_fields pid kind before after why extra)) ''id'' = VStr pid"
    "val_get (proposed_record ts (proposal_fields pid kind before after why extra)) ''kind'' = VStr kind"
    "val_get (proposed_record ts (proposal_fields pid kind before after why extra)) ''beforeHash'' = before"
    "val_get (proposed_record ts (proposal_fields pid kind before after why extra)) ''afterHash'' = VStr after"
    unfolding get by (simp_all add: fields_get_def proposal_fields_def)
qed

lemma gov_inv_record_proposal:
  assumes "gov_inv recs" "extra_ok extra"
    "record_proposal ts pid (proposal_fields pid kind before after why extra) recs = Inr recs'"
  shows "gov_inv recs'"
proof -
  have "objs recs" using assms(1) by (simp add: gov_inv_def)
  then have "recs' = (if VStr pid \<in> set (ids_of PROPOSED recs) then recs
      else recs @ [proposed_record ts (proposal_fields pid kind before after why extra)])"
    using assms(3) by (simp add: record_proposal_cases)
  then show ?thesis using assms by (auto intro!: gov_inv_proposed)
qed

lemma gov_inv_objs: "gov_inv recs \<Longrightarrow> objs recs"
  by (simp add: gov_inv_def)

lemma ensure_cases:
  assumes "objs recs" "afterHash = snapshotHash loc sha (computePolicySnapshot sha dir)"
    and "pid = governanceProposalId shw sha ''policy_change'' (approved_hash recs) afterHash None"
    and "fs = proposal_fields pid ''policy_change'' (approved_hash recs) afterHash
           (case why of None \<Rightarrow> ''policy snapshot changed'' | Some r \<Rightarrow> r) []"
  shows "ensureGovernanceApproved loc shw sha dir why ts recs =
    (if approved_hash recs = VStr afterHash then (Inr (EnsureOk afterHash), recs)
     else (Inr (PolicyUnapproved (VObj fs) (''platform governance approve '' @ pid)),
       if VStr pid \<in> set (ids_of PROPOSED recs) then recs else recs @ [proposed_record ts fs]))"
  using assms
  by (simp add: ensureGovernanceApproved_def Let_def lastApproved_objs strict_eq_str gov_return_def record_proposal_cases)

lemma approve_cases:
  assumes "objs recs"
  shows "approveProposal pid decided ts recs =
    (case find (\<lambda>p. val_get p ''id'' = VStr pid) (pending_from (ids_of CHANGED recs) [] recs) of
       None \<Rightarrow> (Inr NoSuchProposal, recs)
     | Some p \<Rightarrow> (Inr (Approved (json_obj (change_fields ts p decided))), recs @ [json_obj (change_fields ts p decided)]))"
  using assms by (simp add: approveProposal_def listPending_objs strict_eq_str gov_return_def Let_def split: option.split)

lemma change_get:
  "val_get (json_obj (change_fields ts p decided)) ''type'' = CHANGED"
  "val_get (json_obj (change_fields ts p decided)) ''decidedBy'' = decided_val decided"
  "k \<in> set proposal_keys \<Longrightarrow> val_get (json_obj (change_fields ts p decided)) k = val_get p k"
proof -
  have "distinct (map fst (change_fields ts p decided))" by (simp add: change_fields_def)
  note get = val_get_json [OF this]
  show "val_get (json_obj (change_fields ts p decided)) ''type'' = CHANGED"
    "val_get (json_obj (change_fields ts p decided)) ''decidedBy'' = decided_val decided"
    "k \<in> set proposal_keys \<Longrightarrow> val_get (json_obj (change_fields ts p decided)) k = val_get p k"
    unfolding get by (auto simp: change_fields_def fields_get_def proposal_keys_def)
qed

lemma change_proposed:
  assumes "val_get r ''type'' = PROPOSED"
  shows "proposes r (json_obj (change_fields ts (proposal_of r) decided))"
proof -
  have "list_all (\<lambda>k. val_get r k = val_get (json_obj (change_fields ts (proposal_of r) decided)) k) proposal_keys"
    by (auto simp: list_all_iff change_get(3)) (auto simp: proposal_keys_def proposal_of_get)
  then show ?thesis using assms by (simp add: proposes_def)
qed

lemma gov_inv_approve:
  assumes "gov_inv recs"
  shows "gov_inv (snd (approveProposal pid decided ts recs))"
proof (cases "find (\<lambda>p. val_get p ''id'' = VStr pid) (pending_from (ids_of CHANGED recs) [] recs)")
  case None
  then show ?thesis using assms by (simp add: approve_cases gov_inv_objs)
next
  case (Some p)
  then have p: "p \<in> set (pending_from (ids_of CHANGED recs) [] recs)" "val_get p ''id'' = VStr pid"
    by (auto simp: find_Some_iff)
  obtain r where r: "r \<in> set recs" "val_get r ''type'' = PROPOSED" "p = proposal_of r"
      "\<not> has_val (ids_of CHANGED recs) (val_get r ''id'')"
    using pending_sound [OF p(1)] by blast
  then have "val_get r ''id'' = VStr pid" using p(2) by (simp add: proposal_of_get)
  then have "VStr pid \<notin> set (ids_of CHANGED recs)" using r(4) by (simp add: has_val_str)
  then have "gov_inv (recs @ [json_obj (change_fields ts p decided)])"
    using r p(2) change_proposed [OF r(2)]
    by (intro gov_inv_changed [OF assms]) (auto simp: change_get proposal_keys_def)
  then show ?thesis using Some assms by (simp add: approve_cases gov_inv_objs)
qed

lemma gov_inv_ensure:
  assumes "gov_inv recs"
  shows "gov_inv (snd (ensureGovernanceApproved loc shw sha dir why ts recs))"
  using assms by (simp add: ensure_cases [OF gov_inv_objs [OF assms] refl refl refl] gov_inv_proposed)

lemma gov_inv_lesson: "gov_inv recs \<Longrightarrow> gov_inv (snd (proposeLessonPromotion shw sha lid why ts recs))"
  by (auto simp: proposeLessonPromotion_def Let_def record_proposal_cases gov_inv_objs gov_return_def intro!: gov_inv_proposed)

lemma gov_inv_flaky: "gov_inv recs \<Longrightarrow> gov_inv (snd (proposeFlakyQuarantine shw sha tid why ts recs))"
  by (auto simp: proposeFlakyQuarantine_def Let_def record_proposal_cases gov_inv_objs gov_return_def intro!: gov_inv_proposed)

lemma gov_inv_seed:
  assumes "gov_inv recs"
  shows "gov_inv (snd (seedFixtureSnapshot loc shw sha dir ts recs))"
  using assms
  by (auto simp: seedFixtureSnapshot_def Let_def lastApproved_objs gov_inv_objs gov_return_def val_get_json fields_get_def
      human_change_def decided_val_def intro!: gov_inv_changed)

lemma gov_reach_inv: "gov_reach loc shw sha recs \<Longrightarrow> gov_inv recs"
proof (induction rule: gov_reach.induct)
  case start
  then show ?case by (simp add: gov_inv_def ids_of_def human_ids_def backed_def)
qed (simp_all add: gov_inv_ensure gov_inv_lesson gov_inv_flaky gov_inv_approve gov_inv_seed)

lemma id_states_objs: "id_states_of rs st = Inr st' \<Longrightarrow> objs rs"
  by (induction rs arbitrary: st) (auto simp: e_bind_Inr_iff id_state_def split: js_val.splits if_splits prod.splits)

lemma id_state_grows:
  "id_state r st = Inr st' \<Longrightarrow> val_get r ''id'' = VStr i \<Longrightarrow> st' i \<noteq> None"
  by (auto simp: id_state_def split: if_splits prod.splits)

lemma id_state_keeps: "id_state r st = Inr st' \<Longrightarrow> st i \<noteq> None \<Longrightarrow> st' i \<noteq> None"
  by (auto simp: id_state_def split: js_val.splits if_splits prod.splits)

lemma id_states_keep: "id_states_of rs st = Inr st' \<Longrightarrow> st i \<noteq> None \<Longrightarrow> st' i \<noteq> None"
  by (induction rs arbitrary: st) (auto simp: e_bind_Inr_iff dest: id_state_keeps)

lemma id_states_seen:
  assumes "id_states_of rs st = Inr st'" "st' i = None" "r \<in> set rs"
  shows "val_get r ''id'' \<noteq> VStr i"
  using assms
proof (induction rs arbitrary: st)
  case (Cons x xs)
  then obtain st1 where st1: "id_state x st = Inr st1" "id_states_of xs st1 = Inr st'" by (auto simp: e_bind_Inr_iff)
  then show ?case using Cons id_states_keep [OF st1(2), of i] id_state_grows [OF st1(1), of i] by auto
qed simp

lemma id_states_fresh:
  assumes "id_states_of rs st = Inr st'" "st' i = None"
  shows "VStr i \<notin> (\<lambda>r. val_get r ''id'') ` set rs"
  using id_states_seen [OF assms] by force

lemma boot_never_throws: "validateBootstrapGovernanceAppend shw sha stamp decode parse base head expectedAfter \<noteq> Inl e"
  by (auto simp: validateBootstrapGovernanceAppend_def lastApproved_objs dest!: id_states_objs split: option.split sum.split)

lemma check_appended_ok:
  assumes "check_appended shw sha st before p c after = Inr res"
    and "pid = governanceProposalId shw sha ''policy_change'' before after None"
  shows "strict_eq (val_get p ''beforeHash'') before" "strict_eq (val_get c ''beforeHash'') before"
    "val_get p ''id'' = VStr pid" "val_get c ''id'' = VStr pid" "st pid = None" "val_get c ''afterHash'' = VStr after"
    "bo_id res = pid"
proof -
  note run = assms(1) [unfolded check_appended_def Let_def, folded assms(2)]
  have "\<not> (\<not> strict_eq (val_get p ''beforeHash'') before \<or> \<not> strict_eq (val_get c ''beforeHash'') before \<or>
      val_get p ''id'' \<noteq> VStr pid \<or> val_get c ''id'' \<noteq> VStr pid \<or> st pid \<noteq> None)" (is "\<not> ?bad")
    using run by (cases ?bad) (simp_all del: not_None_eq)
  moreover from this have "val_get c ''afterHash'' = VStr after \<and> Inr \<lparr>bo_before = before, bo_after = after, bo_id = pid\<rparr> = (Inr res :: boot_reason + boot_append)"
    using run by (simp split: if_splits)
  ultimately show "strict_eq (val_get p ''beforeHash'') before" "strict_eq (val_get c ''beforeHash'') before"
    "val_get p ''id'' = VStr pid" "val_get c ''id'' = VStr pid" "st pid = None" "val_get c ''afterHash'' = VStr after"
    "bo_id res = pid"
    by (auto simp del: not_None_eq)
qed

lemma append_shape_types:
  assumes "append_shape stamp p c"
  shows "val_get p ''type'' = PROPOSED \<and> val_get c ''type'' = CHANGED \<and> val_get c ''decidedBy'' = VStr ''human'' \<and>
    val_get c ''kind'' = VStr ''policy_change''"
  using assms unfolding append_shape_def by blast

lemma two_last: "length hs = length bs + 2 \<Longrightarrow> drop (length bs) hs = [hs ! length bs, hs ! Suc (length bs)]"
  by (simp add: Cons_nth_drop_Suc [symmetric])

lemma approved_hash_append_two:
  "approves c \<Longrightarrow> approved_hash (xs @ [p, c]) = val_get c ''afterHash''"
  using approved_hash_snoc [of "xs @ [p]" c] by simp

text \<open>A bootstrap append that is accepted keeps every byte of the log and adds exactly two records: the
  proposal of a policy change and its approval by a human, with the id of that change, which no earlier
  record has, chained from the hash approved last to the expected one; and the expected hash is the one the
  new log approves.\<close>

theorem bootstrap_append_is_one_approved_change:
  assumes "validateBootstrapGovernanceAppend shw sha stamp decode parse base head expectedAfter = Inr (Inr res)"
  shows "\<exists>bs hs p c.
    take (length base) head = base \<and>
    parseGovernanceLogBytes decode parse base = Some bs \<and> parseGovernanceLogBytes decode parse head = Some hs \<and>
    drop (length bs) hs = [p, c] \<and> approved_hash hs = VStr expectedAfter \<and>
    val_get p ''type'' = PROPOSED \<and> val_get c ''type'' = CHANGED \<and> val_get c ''decidedBy'' = VStr ''human'' \<and>
    val_get p ''beforeHash'' = approved_hash bs \<and> val_get c ''beforeHash'' = approved_hash bs \<and>
    val_get p ''id'' = VStr (bo_id res) \<and> val_get c ''id'' = VStr (bo_id res) \<and>
    bo_id res = governanceProposalId shw sha ''policy_change'' (approved_hash bs) expectedAfter None \<and>
    VStr (bo_id res) \<notin> (\<lambda>r. val_get r ''id'') ` set bs"
proof -
  obtain bs hs st where parsed: "parseGovernanceLogBytes decode parse base = Some bs"
      "parseGovernanceLogBytes decode parse head = Some hs" "id_states_of bs (\<lambda>_. None) = Inr st"
    and len: "length hs = length bs + 2" and shape: "append_shape stamp (hs ! length bs) (hs ! Suc (length bs))"
    and chk: "check_appended shw sha st (approved_hash bs) (hs ! length bs) (hs ! Suc (length bs)) expectedAfter = Inr res"
    and pre: "take (length base) head = base"
    using assms by (auto simp: validateBootstrapGovernanceAppend_def lastApproved_objs [OF id_states_objs]
      split: if_splits option.splits sum.splits)
  let ?p = "hs ! length bs" and ?c = "hs ! Suc (length bs)"
  have hs: "hs = take (length bs) hs @ [?p, ?c]" using two_last [OF len] append_take_drop_id [of "length bs" hs] by simp
  note ok = check_appended_ok [OF chk refl] and types = append_shape_types [OF shape]
  have "approved_hash hs = val_get ?c ''afterHash''"
    by (subst hs) (rule approved_hash_append_two, use types in \<open>simp add: approves_def\<close>)
  then have hash: "approved_hash hs = VStr expectedAfter" unfolding ok(6) .
  note ids = ok(3,4) [folded ok(7)] and before = ok(1,2) [THEN strict_eq_imp]
  have fresh: "VStr (bo_id res) \<notin> (\<lambda>r. val_get r ''id'') ` set bs"
    using id_states_fresh [OF parsed(3) ok(5)] unfolding ok(7) .
  show ?thesis
    by (rule exI [of _ bs], rule exI [of _ hs], rule exI [of _ ?p], rule exI [of _ ?c])
      (use parsed(1,2) pre two_last [OF len] types hash ids before ok(7) fresh in blast)
qed

section \<open>The gate\<close>

text \<open>Ids are hashes: no recorded proposal of another change has this one's.\<close>

definition uncollided :: "string \<Rightarrow> string \<Rightarrow> js_val list \<Rightarrow> bool" where
  "uncollided pid afterHash recs \<longleftrightarrow>
     list_all (\<lambda>r. val_get r ''type'' = PROPOSED \<and> val_get r ''id'' = VStr pid \<longrightarrow>
       val_get r ''kind'' = VStr ''policy_change'' \<and> val_get r ''afterHash'' = VStr afterHash) recs"

lemma approve_pending:
  assumes "gov_inv recs" "VStr pid \<in> set (ids_of PROPOSED recs)" "VStr pid \<notin> set (ids_of CHANGED recs)" "uncollided pid h recs"
  shows "\<exists>c. approveProposal pid decided ts recs = (Inr (Approved c), recs @ [c]) \<and> approves c \<and> val_get c ''afterHash'' = VStr h"
proof -
  let ?pending = "pending_from (ids_of CHANGED recs) [] recs"
  obtain r where r: "r \<in> set recs" "val_get r ''type'' = PROPOSED" "val_get r ''id'' = VStr pid"
    using assms(2) by (auto simp: ids_of_def)
  then have "\<exists>p \<in> set ?pending. val_get p ''id'' = VStr pid" using assms(3) by (intro pending_complete) auto
  then obtain p where p: "find (\<lambda>p. val_get p ''id'' = VStr pid) ?pending = Some p"
    by (cases "find (\<lambda>p. val_get p ''id'' = VStr pid) ?pending") (auto simp: find_None_iff)
  then have p': "p \<in> set ?pending" "val_get p ''id'' = VStr pid" by (auto simp: find_Some_iff)
  obtain r' where r': "r' \<in> set recs" "val_get r' ''type'' = PROPOSED" "p = proposal_of r'"
    using pending_sound [OF p'(1)] by blast
  have "val_get r' ''id'' = VStr pid" using p'(2) r'(3) by (simp add: proposal_of_get)
  then have "val_get p ''kind'' = VStr ''policy_change''" "val_get p ''afterHash'' = VStr h"
    using assms(4) r' by (auto simp: uncollided_def list_all_iff proposal_of_get)
  then show ?thesis
    using p assms(1) by (auto simp: approve_cases gov_inv_objs approves_def change_get proposal_keys_def)
qed

lemma approved_is_locked:
  assumes "gov_inv recs" "VStr pid \<in> set (ids_of CHANGED recs)"
  shows "approveProposal pid decided ts recs = (Inr NoSuchProposal, recs)"
proof -
  have "val_get p ''id'' \<noteq> VStr pid" if "p \<in> set (pending_from (ids_of CHANGED recs) [] recs)" for p
    using pending_sound [OF that] assms(2) by (auto simp: proposal_of_get has_val_str)
  then have "find (\<lambda>p. val_get p ''id'' = VStr pid) (pending_from (ids_of CHANGED recs) [] recs) = None"
    by (auto simp: find_None_iff)
  then show ?thesis using assms(1) by (simp add: approve_cases gov_inv_objs)
qed

text \<open>C37: over every life of a governance log no change is proposed twice and none is approved twice by a human, and
  each human approval repeats, field by field, a proposal recorded before it.\<close>

theorem approvals_repeat_recorded_proposals:
  assumes "gov_reach loc shw sha recs"
  shows "distinct (ids_of PROPOSED recs) \<and> distinct (human_ids recs) \<and>
    (\<forall>i < length recs. human_change (recs ! i) \<longrightarrow> (\<exists>j < i. proposes (recs ! j) (recs ! i)))"
  using gov_reach_inv [OF assms] by (simp add: gov_inv_def backed_def)

text \<open>C10: a run is let in exactly when its policy files hash to what the log approved last. Otherwise it is
  refused with the proposal of the change from the approved hash to theirs, which adds at most that proposal to the log and
  leaves the approved hash as it is. What approving it does depends on the log: when no change with its id has been
  approved (and no other proposal has this id), approving it lets the same files in; when a change from that hash to
  theirs was approved at any time before, the proposal cannot be approved, the log stays as it is, and the same files are refused
  again.\<close>

theorem approval_opens_the_gate:
  assumes "gov_reach loc shw sha recs" "h = snapshotHash loc sha (computePolicySnapshot sha dir)"
    and "ensureGovernanceApproved loc shw sha dir why ts recs = (res, recs1)"
  shows "case res of
      Inl _ \<Rightarrow> False
    | Inr (EnsureOk h') \<Rightarrow> h' = h \<and> approved_hash recs = VStr h \<and> recs1 = recs
    | Inr (PolicyUnapproved p cmd) \<Rightarrow>
        approved_hash recs \<noteq> VStr h \<and> approved_hash recs1 = approved_hash recs \<and>
        (recs1 = recs \<or> (\<exists>r. recs1 = recs @ [r] \<and> val_get r ''type'' = PROPOSED)) \<and>
        (let pid = governanceProposalId shw sha ''policy_change'' (approved_hash recs) h None in
         val_get p ''id'' = VStr pid \<and> cmd = ''platform governance approve '' @ pid \<and>
         (if VStr pid \<in> set (ids_of CHANGED recs)
          then approveProposal pid ByHuman ts' recs1 = (Inr NoSuchProposal, recs1) \<and>
            fst (ensureGovernanceApproved loc shw sha dir why ts'' recs1) = Inr (PolicyUnapproved p cmd)
          else uncollided pid h recs \<longrightarrow>
              (\<exists>c recs2. approveProposal pid ByHuman ts' recs1 = (Inr (Approved c), recs2) \<and>
                 ensureGovernanceApproved loc shw sha dir why ts'' recs2 = (Inr (EnsureOk h), recs2))))"
proof -
  have inv: "gov_inv recs" "gov_inv recs1" 
    using gov_reach_inv [OF assms(1)] gov_inv_ensure [of recs loc shw sha dir why ts] assms(3) by simp_all
  define pid where "pid = governanceProposalId shw sha ''policy_change'' (approved_hash recs) h None"
  define fs where "fs = proposal_fields pid ''policy_change'' (approved_hash recs) h
      (case why of None \<Rightarrow> ''policy snapshot changed'' | Some r \<Rightarrow> r) []"
  note run = ensure_cases [OF gov_inv_objs [OF inv(1)] assms(2) pid_def fs_def, of ts, unfolded assms(3)]
  show ?thesis
  proof (cases "approved_hash recs = VStr h")
    case True
    then show ?thesis using run by simp
  next
    case False
    let ?r = "proposed_record ts fs"
    have r: "val_get ?r ''type'' = PROPOSED" "val_get ?r ''id'' = VStr pid" "val_get ?r ''kind'' = VStr ''policy_change''"
        "val_get ?r ''afterHash'' = VStr h"
      by (simp_all add: fs_def)
    have recs1: "recs1 = (if VStr pid \<in> set (ids_of PROPOSED recs) then recs else recs @ [?r])"
      and res: "res = Inr (PolicyUnapproved (VObj fs) (''platform governance approve '' @ pid))"
      using run False by simp_all
    have ids: "VStr pid \<in> set (ids_of PROPOSED recs1)" "ids_of CHANGED recs1 = ids_of CHANGED recs"
      and hash: "approved_hash recs1 = approved_hash recs"
      using r by (auto simp: recs1 ids_of_snoc approved_hash_snoc approves_def PROPOSED_def CHANGED_def)
    have opens: "\<exists>c recs2. approveProposal pid ByHuman ts' recs1 = (Inr (Approved c), recs2) \<and>
        ensureGovernanceApproved loc shw sha dir why ts'' recs2 = (Inr (EnsureOk h), recs2)"
      if "VStr pid \<notin> set (ids_of CHANGED recs)" "uncollided pid h recs"
    proof -
      have unc: "uncollided pid h recs1" using that(2) r by (auto simp: recs1 uncollided_def)
      have "VStr pid \<notin> set (ids_of CHANGED recs1)" using that(1) ids(2) by simp
      from approve_pending [OF inv(2) ids(1) this unc] obtain c where c: "approveProposal pid ByHuman ts' recs1 = (Inr (Approved c), recs1 @ [c])" "approves c"
          "val_get c ''afterHash'' = VStr h"
        by blast
      have "gov_inv (recs1 @ [c])" using gov_inv_approve [OF inv(2), of pid ByHuman ts'] c(1) by simp
      then have "ensureGovernanceApproved loc shw sha dir why ts'' (recs1 @ [c]) = (Inr (EnsureOk h), recs1 @ [c])"
        using c(2,3) by (simp add: ensure_cases [OF gov_inv_objs assms(2) refl refl] approved_hash_snoc)
      then show ?thesis using c(1) by blast
    qed
    have again: "fst (ensureGovernanceApproved loc shw sha dir why ts'' recs1) = Inr (PolicyUnapproved (VObj fs) (''platform governance approve '' @ pid))"
      using ensure_cases [OF gov_inv_objs [OF inv(2)] assms(2) pid_def [folded hash] fs_def [folded hash], of ts''] False hash by simp
    have locked: "VStr pid \<in> set (ids_of CHANGED recs) \<Longrightarrow> approveProposal pid ByHuman ts' recs1 = (Inr NoSuchProposal, recs1)"
      using approved_is_locked [OF inv(2)] ids(2) by simp
    have added: "recs1 = recs \<or> (\<exists>r. recs1 = recs @ [r] \<and> val_get r ''type'' = PROPOSED)" using r(1) by (auto simp: recs1)
    have "val_get (VObj fs) ''id'' = VStr pid" by (simp add: fs_def proposal_fields_def fields_get_def)
    then show ?thesis using False hash opens again locked added by (simp add: res Let_def pid_def [symmetric])
  qed
qed

text \<open>A change that leads from the approved policy to one it was changed to before cannot be approved: its
  proposal has the id of that earlier change, so the run is refused, the command it names finds no such
  proposal, and the approved policy stays what it is.\<close>

theorem revisited_change_is_locked_out:
  assumes "gov_reach loc shw sha recs" "h = snapshotHash loc sha (computePolicySnapshot sha dir)"
    and "approved_hash recs \<noteq> VStr h" "pid = governanceProposalId shw sha ''policy_change'' (approved_hash recs) h None"
    and "VStr pid \<in> set (ids_of CHANGED recs)"
  shows "\<exists>p recs1. ensureGovernanceApproved loc shw sha dir why ts recs =
      (Inr (PolicyUnapproved p (''platform governance approve '' @ pid)), recs1) \<and>
    approveProposal pid ByHuman ts' recs1 = (Inr NoSuchProposal, recs1) \<and> approved_hash recs1 = approved_hash recs"
proof -
  let ?fs = "proposal_fields pid ''policy_change'' (approved_hash recs) h
      (case why of None \<Rightarrow> ''policy snapshot changed'' | Some r \<Rightarrow> r) []"
  let ?recs1 = "if VStr pid \<in> set (ids_of PROPOSED recs) then recs else recs @ [proposed_record ts ?fs]"
  note inv = gov_reach_inv [OF assms(1)]
  have run: "ensureGovernanceApproved loc shw sha dir why ts recs =
      (Inr (PolicyUnapproved (VObj ?fs) (''platform governance approve '' @ pid)), ?recs1)"
    using ensure_cases [OF gov_inv_objs [OF inv] assms(2,4) refl, of why ts] assms(3) by simp
  have "gov_inv ?recs1" using gov_inv_ensure [OF inv, of loc shw sha dir why ts] run by simp
  moreover have "VStr pid \<in> set (ids_of CHANGED ?recs1)" using assms(5) by (simp add: ids_of_snoc)
  ultimately have "approveProposal pid ByHuman ts' ?recs1 = (Inr NoSuchProposal, ?recs1)" by (rule approved_is_locked)
  moreover have "approved_hash ?recs1 = approved_hash recs"
    by (simp add: approved_hash_snoc approves_def PROPOSED_def CHANGED_def)
  ultimately show ?thesis using run by blast
qed

section \<open>Concrete logs\<close>

text \<open>A hash that tells the two snapshots below and the ids of their changes apart.\<close>

definition demo_sha :: "string \<Rightarrow> string" where
  "demo_sha s = (if length s < 40 then rev s else if length s < 211 then ''B'' else ''A'')"

definition demo_loc :: "string \<Rightarrow> string \<Rightarrow> bool" where
  "demo_loc a b = True"

definition demo_shw :: "js_num \<Rightarrow> string" where
  "demo_shw n = []"

definition policy_a :: "string \<Rightarrow> string option" where
  "policy_a name = None"

definition policy_b :: "string \<Rightarrow> string option" where
  "policy_b name = (if name = ''routing.json'' then Some ''{}'' else None)"

definition demo_ensure :: "(string \<Rightarrow> string option) \<Rightarrow> js_val list \<Rightarrow> js_val list" where
  "demo_ensure dir recs = snd (ensureGovernanceApproved demo_loc demo_shw demo_sha dir None ''t'' recs)"

definition demo_pid :: "(string \<Rightarrow> string option) \<Rightarrow> js_val list \<Rightarrow> string" where
  "demo_pid dir recs = governanceProposalId demo_shw demo_sha ''policy_change'' (approved_hash recs)
     (snapshotHash demo_loc demo_sha (computePolicySnapshot demo_sha dir)) None"

definition demo_approve :: "(string \<Rightarrow> string option) \<Rightarrow> js_val list \<Rightarrow> js_val list" where
  "demo_approve dir recs = snd (approveProposal (demo_pid dir recs) ByHuman ''t'' (demo_ensure dir recs))"

definition demo_log :: "js_val list" where
  "demo_log = demo_approve policy_a (demo_approve policy_b (demo_approve policy_a []))"

lemma demo_approve_reach:
  "gov_reach demo_loc demo_shw demo_sha recs \<Longrightarrow> gov_reach demo_loc demo_shw demo_sha (demo_approve dir recs)"
  unfolding demo_approve_def demo_ensure_def by (intro gov_reach.approve gov_reach.ensure)

lemma demo_log_reach: "gov_reach demo_loc demo_shw demo_sha demo_log"
  unfolding demo_log_def by (intro demo_approve_reach gov_reach.start)

lemma demo_b_new:
  "approved_hash demo_log \<noteq> VStr (snapshotHash demo_loc demo_sha (computePolicySnapshot demo_sha policy_b))"
  by code_simp

lemma demo_b_changed: "VStr (demo_pid policy_b demo_log) \<in> set (ids_of CHANGED demo_log)"
  by code_simp

lemma demo_log_size: "length demo_log = 6 \<and> length (human_ids demo_log) = 3"
  by code_simp

theorem approvals_repeat_witness:
  "length (human_ids demo_log) = 3 \<and> distinct (ids_of PROPOSED demo_log) \<and> distinct (human_ids demo_log)"
  using approvals_repeat_recorded_proposals [OF demo_log_reach] demo_log_size by blast

theorem revisited_change_witness:
  "\<exists>p recs1. ensureGovernanceApproved demo_loc demo_shw demo_sha policy_b None ''t'' demo_log =
      (Inr (PolicyUnapproved p (''platform governance approve '' @ demo_pid policy_b demo_log)), recs1) \<and>
    approveProposal (demo_pid policy_b demo_log) ByHuman ''t'' recs1 = (Inr NoSuchProposal, recs1) \<and>
    approved_hash recs1 = approved_hash demo_log"
  by (rule revisited_change_is_locked_out [OF demo_log_reach refl demo_b_new demo_pid_def demo_b_changed])

definition gate_a :: "ensure_result gov" where
  "gate_a recs = ensureGovernanceApproved demo_loc demo_shw demo_sha policy_a None ''t'' recs"

theorem approval_opens_the_gate_witness:
  "\<exists>p cmd recs1 pid c recs2. gate_a [] = (Inr (PolicyUnapproved p cmd), recs1) \<and>
     approveProposal pid ByHuman ''t'' recs1 = (Inr (Approved c), recs2) \<and>
     gate_a recs2 = (Inr (EnsureOk (snapshotHash demo_loc demo_sha (computePolicySnapshot demo_sha policy_a))), recs2)"
proof -
  obtain res recs1 where run: "ensureGovernanceApproved demo_loc demo_shw demo_sha policy_a None ''t'' [] = (res, recs1)"
    by fastforce
  note gate = approval_opens_the_gate [OF gov_reach.start refl run, of "''t''" "''t''"]
  then obtain p cmd where res: "res = Inr (PolicyUnapproved p cmd)"
    by (auto simp: approved_hash_def split: sum.splits ensure_result.splits)
  define pid where "pid = governanceProposalId demo_shw demo_sha ''policy_change'' (approved_hash [])
    (snapshotHash demo_loc demo_sha (computePolicySnapshot demo_sha policy_a)) None"
  have "\<exists>c recs2. approveProposal pid ByHuman ''t'' recs1 = (Inr (Approved c), recs2) \<and>
      gate_a recs2 = (Inr (EnsureOk (snapshotHash demo_loc demo_sha (computePolicySnapshot demo_sha policy_a))), recs2)"
    using gate unfolding res gate_a_def by (simp add: Let_def pid_def [symmetric] ids_of_def uncollided_def)
  then show ?thesis using run unfolding gate_a_def res by blast
qed

definition demo_decode :: "string \<Rightarrow> string option" where
  "demo_decode s = Some s"

definition demo_stamp :: "string \<Rightarrow> int option" where
  "demo_stamp s = Some 0"

definition demo_boot_fields :: "js_val \<Rightarrow> payload" where
  "demo_boot_fields ty =
     [(''type'', ty), (''ts'', VStr ''t'')] @
     proposal_fields (governanceProposalId demo_shw demo_sha ''policy_change'' VNull ''A'' None) ''policy_change'' VNull ''A''
       BOOTSTRAP_POLICY_RATIONALE []"

text \<open>A parser of the two lines \<open>p\<close> and \<open>c\<close>.\<close>

definition demo_parse :: "string \<Rightarrow> js_val option" where
  "demo_parse l =
     (if l = ''p'' then Some (VObj (demo_boot_fields PROPOSED))
      else if l = ''c'' then Some (VObj (demo_boot_fields CHANGED @ [(''decidedBy'', VStr ''human'')]))
      else None)"

definition demo_append :: string where
  "demo_append = ''p'' @ nl @ ''c'' @ nl"

lemma demo_append_ok:
  "validateBootstrapGovernanceAppend demo_shw demo_sha demo_stamp demo_decode demo_parse [] demo_append ''A'' =
     Inr (Inr \<lparr>bo_before = VNull, bo_after = ''A'', bo_id = governanceProposalId demo_shw demo_sha ''policy_change'' VNull ''A'' None\<rparr>)"
  by code_simp

theorem bootstrap_append_witness:
  "\<exists>hs p c. parseGovernanceLogBytes demo_decode demo_parse demo_append = Some hs \<and> drop 0 hs = [p, c] \<and>
     approved_hash hs = VStr ''A'' \<and> val_get c ''decidedBy'' = VStr ''human''"
proof -
  have none: "parseGovernanceLogBytes demo_decode demo_parse [] = Some []"
    by (simp add: parseGovernanceLogBytes_def demo_decode_def)
  show ?thesis using bootstrap_append_is_one_approved_change [OF demo_append_ok] unfolding none by auto
qed

end
