(* ===== verification/Evidence.thy ===== *)
theory Evidence
  imports PathPolicy
begin

text \<open>
  The content-addressed evidence store (\<open>core/src/evidence/store.ts\<close>). Its directory maps the name of a
  file, the hash of its bytes, to what is there. SHA-256, the text encoder and the text decoder are
  arguments, and so is what the disk does to an exclusive create; the messages of the errors are left out.
\<close>

section \<open>The directory\<close>

text \<open>
  What a name leads to: a regular file; something that opens but is not one (a directory, a pipe); or
  something that does not open (a link, a file without permission) with the code of the error, and whether
  \<open>existsSync\<close> sees it.
\<close>

datatype blob_node =
    Regular string
  | NotRegular
  | Unopenable string bool

type_synonym blob_dir = "string \<Rightarrow> blob_node option"

text \<open>What becomes of writing a file that does not exist: it is written, refused, or torn off after a part.\<close>

datatype disk = DiskOk | DiskRefuses string | DiskTears string string

datatype store_code = InvalidRef | MissingBlob | HashMismatch | ExistingMismatch

datatype store_error = StoreError store_code | DiskError string

datatype content = Text string | Bytes string

section \<open>Operations\<close>

definition REF_PREFIX :: string where
  "REF_PREFIX = ''blob://''"

definition hex_digit :: "char \<Rightarrow> bool" where
  "hex_digit c \<longleftrightarrow> c \<in> set ''0123456789abcdef''"

definition is_hash :: "string \<Rightarrow> bool" where
  "is_hash h \<longleftrightarrow> length h = 64 \<and> list_all hex_digit h"

definition refToPath :: "string \<Rightarrow> store_error + string" where
  "refToPath ref =
     (if \<not> str_prefix REF_PREFIX ref then Inl (StoreError InvalidRef)
      else
        let hash = drop (length REF_PREFIX) ref in
        if \<not> is_hash hash then Inl (StoreError InvalidRef) else Inr hash)"

function same_from :: "nat \<Rightarrow> string \<Rightarrow> string \<Rightarrow> bool" where
  "same_from i l r = (if length l \<le> i then True else if l ! i \<noteq> r ! i then False else same_from (Suc i) l r)"
  by pat_completeness auto
termination by (relation "measure (\<lambda>(i, l, _). length l - i)") auto

declare same_from.simps [simp del]

definition sameBytes :: "string \<Rightarrow> string \<Rightarrow> bool" where
  "sameBytes l r = (if length l \<noteq> length r then False else same_from 0 l r)"

text \<open>The left value is the code of the error; the error of a file that is not regular has none.\<close>

definition readRegularFileNoFollow :: "blob_dir \<Rightarrow> string \<Rightarrow> string option + string" where
  "readRegularFileNoFollow dir h =
     (case dir h of
        None \<Rightarrow> Inl (Some ''ENOENT'')
      | Some (Regular bs) \<Rightarrow> Inr bs
      | Some NotRegular \<Rightarrow> Inl None
      | Some (Unopenable code _) \<Rightarrow> Inl (Some code))"

definition put :: "(string \<Rightarrow> string) \<Rightarrow> (string \<Rightarrow> string) \<Rightarrow> disk \<Rightarrow> content \<Rightarrow> blob_dir \<Rightarrow> (store_error + string) \<times> blob_dir" where
  "put sha encode disk content dir =
     (let bytes = (case content of Text s \<Rightarrow> encode s | Bytes b \<Rightarrow> b);
          hash = sha bytes in
      case dir hash of
        None \<Rightarrow>
          (case disk of
             DiskOk \<Rightarrow> (Inr (REF_PREFIX @ hash), dir(hash \<mapsto> Regular bytes))
           | DiskRefuses e \<Rightarrow> (Inl (DiskError e), dir)
           | DiskTears e part \<Rightarrow> (Inl (DiskError e), dir(hash \<mapsto> Regular part)))
      | Some _ \<Rightarrow>
          (case readRegularFileNoFollow dir hash of
             Inl _ \<Rightarrow> (Inl (StoreError ExistingMismatch), dir)
           | Inr existing \<Rightarrow>
               if sha existing \<noteq> hash \<or> \<not> sameBytes existing bytes then (Inl (StoreError ExistingMismatch), dir)
               else (Inr (REF_PREFIX @ hash), dir)))"

definition get :: "(string \<Rightarrow> string) \<Rightarrow> string \<Rightarrow> blob_dir \<Rightarrow> store_error + string" where
  "get sha ref dir =
     e_bind (refToPath ref) (\<lambda>h.
     case readRegularFileNoFollow dir h of
       Inl code \<Rightarrow> Inl (StoreError (if code = Some ''ENOENT'' then MissingBlob else HashMismatch))
     | Inr bytes \<Rightarrow>
         if sha bytes \<noteq> drop (length REF_PREFIX) ref then Inl (StoreError HashMismatch) else Inr bytes)"

definition getText :: "(string \<Rightarrow> string) \<Rightarrow> (string \<Rightarrow> string) \<Rightarrow> string \<Rightarrow> blob_dir \<Rightarrow> store_error + string" where
  "getText sha decode ref dir = e_bind (get sha ref dir) (\<lambda>bytes. Inr (decode bytes))"

definition has :: "string \<Rightarrow> blob_dir \<Rightarrow> bool" where
  "has ref dir =
     (case refToPath ref of
        Inl _ \<Rightarrow> False
      | Inr h \<Rightarrow> (case dir h of None \<Rightarrow> False | Some (Unopenable _ seen) \<Rightarrow> seen | Some _ \<Rightarrow> True))"

section \<open>References\<close>

lemma same_from_iff: "length l = length r \<Longrightarrow> same_from i l r \<longleftrightarrow> drop i l = drop i r"
proof (induction i l r rule: same_from.induct)
  case (1 i l r)
  show ?case
  proof (cases "length l \<le> i")
    case True
    then show ?thesis using 1 by (simp add: same_from.simps)
  next
    case False
    then have "drop i l = l ! i # drop (Suc i) l" "drop i r = r ! i # drop (Suc i) r"
      using 1(2) by (simp_all add: Cons_nth_drop_Suc)
    then show ?thesis using 1 False by (subst same_from.simps) simp
  qed
qed

lemma sameBytes_iff: "sameBytes l r \<longleftrightarrow> l = r"
  by (auto simp: sameBytes_def same_from_iff)

lemma refToPath_ref [simp]: "refToPath (REF_PREFIX @ h) = (if is_hash h then Inr h else Inl (StoreError InvalidRef))"
  by (simp add: refToPath_def str_prefix_def Let_def)

lemma refToPath_Inr: "refToPath ref = Inr h \<longleftrightarrow> is_hash h \<and> ref = REF_PREFIX @ h"
proof
  assume "refToPath ref = Inr h"
  then have "take (length REF_PREFIX) ref = REF_PREFIX" "drop (length REF_PREFIX) ref = h" "is_hash h"
    by (auto simp: refToPath_def str_prefix_def Let_def split: if_splits)
  then show "is_hash h \<and> ref = REF_PREFIX @ h" using append_take_drop_id [of "length REF_PREFIX" ref] by simp
qed simp

lemma readRegular_Inr: "readRegularFileNoFollow dir h = Inr bytes \<longleftrightarrow> dir h = Some (Regular bytes)"
  by (simp add: readRegularFileNoFollow_def split: option.split blob_node.split)

lemma get_of_hash:
  assumes "is_hash h"
  shows "get sha (REF_PREFIX @ h) dir = Inr bytes \<longleftrightarrow> dir h = Some (Regular bytes) \<and> sha bytes = h"
proof (cases "readRegularFileNoFollow dir h")
  case (Inl code)
  then have "dir h \<noteq> Some (Regular bytes)" using readRegular_Inr [of dir h bytes] by auto
  then show ?thesis using Inl assms by (simp add: get_def)
next
  case (Inr b)
  then have "dir h = Some (Regular b)" by (simp add: readRegular_Inr)
  then show ?thesis using Inr assms by (auto simp: get_def)
qed

lemma get_Inr:
  "get sha ref dir = Inr bytes \<longleftrightarrow>
     ref = REF_PREFIX @ sha bytes \<and> is_hash (sha bytes) \<and> dir (sha bytes) = Some (Regular bytes)"
proof (cases "refToPath ref")
  case (Inl e)
  then show ?thesis by (auto simp: get_def)
next
  case (Inr h)
  then have "is_hash h" "ref = REF_PREFIX @ h" by (simp_all add: refToPath_Inr)
  then show ?thesis by (auto simp: get_of_hash)
qed

section \<open>Stores that only grow\<close>

text \<open>What is there stays as it is, whatever is asked of the store; so it does over any sequence of requests.\<close>

locale growing_store =
  fixes step :: "'op \<Rightarrow> ('k \<Rightarrow> 'v option) \<Rightarrow> ('k \<Rightarrow> 'v option)"
  assumes keeps: "s k = Some v \<Longrightarrow> step a s k = Some v"
begin

lemma run_keeps: "s k = Some v \<Longrightarrow> fold step as s k = Some v"
  by (induction as arbitrary: s) (simp_all add: keeps)

lemma run_grows: "s \<subseteq>\<^sub>m fold step as s"
  by (auto simp: map_le_def dom_def run_keeps)

end

text \<open>A request to store content, and what the disk makes of it.\<close>

definition put_step :: "(string \<Rightarrow> string) \<Rightarrow> (string \<Rightarrow> string) \<Rightarrow> disk \<times> content \<Rightarrow> blob_dir \<Rightarrow> blob_dir" where
  "put_step sha encode req dir = snd (put sha encode (fst req) (snd req) dir)"

interpretation blobs: growing_store "put_step sha encode" for sha encode
  by unfold_locales (auto simp: put_step_def put_def Let_def split: option.splits disk.splits sum.splits)

section \<open>What the store promises\<close>

lemma put_ok:
  assumes "put sha encode disk content dir = (Inr ref, dir')"
    and "bytes = (case content of Text s \<Rightarrow> encode s | Bytes b \<Rightarrow> b)"
  shows "ref = REF_PREFIX @ sha bytes \<and> dir' (sha bytes) = Some (Regular bytes)"
  using assms
  by (auto simp: put_def Let_def readRegularFileNoFollow_def sameBytes_iff
      split: option.splits disk.splits sum.splits if_splits blob_node.splits)

text \<open>Whatever is in the directory, bytes that come out of the store are bytes whose hash is the reference,
  and they are the ones on the disk: a foreign, torn or replaced file is an error and never evidence.\<close>

theorem get_returns_what_the_reference_names:
  assumes "get sha ref dir = Inr bytes"
  shows "ref = REF_PREFIX @ sha bytes \<and> dir (sha bytes) = Some (Regular bytes) \<and> has ref dir"
  using assms by (auto simp: get_Inr has_def)

text \<open>C26: content put comes back, byte for byte, after any number of further requests, whatever the disk makes of
  them: a put never changes what another put has published. The hypothesis is the shape of a SHA-256 in
  hexadecimal.\<close>

theorem put_get_roundtrip:
  assumes "\<And>b. is_hash (sha b)"
    and "put sha encode disk content dir = (Inr ref, dir')"
  shows "get sha ref (fold (put_step sha encode) later dir') =
      Inr (case content of Text s \<Rightarrow> encode s | Bytes b \<Rightarrow> b) \<and>
    has ref (fold (put_step sha encode) later dir') \<and>
    (\<forall>h. dir h \<noteq> None \<longrightarrow> fold (put_step sha encode) later dir' h = dir h)"
proof -
  define bytes where "bytes = (case content of Text s \<Rightarrow> encode s | Bytes b \<Rightarrow> b)"
  have ok: "ref = REF_PREFIX @ sha bytes" "dir' (sha bytes) = Some (Regular bytes)"
    using put_ok [OF assms(2) bytes_def] by auto
  have dir': "dir' = put_step sha encode (disk, content) dir" using assms(2) by (simp add: put_step_def)
  have kept: "fold (put_step sha encode) later dir' h = dir h" if seen: "dir h \<noteq> None" for h
  proof -
    obtain v where v: "dir h = Some v" using seen by blast
    then have "dir' h = Some v" unfolding dir' by (rule blobs.keeps)
    then show ?thesis using v blobs.run_keeps by metis
  qed
  have "fold (put_step sha encode) later dir' (sha bytes) = Some (Regular bytes)"
    using ok(2) by (rule blobs.run_keeps)
  then have "get sha ref (fold (put_step sha encode) later dir') = Inr bytes"
    using ok(1) assms(1) by (simp add: get_Inr)
  then show ?thesis
    using kept get_Inr [of sha ref _ bytes] by (auto simp: bytes_def [symmetric] has_def)
qed

text \<open>The errors tell apart what is wrong.\<close>

lemma get_errors:
  assumes "is_hash h"
  shows "get sha (REF_PREFIX @ h) dir =
    (case dir h of
       None \<Rightarrow> Inl (StoreError MissingBlob)
     | Some (Regular bs) \<Rightarrow> if sha bs = h then Inr bs else Inl (StoreError HashMismatch)
     | Some NotRegular \<Rightarrow> Inl (StoreError HashMismatch)
     | Some (Unopenable code _) \<Rightarrow> Inl (StoreError (if code = ''ENOENT'' then MissingBlob else HashMismatch)))"
  using assms by (auto simp: get_def readRegularFileNoFollow_def split: option.splits blob_node.splits)

text \<open>A torn write poisons its address: the content cannot be stored until someone removes the file.\<close>

lemma torn_blob_is_refused:
  assumes "put sha encode (DiskTears e part) (Bytes b) dir = (res, dir')" "dir (sha b) = None" "part \<noteq> b"
  shows "put sha encode disk (Bytes b) dir' = (Inl (StoreError ExistingMismatch), dir')"
  using assms by (auto simp: put_def Let_def readRegularFileNoFollow_def sameBytes_iff)

section \<open>A concrete store\<close>

text \<open>A hash of sixty-four hexadecimal digits that counts.\<close>

definition count_hash :: "string \<Rightarrow> string" where
  "count_hash b = replicate 63 (CHR ''0'') @ [''0123456789abcdef'' ! (length b mod 16)]"

definition plain_text :: "string \<Rightarrow> string" where
  "plain_text s = s"

lemma count_hash_is_hash: "is_hash (count_hash b)"
proof -
  have "length b mod 16 < length ''0123456789abcdef''" by simp
  then have "hex_digit (''0123456789abcdef'' ! (length b mod 16))" unfolding hex_digit_def by (rule nth_mem)
  moreover have "hex_digit (CHR ''0'')" by (simp add: hex_digit_def)
  ultimately show ?thesis by (simp add: is_hash_def count_hash_def list_all_iff del: replicate.simps)
qed

lemma demo_put:
  "put count_hash plain_text DiskOk (Text ''abc'') (\<lambda>_. None) =
     (Inr (REF_PREFIX @ count_hash ''abc''), [count_hash ''abc'' \<mapsto> Regular ''abc''])"
  by (simp add: put_def Let_def plain_text_def)

theorem put_get_roundtrip_witness:
  "get count_hash (REF_PREFIX @ count_hash ''abc'')
     (fold (put_step count_hash plain_text) [(DiskTears ''ENOSPC'' ''a'', Bytes ''abcd''), (DiskOk, Text ''xyz'')]
       [count_hash ''abc'' \<mapsto> Regular ''abc'']) = Inr ''abc''"
  using put_get_roundtrip [OF count_hash_is_hash demo_put, of "[(DiskTears ''ENOSPC'' ''a'', Bytes ''abcd''), (DiskOk, Text ''xyz'')]"]
  by (simp add: plain_text_def)

theorem get_returns_what_the_reference_names_witness:
  "[count_hash ''abc'' \<mapsto> Regular ''abc''] (count_hash ''abc'') = Some (Regular ''abc'') \<and>
    has (REF_PREFIX @ count_hash ''abc'') [count_hash ''abc'' \<mapsto> Regular ''abc'']"
proof -
  have "get count_hash (REF_PREFIX @ count_hash ''abc'') [count_hash ''abc'' \<mapsto> Regular ''abc''] = Inr ''abc''"
    by (simp add: get_Inr count_hash_is_hash)
  from get_returns_what_the_reference_names [OF this] show ?thesis by blast
qed

end
