(* ===== verification/EvidenceAuth.thy ===== *)
theory EvidenceAuth
  imports Evidence "HOL-Library.List_Lexorder" "HOL-Library.Char_ord" "HOL-Library.Multiset"
begin

text \<open>
  The signer of evidence (\<open>core/src/evidence/auth.ts\<close>): the canonical encoding of what is signed, and the
  opening of a run's key pair. Ed25519, SHA-256, base64 and JSON are arguments. Values are trees read from
  JSON or built by the core, so the cycle check never fires and is left out.
\<close>

section \<open>Canonical values\<close>

text \<open>
  A key that is an array index comes first and in numeric order when an object is listed. Assigning to
  \<open>__proto__\<close> changes the prototype and adds no field.
\<close>

definition index_key :: "string \<Rightarrow> bool" where
  "index_key k \<longleftrightarrow>
     k \<noteq> [] \<and> list_all (\<lambda>c. c \<in> set ''0123456789'') k \<and> (hd k \<noteq> CHR ''0'' \<or> length k = 1) \<and>
     (length k < 10 \<or> length k = 10 \<and> k < ''4294967295'')"

text \<open>The fields of an object filled in the sorted order of its keys, as they are listed.\<close>

definition listed :: "(string \<times> 'a) list \<Rightarrow> (string \<times> 'a) list" where
  "listed fs =
     (let own = filter (\<lambda>(k, _). k \<noteq> ''__proto__'') fs in
      sort_key (\<lambda>(k, _). (length k)) (filter (\<lambda>(k, _). index_key k) own) @ filter (\<lambda>(k, _). \<not> index_key k) own)"

text \<open>The first error of a sequence of results, or all of them.\<close>

fun first_error :: "(string \<times> ('e + 'a)) list \<Rightarrow> 'e + (string \<times> 'a) list" where
  "first_error [] = Inr []"
| "first_error ((k, r) # rs) = e_bind r (\<lambda>v. e_bind (first_error rs) (\<lambda>vs. Inr ((k, v) # vs)))"

text \<open>The left value is the path of the \<open>TypeError\<close>.\<close>

fun normalizeCanonical :: "string \<Rightarrow> js_val \<Rightarrow> string + js_val"
  and normalize_entries :: "string \<Rightarrow> nat \<Rightarrow> js_val list \<Rightarrow> string + js_val list"
  and normalize_fields :: "string \<Rightarrow> (string \<times> js_val) list \<Rightarrow> (string \<times> (string + js_val)) list" where
  "normalizeCanonical path VUndef = Inl path"
| "normalizeCanonical path VNull = Inr VNull"
| "normalizeCanonical path (VBool b) = Inr (VBool b)"
| "normalizeCanonical path (VStr s) = Inr (VStr s)"
| "normalizeCanonical path (VNum n) = (if js_finite n then Inr (VNum n) else Inl path)"
| "normalizeCanonical path (VArr vs) = e_bind (normalize_entries path 0 vs) (\<lambda>ws. Inr (VArr ws))"
| "normalizeCanonical path (VObj fs) =
     e_bind (first_error (sort_key fst (normalize_fields path fs))) (\<lambda>gs. Inr (VObj (listed gs)))"
| "normalize_entries path i [] = Inr []"
| "normalize_entries path i (v # vs) =
     e_bind (normalizeCanonical (path @ ''['' @ nat_str i @ '']'') v) (\<lambda>w.
     e_bind (normalize_entries path (Suc i) vs) (\<lambda>ws. Inr (w # ws)))"
| "normalize_fields path [] = []"
| "normalize_fields path ((k, v) # fs) = (k, normalizeCanonical (path @ ''.'' @ k) v) # normalize_fields path fs"

definition canonicalEvidenceBytes :: "(js_val \<Rightarrow> string) \<Rightarrow> (string \<Rightarrow> string) \<Rightarrow> js_val \<Rightarrow> string + string" where
  "canonicalEvidenceBytes stringify encode v =
     e_bind (normalizeCanonical ''$'' (VObj [(''encoding'', VStr ''canonical-json-v1''), (''value'', v)]))
       (\<lambda>envelope. Inr (encode (stringify envelope)))"

text \<open>What a value says when it is signed: fields are a map, those named \<open>__proto__\<close> (which \<open>JSON.parse\<close> yields as
  fields of their own, and the assignment of \<open>normalizeCanonical\<close> loses) left out at every depth; entries are a list.\<close>

datatype meaning = MAtom js_val | MArr "meaning list" | MObj "string \<Rightarrow> meaning option"

fun meaning_of :: "js_val \<Rightarrow> meaning"
  and meanings_of :: "js_val list \<Rightarrow> meaning list"
  and field_meanings :: "(string \<times> js_val) list \<Rightarrow> (string \<times> meaning) list" where
  "meaning_of (VArr vs) = MArr (meanings_of vs)"
| "meaning_of (VObj fs) = MObj (map_of (field_meanings fs))"
| "meaning_of v = MAtom v"
| "meanings_of [] = []"
| "meanings_of (v # vs) = meaning_of v # meanings_of vs"
| "field_meanings [] = []"
| "field_meanings ((k, v) # fs) =
     (if k = ''__proto__'' then field_meanings fs else (k, meaning_of v) # field_meanings fs)"

text \<open>Objects have distinct keys, as those of \<open>JSON.parse\<close> have.\<close>

fun json_ok :: "js_val \<Rightarrow> bool"
  and all_json_ok :: "js_val list \<Rightarrow> bool"
  and fields_json_ok :: "(string \<times> js_val) list \<Rightarrow> bool" where
  "json_ok (VArr vs) = all_json_ok vs"
| "json_ok (VObj fs) = (distinct (map fst fs) \<and> fields_json_ok fs)"
| "json_ok v = True"
| "all_json_ok [] = True"
| "all_json_ok (v # vs) = (json_ok v \<and> all_json_ok vs)"
| "fields_json_ok [] = True"
| "fields_json_ok ((k, v) # fs) = (json_ok v \<and> fields_json_ok fs)"

text \<open>Every object is listed the canonical way.\<close>

fun canonical :: "js_val \<Rightarrow> bool"
  and all_canonical :: "js_val list \<Rightarrow> bool"
  and fields_canonical :: "(string \<times> js_val) list \<Rightarrow> bool" where
  "canonical (VArr vs) = all_canonical vs"
| "canonical (VObj fs) = (distinct (map fst fs) \<and> fs = listed (sort_key fst fs) \<and> fields_canonical fs)"
| "canonical v = True"
| "all_canonical [] = True"
| "all_canonical (v # vs) = (canonical v \<and> all_canonical vs)"
| "fields_canonical [] = True"
| "fields_canonical ((k, v) # fs) = (canonical v \<and> fields_canonical fs)"

lemma meanings_map: "meanings_of vs = map meaning_of vs"
  by (induction vs) auto

lemma field_meanings_map:
  "field_meanings fs = map (\<lambda>(k, v). (k, meaning_of v)) (filter (\<lambda>(k, _). k \<noteq> ''__proto__'') fs)"
  by (induction fs) auto

lemma all_json_ok_iff: "all_json_ok vs \<longleftrightarrow> (\<forall>v \<in> set vs. json_ok v)"
  by (induction vs) auto

lemma fields_json_ok_iff: "fields_json_ok fs \<longleftrightarrow> (\<forall>(k, v) \<in> set fs. json_ok v)"
  by (induction fs) auto

lemma all_canonical_iff: "all_canonical vs \<longleftrightarrow> (\<forall>v \<in> set vs. canonical v)"
  by (induction vs) auto

lemma fields_canonical_iff: "fields_canonical fs \<longleftrightarrow> (\<forall>(k, v) \<in> set fs. canonical v)"
  by (induction fs) auto

lemma normalize_fields_map:
  "normalize_fields path fs = map (\<lambda>(k, v). (k, normalizeCanonical (path @ ''.'' @ k) v)) fs"
  by (induction fs) auto

lemma first_error_Inr: "first_error rs = Inr vs \<longleftrightarrow> rs = map (\<lambda>(k, v). (k, Inr v)) vs"
  by (induction rs arbitrary: vs rule: first_error.induct) (auto simp: e_bind_Inr_iff)

subsection \<open>Listing\<close>

lemma listed_set: "set (listed fs) = {f \<in> set fs. fst f \<noteq> ''__proto__''}"
  by (auto simp: listed_def Let_def)

lemma listed_all: "''__proto__'' \<notin> set (map fst fs) \<Longrightarrow> set (listed fs) = set fs"
  by (force simp: listed_set)

lemma listed_keys: "distinct (map fst fs) \<Longrightarrow> distinct (map fst (listed fs))"
  by (auto simp: listed_def Let_def distinct_map inj_on_def)

lemma sort_key_unique:
  assumes "distinct (map fst xs)" "distinct (map fst ys)" "set xs = set ys"
  shows "sort_key fst xs = sort_key fst ys"
proof -
  have "mset xs = mset ys" using assms by (simp add: set_eq_iff_mset_eq_distinct distinct_map)
  moreover have "inj_on fst (set xs)" using assms(1) by (simp add: distinct_map)
  ultimately show ?thesis by (metis mset_sort set_sort sort_key_inj_key_eq sorted_sort_key)
qed

lemma listed_own: "listed (filter (\<lambda>(k, _). k \<noteq> ''__proto__'') fs) = listed fs"
  by (simp add: listed_def Let_def)

text \<open>A sorted list of fields is what sorting its listing gives back.\<close>

lemma sort_listed:
  assumes "distinct (map fst gs)" "''__proto__'' \<notin> set (map fst gs)" "sorted (map fst gs)"
  shows "sort_key fst (listed gs) = gs"
proof -
  have "set (listed gs) = set gs" using assms(2) by (rule listed_all)
  then have "sort_key fst (listed gs) = sort_key fst gs"
    using listed_keys [OF assms(1)] assms(1) by (intro sort_key_unique)
  then show ?thesis using assms(3) by (simp add: sort_key_id_if_sorted)
qed

subsection \<open>Normal forms\<close>

text \<open>The fields a normalized object has are the sorted ones, each normalized.\<close>

lemma normalized_fields:
  assumes "sort_key fst (normalize_fields path fs) = map (\<lambda>(k, v). (k, Inr v)) gs" "distinct (map fst fs)"
  shows "sorted (map fst gs)" "distinct (map fst gs)" "set (map fst gs) = set (map fst fs)"
    and "(k, w) \<in> set gs \<longleftrightarrow> (\<exists>v. (k, v) \<in> set fs \<and> normalizeCanonical (path @ ''.'' @ k) v = Inr w)"
    and "(k, v) \<in> set fs \<Longrightarrow> \<exists>w. normalizeCanonical (path @ ''.'' @ k) v = Inr w"
proof -
  let ?nf = "normalize_fields path fs"
  have keys: "map fst gs = map fst (sort_key fst ?nf)" using assms(1) by (simp add: case_prod_unfold comp_def)
  have nf: "map fst ?nf = map fst fs" by (simp add: normalize_fields_map case_prod_unfold comp_def)
  show "sorted (map fst gs)" unfolding keys by simp
  have "mset (map fst gs) = mset (map fst fs)" unfolding keys by (metis mset_map mset_sort nf)
  then show "distinct (map fst gs)" "set (map fst gs) = set (map fst fs)"
    using assms(2) mset_eq_imp_distinct_iff mset_eq_setD by blast+
  have sets: "set ?nf = (\<lambda>(k, v). (k, Inr v)) ` set gs" using assms(1) by (metis set_map set_sort)
  have in_gs: "(k, w) \<in> set gs \<longleftrightarrow> (k, Inr w) \<in> set ?nf" unfolding sets by force
  show "(k, w) \<in> set gs \<longleftrightarrow> (\<exists>v. (k, v) \<in> set fs \<and> normalizeCanonical (path @ ''.'' @ k) v = Inr w)"
    unfolding in_gs by (force simp: normalize_fields_map)
  assume "(k, v) \<in> set fs"
  then have "(k, normalizeCanonical (path @ ''.'' @ k) v) \<in> set ?nf" by (force simp: normalize_fields_map)
  then show "\<exists>w. normalizeCanonical (path @ ''.'' @ k) v = Inr w" unfolding sets by force
qed

lemma field_meaning_keys: "map fst (field_meanings fs) = filter (\<lambda>k. k \<noteq> ''__proto__'') (map fst fs)"
  by (simp add: field_meanings_map case_prod_unfold comp_def filter_map)

lemma field_meaning_mem: "(k, v) \<in> set fs \<Longrightarrow> k \<noteq> ''__proto__'' \<Longrightarrow> (k, meaning_of v) \<in> set (field_meanings fs)"
  by (force simp: field_meanings_map)

lemma canonical_own: "canonical (VObj fs) \<Longrightarrow> (k, v) \<in> set fs \<Longrightarrow> k \<noteq> ''__proto__''"
  using listed_set [of "sort_key fst fs"] by (auto simp del: set_sort)

lemma normalize_canonical:
  "normalizeCanonical path v = Inr a \<Longrightarrow> json_ok v \<Longrightarrow> canonical a \<and> json_ok a \<and> meaning_of a = meaning_of v"
  "normalize_entries path i vs = Inr ws \<Longrightarrow> all_json_ok vs \<Longrightarrow>
     all_canonical ws \<and> all_json_ok ws \<and> meanings_of ws = meanings_of vs"
  "fields_json_ok fs \<Longrightarrow> (k, v) \<in> set fs \<Longrightarrow> normalizeCanonical (path @ ''.'' @ k) v = Inr w \<Longrightarrow>
     canonical w \<and> json_ok w \<and> meaning_of w = meaning_of v"
proof (induction path v and path i vs and path fs arbitrary: a and ws and k v w
    rule: normalizeCanonical_normalize_entries_normalize_fields.induct)
  case (7 path fs)
  then obtain gs where gs: "sort_key fst (normalize_fields path fs) = map (\<lambda>(k, v). (k, Inr v)) gs" "a = VObj (listed gs)"
    by (auto simp: e_bind_Inr_iff first_error_Inr)
  have ok: "distinct (map fst fs)" "fields_json_ok fs" using 7(3) by simp_all
  note nf = normalized_fields [OF gs(1) ok(1)]
  define hs where "hs = filter (\<lambda>(k, _). k \<noteq> ''__proto__'') gs"
  have hs: "sorted (map fst hs)" "distinct (map fst hs)" "''__proto__'' \<notin> set (map fst hs)" "listed hs = listed gs"
    using nf(1,2) by (auto simp: hs_def sorted_filter distinct_map_filter listed_own)
  note listed = listed_set [of gs]
  note dist = listed_keys [OF nf(2)]
  have each: "canonical w \<and> json_ok w \<and> (\<exists>v. (k, v) \<in> set fs \<and> meaning_of w = meaning_of v)" if "(k, w) \<in> set gs" for k w
    using that 7(1) [OF ok(2)] unfolding nf(4) by blast
  have "set (field_meanings (listed gs)) = set (field_meanings fs)"
  proof (intro set_eqI iffI)
    fix x
    assume "x \<in> set (field_meanings (listed gs))"
    then show "x \<in> set (field_meanings fs)" using each by (force simp: field_meanings_map listed)
  next
    fix x
    assume "x \<in> set (field_meanings fs)"
    then obtain k v where v: "x = (k, meaning_of v)" "(k, v) \<in> set fs" "k \<noteq> ''__proto__''" by (auto simp: field_meanings_map)
    then obtain w where w: "normalizeCanonical (path @ ''.'' @ k) v = Inr w" using nf(5) by blast
    then have "(k, w) \<in> set gs" "meaning_of w = meaning_of v" using v(2) nf(4) 7(1) [OF ok(2)] by blast+
    then show "x \<in> set (field_meanings (listed gs))" using v(1,3) by (force simp: field_meanings_map listed)
  qed
  then have "map_of (field_meanings (listed gs)) = map_of (field_meanings fs)"
    using dist ok(1) by (intro map_of_inject_set [THEN iffD2]) (simp_all only: field_meaning_keys distinct_filter)
  moreover have "fields_canonical (listed gs)" "fields_json_ok (listed gs)"
    using each by (auto simp: fields_canonical_iff fields_json_ok_iff listed)
  moreover have "listed gs = listed (sort_key fst (listed gs))" using sort_listed [OF hs(2,3,1)] hs(4) by simp
  ultimately show ?case using gs(2) dist by simp
qed (auto simp: e_bind_Inr_iff split: if_splits)

lemma canonical_unique:
  "canonical a \<Longrightarrow> canonical b \<Longrightarrow> meaning_of a = meaning_of b \<Longrightarrow> a = b"
  "all_canonical vs \<Longrightarrow> all_canonical ws \<Longrightarrow> meanings_of vs = meanings_of ws \<Longrightarrow> vs = ws"
  "fields_canonical fs \<Longrightarrow> (k, v) \<in> set fs \<Longrightarrow> canonical b \<Longrightarrow> meaning_of v = meaning_of b \<Longrightarrow> v = b"
proof (induction a and vs and fs arbitrary: b and ws and k v b rule: canonical_all_canonical_fields_canonical.induct)
  case (1 vs)
  then show ?case by (cases b) auto
next
  case (2 fs)
  then obtain gs where b: "b = VObj gs" by (cases b) auto
  have can: "fields_canonical fs" "fs = listed (sort_key fst fs)" "distinct (map fst fs)"
      "fields_canonical gs" "gs = listed (sort_key fst gs)" "distinct (map fst gs)"
    using 2(2,3) b by simp_all
  have own: "k \<noteq> ''__proto__''" if "(k, v) \<in> set fs \<or> (k, v) \<in> set gs" for k v
    using that canonical_own 2(2,3) b by blast
  have same: "set (field_meanings fs) = set (field_meanings gs)"
    using 2(4) b can(3,6) by (simp add: map_of_inject_set field_meaning_keys)
  have into: "set fs \<subseteq> set gs"
  proof
    fix x
    assume x: "x \<in> set fs"
    obtain k v where kv: "x = (k, v)" by fastforce
    then have "(k, meaning_of v) \<in> set (field_meanings gs)" using x field_meaning_mem own unfolding same [symmetric] by blast
    then obtain w where w: "(k, w) \<in> set gs" "meaning_of v = meaning_of w" by (auto simp: field_meanings_map)
    have "canonical w" using can(4) w(1) by (auto simp: fields_canonical_iff)
    then have "v = w" using 2(1) [OF can(1) _ _ w(2)] x kv by simp
    then show "x \<in> set gs" using w kv by simp
  qed
  moreover have "set gs \<subseteq> set fs"
  proof
    fix x
    assume x: "x \<in> set gs"
    obtain k w where kw: "x = (k, w)" by fastforce
    then have "(k, meaning_of w) \<in> set (field_meanings fs)" using x field_meaning_mem own unfolding same by blast
    then obtain v where v: "(k, v) \<in> set fs" "meaning_of v = meaning_of w" by (auto simp: field_meanings_map)
    have "canonical w" using can(4) x kw by (auto simp: fields_canonical_iff)
    then have "v = w" using 2(1) [OF can(1) v(1) _ v(2)] by simp
    then show "x \<in> set fs" using v kw by simp
  qed
  ultimately have "sort_key fst fs = sort_key fst gs" using can(3,6) by (intro sort_key_unique) auto
  then show ?case using can(2,5) b by metis
next
  case "3_1" then show ?case by (cases b) auto
next
  case "3_2" then show ?case by (cases b) auto
next
  case "3_3" then show ?case by (cases b) auto
next
  case "3_4" then show ?case by (cases b) auto
next
  case "3_5" then show ?case by (cases b) auto
next
  case 4 then show ?case by (cases ws) auto
next
  case (5 v vs) then show ?case by (cases ws) auto
qed auto

subsection \<open>What can be signed\<close>

fun signable :: "js_val \<Rightarrow> bool"
  and all_signable :: "js_val list \<Rightarrow> bool"
  and fields_signable :: "(string \<times> js_val) list \<Rightarrow> bool" where
  "signable VUndef = False"
| "signable (VNum n) = js_finite n"
| "signable (VArr vs) = all_signable vs"
| "signable (VObj fs) = fields_signable fs"
| "signable v = True"
| "all_signable [] = True"
| "all_signable (v # vs) = (signable v \<and> all_signable vs)"
| "fields_signable [] = True"
| "fields_signable ((k, v) # fs) = (signable v \<and> fields_signable fs)"

lemma fields_signable_iff: "fields_signable fs \<longleftrightarrow> (\<forall>(k, v) \<in> set fs. signable v)"
  by (induction fs) auto

lemma first_error_ok: "(\<exists>vs. first_error rs = Inr vs) \<longleftrightarrow> (\<forall>(k, r) \<in> set rs. \<exists>v. r = Inr v)"
  by (induction rs rule: first_error.induct) (auto simp: e_bind_Inr_iff)

lemma normalize_signable:
  "(\<exists>a. normalizeCanonical path v = Inr a) \<longleftrightarrow> signable v"
  "(\<exists>ws. normalize_entries path i vs = Inr ws) \<longleftrightarrow> all_signable vs"
  "(\<forall>(k, r) \<in> set (normalize_fields path fs). \<exists>w. r = Inr w) \<longleftrightarrow> fields_signable fs"
proof (induction path v and path i vs and path fs rule: normalizeCanonical_normalize_entries_normalize_fields.induct)
  case (7 path fs)
  have "(\<exists>a. normalizeCanonical path (VObj fs) = Inr a) \<longleftrightarrow> (\<exists>gs. first_error (sort_key fst (normalize_fields path fs)) = Inr gs)"
    by (auto simp: e_bind_Inr_iff)
  then show ?case unfolding first_error_ok set_sort using 7 by simp
qed (auto simp: e_bind_Inr_iff)

lemma normalized_signable:
  "normalizeCanonical path v = Inr a \<Longrightarrow> signable a"
  "normalize_entries path i vs = Inr ws \<Longrightarrow> all_signable ws"
  "(k, Inr w) \<in> set (normalize_fields path fs) \<Longrightarrow> signable w"
proof (induction path v and path i vs and path fs arbitrary: a and ws and k w
    rule: normalizeCanonical_normalize_entries_normalize_fields.induct)
  case (7 path fs)
  then obtain gs where gs: "sort_key fst (normalize_fields path fs) = map (\<lambda>(k, v). (k, Inr v)) gs" "a = VObj (listed gs)"
    by (auto simp: e_bind_Inr_iff first_error_Inr)
  then have "set (normalize_fields path fs) = (\<lambda>(k, v). (k, Inr v)) ` set gs" by (metis set_map set_sort)
  then have "signable w" if "(k, w) \<in> set gs" for k w using 7(1) [of k w] that by force
  then show ?case using gs(2) by (auto simp: fields_signable_iff listed_set)
qed (auto simp: e_bind_Inr_iff split: if_splits)

text \<open>C21: what is signed is what the value says apart from its fields named \<open>__proto__\<close>, whatever the order its fields
  were written in. Every value of finite numbers without \<open>undefined\<close> has a canonical form; two values have the same
  one exactly when, those fields left out at every depth, they say the same; and a canonical form is its own.\<close>

theorem signed_form_is_the_meaning:
  assumes "json_ok v" "json_ok w" "signable v" "signable w"
  shows "\<exists>a b. normalizeCanonical path v = Inr a \<and> normalizeCanonical path' w = Inr b \<and>
    (a = b \<longleftrightarrow> meaning_of v = meaning_of w) \<and> normalizeCanonical path'' a = Inr a"
proof -
  obtain a b where ab: "normalizeCanonical path v = Inr a" "normalizeCanonical path' w = Inr b"
    using assms(3,4) normalize_signable(1) by metis
  note a = normalize_canonical(1) [OF ab(1) assms(1)] and b = normalize_canonical(1) [OF ab(2) assms(2)]
  obtain c where c: "normalizeCanonical path'' a = Inr c"
    using normalized_signable(1) [OF ab(1)] normalize_signable(1) by metis
  then have "c = a" using normalize_canonical(1) [OF c] a canonical_unique(1) by metis
  then show ?thesis using ab a b c canonical_unique(1) by metis
qed

definition report_a :: js_val where
  "report_a = VObj [(''pass'', VBool True), (''10'', VStr ''x''), (''9'', VObj [(''b'', VNull), (''a'', VArr [])])]"

definition report_b :: js_val where
  "report_b = VObj [(''__proto__'', VObj [(''pass'', VBool False)]), (''9'', VObj [(''a'', VArr []), (''b'', VNull)]), (''pass'', VBool True), (''10'', VStr ''x'')]"

theorem signed_form_is_the_meaning_witness:
  "\<exists>a. normalizeCanonical ''$'' report_a = Inr a \<and> normalizeCanonical ''$'' report_b = Inr a"
proof -
  have "json_ok report_a" "json_ok report_b" "signable report_a" "signable report_b"
    by (simp_all add: report_a_def report_b_def)
  moreover have "meaning_of report_a = meaning_of report_b"
    by (simp add: report_a_def report_b_def fun_eq_iff)
  ultimately show ?thesis using signed_form_is_the_meaning [of report_a report_b "''$''" "''$''" "''$''"] by metis
qed

text \<open>A field named \<open>__proto__\<close> is lost: it can be added, changed or dropped under the same signature.\<close>

lemma proto_field_is_not_signed:
  "canonicalEvidenceBytes stringify encode (VObj [(''__proto__'', VObj [(''pass'', VBool True)])]) =
   canonicalEvidenceBytes stringify encode (VObj [])"
  by code_simp

end
