(* ===== verification/Authenticator.thy ===== *)
theory Authenticator
  imports EvidenceAuth
begin

text \<open>
  The key pair of a run (\<open>core/src/evidence/auth.ts\<close>): opened once, recovered ever after. The files are a
  record of the three things the code looks at; a real directory under a real path is its own real path.
  Keys, signatures, base64 and JSON are arguments.
\<close>

section \<open>Containment of paths\<close>

definition path_parts :: "string \<Rightarrow> string list" where
  "path_parts p = resolve_segs False (split_on slash p)"

fun strip_common :: "string list \<Rightarrow> string list \<Rightarrow> string list \<times> string list" where
  "strip_common (a # as) (b # bs) = (if a = b then strip_common as bs else (a # as, b # bs))"
| "strip_common as bs = (as, bs)"

text \<open>\<open>relative(from, to)\<close> of absolute paths.\<close>

definition path_relative :: "string \<Rightarrow> string \<Rightarrow> string" where
  "path_relative src dst =
     (case strip_common (path_parts src) (path_parts dst) of
        (up, down) \<Rightarrow> join ''/'' (replicate (length up) ''..'' @ down))"

definition isWithin :: "string \<Rightarrow> string \<Rightarrow> string \<Rightarrow> bool" where
  "isWithin cwd parent child =
     (let rel = path_relative (path_resolve cwd parent) (path_resolve cwd child) in
      rel = [] \<or> \<not> str_prefix ''..'' rel \<and> \<not> is_abs rel)"

text \<open>What the check takes for inside: the path itself, or one below whose first component after the parent's does not
  begin with two dots.\<close>

definition lies_below :: "string \<Rightarrow> string \<Rightarrow> bool" where
  "lies_below parent child \<longleftrightarrow>
     (\<exists>down. path_parts child = path_parts parent @ down \<and> (down = [] \<or> \<not> str_prefix ''..'' (hd down)))"

lemma strip_common_split:
  "strip_common as bs = (up, down) \<Longrightarrow> \<exists>com. as = com @ up \<and> bs = com @ down \<and> (up = [] \<or> down = [] \<or> hd up \<noteq> hd down)"
proof (induction as bs arbitrary: up down rule: strip_common.induct)
  case (1 a as b bs)
  show ?case
  proof (cases "a = b")
    case True
    then obtain com where "as = com @ up" "bs = com @ down" "up = [] \<or> down = [] \<or> hd up \<noteq> hd down"
      using 1 by auto
    then show ?thesis using True by (intro exI [of _ "a # com"]) simp
  next
    case False
    then show ?thesis using 1(2) by auto
  qed
qed auto

lemma path_parts_plain: "list_all plain (path_parts p)"
proof -
  obtain k ps where "path_parts p = replicate k ''..'' @ ps" "list_all plain ps" "\<not> False \<Longrightarrow> k = 0"
    unfolding path_parts_def by (rule resolve_segs_shape [of "split_on slash p" False]) (auto dest: split_on_parts)
  then show ?thesis by simp
qed

lemma joined_prefix:
  assumes "list_all plain (d # ds)"
  shows "join ''/'' (d # ds) \<noteq> []" "\<not> is_abs (join ''/'' (d # ds))" "str_prefix ''..'' (join ''/'' (d # ds)) \<longleftrightarrow> str_prefix ''..'' d"
proof -
  have d: "d \<noteq> []" "slash \<notin> set d" "d \<noteq> ''.''" using assms by (auto simp: plain_def)
  obtain t where t: "join ''/'' (d # ds) = d @ t" "t = [] \<or> hd t = slash"
    by (cases ds) (auto simp: join_Cons)
  show "join ''/'' (d # ds) \<noteq> []" "\<not> is_abs (join ''/'' (d # ds))"
    using d t(1) by (auto simp: is_abs_def hd_append dest: hd_in_set)
  show "str_prefix ''..'' (join ''/'' (d # ds)) \<longleftrightarrow> str_prefix ''..'' d"
  proof (cases "length d < 2")
    case True
    then obtain x where "d = [x]" using d(1) by (cases d) auto
    then show ?thesis using d(3) t by (cases t) (auto simp: str_prefix_def)
  qed (use t in \<open>simp add: str_prefix_def\<close>)
qed

lemma isWithin_iff: "isWithin cwd parent child \<longleftrightarrow> lies_below (path_resolve cwd parent) (path_resolve cwd child)"
proof -
  let ?P = "path_parts (path_resolve cwd parent)" and ?C = "path_parts (path_resolve cwd child)"
  obtain up down where ud: "strip_common ?P ?C = (up, down)" by fastforce
  obtain c where c: "?P = c @ up" "?C = c @ down" "up = [] \<or> down = [] \<or> hd up \<noteq> hd down"
    using strip_common_split [OF ud] by blast
  show ?thesis
  proof (cases up)
    case Nil
    have "list_all plain down" using path_parts_plain [of "path_resolve cwd child"] c(2) by simp
    then show ?thesis using Nil c(1,2) ud joined_prefix
      by (cases down) (auto simp: isWithin_def path_relative_def lies_below_def)
  next
    case (Cons u us)
    have "path_relative (path_resolve cwd parent) (path_resolve cwd child) = ''..'' \<or>
        str_prefix ''../'' (path_relative (path_resolve cwd parent) (path_resolve cwd child))"
      using ud Cons by (cases "us = [] \<and> down = []") (auto simp: path_relative_def join_Cons str_prefix_def)
    then have "\<not> isWithin cwd parent child" by (auto simp: isWithin_def str_prefix_iff Let_def)
    moreover have "?C \<noteq> ?P @ ds" for ds using c Cons by auto
    ultimately show ?thesis by (simp add: lies_below_def)
  qed
qed

section \<open>The files of a run\<close>

text \<open>What a path leads to; a dangling link does not exist for \<open>existsSync\<close> and cannot be created.\<close>

datatype dir_entry = DirAbsent | DirReal | DirOther | DirDangling

datatype file_entry = FAbsent | FRegular nat string | FSpecial | FDangling

record auth_files =
  af_dir :: dir_entry
  af_key :: file_entry
  af_meta :: file_entry

fun file_exists :: "file_entry \<Rightarrow> bool" where
  "file_exists (FRegular _ _) = True"
| "file_exists FSpecial = True"
| "file_exists _ = False"

datatype auth_code =
    SigningKeyMissing | SigningKeyPermissions | RunMetadataMissing | RunMetadataPermissions | RunMetadataMalformed
  | RunIdentityMismatch | FingerprintMismatch | SigningKeyMismatch | PrivateKeyInsideWorktree | AuthAlreadyInitialized

datatype auth_error = AuthError auth_code | AuthRaised string

datatype auth_reason = AuthUnavailable | AuthMismatch

definition auth_reason_of :: "auth_code \<Rightarrow> auth_reason" where
  "auth_reason_of code =
     (if code \<in> {SigningKeyMissing, RunMetadataMissing, SigningKeyPermissions, RunMetadataPermissions}
      then AuthUnavailable else AuthMismatch)"

text \<open>\<open>None\<close> is a throw.\<close>

record ('pk, 'sk) crypto =
  cr_public :: "string \<Rightarrow> 'pk option"
  cr_private :: "string \<Rightarrow> 'sk option"
  cr_pem :: "'pk \<Rightarrow> string"
  cr_private_pem :: "'sk \<Rightarrow> string"
  cr_derive :: "'sk \<Rightarrow> 'pk"
  cr_der :: "'pk \<Rightarrow> string"
  cr_sign :: "'sk \<Rightarrow> string \<Rightarrow> string"
  cr_verify :: "'pk \<Rightarrow> string \<Rightarrow> string \<Rightarrow> bool option"
  cr_base64 :: "string \<Rightarrow> string"
  cr_unbase64 :: "string \<Rightarrow> string"

record ('pk, 'sk) authenticator =
  au_run :: string
  au_meta :: js_val
  au_fingerprint :: js_val
  au_private :: 'sk
  au_public :: 'pk

record auth_options =
  ao_state_dir :: string
  ao_run :: string
  ao_recovering :: bool
  ao_worktrees :: "string list"

definition fingerprint :: "(string \<Rightarrow> string) \<Rightarrow> ('pk, 'sk) crypto \<Rightarrow> 'pk \<Rightarrow> string" where
  "fingerprint sha cr pk = sha (cr_der cr pk)"

text \<open>\<open>parse\<close> decodes and parses; \<open>shw\<close> renders a number that stands where a fingerprint should.\<close>

definition parseMetadata :: "(string \<Rightarrow> js_val option) \<Rightarrow> (js_num \<Rightarrow> string) \<Rightarrow> string \<Rightarrow> auth_error + js_val" where
  "parseMetadata parse shw bytes =
     (case parse bytes of
        None \<Rightarrow> Inl (AuthError RunMetadataMalformed)
      | Some v \<Rightarrow>
          if \<not> is_record v then Inl (AuthError RunMetadataMalformed)
          else
            let auth = val_get v ''evidenceAuth'' in
            if \<not> strict_eq (val_get v ''version'') (vint 1) \<or>
               \<not> is_str (val_get v ''runId'') \<or>
               val_get auth ''algorithm'' \<noteq> VStr ''Ed25519'' \<or>
               \<not> is_str (val_get auth ''publicKeyPem'') \<or>
               \<not> is_hash (js_String shw (nullish (val_get auth ''publicKeyFingerprintSha256'') (VStr [])))
            then Inl (AuthError RunMetadataMalformed)
            else Inr v)"

definition sign :: "('pk, 'sk) crypto \<Rightarrow> ('pk, 'sk) authenticator \<Rightarrow> string \<Rightarrow> string" where
  "sign cr au bytes = cr_base64 cr (cr_sign cr (au_private au) bytes)"

definition verify_signature :: "('pk, 'sk) crypto \<Rightarrow> ('pk, 'sk) authenticator \<Rightarrow> string \<Rightarrow> string \<Rightarrow> bool" where
  "verify_signature cr au bytes signatureBase64 =
     (let signature = cr_unbase64 cr signatureBase64 in
      if signature = [] \<or> cr_base64 cr signature \<noteq> signatureBase64 then False
      else (case cr_verify cr (au_public au) bytes signature of None \<Rightarrow> False | Some ok \<Rightarrow> ok))"

definition buildAuthenticator :: "string \<Rightarrow> js_val \<Rightarrow> 'sk \<Rightarrow> 'pk \<Rightarrow> ('pk, 'sk) authenticator" where
  "buildAuthenticator runId metadata privateKey publicKey =
     \<lparr>au_run = runId, au_meta = metadata,
      au_fingerprint = val_get (val_get metadata ''evidenceAuth'') ''publicKeyFingerprintSha256'',
      au_private = privateKey, au_public = publicKey\<rparr>"

section \<open>Opening\<close>

definition real_path :: "(string \<Rightarrow> string option) \<Rightarrow> string \<Rightarrow> auth_error + string" where
  "real_path realpath p = (case realpath p of None \<Rightarrow> Inl (AuthRaised ''ENOENT'') | Some q \<Rightarrow> Inr q)"

definition assertPrivateOutsideWorktrees :: "string \<Rightarrow> string list \<Rightarrow> string \<Rightarrow> auth_error + unit" where
  "assertPrivateOutsideWorktrees cwd worktrees candidate =
     (if list_ex (\<lambda>w. isWithin cwd w candidate) worktrees then Inl (AuthError PrivateKeyInsideWorktree) else Inr ())"

definition private_path :: "string \<Rightarrow> string" where
  "private_path stateDir = stateDir @ ''/evidence-auth/private-key.pem''"

definition KEY_MODE :: nat where
  "KEY_MODE = 384"

definition METADATA_MODE :: nat where
  "METADATA_MODE = 292"

text \<open>The paths are looked at before anything else.\<close>

definition check_paths :: "(string \<Rightarrow> string option) \<Rightarrow> string \<Rightarrow> auth_options \<Rightarrow> auth_error + unit" where
  "check_paths realpath cwd opts =
     e_bind (real_path realpath (path_resolve cwd (ao_state_dir opts))) (\<lambda>stateDir.
     e_bind (e_map (\<lambda>w. real_path realpath (path_resolve cwd w)) (ao_worktrees opts)) (\<lambda>worktrees.
     assertPrivateOutsideWorktrees cwd worktrees (private_path stateDir)))"

definition recover_auth ::
    "(string \<Rightarrow> string) \<Rightarrow> ('pk, 'sk) crypto \<Rightarrow> (string \<Rightarrow> js_val option) \<Rightarrow> (js_num \<Rightarrow> string) \<Rightarrow> string \<Rightarrow> auth_files
       \<Rightarrow> auth_error + ('pk, 'sk) authenticator" where
  "recover_auth sha cr parse shw runId s =
     (if \<not> file_exists (af_key s) then Inl (AuthError SigningKeyMissing)
      else if \<not> file_exists (af_meta s) then Inl (AuthError RunMetadataMissing)
      else
        (case (af_key s, af_meta s) of
           (FRegular km kb, FRegular mm mb) \<Rightarrow>
             if km \<noteq> KEY_MODE then Inl (AuthError SigningKeyPermissions)
             else if mm \<noteq> METADATA_MODE then Inl (AuthError RunMetadataPermissions)
             else
               e_bind (parseMetadata parse shw mb) (\<lambda>metadata.
               if val_get metadata ''runId'' \<noteq> VStr runId then Inl (AuthError RunIdentityMismatch)
               else
                 let auth = val_get metadata ''evidenceAuth'' in
                 (case (case val_get auth ''publicKeyPem'' of VStr pem \<Rightarrow> cr_public cr pem | _ \<Rightarrow> None, cr_private cr kb) of
                    (Some metadataPublic, Some privateKey) \<Rightarrow>
                      let print = fingerprint sha cr metadataPublic in
                      if VStr print \<noteq> val_get auth ''publicKeyFingerprintSha256''
                      then Inl (AuthError FingerprintMismatch)
                      else if fingerprint sha cr (cr_derive cr privateKey) \<noteq> print
                      then Inl (AuthError SigningKeyMismatch)
                      else Inr (buildAuthenticator runId metadata privateKey metadataPublic)
                  | _ \<Rightarrow> Inl (AuthError SigningKeyMismatch)))
         | (FRegular _ _, _) \<Rightarrow> Inl (AuthError RunMetadataMalformed)
         | _ \<Rightarrow> Inl (AuthError SigningKeyMismatch)))"

text \<open>An exclusive create with a mode.\<close>

definition create_file :: "disk \<Rightarrow> nat \<Rightarrow> string \<Rightarrow> file_entry \<Rightarrow> auth_error option \<times> file_entry" where
  "create_file disk mode bytes f =
     (case f of
        FAbsent \<Rightarrow>
          (case disk of
             DiskOk \<Rightarrow> (None, FRegular mode bytes)
           | DiskRefuses e \<Rightarrow> (Some (AuthRaised e), FAbsent)
           | DiskTears e part \<Rightarrow> (Some (AuthRaised e), FRegular mode part))
      | _ \<Rightarrow> (Some (AuthRaised ''EEXIST''), f))"

definition run_metadata :: "(string \<Rightarrow> string) \<Rightarrow> ('pk, 'sk) crypto \<Rightarrow> string \<Rightarrow> 'pk \<Rightarrow> js_val" where
  "run_metadata sha cr runId pk =
     VObj [(''version'', vint 1), (''runId'', VStr runId),
       (''evidenceAuth'', VObj [(''algorithm'', VStr ''Ed25519''), (''publicKeyPem'', VStr (cr_pem cr pk)),
          (''publicKeyFingerprintSha256'', VStr (fingerprint sha cr pk))])]"

text \<open>\<open>pair\<close> is the generated pair; \<open>d1\<close> and \<open>d2\<close> are what becomes of writing its two files.\<close>

definition create_auth ::
    "(string \<Rightarrow> string) \<Rightarrow> ('pk, 'sk) crypto \<Rightarrow> (js_val \<Rightarrow> string) \<Rightarrow> 'pk \<times> 'sk \<Rightarrow> disk \<Rightarrow> disk \<Rightarrow> string \<Rightarrow> auth_files
       \<Rightarrow> (auth_error + ('pk, 'sk) authenticator) \<times> auth_files" where
  "create_auth sha cr stringify pair d1 d2 runId s =
     (if file_exists (af_key s) \<or> file_exists (af_meta s) then (Inl (AuthError AuthAlreadyInitialized), s)
      else
        case pair of (pk, sk) \<Rightarrow>
        let metadata = run_metadata sha cr runId pk in
        (case create_file d1 KEY_MODE (cr_private_pem cr sk) (af_key s) of
           (Some e, f) \<Rightarrow> (Inl e, s\<lparr>af_key := f\<rparr>)
         | (None, f) \<Rightarrow>
             (case create_file d2 METADATA_MODE (stringify metadata @ [CHR 0x0A]) (af_meta s) of
                (Some e, g) \<Rightarrow> (Inl e, s\<lparr>af_key := f, af_meta := g\<rparr>)
              | (None, g) \<Rightarrow> (Inr (buildAuthenticator runId metadata sk pk), s\<lparr>af_key := f, af_meta := g\<rparr>))))"

definition openEvidenceAuthenticator ::
    "(string \<Rightarrow> string option) \<Rightarrow> string \<Rightarrow> (string \<Rightarrow> string) \<Rightarrow> ('pk, 'sk) crypto \<Rightarrow> (string \<Rightarrow> js_val option)
       \<Rightarrow> (js_val \<Rightarrow> string) \<Rightarrow> (js_num \<Rightarrow> string) \<Rightarrow> 'pk \<times> 'sk \<Rightarrow> disk \<Rightarrow> disk \<Rightarrow> auth_options \<Rightarrow> auth_files
       \<Rightarrow> (auth_error + ('pk, 'sk) authenticator) \<times> auth_files" where
  "openEvidenceAuthenticator realpath cwd sha cr parse stringify shw pair d1 d2 opts s =
     (case check_paths realpath cwd opts of
        Inl e \<Rightarrow> (Inl e, s)
      | Inr _ \<Rightarrow>
          if \<not> ao_recovering opts \<and> file_exists (af_meta s) then (Inl (AuthError AuthAlreadyInitialized), s)
          else if af_dir s \<in> {DirAbsent, DirDangling} \<and> ao_recovering opts
          then (Inl (AuthError SigningKeyMissing), s)
          else if af_dir s = DirDangling then (Inl (AuthRaised ''EEXIST''), s)
          else
            let s1 = (if af_dir s = DirAbsent then s\<lparr>af_dir := DirReal\<rparr> else s) in
            if af_dir s1 \<noteq> DirReal then (Inl (AuthError SigningKeyMismatch), s1)
            else if ao_recovering opts then (recover_auth sha cr parse shw (ao_run opts) s1, s1)
            else create_auth sha cr stringify pair d1 d2 (ao_run opts) s1)"

section \<open>Lemmas\<close>

lemma check_paths_ok:
  assumes "check_paths realpath cwd opts = Inr u"
  shows "\<exists>stateDir. realpath (path_resolve cwd (ao_state_dir opts)) = Some stateDir \<and>
    (\<forall>w \<in> set (ao_worktrees opts). \<exists>r. realpath (path_resolve cwd w) = Some r \<and> \<not> isWithin cwd r (private_path stateDir))"
proof -
  obtain stateDir worktrees where *: "realpath (path_resolve cwd (ao_state_dir opts)) = Some stateDir"
      "e_map (\<lambda>w. real_path realpath (path_resolve cwd w)) (ao_worktrees opts) = Inr worktrees"
      "\<not> list_ex (\<lambda>w. isWithin cwd w (private_path stateDir)) worktrees"
    using assms by (auto simp: check_paths_def e_bind_Inr_iff real_path_def assertPrivateOutsideWorktrees_def
      split: option.splits if_splits)
  have "\<exists>r. realpath (path_resolve cwd w) = Some r \<and> \<not> isWithin cwd r (private_path stateDir)"
    if w: "w \<in> set (ao_worktrees opts)" for w
  proof -
    obtain r where "r \<in> set worktrees" "real_path realpath (path_resolve cwd w) = Inr r"
      using e_map_reaches [OF *(2) w] by blast
    then show ?thesis using *(3) by (auto simp: real_path_def list_ex_iff split: option.splits)
  qed
  then show ?thesis using *(1) by blast
qed

lemma create_file_keeps: "create_file d m b f = (r, g) \<Longrightarrow> f \<noteq> FAbsent \<Longrightarrow> g = f"
  by (auto simp: create_file_def split: file_entry.splits)

lemma create_auth_keeps:
  assumes "create_auth sha cr stringify pair d1 d2 runId s = (res, s')"
  shows "af_dir s' = af_dir s \<and> (af_key s \<noteq> FAbsent \<longrightarrow> af_key s' = af_key s) \<and> (af_meta s \<noteq> FAbsent \<longrightarrow> af_meta s' = af_meta s)"
  using assms
  by (auto simp: create_auth_def Let_def dest: create_file_keeps split: if_splits prod.splits option.splits)

lemma open_keeps:
  assumes "openEvidenceAuthenticator realpath cwd sha cr parse stringify shw pair d1 d2 opts s = (res, s')"
  shows "(af_key s \<noteq> FAbsent \<longrightarrow> af_key s' = af_key s) \<and> (af_meta s \<noteq> FAbsent \<longrightarrow> af_meta s' = af_meta s) \<and>
    (ao_recovering opts \<longrightarrow> s' = s)"
  using assms unfolding openEvidenceAuthenticator_def
  by (auto simp: Let_def dest: create_auth_keeps split: sum.splits if_splits)

lemma parseMetadata_ok:
  "parseMetadata parse shw bytes = Inr v \<longleftrightarrow>
     parse bytes = Some v \<and> is_record v \<and> strict_eq (val_get v ''version'') (vint 1) \<and> is_str (val_get v ''runId'') \<and>
     val_get (val_get v ''evidenceAuth'') ''algorithm'' = VStr ''Ed25519'' \<and>
     is_str (val_get (val_get v ''evidenceAuth'') ''publicKeyPem'') \<and>
     is_hash (js_String shw (nullish (val_get (val_get v ''evidenceAuth'') ''publicKeyFingerprintSha256'') (VStr [])))"
  by (auto simp: parseMetadata_def Let_def simp del: strict_eq.simps split: option.split if_splits)

lemma recover_auth_ok:
  assumes "recover_auth sha cr parse shw runId s = Inr au"
  shows "\<exists>kb mb pem. af_key s = FRegular KEY_MODE kb \<and> af_meta s = FRegular METADATA_MODE mb \<and>
    parse mb = Some (au_meta au) \<and> val_get (au_meta au) ''runId'' = VStr runId \<and> au_run au = runId \<and>
    val_get (val_get (au_meta au) ''evidenceAuth'') ''publicKeyPem'' = VStr pem \<and>
    cr_public cr pem = Some (au_public au) \<and> cr_private cr kb = Some (au_private au) \<and>
    au_fingerprint au = VStr (fingerprint sha cr (au_public au)) \<and>
    fingerprint sha cr (cr_derive cr (au_private au)) = fingerprint sha cr (au_public au)"
proof -
  obtain km kb mm mb where files: "af_key s = FRegular km kb" "af_meta s = FRegular mm mb"
    using assms by (cases "af_key s"; cases "af_meta s") (simp_all add: recover_auth_def)
  have modes: "km = KEY_MODE" "mm = METADATA_MODE"
    using assms by (simp_all add: recover_auth_def files split: if_splits)
  obtain v where v: "parseMetadata parse shw mb = Inr v"
    using assms by (cases "parseMetadata parse shw mb") (simp_all add: recover_auth_def files modes)
  let ?auth = "val_get v ''evidenceAuth''"
  obtain pem where pem: "val_get ?auth ''publicKeyPem'' = VStr pem"
    using v by (auto simp: parseMetadata_ok elim: is_str.elims)
  have run: "val_get v ''runId'' = VStr runId"
    using assms by (simp add: recover_auth_def files modes v split: if_splits)
  obtain pk sk where keys: "cr_public cr pem = Some pk" "cr_private cr kb = Some sk"
    using assms by (cases "cr_public cr pem"; cases "cr_private cr kb") (simp_all add: recover_auth_def files modes v run pem)
  have prints: "VStr (fingerprint sha cr pk) = val_get ?auth ''publicKeyFingerprintSha256''"
      "fingerprint sha cr (cr_derive cr sk) = fingerprint sha cr pk"
    using assms by (simp_all add: recover_auth_def files modes v run pem keys Let_def split: if_splits)
  have "au = buildAuthenticator runId v sk pk"
    using assms by (simp add: recover_auth_def files modes v run pem keys prints Let_def)
  then show ?thesis
    using files modes v run pem keys prints by (simp add: buildAuthenticator_def parseMetadata_ok)
qed

section \<open>What opening promises\<close>

text \<open>C17: a recovered run signs with the keys it was given when it was new or not at all: the key and the metadata are
  regular files with their modes, the metadata names this run, the key it records has the fingerprint it
  records, and the private key belongs to it; recovering changes nothing. By its components, the path of the private key
  is not at or below the real path of any configured worktree, with the one exception the check makes: a path
  whose first component below the worktree begins with two dots counts as outside.\<close>

theorem recovered_keys_are_the_frozen_ones:
  assumes "openEvidenceAuthenticator realpath cwd sha cr parse stringify shw pair d1 d2 opts s = (Inr au, s')"
    and "ao_recovering opts"
  shows "s' = s \<and> (\<exists>stateDir kb mb pem.
    realpath (path_resolve cwd (ao_state_dir opts)) = Some stateDir \<and>
    (\<forall>w \<in> set (ao_worktrees opts). \<exists>r. realpath (path_resolve cwd w) = Some r \<and>
      (\<forall>down. path_parts (path_resolve cwd (private_path stateDir)) = path_parts (path_resolve cwd r) @ down \<longrightarrow>
        down \<noteq> [] \<and> str_prefix ''..'' (hd down))) \<and>
    af_dir s = DirReal \<and> af_key s = FRegular KEY_MODE kb \<and> af_meta s = FRegular METADATA_MODE mb \<and>
    parse mb = Some (au_meta au) \<and> val_get (au_meta au) ''runId'' = VStr (ao_run opts) \<and> au_run au = ao_run opts \<and>
    val_get (val_get (au_meta au) ''evidenceAuth'') ''publicKeyPem'' = VStr pem \<and>
    cr_public cr pem = Some (au_public au) \<and> cr_private cr kb = Some (au_private au) \<and>
    au_fingerprint au = VStr (fingerprint sha cr (au_public au)) \<and>
    fingerprint sha cr (cr_derive cr (au_private au)) = fingerprint sha cr (au_public au))"
proof -
  obtain u where u: "check_paths realpath cwd opts = Inr u"
    using assms(1) by (cases "check_paths realpath cwd opts") (simp_all add: openEvidenceAuthenticator_def)
  have run: "recover_auth sha cr parse shw (ao_run opts) s = Inr au" "af_dir s = DirReal"
    using assms u by (auto simp: openEvidenceAuthenticator_def Let_def split: if_splits)
  show ?thesis
    using open_keeps [OF assms(1)] assms(2) check_paths_ok [OF u, unfolded isWithin_iff lies_below_def]
      recover_auth_ok [OF run(1)] run(2) by blast
qed

text \<open>A run whose keys were made is recovered with the same keys, as often as it is asked for, and what it signs
  it verifies; a second attempt to make keys is refused and leaves them as they are. The hypotheses are what
  Ed25519 keys, base64 and JSON promise of this one pair.\<close>

theorem new_keys_are_recovered:
  assumes "openEvidenceAuthenticator realpath cwd sha cr parse stringify shw (pk, sk) d1 d2 opts s = (Inr au, s1)"
    and "\<not> ao_recovering opts"
    and "cr_public cr (cr_pem cr pk) = Some pk" "cr_private cr (cr_private_pem cr sk) = Some sk" "cr_derive cr sk = pk"
    and "is_hash (fingerprint sha cr pk)"
    and "parse (stringify (run_metadata sha cr (ao_run opts) pk) @ [CHR 0x0A]) = Some (run_metadata sha cr (ao_run opts) pk)"
    and "cr_sign cr sk b \<noteq> []" "cr_verify cr pk b (cr_sign cr sk b) = Some True"
    and "cr_unbase64 cr (cr_base64 cr (cr_sign cr sk b)) = cr_sign cr sk b"
  shows "openEvidenceAuthenticator realpath cwd sha cr parse stringify shw pair' d1' d2' (opts\<lparr>ao_recovering := True\<rparr>) s1 =
      (Inr au, s1) \<and>
    verify_signature cr au b (sign cr au b) \<and>
    openEvidenceAuthenticator realpath cwd sha cr parse stringify shw pair' d1' d2' opts s1 =
      (Inl (AuthError AuthAlreadyInitialized), s1)"
proof -
  let ?m = "run_metadata sha cr (ao_run opts) pk"
  obtain u where u: "check_paths realpath cwd opts = Inr u"
    using assms(1) by (cases "check_paths realpath cwd opts") (simp_all add: openEvidenceAuthenticator_def)
  define s0 where "s0 = (if af_dir s = DirAbsent then s\<lparr>af_dir := DirReal\<rparr> else s)"
  have made: "create_auth sha cr stringify (pk, sk) d1 d2 (ao_run opts) s0 = (Inr au, s1)" "af_dir s0 = DirReal"
    using assms(1,2) u by (auto simp: openEvidenceAuthenticator_def Let_def s0_def split: if_splits)
  then have files: "af_key s1 = FRegular KEY_MODE (cr_private_pem cr sk)" "af_dir s1 = DirReal"
      "af_meta s1 = FRegular METADATA_MODE (stringify ?m @ [CHR 0x0A])"
    and au: "au = buildAuthenticator (ao_run opts) ?m sk pk"
    by (auto simp: create_auth_def Let_def create_file_def split: if_splits prod.splits option.splits file_entry.splits disk.splits)
  have "parseMetadata parse shw (stringify ?m @ [CHR 0x0A]) = Inr ?m"
    using assms(6,7) by (simp add: parseMetadata_ok) (simp add: run_metadata_def fields_get_def nullish_def)
  then have "recover_auth sha cr parse shw (ao_run opts) s1 = Inr au"
    using assms(3-5) by (simp add: recover_auth_def files au) (simp add: run_metadata_def fields_get_def)
  moreover have "check_paths realpath cwd (opts\<lparr>ao_recovering := True\<rparr>) = Inr u"
    using u by (simp add: check_paths_def)
  ultimately show ?thesis
    using u assms(2,8-10) files
    by (simp add: openEvidenceAuthenticator_def verify_signature_def sign_def Let_def au buildAuthenticator_def)
qed

text \<open>\<open>startsWith('..')\<close> also holds of a name that merely begins with two dots.\<close>

lemma dotted_directory_counts_as_outside:
  "\<not> isWithin ''/'' ''/w'' ''/w/..state/evidence-auth/private-key.pem'' \<and>
   isWithin ''/'' ''/w'' ''/w/state/evidence-auth/private-key.pem''"
  by code_simp

section \<open>A concrete run\<close>

definition toy_crypto :: "(string, string) crypto" where
  "toy_crypto = \<lparr>cr_public = Some, cr_private = Some, cr_pem = id, cr_private_pem = id, cr_derive = id, cr_der = id,
     cr_sign = (\<lambda>k b. k @ b), cr_verify = (\<lambda>k b sig. Some (sig = k @ b)), cr_base64 = id, cr_unbase64 = id\<rparr>"

definition toy_meta :: js_val where
  "toy_meta = run_metadata count_hash toy_crypto ''r'' ''k''"

definition toy_open :: "bool \<Rightarrow> auth_files \<Rightarrow> (auth_error + (string, string) authenticator) \<times> auth_files" where
  "toy_open recovering = openEvidenceAuthenticator Some ''/'' count_hash toy_crypto (\<lambda>_. Some toy_meta) (\<lambda>_. ''m'') (\<lambda>_. [])
     (''k'', ''k'') DiskOk DiskOk
     \<lparr>ao_state_dir = ''/state'', ao_run = ''r'', ao_recovering = recovering, ao_worktrees = [''/work'']\<rparr>"

definition toy_fresh :: auth_files where
  "toy_fresh = \<lparr>af_dir = DirAbsent, af_key = FAbsent, af_meta = FAbsent\<rparr>"

definition toy_made :: auth_files where
  "toy_made = \<lparr>af_dir = DirReal, af_key = FRegular KEY_MODE ''k'', af_meta = FRegular METADATA_MODE (''m'' @ [CHR 0x0A])\<rparr>"

definition toy_auth :: "(string, string) authenticator" where
  "toy_auth = buildAuthenticator ''r'' toy_meta ''k'' ''k''"

lemma toy_makes: "toy_open False toy_fresh = (Inr toy_auth, toy_made)"
  by code_simp

theorem new_keys_are_recovered_witness:
  "toy_open True toy_made = (Inr toy_auth, toy_made) \<and>
    verify_signature toy_crypto toy_auth ''gate report'' (sign toy_crypto toy_auth ''gate report'') \<and>
    toy_open False toy_made = (Inl (AuthError AuthAlreadyInitialized), toy_made)"
  using new_keys_are_recovered [OF toy_makes [unfolded toy_open_def], of "''gate report''" "(''k'', ''k'')" DiskOk DiskOk]
  by (simp add: toy_open_def toy_crypto_def toy_meta_def fingerprint_def count_hash_is_hash)

theorem recovered_keys_are_the_frozen_ones_witness:
  "\<exists>stateDir. Some (path_resolve ''/'' ''/state'') = Some stateDir \<and>
    (\<forall>down. path_parts (path_resolve ''/'' (private_path stateDir)) = path_parts (path_resolve ''/'' (path_resolve ''/'' ''/work'')) @ down \<longrightarrow>
      down \<noteq> [] \<and> str_prefix ''..'' (hd down)) \<and>
    au_fingerprint toy_auth = VStr (fingerprint count_hash toy_crypto (au_public toy_auth))"
proof -
  have "toy_open True toy_made = (Inr toy_auth, toy_made)" by code_simp
  from recovered_keys_are_the_frozen_ones [OF this [unfolded toy_open_def]] show ?thesis by auto
qed

end
