(* ===== verification/Fusion.thy ===== *)
theory Fusion
  imports Dispatch
begin

text \<open>
  Fusion: several agents answer one request and a fixed rule per kind of artifact makes one answer of
  theirs. The profiles (\<open>aal/src/fusion/profiles.ts\<close>) and the rules (\<open>aal/src/fusion/resolve.ts\<close>).
  \<open>JSON.stringify\<close> and the rendering of a number are arguments; messages of errors are left out.
\<close>

section \<open>Profiles\<close>

datatype artifact = ArPlan | ArCodeDiff | ArTests | ArHypotheses | ArReviews

datatype resolve_rule =
    DeliberateSynthesis | EvidenceTournament | UnionRedCheck | UnionRankProbeCost | WeightedEnsemble

fun artifact_name :: "artifact \<Rightarrow> string" where
  "artifact_name ArPlan = ''plan''"
| "artifact_name ArCodeDiff = ''code_diff''"
| "artifact_name ArTests = ''tests''"
| "artifact_name ArHypotheses = ''hypotheses''"
| "artifact_name ArReviews = ''reviews''"

fun rule_name :: "resolve_rule \<Rightarrow> string" where
  "rule_name DeliberateSynthesis = ''deliberate_synthesis''"
| "rule_name EvidenceTournament = ''evidence_tournament''"
| "rule_name UnionRedCheck = ''union_red_check''"
| "rule_name UnionRankProbeCost = ''union_rank_probe_cost''"
| "rule_name WeightedEnsemble = ''weighted_ensemble''"

fun RESOLVE_FOR :: "artifact \<Rightarrow> resolve_rule" where
  "RESOLVE_FOR ArPlan = DeliberateSynthesis"
| "RESOLVE_FOR ArCodeDiff = EvidenceTournament"
| "RESOLVE_FOR ArTests = UnionRedCheck"
| "RESOLVE_FOR ArHypotheses = UnionRankProbeCost"
| "RESOLVE_FOR ArReviews = WeightedEnsemble"

datatype diversity = SelfSeeds "js_num list" | CrossLineage "string list"

record fusion_profile =
  fp_artifact :: artifact
  fp_size :: js_num
  fp_diversity :: diversity
  fp_resolve :: resolve_rule
  fp_cap :: js_num
  fp_estimate :: js_num

datatype profile_reason =
    NotAnObject | UnknownArtifact | ResolveMismatch | MissingEstimate | BadPanel | DuplicateArtifact | BadTriggers

text \<open>The error and the artifact it names.\<close>

type_synonym profile_error = "profile_reason \<times> string option"

definition isArtifact :: "js_val \<Rightarrow> artifact option" where
  "isArtifact v = find (\<lambda>a. v = VStr (artifact_name a)) [ArPlan, ArCodeDiff, ArTests, ArHypotheses, ArReviews]"

fun finite_num :: "js_val \<Rightarrow> js_num option" where
  "finite_num (VNum n) = (if js_finite n then Some n else None)"
| "finite_num _ = None"

fun text_of :: "js_val \<Rightarrow> string option" where
  "text_of (VStr s) = Some s"
| "text_of _ = None"

text \<open>\<open>vs.every(...)\<close> with what it establishes of each element.\<close>

fun every :: "('a \<Rightarrow> 'b option) \<Rightarrow> 'a list \<Rightarrow> 'b list option" where
  "every f [] = Some []"
| "every f (v # vs) = (case (f v, every f vs) of (Some x, Some xs) \<Rightarrow> Some (x # xs) | _ \<Rightarrow> None)"

definition parseDiversity :: "js_val \<Rightarrow> string \<Rightarrow> profile_error + diversity" where
  "parseDiversity v artifact =
     (let bad = Inl (BadPanel, Some artifact) in
      if \<not> is_record v then bad
      else if val_get v ''kind'' = VStr ''self'' then
        (case val_get v ''seeds'' of
           VArr seeds \<Rightarrow> (case every finite_num seeds of Some ns \<Rightarrow> Inr (SelfSeeds ns) | None \<Rightarrow> bad)
         | _ \<Rightarrow> bad)
      else if val_get v ''kind'' = VStr ''cross_lineage'' then
        (case val_get v ''lineages'' of
           VArr ls \<Rightarrow>
             if ls = [] then bad else (case every text_of ls of Some ss \<Rightarrow> Inr (CrossLineage ss) | None \<Rightarrow> bad)
         | _ \<Rightarrow> bad)
      else bad)"

fun panel_size :: "js_val \<Rightarrow> js_num option" where
  "panel_size (VNum n) = (if js_integer n \<and> \<not> js_lt n (js_int 2) then Some n else None)"
| "panel_size _ = None"

definition parseFusionProfile :: "(js_num \<Rightarrow> string) \<Rightarrow> js_val \<Rightarrow> profile_error + fusion_profile" where
  "parseFusionProfile shw raw =
     (if \<not> is_record raw then Inl (NotAnObject, None)
      else
        (case isArtifact (val_get raw ''artifact'') of
           None \<Rightarrow> Inl (UnknownArtifact, Some (js_String shw (val_get raw ''artifact'')))
         | Some artifact \<Rightarrow>
             let expected = RESOLVE_FOR artifact; name = artifact_name artifact; panel = val_get raw ''panel'' in
             if val_get raw ''resolve'' \<noteq> VStr (rule_name expected) then Inl (ResolveMismatch, Some name)
             else
               (case val_get raw ''estimateCostUnitsPerCandidate'' of
                  VNum estimate \<Rightarrow>
                    if \<not> js_finite estimate \<or> js_le estimate (js_int 0) then Inl (MissingEstimate, Some name)
                    else
                      (case (if is_record panel then panel_size (val_get panel ''size'') else None) of
                         None \<Rightarrow> Inl (BadPanel, Some name)
                       | Some sz \<Rightarrow>
                           (case val_get raw ''budgetCapCostUnits'' of
                              VNum cap \<Rightarrow>
                                if \<not> js_finite cap \<or> js_le cap (js_int 0) then Inl (BadPanel, Some name)
                                else
                                  e_bind (parseDiversity (val_get panel ''diversity'') name) (\<lambda>d.
                                  Inr \<lparr>fp_artifact = artifact, fp_size = sz, fp_diversity = d, fp_resolve = expected,
                                    fp_cap = cap, fp_estimate = estimate\<rparr>)
                            | _ \<Rightarrow> Inl (BadPanel, Some name)))
                | _ \<Rightarrow> Inl (MissingEstimate, Some name))))"

definition parseTriggers :: "js_val \<Rightarrow> profile_error + bool" where
  "parseTriggers v =
     (if v = VUndef then Inr False
      else if \<not> is_record v then Inl (BadTriggers, None)
      else
        (case val_get v ''plannerRole'' of
           VUndef \<Rightarrow> Inr False
         | VBool b \<Rightarrow> Inr b
         | _ \<Rightarrow> Inl (BadTriggers, None)))"

text \<open>The profiles in the order they were set.\<close>

record fusion_profiles =
  fs_profiles :: "fusion_profile list"
  fs_planner :: bool

fun add_profiles :: "(js_num \<Rightarrow> string) \<Rightarrow> fusion_profile list \<Rightarrow> js_val list \<Rightarrow> profile_error + fusion_profile list" where
  "add_profiles shw ps [] = Inr ps"
| "add_profiles shw ps (raw # raws) =
     e_bind (parseFusionProfile shw raw) (\<lambda>p.
     if fp_artifact p \<in> set (map fp_artifact ps) then Inl (DuplicateArtifact, Some (artifact_name (fp_artifact p)))
     else add_profiles shw (ps @ [p]) raws)"

definition profile_list :: "js_val \<Rightarrow> js_val list option" where
  "profile_list raw =
     (case (if is_record raw then val_get raw ''profiles'' else VUndef) of
        VArr vs \<Rightarrow> Some vs
      | _ \<Rightarrow> (case raw of VArr vs \<Rightarrow> Some vs | _ \<Rightarrow> None))"

definition parseFusionProfiles :: "(js_num \<Rightarrow> string) \<Rightarrow> js_val \<Rightarrow> profile_error + fusion_profiles" where
  "parseFusionProfiles shw raw =
     (case profile_list raw of
        None \<Rightarrow> Inl (NotAnObject, None)
      | Some raws \<Rightarrow>
          e_bind (add_profiles shw [] raws) (\<lambda>ps.
          e_bind (parseTriggers (if is_record raw then val_get raw ''triggers'' else VUndef)) (\<lambda>t.
          Inr \<lparr>fs_profiles = ps, fs_planner = t\<rparr>)))"

text \<open>\<open>read\<close> is the file parsed, \<open>None\<close> when reading or parsing throws.\<close>

definition loadFusionProfiles :: "(js_num \<Rightarrow> string) \<Rightarrow> js_val option \<Rightarrow> profile_error + fusion_profiles" where
  "loadFusionProfiles shw read =
     (case read of None \<Rightarrow> Inl (NotAnObject, None) | Some raw \<Rightarrow> parseFusionProfiles shw raw)"

section \<open>Resolving\<close>

record candidate =
  cd_index :: nat
  cd_request :: string
  cd_adapter :: string
  cd_lineage :: string
  cd_result :: js_val
  cd_actions :: "action list"
  cd_usage :: js_num
  cd_gate :: "gate_report option"

record dissent_item =
  di_finding :: string
  di_raised :: "nat list"
  di_severities :: "string list"
  di_blockings :: "bool list"

datatype fusion_escalate =
    FeNoGateSurvivor | FeJudgeInvalid | FeBudgetCap | FePanelDegraded | FeDepthExceeded | FeInvalidResponse

record resolution =
  rs_winner :: "(js_val \<times> action list) option"
  rs_resolved :: resolve_rule
  rs_escalate :: "fusion_escalate option"
  rs_dissent :: "dissent_item list"
  rs_marker :: "bool option"

definition gateGreen :: "candidate \<Rightarrow> bool" where
  "gateGreen c = (case cd_gate c of None \<Rightarrow> False | Some g \<Rightarrow> gr_pass g = GatePass)"

definition settled :: "(js_val \<times> action list) option \<Rightarrow> resolve_rule \<Rightarrow> fusion_escalate option \<Rightarrow> resolution" where
  "settled winner rl why =
     \<lparr>rs_winner = winner, rs_resolved = rl, rs_escalate = why, rs_dissent = [], rs_marker = None\<rparr>"

definition resolveCodeDiff :: "candidate list \<Rightarrow> resolution" where
  "resolveCodeDiff candidates =
     (case filter gateGreen candidates of
        [] \<Rightarrow> settled None EvidenceTournament (Some FeNoGateSurvivor)
      | w # _ \<Rightarrow> settled (Some (cd_result w, cd_actions w)) EvidenceTournament None)"

text \<open>The map from paths to the first write of each, in insertion order.\<close>

fun write_path :: "action \<Rightarrow> string option" where
  "write_path (WriteFile _ p _) = Some p"
| "write_path _ = None"

definition add_write :: "action \<Rightarrow> (string \<times> action) list \<Rightarrow> (string \<times> action) list" where
  "add_write a byPath =
     (case write_path a of
        Some p \<Rightarrow> if p \<in> set (map fst byPath) then byPath else byPath @ [(p, a)]
      | None \<Rightarrow> byPath)"

definition resolveTests :: "candidate list \<Rightarrow> resolution" where
  "resolveTests candidates =
     (let green = filter gateGreen candidates in
      if green = [] then settled None UnionRedCheck (Some FeNoGateSurvivor)
      else
        let byPath = fold add_write (concat (map cd_actions green)) [];
            tests = map (\<lambda>(p, _). VObj [(''path'', VStr p), (''redCheckRequired'', VBool True)]) byPath in
        settled (Some (VObj [(''tests'', VArr tests)], map snd byPath)) UnionRedCheck None)"

definition raw_text :: "(js_val \<Rightarrow> string) \<Rightarrow> js_val \<Rightarrow> string list \<Rightarrow> string" where
  "raw_text json v keys =
     (case List.map_filter (\<lambda>k. text_of (val_get v k)) keys of s # _ \<Rightarrow> s | [] \<Rightarrow> json v)"

definition objects_at :: "string \<Rightarrow> js_val \<Rightarrow> js_val list" where
  "objects_at k v = (case val_get v k of VArr vs \<Rightarrow> filter is_object vs | _ \<Rightarrow> [])"

text \<open>A statement and its probes.\<close>

definition asHypotheses :: "(js_val \<Rightarrow> string) \<Rightarrow> js_val \<Rightarrow> (string \<times> js_val list) list" where
  "asHypotheses json result =
     map (\<lambda>x. (raw_text json x [''statement''], case val_get x ''probes'' of VArr ps \<Rightarrow> ps | _ \<Rightarrow> []))
       (objects_at ''hypotheses'' result)"

definition add_first :: "'k \<times> 'v \<Rightarrow> ('k \<times> 'v) list \<Rightarrow> ('k \<times> 'v) list" where
  "add_first h table = (if fst h \<in> set (map fst table) then table else table @ [h])"

definition resolveHypotheses :: "(js_val \<Rightarrow> string) \<Rightarrow> candidate list \<Rightarrow> resolution" where
  "resolveHypotheses json candidates =
     (let byStatement = fold add_first (concat (map (\<lambda>c. asHypotheses json (cd_result c)) candidates)) [];
          ranked = sort_key (\<lambda>(_, ps). length ps) byStatement in
      settled (Some (VObj [(''hypotheses'',
          VArr (map (\<lambda>(s, ps). VObj [(''statement'', VStr s), (''probes'', VArr ps)]) ranked))], []))
        UnionRankProbeCost None)"

record raw_finding =
  rf_key :: string
  rf_severity :: string
  rf_blocking :: bool

definition asFindings :: "(js_val \<Rightarrow> string) \<Rightarrow> js_val \<Rightarrow> raw_finding list" where
  "asFindings json result =
     map (\<lambda>x. \<lparr>rf_key = raw_text json x [''id'', ''description''],
         rf_severity = (case text_of (val_get x ''severity'') of Some s \<Rightarrow> s | None \<Rightarrow> ''unspecified''),
         rf_blocking = (val_get x ''blocking'' = VBool True)\<rparr>)
       (objects_at ''findings'' result)"

record raised_entry =
  re_raised :: "nat list"
  re_severities :: "string list"
  re_blockings :: "bool list"

definition set_add :: "'a \<Rightarrow> 'a list \<Rightarrow> 'a list" where
  "set_add x xs = (if x \<in> set xs then xs else xs @ [x])"

definition add_finding :: "nat \<times> raw_finding \<Rightarrow> (string \<times> raised_entry) list \<Rightarrow> (string \<times> raised_entry) list" where
  "add_finding f raised =
     (let e = (case map_of raised (rf_key (snd f)) of
                 Some e \<Rightarrow> e | None \<Rightarrow> \<lparr>re_raised = [], re_severities = [], re_blockings = []\<rparr>) in
      AList.update (rf_key (snd f))
        \<lparr>re_raised = re_raised e @ [fst f], re_severities = set_add (rf_severity (snd f)) (re_severities e),
         re_blockings = set_add (rf_blocking (snd f)) (re_blockings e)\<rparr> raised)"

definition findings_of :: "(js_val \<Rightarrow> string) \<Rightarrow> candidate list \<Rightarrow> (nat \<times> raw_finding) list" where
  "findings_of json candidates = concat (map (\<lambda>c. map (\<lambda>f. (cd_index c, f)) (asFindings json (cd_result c))) candidates)"

definition disagrees :: "raised_entry \<Rightarrow> bool" where
  "disagrees e \<longleftrightarrow> 1 < length (re_severities e) \<or> 1 < length (re_blockings e)"

definition resolveReviews :: "(js_val \<Rightarrow> string) \<Rightarrow> candidate list \<Rightarrow> resolution" where
  "resolveReviews json candidates =
     (let raised = fold add_finding (findings_of json candidates) [];
          total = length candidates;
          marker = list_ex (\<lambda>(_, e). disagrees e) raised;
          findings = map (\<lambda>(key, e). VObj [(''key'', VStr key), (''raisedBy'', VArr (map (\<lambda>i. vint (int i)) (re_raised e))),
            (''severities'', VArr (map VStr (re_severities e))), (''disagree'', VBool (disagrees e))]) raised;
          dissent = map (\<lambda>(key, e). \<lparr>di_finding = key, di_raised = re_raised e, di_severities = re_severities e,
            di_blockings = re_blockings e\<rparr>) (filter (\<lambda>(_, e). length (re_raised e) < total) raised) in
      \<lparr>rs_winner = Some (VObj [(''findings'', VArr findings), (''escalation'', VBool marker)], []),
       rs_resolved = WeightedEnsemble, rs_escalate = None, rs_dissent = dissent, rs_marker = Some marker\<rparr>)"

definition resolvePlan :: "candidate list \<Rightarrow> resolution" where
  "resolvePlan candidates =
     (case candidates of
        [] \<Rightarrow> settled None DeliberateSynthesis (Some FePanelDegraded)
      | w # _ \<Rightarrow> settled (Some (cd_result w, cd_actions w)) DeliberateSynthesis None)"

definition judgeLoadBearing :: "artifact \<Rightarrow> bool" where
  "judgeLoadBearing a \<longleftrightarrow> a = ArPlan \<or> a = ArReviews"

fun resolveMechanical :: "(js_val \<Rightarrow> string) \<Rightarrow> artifact \<Rightarrow> candidate list \<Rightarrow> resolution" where
  "resolveMechanical json ArCodeDiff cs = resolveCodeDiff cs"
| "resolveMechanical json ArTests cs = resolveTests cs"
| "resolveMechanical json ArHypotheses cs = resolveHypotheses json cs"
| "resolveMechanical json ArPlan cs = resolvePlan cs"
| "resolveMechanical json ArReviews cs = resolveReviews json cs"

section \<open>Validated profiles\<close>

definition profile_ok :: "fusion_profile \<Rightarrow> bool" where
  "profile_ok p \<longleftrightarrow>
     fp_resolve p = RESOLVE_FOR (fp_artifact p) \<and> js_integer (fp_size p) \<and> js_le (js_int 2) (fp_size p) \<and>
     js_finite (fp_estimate p) \<and> js_lt (js_int 0) (fp_estimate p) \<and> js_finite (fp_cap p) \<and> js_lt (js_int 0) (fp_cap p) \<and>
     (case fp_diversity p of SelfSeeds ns \<Rightarrow> list_all js_finite ns | CrossLineage ls \<Rightarrow> ls \<noteq> [])"

lemma js_finite_fin [simp]: "js_finite (JFin r)"
  by (simp add: js_finite_def)

lemma not_lt_le: "js_finite a \<Longrightarrow> js_finite b \<Longrightarrow> \<not> js_lt a b \<longleftrightarrow> js_le b a"
  by (cases a; cases b) (auto simp: js_finite_def)

lemma not_le_lt: "js_finite a \<Longrightarrow> js_finite b \<Longrightarrow> \<not> js_le a b \<longleftrightarrow> js_lt b a"
  by (cases a; cases b) (auto simp: js_finite_def)

lemma js_integer_finite: "js_integer n \<Longrightarrow> js_finite n"
  by (cases n) (auto simp: js_integer_def js_finite_def)

lemma every_finite: "every finite_num vs = Some ns \<Longrightarrow> list_all js_finite ns"
  by (induction vs arbitrary: ns) (auto split: option.splits if_splits elim: finite_num.elims)

lemma parseDiversity_ok:
  assumes "parseDiversity v name = Inr d"
  shows "case d of SelfSeeds ns \<Rightarrow> list_all js_finite ns | CrossLineage ls \<Rightarrow> ls \<noteq> []"
proof -
  have "every text_of ls = Some ss \<Longrightarrow> ls \<noteq> [] \<Longrightarrow> ss \<noteq> []" for ls ss
    by (cases ls) (auto split: option.splits)
  then show ?thesis
    using assms every_finite
    by (auto simp: parseDiversity_def Let_def split: if_splits js_val.splits option.splits)
qed

lemma parseFusionProfile_ok: "parseFusionProfile shw raw = Inr p \<Longrightarrow> profile_ok p"
  by (auto simp: parseFusionProfile_def Let_def profile_ok_def e_bind_Inr_iff not_lt_le not_le_lt js_integer_finite
      dest: parseDiversity_ok elim!: panel_size.elims split: if_splits option.splits js_val.splits)

lemma add_profiles_ok:
  assumes "add_profiles shw ps raws = Inr qs" "list_all profile_ok ps" "distinct (map fp_artifact ps)"
  shows "list_all profile_ok qs \<and> distinct (map fp_artifact qs) \<and> length qs = length ps + length raws"
  using assms
proof (induction shw ps raws rule: add_profiles.induct)
  case (2 shw ps raw raws)
  then obtain p where p: "parseFusionProfile shw raw = Inr p" "fp_artifact p \<notin> set (map fp_artifact ps)"
      "add_profiles shw (ps @ [p]) raws = Inr qs"
    by (auto simp: e_bind_Inr_iff split: if_splits)
  then show ?case using 2(1) [OF p(2,3)] 2(3,4) parseFusionProfile_ok [OF p(1)] by simp
qed simp

text \<open>Profiles that load are ones the pipeline can be trusted with: at most one per kind of artifact, each with the
  fixed rule of its kind, a panel of at least two, a positive finite estimate and cap, and no entry of the
  file dropped.\<close>

theorem loaded_profiles_are_valid:
  assumes "parseFusionProfiles shw raw = Inr fs"
  shows "list_all profile_ok (fs_profiles fs) \<and> distinct (map fp_artifact (fs_profiles fs)) \<and>
    (\<exists>raws. profile_list raw = Some raws \<and> length (fs_profiles fs) = length raws)"
proof -
  obtain raws ps where "profile_list raw = Some raws" "add_profiles shw [] raws = Inr ps" "fs_profiles fs = ps"
    using assms by (auto simp: parseFusionProfiles_def e_bind_Inr_iff split: option.splits)
  then show ?thesis using add_profiles_ok [of shw "[]" raws ps] by auto
qed

section \<open>Reviews\<close>

lemma uniq_snoc: "uniq (xs @ [x]) = (if x \<in> set xs then uniq xs else uniq xs @ [x])"
  by (simp add: uniq_def)

lemma set_add_uniq: "set_add x (uniq xs) = uniq (xs @ [x])"
  by (simp add: set_add_def uniq_snoc)

lemma uniq_two: "1 < length (uniq xs) \<longleftrightarrow> (\<exists>x \<in> set xs. \<exists>y \<in> set xs. x \<noteq> y)"
proof -
  have "length (uniq xs) = card (set xs)" by (metis distinct_card distinct_uniq set_uniq)
  then show ?thesis using card_le_Suc0_iff_eq [of "set xs"] by auto
qed

lemma update_map_keys:
  "distinct ks \<Longrightarrow> AList.update k v (map (\<lambda>x. (x, g x)) ks) =
    (if k \<in> set ks then map (\<lambda>x. (x, if x = k then v else g x)) ks else map (\<lambda>x. (x, g x)) ks @ [(k, v)])"
  by (induction ks) auto

text \<open>The reference: the raisings of one key, all of them, in order.\<close>

definition raisings :: "string \<Rightarrow> (nat \<times> raw_finding) list \<Rightarrow> (nat \<times> raw_finding) list" where
  "raisings k fs = filter (\<lambda>f. rf_key (snd f) = k) fs"

definition entry_of :: "(nat \<times> raw_finding) list \<Rightarrow> string \<Rightarrow> raised_entry" where
  "entry_of fs k =
     \<lparr>re_raised = map fst (raisings k fs), re_severities = uniq (map (rf_severity \<circ> snd) (raisings k fs)),
      re_blockings = uniq (map (rf_blocking \<circ> snd) (raisings k fs))\<rparr>"

definition finding_keys :: "(nat \<times> raw_finding) list \<Rightarrow> string list" where
  "finding_keys fs = uniq (map (rf_key \<circ> snd) fs)"

lemma raisings_snoc: "raisings k (fs @ [f]) = raisings k fs @ (if rf_key (snd f) = k then [f] else [])"
  by (simp add: raisings_def)

lemma finding_keys_iff: "k \<in> set (finding_keys fs) \<longleftrightarrow> raisings k fs \<noteq> []"
  by (auto simp: finding_keys_def raisings_def filter_empty_conv)

lemma raised_table:
  "fold add_finding fs [] = map (\<lambda>k. (k, entry_of fs k)) (finding_keys fs)"
proof (induction fs rule: rev_induct)
  case Nil
  then show ?case by (simp add: finding_keys_def uniq_def)
next
  case (snoc f fs)
  let ?k = "rf_key (snd f)" and ?table = "map (\<lambda>k. (k, entry_of fs k)) (finding_keys fs)"
  let ?old = "case map_of ?table ?k of Some e \<Rightarrow> e | None \<Rightarrow> \<lparr>re_raised = [], re_severities = [], re_blockings = []\<rparr>"
  have "map_of ?table ?k = (if ?k \<in> set (finding_keys fs) then Some (entry_of fs ?k) else None)"
    by (simp add: map_of_map_restrict restrict_map_def)
  then have old: "?old = entry_of fs ?k" using finding_keys_iff [of ?k fs] by (auto simp: entry_of_def uniq_def)
  have new: "add_finding f ?table = AList.update ?k (entry_of (fs @ [f]) ?k) ?table"
    unfolding add_finding_def old Let_def by (simp add: entry_of_def raisings_snoc set_add_uniq)
  have same: "k \<noteq> ?k \<Longrightarrow> entry_of (fs @ [f]) k = entry_of fs k" for k by (simp add: entry_of_def raisings_snoc)
  have dist: "distinct (finding_keys fs)" by (simp add: finding_keys_def)
  have "AList.update ?k (entry_of (fs @ [f]) ?k) ?table = map (\<lambda>k. (k, entry_of (fs @ [f]) k)) (finding_keys (fs @ [f]))"
  proof (cases "?k \<in> set (finding_keys fs)")
    case True
    then have "finding_keys (fs @ [f]) = finding_keys fs" by (simp add: finding_keys_def uniq_snoc)
    then show ?thesis unfolding update_map_keys [OF dist] using True same by (auto intro!: map_cong)
  next
    case False
    then have "finding_keys (fs @ [f]) = finding_keys fs @ [?k]" by (simp add: finding_keys_def uniq_snoc)
    moreover have "entry_of (fs @ [f]) k = entry_of fs k" if "k \<in> set (finding_keys fs)" for k
      using that False same by metis
    then have "map (\<lambda>k. (k, entry_of (fs @ [f]) k)) (finding_keys fs) = ?table" by simp
    ultimately show ?thesis unfolding update_map_keys [OF dist] using False by simp
  qed
  then show ?case using snoc new by simp
qed

lemma two_images: "1 < length (uniq (map h xs)) \<longleftrightarrow> (\<exists>f \<in> set xs. \<exists>g \<in> set xs. h f \<noteq> h g)"
  unfolding uniq_two by simp

definition clash :: "nat \<times> raw_finding \<Rightarrow> nat \<times> raw_finding \<Rightarrow> bool" where
  "clash f g \<longleftrightarrow> rf_key (snd f) = rf_key (snd g) \<and>
     (rf_severity (snd f) \<noteq> rf_severity (snd g) \<or> rf_blocking (snd f) \<noteq> rf_blocking (snd g))"

lemma raisings_mem: "f \<in> set (raisings k fs) \<longleftrightarrow> f \<in> set fs \<and> rf_key (snd f) = k"
  by (simp add: raisings_def)

lemma disagrees_iff: "disagrees (entry_of fs k) \<longleftrightarrow> (\<exists>f \<in> set fs. \<exists>g \<in> set fs. rf_key (snd f) = k \<and> clash f g)"
proof -
  have "disagrees (entry_of fs k) \<longleftrightarrow>
      (\<exists>f \<in> set (raisings k fs). \<exists>g \<in> set (raisings k fs). rf_severity (snd f) \<noteq> rf_severity (snd g)) \<or>
      (\<exists>f \<in> set (raisings k fs). \<exists>g \<in> set (raisings k fs). rf_blocking (snd f) \<noteq> rf_blocking (snd g))"
    unfolding disagrees_def entry_of_def raised_entry.simps two_images comp_def ..
  also have "\<dots> \<longleftrightarrow> (\<exists>f \<in> set (raisings k fs). \<exists>g \<in> set (raisings k fs). clash f g)"
    unfolding bex_disj_distrib [symmetric] by (intro bex_cong refl) (simp add: clash_def raisings_mem)
  also have "\<dots> \<longleftrightarrow> (\<exists>f \<in> set fs. \<exists>g \<in> set fs. rf_key (snd f) = k \<and> clash f g)"
  proof
    assume "\<exists>f \<in> set (raisings k fs). \<exists>g \<in> set (raisings k fs). clash f g"
    then obtain f g where "f \<in> set (raisings k fs)" "g \<in> set (raisings k fs)" "clash f g" by blast
    then show "\<exists>f \<in> set fs. \<exists>g \<in> set fs. rf_key (snd f) = k \<and> clash f g" unfolding raisings_mem by blast
  next
    assume "\<exists>f \<in> set fs. \<exists>g \<in> set fs. rf_key (snd f) = k \<and> clash f g"
    then obtain f g where fg: "f \<in> set fs" "g \<in> set fs" "rf_key (snd f) = k" "clash f g" by blast
    then have "f \<in> set (raisings k fs)" "g \<in> set (raisings k fs)" by (simp_all add: raisings_mem clash_def)
    then show "\<exists>f \<in> set (raisings k fs). \<exists>g \<in> set (raisings k fs). clash f g" using fg by blast
  qed
  finally show ?thesis .
qed

lemma marker_iff:
  "list_ex (\<lambda>k. disagrees (entry_of fs k)) (finding_keys fs) \<longleftrightarrow> (\<exists>f \<in> set fs. \<exists>g \<in> set fs. clash f g)"
proof
  assume "list_ex (\<lambda>k. disagrees (entry_of fs k)) (finding_keys fs)"
  then show "\<exists>f \<in> set fs. \<exists>g \<in> set fs. clash f g" unfolding list_ex_iff disagrees_iff by blast
next
  assume "\<exists>f \<in> set fs. \<exists>g \<in> set fs. clash f g"
  then obtain f g where fg: "f \<in> set fs" "g \<in> set fs" "clash f g" by blast
  then have "rf_key (snd f) \<in> set (finding_keys fs)" by (simp add: finding_keys_def)
  then show "list_ex (\<lambda>k. disagrees (entry_of fs k)) (finding_keys fs)"
    using fg unfolding list_ex_iff disagrees_iff by blast
qed

text \<open>The review that comes out lists every finding any candidate raised, once each, in the order they first came
  up, with all who raised it; it asks for escalation exactly when two raisings of one finding differ in
  severity or in blocking; and a finding is dissent exactly when it was raised fewer times than there are
  candidates.\<close>

theorem reviews_keep_every_finding:
  assumes "fs = findings_of json candidates" "res = resolveReviews json candidates"
  shows "rs_winner res = Some (VObj
      [(''findings'', VArr (map (\<lambda>k. VObj [(''key'', VStr k), (''raisedBy'', VArr (map (\<lambda>f. vint (int (fst f))) (raisings k fs))),
          (''severities'', VArr (map VStr (uniq (map (rf_severity \<circ> snd) (raisings k fs))))),
          (''disagree'', VBool (disagrees (entry_of fs k)))]) (finding_keys fs))),
       (''escalation'', VBool (rs_marker res = Some True))], []) \<and>
    (rs_marker res = Some True \<longleftrightarrow>
      (\<exists>f \<in> set fs. \<exists>g \<in> set fs. clash f g)) \<and>
    map di_finding (rs_dissent res) = filter (\<lambda>k. length (raisings k fs) < length candidates) (finding_keys fs)"
proof -
  have marker: "rs_marker res = Some (list_ex (\<lambda>k. disagrees (entry_of fs k)) (finding_keys fs))"
    by (simp add: assms resolveReviews_def raised_table Let_def list_ex_iff)
have "map di_finding (rs_dissent res) = filter (\<lambda>k. length (raisings k fs) < length candidates) (finding_keys fs)"
    by (simp add: assms resolveReviews_def raised_table Let_def filter_map comp_def entry_of_def)
  moreover have "rs_winner res = Some (VObj
      [(''findings'', VArr (map (\<lambda>k. VObj [(''key'', VStr k), (''raisedBy'', VArr (map (\<lambda>f. vint (int (fst f))) (raisings k fs))),
          (''severities'', VArr (map VStr (uniq (map (rf_severity \<circ> snd) (raisings k fs))))),
          (''disagree'', VBool (disagrees (entry_of fs k)))]) (finding_keys fs))),
       (''escalation'', VBool (rs_marker res = Some True))], [])"
    unfolding marker by (simp add: assms resolveReviews_def raised_table Let_def comp_def list_ex_iff) (simp add: entry_of_def comp_def)
  ultimately show ?thesis using marker marker_iff [of fs] by simp
qed

text \<open>Raisings are counted, not candidates: a finding one of two candidates raised twice is not dissent.\<close>

definition demo_candidate :: "nat \<Rightarrow> gate_pass \<Rightarrow> js_val \<Rightarrow> action list \<Rightarrow> candidate" where
  "demo_candidate i pass result acts =
     \<lparr>cd_index = i, cd_request = ''q'', cd_adapter = ''a'', cd_lineage = ''l'', cd_result = result, cd_actions = acts,
      cd_usage = js_int 1,
      cd_gate = Some \<lparr>gr_tier = T0, gr_pass = pass, gr_config_hash = [], gr_commit_hash = [], gr_worktree_hash = [],
        gr_artifact_commit = None, gr_base_commit = None, gr_merged_commit = None, gr_env_hash = [], gr_checks = [],
        gr_scope_note = []\<rparr>\<rparr>"

definition demo_review :: "(string \<times> string) list \<Rightarrow> js_val" where
  "demo_review fs = VObj [(''findings'', VArr (map (\<lambda>(k, sev). VObj [(''id'', VStr k), (''severity'', VStr sev)]) fs))]"

definition demo_json :: "js_val \<Rightarrow> string" where
  "demo_json v = []"

lemma repeated_finding_is_not_dissent:
  "rs_dissent (resolveReviews demo_json
     [demo_candidate 0 GatePass (demo_review [(''x'', ''high''), (''x'', ''high'')]) [],
      demo_candidate 1 GatePass (demo_review []) []]) = []"
  by code_simp

theorem reviews_keep_every_finding_witness:
  "map di_finding (rs_dissent (resolveReviews demo_json
     [demo_candidate 0 GatePass (demo_review [(''x'', ''high''), (''y'', ''low'')]) [],
      demo_candidate 1 GatePass (demo_review [(''x'', ''low'')]) []])) = [''y'']"
proof -
  let ?cs = "[demo_candidate 0 GatePass (demo_review [(''x'', ''high''), (''y'', ''low'')]) [],
      demo_candidate 1 GatePass (demo_review [(''x'', ''low'')]) []]"
  have "filter (\<lambda>k. length (raisings k (findings_of demo_json ?cs)) < length ?cs) (finding_keys (findings_of demo_json ?cs)) = [''y'']"
    by code_simp
  then show ?thesis using reviews_keep_every_finding [OF refl refl, of demo_json ?cs] by argo
qed

section \<open>Gated work\<close>

lemma find_snoc: "find P (xs @ [x]) = (case find P xs of Some y \<Rightarrow> Some y | None \<Rightarrow> if P x then Some x else None)"
  by (induction xs) auto

lemma add_write_lookup:
  "map_of (add_write w t) p =
    (case map_of t p of Some a \<Rightarrow> Some a | None \<Rightarrow> if write_path w = Some p then Some w else None)"
proof -
  have "p \<in> set (map fst t) \<longleftrightarrow> map_of t p \<noteq> None" by (metis map_of_eq_None_iff set_map)
  then show ?thesis by (auto simp: add_write_def map_add_def split: option.split)
qed

lemma add_write_table:
  "distinct (map fst (fold add_write ws [])) \<and> (\<forall>(p, a) \<in> set (fold add_write ws []). write_path a = Some p) \<and>
    map_of (fold add_write ws []) = (\<lambda>p. find (\<lambda>a. write_path a = Some p) ws)"
proof (induction ws rule: rev_induct)
  case (snoc w ws)
  define t where "t = fold add_write ws []"
  have step: "fold add_write (ws @ [w]) [] = add_write w t" by (simp add: t_def)
  have t: "distinct (map fst t)" "\<forall>(p, a) \<in> set t. write_path a = Some p"
      "map_of t = (\<lambda>p. find (\<lambda>a. write_path a = Some p) ws)"
    using snoc unfolding t_def [symmetric] by simp_all
  have "distinct (map fst (add_write w t))" "\<forall>(p, a) \<in> set (add_write w t). write_path a = Some p"
    using t(1,2) by (auto simp: add_write_def split: option.split)
  moreover have "map_of (add_write w t) p = find (\<lambda>a. write_path a = Some p) (ws @ [w])" for p
    unfolding add_write_lookup t(3) find_snoc ..
  ultimately show ?case unfolding step by blast
qed simp

lemma find_table:
  "(\<forall>(p, a) \<in> set t. write_path a = Some p) \<Longrightarrow> find (\<lambda>a. write_path a = Some p) (map snd t) = map_of t p"
  by (induction t) auto

lemma table_paths: "(\<forall>(p, a) \<in> set t. write_path a = Some p) \<Longrightarrow> map write_path (map snd t) = map Some (map fst t)"
  by (induction t) auto

text \<open>Only work the gate passed wins. A change is exactly what the first green candidate proposed, result and
  actions; tests are, for every path any green candidate writes, the first such write, once, and nothing
  else; without a green candidate nothing wins.\<close>

theorem only_gated_work_wins:
  "rs_winner (resolveMechanical json ArCodeDiff cs) = map_option (\<lambda>c. (cd_result c, cd_actions c)) (find gateGreen cs) \<and>
   (case rs_winner (resolveMechanical json ArTests cs) of
      None \<Rightarrow> filter gateGreen cs = []
    | Some (_, acts) \<Rightarrow> filter gateGreen cs \<noteq> [] \<and> distinct (map write_path acts) \<and> None \<notin> set (map write_path acts) \<and>
        (\<forall>p. find (\<lambda>a. write_path a = Some p) acts =
          find (\<lambda>a. write_path a = Some p) (concat (map cd_actions (filter gateGreen cs)))))"
proof -
  have find: "find P xs = (case filter P xs of [] \<Rightarrow> None | x # _ \<Rightarrow> Some x)" for P :: "candidate \<Rightarrow> bool" and xs
    by (induction xs) auto
  let ?t = "fold add_write (concat (map cd_actions (filter gateGreen cs))) []"
  note t = add_write_table [of "concat (map cd_actions (filter gateGreen cs))"]
  have paths: "map write_path (map snd ?t) = map Some (map fst ?t)" using t by (intro table_paths) simp
  have "distinct (map write_path (map snd ?t))" "None \<notin> set (map write_path (map snd ?t))"
    unfolding paths using t distinct_map [of Some "map fst ?t"] by auto
  moreover have "find (\<lambda>a. write_path a = Some p) (map snd ?t) =
      find (\<lambda>a. write_path a = Some p) (concat (map cd_actions (filter gateGreen cs)))" for p
    using t find_table [of ?t] by metis
  ultimately show ?thesis
    by (auto simp: find resolveCodeDiff_def resolveTests_def settled_def Let_def split: list.split)
qed

section \<open>Hypotheses\<close>

lemma add_first_table:
  "distinct (map fst (fold add_first xs [])) \<and> map_of (fold add_first xs []) = map_of xs"
proof (induction xs rule: rev_induct)
  case (snoc x xs)
  define t where "t = fold add_first xs []"
  have step: "fold add_first (xs @ [x]) [] = add_first x t" by (simp add: t_def)
  have t: "distinct (map fst t)" "map_of t = map_of xs" using snoc unfolding t_def [symmetric] by simp_all
  have "fst x \<in> set (map fst t) \<longleftrightarrow> map_of xs (fst x) \<noteq> None"
    unfolding t(2) [symmetric] by (metis map_of_eq_None_iff set_map)
  then show ?case
    unfolding step using t
    by (cases x; cases "fst x \<in> set (map fst t)") (auto simp: add_first_def map_add_def fun_eq_iff split: option.split)
qed simp

text \<open>The hypotheses that come out are each statement any candidate made, with the probes of the first who made it,
  the ones with the fewest probes first.\<close>

theorem hypotheses_are_the_ranked_union:
  "\<exists>hs. rs_winner (resolveMechanical json ArHypotheses cs) =
      Some (VObj [(''hypotheses'', VArr (map (\<lambda>(s, ps). VObj [(''statement'', VStr s), (''probes'', VArr ps)]) hs))], []) \<and>
    sorted (map (length \<circ> snd) hs) \<and> distinct (map fst hs) \<and>
    map_of hs = map_of (concat (map (\<lambda>c. asHypotheses json (cd_result c)) cs))"
proof -
  let ?xs = "concat (map (\<lambda>c. asHypotheses json (cd_result c)) cs)"
  let ?t = "fold add_first ?xs []"
  let ?hs = "sort_key (\<lambda>(_, ps). length ps) ?t"
  note t = add_first_table [of ?xs]
  have keys: "distinct (map fst ?hs)"
    using t by (metis (no_types, lifting) distinct_map distinct_sort set_sort)
  then have "map_of ?hs = map_of ?t" using t by (intro map_of_inject_set [THEN iffD2]) simp_all
  moreover have "map (length \<circ> snd) ?hs = map (\<lambda>(_, ps). length ps) ?hs" by (simp add: case_prod_unfold)
  then have "sorted (map (length \<circ> snd) ?hs)" by (metis sorted_sort_key)
  ultimately show ?thesis using keys t
    by (intro exI [of _ ?hs]) (simp add: resolveHypotheses_def settled_def Let_def)
qed

definition demo_raw_profile :: js_val where
  "demo_raw_profile = VObj [(''artifact'', VStr ''tests''), (''resolve'', VStr ''union_red_check''),
     (''estimateCostUnitsPerCandidate'', vint 5), (''panel'', VObj [(''size'', vint 3),
       (''diversity'', VObj [(''kind'', VStr ''self''), (''seeds'', VArr [vint 1, vint 2, vint 3])])]),
     (''budgetCapCostUnits'', vint 20)]"

definition demo_profiles :: fusion_profiles where
  "demo_profiles = \<lparr>fs_profiles = [\<lparr>fp_artifact = ArTests, fp_size = js_int 3, fp_diversity = SelfSeeds [js_int 1, js_int 2, js_int 3],
     fp_resolve = UnionRedCheck, fp_cap = js_int 20, fp_estimate = js_int 5\<rparr>], fs_planner = False\<rparr>"

lemma demo_profiles_parsed: "parseFusionProfiles (\<lambda>_. []) (VObj [(''profiles'', VArr [demo_raw_profile])]) = Inr demo_profiles"
  by code_simp

theorem loaded_profiles_are_valid_witness:
  "list_all profile_ok (fs_profiles demo_profiles) \<and> distinct (map fp_artifact (fs_profiles demo_profiles))"
  using loaded_profiles_are_valid [OF demo_profiles_parsed] by blast

end
