(* ===== verification/FusionRun.thy ===== *)
theory FusionRun
  imports Fusion
begin

text \<open>
  The fusion pipeline (\<open>aal/src/fusion/run.ts\<close>), the schema its judge answers to
  (\<open>aal/src/fusion/schema.ts\<close>) and the bounded repair loop (\<open>aal/src/repair.ts\<close>). The router, the
  dispatcher, the gate runner, the evidence store and the judge are arguments; the pipeline returns its
  outcome, or what was thrown, and the events it appended. Appending an event does not fail here.
\<close>

section \<open>Requests and answers\<close>

text \<open>The fields of a request that the pipeline or the repair loop sets; the others are passed on.\<close>

record agent_request =
  ag_id :: string
  ag_role :: role
  ag_objective :: string
  ag_pieces :: "(string \<times> string) list"
  ag_bytes :: nat
  ag_schema :: js_val
  ag_cost :: js_val
  ag_seed :: "js_num option"

text \<open>The actions of an answer are typed once it has been read; a proposal source sees them before that.\<close>

record 'act agent_answer =
  an_result :: js_val
  an_actions :: "'act list"
  an_usage :: js_val
  an_adapter :: string

type_synonym agent_response = "action agent_answer"

section \<open>Schemas\<close>

definition DELIBERATION_KEYS :: "string list" where
  "DELIBERATION_KEYS = [''consensus'', ''contradictions'', ''partialAgreements'', ''uniqueContributions'', ''blindSpots'']"

definition DELIBERATION_ANALYSIS_SCHEMA :: js_val where
  "DELIBERATION_ANALYSIS_SCHEMA =
     VObj [(''type'', VStr ''object''), (''required'', VArr (map VStr DELIBERATION_KEYS)),
       (''properties'', VObj (map (\<lambda>k. (k, VObj [(''type'', VStr ''array'')])) DELIBERATION_KEYS))]"

definition asDeliberation :: "js_val \<Rightarrow> js_val" where
  "asDeliberation v =
     VObj (map (\<lambda>k. (k, VArr (case val_get v k of VArr xs \<Rightarrow> filter is_str xs | _ \<Rightarrow> []))) DELIBERATION_KEYS)"

fun typeOf :: "js_val \<Rightarrow> string" where
  "typeOf VNull = ''null''"
| "typeOf (VArr _) = ''array''"
| "typeOf (VObj _) = ''object''"
| "typeOf (VStr _) = ''string''"
| "typeOf (VNum _) = ''number''"
| "typeOf (VBool _) = ''boolean''"
| "typeOf VUndef = ''undefined''"

text \<open>\<open>key in obj\<close> also sees what every object inherits; an inherited function is of no JSON type.\<close>

definition INHERITED_KEYS :: "string list" where
  "INHERITED_KEYS =
     [''constructor'', ''__defineGetter__'', ''__defineSetter__'', ''hasOwnProperty'', ''__lookupGetter__'',
      ''__lookupSetter__'', ''isPrototypeOf'', ''propertyIsEnumerable'', ''toString'', ''valueOf'', ''__proto__'',
      ''toLocaleString'']"

fun fields_of :: "js_val \<Rightarrow> payload" where
  "fields_of (VObj fs) = fs"
| "fields_of _ = []"

fun elems_of :: "js_val \<Rightarrow> js_val list" where
  "elems_of (VArr vs) = vs"
| "elems_of _ = []"

definition key_in :: "string \<Rightarrow> js_val \<Rightarrow> bool" where
  "key_in k v \<longleftrightarrow> k \<in> set (map fst (fields_of v)) \<or> k \<in> set INHERITED_KEYS"

definition allowed_types :: "js_val \<Rightarrow> js_val list option" where
  "allowed_types schema =
     (case val_get schema ''type'' of VUndef \<Rightarrow> None | VArr ts \<Rightarrow> Some ts | t \<Rightarrow> Some [t])"

text \<open>\<open>includes\<close> compares as \<open>===\<close> does, except that NaN is found.\<close>

definition same_value :: "js_val \<Rightarrow> js_val \<Rightarrow> bool" where
  "same_value v w \<longleftrightarrow> strict_eq v w \<or> v = VNum JNaN \<and> w = VNum JNaN"

lemma fields_get_size: "map_of fs k = Some v \<Longrightarrow> size v < Suc (size_list (size_prod (\<lambda>_. 0) size) fs)"
  by (induction fs) (auto split: if_splits)

lemma field_size: "(k, v) \<in> set fs \<Longrightarrow> size v < Suc (size_list (size_prod (\<lambda>_. 0) size) fs)"
  by (induction fs) auto

lemma property_size: "(k, sub) \<in> set (fields_of (val_get schema ''properties'')) \<Longrightarrow> size sub < size schema"
proof -
  assume sub: "(k, sub) \<in> set (fields_of (val_get schema ''properties''))"
  then obtain fs where fs: "val_get schema ''properties'' = VObj fs" "(k, sub) \<in> set fs"
    by (cases "val_get schema ''properties''") auto
  then obtain gs where gs: "schema = VObj gs" "map_of gs ''properties'' = Some (VObj fs)"
    by (cases schema) (auto simp: fields_get_def split: option.splits)
  show ?thesis using field_size [OF fs(2)] fields_get_size [OF gs(2)] gs(1) by simp
qed

text \<open>The errors; a value is valid when there are none.\<close>

function validateAgainstSchema :: "(js_num \<Rightarrow> string) \<Rightarrow> (js_val \<Rightarrow> string) \<Rightarrow> js_val \<Rightarrow> js_val \<Rightarrow> string list" where
  "validateAgainstSchema shw json v schema =
     (let allowed = allowed_types schema in
      if (case allowed of Some ts \<Rightarrow> VStr (typeOf v) \<notin> set ts | None \<Rightarrow> False)
      then [''expected type '' @ join '' | '' (map (js_String shw) (the allowed)) @ '', got '' @ typeOf v]
      else
        (case val_get schema ''enum'' of
           VUndef \<Rightarrow> []
         | vs \<Rightarrow> if list_ex (\<lambda>w. same_value w v) (elems_of vs) then [] else [''value not in enum '' @ json vs]) @
        (if (case allowed of Some ts \<Rightarrow> VStr ''object'' \<in> set ts | None \<Rightarrow> False) \<and> is_record v
         then
           concat (map (\<lambda>key. if key_in (js_String shw key) v then []
                              else [''missing required property \"'' @ js_String shw key @ ''\"''])
             (elems_of (val_get schema ''required''))) @
           concat (map (\<lambda>(key, sub). if key_in key v
                                     then map (\<lambda>e. key @ '': '' @ e) (validateAgainstSchema shw json (val_get v key) sub)
                                     else [])
             (fields_of (val_get schema ''properties'')))
         else []))"
  by pat_completeness auto
termination by (relation "measure (\<lambda>(_, _, _, schema). size schema)") (auto dest: property_size)

declare validateAgainstSchema.simps [simp del]

section \<open>The repair loop\<close>

definition repairRequest :: "'r agent_request_scheme \<Rightarrow> string list \<Rightarrow> nat \<Rightarrow> 'r agent_request_scheme" where
  "repairRequest req errors rounds =
     req\<lparr>ag_id := ag_id req @ ''#r'' @ nat_str rounds,
       ag_objective := ag_objective req @ [CHR 0x0A, CHR 0x0A] @ ''[repair] Your previous result failed schema validation: '' @
         join ''; '' errors @ ''. Return a corrected result that conforms.''\<rparr>"

record 'act repair_outcome =
  po_response :: "'act agent_answer"
  po_rounds :: nat
  po_errors :: "string list"
  po_total :: js_num

definition po_valid :: "'act repair_outcome \<Rightarrow> bool" where
  "po_valid r \<longleftrightarrow> po_errors r = []"

definition usageOf :: "'act agent_answer \<Rightarrow> js_val" where
  "usageOf r = val_get (an_usage r) ''costUnits''"

definition chargeUsage :: "js_num \<Rightarrow> js_val \<Rightarrow> thrown + js_num" where
  "chargeUsage spent increment =
     (case addCostUnits (VNum spent) increment of
        Inl e \<Rightarrow> Inl (ThrownAdapter \<lparr>ae_kind = AeInvalidResponse, ae_message = ''invalid response usage: '' @ cost_detail e\<rparr>)
      | Inr n \<Rightarrow> Inr n)"

text \<open>\<open>send i\<close> is the \<open>i\<close>-th call of the adapter; the first argument is the rounds that are left.\<close>

fun repair_rounds ::
    "nat \<Rightarrow> ('act agent_answer \<Rightarrow> string list) \<Rightarrow> (nat \<Rightarrow> 'r agent_request_scheme \<Rightarrow> thrown + 'act agent_answer)
       \<Rightarrow> 'r agent_request_scheme \<Rightarrow> nat \<Rightarrow> 'act agent_answer \<Rightarrow> js_num \<Rightarrow> thrown + 'act repair_outcome" where
  "repair_rounds left check send req rounds response spent =
     (case (check response, left) of
        (e # es, Suc n) \<Rightarrow>
          e_bind (send (Suc rounds) (repairRequest req (e # es) (Suc rounds))) (\<lambda>response'.
          e_bind (chargeUsage spent (usageOf response')) (\<lambda>spent'.
          repair_rounds n check send req (Suc rounds) response' spent'))
      | (es, _) \<Rightarrow> Inr \<lparr>po_response = response, po_rounds = rounds, po_errors = es, po_total = spent\<rparr>)"

definition proposeWithRepair ::
    "(js_num \<Rightarrow> string) \<Rightarrow> (js_val \<Rightarrow> string) \<Rightarrow> (nat \<Rightarrow> 'r agent_request_scheme \<Rightarrow> thrown + 'act agent_answer)
       \<Rightarrow> 'r agent_request_scheme \<Rightarrow> nat \<Rightarrow> thrown + 'act repair_outcome" where
  "proposeWithRepair shw json send req maxRounds =
     e_bind (send 0 req) (\<lambda>response.
     e_bind (chargeUsage (js_int 0) (usageOf response)) (\<lambda>spent.
     repair_rounds maxRounds (\<lambda>r. validateAgainstSchema shw json (an_result r) (ag_schema req)) send req 0 response spent))"

section \<open>The pipeline\<close>

record panel_slot =
  ps_adapter :: registered_adapter
  ps_lineage :: string
  ps_request :: agent_request

text \<open>
  \<open>fe_view\<close> is the text of a candidate the judge sees: of its position, its result and its actions, and of
  nothing else. \<open>fe_judge\<close> is \<open>None\<close> when no reviewer has capacity. The left value of \<open>fe_gate\<close> is a throw.
\<close>

record fusion_env =
  fe_put :: "js_val \<Rightarrow> string"
  fe_eligible :: "role \<Rightarrow> registered_adapter list"
  fe_dispatch :: "panel_slot list \<Rightarrow> rate_observation list \<times> (adapter_error + agent_response) list"
  fe_gate :: "(nat \<Rightarrow> action list \<Rightarrow> string + gate_report) option"
  fe_judge :: "(nat \<Rightarrow> agent_request \<Rightarrow> thrown + agent_response) option"
  fe_judge_id :: string
  fe_view :: "nat \<Rightarrow> js_val \<Rightarrow> action list \<Rightarrow> string"
  fe_shw :: "js_num \<Rightarrow> string"
  fe_json :: "js_val \<Rightarrow> string"

type_synonym fusion_log = "(event_type \<times> payload) list"

record fusion_outcome =
  fo_winner :: "(js_val \<times> action list) option"
  fo_ref :: string
  fo_dissents :: "string list"
  fo_usage :: js_num
  fo_resolved :: resolve_rule
  fo_escalate :: "fusion_escalate option"
  fo_panel :: nat

type_synonym fusion_result = "(string + fusion_outcome) \<times> fusion_log"

fun escalate_name :: "fusion_escalate \<Rightarrow> string" where
  "escalate_name FeNoGateSurvivor = ''no_gate_survivor''"
| "escalate_name FeJudgeInvalid = ''judge_invalid''"
| "escalate_name FeBudgetCap = ''budget_cap''"
| "escalate_name FePanelDegraded = ''panel_degraded''"
| "escalate_name FeDepthExceeded = ''depth_exceeded''"
| "escalate_name FeInvalidResponse = ''invalid_response''"

fun error_kind_name :: "adapter_error_kind \<Rightarrow> string" where
  "error_kind_name AeQuotaLimited = ''quota_limited''"
| "error_kind_name AeAuthUnavailable = ''auth_unavailable''"
| "error_kind_name AeTransport = ''transport''"
| "error_kind_name AeInvalidResponse = ''invalid_response''"
| "error_kind_name AeTimedOut = ''timed_out''"
| "error_kind_name AeCancelled = ''cancelled''"
| "error_kind_name AeContextLimited = ''context_limited''"
| "error_kind_name AeUnavailable = ''unavailable''"

definition fusion_escalate_with ::
    "fusion_env \<Rightarrow> fusion_profile \<Rightarrow> fusion_escalate \<Rightarrow> js_num \<Rightarrow> nat \<Rightarrow> fusion_log \<Rightarrow> fusion_result" where
  "fusion_escalate_with env p why usage panel evs =
     (Inr \<lparr>fo_winner = None,
        fo_ref = fe_put env (VObj [(''judge'', VStr ''not_reached''), (''reason'', VStr (escalate_name why))]),
        fo_dissents = [], fo_usage = usage, fo_resolved = fp_resolve p, fo_escalate = Some why, fo_panel = panel\<rparr>,
      evs @ [(E_FUSION_RESOLVED, [(''artifact'', VStr (artifact_name (fp_artifact p))), (''resolved'', VStr (rule_name (fp_resolve p))),
          (''winner'', VBool False), (''escalateReason'', VStr (escalate_name why))])] @
        (if why = FeInvalidResponse then [(E_ESCALATED, [(''why'', VStr ''invalid_response'')])] else []))"

definition panel_slot_of :: "agent_request \<Rightarrow> registered_adapter \<Rightarrow> nat \<Rightarrow> js_num option \<Rightarrow> panel_slot" where
  "panel_slot_of base adapter i seed =
     \<lparr>ps_adapter = adapter, ps_lineage = ra_lineage adapter,
      ps_request = (case seed of None \<Rightarrow> base | Some s \<Rightarrow> base\<lparr>ag_seed := Some s\<rparr>)\<lparr>ag_id := ag_id base @ ''#fp'' @ nat_str i\<rparr>\<rparr>"

fun lineage_slots :: "agent_request \<Rightarrow> registered_adapter list \<Rightarrow> nat \<Rightarrow> string list \<Rightarrow> panel_slot list option" where
  "lineage_slots base eligible i [] = Some []"
| "lineage_slots base eligible i (l # ls) =
     (case find (\<lambda>e. ra_lineage e = l) eligible of
        None \<Rightarrow> None
      | Some m \<Rightarrow> map_option (\<lambda>slots. panel_slot_of base m i None # slots) (lineage_slots base eligible (Suc i) ls))"

definition planPanel :: "fusion_env \<Rightarrow> fusion_profile \<Rightarrow> agent_request \<Rightarrow> nat \<Rightarrow> panel_slot list option" where
  "planPanel env p base n =
     (let eligible = fe_eligible env (ag_role base) in
      case fp_diversity p of
        SelfSeeds seeds \<Rightarrow>
          (case eligible of
             [] \<Rightarrow> None
           | only # _ \<Rightarrow>
               if length seeds < n \<or> length (uniq (take n seeds)) < n then None
               else Some (map (\<lambda>i. panel_slot_of base only i (Some (seeds ! i))) [0..<n]))
      | CrossLineage ls \<Rightarrow> lineage_slots base eligible 0 (take n ls))"

definition buildJudgeRequest :: "fusion_env \<Rightarrow> agent_request \<Rightarrow> candidate list \<Rightarrow> agent_request" where
  "buildJudgeRequest env base candidates =
     (let pieces = map (\<lambda>c. (''candidate-'' @ nat_str (cd_index c), fe_view env (cd_index c) (cd_result c) (cd_actions c))) candidates in
      base\<lparr>ag_id := fe_judge_id env, ag_role := Reviewer, ag_pieces := pieces,
        ag_bytes := sum_list (map (length \<circ> snd) pieces), ag_schema := DELIBERATION_ANALYSIS_SCHEMA\<rparr>)"

fun js_floor :: "js_num \<Rightarrow> js_num" where
  "js_floor (JFin r) = js_int \<lfloor>r\<rfloor>"
| "js_floor n = n"

fun size_nat :: "js_num \<Rightarrow> nat" where
  "size_nat (JFin r) = nat \<lfloor>r\<rfloor>"
| "size_nat _ = 0"

text \<open>The size of the panel that fits the cap, unless two candidates do not.\<close>

definition panel_fit :: "fusion_profile \<Rightarrow> js_num option" where
  "panel_fit p =
     (if js_lt (fp_cap p) (js_mul (fp_size p) (fp_estimate p))
      then let fit = js_floor (js_div (fp_cap p) (fp_estimate p)) in if js_lt fit (js_int 2) then None else Some fit
      else Some (fp_size p))"

text \<open>The answers of the panel in order: the candidates and the usage, or the usage at which a bad answer ends it.\<close>

fun collect ::
    "(panel_slot \<times> (adapter_error + agent_response)) list \<Rightarrow> candidate list \<Rightarrow> js_num \<Rightarrow> fusion_log
       \<Rightarrow> (js_num + candidate list \<times> js_num) \<times> fusion_log" where
  "collect [] cs usage evs = (Inr (cs, usage), evs)"
| "collect ((slot, r) # rs) cs usage evs =
     (case r of
        Inr resp \<Rightarrow>
          (case addCostUnits (VNum usage) (usageOf resp) of
             Inl e \<Rightarrow>
               (Inl usage, evs @ [(E_FUSION_CANDIDATE, [(''requestId'', VStr (ag_id (ps_request slot))), (''ok'', VBool False),
                  (''errorKind'', VStr ''invalid_response''), (''detail'', VStr (cost_detail e))])])
           | Inr usage' \<Rightarrow>
               collect rs
                 (cs @ [\<lparr>cd_index = length cs, cd_request = ag_id (ps_request slot), cd_adapter = an_adapter resp,
                    cd_lineage = ps_lineage slot, cd_result = an_result resp, cd_actions = an_actions resp,
                    cd_usage = (case usageOf resp of VNum n \<Rightarrow> n | _ \<Rightarrow> JNaN), cd_gate = None\<rparr>])
                 usage'
                 (evs @ [(E_FUSION_CANDIDATE, [(''index'', vint (int (length cs))), (''requestId'', VStr (ag_id (ps_request slot))),
                    (''adapterId'', VStr (an_adapter resp)), (''ok'', VBool True), (''costUnits'', usageOf resp)])]))
      | Inl e \<Rightarrow>
          if ae_kind e = AeInvalidResponse then (Inl usage, evs)
          else collect rs cs usage
            (evs @ [(E_FUSION_CANDIDATE, [(''requestId'', VStr (ag_id (ps_request slot))), (''ok'', VBool False),
               (''errorKind'', VStr (error_kind_name (ae_kind e)))])]))"

text \<open>One gate run per candidate, in order.\<close>

fun run_gates :: "(nat \<Rightarrow> action list \<Rightarrow> string + gate_report) \<Rightarrow> nat \<Rightarrow> candidate list \<Rightarrow> string + candidate list" where
  "run_gates runner i [] = Inr []"
| "run_gates runner i (c # cs) =
     e_bind (runner i (cd_actions c)) (\<lambda>g.
     e_bind (run_gates runner (Suc i) cs) (\<lambda>cs'. Inr (c\<lparr>cd_gate := Some g\<rparr> # cs')))"

datatype judge_result =
    JudgeEscalates js_num
  | JudgeThrows string
  | JudgeDone js_num "js_val option"

definition judge_round :: "fusion_env \<Rightarrow> fusion_profile \<Rightarrow> agent_request \<Rightarrow> candidate list \<Rightarrow> js_num \<Rightarrow> js_num \<Rightarrow> judge_result" where
  "judge_round env p base cs usage left =
     (if \<not> js_le (fp_estimate p) left then JudgeDone usage None
      else
        (case fe_judge env of
           None \<Rightarrow> JudgeDone usage None
         | Some send \<Rightarrow>
             (case proposeWithRepair (fe_shw env) (fe_json env) send (buildJudgeRequest env base cs) 1 of
                Inl (ThrownAdapter e) \<Rightarrow> if ae_kind e = AeInvalidResponse then JudgeEscalates usage else JudgeDone usage None
              | Inl (ThrownOther text) \<Rightarrow> JudgeThrows text
              | Inr res \<Rightarrow>
                  (case addCostUnits (VNum usage) (VNum (po_total res)) of
                     Inl _ \<Rightarrow> JudgeEscalates usage
                   | Inr usage' \<Rightarrow>
                       JudgeDone usage' (if po_valid res then Some (asDeliberation (an_result (po_response res))) else None)))))"

definition dissent_val :: "dissent_item \<Rightarrow> js_val" where
  "dissent_val d =
     VObj [(''finding'', VStr (di_finding d)), (''raisedBy'', VArr (map (\<lambda>i. vint (int i)) (di_raised d))),
       (''detail'', VObj [(''severities'', VArr (map VStr (di_severities d))), (''blockings'', VArr (map VBool (di_blockings d)))])]"

definition rate_payload :: "rate_observation \<Rightarrow> payload" where
  "rate_payload r =
     [(''target'', VStr (ro_target r)), (''policyKey'', case ro_policy r of Some s \<Rightarrow> VStr s | None \<Rightarrow> VNull),
      (''limited'', VBool (ro_limited r)), (''availableTokens'', case ro_available r of Some n \<Rightarrow> VNum n | None \<Rightarrow> VNull)]"

text \<open>Resolving, capturing the dissent and reporting, once the judge has been heard or not.\<close>

definition fusion_resolve ::
    "fusion_env \<Rightarrow> fusion_profile \<Rightarrow> candidate list \<Rightarrow> js_num \<Rightarrow> js_num \<Rightarrow> js_val option \<Rightarrow> nat \<Rightarrow> fusion_log \<Rightarrow> fusion_result" where
  "fusion_resolve env p cs usage left judged panel evs =
     (let why = (if js_le (fp_estimate p) left then FeJudgeInvalid else FeBudgetCap);
          stopped = judgeLoadBearing (fp_artifact p) \<and> judged = None;
          res = (if stopped then settled None (fp_resolve p) (Some why) else resolveMechanical (fe_json env) (fp_artifact p) cs);
          marker = (if stopped then VObj [(''judge'', VStr ''unavailable''), (''reason'', VStr (escalate_name why))]
                    else VObj [(''judge'', VStr ''not_load_bearing'')]);
          ref = fe_put env (case judged of Some analysis \<Rightarrow> analysis | None \<Rightarrow> marker);
          refs = map (\<lambda>d. fe_put env (dissent_val d)) (rs_dissent res);
          dissents = map (\<lambda>d. (E_FUSION_DISSENT, [(''finding'', VStr (di_finding d)),
            (''raisedBy'', VArr (map (\<lambda>i. vint (int i)) (di_raised d))), (''evidenceRef'', VStr (fe_put env (dissent_val d)))]))
            (rs_dissent res);
          resolved = (E_FUSION_RESOLVED,
            [(''artifact'', VStr (artifact_name (fp_artifact p))), (''resolved'', VStr (rule_name (rs_resolved res))),
             (''winner'', VBool (rs_winner res \<noteq> None))] @
            (case rs_escalate res of Some w \<Rightarrow> [(''escalateReason'', VStr (escalate_name w))] | None \<Rightarrow> []) @
            (if rs_marker res = Some True then [(''escalationMarker'', VBool True)] else []) @
            [(''dissentCount'', vint (int (length refs)))]) in
      (Inr \<lparr>fo_winner = rs_winner res, fo_ref = ref, fo_dissents = refs, fo_usage = usage, fo_resolved = rs_resolved res,
         fo_escalate = rs_escalate res, fo_panel = panel\<rparr>,
       evs @ dissents @ [resolved]))"

definition diversity_name :: "diversity \<Rightarrow> string" where
  "diversity_name d = (case d of SelfSeeds _ \<Rightarrow> ''self'' | CrossLineage _ \<Rightarrow> ''cross_lineage'')"

text \<open>What follows the panel: gates, judge, resolution.\<close>

definition after_panel ::
    "fusion_env \<Rightarrow> fusion_profile \<Rightarrow> agent_request \<Rightarrow> js_num \<Rightarrow> nat \<Rightarrow> candidate list \<Rightarrow> js_num \<Rightarrow> fusion_log \<Rightarrow> fusion_result" where
  "after_panel env p base budget panel cs usage evs =
     (if length cs < 2 then fusion_escalate_with env p FePanelDegraded usage panel evs
      else
        let needsGate = (fp_artifact p = ArCodeDiff \<or> fp_artifact p = ArTests) in
        if needsGate \<and> fe_gate env = None then fusion_escalate_with env p FeNoGateSurvivor usage panel evs
        else
          (case (if needsGate then run_gates (the (fe_gate env)) 0 cs else Inr cs) of
             Inl e \<Rightarrow> (Inl e, evs)
           | Inr gated \<Rightarrow>
               let left = js_sub budget usage in
               (case judge_round env p base gated usage left of
                  JudgeEscalates u \<Rightarrow> fusion_escalate_with env p FeInvalidResponse u panel evs
                | JudgeThrows text \<Rightarrow> (Inl text, evs)
                | JudgeDone u judged \<Rightarrow> fusion_resolve env p gated u left judged panel evs)))"

definition runFusion :: "fusion_env \<Rightarrow> fusion_profile \<Rightarrow> agent_request \<Rightarrow> fusion_log \<Rightarrow> fusion_result" where
  "runFusion env p base evs =
     (case validateCostUnits (ag_cost base) of
        Inl _ \<Rightarrow> fusion_escalate_with env p FeInvalidResponse (js_int 0) 0 evs
      | Inr budget \<Rightarrow>
          (case panel_fit p of
             None \<Rightarrow> fusion_escalate_with env p FeBudgetCap (js_int 0) 0 evs
           | Some sz \<Rightarrow>
               (case planPanel env p base (size_nat sz) of
                  None \<Rightarrow> fusion_escalate_with env p FePanelDegraded (js_int 0) 0 evs
                | Some slots \<Rightarrow>
                    if length slots < 2 then fusion_escalate_with env p FePanelDegraded (js_int 0) 0 evs
                    else
                      let evs1 = evs @ [(E_FUSION_PANEL, [(''artifact'', VStr (artifact_name (fp_artifact p))),
                            (''size'', vint (int (length slots))), (''diversity'', VStr (diversity_name (fp_diversity p))),
                            (''requestIds'', VArr (map (\<lambda>s. VStr (ag_id (ps_request s))) slots))])] in
                      (case fe_dispatch env slots of
                         (observed, results) \<Rightarrow>
                           (case collect (zip slots results) [] (js_int 0)
                                   (evs1 @ map (\<lambda>r. (E_RATE_LIMIT_OBSERVED, rate_payload r)) observed) of
                              (Inl usage, evs2) \<Rightarrow> fusion_escalate_with env p FeInvalidResponse usage (length slots) evs2
                            | (Inr (cs, usage), evs2) \<Rightarrow>
                                after_panel env p base budget (length slots) cs usage evs2)))))"

section \<open>The repair loop is bounded and charged\<close>

declare repair_rounds.simps [simp del]

primrec charges :: "js_num \<Rightarrow> js_val list \<Rightarrow> thrown + js_num" where
  "charges spent [] = Inr spent"
| "charges spent (u # us) = e_bind (chargeUsage spent u) (\<lambda>spent'. charges spent' us)"

lemma charges_snoc: "charges s (us @ [u]) = e_bind (charges s us) (\<lambda>s'. chargeUsage s' u)"
  by (induction us arbitrary: s) (auto simp: e_bind_def split: sum.splits)

text \<open>What the call after some answers asks for: the request itself, then a repair of the last answer's errors.\<close>

definition asked_for ::
    "('act agent_answer \<Rightarrow> string list) \<Rightarrow> 'r agent_request_scheme \<Rightarrow> 'act agent_answer list \<Rightarrow> nat \<Rightarrow> 'r agent_request_scheme" where
  "asked_for check req answers i = (case i of 0 \<Rightarrow> req | Suc j \<Rightarrow> repairRequest req (check (answers ! j)) i)"

text \<open>Calls and their answers, in order: every one but the last was invalid.\<close>

definition exchanged ::
    "('act agent_answer \<Rightarrow> string list) \<Rightarrow> (nat \<Rightarrow> 'r agent_request_scheme \<Rightarrow> thrown + 'act agent_answer)
       \<Rightarrow> 'r agent_request_scheme \<Rightarrow> 'act agent_answer list \<Rightarrow> bool" where
  "exchanged check send req answers \<longleftrightarrow>
     (\<forall>i < length answers. send i (asked_for check req answers i) = Inr (answers ! i)) \<and>
     (\<forall>i. Suc i < length answers \<longrightarrow> check (answers ! i) \<noteq> [])"

lemma asked_for_snoc: "i \<le> length answers \<Longrightarrow> asked_for check req (answers @ [r]) i = asked_for check req answers i"
  by (auto simp: asked_for_def nth_append split: nat.split)

lemma exchanged_snoc:
  assumes "exchanged check send req answers" "answers \<noteq> [] \<Longrightarrow> check (last answers) \<noteq> []"
    and "send (length answers) (asked_for check req answers (length answers)) = Inr r"
  shows "exchanged check send req (answers @ [r])"
proof -
  have "send i (asked_for check req (answers @ [r]) i) = Inr ((answers @ [r]) ! i)" if "i < Suc (length answers)" for i
    using that assms(1,3) by (cases "i = length answers") (auto simp: exchanged_def asked_for_snoc nth_append)
  moreover have "check ((answers @ [r]) ! i) \<noteq> []" if "i < length answers" for i
  proof (cases "Suc i = length answers")
    case True
    then have "answers \<noteq> []" "i = length answers - 1" by auto
    then have "answers ! i = last answers" by (simp add: last_conv_nth)
    then show ?thesis using assms(2) that \<open>answers \<noteq> []\<close> by (simp add: nth_append)
  qed (use that assms(1) in \<open>auto simp: exchanged_def nth_append\<close>)
  ultimately show ?thesis unfolding exchanged_def by simp
qed

text \<open>How a loop of so many rounds may end.\<close>

definition repair_ends ::
    "('act agent_answer \<Rightarrow> string list) \<Rightarrow> (nat \<Rightarrow> 'r agent_request_scheme \<Rightarrow> thrown + 'act agent_answer)
       \<Rightarrow> 'r agent_request_scheme \<Rightarrow> nat \<Rightarrow> 'act agent_answer list \<Rightarrow> thrown + 'act repair_outcome \<Rightarrow> bool" where
  "repair_ends check send req maxRounds answers result \<longleftrightarrow>
     exchanged check send req answers \<and>
     (case result of
        Inr res \<Rightarrow>
          length answers = Suc (po_rounds res) \<and> po_rounds res \<le> maxRounds \<and> po_response res = last answers \<and>
          po_errors res = check (last answers) \<and> (po_valid res \<or> po_rounds res = maxRounds) \<and>
          charges (js_int 0) (map usageOf answers) = Inr (po_total res)
      | Inl e \<Rightarrow>
          (answers = [] \<or> check (last answers) \<noteq> []) \<and> length answers \<le> maxRounds \<and>
            send (length answers) (asked_for check req answers (length answers)) = Inl e \<or>
          answers \<noteq> [] \<and> length answers \<le> Suc maxRounds \<and> charges (js_int 0) (map usageOf answers) = Inl e)"

lemma repair_rounds_end:
  assumes "exchanged check send req answers" "length answers = Suc rounds"
    and "charges (js_int 0) (map usageOf answers) = Inr spent"
  shows "\<exists>more. repair_ends check send req (rounds + left) more
    (repair_rounds left check send req rounds (last answers) spent)"
  using assms
proof (induction left arbitrary: answers rounds spent)
  case 0
  then show ?case
    by (intro exI [of _ answers]) (simp add: repair_rounds.simps repair_ends_def split: list.split)
next
  case (Suc left)
  show ?case
  proof (cases "check (last answers)")
    case Nil
    then show ?thesis using Suc.prems
      by (intro exI [of _ answers]) (simp add: repair_rounds.simps repair_ends_def po_valid_def)
  next
    case (Cons e es)
    have ne: "answers \<noteq> []" using Suc.prems(2) by auto
    have ask: "asked_for check req answers (length answers) = repairRequest req (e # es) (Suc rounds)"
      using Suc.prems(2) Cons ne by (simp add: asked_for_def last_conv_nth)
    show ?thesis
    proof (cases "send (Suc rounds) (repairRequest req (e # es) (Suc rounds))")
      case (Inl x)
      then show ?thesis using Suc.prems Cons ask
        by (intro exI [of _ answers]) (simp add: repair_rounds.simps repair_ends_def)
    next
      case (Inr r)
      have ex: "exchanged check send req (answers @ [r])"
        using Suc.prems(1,2) Cons ask Inr by (intro exchanged_snoc) simp_all
      have charge: "charges (js_int 0) (map usageOf (answers @ [r])) = chargeUsage spent (usageOf r)"
        using Suc.prems(3) by (simp add: charges_snoc)
      show ?thesis
      proof (cases "chargeUsage spent (usageOf r)")
        case (Inl x)
        then show ?thesis using ex charge Inr Cons Suc.prems(2)
          by (intro exI [of _ "answers @ [r]"]) (simp add: repair_rounds.simps repair_ends_def)
      next
        case (Inr spent')
        then obtain more where "repair_ends check send req (Suc rounds + left) more
            (repair_rounds left check send req (Suc rounds) (last (answers @ [r])) spent')"
          using Suc.IH [OF ex, of "Suc rounds" spent'] charge Suc.prems(2) by auto
        then show ?thesis
          using Inr Cons \<open>send (Suc rounds) (repairRequest req (e # es) (Suc rounds)) = Inr r\<close>
          by (intro exI [of _ more]) (simp add: repair_rounds.simps)
      qed
    qed
  qed
qed

text \<open>C28: the repair loop calls the agent once, and once more, for at most the rounds allowed, only after an answer with
  schema errors: each further call asks for a repair of exactly the errors of the answer before it. It returns the last
  answer, with that answer's schema errors, as soon as there are none or when the rounds have run out, charged with
  the usage of every answer on the way. When it fails, it is because a call failed, at most the last one allowed and
  after invalid answers only, or because the usage of the answers cannot be summed.\<close>

theorem repair_is_bounded_and_charged:
  shows "let check = (\<lambda>r. validateAgainstSchema shw json (an_result r) (ag_schema req)) in
    \<exists>answers.
      (\<forall>i < length answers. send i (case i of 0 \<Rightarrow> req | Suc j \<Rightarrow> repairRequest req (check (answers ! j)) i) = Inr (answers ! i)) \<and>
      (\<forall>i. Suc i < length answers \<longrightarrow> check (answers ! i) \<noteq> []) \<and>
      (case proposeWithRepair shw json send req maxRounds of
         Inr res \<Rightarrow>
           length answers = Suc (po_rounds res) \<and> po_rounds res \<le> maxRounds \<and> po_response res = last answers \<and>
           po_errors res = check (last answers) \<and> (po_valid res \<or> po_rounds res = maxRounds) \<and>
           charges (js_int 0) (map usageOf answers) = Inr (po_total res)
       | Inl e \<Rightarrow>
           (answers = [] \<or> check (last answers) \<noteq> []) \<and> length answers \<le> maxRounds \<and>
             send (length answers)
               (case length answers of 0 \<Rightarrow> req | Suc j \<Rightarrow> repairRequest req (check (answers ! j)) (length answers)) = Inl e \<or>
           answers \<noteq> [] \<and> length answers \<le> Suc maxRounds \<and> charges (js_int 0) (map usageOf answers) = Inl e)"
proof -
  let ?check = "\<lambda>r. validateAgainstSchema shw json (an_result r) (ag_schema req)"
  have "\<exists>answers. repair_ends ?check send req maxRounds answers (proposeWithRepair shw json send req maxRounds)"
  proof (cases "send 0 req")
    case (Inl e)
    then show ?thesis
      by (intro exI [of _ "[]"]) (simp add: repair_ends_def exchanged_def proposeWithRepair_def asked_for_def)
  next
    case (Inr r)
    have ex: "exchanged ?check send req [r]" using Inr by (simp add: exchanged_def asked_for_def)
    show ?thesis
    proof (cases "chargeUsage (js_int 0) (usageOf r)")
      case (Inl e)
      then show ?thesis using ex Inr by (intro exI [of _ "[r]"]) (simp add: repair_ends_def proposeWithRepair_def)
    next
      case charged: (Inr spent)
      then obtain more where "repair_ends ?check send req (0 + maxRounds) more
          (repair_rounds maxRounds ?check send req 0 (last [r]) spent)"
        using repair_rounds_end [OF ex, of 0 spent maxRounds] by auto
      then show ?thesis using Inr charged by (intro exI [of _ more]) (simp add: proposeWithRepair_def)
    qed
  qed
  then show ?thesis unfolding repair_ends_def exchanged_def Let_def asked_for_def by blast
qed

section \<open>Candidates and gates\<close>

definition candidate_event :: "event_type \<times> payload \<Rightarrow> bool" where
  "candidate_event e \<longleftrightarrow> fst e = E_FUSION_CANDIDATE"

text \<open>A candidate is an answer of the panel, not yet gated.\<close>

definition from_answer :: "nat \<Rightarrow> agent_response \<Rightarrow> candidate \<Rightarrow> bool" where
  "from_answer i resp c \<longleftrightarrow> cd_index c = i \<and> cd_result c = an_result resp \<and> cd_actions c = an_actions resp"

text \<open>The answers among the results of the panel's slots.\<close>

fun answers_in :: "(panel_slot \<times> (adapter_error + agent_response)) list \<Rightarrow> agent_response list" where
  "answers_in [] = []"
| "answers_in ((_, Inl _) # rs) = answers_in rs"
| "answers_in ((_, Inr resp) # rs) = resp # answers_in rs"

lemma collect_log: "\<exists>new. snd (collect rs cs usage evs) = evs @ new \<and> list_all candidate_event new"
proof (induction rs cs usage evs rule: collect.induct)
  case (2 slot r rs cs usage evs)
  show ?case
  proof (cases r)
    case (Inl e)
    show ?thesis
    proof (cases "ae_kind e = AeInvalidResponse")
      case False
      then show ?thesis using 2(1) [OF Inl False] Inl by (auto simp: candidate_event_def)
    qed (simp add: Inl)
  next
    case (Inr resp)
    then show ?thesis using 2(2) [OF Inr]
      by (cases "addCostUnits (VNum usage) (usageOf resp)") (auto simp: candidate_event_def)
  qed
qed simp

text \<open>The candidates are the answers, in order and by their positions.\<close>

lemma collect_answers:
  assumes "fst (collect rs cs usage evs) = Inr (cs', usage')"
  shows "length cs' = length cs + length (answers_in rs) \<and> take (length cs) cs' = cs \<and>
    (\<forall>i < length (answers_in rs). from_answer (length cs + i) (answers_in rs ! i) (cs' ! (length cs + i)))"
  using assms
proof (induction rs cs usage evs rule: collect.induct)
  case (2 slot r rs cs usage evs)
  show ?case
  proof (cases r)
    case (Inl e)
    have ok: "ae_kind e \<noteq> AeInvalidResponse" using 2(3) Inl by (auto split: if_splits)
    then show ?thesis using 2(1) [OF Inl ok] 2(3) Inl by simp
  next
    case (Inr resp)
    then obtain u where u: "addCostUnits (VNum usage) (usageOf resp) = Inr u"
      using 2(3) by (cases "addCostUnits (VNum usage) (usageOf resp)") simp_all
    define c where "c = \<lparr>cd_index = length cs, cd_request = ag_id (ps_request slot), cd_adapter = an_adapter resp,
        cd_lineage = ps_lineage slot, cd_result = an_result resp, cd_actions = an_actions resp,
        cd_usage = (case usageOf resp of VNum n \<Rightarrow> n | _ \<Rightarrow> JNaN), cd_gate = None\<rparr>"
    have c: "from_answer (length cs) resp c" by (simp add: c_def from_answer_def)
    have ih: "length cs' = Suc (length cs) + length (answers_in rs)" "take (Suc (length cs)) cs' = cs @ [c]"
      "\<forall>i < length (answers_in rs). from_answer (Suc (length cs) + i) (answers_in rs ! i) (cs' ! (Suc (length cs) + i))"
      using 2(2) [OF Inr u] 2(3) by (simp_all add: Inr u c_def)
    have "take (length cs) cs' = take (length cs) (take (Suc (length cs)) cs')" by (simp add: min_def)
    then have "take (length cs) cs' = cs" using ih(2) by simp
    moreover have "cs' ! length cs = take (Suc (length cs)) cs' ! length cs" by simp
    then have "cs' ! length cs = c" using ih(2) by simp
    moreover have "from_answer (length cs + i) ((resp # answers_in rs) ! i) (cs' ! (length cs + i))"
      if "i < Suc (length (answers_in rs))" for i
      using that ih(3) c \<open>cs' ! length cs = c\<close> by (cases i) auto
    ultimately show ?thesis using ih(1) Inr by simp
  qed
qed simp

lemma run_gates_nth:
  "run_gates runner i cs = Inr gated \<Longrightarrow> length gated = length cs \<and>
   (\<forall>j < length cs. \<exists>g. runner (i + j) (cd_actions (cs ! j)) = Inr g \<and> gated ! j = (cs ! j)\<lparr>cd_gate := Some g\<rparr>)"
proof (induction cs arbitrary: i gated)
  case (Cons c1 cs)
  then obtain g cs' where g: "runner i (cd_actions c1) = Inr g" "run_gates runner (Suc i) cs = Inr cs'"
      "gated = c1\<lparr>cd_gate := Some g\<rparr> # cs'"
    by (auto simp: e_bind_Inr_iff)
  have "\<exists>g. runner (i + j) (cd_actions ((c1 # cs) ! j)) = Inr g \<and> gated ! j = ((c1 # cs) ! j)\<lparr>cd_gate := Some g\<rparr>"
    if "j < Suc (length cs)" for j
    using that g Cons.IH [OF g(2)] by (cases j) auto
  then show ?case using Cons.IH [OF g(2)] g(3) by simp
qed simp

section \<open>What wins\<close>

text \<open>The panel that fits the cap was planned, and these are its answers.\<close>

definition answered :: "fusion_env \<Rightarrow> fusion_profile \<Rightarrow> agent_request \<Rightarrow> agent_response list \<Rightarrow> bool" where
  "answered env p base resps \<longleftrightarrow>
     (\<exists>sz slots. panel_fit p = Some sz \<and> planPanel env p base (size_nat sz) = Some slots \<and>
        resps = answers_in (zip slots (snd (fe_dispatch env slots))))"

text \<open>The gate run of the \<open>i\<close>-th answer.\<close>

definition gate_passed :: "fusion_env \<Rightarrow> nat \<Rightarrow> action list \<Rightarrow> bool" where
  "gate_passed env i acts \<longleftrightarrow> (\<exists>runner g. fe_gate env = Some runner \<and> runner i acts = Inr g \<and> gr_pass g = GatePass)"

text \<open>The request the judge of these answers is sent: a reviewer's, about each answer's result and actions by position.\<close>

definition judge_request :: "fusion_env \<Rightarrow> agent_request \<Rightarrow> agent_response list \<Rightarrow> agent_request" where
  "judge_request env base resps =
     (let pieces = map (\<lambda>i. (''candidate-'' @ nat_str i, fe_view env i (an_result (resps ! i)) (an_actions (resps ! i))))
        [0..<length resps] in
      base\<lparr>ag_id := fe_judge_id env, ag_role := Reviewer, ag_pieces := pieces,
        ag_bytes := sum_list (map (length \<circ> snd) pieces), ag_schema := DELIBERATION_ANALYSIS_SCHEMA\<rparr>)"

text \<open>The judge answered it, within one repair, by an analysis of the right shape.\<close>

definition judge_heard :: "fusion_env \<Rightarrow> agent_request \<Rightarrow> agent_response list \<Rightarrow> bool" where
  "judge_heard env base resps \<longleftrightarrow>
     (\<exists>send res. fe_judge env = Some send \<and>
        proposeWithRepair (fe_shw env) (fe_json env) send (judge_request env base resps) 1 = Inr res \<and> po_valid res)"

lemma judge_round_heard:
  assumes "judge_round env p base cs usage left = JudgeDone u (Some v)" "length cs = length resps"
    and "\<And>i. i < length cs \<Longrightarrow> from_answer i (resps ! i) (cs ! i)"
  shows "judge_heard env base resps"
proof -
  have "map (\<lambda>c. (''candidate-'' @ nat_str (cd_index c), fe_view env (cd_index c) (cd_result c) (cd_actions c))) cs =
      map (\<lambda>i. (''candidate-'' @ nat_str i, fe_view env i (an_result (resps ! i)) (an_actions (resps ! i)))) [0..<length resps]"
    using assms(2,3) by (intro nth_equalityI) (auto simp: from_answer_def)
  then have "buildJudgeRequest env base cs = judge_request env base resps"
    by (simp only: buildJudgeRequest_def judge_request_def)
  then show ?thesis
    using assms(1) unfolding judge_round_def judge_heard_def
    by (auto split: if_splits option.splits sum.splits thrown.splits)
qed

section \<open>The ways a run can go\<close>

text \<open>What is appended before a run is resolved.\<close>

definition quiet :: "fusion_log \<Rightarrow> fusion_log \<Rightarrow> bool" where
  "quiet evs evs' \<longleftrightarrow>
     (\<exists>mid. evs' = evs @ mid \<and> list_all (\<lambda>e. fst e \<in> {E_FUSION_PANEL, E_RATE_LIMIT_OBSERVED, E_FUSION_CANDIDATE}) mid)"

lemma quiet_refl [simp]: "quiet evs evs"
  by (simp add: quiet_def)

lemma quiet_collect: "quiet evs evs1 \<Longrightarrow> quiet evs (snd (collect rs cs usage evs1))"
proof -
  assume "quiet evs evs1"
  moreover obtain new where "snd (collect rs cs usage evs1) = evs1 @ new" "list_all candidate_event new"
    using collect_log by blast
  ultimately show ?thesis by (auto simp: quiet_def list_all_iff candidate_event_def)
qed

text \<open>The panel has answered: its candidates and their usage.\<close>

definition panel_answers ::
    "fusion_env \<Rightarrow> fusion_profile \<Rightarrow> agent_request \<Rightarrow> panel_slot list \<Rightarrow> candidate list \<Rightarrow> js_num \<Rightarrow> bool" where
  "panel_answers env p base slots cs usage \<longleftrightarrow>
     (\<exists>sz evs1. panel_fit p = Some sz \<and> planPanel env p base (size_nat sz) = Some slots \<and> 2 \<le> length slots \<and>
        fst (collect (zip slots (snd (fe_dispatch env slots))) [] (js_int 0) evs1) = Inr (cs, usage))"

lemma runFusion_cases:
  assumes "runFusion env p base evs = (r, evs')"
  shows "(\<exists>why u panel evs2. quiet evs evs2 \<and> fusion_escalate_with env p why u panel evs2 = (r, evs')) \<or>
    (\<exists>slots cs usage evs2 budget. panel_answers env p base slots cs usage \<and> quiet evs evs2 \<and>
       after_panel env p base budget (length slots) cs usage evs2 = (r, evs'))" (is "?esc \<or> ?after")
proof -
  have esc: "?esc \<or> ?after" if "fusion_escalate_with env p why u panel evs2 = (r, evs')" "quiet evs evs2" for why u panel evs2
    using that by blast
  show ?thesis
  proof (cases "validateCostUnits (ag_cost base)")
    case (Inl e)
    then have "fusion_escalate_with env p FeInvalidResponse (js_int 0) 0 evs = (r, evs')"
      using assms by (auto simp: runFusion_def split: option.splits)
    then show ?thesis using esc by simp
  next
    case budget: (Inr budget)
    show ?thesis
    proof (cases "panel_fit p")
      case None
      then have "fusion_escalate_with env p FeBudgetCap (js_int 0) 0 evs = (r, evs')"
        using assms budget by (auto simp: runFusion_def split: option.splits)
      then show ?thesis using esc by simp
    next
      case sz: (Some sz)
      show ?thesis
      proof (cases "case planPanel env p base (size_nat sz) of None \<Rightarrow> True | Some slots \<Rightarrow> length slots < 2")
        case True
        then have "fusion_escalate_with env p FePanelDegraded (js_int 0) 0 evs = (r, evs')"
          using assms budget sz by (auto simp: runFusion_def split: option.splits)
        then show ?thesis using esc by simp
      next
        case False
        then obtain slots where slots: "planPanel env p base (size_nat sz) = Some slots" "\<not> length slots < 2"
          by (auto split: option.splits)
        obtain observed results where dis: "fe_dispatch env slots = (observed, results)" by fastforce
        define evs1 where "evs1 = (evs @ [(E_FUSION_PANEL, [(''artifact'', VStr (artifact_name (fp_artifact p))),
            (''size'', vint (int (length slots))), (''diversity'', VStr (diversity_name (fp_diversity p))),
            (''requestIds'', VArr (map (\<lambda>s. VStr (ag_id (ps_request s))) slots))])]) @
          map (\<lambda>r. (E_RATE_LIMIT_OBSERVED, rate_payload r)) observed"
        obtain c evs2 where col: "collect (zip slots results) [] (js_int 0) evs1 = (c, evs2)" by fastforce
        have "quiet evs evs1" by (auto simp: quiet_def evs1_def list_all_iff)
        then have quiet: "quiet evs evs2" using quiet_collect [of evs evs1 "zip slots results" "[]" "js_int 0"] col by simp
        have run: "(case c of
            Inl usage \<Rightarrow> fusion_escalate_with env p FeInvalidResponse usage (length slots) evs2
          | Inr (cs, usage) \<Rightarrow> after_panel env p base budget (length slots) cs usage evs2) = (r, evs')"
          using assms col [unfolded evs1_def]
          by (simp add: runFusion_def budget sz slots dis Let_def split: sum.split)
        show ?thesis
        proof (cases c)
          case (Inl usage)
          then show ?thesis using run quiet esc by simp
        next
          case (Inr x)
          obtain cs usage where x: "x = (cs, usage)" by fastforce
          have "panel_answers env p base slots cs usage"
            using sz slots dis col Inr x by (auto simp: panel_answers_def not_less intro!: exI [of _ evs1])
          then show ?thesis using run quiet Inr x by auto
        qed
      qed
    qed
  qed
qed

text \<open>The candidates as the rule sees them.\<close>

definition gated_from :: "fusion_env \<Rightarrow> fusion_profile \<Rightarrow> candidate list \<Rightarrow> candidate list \<Rightarrow> bool" where
  "gated_from env p cs gated \<longleftrightarrow>
     (if fp_artifact p = ArCodeDiff \<or> fp_artifact p = ArTests
      then (\<exists>runner. fe_gate env = Some runner \<and> run_gates runner 0 cs = Inr gated) else gated = cs)"

lemma after_panel_cases:
  assumes "after_panel env p base budget panel cs usage evs = (Inr out, evs')"
  shows "(\<exists>why u. fusion_escalate_with env p why u panel evs = (Inr out, evs')) \<or>
    (\<exists>gated u judged. 2 \<le> length cs \<and> gated_from env p cs gated \<and>
       judge_round env p base gated usage (js_sub budget usage) = JudgeDone u judged \<and>
       fusion_resolve env p gated u (js_sub budget usage) judged panel evs = (Inr out, evs'))"
  using assms unfolding after_panel_def gated_from_def Let_def
  by (auto split: if_splits sum.splits judge_result.splits)

lemma escalated_wins_nothing: "fusion_escalate_with env p why u panel evs = (Inr out, evs') \<Longrightarrow>
    fo_winner out = None \<and> fo_escalate out = Some why \<and> fo_resolved out = fp_resolve p \<and> fo_dissents out = [] \<and> fo_panel out = panel"
  by (auto simp: fusion_escalate_with_def)

lemma panel_answers_from:
  assumes "panel_answers env p base slots cs usage"
  obtains resps where "answered env p base resps" "length cs = length resps"
    "\<And>i. i < length cs \<Longrightarrow> from_answer i (resps ! i) (cs ! i)"
proof -
  obtain sz evs1 where sz: "panel_fit p = Some sz" "planPanel env p base (size_nat sz) = Some slots"
      "fst (collect (zip slots (snd (fe_dispatch env slots))) [] (js_int 0) evs1) = Inr (cs, usage)"
    using assms by (auto simp: panel_answers_def)
  then show thesis using collect_answers [OF sz(3)] by (intro that) (auto simp: answered_def)
qed

lemma gated_answers:
  assumes "gated_from env p cs gated" "i < length cs" "from_answer i resp (cs ! i)"
  shows "length gated = length cs" "from_answer i resp (gated ! i)"
    and "fp_artifact p = ArCodeDiff \<or> fp_artifact p = ArTests \<Longrightarrow> gateGreen (gated ! i) \<Longrightarrow> gate_passed env i (an_actions resp)"
proof -
  have run: "length gated = length cs \<and> (\<exists>g runner. fe_gate env = Some runner \<and> runner i (cd_actions (cs ! i)) = Inr g \<and>
      gated ! i = (cs ! i)\<lparr>cd_gate := Some g\<rparr>)" if "fp_artifact p = ArCodeDiff \<or> fp_artifact p = ArTests"
    using assms(1,2) that run_gates_nth [of _ 0 cs gated] by (auto simp: gated_from_def)
  have same: "gated = cs" if "\<not> (fp_artifact p = ArCodeDiff \<or> fp_artifact p = ArTests)"
    using assms(1) that by (auto simp: gated_from_def)
  show "length gated = length cs" using run same by metis
  show "from_answer i resp (gated ! i)"
  proof (cases "fp_artifact p = ArCodeDiff \<or> fp_artifact p = ArTests")
    case True
    then show ?thesis using run [OF True] assms(3) by (auto simp: from_answer_def)
  qed (use same assms(3) in simp)
  show "gate_passed env i (an_actions resp)" if "fp_artifact p = ArCodeDiff \<or> fp_artifact p = ArTests" "gateGreen (gated ! i)"
    using run [OF that(1)] that(2) assms(3) by (auto simp: gate_passed_def gateGreen_def from_answer_def)
qed

definition unheard :: "fusion_profile \<Rightarrow> js_val option \<Rightarrow> bool" where
  "unheard p judged \<longleftrightarrow> judgeLoadBearing (fp_artifact p) \<and> judged = None"

lemma fusion_resolve_outcome:
  assumes "fusion_resolve env p cs u left judged panel evs = (Inr out, evs')"
    and "res = (if unheard p judged
      then settled None (fp_resolve p) (Some (if js_le (fp_estimate p) left then FeJudgeInvalid else FeBudgetCap))
      else resolveMechanical (fe_json env) (fp_artifact p) cs)"
  shows "fo_winner out = rs_winner res \<and> fo_escalate out = rs_escalate res \<and> fo_resolved out = rs_resolved res \<and> fo_panel out = panel \<and>
    fo_dissents out = map (\<lambda>d. fe_put env (dissent_val d)) (rs_dissent res)"
  using assms unfolding fusion_resolve_def Let_def unheard_def by (auto simp only: prod.inject sum.inject fusion_outcome.simps)

lemma won_not_escalated: "rs_winner (resolveMechanical json a cs) \<noteq> None \<Longrightarrow> rs_escalate (resolveMechanical json a cs) = None"
  by (cases a) (auto simp: resolveCodeDiff_def resolveTests_def resolveHypotheses_def resolvePlan_def resolveReviews_def
      settled_def Let_def split: list.splits if_splits)

section \<open>What the pipeline promises\<close>

lemma code_diff_winner:
  assumes "rs_winner (resolveMechanical json ArCodeDiff cs) = Some (r, acts)"
  shows "\<exists>c \<in> set cs. gateGreen c \<and> r = cd_result c \<and> acts = cd_actions c"
proof (cases "filter gateGreen cs")
  case (Cons w ws)
  then have "w \<in> set (filter gateGreen cs)" by simp
  moreover have "r = cd_result w" "acts = cd_actions w" using assms Cons by (simp_all add: resolveCodeDiff_def settled_def)
  ultimately show ?thesis by auto
qed (use assms in \<open>simp add: resolveCodeDiff_def settled_def\<close>)

lemma add_write_set: "set (map snd (add_write w t)) \<subseteq> insert w (set (map snd t))"
  by (auto simp: add_write_def split: option.splits)

lemma add_writes_set: "set (map snd (fold add_write ws t)) \<subseteq> set (map snd t) \<union> set ws"
proof (induction ws arbitrary: t)
  case (Cons w ws)
  have "set (map snd (fold add_write (w # ws) t)) \<subseteq> set (map snd (add_write w t)) \<union> set ws"
    using Cons [of "add_write w t"] by simp
  also have "\<dots> \<subseteq> set (map snd t) \<union> set (w # ws)" using add_write_set [of w t] by auto
  finally show ?case .
qed simp

lemma tests_winner:
  assumes "rs_winner (resolveMechanical json ArTests cs) = Some (r, acts)" "a \<in> set acts"
  shows "\<exists>c \<in> set cs. gateGreen c \<and> a \<in> set (cd_actions c)"
proof -
  let ?ws = "concat (map cd_actions (filter gateGreen cs))"
  have acts: "acts = map snd (fold add_write ?ws [])"
    using assms(1) by (auto simp: resolveTests_def settled_def Let_def split: if_splits)
  show ?thesis using add_writes_set [of ?ws "[]"] assms(2) acts by auto
qed

text \<open>C18: nothing wins without its evidence. What wins came from a planned panel of which at least two gave an answer;
  a change is one answer's result and actions, unmixed, for which that answer's gate run passed; every test was proposed by
  an answer whose gate run passed; and a plan or a review wins only after the judge, sent the request about exactly these
  answers, gave an analysis of the right shape.\<close>

theorem fusion_wins_on_evidence:
  assumes "runFusion env p base evs = (Inr out, evs')" "fo_winner out = Some (r, acts)"
  shows "fo_escalate out = None \<and> (\<exists>resps. answered env p base resps \<and> 2 \<le> length resps \<and>
    (fp_artifact p = ArCodeDiff \<longrightarrow>
       (\<exists>i < length resps. r = an_result (resps ! i) \<and> acts = an_actions (resps ! i) \<and> gate_passed env i acts)) \<and>
    (fp_artifact p = ArTests \<longrightarrow>
       (\<forall>a \<in> set acts. \<exists>i < length resps. a \<in> set (an_actions (resps ! i)) \<and> gate_passed env i (an_actions (resps ! i)))) \<and>
    (judgeLoadBearing (fp_artifact p) \<longrightarrow> judge_heard env base resps))"
proof -
  obtain slots cs usage evs2 budget where panel: "panel_answers env p base slots cs usage"
      "after_panel env p base budget (length slots) cs usage evs2 = (Inr out, evs')"
    using runFusion_cases [OF assms(1)] escalated_wins_nothing assms(2) by (metis option.distinct(1))
  obtain gated u judged where after: "2 \<le> length cs" "gated_from env p cs gated"
      "judge_round env p base gated usage (js_sub budget usage) = JudgeDone u judged"
      "fusion_resolve env p gated u (js_sub budget usage) judged (length slots) evs2 = (Inr out, evs')"
    using after_panel_cases [OF panel(2)] escalated_wins_nothing assms(2) by (metis option.distinct(1))
  obtain resps where resps: "answered env p base resps" "length cs = length resps"
      "\<And>i. i < length cs \<Longrightarrow> from_answer i (resps ! i) (cs ! i)"
    using panel_answers_from [OF panel(1)] by blast
  note gated = gated_answers [OF after(2) _ resps(3)]
  have len: "length gated = length resps" using gated(1) [of 0] after(1) resps(2) by fastforce
  have from_resp: "from_answer i (resps ! i) (gated ! i)" if "i < length gated" for i using gated(2) that len resps(2) by simp
  note out = fusion_resolve_outcome [OF after(4) refl]
  have heard: "\<not> unheard p judged" using out assms(2) by (auto simp: settled_def)
  then have won: "rs_winner (resolveMechanical (fe_json env) (fp_artifact p) gated) = Some (r, acts)"
    and esc: "fo_escalate out = rs_escalate (resolveMechanical (fe_json env) (fp_artifact p) gated)"
    using out assms(2) by auto
  have "fo_escalate out = None" using won_not_escalated esc won by simp
  moreover have "\<exists>i < length resps. r = an_result (resps ! i) \<and> acts = an_actions (resps ! i) \<and> gate_passed env i acts"
    if art: "fp_artifact p = ArCodeDiff"
  proof -
    obtain i where i: "i < length gated" "gateGreen (gated ! i)" "r = cd_result (gated ! i)" "acts = cd_actions (gated ! i)"
      using code_diff_winner [OF won [unfolded art]] by (auto simp: in_set_conv_nth)
    then show ?thesis using gated(3) [of i] art from_resp [of i] len resps(2) by (auto simp: from_answer_def)
  qed
  moreover have "\<forall>a \<in> set acts. \<exists>i < length resps. a \<in> set (an_actions (resps ! i)) \<and> gate_passed env i (an_actions (resps ! i))"
    if art: "fp_artifact p = ArTests"
  proof
    fix a
    assume "a \<in> set acts"
    then obtain i where "i < length gated" "gateGreen (gated ! i)" "a \<in> set (cd_actions (gated ! i))"
      using tests_winner [OF won [unfolded art]] by (metis in_set_conv_nth)
    then show "\<exists>i < length resps. a \<in> set (an_actions (resps ! i)) \<and> gate_passed env i (an_actions (resps ! i))"
      using gated(3) [of i] art from_resp [of i] len resps(2) by (auto simp: from_answer_def)
  qed
  moreover have "judge_heard env base resps" if "judgeLoadBearing (fp_artifact p)"
    using that heard after(3) judge_round_heard [OF _ len from_resp] by (auto simp: unheard_def)
  ultimately show ?thesis using resps(1,2) after(1) by auto
qed

text \<open>C22: for the artifacts whose judge bears no load, two runs that differ only in their judge agree on the winner, on
  the rule that decided, on the reason when there is no winner, on the dissent and on the size of the panel, unless one
  of them ended on an invalid response.\<close>

theorem judge_cannot_pick_the_winner:
  assumes "runFusion env p base evs = (Inr out, evs1)" "runFusion (env\<lparr>fe_judge := judge\<rparr>) p base evs = (Inr out', evs1')"
    and "\<not> judgeLoadBearing (fp_artifact p)"
    and "fo_escalate out \<noteq> Some FeInvalidResponse" "fo_escalate out' \<noteq> Some FeInvalidResponse"
  shows "fo_winner out = fo_winner out' \<and> fo_resolved out = fo_resolved out' \<and> fo_escalate out = fo_escalate out' \<and>
    fo_dissents out = fo_dissents out' \<and> fo_panel out = fo_panel out'"
proof -
  let ?env' = "env\<lparr>fe_judge := judge\<rparr>"
  have esc: "fusion_escalate_with ?env' = fusion_escalate_with env" by (intro ext) (simp add: fusion_escalate_with_def)
  have plan: "planPanel ?env' p base n = planPanel env p base n" for n by (simp add: planPanel_def)
  have after: "fo_winner o1 = fo_winner o2 \<and> fo_resolved o1 = fo_resolved o2 \<and> fo_escalate o1 = fo_escalate o2 \<and>
      fo_dissents o1 = fo_dissents o2 \<and> fo_panel o1 = fo_panel o2"
    if runs: "after_panel env p base budget panel cs usage l = (Inr o1, l1)"
      "after_panel ?env' p base budget panel cs usage l = (Inr o2, l2)"
      "fo_escalate o1 \<noteq> Some FeInvalidResponse" "fo_escalate o2 \<noteq> Some FeInvalidResponse"
    for budget panel cs usage l o1 l1 o2 l2
  proof -
    have not: "\<not> unheard p judged" for judged using assms(3) by (simp add: unheard_def)
    show ?thesis
      using runs unfolding after_panel_def Let_def esc
      by (auto split: if_splits sum.splits judge_result.splits option.splits
          dest!: escalated_wins_nothing fusion_resolve_outcome [OF _ refl] simp: not)
  qed
  show ?thesis
    using assms(1,2,4,5) unfolding runFusion_def esc plan
    by (auto simp: Let_def split: sum.splits option.splits if_splits prod.splits dest: after)
qed

section \<open>The log tells the outcome\<close>

lemma rule_escalates: "rs_escalate (resolveMechanical json a cs) \<in> {None, Some FeNoGateSurvivor, Some FePanelDegraded}"
  by (cases a) (auto simp: resolveCodeDiff_def resolveTests_def resolveHypotheses_def resolvePlan_def resolveReviews_def
      settled_def Let_def split: list.splits)

definition reported :: "fusion_outcome \<Rightarrow> fusion_log \<Rightarrow> fusion_log \<Rightarrow> bool" where
  "reported out evs evs' \<longleftrightarrow>
     (\<exists>mid fields. evs' = evs @ mid @ [(E_FUSION_RESOLVED, fields)] @
          (if fo_escalate out = Some FeInvalidResponse then [(E_ESCALATED, [(''why'', VStr ''invalid_response'')])] else []) \<and>
        E_FUSION_RESOLVED \<notin> fst ` set mid \<and>
        fields_get fields ''winner'' = VBool (fo_winner out \<noteq> None) \<and>
        fields_get fields ''escalateReason'' = (case fo_escalate out of None \<Rightarrow> VUndef | Some w \<Rightarrow> VStr (escalate_name w)) \<and>
        map (\<lambda>e. fields_get (snd e) ''evidenceRef'') (filter (\<lambda>e. fst e = E_FUSION_DISSENT) mid) = map VStr (fo_dissents out))"

lemma quiet_mid:
  "list_all (\<lambda>e. fst e \<in> {E_FUSION_PANEL, E_RATE_LIMIT_OBSERVED, E_FUSION_CANDIDATE}) mid \<Longrightarrow>
    E_FUSION_RESOLVED \<notin> fst ` set mid \<and> filter (\<lambda>e. fst e = E_FUSION_DISSENT) mid = []"
  by (fastforce simp: list_all_iff filter_empty_conv)

lemma escalate_reported:
  assumes "quiet evs evs2" "fusion_escalate_with env p why u panel evs2 = (Inr out, evs')"
  shows "reported out evs evs'"
proof -
  obtain mid where mid: "evs2 = evs @ mid"
      "list_all (\<lambda>e. fst e \<in> {E_FUSION_PANEL, E_RATE_LIMIT_OBSERVED, E_FUSION_CANDIDATE}) mid"
    using assms(1) by (auto simp: quiet_def)
  show ?thesis unfolding reported_def
    by (rule exI [of _ mid], rule exI)
      (use assms(2) mid(1) quiet_mid [OF mid(2)] in \<open>auto simp: fusion_escalate_with_def fields_get_def\<close>)
qed

lemma resolve_reported:
  assumes "quiet evs evs2" "fusion_resolve env p cs u left judged panel evs2 = (Inr out, evs')"
  shows "reported out evs evs'"
proof -
  obtain mid where mid: "evs2 = evs @ mid"
      "list_all (\<lambda>e. fst e \<in> {E_FUSION_PANEL, E_RATE_LIMIT_OBSERVED, E_FUSION_CANDIDATE}) mid"
    using assms(1) by (auto simp: quiet_def)
  define res where "res = (if unheard p judged
      then settled None (fp_resolve p) (Some (if js_le (fp_estimate p) left then FeJudgeInvalid else FeBudgetCap))
      else resolveMechanical (fe_json env) (fp_artifact p) cs)"
  define ds where "ds = map (\<lambda>d. (E_FUSION_DISSENT, [(''finding'', VStr (di_finding d)),
            (''raisedBy'', VArr (map (\<lambda>i. vint (int i)) (di_raised d))), (''evidenceRef'', VStr (fe_put env (dissent_val d)))]))
            (rs_dissent res)"
  define fields where "fields = [(''artifact'', VStr (artifact_name (fp_artifact p))), (''resolved'', VStr (rule_name (rs_resolved res))),
             (''winner'', VBool (rs_winner res \<noteq> None))] @
            (case rs_escalate res of Some w \<Rightarrow> [(''escalateReason'', VStr (escalate_name w))] | None \<Rightarrow> []) @
            (if rs_marker res = Some True then [(''escalationMarker'', VBool True)] else []) @
            [(''dissentCount'', vint (int (length (map (\<lambda>d. fe_put env (dissent_val d)) (rs_dissent res)))))]"
  have evs': "evs' = evs2 @ ds @ [(E_FUSION_RESOLVED, fields)]"
    using assms(2) unfolding fusion_resolve_def Let_def unheard_def [symmetric] res_def [symmetric] ds_def fields_def
    by (simp only: prod.inject)
  note out = fusion_resolve_outcome [OF assms(2) res_def]
  have "fo_escalate out \<noteq> Some FeInvalidResponse"
    using out rule_escalates [of "fe_json env" "fp_artifact p" cs] by (auto simp: res_def settled_def)
  moreover have "E_FUSION_RESOLVED \<notin> fst ` set (mid @ ds)" using quiet_mid [OF mid(2)] by (auto simp: ds_def)
  moreover have "fields_get fields ''winner'' = VBool (fo_winner out \<noteq> None)"
    "fields_get fields ''escalateReason'' = (case fo_escalate out of None \<Rightarrow> VUndef | Some w \<Rightarrow> VStr (escalate_name w))"
    using out by (auto simp: fields_def fields_get_def split: option.split)
  moreover have "map (\<lambda>e. fields_get (snd e) ''evidenceRef'') (filter (\<lambda>e. fst e = E_FUSION_DISSENT) (mid @ ds)) = map VStr (fo_dissents out)"
    using quiet_mid [OF mid(2)] out by (simp add: ds_def filter_map comp_def fields_get_def)
  ultimately show ?thesis unfolding reported_def
    by (intro exI [of _ "mid @ ds"] exI [of _ fields]) (simp add: evs' mid(1))
qed

lemma after_panel_reported:
  assumes "quiet evs evs2" "after_panel env p base budget panel cs usage evs2 = (Inr out, evs')"
  shows "reported out evs evs'"
  using after_panel_cases [OF assms(2)]
  by (elim disjE exE conjE) (auto intro: escalate_reported [OF assms(1)] resolve_reported [OF assms(1)])

text \<open>Every run that ends reports itself once: the last thing it appends is its resolution, which says whether
  something won and why not otherwise, after one dissent event for each piece of evidence it put away; only
  an invalid response is escalated beyond that.\<close>

theorem fusion_reports_its_outcome:
  assumes "runFusion env p base evs = (Inr out, evs')"
  shows "\<exists>mid fields. evs' = evs @ mid @ [(E_FUSION_RESOLVED, fields)] @
      (if fo_escalate out = Some FeInvalidResponse then [(E_ESCALATED, [(''why'', VStr ''invalid_response'')])] else []) \<and>
    E_FUSION_RESOLVED \<notin> fst ` set mid \<and>
    fields_get fields ''winner'' = VBool (fo_winner out \<noteq> None) \<and>
    fields_get fields ''escalateReason'' = (case fo_escalate out of None \<Rightarrow> VUndef | Some w \<Rightarrow> VStr (escalate_name w)) \<and>
    map (\<lambda>e. fields_get (snd e) ''evidenceRef'') (filter (\<lambda>e. fst e = E_FUSION_DISSENT) mid) = map VStr (fo_dissents out)"
  using runFusion_cases [OF assms] unfolding reported_def [symmetric]
  by (elim disjE exE conjE) (auto intro: escalate_reported after_panel_reported)

section \<open>A concrete panel\<close>

definition toy_request :: agent_request where
  "toy_request = \<lparr>ag_id = ''q'', ag_role = Implementer, ag_objective = ''do'', ag_pieces = [], ag_bytes = 0, ag_schema = VObj [],
     ag_cost = vint 100, ag_seed = None\<rparr>"

definition toy_adapter :: registered_adapter where
  "toy_adapter = \<lparr>ra_manifest = \<lparr>cm_adapter = ''a'', cm_structured = True, cm_tools = False, cm_window = js_int 1000,
       cm_determinism = DetNone, cm_lineage = Some ''l''\<rparr>,
     ra_record = \<lparr>cf_adapter = ''a'', cf_model = ''m'', cf_probes = [], cf_p7 = js_int 0\<rparr>,
     ra_stale = False, ra_susceptibility = js_int 0, ra_lineage = ''l'', ra_probed = False\<rparr>"

definition toy_answer :: "string \<Rightarrow> int \<Rightarrow> agent_response" where
  "toy_answer f cost = \<lparr>an_result = VObj (map (\<lambda>k. (k, VArr [])) DELIBERATION_KEYS), an_actions = [WriteFile ''w'' f ''blob''],
     an_usage = VObj [(''costUnits'', vint cost)], an_adapter = ''a''\<rparr>"

definition toy_gate :: "nat \<Rightarrow> action list \<Rightarrow> string + gate_report" where
  "toy_gate i acts = Inr \<lparr>gr_tier = T0, gr_pass = (if i = 0 then GateFail else GatePass), gr_config_hash = [], gr_commit_hash = [],
     gr_worktree_hash = [], gr_artifact_commit = None, gr_base_commit = None, gr_merged_commit = None, gr_env_hash = [],
     gr_checks = [], gr_scope_note = []\<rparr>"

text \<open>The first candidate fails its gates, the second passes; the judge charges what it is told.\<close>

definition toy_judge :: "int option \<Rightarrow> (nat \<Rightarrow> agent_request \<Rightarrow> thrown + agent_response) option" where
  "toy_judge charge = map_option (\<lambda>n _ _. Inr (toy_answer [] n)) charge"

definition toy_env :: "int option \<Rightarrow> fusion_env" where
  "toy_env charge = \<lparr>fe_put = (\<lambda>_. ''blob''), fe_eligible = (\<lambda>_. [toy_adapter]),
     fe_dispatch = (\<lambda>_. ([], [Inr (toy_answer ''a.ts'' 1), Inr (toy_answer ''b.ts'' 1)])), fe_gate = Some toy_gate,
     fe_judge = toy_judge charge, fe_judge_id = ''j'', fe_view = (\<lambda>_ _ _. []), fe_shw = (\<lambda>_. []), fe_json = (\<lambda>_. [])\<rparr>"

definition toy_profile :: "artifact \<Rightarrow> fusion_profile" where
  "toy_profile a = \<lparr>fp_artifact = a, fp_size = js_int 2, fp_diversity = SelfSeeds [js_int 1, js_int 2], fp_resolve = RESOLVE_FOR a,
     fp_cap = js_int 10, fp_estimate = js_int 1\<rparr>"

definition toy_run :: "int option \<Rightarrow> artifact \<Rightarrow> fusion_result" where
  "toy_run charge a = runFusion (toy_env charge) (toy_profile a) toy_request []"

lemma toy_fit: "panel_fit (toy_profile a) = Some (js_int 2)"
  using js_of_rat_int [of 2] by (simp add: panel_fit_def toy_profile_def)

lemma toy_plan: "planPanel (toy_env charge) (toy_profile a) toy_request 2 =
    Some [panel_slot_of toy_request toy_adapter 0 (Some (js_int 1)), panel_slot_of toy_request toy_adapter 1 (Some (js_int 2))]"
  by (simp add: planPanel_def toy_env_def toy_profile_def uniq_def upt_rec numeral_2_eq_2)

definition toy_candidate :: "nat \<Rightarrow> string \<Rightarrow> gate_report option \<Rightarrow> candidate" where
  "toy_candidate i f g = \<lparr>cd_index = i, cd_request = ''q#fp'' @ nat_str i, cd_adapter = ''a'', cd_lineage = ''l'',
     cd_result = an_result (toy_answer f 1), cd_actions = [WriteFile ''w'' f ''blob''], cd_usage = js_int 1, cd_gate = g\<rparr>"

lemma toy_usage: "usageOf (toy_answer f n) = vint n"
  by (simp add: usageOf_def toy_answer_def fields_get_def)

lemma toy_collect:
  "fst (collect (zip [panel_slot_of toy_request toy_adapter 0 s, panel_slot_of toy_request toy_adapter 1 s']
      [Inr (toy_answer ''a.ts'' 1), Inr (toy_answer ''b.ts'' 1)]) [] (js_int 0) evs) =
    Inr ([toy_candidate 0 ''a.ts'' None, toy_candidate 1 ''b.ts'' None], js_int 2)"
  by (simp add: toy_usage addCostUnits_def js_simps) (simp add: toy_candidate_def toy_answer_def panel_slot_of_def toy_request_def toy_adapter_def)

lemma toy_schema: "validateAgainstSchema (\<lambda>_. []) (\<lambda>_. []) (an_result (toy_answer f n)) DELIBERATION_ANALYSIS_SCHEMA = []"
  unfolding toy_answer_def agent_answer.simps by code_simp

lemma toy_panel:
  "\<exists>evs2. toy_run charge a = after_panel (toy_env charge) (toy_profile a) toy_request (js_int 100) 2
    [toy_candidate 0 ''a.ts'' None, toy_candidate 1 ''b.ts'' None] (js_int 2) evs2"
proof -
  let ?slots = "[panel_slot_of toy_request toy_adapter 0 (Some (js_int 1)), panel_slot_of toy_request toy_adapter 1 (Some (js_int 2))]"
  define evs1 where "evs1 = [(E_FUSION_PANEL, [(''artifact'', VStr (artifact_name (fp_artifact (toy_profile a)))),
      (''size'', vint (int (length ?slots))), (''diversity'', VStr (diversity_name (fp_diversity (toy_profile a)))),
      (''requestIds'', VArr (map (\<lambda>s. VStr (ag_id (ps_request s))) ?slots))])]"
  obtain c evs2 where col: "collect (zip ?slots [Inr (toy_answer ''a.ts'' 1), Inr (toy_answer ''b.ts'' 1)]) [] (js_int 0) evs1 = (c, evs2)"
    by fastforce
  then have c: "c = Inr ([toy_candidate 0 ''a.ts'' None, toy_candidate 1 ''b.ts'' None], js_int 2)"
    using toy_collect [of "Some (js_int 1)" "Some (js_int 2)" evs1] by simp
  have valid: "validateCostUnits (ag_cost toy_request) = Inr (js_int 100)" by (simp add: toy_request_def)
  have dispatched: "fe_dispatch (toy_env charge) slots = ([], [Inr (toy_answer ''a.ts'' 1), Inr (toy_answer ''b.ts'' 1)])" for slots
    by (simp add: toy_env_def)
  have two: "size_nat (js_int 2) = 2" by simp
  have "toy_run charge a = after_panel (toy_env charge) (toy_profile a) toy_request (js_int 100) (Suc (Suc 0))
    [toy_candidate 0 ''a.ts'' None, toy_candidate 1 ''b.ts'' None] (js_int 2) evs2"
    using col [unfolded evs1_def c]
    by (simp add: toy_run_def runFusion_def valid toy_fit two toy_plan dispatched Let_def del: collect.simps zip_Cons_Cons)
  then show ?thesis unfolding numeral_2_eq_2 by blast
qed

definition toy_gated :: "candidate list" where
  "toy_gated = [toy_candidate 0 ''a.ts'' (Some (projr (toy_gate 0 []))), toy_candidate 1 ''b.ts'' (Some (projr (toy_gate 1 [])))]"

lemma toy_gates: "run_gates toy_gate 0 [toy_candidate 0 ''a.ts'' None, toy_candidate (Suc 0) ''b.ts'' None] = Inr toy_gated"
  by (simp add: toy_gate_def toy_gated_def toy_candidate_def)

lemma toy_judged:
  "judge_round (toy_env None) (toy_profile a) base cs (js_int 2) (js_int 98) = JudgeDone (js_int 2) None"
  "\<exists>v. judge_round (toy_env (Some 1)) (toy_profile a) base cs (js_int 2) (js_int 98) = JudgeDone (js_int 3) (Some v)"
  "judge_round (toy_env (Some (- 1))) (toy_profile a) base cs (js_int 2) (js_int 98) = JudgeEscalates (js_int 2)"
  by (simp_all add: judge_round_def toy_env_def toy_judge_def toy_profile_def proposeWithRepair_def toy_usage chargeUsage_def
      addCostUnits_def js_simps repair_rounds.simps toy_schema buildJudgeRequest_def Let_def po_valid_def)

lemma toy_left: "js_sub (js_int 100) (js_int 2) = js_int 98"
  by (simp add: js_sub_def js_simps)

definition winning_actions :: "fusion_result \<Rightarrow> action list option" where
  "winning_actions r = (case fst r of Inl _ \<Rightarrow> None | Inr out \<Rightarrow> map_option snd (fo_winner out))"

lemma toy_resolves:
  assumes "judge_round (toy_env charge) (toy_profile ArCodeDiff) toy_request toy_gated (js_int 2) (js_int 98) = JudgeDone u judged"
  shows "\<exists>out evs. toy_run charge ArCodeDiff = (Inr out, evs) \<and> fo_escalate out = None \<and>
    fo_winner out = Some (an_result (toy_answer ''b.ts'' 1), [WriteFile ''w'' ''b.ts'' ''blob''])"
proof -
  obtain evs2 where run: "toy_run charge ArCodeDiff = after_panel (toy_env charge) (toy_profile ArCodeDiff) toy_request (js_int 100) 2
    [toy_candidate 0 ''a.ts'' None, toy_candidate 1 ''b.ts'' None] (js_int 2) evs2"
    using toy_panel by blast
  have env: "fe_gate (toy_env charge) = Some toy_gate" by (simp add: toy_env_def)
  have art: "fp_artifact (toy_profile ArCodeDiff) = ArCodeDiff" by (simp add: toy_profile_def)
  have "toy_run charge ArCodeDiff =
      fusion_resolve (toy_env charge) (toy_profile ArCodeDiff) toy_gated u (js_int 98) judged 2 evs2"
    unfolding run after_panel_def Let_def env toy_left
    by (simp add: toy_gates assms [simplified] art del: run_gates.simps)
  moreover have "resolveMechanical json ArCodeDiff toy_gated =
      settled (Some (an_result (toy_answer ''b.ts'' 1), [WriteFile ''w'' ''b.ts'' ''blob''])) EvidenceTournament None" for json
    by (simp add: resolveCodeDiff_def toy_gated_def gateGreen_def toy_candidate_def toy_gate_def)
  moreover obtain out evs where "fusion_resolve (toy_env charge) (toy_profile ArCodeDiff) toy_gated u (js_int 98) judged 2 evs2 = (Inr out, evs)"
    by (simp add: fusion_resolve_def Let_def)
  moreover note fusion_resolve_outcome [OF this refl]
  ultimately show ?thesis by (simp add: unheard_def judgeLoadBearing_def toy_profile_def settled_def)
qed

text \<open>A judge that reports a negative usage turns a green winner into an escalation.\<close>

lemma hostile_judge_blocks_a_green_change:
  "winning_actions (toy_run (Some 1) ArCodeDiff) = Some [WriteFile ''w'' ''b.ts'' ''blob''] \<and>
   winning_actions (toy_run None ArCodeDiff) = Some [WriteFile ''w'' ''b.ts'' ''blob''] \<and>
   winning_actions (toy_run (Some (- 1)) ArCodeDiff) = None"
proof -
  obtain evs2 where run: "toy_run (Some (- 1)) ArCodeDiff = after_panel (toy_env (Some (- 1))) (toy_profile ArCodeDiff) toy_request (js_int 100) 2
    [toy_candidate 0 ''a.ts'' None, toy_candidate 1 ''b.ts'' None] (js_int 2) evs2"
    using toy_panel by blast
  have env: "fe_gate (toy_env charge) = Some toy_gate" for charge by (simp add: toy_env_def)
  have "winning_actions (toy_run (Some (- 1)) ArCodeDiff) = None"
    unfolding run after_panel_def Let_def env toy_left
    by (simp add: toy_gates toy_judged [simplified] winning_actions_def fusion_escalate_with_def del: run_gates.simps)
  moreover obtain v where "judge_round (toy_env (Some 1)) (toy_profile ArCodeDiff) toy_request toy_gated (js_int 2) (js_int 98) =
      JudgeDone (js_int 3) (Some v)"
    using toy_judged(2) by blast
  ultimately show ?thesis using toy_resolves toy_judged(1) by (force simp: winning_actions_def)
qed

theorem fusion_wins_on_evidence_witness:
  "\<exists>resps i. answered (toy_env None) (toy_profile ArCodeDiff) toy_request resps \<and> 2 \<le> length resps \<and> i < length resps \<and>
    an_actions (resps ! i) = [WriteFile ''w'' ''b.ts'' ''blob''] \<and> gate_passed (toy_env None) i [WriteFile ''w'' ''b.ts'' ''blob'']"
proof -
  obtain out evs where "toy_run None ArCodeDiff = (Inr out, evs)"
      "fo_winner out = Some (an_result (toy_answer ''b.ts'' 1), [WriteFile ''w'' ''b.ts'' ''blob''])"
    using toy_resolves [OF toy_judged(1)] by blast
  from fusion_wins_on_evidence [OF this(1) [unfolded toy_run_def] this(2)] obtain resps i where
    "answered (toy_env None) (toy_profile ArCodeDiff) toy_request resps" "2 \<le> length resps" "i < length resps"
    "[WriteFile ''w'' ''b.ts'' ''blob''] = an_actions (resps ! i)" "gate_passed (toy_env None) i [WriteFile ''w'' ''b.ts'' ''blob'']"
    by (auto simp: toy_profile_def)
  then show ?thesis by metis
qed

theorem judge_cannot_pick_the_winner_witness:
  "\<exists>out out' evs evs'. toy_run None ArCodeDiff = (Inr out, evs) \<and> toy_run (Some 1) ArCodeDiff = (Inr out', evs') \<and>
    fo_winner out = fo_winner out' \<and> fo_winner out \<noteq> None"
proof -
  obtain out evs where out: "toy_run None ArCodeDiff = (Inr out, evs)" "fo_escalate out = None" "fo_winner out \<noteq> None"
    using toy_resolves [OF toy_judged(1)] by auto
  obtain v where "judge_round (toy_env (Some 1)) (toy_profile ArCodeDiff) toy_request toy_gated (js_int 2) (js_int 98) =
      JudgeDone (js_int 3) (Some v)"
    using toy_judged(2) by blast
  from toy_resolves [OF this] obtain out' evs' where out': "toy_run (Some 1) ArCodeDiff = (Inr out', evs')" "fo_escalate out' = None"
    by blast
  have env: "toy_env (Some 1) = (toy_env None)\<lparr>fe_judge := toy_judge (Some 1)\<rparr>" by (simp add: toy_env_def)
  have "fo_winner out = fo_winner out'"
    using judge_cannot_pick_the_winner [OF out(1) [unfolded toy_run_def] out'(1) [unfolded toy_run_def env]] out(2) out'(2)
    by (simp add: toy_profile_def judgeLoadBearing_def)
  then show ?thesis using out out' by blast
qed

theorem fusion_reports_its_outcome_witness:
  "\<exists>out mid fields. toy_run None ArCodeDiff = (Inr out, mid @ [(E_FUSION_RESOLVED, fields)]) \<and> fields_get fields ''winner'' = VBool True"
proof -
  obtain out evs where out: "toy_run None ArCodeDiff = (Inr out, evs)" "fo_escalate out = None" "fo_winner out \<noteq> None"
    using toy_resolves [OF toy_judged(1)] by auto
  from fusion_reports_its_outcome [OF out(1) [unfolded toy_run_def]] show ?thesis using out by auto
qed

section \<open>A concrete repair\<close>

definition toy_schema_request :: agent_request where
  "toy_schema_request = toy_request\<lparr>ag_schema := DELIBERATION_ANALYSIS_SCHEMA\<rparr>"

text \<open>The first answer is no analysis; what the second call does is an argument.\<close>

definition second_send :: "thrown + agent_response \<Rightarrow> nat \<Rightarrow> agent_request \<Rightarrow> thrown + agent_response" where
  "second_send r i req = (if i = 0 then Inr (toy_answer [] 7\<lparr>an_result := VNull\<rparr>) else r)"

lemma toy_first: "validateAgainstSchema (\<lambda>_. []) (\<lambda>_. []) VNull DELIBERATION_ANALYSIS_SCHEMA = [''expected type object, got null'']"
  by code_simp

text \<open>When the second call fails in transport, the usage of the first, seven units, is in no outcome.\<close>

lemma repair_drops_the_usage_of_a_failed_round:
  "proposeWithRepair (\<lambda>_. []) (\<lambda>_. []) (second_send (Inl (ThrownAdapter \<lparr>ae_kind = AeTransport, ae_message = ''down''\<rparr>)))
     toy_schema_request 1 = Inl (ThrownAdapter \<lparr>ae_kind = AeTransport, ae_message = ''down''\<rparr>)"
  by (simp add: proposeWithRepair_def second_send_def toy_schema_request_def toy_first repair_rounds.simps chargeUsage_def
      usageOf_def toy_answer_def fields_get_def addCostUnits_def js_simps)

lemma toy_first_usage: "usageOf (toy_answer [] 7\<lparr>an_result := VNull\<rparr>) = vint 7"
  by (simp add: usageOf_def toy_answer_def fields_get_def)

lemma toy_repaired:
  "\<exists>res. proposeWithRepair (\<lambda>_. []) (\<lambda>_. []) (second_send (Inr (toy_answer [] 5))) toy_schema_request 1 = Inr res \<and>
     po_total res = js_int 12 \<and> po_rounds res = 1"
  by (simp add: proposeWithRepair_def second_send_def toy_schema_request_def toy_first repair_rounds.simps chargeUsage_def
      toy_schema toy_usage toy_first_usage addCostUnits_def js_simps)

theorem repair_is_bounded_and_charged_witness:
  "\<exists>answers :: agent_response list. length answers = 2 \<and> charges (js_int 0) (map usageOf answers) = Inr (js_int 12) \<and>
    validateAgainstSchema (\<lambda>_. []) (\<lambda>_. []) (an_result (answers ! 0)) DELIBERATION_ANALYSIS_SCHEMA \<noteq> []"
proof -
  obtain res where res: "proposeWithRepair (\<lambda>_. []) (\<lambda>_. []) (second_send (Inr (toy_answer [] 5))) toy_schema_request 1 = Inr res"
      "po_total res = js_int 12" "po_rounds res = 1"
    using toy_repaired by blast
  have "ag_schema toy_schema_request = DELIBERATION_ANALYSIS_SCHEMA" by (simp add: toy_schema_request_def)
  with repair_is_bounded_and_charged [of "\<lambda>_. []" "\<lambda>_. []" toy_schema_request "second_send (Inr (toy_answer [] 5))" 1]
  show ?thesis using res by (auto simp: Let_def numeral_2_eq_2)
qed

end
