(* ===== verification/Json.thy ===== *)
theory Json
  imports Prelude "HOL-Library.AList" "HOL-Library.Countable"
begin

text \<open>
  Objects and their texts. \<open>o[k] = v\<close> updates in place or appends, as \<open>AList.update\<close> does. JSON itself is
  an argument of the models; a hypothesis about it needs a function it holds of, and for the concrete instances
  the text of a value is a number written in unary.
\<close>

lemma fields_get_update [simp]:
  "fields_get (AList.update k v fs) k' = (if k' = k then v else fields_get fs k')"
  by (simp add: fields_get_def update_conv')

lemma update_sub: "f \<in> set (AList.update k v al) \<Longrightarrow> f = (k, v) \<or> f \<in> set al"
  by (induction al) (auto split: if_splits)

lemma delete_sub: "f \<in> set (AList.delete k al) \<Longrightarrow> f \<in> set al"
  by (induction al) (auto split: if_splits)

instance js_num :: countable
  by countable_datatype

instance js_val :: countable
  by countable_datatype

definition unary :: "js_val \<Rightarrow> string" where
  "unary v = replicate (to_nat v) (CHR ''1'')"

definition from_unary :: "string \<Rightarrow> js_val option" where
  "from_unary s = Some (from_nat (length s))"

lemma unary_inj: "unary v = unary w \<longleftrightarrow> v = w"
  by (simp add: unary_def)

lemma from_unary_unary [simp]: "from_unary (unary v) = Some v"
  by (simp add: from_unary_def unary_def)

end
