(* ===== verification/ReportIntegrity.thy ===== *)
theory ReportIntegrity
  imports Authenticator Json
begin

text \<open>
  Signed gate reports (\<open>core/src/gates/report-integrity.ts\<close>). A report is whatever value the caller or the
  parser hands over; it is bound to the run, the task, the content its checks refer to and the run's key.
  The store is the directory of \<open>Evidence\<close>, the signer the one of \<open>Authenticator\<close>.
\<close>

section \<open>Errors\<close>

datatype integrity_code =
    ReportMalformed | ReportIdentityMismatch | ArtifactIdentityMissing | ArtifactIdentityMismatch
  | EvidenceReferenceMissing | EvidenceReferenceInvalid | EvidenceBlobMissing | EvidenceHashMismatch
  | ContentHashMissing | ContentHashMismatch | SignatureMissing | SignatureMismatch | PublicKeyMismatch

text \<open>The second alternative is an error that is not one of the module's own.\<close>

datatype integrity_error = IntegrityError integrity_code | IntegrityRaised string

definition integrity_reason_of :: "integrity_code \<Rightarrow> auth_reason" where
  "integrity_reason_of code =
     (if code = EvidenceBlobMissing \<or> code = EvidenceReferenceMissing then AuthUnavailable else AuthMismatch)"

fun mapStoreError :: "store_error \<Rightarrow> integrity_code" where
  "mapStoreError (StoreError code) =
     (if code = MissingBlob then EvidenceBlobMissing
      else if code = InvalidRef then EvidenceReferenceInvalid else EvidenceHashMismatch)"
| "mapStoreError (DiskError _) = ReportMalformed"

record report_identity =
  ri_run :: string
  ri_task :: string

text \<open>\<open>ie_parse\<close> decodes and parses; \<open>ie_stringify\<close> and \<open>ie_encode\<close> are what the canonical bytes are made of.\<close>

record ('pk, 'sk) integrity =
  ie_sha :: "string \<Rightarrow> string"
  ie_crypto :: "('pk, 'sk) crypto"
  ie_auth :: "('pk, 'sk) authenticator"
  ie_stringify :: "js_val \<Rightarrow> string"
  ie_encode :: "string \<Rightarrow> string"
  ie_parse :: "string \<Rightarrow> js_val option"

section \<open>What is signed\<close>

fun withoutAuth :: "js_val \<Rightarrow> js_val" where
  "withoutAuth (VObj fs) = VObj (filter (\<lambda>f. fst f \<noteq> ''auth'') fs)"
| "withoutAuth v = v"

definition signed_value :: "js_val \<Rightarrow> js_val \<Rightarrow> js_val" where
  "signed_value report evidence =
     VObj [(''version'', VStr ''gate-report-v1''), (''report'', withoutAuth report), (''evidence'', evidence)]"

definition signedBytes :: "('pk, 'sk) integrity \<Rightarrow> js_val \<Rightarrow> js_val \<Rightarrow> integrity_error + string" where
  "signedBytes env report evidence =
     (case canonicalEvidenceBytes (ie_stringify env) (ie_encode env) (signed_value report evidence) of
        Inl path \<Rightarrow> Inl (IntegrityRaised path)
      | Inr bytes \<Rightarrow> Inr bytes)"

definition nonempty_str :: "js_val \<Rightarrow> bool" where
  "nonempty_str v \<longleftrightarrow> is_str v \<and> v \<noteq> VStr []"

fun is_array :: "js_val \<Rightarrow> bool" where
  "is_array (VArr _) = True"
| "is_array _ = False"

definition validateReportShape :: "js_val \<Rightarrow> bool" where
  "validateReportShape r \<longleftrightarrow>
     nonempty_str (val_get r ''runId'') \<and> nonempty_str (val_get r ''taskId'') \<and>
     val_get r ''tier'' \<in> set (map VStr [''T0'', ''T1'', ''T2'', ''T3'']) \<and>
     val_get r ''pass'' \<in> set [VBool True, VBool False, VStr ''not_enabled''] \<and>
     list_all (\<lambda>k. is_str (val_get r k)) [''gateConfigHash'', ''commitHash'', ''worktreeHash'', ''envHash'', ''scopeNote''] \<and>
     is_array (val_get r ''checks'')"

section \<open>Evidence\<close>

definition dereference :: "('pk, 'sk) integrity \<Rightarrow> blob_dir \<Rightarrow> string \<Rightarrow> integrity_error + string" where
  "dereference env dir ref =
     (case get (ie_sha env) ref dir of Inl e \<Rightarrow> Inl (IntegrityError (mapStoreError e)) | Inr bytes \<Rightarrow> Inr bytes)"

text \<open>\<open>for (const check of report.checks)\<close>: a string yields its characters, other values are not iterable.\<close>

fun iterated :: "js_val \<Rightarrow> integrity_error + js_val list" where
  "iterated (VArr vs) = Inr vs"
| "iterated (VStr s) = Inr (map (\<lambda>c. VStr [c]) s)"
| "iterated _ = Inl (IntegrityRaised ''TypeError'')"

definition check_evidence :: "('pk, 'sk) integrity \<Rightarrow> blob_dir \<Rightarrow> js_val \<Rightarrow> integrity_error + string \<times> string" where
  "check_evidence env dir check =
     (if check = VUndef \<or> check = VNull then Inl (IntegrityRaised ''TypeError'')
      else
        (case val_get check ''evidenceRef'' of
           VStr ref \<Rightarrow>
             if ref = [] then Inl (IntegrityError EvidenceReferenceMissing)
             else e_bind (dereference env dir ref) (\<lambda>bytes. Inr (ref, ie_sha env bytes))
         | _ \<Rightarrow> Inl (IntegrityError EvidenceReferenceMissing)))"

text \<open>The stable sort by reference, then by hash.\<close>

definition collectEvidence :: "('pk, 'sk) integrity \<Rightarrow> blob_dir \<Rightarrow> js_val \<Rightarrow> integrity_error + (string \<times> string) list" where
  "collectEvidence env dir report =
     e_bind (iterated (val_get report ''checks'')) (\<lambda>checks.
     e_bind (e_map (check_evidence env dir) checks) (\<lambda>collected.
     Inr (sort_key fst (sort_key snd collected))))"

definition evidence_entry :: "string \<times> string \<Rightarrow> js_val" where
  "evidence_entry e = VObj [(''evidenceRef'', VStr (fst e)), (''sha256'', VStr (snd e))]"

definition same_entry :: "js_val \<times> (string \<times> string) \<Rightarrow> bool" where
  "same_entry p =
     (val_get (fst p) ''evidenceRef'' = VStr (fst (snd p)) \<and> val_get (fst p) ''sha256'' = VStr (snd (snd p)))"

section \<open>Signing and verifying\<close>

definition auth_supported :: "js_val \<Rightarrow> bool" where
  "auth_supported auth \<longleftrightarrow>
     val_get auth ''version'' = VStr ''gate-report-v1'' \<and> val_get auth ''algorithm'' = VStr ''Ed25519'' \<and>
     nonempty_str (val_get auth ''signatureBase64'')"

text \<open>The hashes of the report against the content its checks refer to now.\<close>

definition verify_content :: "('pk, 'sk) integrity \<Rightarrow> blob_dir \<Rightarrow> js_val \<Rightarrow> js_val \<Rightarrow> integrity_error + unit" where
  "verify_content env dir report evidence =
     e_bind (collectEvidence env dir report) (\<lambda>actual.
     case evidence of
       VArr entries \<Rightarrow>
         if length entries < length actual then Inl (IntegrityError ContentHashMissing)
         else if length entries \<noteq> length actual then Inl (IntegrityError ContentHashMismatch)
         else if list_all same_entry (zip entries actual) then Inr ()
         else Inl (IntegrityError ContentHashMismatch)
     | _ \<Rightarrow> Inl (IntegrityError ContentHashMissing))"

definition verifyGateReport :: "('pk, 'sk) integrity \<Rightarrow> blob_dir \<Rightarrow> report_identity \<Rightarrow> js_val \<Rightarrow> integrity_error + js_val" where
  "verifyGateReport env dir ident report =
     (if \<not> is_record report then Inl (IntegrityError ReportMalformed)
      else
        let auth = val_get report ''auth'' in
        if auth = VNull then Inl (IntegrityRaised ''TypeError'')
        else if \<not> is_object auth \<or> \<not> auth_supported auth then Inl (IntegrityError SignatureMissing)
        else if \<not> validateReportShape report then Inl (IntegrityError ReportMalformed)
        else if val_get report ''runId'' \<noteq> VStr (ri_run ident) \<or> val_get report ''taskId'' \<noteq> VStr (ri_task ident)
        then Inl (IntegrityError ReportIdentityMismatch)
        else if \<not> strict_eq (val_get auth ''keyFingerprint'') (au_fingerprint (ie_auth env))
        then Inl (IntegrityError PublicKeyMismatch)
        else
          e_bind (verify_content env dir report (val_get auth ''evidence'')) (\<lambda>_.
          e_bind (signedBytes env report (val_get auth ''evidence'')) (\<lambda>bytes.
          case val_get auth ''signatureBase64'' of
            VStr sig \<Rightarrow>
              if verify_signature (ie_crypto env) (ie_auth env) bytes sig then Inr report
              else Inl (IntegrityError SignatureMismatch)
          | _ \<Rightarrow> Inl (IntegrityError SignatureMissing))))"

definition signed_auth :: "('pk, 'sk) integrity \<Rightarrow> js_val \<Rightarrow> string \<Rightarrow> js_val" where
  "signed_auth env evidence sig =
     VObj [(''version'', VStr ''gate-report-v1''), (''algorithm'', VStr ''Ed25519''),
       (''keyFingerprint'', au_fingerprint (ie_auth env)), (''evidence'', evidence), (''signatureBase64'', VStr sig)]"

text \<open>The report comes as the fields of an object.\<close>

definition signGateReport :: "('pk, 'sk) integrity \<Rightarrow> blob_dir \<Rightarrow> report_identity \<Rightarrow> payload \<Rightarrow> integrity_error + js_val" where
  "signGateReport env dir ident fs =
     (let named = AList.update ''taskId'' (VStr (ri_task ident)) (AList.update ''runId'' (VStr (ri_run ident)) fs) in
      e_bind (collectEvidence env dir (VObj named)) (\<lambda>collected.
      let evidence = VArr (map evidence_entry collected) in
      e_bind (signedBytes env (VObj named) evidence) (\<lambda>bytes.
      Inr (VObj (AList.update ''auth''
        (signed_auth env evidence (sign (ie_crypto env) (ie_auth env) bytes)) named)))))"

definition verifyGateReportRef :: "('pk, 'sk) integrity \<Rightarrow> blob_dir \<Rightarrow> report_identity \<Rightarrow> string \<Rightarrow> integrity_error + js_val" where
  "verifyGateReportRef env dir ident ref =
     e_bind (dereference env dir ref) (\<lambda>bytes.
     case ie_parse env bytes of
       None \<Rightarrow> Inl (IntegrityError ReportMalformed)
     | Some v \<Rightarrow> if is_record v then verifyGateReport env dir ident v else Inl (IntegrityError ReportMalformed))"

section \<open>Fields\<close>

lemma without_auth_update [simp]:
  "withoutAuth (VObj (AList.update ''auth'' v fs)) = withoutAuth (VObj fs)"
  by (induction fs) auto

lemma without_auth_get: "k \<noteq> ''auth'' \<Longrightarrow> val_get (withoutAuth v) k = val_get v k"
proof (cases v)
  case (VObj fs)
  have "map_of (filter (\<lambda>f. fst f \<noteq> ''auth'') fs) k = map_of fs k" if "k \<noteq> ''auth''"
    using that by (induction fs) auto
  then show "val_get (withoutAuth v) k = val_get v k" if "k \<noteq> ''auth''"
    using VObj that by (simp add: fields_get_def)
qed simp_all

lemma meaning_of_field:
  assumes "meaning_of v = meaning_of w" "val_get v k = VStr s" "k \<noteq> ''__proto__''"
  shows "val_get w k = VStr s"
proof -
  obtain fs where fs: "v = VObj fs" "map_of fs k = Some (VStr s)"
    using assms(2) by (cases v) (auto simp: fields_get_def split: option.splits)
  then obtain gs where gs: "w = VObj gs" "map_of (field_meanings gs) = map_of (field_meanings fs)"
    using assms(1) by (cases w) auto
  have mm: "map_of (field_meanings hs) k = map_option meaning_of (map_of hs k)" for hs
    using assms(3) by (induction hs) auto
  have "map_option meaning_of (map_of gs k) = Some (MAtom (VStr s))"
    using gs(2) mm [of gs] mm [of fs] fs(2) by simp
  then obtain x where "map_of gs k = Some x" "meaning_of x = MAtom (VStr s)" by auto
  then show ?thesis using gs(1) by (cases x) (auto simp: fields_get_def)
qed

lemma meaning_of_array:
  assumes "meaning_of (VArr vs) = meaning_of w"
  shows "\<exists>ws. w = VArr ws \<and> map meaning_of ws = map meaning_of vs"
  using assms by (cases w) (auto simp: meanings_map)

section \<open>Signed bytes\<close>

definition canonical_text :: "('pk, 'sk) integrity \<Rightarrow> js_val \<Rightarrow> string" where
  "canonical_text env v = ie_encode env (ie_stringify env v)"

lemma signedBytes_meaning:
  assumes "signedBytes env v x = Inr b" "signedBytes env w y = Inr b"
    and "json_ok (signed_value v x)" "json_ok (signed_value w y)"
    and inj: "inj_on (canonical_text env) {u. canonical u \<and> json_ok u}"
  shows "meaning_of (withoutAuth v) = meaning_of (withoutAuth w) \<and> meaning_of x = meaning_of y"
proof -
  define wrap where "wrap u = VObj [(''encoding'', VStr ''canonical-json-v1''), (''value'', u)]" for u
  have split: "\<exists>a. normalizeCanonical ''$'' (wrap (signed_value v x)) = Inr a \<and> b = canonical_text env a"
    if "signedBytes env v x = Inr b" for v x
    using that
    by (auto simp: signedBytes_def canonicalEvidenceBytes_def wrap_def canonical_text_def e_bind_Inr_iff
        simp del: normalizeCanonical.simps split: sum.splits)
  obtain a where a: "normalizeCanonical ''$'' (wrap (signed_value v x)) = Inr a" "b = canonical_text env a"
    using split [OF assms(1)] by blast
  obtain c where c: "normalizeCanonical ''$'' (wrap (signed_value w y)) = Inr c" "b = canonical_text env c"
    using split [OF assms(2)] by blast
  have ok: "json_ok (wrap (signed_value v x))" "json_ok (wrap (signed_value w y))"
    using assms(3,4) by (simp_all add: wrap_def)
  note na = normalize_canonical(1) [OF a(1) ok(1)] and nc = normalize_canonical(1) [OF c(1) ok(2)]
  have own: "(k = ''__proto__'') = False" if "k \<in> {''encoding'', ''value'', ''version'', ''report'', ''evidence''}" for k
    using that by auto
  have "a = c" using inj na nc a(2) c(2) by (auto dest: inj_onD)
  then have "meaning_of (wrap (signed_value v x)) = meaning_of (wrap (signed_value w y))" using na nc by simp
  then have "map_of [(''encoding'', MAtom (VStr ''canonical-json-v1'')), (''value'', meaning_of (signed_value v x))] ''value'' =
      map_of [(''encoding'', MAtom (VStr ''canonical-json-v1'')), (''value'', meaning_of (signed_value w y))] ''value''"
    by (simp only: wrap_def meaning_of.simps field_meanings.simps meaning.inject own insert_iff simp_thms if_False)
  then have "meaning_of (signed_value v x) = meaning_of (signed_value w y)" by simp
  then have m: "map_of [(''version'', MAtom (VStr ''gate-report-v1'')), (''report'', meaning_of (withoutAuth v)), (''evidence'', meaning_of x)] =
      map_of [(''version'', MAtom (VStr ''gate-report-v1'')), (''report'', meaning_of (withoutAuth w)), (''evidence'', meaning_of y)]"
    by (simp only: signed_value_def meaning_of.simps field_meanings.simps meaning.inject own insert_iff simp_thms if_False)
  show ?thesis using fun_cong [OF m, of "''report''"] fun_cong [OF m, of "''evidence''"] by simp
qed

section \<open>Content stays\<close>

lemma dereference_Inr:
  "dereference env dir ref = Inr b \<longleftrightarrow> get (ie_sha env) ref dir = Inr b"
  by (auto simp: dereference_def split: sum.splits)

lemma dereference_later:
  "dereference env dir ref = Inr b \<Longrightarrow> dereference env (fold (put_step (ie_sha env) enc) later dir) ref = Inr b"
  by (auto simp: dereference_Inr get_Inr intro: blobs.run_keeps)

lemma check_evidence_later:
  "check_evidence env dir c = Inr e \<Longrightarrow> check_evidence env (fold (put_step (ie_sha env) enc) later dir) c = Inr e"
  by (auto simp: check_evidence_def e_bind_Inr_iff dest: dereference_later split: if_splits js_val.splits)

lemma collectEvidence_later:
  assumes "collectEvidence env dir r = Inr es" "val_get r' ''checks'' = val_get r ''checks''"
  shows "collectEvidence env (fold (put_step (ie_sha env) enc) later dir) r' = Inr es"
proof -
  obtain cs xs where cs: "iterated (val_get r ''checks'') = Inr cs" "e_map (check_evidence env dir) cs = Inr xs"
      "es = sort_key fst (sort_key snd xs)"
    using assms(1) by (auto simp: collectEvidence_def e_bind_Inr_iff)
  have "e_map (check_evidence env (fold (put_step (ie_sha env) enc) later dir)) cs = Inr xs"
    using cs(2) unfolding e_map_Inr_iff by (rule list_all2_mono) (rule check_evidence_later)
  then show ?thesis using cs assms(2) by (simp add: collectEvidence_def)
qed

lemma collected_entries: "list_all same_entry (zip (map evidence_entry es) es)"
  by (induction es) (simp_all add: same_entry_def evidence_entry_def fields_get_def)

lemma collectEvidence_checks:
  assumes "collectEvidence env dir r = Inr es" "val_get r ''checks'' = VArr cs" "c \<in> set cs"
  shows "\<exists>ref bytes. val_get c ''evidenceRef'' = VStr ref \<and> get (ie_sha env) ref dir = Inr bytes \<and> (ref, ie_sha env bytes) \<in> set es"
proof -
  obtain xs where xs: "e_map (check_evidence env dir) cs = Inr xs" "set xs = set es"
    using assms(1,2) by (auto simp: collectEvidence_def e_bind_Inr_iff)
  obtain e where e: "e \<in> set xs" "check_evidence env dir c = Inr e"
    using e_map_reaches [OF xs(1) assms(3)] by blast
  then show ?thesis using xs(2)
    by (auto simp: check_evidence_def e_bind_Inr_iff dereference_Inr split: if_splits js_val.splits)
qed

section \<open>What a signature on a report promises\<close>

lemma strict_eq_text: "v = VStr s \<Longrightarrow> strict_eq v v"
  by simp

text \<open>What accepting a report has checked.\<close>

lemma verifyGateReport_ok:
  assumes "verifyGateReport env dir ident report = Inr r"
  obtains entries es bytes sig where "r = report"
    and "val_get report ''runId'' = VStr (ri_run ident)" "val_get report ''taskId'' = VStr (ri_task ident)"
    and "validateReportShape report"
    and "val_get (val_get report ''auth'') ''evidence'' = VArr entries"
    and "collectEvidence env dir report = Inr es" "length entries = length es" "list_all same_entry (zip entries es)"
    and "signedBytes env report (VArr entries) = Inr bytes"
    and "verify_signature (ie_crypto env) (ie_auth env) bytes sig"
proof -
  let ?ev = "val_get (val_get report ''auth'') ''evidence''"
  obtain bytes where named: "val_get report ''runId'' = VStr (ri_run ident)" "val_get report ''taskId'' = VStr (ri_task ident)"
      "validateReportShape report" and content: "verify_content env dir report ?ev = Inr ()"
      and bytes: "signedBytes env report ?ev = Inr bytes"
      and sig: "(case val_get (val_get report ''auth'') ''signatureBase64'' of
            VStr sig \<Rightarrow>
              if verify_signature (ie_crypto env) (ie_auth env) bytes sig then Inr report
              else Inl (IntegrityError SignatureMismatch)
          | _ \<Rightarrow> Inl (IntegrityError SignatureMissing)) = Inr r"
    using assms by (auto simp: verifyGateReport_def Let_def e_bind_Inr_iff split: if_splits)
  obtain s where "verify_signature (ie_crypto env) (ie_auth env) bytes s" "r = report"
    using sig by (auto split: js_val.splits if_splits)
  moreover obtain entries es where "?ev = VArr entries" "collectEvidence env dir report = Inr es"
      "length entries = length es" "list_all same_entry (zip entries es)"
    using content by (cases ?ev) (auto simp: verify_content_def e_bind_Inr_iff split: if_splits)
  ultimately show thesis using that named bytes by metis
qed

text \<open>C27: a report that was signed verifies, at once and after any number of later puts, whatever the disk makes of
  them; stored, it verifies by its reference. The hypotheses are what Ed25519 and base64 promise of the run's
  keys and what JSON promises of this one report.\<close>

theorem signed_reports_verify:
  assumes "signGateReport env dir ident fs = Inr report" "validateReportShape report"
    and "au_fingerprint (ie_auth env) = VStr print"
    and "\<And>b. cr_sign (ie_crypto env) (au_private (ie_auth env)) b \<noteq> []"
    and "\<And>b. cr_verify (ie_crypto env) (au_public (ie_auth env)) b (cr_sign (ie_crypto env) (au_private (ie_auth env)) b) = Some True"
    and "\<And>b. cr_unbase64 (ie_crypto env) (cr_base64 (ie_crypto env) b) = b" "\<And>b. cr_base64 (ie_crypto env) b = [] \<Longrightarrow> b = []"
  shows "verifyGateReport env (fold (put_step (ie_sha env) enc) later dir) ident report = Inr report \<and>
    (put (ie_sha env) enc disk (Text text) dir = (Inr ref, dir') \<longrightarrow> ie_parse env (enc text) = Some report \<longrightarrow>
      (\<forall>b. is_hash (ie_sha env b)) \<longrightarrow>
      verifyGateReportRef env (fold (put_step (ie_sha env) enc) later dir') ident ref = Inr report)"
proof -
  define named where "named = AList.update ''taskId'' (VStr (ri_task ident)) (AList.update ''runId'' (VStr (ri_run ident)) fs)"
  obtain es bytes where es: "collectEvidence env dir (VObj named) = Inr es"
      "signedBytes env (VObj named) (VArr (map evidence_entry es)) = Inr bytes"
    and report: "report = VObj (AList.update ''auth'' (signed_auth env (VArr (map evidence_entry es))
        (sign (ie_crypto env) (ie_auth env) bytes)) named)"
    using assms(1) by (auto simp: signGateReport_def Let_def named_def e_bind_Inr_iff)
  let ?sig = "sign (ie_crypto env) (ie_auth env) bytes"
  have sig: "?sig \<noteq> []" "verify_signature (ie_crypto env) (ie_auth env) bytes ?sig"
    using assms(4-7) by (auto simp: sign_def verify_signature_def Let_def)
  have auth: "val_get report ''auth'' = signed_auth env (VArr (map evidence_entry es)) ?sig"
      "val_get report ''checks'' = val_get (VObj named) ''checks''"
      "val_get report ''runId'' = VStr (ri_run ident)" "val_get report ''taskId'' = VStr (ri_task ident)"
    by (simp_all add: report) (simp_all add: named_def)
  have bytes: "signedBytes env report (VArr (map evidence_entry es)) = Inr bytes"
    using es(2) by (simp add: signedBytes_def signed_value_def report del: withoutAuth.simps)
  have here: "verifyGateReport env (fold (put_step (ie_sha env) enc) ops dir) ident report = Inr report" for ops
    using assms(2,3) sig bytes auth(3,4) collectEvidence_later [OF es(1) auth(2), of enc ops] collected_entries [of es]
    unfolding verifyGateReport_def auth(1)
    by (simp add: report signed_auth_def auth_supported_def nonempty_str_def fields_get_def verify_content_def
        del: withoutAuth.simps)
  have "verifyGateReportRef env (fold (put_step (ie_sha env) enc) later dir') ident ref = Inr report"
    if stored: "put (ie_sha env) enc disk (Text text) dir = (Inr ref, dir')" "ie_parse env (enc text) = Some report"
      "\<forall>b. is_hash (ie_sha env b)"
  proof -
    have dir': "dir' = put_step (ie_sha env) enc (disk, Text text) dir" using stored(1) by (simp add: put_step_def)
    have "ref = REF_PREFIX @ ie_sha env (enc text)" "dir' (ie_sha env (enc text)) = Some (Regular (enc text))"
      using put_ok [OF stored(1) refl] by auto
    then have "dereference env (fold (put_step (ie_sha env) enc) later dir') ref = Inr (enc text)"
      using stored(3) by (intro dereference_later) (simp add: dereference_Inr get_Inr)
    then show ?thesis using stored(2) here [of "(disk, Text text) # later"]
      by (simp add: verifyGateReportRef_def dir' report)
  qed
  then show ?thesis using here by blast
qed

lemma json_ok_signed: "json_ok (VObj fs) \<Longrightarrow> json_ok x \<Longrightarrow> json_ok (signed_value (VObj fs) x)"
  by (auto simp: signed_value_def fields_json_ok_iff distinct_map_filter)

lemma json_ok_field: "json_ok v \<Longrightarrow> json_ok (val_get v k)"
  by (cases v) (auto simp: fields_get_def fields_json_ok_iff split: option.splits dest: map_of_SomeD)

definition report_evidence :: "js_val \<Rightarrow> js_val" where
  "report_evidence r = val_get (val_get r ''auth'') ''evidence''"

text \<open>C12: a report that verifies says what a report of this run said when it was signed, apart from fields named
  \<open>__proto__\<close>, which no signature covers, and is about the content it was about then: the same other fields at every
  depth, the same run and task, and for every check the content its reference leads to
  now has the hash the signed report recorded for it. The hypotheses: what verifies was signed, the keys of an
  object are distinct, and different canonical values have different texts.\<close>

theorem verified_reports_were_signed:
  assumes "verifyGateReport env dir ident report = Inr r" "json_ok report"
    and "\<And>b sig. verify_signature (ie_crypto env) (ie_auth env) b sig \<Longrightarrow>
      \<exists>fs. VObj fs \<in> signed \<and> json_ok (VObj fs) \<and> json_ok (report_evidence (VObj fs)) \<and>
        signedBytes env (VObj fs) (report_evidence (VObj fs)) = Inr b"
    and "inj_on (canonical_text env) {u. canonical u \<and> json_ok u}"
  shows "r = report \<and> (\<exists>s \<in> signed.
    meaning_of (withoutAuth report) = meaning_of (withoutAuth s) \<and>
    val_get (withoutAuth s) ''runId'' = VStr (ri_run ident) \<and> val_get (withoutAuth s) ''taskId'' = VStr (ri_task ident) \<and>
    (\<exists>entries. report_evidence s = VArr entries \<and>
      (\<forall>cs c. val_get report ''checks'' = VArr cs \<longrightarrow> c \<in> set cs \<longrightarrow>
        (\<exists>ref bytes. val_get c ''evidenceRef'' = VStr ref \<and> get (ie_sha env) ref dir = Inr bytes \<and>
          (\<exists>e \<in> set entries. same_entry (e, ref, ie_sha env bytes))))))"
proof -
  obtain entries es bytes sig where v: "r = report" "val_get report ''runId'' = VStr (ri_run ident)"
      "val_get report ''taskId'' = VStr (ri_task ident)" "report_evidence report = VArr entries"
      "collectEvidence env dir report = Inr es" "length entries = length es" "list_all same_entry (zip entries es)"
      "signedBytes env report (VArr entries) = Inr bytes" "verify_signature (ie_crypto env) (ie_auth env) bytes sig"
    using verifyGateReport_ok [OF assms(1)] unfolding report_evidence_def by metis
  obtain fs where fs: "VObj fs \<in> signed" "json_ok (VObj fs)" "json_ok (report_evidence (VObj fs))"
      "signedBytes env (VObj fs) (report_evidence (VObj fs)) = Inr bytes"
    using assms(3) [OF v(9)] by blast
  obtain gs where gs: "report = VObj gs" using v(2) by (cases report) auto
  have "json_ok (VArr entries)"
    using json_ok_field [OF json_ok_field [OF assms(2), of "''auth''"], of "''evidence''"] v(4)
    by (auto simp: report_evidence_def)
  then have same: "meaning_of (withoutAuth report) = meaning_of (withoutAuth (VObj fs))"
      "meaning_of (VArr entries) = meaning_of (report_evidence (VObj fs))"
    using signedBytes_meaning [OF v(8) fs(4) _ _ assms(4)] json_ok_signed assms(2) fs(2,3) gs by blast+
  obtain ws where ws: "report_evidence (VObj fs) = VArr ws" "map meaning_of ws = map meaning_of entries"
    using meaning_of_array [OF same(2)] by blast
  have "\<exists>ref bytes. val_get c ''evidenceRef'' = VStr ref \<and> get (ie_sha env) ref dir = Inr bytes \<and>
      (\<exists>e \<in> set ws. same_entry (e, ref, ie_sha env bytes))"
    if c: "val_get report ''checks'' = VArr cs" "c \<in> set cs" for cs c
  proof -
    obtain ref b where b: "val_get c ''evidenceRef'' = VStr ref" "get (ie_sha env) ref dir = Inr b" "(ref, ie_sha env b) \<in> set es"
      using collectEvidence_checks [OF v(5) c] by blast
    then obtain i where i: "i < length es" "es ! i = (ref, ie_sha env b)" by (auto simp: in_set_conv_nth)
    have "same_entry (entries ! i, es ! i)" using v(6,7) i(1) by (simp add: list_all_length)
    then have "same_entry (entries ! i, ref, ie_sha env b)" using i(2) by simp
    moreover have "meaning_of (entries ! i) = meaning_of (ws ! i)" "i < length ws"
      using ws(2) i(1) v(6) by (metis length_map nth_map)+
    ultimately have "same_entry (ws ! i, ref, ie_sha env b)" by (auto simp: same_entry_def dest: meaning_of_field)
    then show ?thesis using b(1,2) \<open>i < length ws\<close> nth_mem by blast
  qed
  moreover have "val_get (withoutAuth (VObj fs)) k = VStr t" if "val_get report k = VStr t" "k \<noteq> ''auth''" "k \<noteq> ''__proto__''" for k t
    using that meaning_of_field [OF same(1), of k t] by (simp add: without_auth_get del: withoutAuth.simps)
  ultimately show ?thesis using v(1,2,3) fs(1) same(1) ws(1) by blast
qed

text \<open>\<open>typeof null\<close> is \<open>object\<close>: a report whose \<open>auth\<close> is \<open>null\<close> is refused by a \<open>TypeError\<close> that carries no code.\<close>

lemma null_auth_is_a_type_error:
  "verifyGateReport env dir ident (VObj ((''auth'', VNull) # fs)) = Inl (IntegrityRaised ''TypeError'')"
  by (simp add: verifyGateReport_def fields_get_def)

section \<open>A concrete report\<close>

definition gate_fields :: payload where
  "gate_fields = [(''runId'', VStr ''r''), (''taskId'', VStr ''t''), (''tier'', VStr ''T1''), (''pass'', VBool True),
     (''gateConfigHash'', VStr ''c''), (''commitHash'', VStr ''h''), (''worktreeHash'', VStr ''w''), (''envHash'', VStr ''e''),
     (''scopeNote'', VStr ''n''),
     (''checks'', VArr [VObj [(''name'', VStr ''lint''), (''pass'', VBool True), (''evidenceRef'', VStr (REF_PREFIX @ count_hash ''abc''))]])]"

definition gate_dir :: blob_dir where
  "gate_dir = [count_hash ''abc'' \<mapsto> Regular ''abc'']"

definition gate_ident :: report_identity where
  "gate_ident = \<lparr>ri_run = ''r'', ri_task = ''t''\<rparr>"

definition gate_evidence :: js_val where
  "gate_evidence = VArr [evidence_entry (REF_PREFIX @ count_hash ''abc'', count_hash ''abc'')]"

definition gate_env :: "(string, string) crypto \<Rightarrow> (string \<Rightarrow> js_val option) \<Rightarrow> (string, string) integrity" where
  "gate_env cr parse =
     \<lparr>ie_sha = count_hash, ie_crypto = cr, ie_auth = toy_auth, ie_stringify = unary, ie_encode = plain_text, ie_parse = parse\<rparr>"

lemma gate_signable: "\<exists>b. signedBytes (gate_env cr parse) (VObj gate_fields) gate_evidence = Inr b"
proof -
  have "signable (VObj [(''encoding'', VStr ''canonical-json-v1''), (''value'', signed_value (VObj gate_fields) gate_evidence)])"
    by (simp add: signed_value_def gate_fields_def gate_evidence_def evidence_entry_def)
  then obtain a where "normalizeCanonical ''$'' (VObj [(''encoding'', VStr ''canonical-json-v1''), (''value'', signed_value (VObj gate_fields) gate_evidence)]) = Inr a"
    using normalize_signable(1) by blast
  then show ?thesis by (simp add: signedBytes_def canonicalEvidenceBytes_def del: normalizeCanonical.simps)
qed

definition gate_bytes :: string where
  "gate_bytes = projr (signedBytes (gate_env toy_crypto (\<lambda>_. None)) (VObj gate_fields) gate_evidence)"

lemma gate_bytes: "signedBytes (gate_env cr parse) (VObj gate_fields) gate_evidence = Inr gate_bytes"
proof -
  have "signedBytes (gate_env cr parse) (VObj gate_fields) gate_evidence =
      signedBytes (gate_env toy_crypto (\<lambda>_. None)) (VObj gate_fields) gate_evidence"
    by (simp add: signedBytes_def gate_env_def)
  then show ?thesis using gate_signable [of toy_crypto "\<lambda>_. None"] by (auto simp: gate_bytes_def)
qed

lemma gate_collected:
  "collectEvidence (gate_env cr parse) gate_dir (VObj gate_fields) = Inr [(REF_PREFIX @ count_hash ''abc'', count_hash ''abc'')]"
proof -
  have "get count_hash (REF_PREFIX @ count_hash ''abc'') gate_dir = Inr ''abc''"
    by (simp add: get_Inr count_hash_is_hash gate_dir_def)
  moreover have "REF_PREFIX \<noteq> []" by (simp add: REF_PREFIX_def)
  ultimately show ?thesis
    by (simp add: collectEvidence_def gate_fields_def fields_get_def check_evidence_def dereference_def gate_env_def)
qed

definition gate_report_of :: "(string, string) crypto \<Rightarrow> js_val" where
  "gate_report_of cr = VObj (gate_fields @ [(''auth'', signed_auth (gate_env cr (\<lambda>_. None)) gate_evidence (sign cr toy_auth gate_bytes))])"

lemma gate_signed: "signGateReport (gate_env cr parse) gate_dir gate_ident gate_fields = Inr (gate_report_of cr)"
proof -
  have named: "AList.update ''taskId'' (VStr ''t'') (AList.update ''runId'' (VStr ''r'') gate_fields) = gate_fields"
    by (simp add: gate_fields_def)
  have "AList.update ''auth'' v gate_fields = gate_fields @ [(''auth'', v)]" for v
    by (simp add: gate_fields_def)
  then show ?thesis
    using gate_bytes [of cr parse] gate_collected [of cr parse]
    by (simp add: signGateReport_def gate_ident_def named gate_report_of_def signed_auth_def gate_evidence_def Let_def)
      (simp add: gate_env_def)
qed

lemma gate_shape: "validateReportShape (gate_report_of cr)"
  by (simp add: validateReportShape_def gate_report_of_def gate_fields_def fields_get_def nonempty_str_def)

definition gate_parse :: "string \<Rightarrow> js_val option" where
  "gate_parse _ = Some (gate_report_of toy_crypto)"

lemma toy_auth_fields: "au_private toy_auth = ''k''" "au_public toy_auth = ''k''" "\<exists>p. au_fingerprint toy_auth = VStr p"
  by (simp_all add: toy_auth_def buildAuthenticator_def toy_meta_def run_metadata_def fields_get_def)

theorem signed_reports_verify_witness:
  "verifyGateReport (gate_env toy_crypto gate_parse)
      (fold (put_step count_hash plain_text) [(DiskTears ''ENOSPC'' ''a'', Bytes ''abcd'')] gate_dir) gate_ident
      (gate_report_of toy_crypto) = Inr (gate_report_of toy_crypto) \<and>
   (\<exists>ref dir'. verifyGateReportRef (gate_env toy_crypto gate_parse) dir' gate_ident ref = Inr (gate_report_of toy_crypto))"
proof -
  obtain p where p: "au_fingerprint toy_auth = VStr p" using toy_auth_fields(3) by blast
  have env: "ie_sha (gate_env toy_crypto gate_parse) = count_hash" "ie_parse (gate_env toy_crypto gate_parse) = gate_parse"
      "ie_auth (gate_env toy_crypto gate_parse) = toy_auth" "ie_crypto (gate_env toy_crypto gate_parse) = toy_crypto"
    by (simp_all add: gate_env_def)
  note all = signed_reports_verify [OF gate_signed [of toy_crypto gate_parse] gate_shape, unfolded env]
  have toy: "au_fingerprint toy_auth = VStr p" "cr_sign toy_crypto (au_private toy_auth) b \<noteq> []"
      "cr_verify toy_crypto (au_public toy_auth) b (cr_sign toy_crypto (au_private toy_auth) b) = Some True"
      "cr_unbase64 toy_crypto (cr_base64 toy_crypto b) = b" "cr_base64 toy_crypto b = [] \<Longrightarrow> b = []" for b
    by (simp_all add: p toy_auth_fields(1,2)) (simp_all add: toy_crypto_def)
  obtain ref dir' where stored: "put count_hash plain_text DiskOk (Text ''j'') gate_dir = (Inr ref, dir')"
    by (simp add: put_def Let_def plain_text_def gate_dir_def count_hash_def)
  note here = all [OF toy]
  show ?thesis
    using here [of plain_text "[(DiskTears ''ENOSPC'' ''a'', Bytes ''abcd'')]" DiskOk "''j''" ref dir']
      here [of plain_text "[]" DiskOk "''j''" ref dir'] stored count_hash_is_hash
    by (auto simp: gate_parse_def)
qed

text \<open>Keys that verify the one message that was signed.\<close>

definition one_key :: "(string, string) crypto" where
  "one_key = toy_crypto\<lparr>cr_sign := \<lambda>k b. k, cr_verify := \<lambda>k b sig. Some (b = gate_bytes)\<rparr>"

theorem verified_reports_were_signed_witness:
  "\<exists>s \<in> {gate_report_of one_key}. val_get (withoutAuth s) ''runId'' = VStr ''r'' \<and>
    (\<exists>entries bytes. report_evidence s = VArr entries \<and>
      get count_hash (REF_PREFIX @ count_hash ''abc'') gate_dir = Inr bytes \<and>
      (\<exists>e \<in> set entries. same_entry (e, REF_PREFIX @ count_hash ''abc'', count_hash bytes)))"
proof -
  let ?env = "gate_env one_key gate_parse" and ?rep = "gate_report_of one_key"
  have without: "withoutAuth ?rep = VObj gate_fields"
    by (simp add: gate_report_of_def gate_fields_def)
  have evidence: "report_evidence ?rep = gate_evidence"
    by (simp add: report_evidence_def gate_report_of_def gate_fields_def fields_get_def signed_auth_def)
  have bytes: "signedBytes ?env ?rep gate_evidence = Inr gate_bytes"
    using gate_bytes [of one_key gate_parse] unfolding signedBytes_def signed_value_def without by (simp add: gate_fields_def)
  obtain p where p: "au_fingerprint toy_auth = VStr p" using toy_auth_fields(3) by blast
  have sig: "sign one_key toy_auth gate_bytes = ''k''"
    by (simp add: sign_def toy_auth_fields(1)) (simp add: one_key_def toy_crypto_def)
  have checks: "val_get ?rep ''checks'' = val_get (VObj gate_fields) ''checks''"
    by (simp add: gate_report_of_def gate_fields_def fields_get_def)
  have collected: "collectEvidence ?env gate_dir ?rep = Inr [(REF_PREFIX @ count_hash ''abc'', count_hash ''abc'')]"
    using collectEvidence_later [OF gate_collected checks, of one_key gate_parse plain_text "[]"] by simp
  have "verify_signature one_key toy_auth gate_bytes ''k''"
    by (simp add: verify_signature_def Let_def) (simp add: one_key_def toy_crypto_def)
  then have ok: "verifyGateReport ?env gate_dir gate_ident ?rep = Inr ?rep"
    using gate_shape [of one_key] collected bytes p sig
    by (simp add: verifyGateReport_def gate_report_of_def gate_fields_def fields_get_def signed_auth_def auth_supported_def
        nonempty_str_def gate_ident_def verify_content_def gate_evidence_def same_entry_def evidence_entry_def gate_env_def)
  have json: "json_ok ?rep" by (simp add: gate_report_of_def gate_fields_def signed_auth_def gate_evidence_def evidence_entry_def p gate_env_def)
  have inj: "inj_on (canonical_text ?env) {u. canonical u \<and> json_ok u}"
    by (rule inj_onI) (simp add: canonical_text_def gate_env_def plain_text_def unary_inj)
  have unforged: "\<exists>fs. VObj fs \<in> {?rep} \<and> json_ok (VObj fs) \<and> json_ok (report_evidence (VObj fs)) \<and>
      signedBytes ?env (VObj fs) (report_evidence (VObj fs)) = Inr b"
    if "verify_signature (ie_crypto ?env) (ie_auth ?env) b s" for b s
  proof -
    have "b = gate_bytes" using that
      by (simp add: verify_signature_def Let_def gate_env_def one_key_def split: if_splits)
    moreover obtain fs where fs: "?rep = VObj fs" by (simp add: gate_report_of_def)
    moreover have "json_ok gate_evidence" by (simp add: gate_evidence_def evidence_entry_def)
    ultimately show ?thesis using json evidence bytes by (intro exI [of _ fs]) (simp del: json_ok.simps)
  qed
  have "val_get ?rep ''checks'' = VArr [VObj [(''name'', VStr ''lint''), (''pass'', VBool True), (''evidenceRef'', VStr (REF_PREFIX @ count_hash ''abc''))]]"
    by (simp add: checks) (simp add: gate_fields_def fields_get_def)
  then show ?thesis using verified_reports_were_signed [OF ok json unforged inj]
    by (fastforce simp: gate_ident_def gate_env_def fields_get_def)
qed

end
