(* ===== verification/HumanPlane.thy ===== *)
theory HumanPlane
  imports Deploy "HOL-Library.AList"
begin

text \<open>
  What a human can do to a run: approval packages (\<open>core/src/human/approval.ts\<close>), the request handler of the
  human plane (\<open>core/src/human/api.ts\<close>) and the controller that pauses, resumes and kills the loop
  (\<open>core/src/orchestrator/control.ts\<close>). The callbacks of the handler are arguments over an outer world of
  any type; those that are not wired up are \<open>None\<close>. The socket and the redaction patterns are arguments.
\<close>

section \<open>Approval packages\<close>

record approval_package =
  ap_id :: string
  ap_task :: string
  ap_run :: string
  ap_goal :: string
  ap_acs :: "string list"
  ap_diff :: string
  ap_reports :: "string list"
  ap_worktree :: string
  ap_assumptions :: "string list"
  ap_unresolved :: "string list"
  ap_attest :: "string list"
  ap_risk :: risk_class
  ap_created :: js_num
  ap_provenance :: "provenance option"

record approval_input =
  ai_id :: string
  ai_task :: string
  ai_run :: string
  ai_goal :: string
  ai_acs :: "string list"
  ai_diff :: string
  ai_diff_lines :: js_num
  ai_max_diff :: js_num
  ai_reports :: "string list"
  ai_worktree :: string
  ai_assumptions :: "string list"
  ai_unresolved :: "string list"
  ai_risk :: risk_class
  ai_created :: js_num
  ai_provenance :: "provenance option"

definition BASE_ATTESTATIONS :: "string list" where
  "BASE_ATTESTATIONS = [''I reviewed the diff'', ''Tests cover the change'']"

fun RISK_EXTRA :: "risk_class \<Rightarrow> string list" where
  "RISK_EXTRA L0 = []"
| "RISK_EXTRA L1 = []"
| "RISK_EXTRA L2 = []"
| "RISK_EXTRA L3 = [''I verified the security/permission impact'', ''I confirmed no secret or credential change'']"
| "RISK_EXTRA L4 =
     [''I verified the security/permission impact'', ''I confirmed no secret or credential change'',
      ''I confirmed this is recoverable OR has an explicit rollback + backup'']"

definition attestationsFor :: "risk_class \<Rightarrow> string list" where
  "attestationsFor risk = BASE_ATTESTATIONS @ RISK_EXTRA risk"

text \<open>The left value is the detail of \<open>split_required\<close>.\<close>

definition buildApprovalPackage :: "(js_num \<Rightarrow> string) \<Rightarrow> approval_input \<Rightarrow> string + approval_package" where
  "buildApprovalPackage shw i =
     (if js_lt (ai_max_diff i) (ai_diff_lines i)
      then Inl (''diff '' @ shw (ai_diff_lines i) @ '' lines exceeds budget '' @ shw (ai_max_diff i))
      else Inr \<lparr>ap_id = ai_id i, ap_task = ai_task i, ap_run = ai_run i, ap_goal = ai_goal i, ap_acs = ai_acs i,
        ap_diff = ai_diff i, ap_reports = ai_reports i, ap_worktree = ai_worktree i, ap_assumptions = ai_assumptions i,
        ap_unresolved = ai_unresolved i, ap_attest = attestationsFor (ai_risk i), ap_risk = ai_risk i,
        ap_created = ai_created i, ap_provenance = ai_provenance i\<rparr>)"

definition strs :: "string list \<Rightarrow> js_val" where
  "strs ss = VArr (map VStr ss)"

definition provenance_val :: "provenance \<Rightarrow> js_val" where
  "provenance_val p =
     VObj ([(''specPath'', VStr (pv_spec_path p)), (''requirementsCommit'', VStr (pv_commit p))] @
       (case pv_sha256 p of None \<Rightarrow> [] | Some h \<Rightarrow> [(''requirementsSha256'', VStr h)]) @
       [(''generatedAt'', VStr (pv_generated_at p))])"

definition package_val :: "approval_package \<Rightarrow> js_val" where
  "package_val p =
     VObj ([(''id'', VStr (ap_id p)), (''taskId'', VStr (ap_task p)), (''runId'', VStr (ap_run p)),
       (''goalExcerpt'', VStr (ap_goal p)), (''acIds'', strs (ap_acs p)), (''diffRef'', VStr (ap_diff p)),
       (''evidence'', VObj [(''gateReports'', strs (ap_reports p)), (''worktreeHash'', VStr (ap_worktree p))]),
       (''assumptions'', strs (ap_assumptions p)), (''unresolvedRisks'', strs (ap_unresolved p)),
       (''attestations'', strs (ap_attest p)), (''riskClass'', VStr (risk_name (ap_risk p))), (''createdAt'', VNum (ap_created p))] @
       (case ap_provenance p of None \<Rightarrow> [] | Some v \<Rightarrow> [(''provenance'', provenance_val v)]))"

section \<open>The plane and its callbacks\<close>

datatype decision = DecApprove | DecReject

fun decision_name :: "decision \<Rightarrow> string" where
  "decision_name DecApprove = ''approve''"
| "decision_name DecReject = ''reject''"

datatype boundary = HumanApproval | DeployApproval

text \<open>\<open>{ ok, state?, detail? }\<close>, and \<open>kind?\<close> in the place of \<open>state\<close> for governance.\<close>

record human_answer =
  ha_ok :: bool
  ha_state :: "string option"
  ha_detail :: "string option"

text \<open>A callback reads the log and the world, returns or throws, appends events to the same log (as
  \<open>onDecision\<close>, \<open>onInject\<close> and \<open>onEvidenceInvalid\<close> of \<open>loop-run.ts\<close> do), and leaves a world. The thrown value matters
  only where it is caught. A view only reads.\<close>

type_synonym ('v, 'a) callback = "new_event list \<Rightarrow> 'v \<Rightarrow> 'a \<times> new_event list \<times> 'v"
type_synonym ('v, 'a) view = "new_event list \<Rightarrow> 'v \<Rightarrow> 'a"

record 'v human_deps =
  hd_run :: string
  hd_token :: string
  hd_rate :: "'v \<Rightarrow> bool \<times> 'v"
  hd_decision :: "string \<Rightarrow> decision \<Rightarrow> ('v, string + human_answer) callback"
  hd_verify :: "(approval_package \<Rightarrow> boundary \<Rightarrow> ('v, js_val + unit) callback) option"
  hd_invalid :: "(string \<Rightarrow> js_val \<Rightarrow> boundary \<Rightarrow> ('v, string + unit) callback) option"
  hd_kill :: "('v, string + unit) callback"
  hd_proposals :: "('v, js_val list) view option"
  hd_gov_approve :: "(string \<Rightarrow> ('v, string + human_answer) callback) option"
  hd_steering :: "('v, task_state) view option"
  hd_pause :: "('v, string + unit) callback option"
  hd_resume :: "('v, string + unit) callback option"
  hd_inject :: "(string \<Rightarrow> bool \<Rightarrow> ('v, string + (string + string)) callback) option"
  hd_deploy_state :: "('v, deploy_state option) view option"
  hd_deploy_package :: "('v, approval_package option) view option"
  hd_deploy_decision :: "(decision \<Rightarrow> ('v, string + human_answer) callback) option"
  hd_deploy_rollback :: "('v, string + human_answer) callback option"
  hd_events :: "'v \<Rightarrow> new_event list \<Rightarrow> string + js_val"
  hd_parse :: "string \<Rightarrow> js_val option"
  hd_shw :: "js_num \<Rightarrow> string"

record 'v plane =
  pl_approvals :: "(string \<times> approval_package) list"
  pl_outer :: 'v

record http_like =
  hq_method :: string
  hq_path :: string
  hq_auth :: "string option"
  hq_body :: string

record http_result =
  hr_status :: nat
  hr_body :: js_val

type_synonym ('v, 'a) plane_eff = "('v plane, 'a) eff"

definition after_call :: "new_event list \<Rightarrow> 'v \<Rightarrow> 'v plane sys \<Rightarrow> 'v plane sys" where
  "after_call evs v s = s\<lparr>sys_world := (sys_world s)\<lparr>pl_outer := v\<rparr>, sys_log := sys_log s @ evs\<rparr>"

definition outer :: "('v, string + 'a) callback \<Rightarrow> ('v, 'a) plane_eff" where
  "outer f s = (case f (sys_log s) (pl_outer (sys_world s)) of (r, evs, v) \<Rightarrow> (r, after_call evs v s))"

definition outer_caught :: "('v, 'a) callback \<Rightarrow> ('v, 'a) plane_eff" where
  "outer_caught f s = (case f (sys_log s) (pl_outer (sys_world s)) of (r, evs, v) \<Rightarrow> (Inr r, after_call evs v s))"

definition look :: "('v, 'a) view \<Rightarrow> ('v, 'a) plane_eff" where
  "look f s = (Inr (f (sys_log s) (pl_outer (sys_world s))), s)"

definition optional :: "('v, string + unit) callback option \<Rightarrow> ('v, unit) plane_eff" where
  "optional f = (case f of None \<Rightarrow> ret () | Some g \<Rightarrow> outer g)"

definition looked :: "('v, 'a) view option \<Rightarrow> ('v, 'a option) plane_eff" where
  "looked f = (case f of None \<Rightarrow> ret None | Some g \<Rightarrow> bind (look g) (\<lambda>a. ret (Some a)))"

definition rateOk :: "'v human_deps \<Rightarrow> ('v, bool) plane_eff" where
  "rateOk deps = ask (\<lambda>w. case hd_rate deps (pl_outer w) of (ok, v) \<Rightarrow> (ok, w\<lparr>pl_outer := v\<rparr>))"

definition reply :: "nat \<Rightarrow> payload \<Rightarrow> ('v, http_result) plane_eff" where
  "reply status fs = ret \<lparr>hr_status = status, hr_body = VObj fs\<rparr>"

definition fail :: "nat \<Rightarrow> string \<Rightarrow> ('v, http_result) plane_eff" where
  "fail status e = reply status [(''error'', VStr e)]"

definition opt_str :: "string option \<Rightarrow> js_val" where
  "opt_str s = (case s of None \<Rightarrow> VUndef | Some t \<Rightarrow> VStr t)"

definition detail_or :: "human_answer \<Rightarrow> string \<Rightarrow> string" where
  "detail_or a d = (case ha_detail a of None \<Rightarrow> d | Some t \<Rightarrow> t)"

section \<open>Requests\<close>

definition STEERABLE :: "task_state list" where
  "STEERABLE = [S_PROPOSED, S_ANALYZING, S_READY, S_IMPLEMENTING, S_VERIFYING, S_FAILED, S_DIAGNOSING, S_REPAIRING,
     S_PASSED, S_REVIEWING, S_CHANGES_REQUESTED, S_PAUSED]"

definition authed :: "http_like \<Rightarrow> string \<Rightarrow> bool" where
  "authed rq token \<longleftrightarrow> hq_auth rq = Some (''Bearer '' @ token)"

definition request_path :: "http_like \<Rightarrow> string" where
  "request_path rq = takeWhile (\<lambda>c. c \<noteq> CHR ''?'') (hq_path rq)"

text \<open>\<open>JSON.parse(req.body)\<close>, then a field of it: a field of \<open>null\<close> is a \<open>TypeError\<close> nothing catches.\<close>

definition with_body :: "'v human_deps \<Rightarrow> http_like \<Rightarrow> (js_val \<Rightarrow> ('v, http_result) plane_eff) \<Rightarrow> ('v, http_result) plane_eff" where
  "with_body deps rq k =
     (case hd_parse deps (hq_body rq) of
        None \<Rightarrow> fail 400 ''bad_json''
      | Some v \<Rightarrow> if v = VNull then raise ''TypeError'' else k v)"

definition decision_of :: "js_val \<Rightarrow> decision option" where
  "decision_of body =
     (let d = val_get body ''decision'' in
      if d = VStr ''approve'' then Some DecApprove else if d = VStr ''reject'' then Some DecReject else None)"

definition attested :: "(js_num \<Rightarrow> string) \<Rightarrow> approval_package \<Rightarrow> js_val \<Rightarrow> bool" where
  "attested shw pkg body \<longleftrightarrow>
     (let given = (case val_get body ''attestations'' of VArr vs \<Rightarrow> map (js_String shw) vs | _ \<Rightarrow> []) in
      list_all (\<lambda>a. a \<in> set given) (ap_attest pkg))"

definition auth_failure :: "js_val \<Rightarrow> string" where
  "auth_failure e =
     (let r = val_get e ''reason'' in
      if r = VStr ''evidence_auth_unavailable'' then ''evidence_auth_unavailable'' else ''evidence_auth_mismatch'')"

definition verifierUnavailable :: "string \<Rightarrow> js_val" where
  "verifierUnavailable detail =
     VObj [(''message'', VStr detail), (''reason'', VStr ''evidence_auth_unavailable''), (''code'', VStr ''verifier_unavailable'')]"

text \<open>\<open>None\<close> when the evidence verifies, else the error of the answer.\<close>

definition verify_at :: "'v human_deps \<Rightarrow> approval_package \<Rightarrow> boundary \<Rightarrow> string \<Rightarrow> ('v, string option) plane_eff" where
  "verify_at deps pkg b missing =
     (let invalid = (\<lambda>e. optional (map_option (\<lambda>f. f (ap_task pkg) e b) (hd_invalid deps))) in
      case hd_verify deps of
        None \<Rightarrow> bind (invalid (verifierUnavailable missing)) (\<lambda>_. ret (Some ''evidence_auth_unavailable''))
      | Some f \<Rightarrow>
          bind (outer_caught (f pkg b)) (\<lambda>r.
          case r of
            Inr _ \<Rightarrow> ret None
          | Inl e \<Rightarrow> bind (invalid e) (\<lambda>_. ret (Some (auth_failure e)))))"

definition human_event :: "'v human_deps \<Rightarrow> string option \<Rightarrow> event_type \<Rightarrow> payload \<Rightarrow> new_event" where
  "human_event deps task t fs = \<lparr>ne_run = hd_run deps, ne_task = task, ne_type = t, ne_payload = fs\<rparr>"

definition decision_event :: "'v human_deps \<Rightarrow> event_type \<Rightarrow> string \<Rightarrow> string \<Rightarrow> decision \<Rightarrow> new_event" where
  "decision_event deps t task i d =
     human_event deps (Some task) t [(''approvalId'', VStr i), (''decision'', VStr (decision_name d))]"

definition governance_approval :: "'v human_deps \<Rightarrow> string \<Rightarrow> ('v, http_result) plane_eff" where
  "governance_approval deps i =
     (case hd_gov_approve deps of
        None \<Rightarrow> fail 404 ''no_such_approval''
      | Some f \<Rightarrow>
          bind (outer (f i)) (\<lambda>a.
          if ha_ok a then reply 200 [(''kind'', opt_str (ha_state a))]
          else if ha_detail a = Some ''no_such_proposal'' then fail 404 ''no_such_approval''
          else fail 409 (detail_or a ''governance_refused'')))"

definition record_task_decision :: "'v human_deps \<Rightarrow> string \<Rightarrow> approval_package \<Rightarrow> decision \<Rightarrow> ('v, http_result) plane_eff" where
  "record_task_decision deps i pkg d =
     bind (log_event (decision_event deps E_APPROVAL_RECORDED (ap_task pkg) i d)) (\<lambda>_.
     bind (outer (hd_decision deps (ap_task pkg) d)) (\<lambda>a.
     if \<not> ha_ok a then fail 409 (detail_or a ''transition_refused'')
     else
       bind (ask (\<lambda>w. ((), w\<lparr>pl_approvals := AList.delete i (pl_approvals w)\<rparr>))) (\<lambda>_.
       reply 200 [(''state'', opt_str (ha_state a))])))"

definition task_decision :: "'v human_deps \<Rightarrow> string \<Rightarrow> approval_package \<Rightarrow> js_val \<Rightarrow> ('v, http_result) plane_eff" where
  "task_decision deps i pkg body =
     (case decision_of body of
        None \<Rightarrow> fail 400 ''decision must be approve|reject''
      | Some d \<Rightarrow>
          bind (looked (hd_steering deps)) (\<lambda>st.
          if st = Some S_PAUSED then fail 409 ''paused_resume_first''
          else if d = DecApprove \<and> \<not> attested (hd_shw deps) pkg body then fail 400 ''attestations_incomplete''
          else
            bind (verify_at deps pkg HumanApproval ''approval evidence authenticator is unavailable'') (\<lambda>bad.
            case bad of Some e \<Rightarrow> fail 409 e | None \<Rightarrow> record_task_decision deps i pkg d)))"

definition record_deploy_decision :: "'v human_deps \<Rightarrow> approval_package \<Rightarrow> decision \<Rightarrow> ('v, string + human_answer) callback \<Rightarrow> ('v, http_result) plane_eff" where
  "record_deploy_decision deps pkg d f =
     bind (log_event (decision_event deps E_DEPLOY_DECISION (ap_task pkg) (ap_id pkg) d)) (\<lambda>_.
     bind (outer f) (\<lambda>a.
     if \<not> ha_ok a then fail 409 (detail_or a ''deploy_decision_refused'')
     else reply 200 [(''state'', case ha_state a of None \<Rightarrow> VNull | Some t \<Rightarrow> VStr t)]))"

definition deploy_decision :: "'v human_deps \<Rightarrow> approval_package \<Rightarrow> js_val \<Rightarrow> (decision \<Rightarrow> ('v, string + human_answer) callback) \<Rightarrow> ('v, http_result) plane_eff" where
  "deploy_decision deps pkg body f =
     (case decision_of body of
        None \<Rightarrow> fail 400 ''decision must be approve|reject''
      | Some d \<Rightarrow>
          if d = DecApprove \<and> \<not> attested (hd_shw deps) pkg body then fail 400 ''attestations_incomplete''
          else
            bind (if d = DecApprove then verify_at deps pkg DeployApproval ''deploy evidence authenticator is unavailable''
                  else ret None) (\<lambda>bad.
            case bad of Some e \<Rightarrow> fail 409 e | None \<Rightarrow> record_deploy_decision deps pkg d (f d)))"

definition not_composed :: "string \<Rightarrow> ('v, http_result) plane_eff" where
  "not_composed what = reply 501 [(''error'', VStr ''not_enabled_phase1''), (''detail'', VStr (what @ '' not composed''))]"

definition deploy_state_val :: "deploy_state option option \<Rightarrow> js_val" where
  "deploy_state_val st = (case st of Some (Some d) \<Rightarrow> VStr (deploy_state_name d) | _ \<Rightarrow> VNull)"

definition deploy_rollback :: "'v human_deps \<Rightarrow> ('v, http_result) plane_eff" where
  "deploy_rollback deps =
     (case hd_deploy_rollback deps of
        None \<Rightarrow> not_composed ''deploy''
      | Some f \<Rightarrow>
          bind (looked (hd_deploy_state deps)) (\<lambda>st.
          if st \<noteq> Some (Some D_EXPANDED)
          then reply 409 [(''error'', VStr ''not_expanded''), (''state'', deploy_state_val st)]
          else
            bind (outer f) (\<lambda>a.
            if \<not> ha_ok a then fail 409 (detail_or a ''rollback_refused'')
            else reply 200 [(''ok'', VBool True)])))"

definition inject_result :: "(string + string) option \<Rightarrow> payload \<Rightarrow> ('v, http_result) plane_eff" where
  "inject_result r queued =
     (case r of
        None \<Rightarrow> fail 409 ''inject_failed''
      | Some (Inl why) \<Rightarrow> fail 409 why
      | Some (Inr ref) \<Rightarrow> reply 202 (queued @ [(''evidenceRef'', VStr ref)]))"

definition inject_now :: "'v human_deps \<Rightarrow> string \<Rightarrow> bool \<Rightarrow> ('v, (string + string) option) plane_eff" where
  "inject_now deps guidance later =
     (case hd_inject deps of None \<Rightarrow> ret None | Some f \<Rightarrow> bind (outer (f guidance later)) (\<lambda>r. ret (Some r)))"

definition inject_guidance :: "'v human_deps \<Rightarrow> task_state option \<Rightarrow> js_val \<Rightarrow> ('v, http_result) plane_eff" where
  "inject_guidance deps st body =
     (case val_get body ''guidance'' of
        VStr g \<Rightarrow>
          if g = [] then fail 400 ''guidance must be a non-empty string''
          else if st \<noteq> Some S_PAUSED then
            (if val_get body ''atNextBoundary'' \<noteq> VBool True \<or> (case st of None \<Rightarrow> True | Some t \<Rightarrow> t \<notin> set STEERABLE)
             then reply 409 [(''error'', VStr ''not_paused''), (''state'', opt_str (map_option state_name st))]
             else bind (inject_now deps g True) (\<lambda>r. inject_result r [(''queued'', VBool True)]))
          else bind (inject_now deps g False) (\<lambda>r. inject_result r [])
      | _ \<Rightarrow> fail 400 ''guidance must be a non-empty string'')"

definition steering :: "'v human_deps \<Rightarrow> http_like \<Rightarrow> string \<Rightarrow> ('v, http_result) plane_eff" where
  "steering deps rq path =
     (case hd_pause deps of
        None \<Rightarrow> not_composed ''steering''
      | Some pause \<Rightarrow>
          bind (looked (hd_steering deps)) (\<lambda>st.
          if path = ''/steering/pause'' then
            (if st \<noteq> None \<and> the st \<notin> set STEERABLE
             then reply 409 [(''error'', VStr ''not_steerable''), (''state'', VStr (state_name (the st)))]
             else bind (outer pause) (\<lambda>_. reply 202 [(''state'', VStr ''pause_requested'')]))
          else if path = ''/steering/resume''
          then bind (optional (hd_resume deps)) (\<lambda>_. reply 202 [(''state'', VStr ''resumed'')])
          else if path = ''/steering/inject'' then with_body deps rq (inject_guidance deps st)
          else fail 404 ''not_found''))"

text \<open>The requests on approvals; the id is what follows the prefix.\<close>

definition approval_request :: "'v human_deps \<Rightarrow> http_like \<Rightarrow> string \<Rightarrow> ('v, http_result) plane_eff" where
  "approval_request deps rq i =
     bind (ask (\<lambda>w. (map_of (pl_approvals w) i, w))) (\<lambda>pkg.
     case pkg of
       None \<Rightarrow> governance_approval deps i
     | Some p \<Rightarrow> with_body deps rq (task_decision deps i p))"

definition list_approvals :: "'v human_deps \<Rightarrow> ('v, http_result) plane_eff" where
  "list_approvals deps =
     bind (ask (\<lambda>w. (map (package_val \<circ> snd) (pl_approvals w), w))) (\<lambda>tasks.
     bind (looked (hd_proposals deps)) (\<lambda>ps.
     ret \<lparr>hr_status = 200, hr_body = VArr (tasks @ (case ps of None \<Rightarrow> [] | Some vs \<Rightarrow> vs))\<rparr>))"

definition list_events :: "'v human_deps \<Rightarrow> ('v, http_result) plane_eff" where
  "list_events deps s =
     (case hd_events deps (pl_outer (sys_world s)) (sys_log s) of
        Inl e \<Rightarrow> (Inl e, s)
      | Inr v \<Rightarrow> (Inr \<lparr>hr_status = 200, hr_body = v\<rparr>, s))"

definition deploy_package :: "'v human_deps \<Rightarrow> ('v, approval_package option) plane_eff" where
  "deploy_package deps = bind (looked (hd_deploy_package deps)) (\<lambda>p. ret (case p of None \<Rightarrow> None | Some q \<Rightarrow> q))"

definition deploy_view :: "'v human_deps \<Rightarrow> ('v, http_result) plane_eff" where
  "deploy_view deps =
     (case hd_deploy_state deps of
        None \<Rightarrow> not_composed ''deploy''
      | Some f \<Rightarrow>
          bind (look f) (\<lambda>st.
          bind (deploy_package deps) (\<lambda>p.
          reply 200 [(''state'', deploy_state_val (Some st)),
            (''approval'', case p of None \<Rightarrow> VNull | Some q \<Rightarrow> package_val q)])))"

definition deploy_request :: "'v human_deps \<Rightarrow> http_like \<Rightarrow> ('v, http_result) plane_eff" where
  "deploy_request deps rq =
     (case hd_deploy_decision deps of
        None \<Rightarrow> not_composed ''deploy''
      | Some f \<Rightarrow>
          bind (deploy_package deps) (\<lambda>p.
          case p of
            None \<Rightarrow> fail 404 ''no_pending_deploy''
          | Some pkg \<Rightarrow> with_body deps rq (\<lambda>body. deploy_decision deps pkg body f)))"

definition kill_request :: "'v human_deps \<Rightarrow> ('v, http_result) plane_eff" where
  "kill_request deps =
     bind (log_event (human_event deps None E_KILL_REQUESTED [])) (\<lambda>_.
     bind (outer (hd_kill deps)) (\<lambda>_.
     reply 200 [(''killed'', VBool True)]))"

definition route_request :: "'v human_deps \<Rightarrow> http_like \<Rightarrow> ('v, http_result) plane_eff" where
  "route_request deps rq =
     (let path = request_path rq; get_req = (hq_method rq = ''GET''); post = (hq_method rq = ''POST'') in
      if get_req \<and> path = ''/approvals'' then list_approvals deps
      else if post \<and> str_prefix ''/approvals/'' path then approval_request deps rq (drop (length ''/approvals/'') path)
      else if get_req \<and> path = ''/events'' then list_events deps
      else if post \<and> path = ''/kill'' then kill_request deps
      else if get_req \<and> path = ''/deploy'' then deploy_view deps
      else if post \<and> path = ''/deploy/decision'' then deploy_request deps rq
      else if post \<and> path = ''/deploy/rollback'' then deploy_rollback deps
      else if post \<and> str_prefix ''/steering/'' path then steering deps rq path
      else fail 404 ''not_found'')"

definition handleHumanRequest :: "'v human_deps \<Rightarrow> http_like \<Rightarrow> ('v, http_result) plane_eff" where
  "handleHumanRequest deps rq =
     bind (rateOk deps) (\<lambda>ok.
     if \<not> ok then fail 429 ''rate_limited''
     else if \<not> authed rq (hd_token deps) then fail 401 ''unauthorized''
     else route_request deps rq)"

section \<open>What a request can do\<close>

definition appended :: "'a \<times> new_event list \<times> 'v \<Rightarrow> new_event list" where
  "appended x = fst (snd x)"

lemma appended_pair [simp]: "appended (r, evs, v) = evs"
  by (simp add: appended_def)

text \<open>The events a callback may append to the log without a decision or a kill having been recorded: only the
  callbacks of the request's own route are called.\<close>

definition at_boundary :: "http_like \<Rightarrow> boundary \<Rightarrow> bool" where
  "at_boundary rq b \<longleftrightarrow> (case b of HumanApproval \<Rightarrow> str_prefix ''/approvals/'' (request_path rq)
     | DeployApproval \<Rightarrow> request_path rq = ''/deploy/decision'')"

inductive side :: "'v human_deps \<Rightarrow> http_like \<Rightarrow> new_event list \<Rightarrow> bool" for deps rq where
  verify: "hd_verify deps = Some f \<Longrightarrow> at_boundary rq b \<Longrightarrow> side deps rq (appended (f pkg b L v))"
| invalid: "hd_invalid deps = Some f \<Longrightarrow> at_boundary rq b \<Longrightarrow> side deps rq (appended (f task e b L v))"
| governance: "hd_gov_approve deps = Some f \<Longrightarrow> request_path rq = ''/approvals/'' @ i \<Longrightarrow> side deps rq (appended (f i L v))"
| rollback: "hd_deploy_rollback deps = Some f \<Longrightarrow> request_path rq = ''/deploy/rollback'' \<Longrightarrow> side deps rq (appended (f L v))"
| pause: "hd_pause deps = Some f \<Longrightarrow> request_path rq = ''/steering/pause'' \<Longrightarrow> side deps rq (appended (f L v))"
| resume: "hd_resume deps = Some f \<Longrightarrow> request_path rq = ''/steering/resume'' \<Longrightarrow> side deps rq (appended (f L v))"
| inject: "hd_inject deps = Some f \<Longrightarrow> request_path rq = ''/steering/inject'' \<Longrightarrow> side deps rq (appended (f g later L v))"

text \<open>The handler itself appended nothing and kept the approvals.\<close>

definition extended :: "(new_event list \<Rightarrow> bool) \<Rightarrow> new_event list \<Rightarrow> (string \<times> approval_package) list \<Rightarrow> 'v plane sys \<Rightarrow> bool" where
  "extended S L A s \<longleftrightarrow> (\<exists>ess. list_all S ess \<and> sys_log s = L @ concat ess) \<and> pl_approvals (sys_world s) = A"

definition quiet_eff :: "(new_event list \<Rightarrow> bool) \<Rightarrow> ('v, 'a) plane_eff \<Rightarrow> bool" where
  "quiet_eff S m \<longleftrightarrow> (\<forall>L A. eff_ok (extended S L A) m (\<lambda>_. extended S L A) (extended S L A))"

lemma extended_refl: "extended S (sys_log s) (pl_approvals (sys_world s)) s"
  unfolding extended_def by (auto intro: exI [of _ "[]"])

lemma extended_after: "extended S L A s \<Longrightarrow> S evs \<Longrightarrow> extended S L A (after_call evs v s)"
proof -
  assume "extended S L A s" "S evs"
  then obtain ess where ess: "list_all S ess" "sys_log s = L @ concat ess" and A: "pl_approvals (sys_world s) = A"
    by (auto simp: extended_def)
  have "list_all S (ess @ [evs]) \<and> sys_log (after_call evs v s) = L @ concat (ess @ [evs])"
    using ess \<open>S evs\<close> by (simp add: after_call_def)
  then show ?thesis using A unfolding extended_def by (intro conjI exI [of _ "ess @ [evs]"]) (simp_all add: after_call_def)
qed

lemma quiet_run:
  assumes "quiet_eff S m" "m s = (r, s')"
  shows "extended S (sys_log s) (pl_approvals (sys_world s)) s'"
  using assms extended_refl [of S s] by (cases r) (auto simp: quiet_eff_def dest: eff_okD eff_okE)

named_theorems quiet_rules "parts of the handler that append nothing of their own"

lemma quiet_bind [quiet_rules]: "quiet_eff S m \<Longrightarrow> (\<And>a. quiet_eff S (f a)) \<Longrightarrow> quiet_eff S (bind m f)"
  unfolding quiet_eff_def by (blast intro: eff_ok_bind)

lemma quiet_ret [quiet_rules]: "quiet_eff S (ret a)"
  by (simp add: quiet_eff_def eff_ok_ret)

lemma quiet_raise [quiet_rules]: "quiet_eff S (raise e)"
  by (simp add: quiet_eff_def eff_ok_raise)

lemma quiet_look [quiet_rules]: "quiet_eff S (look h)"
  by (simp add: quiet_eff_def look_def eff_ok_def)

lemma quiet_outer [quiet_rules]:
  "(\<And>L v. S (appended (f L v))) \<Longrightarrow> quiet_eff S (outer f)"
  "(\<And>L v. S (appended (g L v))) \<Longrightarrow> quiet_eff S (outer_caught g)"
  by (auto simp: quiet_eff_def outer_def outer_caught_def eff_ok_def appended_def intro!: extended_after
      split: prod.splits sum.splits) (metis fst_conv snd_conv)+

lemma quiet_looked [quiet_rules]: "quiet_eff S (looked g)"
  by (cases g) (simp_all add: looked_def quiet_rules)

lemma quiet_optional [quiet_rules]:
  "(\<And>f L v. g = Some f \<Longrightarrow> S (appended (f L v))) \<Longrightarrow> quiet_eff S (optional g)"
  by (cases g) (simp_all add: optional_def quiet_rules)

lemma quiet_reply [quiet_rules]: "quiet_eff S (reply n fs)" "quiet_eff S (fail n e)" "quiet_eff S (not_composed w)"
  by (simp_all add: reply_def fail_def not_composed_def quiet_rules)

lemma quiet_if [quiet_rules]:
  "(c \<Longrightarrow> quiet_eff S m) \<Longrightarrow> (\<not> c \<Longrightarrow> quiet_eff S n) \<Longrightarrow> quiet_eff S (if c then m else n)"
  by simp

lemma quiet_option [quiet_rules]:
  "(x = None \<Longrightarrow> quiet_eff S m) \<Longrightarrow> (\<And>a. x = Some a \<Longrightarrow> quiet_eff S (f a)) \<Longrightarrow>
   quiet_eff S (case x of None \<Rightarrow> m | Some a \<Rightarrow> f a)"
  by (cases x) simp_all

lemma quiet_body [quiet_rules]: "(\<And>v. quiet_eff S (k v)) \<Longrightarrow> quiet_eff S (with_body deps rq k)"
  unfolding with_body_def by (intro quiet_rules)

lemma quiet_inject:
  assumes "request_path rq = ''/steering/inject''"
  shows "quiet_eff (side deps rq) (inject_guidance deps st body)"
proof -
  have now: "quiet_eff (side deps rq) (inject_now deps g b)" for g b
    unfolding inject_now_def by (intro quiet_rules side.inject assms)
  have result: "quiet_eff (side deps rq) (inject_result r q)" for r q
    by (auto simp: inject_result_def quiet_rules split: option.splits sum.splits)
  show ?thesis
    unfolding inject_guidance_def by (cases "val_get body ''guidance''") (auto intro!: quiet_rules now result)
qed

lemma quiet_governance: "request_path rq = ''/approvals/'' @ i \<Longrightarrow> quiet_eff (side deps rq) (governance_approval deps i)"
  unfolding governance_approval_def by (intro quiet_rules side.governance)

lemma quiet_steering: "quiet_eff (side deps rq) (steering deps rq (request_path rq))"
  unfolding steering_def by (intro quiet_rules quiet_inject side.pause side.resume)

lemma quiet_rollback: "request_path rq = ''/deploy/rollback'' \<Longrightarrow> quiet_eff (side deps rq) (deploy_rollback deps)"
  unfolding deploy_rollback_def by (intro quiet_rules side.rollback)

lemma quiet_views [quiet_rules]: "quiet_eff S (deploy_package deps)" "quiet_eff S (deploy_view deps)"
  by (auto simp: deploy_package_def deploy_view_def intro!: quiet_rules split: option.splits)

lemma quiet_lists [quiet_rules]: "quiet_eff S (list_approvals deps)" "quiet_eff S (list_events deps)"
  by (auto simp: list_approvals_def list_events_def quiet_eff_def eff_ok_def bind_def ask_def looked_def look_def ret_def
      split: prod.splits sum.splits option.splits)

lemma quiet_verify: "at_boundary rq b \<Longrightarrow> quiet_eff (side deps rq) (verify_at deps pkg b m)"
  unfolding verify_at_def Let_def
  by (intro quiet_rules) (auto intro!: quiet_rules side.verify side.invalid split: sum.splits)

text \<open>What the body of a request decides on a package, and the boundary verifying its evidence.\<close>

definition asked :: "'v human_deps \<Rightarrow> http_like \<Rightarrow> approval_package \<Rightarrow> decision \<Rightarrow> bool" where
  "asked deps rq pkg d \<longleftrightarrow>
     (\<exists>body. hd_parse deps (hq_body rq) = Some body \<and> decision_of body = Some d \<and>
       (d = DecApprove \<longrightarrow> attested (hd_shw deps) pkg body))"

definition evidence_verified :: "'v human_deps \<Rightarrow> approval_package \<Rightarrow> boundary \<Rightarrow> 'v plane sys \<Rightarrow> 'v plane sys \<Rightarrow> bool" where
  "evidence_verified deps pkg b s s1 \<longleftrightarrow>
     (\<exists>f evs v. hd_verify deps = Some f \<and> f pkg b (sys_log s) (pl_outer (sys_world s)) = (Inr (), evs, v) \<and>
       s1 = after_call evs v s)"

text \<open>An event is appended first, then the callback it announces runs, once.\<close>

definition recorded :: "new_event \<Rightarrow> ('v, string + 'a) callback \<Rightarrow> 'v plane sys \<Rightarrow> string + 'a \<Rightarrow> 'v plane sys \<Rightarrow> bool" where
  "recorded ev f s a s' \<longleftrightarrow>
     (\<exists>evs v. f (sys_log s @ [ev]) (pl_outer (sys_world s)) = (a, evs, v) \<and> s' = after_call ([ev] @ evs) v s)"

definition agreed :: "string + human_answer \<Rightarrow> bool" where
  "agreed a \<longleftrightarrow> (\<exists>x. a = Inr x \<and> ha_ok x)"

definition answered :: "string + http_result \<Rightarrow> bool" where
  "answered r \<longleftrightarrow> (\<exists>res. r = Inr res \<and> hr_status res = 200)"

definition without_approval :: "string \<Rightarrow> 'v plane sys \<Rightarrow> 'v plane sys" where
  "without_approval i s = s\<lparr>sys_world := (sys_world s)\<lparr>pl_approvals := AList.delete i (pl_approvals (sys_world s))\<rparr>\<rparr>"

definition task_decided ::
    "'v human_deps \<Rightarrow> http_like \<Rightarrow> 'v plane sys \<Rightarrow> string + http_result \<Rightarrow> 'v plane sys \<Rightarrow> bool" where
  "task_decided deps rq s r s' \<longleftrightarrow>
     (\<exists>i pkg d s1 a s2. hq_method rq = ''POST'' \<and> request_path rq = ''/approvals/'' @ i \<and>
       map_of (pl_approvals (sys_world s)) i = Some pkg \<and> asked deps rq pkg d \<and>
       (\<forall>f. hd_steering deps = Some f \<longrightarrow> f (sys_log s) (pl_outer (sys_world s)) \<noteq> S_PAUSED) \<and>
       evidence_verified deps pkg HumanApproval s s1 \<and>
       recorded (decision_event deps E_APPROVAL_RECORDED (ap_task pkg) i d) (hd_decision deps (ap_task pkg) d) s1 a s2 \<and>
       s' = (if agreed a then without_approval i s2 else s2) \<and> (answered r \<longleftrightarrow> agreed a))"

definition deploy_decided ::
    "'v human_deps \<Rightarrow> http_like \<Rightarrow> 'v plane sys \<Rightarrow> string + http_result \<Rightarrow> 'v plane sys \<Rightarrow> bool" where
  "deploy_decided deps rq s r s' \<longleftrightarrow>
     (\<exists>p f pkg d s1 a. hq_method rq = ''POST'' \<and> request_path rq = ''/deploy/decision'' \<and>
       hd_deploy_package deps = Some p \<and> p (sys_log s) (pl_outer (sys_world s)) = Some pkg \<and>
       hd_deploy_decision deps = Some f \<and> asked deps rq pkg d \<and>
       (if d = DecApprove then evidence_verified deps pkg DeployApproval s s1 else s1 = s) \<and>
       recorded (decision_event deps E_DEPLOY_DECISION (ap_task pkg) (ap_id pkg) d) (f d) s1 a s' \<and>
       (answered r \<longleftrightarrow> agreed a))"

definition killed :: "'v human_deps \<Rightarrow> http_like \<Rightarrow> 'v plane sys \<Rightarrow> 'v plane sys \<Rightarrow> bool" where
  "killed deps rq s s' \<longleftrightarrow> hq_method rq = ''POST'' \<and> request_path rq = ''/kill'' \<and>
     (\<exists>a. recorded (human_event deps None E_KILL_REQUESTED []) (hd_kill deps) s a s')"

text \<open>The requests that are answered with success only once something has been recorded.\<close>

definition must_record :: "http_like \<Rightarrow> 'v plane sys \<Rightarrow> bool" where
  "must_record rq s \<longleftrightarrow> hq_method rq = ''POST'' \<and>
     (request_path rq = ''/kill'' \<or> request_path rq = ''/deploy/decision'' \<or>
      (\<exists>i pkg. request_path rq = ''/approvals/'' @ i \<and> map_of (pl_approvals (sys_world s)) i = Some pkg))"

definition acted ::
    "'v human_deps \<Rightarrow> http_like \<Rightarrow> 'v plane sys \<Rightarrow> string + http_result \<Rightarrow> 'v plane sys \<Rightarrow> bool" where
  "acted deps rq s r s' \<longleftrightarrow>
     extended (side deps rq) (sys_log s) (pl_approvals (sys_world s)) s' \<and> \<not> (answered r \<and> must_record rq s) \<or>
     task_decided deps rq s r s' \<or> deploy_decided deps rq s r s' \<or> killed deps rq s s'"

lemma acted_quiet: "quiet_eff (side deps rq) m \<Longrightarrow> \<not> must_record rq s \<Longrightarrow> m s = (r, s') \<Longrightarrow> acted deps rq s r s'"
  unfolding acted_def by (blast dest: quiet_run)

lemma acted_refused:
  "n \<noteq> 200 \<Longrightarrow> fail n e s = (r, s') \<Longrightarrow> acted deps rq s r s'"
  "raise x s = (r, s') \<Longrightarrow> acted deps rq s r s'"
  "not_composed w s = (r, s') \<Longrightarrow> acted deps rq s r s'"
  using extended_refl [of "side deps rq" s]
  by (auto simp: acted_def fail_def raise_def not_composed_def reply_def ret_def answered_def)

lemma bind_looked: "bind (looked f) k s = k (map_option (\<lambda>g. g (sys_log s) (pl_outer (sys_world s))) f) s"
  by (cases f) (simp_all add: looked_def bind_def look_def ret_def)

lemma answered_fail: "n \<noteq> 200 \<Longrightarrow> fail n e s = (r, s') \<Longrightarrow> s' = s \<and> \<not> answered r"
  by (auto simp: fail_def reply_def ret_def answered_def)

lemma answered_reply: "reply 200 fs s = (r, s') \<Longrightarrow> s' = s \<and> answered r"
  by (auto simp: reply_def ret_def answered_def)

lemma verify_at_passed:
  "verify_at deps pkg b m s = (Inr None, s1) \<Longrightarrow> evidence_verified deps pkg b s s1"
  by (auto simp: verify_at_def bind_def outer_caught_def ret_def evidence_verified_def split: option.splits sum.splits prod.splits)

text \<open>A boundary refuses, throws, or has verified.\<close>

lemma verify_acts:
  assumes "at_boundary rq b" "bind (verify_at deps pkg b m) (\<lambda>bad. case bad of Some e \<Rightarrow> fail 409 e | None \<Rightarrow> k) s = (r, s')"
    and "\<And>s1. evidence_verified deps pkg b s s1 \<Longrightarrow> k s1 = (r, s') \<Longrightarrow> acted deps rq s r s'"
  shows "acted deps rq s r s'"
proof -
  obtain x s1 where x: "verify_at deps pkg b m s = (x, s1)" by fastforce
  have quiet: "extended (side deps rq) (sys_log s) (pl_approvals (sys_world s)) s1"
    by (rule quiet_run [OF quiet_verify [OF assms(1)] x])
  show ?thesis
  proof (cases x)
    case (Inl e)
    then show ?thesis using assms(2) x quiet by (auto simp: bind_def acted_def answered_def)
  next
    case (Inr bad)
    then show ?thesis
    proof (cases bad)
      case None
      then show ?thesis using assms(2,3) x Inr verify_at_passed by (fastforce simp: bind_def)
    next
      case (Some e)
      then have "fail 409 e s1 = (r, s')" using assms(2) x Inr by (simp add: bind_def)
      then show ?thesis using quiet answered_fail [of 409 e s1 r s'] by (simp add: acted_def)
    qed
  qed
qed

lemma recorded_run:
  assumes "bind (log_event ev) (\<lambda>_. bind (outer f) k) s = (r, s')"
  obtains a s1 where "recorded ev f s a s1" "\<And>e. a = Inl e \<Longrightarrow> r = Inl e \<and> s' = s1" "\<And>x. a = Inr x \<Longrightarrow> k x s1 = (r, s')"
proof -
  obtain a evs v where f: "f (sys_log s @ [ev]) (pl_outer (sys_world s)) = (a, evs, v)" by (metis surj_pair)
  have "recorded ev f s a (after_call ([ev] @ evs) v s)" using f by (auto simp: recorded_def)
  moreover have "after_call evs v (s\<lparr>sys_log := sys_log s @ [ev]\<rparr>) = after_call ([ev] @ evs) v s" by (simp add: after_call_def)
  ultimately show thesis
    using assms f that by (cases a) (auto simp: bind_def log_event_def outer_def)
qed

lemma record_task_decision_run:
  assumes "record_task_decision deps i pkg d s = (r, s')"
  shows "\<exists>a s2. recorded (decision_event deps E_APPROVAL_RECORDED (ap_task pkg) i d) (hd_decision deps (ap_task pkg) d) s a s2 \<and>
    s' = (if agreed a then without_approval i s2 else s2) \<and> (answered r \<longleftrightarrow> agreed a)"
proof (rule recorded_run [OF assms [unfolded record_task_decision_def]])
  fix a s2
  assume rec: "recorded (decision_event deps E_APPROVAL_RECORDED (ap_task pkg) i d) (hd_decision deps (ap_task pkg) d) s a s2"
    and thrown: "\<And>e. a = Inl e \<Longrightarrow> r = Inl e \<and> s' = s2"
    and more: "\<And>x. a = Inr x \<Longrightarrow> (if \<not> ha_ok x then fail 409 (detail_or x ''transition_refused'')
      else bind (ask (\<lambda>w. ((), w\<lparr>pl_approvals := AList.delete i (pl_approvals w)\<rparr>))) (\<lambda>_. reply 200 [(''state'', opt_str (ha_state x))])) s2 = (r, s')"
  have "s' = (if agreed a then without_approval i s2 else s2) \<and> (answered r \<longleftrightarrow> agreed a)"
  proof (cases a)
    case (Inr x)
    then show ?thesis using more [OF Inr]
      by (auto simp: agreed_def bind_def ask_def without_approval_def dest!: answered_fail [rotated] answered_reply split: if_splits)
  qed (use thrown in \<open>auto simp: agreed_def answered_def\<close>)
  then show ?thesis using rec by blast
qed

lemma prefixed: "str_prefix p s \<Longrightarrow> s = p @ drop (length p) s"
  unfolding str_prefix_def by (metis append_take_drop_id)

lemma at_human: "request_path rq = ''/approvals/'' @ i \<Longrightarrow> at_boundary rq HumanApproval"
  by (simp add: at_boundary_def str_prefix_def)

lemma task_decision_acts:
  assumes "hq_method rq = ''POST''" "request_path rq = ''/approvals/'' @ i"
    and "map_of (pl_approvals (sys_world s)) i = Some pkg" "hd_parse deps (hq_body rq) = Some body"
    and run: "task_decision deps i pkg body s = (r, s')"
  shows "acted deps rq s r s'"
proof (cases "decision_of body")
  case None
  then show ?thesis using run by (auto simp: task_decision_def intro: acted_refused(1) [rotated])
next
  case (Some d)
  let ?st = "map_option (\<lambda>g. g (sys_log s) (pl_outer (sys_world s))) (hd_steering deps)"
  show ?thesis
  proof (cases "?st = Some S_PAUSED \<or> d = DecApprove \<and> \<not> attested (hd_shw deps) pkg body")
    case True
    then show ?thesis using run Some
      by (auto simp: task_decision_def bind_looked intro: acted_refused(1) [rotated] split: if_splits)
  next
    case False
    then have go: "(?st = Some S_PAUSED) = False" "(d = DecApprove \<and> \<not> attested (hd_shw deps) pkg body) = False" by blast+
    have "bind (verify_at deps pkg HumanApproval ''approval evidence authenticator is unavailable'') (\<lambda>bad.
        case bad of Some e \<Rightarrow> fail 409 e | None \<Rightarrow> record_task_decision deps i pkg d) s = (r, s')"
      using run by (simp only: task_decision_def bind_looked Some option.case go if_False)
    then show ?thesis
    proof (rule verify_acts [OF at_human [OF assms(2)]])
      fix s1
      assume "evidence_verified deps pkg HumanApproval s s1" "record_task_decision deps i pkg d s1 = (r, s')"
      moreover have "asked deps rq pkg d" using Some False assms(4) by (auto simp: asked_def)
      ultimately have "task_decided deps rq s r s'"
        using assms(1-3) False record_task_decision_run [of deps i pkg d s1 r s']
        unfolding task_decided_def by (fastforce split: option.splits)
      then show "acted deps rq s r s'" by (simp add: acted_def)
    qed
  qed
qed

lemma record_deploy_decision_run:
  assumes "record_deploy_decision deps pkg d f s = (r, s')"
  shows "\<exists>a. recorded (decision_event deps E_DEPLOY_DECISION (ap_task pkg) (ap_id pkg) d) f s a s' \<and> (answered r \<longleftrightarrow> agreed a)"
proof (rule recorded_run [OF assms [unfolded record_deploy_decision_def]])
  fix a s2
  assume rec: "recorded (decision_event deps E_DEPLOY_DECISION (ap_task pkg) (ap_id pkg) d) f s a s2"
    and thrown: "\<And>e. a = Inl e \<Longrightarrow> r = Inl e \<and> s' = s2"
    and more: "\<And>x. a = Inr x \<Longrightarrow> (if \<not> ha_ok x then fail 409 (detail_or x ''deploy_decision_refused'')
      else reply 200 [(''state'', case ha_state x of None \<Rightarrow> VNull | Some t \<Rightarrow> VStr t)]) s2 = (r, s')"
  have "s' = s2 \<and> (answered r \<longleftrightarrow> agreed a)"
  proof (cases a)
    case (Inr x)
    then show ?thesis using more [OF Inr]
      by (auto simp: agreed_def dest!: answered_fail [rotated] answered_reply split: if_splits)
  qed (use thrown in \<open>auto simp: agreed_def answered_def\<close>)
  then show ?thesis using rec by blast
qed

lemma deploy_decision_acts:
  assumes "hq_method rq = ''POST''" "request_path rq = ''/deploy/decision''" "hd_parse deps (hq_body rq) = Some body"
    and "hd_deploy_package deps = Some p" "p (sys_log s) (pl_outer (sys_world s)) = Some pkg" "hd_deploy_decision deps = Some f"
    and run: "deploy_decision deps pkg body f s = (r, s')"
  shows "acted deps rq s r s'"
proof (cases "\<exists>d. decision_of body = Some d \<and> (d = DecApprove \<longrightarrow> attested (hd_shw deps) pkg body)")
  case False
  then show ?thesis using run
    by (auto simp: deploy_decision_def intro: acted_refused(1) [rotated] split: option.splits if_splits)
next
  case True
  then obtain d where d: "decision_of body = Some d" "d = DecApprove \<longrightarrow> attested (hd_shw deps) pkg body" by blast
  have ask: "asked deps rq pkg d" using d assms(3) by (auto simp: asked_def)
  have at: "at_boundary rq DeployApproval" using assms(2) by (simp add: at_boundary_def)
  have rec: "acted deps rq s r s'"
    if "if d = DecApprove then evidence_verified deps pkg DeployApproval s s1 else s1 = s"
      "record_deploy_decision deps pkg d (f d) s1 = (r, s')" for s1
    using that assms(1,2,4-6) ask record_deploy_decision_run [of deps pkg d "f d" s1 r s']
    unfolding acted_def deploy_decided_def by blast
  show ?thesis
  proof (cases d)
    case DecApprove
    then have "bind (verify_at deps pkg DeployApproval ''deploy evidence authenticator is unavailable'') (\<lambda>bad.
        case bad of Some e \<Rightarrow> fail 409 e | None \<Rightarrow> record_deploy_decision deps pkg DecApprove (f DecApprove)) s = (r, s')"
      using run d by (simp add: deploy_decision_def)
    then show ?thesis by (rule verify_acts [OF at]) (use rec DecApprove in simp)
  next
    case DecReject
    then show ?thesis using run d rec [of s] by (simp add: deploy_decision_def)
  qed
qed

lemma with_body_acts:
  assumes "with_body deps rq k s = (r, s')"
    and "\<And>body. hd_parse deps (hq_body rq) = Some body \<Longrightarrow> k body s = (r, s') \<Longrightarrow> acted deps rq s r s'"
  shows "acted deps rq s r s'"
  using assms unfolding with_body_def
  by (auto intro: acted_refused(1) [rotated] acted_refused(2) split: option.splits if_splits)

lemma approval_request_acts:
  assumes "hq_method rq = ''POST''" "request_path rq = ''/approvals/'' @ i" "approval_request deps rq i s = (r, s')"
  shows "acted deps rq s r s'"
proof (cases "map_of (pl_approvals (sys_world s)) i")
  case None
  then show ?thesis using assms
    by (auto simp: approval_request_def bind_def ask_def must_record_def intro: acted_quiet [OF quiet_governance])
next
  case (Some pkg)
  then have "with_body deps rq (task_decision deps i pkg) s = (r, s')"
    using assms(3) by (simp add: approval_request_def bind_def ask_def)
  then show ?thesis by (rule with_body_acts) (rule task_decision_acts [OF assms(1,2) Some])
qed

lemma deploy_package_run:
  "bind (deploy_package deps) k s =
     k (case hd_deploy_package deps of None \<Rightarrow> None | Some p \<Rightarrow> p (sys_log s) (pl_outer (sys_world s))) s"
  by (cases "hd_deploy_package deps") (simp_all add: deploy_package_def looked_def look_def bind_def ret_def)

lemma deploy_request_acts:
  assumes "hq_method rq = ''POST''" "request_path rq = ''/deploy/decision''" "deploy_request deps rq s = (r, s')"
  shows "acted deps rq s r s'"
proof (cases "\<exists>f p pkg. hd_deploy_decision deps = Some f \<and> hd_deploy_package deps = Some p \<and>
    p (sys_log s) (pl_outer (sys_world s)) = Some pkg")
  case True
  then obtain f p pkg where there: "hd_deploy_decision deps = Some f" "hd_deploy_package deps = Some p"
    "p (sys_log s) (pl_outer (sys_world s)) = Some pkg" by blast
  then have "with_body deps rq (\<lambda>body. deploy_decision deps pkg body f) s = (r, s')"
    using assms(3) by (simp add: deploy_request_def deploy_package_run)
  then show ?thesis by (rule with_body_acts) (rule deploy_decision_acts [OF assms(1,2) _ there(2,3,1)])
next
  case False
  then show ?thesis using assms(3)
    by (auto simp: deploy_request_def deploy_package_run
      intro: acted_refused(1) [rotated] acted_refused(3) split: option.splits)
qed

lemma kill_request_acts:
  assumes "hq_method rq = ''POST''" "request_path rq = ''/kill''" "kill_request deps s = (r, s')"
  shows "acted deps rq s r s'"
proof (rule recorded_run [OF assms(3) [unfolded kill_request_def]])
  fix a s2
  assume "recorded (human_event deps None E_KILL_REQUESTED []) (hd_kill deps) s a s2" "\<And>e. a = Inl e \<Longrightarrow> r = Inl e \<and> s' = s2"
    "\<And>x. a = Inr x \<Longrightarrow> reply 200 [(''killed'', VBool True)] s2 = (r, s')"
  then have "killed deps rq s s'"
    using assms(1,2) by (cases a) (auto simp: killed_def dest!: answered_reply)
  then show ?thesis by (simp add: acted_def)
qed

definition acts :: "'v human_deps \<Rightarrow> http_like \<Rightarrow> 'v plane sys \<Rightarrow> ('v, http_result) plane_eff \<Rightarrow> bool" where
  "acts deps rq s m \<longleftrightarrow> (\<forall>r s'. m s = (r, s') \<longrightarrow> acted deps rq s r s')"

lemma acts_if: "(c \<Longrightarrow> acts deps rq s m) \<Longrightarrow> (\<not> c \<Longrightarrow> acts deps rq s n) \<Longrightarrow> acts deps rq s (if c then m else n)"
  by simp

lemma acts_quiet: "quiet_eff (side deps rq) m \<Longrightarrow> \<not> must_record rq s \<Longrightarrow> acts deps rq s m"
  by (simp add: acts_def acted_quiet)

lemma acts_requests:
  "hq_method rq = ''POST'' \<Longrightarrow> request_path rq = ''/approvals/'' @ i \<Longrightarrow> acts deps rq s (approval_request deps rq i)"
  "hq_method rq = ''POST'' \<Longrightarrow> request_path rq = ''/deploy/decision'' \<Longrightarrow> acts deps rq s (deploy_request deps rq)"
  "hq_method rq = ''POST'' \<Longrightarrow> request_path rq = ''/kill'' \<Longrightarrow> acts deps rq s (kill_request deps)"
  "n \<noteq> 200 \<Longrightarrow> acts deps rq s (fail n e)"
  by (auto simp: acts_def intro: approval_request_acts deploy_request_acts kill_request_acts acted_refused(1) [rotated])

lemma need_not_record:
  "hq_method rq = ''GET'' \<Longrightarrow> \<not> must_record rq s"
  "request_path rq = ''/deploy/rollback'' \<Longrightarrow> \<not> must_record rq s"
  "str_prefix ''/steering/'' (request_path rq) \<Longrightarrow> \<not> must_record rq s"
  by (auto simp: must_record_def str_prefix_def)

lemma route_request_acts: "acts deps rq s (route_request deps rq)"
  unfolding route_request_def Let_def
proof (intro acts_if)
  assume "hq_method rq = ''POST'' \<and> str_prefix ''/approvals/'' (request_path rq)"
  then show "acts deps rq s (approval_request deps rq (drop (length ''/approvals/'') (request_path rq)))"
    by (intro acts_requests(1) prefixed) simp_all
next
  assume "hq_method rq = ''POST'' \<and> request_path rq = ''/deploy/rollback''"
  then show "acts deps rq s (deploy_rollback deps)" by (intro acts_quiet quiet_rollback need_not_record(2)) simp_all
next
  assume "hq_method rq = ''POST'' \<and> str_prefix ''/steering/'' (request_path rq)"
  then show "acts deps rq s (steering deps rq (request_path rq))" by (intro acts_quiet quiet_steering need_not_record(3)) simp
qed (simp_all add: acts_requests acts_quiet quiet_lists quiet_views need_not_record(1))

definition rated :: "'v human_deps \<Rightarrow> 'v plane sys \<Rightarrow> bool \<times> 'v plane sys" where
  "rated deps s = (case hd_rate deps (pl_outer (sys_world s)) of (ok, v) \<Rightarrow> (ok, s\<lparr>sys_world := (sys_world s)\<lparr>pl_outer := v\<rparr>\<rparr>))"

lemma handle_cases:
  "handleHumanRequest deps rq s =
     (case rated deps s of (ok, s0) \<Rightarrow>
        if \<not> ok then fail 429 ''rate_limited'' s0
        else if \<not> authed rq (hd_token deps) then fail 401 ''unauthorized'' s0 else route_request deps rq s0)"
  by (simp add: handleHumanRequest_def rateOk_def rated_def bind_def ask_def split: prod.splits)

lemma request_acts:
  assumes "handleHumanRequest deps rq s = (r, s')"
  shows "case rated deps s of (ok, s0) \<Rightarrow>
    if ok \<and> authed rq (hd_token deps) then acted deps rq s0 r s'
    else (\<exists>res. r = Inr res \<and> hr_status res = (if ok then 401 else 429)) \<and> s' = s0"
proof -
  obtain ok s0 where rate: "rated deps s = (ok, s0)" by fastforce
  show ?thesis
    using assms route_request_acts [of deps rq s0] by (auto simp: handle_cases rate fail_def reply_def ret_def acts_def split: if_splits)
qed

text \<open>C11: a request to the human plane acts only as far as it may. Over the rate, or without the token, it is
  answered 429 or 401 and nothing happens. Otherwise one of four things happens. Either the handler itself appends
  nothing and keeps every approval, and the log grows only by what the callbacks of the request's route append
  (never the callbacks of a decision or of the kill). Or a kill is recorded, then its callback runs. Or a
  decision on a pending approval is recorded, approving or rejecting: the body asks for it, the task is not paused, the
  package's evidence verified just before, an approval attests to everything the package asks for, and the decision
  callback runs once, after the record, on the package's task; the approval goes exactly when the callback agrees. Or a
  decision on the deploy package that is pending is recorded, then its callback runs: to approve it, the
  body attests to everything the package asks for and the evidence verified; to reject it, neither is asked for.\<close>

theorem human_requests_are_justified:
  assumes "handleHumanRequest deps rq s = (r, s')"
  shows "case rated deps s of (ok, s0) \<Rightarrow>
    if ok \<and> authed rq (hd_token deps) then acted deps rq s0 r s'
    else (\<exists>res. r = Inr res \<and> hr_status res = (if ok then 401 else 429)) \<and> s' = s0"
  by (rule request_acts [OF assms])

section \<open>An approval is decided once\<close>

definition run_requests :: "'v human_deps \<Rightarrow> http_like list \<Rightarrow> 'v plane sys \<Rightarrow> 'v plane sys" where
  "run_requests deps rqs s = fold (\<lambda>rq s. snd (handleHumanRequest deps rq s)) rqs s"

lemma rated_keeps: "rated deps s = (ok, s0) \<Longrightarrow> sys_log s0 = sys_log s \<and> pl_approvals (sys_world s0) = pl_approvals (sys_world s)"
  by (auto simp: rated_def split: prod.splits)

lemma recorded_keeps: "recorded ev f s a s' \<Longrightarrow> pl_approvals (sys_world s') = pl_approvals (sys_world s)"
  unfolding recorded_def by (elim exE conjE) (simp add: after_call_def)

lemma evidence_keeps: "evidence_verified deps pkg b s s1 \<Longrightarrow> pl_approvals (sys_world s1) = pl_approvals (sys_world s)"
  unfolding evidence_verified_def by (elim exE conjE) (simp add: after_call_def)

lemma task_decided_approvals:
  assumes "task_decided deps rq s r s'"
  shows "\<exists>i. hq_method rq = ''POST'' \<and> request_path rq = ''/approvals/'' @ i \<and>
    pl_approvals (sys_world s') = (if answered r then AList.delete i (pl_approvals (sys_world s)) else pl_approvals (sys_world s))"
proof -
  obtain i pkg d s1 a s2 where there: "hq_method rq = ''POST''" "request_path rq = ''/approvals/'' @ i"
    "evidence_verified deps pkg HumanApproval s s1"
    "recorded (decision_event deps E_APPROVAL_RECORDED (ap_task pkg) i d) (hd_decision deps (ap_task pkg) d) s1 a s2"
    "s' = (if agreed a then without_approval i s2 else s2)" "answered r \<longleftrightarrow> agreed a"
    using assms unfolding task_decided_def by blast
  then have "pl_approvals (sys_world s2) = pl_approvals (sys_world s)" by (simp add: recorded_keeps evidence_keeps)
  then show ?thesis using there by (intro exI [of _ i]) (simp add: without_approval_def)
qed

lemma deploy_decided_approvals:
  assumes "deploy_decided deps rq s r s'"
  shows "request_path rq = ''/deploy/decision'' \<and> pl_approvals (sys_world s') = pl_approvals (sys_world s)"
proof -
  obtain pkg d s1 a f where there: "request_path rq = ''/deploy/decision''" "hd_deploy_decision deps = Some f"
    "if d = DecApprove then evidence_verified deps pkg DeployApproval s s1 else s1 = s"
    "recorded (decision_event deps E_DEPLOY_DECISION (ap_task pkg) (ap_id pkg) d) (f d) s1 a s'"
    using assms unfolding deploy_decided_def by blast
  then show ?thesis by (simp add: recorded_keeps evidence_keeps split: if_splits)
qed

lemma killed_approvals:
  "killed deps rq s s' \<Longrightarrow> request_path rq = ''/kill'' \<and> pl_approvals (sys_world s') = pl_approvals (sys_world s)"
  unfolding killed_def by (auto dest: recorded_keeps)

lemma acted_approvals:
  assumes "acted deps rq s r s'"
  shows "pl_approvals (sys_world s') = pl_approvals (sys_world s) \<or>
    (\<exists>i. pl_approvals (sys_world s') = AList.delete i (pl_approvals (sys_world s)))"
  using assms unfolding acted_def
  by (elim disjE) (auto simp: extended_def dest!: deploy_decided_approvals killed_approvals task_decided_approvals split: if_splits)

lemma request_keeps_gone:
  assumes "map_of (pl_approvals (sys_world s)) i = None"
  shows "map_of (pl_approvals (sys_world (snd (handleHumanRequest deps rq s)))) i = None"
proof -
  obtain r s' ok s0 where run: "handleHumanRequest deps rq s = (r, s')" and rate: "rated deps s = (ok, s0)" by fastforce
  show ?thesis
    using request_acts [OF run] rated_keeps [OF rate] assms acted_approvals [of deps rq s0 r s'] run rate
    by (auto simp: delete_conv' split: if_splits)
qed

lemma run_keeps_gone:
  "map_of (pl_approvals (sys_world s)) i = None \<Longrightarrow> map_of (pl_approvals (sys_world (run_requests deps rqs s))) i = None"
  by (induction rqs arbitrary: s) (simp_all add: run_requests_def request_keeps_gone)

lemma route_approval:
  "hq_method rq = ''POST'' \<Longrightarrow> request_path rq = ''/approvals/'' @ i \<Longrightarrow> route_request deps rq = approval_request deps rq i"
  by (simp add: route_request_def Let_def str_prefix_def)

text \<open>A request on a pending approval removes it exactly when it is answered with success.\<close>

lemma decided_iff_gone:
  assumes "hq_method rq = ''POST''" "request_path rq = ''/approvals/'' @ i"
    and "map_of (pl_approvals (sys_world s)) i = Some pkg" "handleHumanRequest deps rq s = (r, s1)"
  shows "pl_approvals (sys_world s1) =
    (if answered r then AList.delete i (pl_approvals (sys_world s)) else pl_approvals (sys_world s))"
proof -
  obtain ok s0 where rate: "rated deps s = (ok, s0)" by fastforce
  have must: "must_record rq s0" using assms(1-3) rated_keeps [OF rate] by (auto simp: must_record_def)
  have "pl_approvals (sys_world s1) =
      (if answered r then AList.delete i (pl_approvals (sys_world s0)) else pl_approvals (sys_world s0))"
    if "acted deps rq s0 r s1"
    using that must assms(1,2) unfolding acted_def
    by (elim disjE) (auto simp: extended_def dest!: deploy_decided_approvals killed_approvals task_decided_approvals)
  then show ?thesis
    using request_acts [OF assms(4)] rate rated_keeps [OF rate] by (auto simp: answered_def split: if_splits)
qed

text \<open>A decision on an approval that is gone.\<close>

definition decided_again :: "'v human_deps \<Rightarrow> http_like \<Rightarrow> string \<Rightarrow> 'v plane sys \<Rightarrow> string + http_result \<Rightarrow> 'v plane sys \<Rightarrow> bool" where
  "decided_again deps rq i s r s' \<longleftrightarrow>
     (case rated deps s of (ok, s0) \<Rightarrow>
        if \<not> ok then s' = s0 \<and> (\<exists>res. r = Inr res \<and> hr_status res = 429)
        else if \<not> authed rq (hd_token deps) then s' = s0 \<and> (\<exists>res. r = Inr res \<and> hr_status res = 401)
        else case hd_gov_approve deps of
          None \<Rightarrow> s' = s0 \<and> (\<exists>res. r = Inr res \<and> hr_status res = 404)
        | Some f \<Rightarrow> (\<exists>a evs v. f i (sys_log s0) (pl_outer (sys_world s0)) = (a, evs, v) \<and> s' = after_call evs v s0))"

lemma governance_run:
  assumes "governance_approval deps i s = (r, s')"
  shows "case hd_gov_approve deps of
      None \<Rightarrow> s' = s \<and> (\<exists>res. r = Inr res \<and> hr_status res = 404)
    | Some f \<Rightarrow> (\<exists>a evs v. f i (sys_log s) (pl_outer (sys_world s)) = (a, evs, v) \<and> s' = after_call evs v s)"
  using assms
  by (auto simp: governance_approval_def bind_def outer_def fail_def reply_def ret_def
      split: option.splits prod.splits sum.splits if_splits)

text \<open>C39: an approval is decided with success at most once. A request on a pending approval takes it away exactly
  when it is answered 200; answered anything else (a decision that was recorded and whose callback then
  refused, 409, included) the approval stays pending and may be decided again. Once it is gone, whatever requests
  follow, a decision on its id finds no approval and records none: over the rate it is answered 429, without the
  token 401, and otherwise 404 where no governance is composed; where one is, the id is tried as that of a proposal and
  the log grows by what that callback appends.\<close>

theorem approvals_are_decided_once:
  assumes "hq_method rq = ''POST''" "request_path rq = ''/approvals/'' @ i"
    and "map_of (pl_approvals (sys_world s)) i = Some pkg" "handleHumanRequest deps rq s = (r, s1)"
  shows "(if answered r then map_of (pl_approvals (sys_world s1)) i = None
      else pl_approvals (sys_world s1) = pl_approvals (sys_world s)) \<and>
    (\<forall>rqs rq' r' s2. answered r \<and> hq_method rq' = ''POST'' \<and> request_path rq' = ''/approvals/'' @ i \<and>
      handleHumanRequest deps rq' (run_requests deps rqs s1) = (r', s2) \<longrightarrow>
      decided_again deps rq' i (run_requests deps rqs s1) r' s2)"
proof -
  have gone: "map_of (pl_approvals (sys_world s1)) i = None" if "answered r"
    using decided_iff_gone [OF assms] that by (simp add: delete_conv')
  have "decided_again deps q i t r' s2"
    if "map_of (pl_approvals (sys_world t)) i = None" "hq_method q = ''POST''" "request_path q = ''/approvals/'' @ i"
      "handleHumanRequest deps q t = (r', s2)" for q t r' s2
  proof -
    obtain ok t0 where rate: "rated deps t = (ok, t0)" by fastforce
    show ?thesis
      using that rate rated_keeps [OF rate] governance_run [of deps i t0 r' s2]
      by (auto simp: decided_again_def handle_cases route_approval approval_request_def bind_def ask_def
          fail_def reply_def ret_def split: if_splits)
  qed
  then show ?thesis using gone run_keeps_gone decided_iff_gone [OF assms] by metis
qed

section \<open>The controller of the loop\<close>

datatype loop_signal = NoSignal | PauseSignal | KillSignal

datatype resume_outcome = OutResume | OutKill

text \<open>\<open>lc_waiting\<close>: the loop is at its await; \<open>lc_answers\<close>: what its awaits were answered, in order.\<close>

record loop_controller =
  lc_signal :: loop_signal
  lc_waiting :: bool
  lc_answers :: "resume_outcome list"

definition createLoopController :: loop_controller where
  "createLoopController = \<lparr>lc_signal = NoSignal, lc_waiting = False, lc_answers = []\<rparr>"

definition answer_wait :: "resume_outcome \<Rightarrow> loop_controller \<Rightarrow> loop_controller" where
  "answer_wait a c = (if lc_waiting c then c\<lparr>lc_waiting := False, lc_answers := lc_answers c @ [a]\<rparr> else c)"

definition waitResume :: "loop_controller \<Rightarrow> loop_controller" where
  "waitResume c =
     (if lc_signal c = KillSignal then c\<lparr>lc_answers := lc_answers c @ [OutKill]\<rparr> else c\<lparr>lc_waiting := True\<rparr>)"

definition requestPause :: "loop_controller \<Rightarrow> loop_controller" where
  "requestPause c = (if lc_signal c \<noteq> KillSignal then c\<lparr>lc_signal := PauseSignal\<rparr> else c)"

definition requestResume :: "loop_controller \<Rightarrow> loop_controller" where
  "requestResume c = (if lc_signal c = KillSignal then c else answer_wait OutResume (c\<lparr>lc_signal := NoSignal\<rparr>))"

definition requestKill :: "loop_controller \<Rightarrow> loop_controller" where
  "requestKill c = answer_wait OutKill (c\<lparr>lc_signal := KillSignal\<rparr>)"

datatype control_op = OpPause | OpResume | OpKill | OpWait

fun control_step :: "control_op \<Rightarrow> loop_controller \<Rightarrow> loop_controller" where
  "control_step OpPause = requestPause"
| "control_step OpResume = requestResume"
| "control_step OpKill = requestKill"
| "control_step OpWait = waitResume"

text \<open>Once killed, a controller has no open wait, keeps the signal, and answers every further wait with the kill.\<close>

definition dead :: "loop_controller \<Rightarrow> bool" where
  "dead c \<longleftrightarrow> lc_signal c = KillSignal \<and> \<not> lc_waiting c"

lemma killed_waits: "lc_signal c = KillSignal \<longrightarrow> \<not> lc_waiting c \<Longrightarrow>
    lc_signal (control_step p c) = KillSignal \<longrightarrow> \<not> lc_waiting (control_step p c)"
  by (cases p) (auto simp: requestPause_def requestResume_def requestKill_def waitResume_def answer_wait_def)

lemma dead_run:
  "dead c \<Longrightarrow> dead (fold control_step ops c) \<and>
     lc_answers (fold control_step ops c) = lc_answers c @ replicate (length (filter (\<lambda>p. p = OpWait) ops)) OutKill"
proof (induction ops arbitrary: c)
  case (Cons p ops)
  have "dead (control_step p c) \<and> lc_answers (control_step p c) = lc_answers c @ (if p = OpWait then [OutKill] else [])"
    using Cons.prems
    by (cases p) (auto simp: dead_def requestPause_def requestResume_def requestKill_def waitResume_def answer_wait_def)
  then show ?case using Cons.IH [of "control_step p c"] by auto
qed simp

text \<open>A kill is final and reaches the loop. After it, whatever is requested, the loop is told to die at its next
  poll; a wait that was open is answered with the kill at once, and every later wait too.\<close>

theorem kill_is_final:
  "let c = fold control_step earlier createLoopController; d = fold control_step later (requestKill c) in
     lc_signal d = KillSignal \<and> \<not> lc_waiting d \<and>
     lc_answers d = lc_answers c @ replicate (length (filter (\<lambda>p. p = OpWait) later) + (if lc_waiting c then 1 else 0)) OutKill"
proof -
  let ?c = "fold control_step earlier createLoopController"
  have "dead (requestKill ?c)" by (simp add: dead_def requestKill_def answer_wait_def)
  from dead_run [OF this, of later] show ?thesis
    by (auto simp: Let_def dead_def requestKill_def answer_wait_def replicate_append_same)
qed

section \<open>A concrete plane\<close>

definition demo_package :: approval_package where
  "demo_package = \<lparr>ap_id = ''a1'', ap_task = ''t'', ap_run = ''r'', ap_goal = ''g'', ap_acs = [], ap_diff = ''d'', ap_reports = [],
     ap_worktree = ''w'', ap_assumptions = [], ap_unresolved = [], ap_attest = attestationsFor L2, ap_risk = L2,
     ap_created = js_int 0, ap_provenance = None\<rparr>"

definition demo_body :: js_val where
  "demo_body = VObj [(''decision'', VStr ''approve''), (''attestations'', strs (attestationsFor L2))]"

text \<open>The event the composed \<open>onDecision\<close> appends.\<close>

definition demo_approved :: new_event where
  "demo_approved = \<lparr>ne_run = ''r'', ne_task = Some ''t'', ne_type = E_TASK_STATE,
     ne_payload = [(''state'', VStr ''APPROVED''), (''trigger'', VStr ''approve'')]\<rparr>"

definition demo_deps :: "js_val \<Rightarrow> unit human_deps" where
  "demo_deps body = \<lparr>hd_run = ''r'', hd_token = ''secret'', hd_rate = (\<lambda>v. (True, v)),
     hd_decision = (\<lambda>t d _ v. (Inr \<lparr>ha_ok = True, ha_state = Some ''APPROVED'', ha_detail = None\<rparr>, [demo_approved], v)),
     hd_verify = Some (\<lambda>_ _ _ v. (Inr (), [], v)), hd_invalid = None, hd_kill = (\<lambda>_ v. (Inr (), [], v)), hd_proposals = None,
     hd_gov_approve = None, hd_steering = Some (\<lambda>_ _. S_REVIEWING), hd_pause = None, hd_resume = None, hd_inject = None,
     hd_deploy_state = None, hd_deploy_package = None, hd_deploy_decision = None, hd_deploy_rollback = None,
     hd_events = (\<lambda>_ _. Inr (VArr [])), hd_parse = (\<lambda>_. Some body), hd_shw = (\<lambda>_. [])\<rparr>"

definition demo_request :: "string option \<Rightarrow> http_like" where
  "demo_request auth = \<lparr>hq_method = ''POST'', hq_path = ''/approvals/a1?x=1'', hq_auth = auth, hq_body = ''{}''\<rparr>"

definition demo_plane :: "unit plane sys" where
  "demo_plane = \<lparr>sys_world = \<lparr>pl_approvals = [(''a1'', demo_package)], pl_outer = ()\<rparr>, sys_calls = [], sys_log = [],
     sys_budget = createBudget \<lparr>bl_max_iterations = 1, bl_max_cost = js_int 1, bl_max_wallclock = 1\<rparr> 0\<rparr>"

definition demo_decided :: "unit plane sys" where
  "demo_decided = demo_plane\<lparr>sys_world := \<lparr>pl_approvals = [], pl_outer = ()\<rparr>,
     sys_log := [decision_event (demo_deps demo_body) E_APPROVAL_RECORDED ''t'' ''a1'' DecApprove, demo_approved]\<rparr>"

lemma demo_path: "request_path (demo_request auth) = ''/approvals/a1''"
  by (simp add: request_path_def demo_request_def)

lemma demo_approves:
  "handleHumanRequest (demo_deps demo_body) (demo_request (Some ''Bearer secret'')) demo_plane =
     (Inr \<lparr>hr_status = 200, hr_body = VObj [(''state'', VStr ''APPROVED'')]\<rparr>, demo_decided)"
  by (simp add: handleHumanRequest_def route_request_def Let_def demo_path) code_simp

text \<open>A body of \<open>null\<close> is a \<open>TypeError\<close> no one catches.\<close>

lemma null_body_throws:
  "fst (handleHumanRequest (demo_deps VNull) (demo_request (Some ''Bearer secret'')) demo_plane) = Inl ''TypeError''"
  by (simp add: handleHumanRequest_def route_request_def Let_def demo_path) code_simp

theorem human_requests_are_justified_witness:
  "acted (demo_deps demo_body) (demo_request (Some ''Bearer secret'')) demo_plane
     (Inr \<lparr>hr_status = 200, hr_body = VObj [(''state'', VStr ''APPROVED'')]\<rparr>) demo_decided \<and>
   (\<exists>res s'. handleHumanRequest (demo_deps demo_body) (demo_request None) demo_plane = (Inr res, s') \<and>
      hr_status res = 401 \<and> s' = demo_plane)"
proof -
  obtain r s' where "handleHumanRequest (demo_deps demo_body) (demo_request None) demo_plane = (r, s')" by fastforce
  moreover have "rated (demo_deps demo_body) demo_plane = (True, demo_plane)" by (simp add: rated_def demo_deps_def demo_plane_def)
  moreover have "hd_token (demo_deps demo_body) = ''secret''" by (simp add: demo_deps_def)
  ultimately show ?thesis
    using human_requests_are_justified [OF demo_approves]
      human_requests_are_justified [of "demo_deps demo_body" "demo_request None" demo_plane r s']
    by (auto simp: authed_def demo_request_def)
qed

theorem approvals_are_decided_once_witness:
  "map_of (pl_approvals (sys_world demo_decided)) ''a1'' = None \<and>
   (\<exists>again s2. handleHumanRequest (demo_deps demo_body) (demo_request (Some ''Bearer secret''))
      (run_requests (demo_deps demo_body) [demo_request None] demo_decided) = (Inr again, s2) \<and> hr_status again = 404)"
proof -
  let ?rq = "demo_request (Some ''Bearer secret'')" and ?s = "run_requests (demo_deps demo_body) [demo_request None] demo_decided"
  obtain r s2 where again: "handleHumanRequest (demo_deps demo_body) ?rq ?s = (r, s2)" by fastforce
  have "hq_method ?rq = ''POST''" "request_path ?rq = ''/approvals/'' @ ''a1''"
    "map_of (pl_approvals (sys_world demo_plane)) ''a1'' = Some demo_package"
    by (simp_all add: demo_path demo_plane_def) (simp add: demo_request_def)
  note once = approvals_are_decided_once [OF this demo_approves]
  have "answered (Inr \<lparr>hr_status = 200, hr_body = VObj [(''state'', VStr ''APPROVED'')]\<rparr>)" by (simp add: answered_def)
  then have "decided_again (demo_deps demo_body) ?rq ''a1'' ?s r s2"
    using once again \<open>hq_method ?rq = ''POST''\<close> \<open>request_path ?rq = ''/approvals/'' @ ''a1''\<close> by blast
  moreover have "fst (rated (demo_deps demo_body) ?s)" "authed ?rq (hd_token (demo_deps demo_body))" "hd_gov_approve (demo_deps demo_body) = None"
    by (simp_all add: rated_def demo_deps_def authed_def demo_request_def)
  ultimately have "\<exists>again. r = Inr again \<and> hr_status again = 404"
    by (auto simp: decided_again_def split: prod.splits)
  then show ?thesis using again by (auto simp: demo_decided_def)
qed

end
