(* ===== verification/Lessons.thy ===== *)
theory Lessons
  imports Governance EventLog Json
begin

text \<open>
  Lessons (\<open>core/src/lessons/lessons.ts\<close>): a confirmed hypothesis becomes a pending file and a governance
  proposal; only an approval moves the file to where lessons are loaded from. The two directories map file
  names to bytes; JSON and SHA-256 are arguments, and writing a file does not fail.
\<close>

section \<open>Files\<close>

record lesson_files =
  lz_pending :: "(string \<times> string) list"
  lz_approved :: "(string \<times> string) list"
  lz_log :: "(event_type \<times> payload) list"

type_synonym 'a lessons = "lesson_files \<Rightarrow> (string + 'a) \<times> lesson_files"

definition lesson_file :: "string \<Rightarrow> string" where
  "lesson_file i = i @ ''.json''"

definition deriveLessonId :: "(string \<Rightarrow> string) \<Rightarrow> string \<Rightarrow> string list \<Rightarrow> string" where
  "deriveLessonId sha statement evidenceRefs = ''lsn-'' @ take 16 (sha (join nl (statement # evidenceRefs)))"

definition lesson_event :: "event_type \<Rightarrow> payload \<Rightarrow> lesson_files \<Rightarrow> lesson_files" where
  "lesson_event t fs s = s\<lparr>lz_log := lz_log s @ [(t, fs)]\<rparr>"

section \<open>Proposing\<close>

record confirmed_hypothesis =
  ch_statement :: string
  ch_evidence :: "string list"
  ch_run :: string
  ch_task :: string

definition confirmed_of :: "(js_num \<Rightarrow> string) \<Rightarrow> new_event \<Rightarrow> confirmed_hypothesis option" where
  "confirmed_of shw e =
     (case (ne_type e, ne_task e) of
        (E_HYPOTHESIS_CONFIRMED, Some task) \<Rightarrow>
          (let ref = fields_get (ne_payload e) ''evidenceRef'' in
           Some \<lparr>ch_statement = js_String shw (nullish (fields_get (ne_payload e) ''statement'') (VStr [])),
             ch_evidence = (if ref \<noteq> VUndef then [js_String shw ref] else []), ch_run = ne_run e, ch_task = task\<rparr>)
      | _ \<Rightarrow> None)"

definition foldConfirmedHypotheses :: "(js_num \<Rightarrow> string) \<Rightarrow> new_event list \<Rightarrow> confirmed_hypothesis list" where
  "foldConfirmedHypotheses shw events = List.map_filter (confirmed_of shw) events"

definition lesson_record :: "string \<Rightarrow> confirmed_hypothesis \<Rightarrow> string \<Rightarrow> js_val" where
  "lesson_record i h ts =
     VObj [(''id'', VStr i), (''statement'', VStr (ch_statement h)), (''sourceRunId'', VStr (ch_run h)),
       (''sourceTaskId'', VStr (ch_task h)), (''evidenceRefs'', VArr (map VStr (ch_evidence h))), (''proposedAt'', VStr ts)]"

text \<open>What JSON, SHA-256 and the rendering of a number are made of.\<close>

record lesson_env =
  le_stringify :: "js_val \<Rightarrow> string"
  le_parse :: "string \<Rightarrow> js_val option"
  le_sha :: "string \<Rightarrow> string"
  le_shw :: "js_num \<Rightarrow> string"

definition proposeLessonFromHypothesis ::
    "lesson_env \<Rightarrow> confirmed_hypothesis \<Rightarrow> string \<Rightarrow> lesson_files \<times> js_val list \<Rightarrow> (string + js_val option) \<times> lesson_files \<times> js_val list" where
  "proposeLessonFromHypothesis env h ts st =
     (case st of (s, gov) \<Rightarrow>
        let i = deriveLessonId (le_sha env) (ch_statement h) (ch_evidence h) in
        if map_of (lz_pending s) (lesson_file i) \<noteq> None \<or> map_of (lz_approved s) (lesson_file i) \<noteq> None
        then (Inr None, s, gov)
        else
          let record = lesson_record i h ts;
              s1 = lesson_event E_LESSON_PROPOSED
                [(''lessonId'', VStr i), (''statement'', VStr (ch_statement h)), (''sourceRunId'', VStr (ch_run h)),
                 (''sourceTaskId'', VStr (ch_task h)), (''evidenceRefs'', VArr (map VStr (ch_evidence h)))]
                (s\<lparr>lz_pending := AList.update (lesson_file i) (le_stringify env record) (lz_pending s)\<rparr>) in
          (case proposeLessonPromotion (le_shw env) (le_sha env) i
              (Some (''lesson '' @ i @ '' proposed from a confirmed hypothesis (run '' @ ch_run h @ '', task '' @ ch_task h @ '')'')) ts gov of
             (Inl e, gov') \<Rightarrow> (Inl e, s1, gov')
           | (Inr _, gov') \<Rightarrow> (Inr (Some record), s1, gov')))"

section \<open>Promoting\<close>

text \<open>\<open>record.approvedAt = ...\<close>: on an array the field is lost in JSON, on a primitive it is a \<open>TypeError\<close>.\<close>

fun stamp_approved :: "js_val \<Rightarrow> js_val \<Rightarrow> js_val option" where
  "stamp_approved ts (VObj fs) = Some (VObj (AList.update ''approvedAt'' ts fs))"
| "stamp_approved ts (VArr vs) = Some (VArr vs)"
| "stamp_approved _ _ = None"

definition promoteLesson :: "lesson_env \<Rightarrow> js_val \<Rightarrow> js_val \<Rightarrow> bool lessons" where
  "promoteLesson env lessonId approvedAt s =
     (let file = lesson_file (js_String (le_shw env) lessonId) in
      case map_of (lz_pending s) file of
        None \<Rightarrow> (Inr False, s)
      | Some bytes \<Rightarrow>
          (case Option.bind (le_parse env bytes) (stamp_approved approvedAt) of
             None \<Rightarrow> (Inl ''corrupt pending lesson'', s)
           | Some record \<Rightarrow>
               (Inr True,
                lesson_event E_LESSON_APPROVED [(''lessonId'', lessonId)]
                  (s\<lparr>lz_approved := AList.update file (le_stringify env record) (lz_approved s),
                     lz_pending := AList.delete file (lz_pending s)\<rparr>))))"

section \<open>Loading\<close>

text \<open>One record of the governance log; a throw of the promotion is logged and passed over.\<close>

definition reconcile_one :: "lesson_env \<Rightarrow> js_val \<Rightarrow> unit lessons" where
  "reconcile_one env r s =
     (case gov_get r ''type'' of
        Inl e \<Rightarrow> (Inl e, s)
      | Inr t \<Rightarrow>
          (let lid = val_get r ''lessonId''; file = lesson_file (js_String (le_shw env) lid) in
           if t \<noteq> CHANGED \<or> val_get r ''kind'' \<noteq> VStr ''lesson_promote'' \<or> lid = VUndef then (Inr (), s)
           else if map_of (lz_approved s) file \<noteq> None then (Inr (), s)
           else
             (case promoteLesson env lid (val_get r ''ts'') s of
                (Inr _, s') \<Rightarrow> (Inr (), s')
              | (Inl _, s') \<Rightarrow>
                  (Inr (), lesson_event E_ERROR [(''reason'', VStr ''corrupt_lesson_file''), (''file'', VStr (''pending/'' @ file))] s'))))"

fun reconcile :: "lesson_env \<Rightarrow> js_val list \<Rightarrow> unit lessons" where
  "reconcile env [] s = (Inr (), s)"
| "reconcile env (r # rs) s =
     (case reconcile_one env r s of (Inl e, s') \<Rightarrow> (Inl e, s') | (Inr _, s') \<Rightarrow> reconcile env rs s')"

text \<open>The approved files in order of their names; those that do not parse are logged.\<close>

fun read_lessons :: "lesson_env \<Rightarrow> (string \<times> string) list \<Rightarrow> (event_type \<times> payload) list \<Rightarrow> js_val list \<times> (event_type \<times> payload) list" where
  "read_lessons env [] evs = ([], evs)"
| "read_lessons env ((name, bytes) # files) evs =
     (if \<not> str_suffix ''.json'' name then read_lessons env files evs
      else
        (case le_parse env bytes of
           Some v \<Rightarrow> (case read_lessons env files evs of (vs, evs') \<Rightarrow> (v # vs, evs'))
         | None \<Rightarrow> read_lessons env files (evs @ [(E_ERROR, [(''reason'', VStr ''corrupt_lesson_file''), (''file'', VStr name)])])))"

text \<open>\<open>Buffer.byteLength\<close> of what is not a string is a \<open>TypeError\<close>.\<close>

fun cap_lessons :: "nat \<Rightarrow> nat \<Rightarrow> js_val list \<Rightarrow> (event_type \<times> payload) list \<Rightarrow> (string + js_val list) \<times> (event_type \<times> payload) list" where
  "cap_lessons maxBytes used [] evs = (Inr [], evs)"
| "cap_lessons maxBytes used (r # rs) evs =
     (case val_get r ''statement'' of
        VStr t \<Rightarrow>
          if length t > maxBytes
          then cap_lessons maxBytes used rs (evs @ [(E_ERROR, [(''reason'', VStr ''oversized_lesson''), (''lessonId'', val_get r ''id'')])])
          else if used + length t > maxBytes then (Inr [], evs)
          else
            (case cap_lessons maxBytes (used + length t) rs evs of
               (Inl e, evs') \<Rightarrow> (Inl e, evs')
             | (Inr vs, evs') \<Rightarrow> (Inr (r # vs), evs'))
      | _ \<Rightarrow> (Inl ''TypeError'', evs))"

definition loadApprovedLessons :: "lesson_env \<Rightarrow> js_val list option \<Rightarrow> nat \<Rightarrow> nat \<Rightarrow> js_val list lessons" where
  "loadApprovedLessons env gov maxLessons maxBytes s =
     (case (case gov of None \<Rightarrow> (Inr (), s) | Some recs \<Rightarrow> reconcile env recs s) of
        (Inl e, s1) \<Rightarrow> (Inl e, s1)
      | (Inr _, s1) \<Rightarrow>
          (case read_lessons env (sort_key fst (lz_approved s1)) (lz_log s1) of
             (records, evs1) \<Rightarrow>
               (case cap_lessons maxBytes 0 (take maxLessons records) evs1 of
                  (r, evs2) \<Rightarrow> (r, s1\<lparr>lz_log := evs2\<rparr>))))"

section \<open>A life of the lessons\<close>

text \<open>Whatever is proposed, approved by a human, at a live plane or offline, and loaded, in any order.\<close>

inductive lesson_reach ::
    "lesson_env \<Rightarrow> (string \<Rightarrow> string \<Rightarrow> bool) \<Rightarrow> lesson_files \<Rightarrow> js_val list \<Rightarrow> bool" for env loc where
  start: "lesson_reach env loc \<lparr>lz_pending = [], lz_approved = [], lz_log = evs\<rparr> []"
| propose: "lesson_reach env loc s gov \<Longrightarrow> proposeLessonFromHypothesis env h ts (s, gov) = (r, s', gov') \<Longrightarrow> lesson_reach env loc s' gov'"
| ensure: "lesson_reach env loc s gov \<Longrightarrow>
    lesson_reach env loc s (snd (ensureGovernanceApproved loc (le_shw env) (le_sha env) dir why ts gov))"
| flaky: "lesson_reach env loc s gov \<Longrightarrow>
    lesson_reach env loc s (snd (proposeFlakyQuarantine (le_shw env) (le_sha env) tid why' ts gov))"
| seed: "lesson_reach env loc s gov \<Longrightarrow>
    lesson_reach env loc s (snd (seedFixtureSnapshot loc (le_shw env) (le_sha env) dir ts gov))"
| approve: "lesson_reach env loc s gov \<Longrightarrow> lesson_reach env loc s (snd (approveProposal pid ByHuman ts gov))"
| live: "lesson_reach env loc s gov \<Longrightarrow> applyGovernanceApproval pid True ts gov = (Inr (kind, hooks), gov') \<Longrightarrow>
    PromoteLesson lid \<in> set hooks \<Longrightarrow> lesson_reach env loc (snd (promoteLesson env lid (VStr ts') s)) gov'"
| load: "lesson_reach env loc s gov \<Longrightarrow> lesson_reach env loc (snd (loadApprovedLessons env (Some gov) n b s)) gov"

text \<open>What JSON gives back: objects of strings and of lists of strings.\<close>

definition plain_record :: "js_val \<Rightarrow> bool" where
  "plain_record v \<longleftrightarrow>
     (\<exists>fs. v = VObj fs \<and> distinct (map fst fs) \<and> (\<forall>(k, x) \<in> set fs. is_str x \<or> (\<exists>ss. x = VArr (map VStr ss))))"

definition faithful_json :: "lesson_env \<Rightarrow> bool" where
  "faithful_json env \<longleftrightarrow> (\<forall>v. plain_record v \<longrightarrow> le_parse env (le_stringify env v) = Some v)"

text \<open>A file holds the lesson its name is derived from.\<close>

definition lesson_of :: "lesson_env \<Rightarrow> string \<Rightarrow> js_val \<Rightarrow> bool" where
  "lesson_of env i v \<longleftrightarrow>
     plain_record v \<and> val_get v ''id'' = VStr i \<and>
     (\<exists>statement refs. val_get v ''statement'' = VStr statement \<and> val_get v ''evidenceRefs'' = VArr (map VStr refs) \<and>
       i = deriveLessonId (le_sha env) statement refs)"

definition holds_lesson :: "lesson_env \<Rightarrow> string \<times> string \<Rightarrow> string \<Rightarrow> bool" where
  "holds_lesson env f i \<longleftrightarrow> fst f = lesson_file i \<and> (\<exists>v. le_parse env (snd f) = Some v \<and> lesson_of env i v)"

definition human_approved :: "js_val list \<Rightarrow> string \<Rightarrow> bool" where
  "human_approved gov i \<longleftrightarrow>
     (\<exists>r \<in> set gov. human_change r \<and> val_get r ''kind'' = VStr ''lesson_promote'' \<and> val_get r ''lessonId'' = VStr i)"

definition lessons_named :: "js_val list \<Rightarrow> bool" where
  "lessons_named gov \<longleftrightarrow>
     (\<forall>r \<in> set gov. val_get r ''kind'' = VStr ''lesson_promote'' \<longrightarrow> val_get r ''lessonId'' \<noteq> VUndef \<longrightarrow>
       (\<exists>i. val_get r ''lessonId'' = VStr i) \<and> (val_get r ''type'' = CHANGED \<longrightarrow> human_change r \<and> is_str (val_get r ''ts'')))"

definition lesson_inv :: "lesson_env \<Rightarrow> lesson_files \<Rightarrow> js_val list \<Rightarrow> bool" where
  "lesson_inv env s gov \<longleftrightarrow>
     gov_inv gov \<and> lessons_named gov \<and> (\<forall>f \<in> set (lz_pending s). \<exists>i. holds_lesson env f i) \<and>
     (\<forall>f \<in> set (lz_approved s). \<exists>i. holds_lesson env f i \<and> human_approved gov i)"

lemma lesson_file_inj [simp]: "lesson_file i = lesson_file j \<longleftrightarrow> i = j"
  by (simp add: lesson_file_def)

lemma is_string_iff: "is_str v \<longleftrightarrow> (\<exists>t. v = VStr t)"
  by (cases v) simp_all

subsection \<open>The governance log\<close>

lemma lessons_named_snoc:
  "lessons_named gov \<Longrightarrow>
   (val_get r ''kind'' = VStr ''lesson_promote'' \<Longrightarrow> val_get r ''lessonId'' \<noteq> VUndef \<Longrightarrow>
      (\<exists>i. val_get r ''lessonId'' = VStr i) \<and> (val_get r ''type'' = CHANGED \<longrightarrow> human_change r \<and> is_str (val_get r ''ts''))) \<Longrightarrow>
   lessons_named (gov @ [r])"
  by (auto simp: lessons_named_def)

lemma human_approved_mono: "human_approved gov i \<Longrightarrow> set gov \<subseteq> set gov' \<Longrightarrow> human_approved gov' i"
  by (auto simp: human_approved_def)

lemma named_ensure:
  "gov_inv gov \<Longrightarrow> lessons_named gov \<Longrightarrow> lessons_named (snd (ensureGovernanceApproved loc shw sha dir why ts gov)) \<and>
     set gov \<subseteq> set (snd (ensureGovernanceApproved loc shw sha dir why ts gov))"
  by (auto simp: ensureGovernanceApproved_def Let_def gov_return_def record_proposal_cases gov_inv_objs lastApproved_objs
      intro!: lessons_named_snoc)

lemma named_flaky:
  "gov_inv gov \<Longrightarrow> lessons_named gov \<Longrightarrow> lessons_named (snd (proposeFlakyQuarantine shw sha tid why ts gov)) \<and>
     set gov \<subseteq> set (snd (proposeFlakyQuarantine shw sha tid why ts gov))"
  by (auto simp: proposeFlakyQuarantine_def Let_def gov_return_def record_proposal_cases gov_inv_objs
      intro!: lessons_named_snoc)

lemma named_seed:
  "gov_inv gov \<Longrightarrow> lessons_named gov \<Longrightarrow> lessons_named (snd (seedFixtureSnapshot loc shw sha dir ts gov)) \<and>
     set gov \<subseteq> set (snd (seedFixtureSnapshot loc shw sha dir ts gov))"
  by (auto simp: seedFixtureSnapshot_def Let_def gov_return_def lastApproved_objs gov_inv_objs val_get_json fields_get_def
      intro!: lessons_named_snoc)

lemma named_lesson:
  "gov_inv gov \<Longrightarrow> lessons_named gov \<Longrightarrow> \<exists>p. proposeLessonPromotion shw sha i why ts gov = (Inr p, snd (proposeLessonPromotion shw sha i why ts gov)) \<and>
     lessons_named (snd (proposeLessonPromotion shw sha i why ts gov)) \<and>
     set gov \<subseteq> set (snd (proposeLessonPromotion shw sha i why ts gov))"
  by (auto simp: proposeLessonPromotion_def Let_def gov_return_def record_proposal_cases gov_inv_objs
      proposed_record_def proposal_fields_def val_get_json fields_get_def PROPOSED_def CHANGED_def intro!: lessons_named_snoc)

lemma named_approve:
  assumes "gov_inv gov" "lessons_named gov"
  shows "lessons_named (snd (approveProposal pid ByHuman ts gov)) \<and> set gov \<subseteq> set (snd (approveProposal pid ByHuman ts gov))"
proof (cases "find (\<lambda>p. val_get p ''id'' = VStr pid) (pending_from (ids_of CHANGED gov) [] gov)")
  case (Some p)
  then have "p \<in> set (pending_from (ids_of CHANGED gov) [] gov)" by (auto simp: find_Some_iff in_set_conv_nth)
  then obtain r where r: "r \<in> set gov" "p = proposal_of r" using pending_sound by blast
  let ?c = "json_obj (change_fields ts p ByHuman)"
  have kind: "val_get ?c ''kind'' = val_get r ''kind''" "val_get ?c ''lessonId'' = val_get r ''lessonId''"
    using change_get(3) [of _ ts p ByHuman] by (simp_all add: r(2) proposal_keys_def proposal_of_get)
  have human: "human_change ?c" by (simp add: human_change_def change_get)
  have "val_get ?c ''ts'' = VStr ts"
    by (simp add: val_get_json change_fields_def) (simp add: fields_get_def)
  then have "lessons_named (gov @ [?c])"
    using assms(2) r(1) kind human by (intro lessons_named_snoc) (auto simp: lessons_named_def)
  then show ?thesis using Some assms(1) by (simp add: approve_cases gov_inv_objs subset_insertI2)
qed (use assms in \<open>simp add: approve_cases gov_inv_objs\<close>)

subsection \<open>The files\<close>

lemma plain_stamped:
  assumes "plain_record v" "stamp_approved (VStr t) v = Some w"
  shows "plain_record w"
proof -
  obtain fs where fs: "v = VObj fs" "distinct (map fst fs)" "\<forall>(k, x) \<in> set fs. is_str x \<or> (\<exists>ss. x = VArr (map VStr ss))"
    using assms(1) by (auto simp: plain_record_def)
  have "w = VObj (AList.update ''approvedAt'' (VStr t) fs)" using assms(2) fs(1) by simp
  moreover have "distinct (map fst (AList.update ''approvedAt'' (VStr t) fs))" using fs(2) by (simp add: distinct_update)
  moreover have "is_str x \<or> (\<exists>ss. x = VArr (map VStr ss))" if "(k, x) \<in> set (AList.update ''approvedAt'' (VStr t) fs)" for k x
    using update_sub [OF that] fs(3) by auto
  ultimately show ?thesis unfolding plain_record_def by blast
qed

lemma lesson_stamped:
  assumes "lesson_of env i v" "stamp_approved (VStr t) v = Some w"
  shows "lesson_of env i w"
  using assms plain_stamped [OF _ assms(2)] by (cases v) (auto simp: lesson_of_def)

lemma lesson_record_of:
  "lesson_of env (deriveLessonId (le_sha env) (ch_statement h) (ch_evidence h))
     (lesson_record (deriveLessonId (le_sha env) (ch_statement h) (ch_evidence h)) h ts)"
  by (auto simp: lesson_of_def plain_record_def lesson_record_def fields_get_def)

lemma promote_inv:
  assumes "faithful_json env" "lesson_inv env s gov" "human_approved gov i"
  shows "lesson_inv env (snd (promoteLesson env (VStr i) (VStr t) s)) gov \<and> \<not> isl (fst (promoteLesson env (VStr i) (VStr t) s))"
proof (cases "map_of (lz_pending s) (lesson_file i)")
  case None
  then show ?thesis using assms by (simp add: promoteLesson_def)
next
  case (Some bytes)
  then obtain j where "holds_lesson env (lesson_file i, bytes) j"
    using assms(2) by (auto simp: lesson_inv_def dest!: map_of_SomeD)
  then obtain v where v: "le_parse env bytes = Some v" "lesson_of env i v" by (auto simp: holds_lesson_def)
  then obtain w where w: "stamp_approved (VStr t) v = Some w" by (auto simp: lesson_of_def plain_record_def)
  then have "lesson_of env i w" "le_parse env (le_stringify env w) = Some w"
    using lesson_stamped [OF v(2) w] assms(1) by (auto simp: lesson_of_def faithful_json_def)
  then have "holds_lesson env (lesson_file i, le_stringify env w) i" by (auto simp: holds_lesson_def)
  then show ?thesis
    using assms(2,3) Some v(1) w
    by (auto simp: promoteLesson_def Let_def lesson_inv_def lesson_event_def dest!: update_sub delete_sub)
qed

lemma reconcile_inv:
  assumes "faithful_json env" "lesson_inv env s gov" "set rs \<subseteq> set gov"
  shows "fst (reconcile env rs s) = Inr () \<and> lesson_inv env (snd (reconcile env rs s)) gov"
  using assms(2,3)
proof (induction rs arbitrary: s)
  case (Cons r rs)
  have r: "r \<in> set gov" "is_record r" using Cons.prems by (auto simp: lesson_inv_def gov_inv_def objs_def list_all_iff)
  have one: "fst (reconcile_one env r s) = Inr () \<and> lesson_inv env (snd (reconcile_one env r s)) gov"
  proof (cases "val_get r ''type'' = CHANGED \<and> val_get r ''kind'' = VStr ''lesson_promote'' \<and> val_get r ''lessonId'' \<noteq> VUndef")
    case True
    then obtain i t where i: "val_get r ''lessonId'' = VStr i" "human_change r" "val_get r ''ts'' = VStr t"
      using Cons.prems(1) r(1) by (auto simp: lesson_inv_def lessons_named_def is_string_iff)
    then have "human_approved gov i" using r(1) True by (auto simp: human_approved_def)
    from promote_inv [OF assms(1) Cons.prems(1) this, of t] show ?thesis
      using True i r(2) Cons.prems(1) by (cases r) (auto simp: reconcile_one_def gov_get_def Let_def split: prod.splits sum.splits)
  next
    case False
    then show ?thesis using r(2) Cons.prems(1) by (cases r) (auto simp: reconcile_one_def gov_get_def Let_def)
  qed
  then obtain s1 where "reconcile_one env r s = (Inr (), s1)" "lesson_inv env s1 gov" by (cases "reconcile_one env r s") auto
  then show ?case using Cons.IH [of s1] Cons.prems(2) by simp
qed simp

lemma lesson_inv_log [simp]: "lesson_inv env (s\<lparr>lz_log := evs\<rparr>) gov = lesson_inv env s gov"
  by (simp add: lesson_inv_def)

lemma load_inv:
  assumes "faithful_json env" "lesson_inv env s gov"
  shows "lesson_inv env (snd (loadApprovedLessons env (Some gov) n b s)) gov"
  using reconcile_inv [OF assms, of gov]
  by (auto simp: loadApprovedLessons_def split: prod.splits sum.splits)

lemma lesson_inv_gov:
  "lesson_inv env s gov \<Longrightarrow> gov_inv gov' \<Longrightarrow> lessons_named gov' \<Longrightarrow> set gov \<subseteq> set gov' \<Longrightarrow> lesson_inv env s gov'"
  by (fastforce simp: lesson_inv_def intro: human_approved_mono)

lemma propose_inv:
  assumes "faithful_json env" "lesson_inv env s gov" "proposeLessonFromHypothesis env h ts (s, gov) = (r, s', gov')"
  shows "lesson_inv env s' gov'"
proof -
  let ?i = "deriveLessonId (le_sha env) (ch_statement h) (ch_evidence h)"
  let ?why = "Some (''lesson '' @ ?i @ '' proposed from a confirmed hypothesis (run '' @ ch_run h @ '', task '' @ ch_task h @ '')'')"
  let ?bytes = "le_stringify env (lesson_record ?i h ts)"
  have gov: "gov_inv gov" "lessons_named gov" using assms(2) by (simp_all add: lesson_inv_def)
  note named = named_lesson [OF gov, of "le_shw env" "le_sha env" ?i ?why ts]
  have inv: "gov_inv (snd (proposeLessonPromotion (le_shw env) (le_sha env) ?i ?why ts gov))" by (rule gov_inv_lesson [OF gov(1)])
  have "le_parse env ?bytes = Some (lesson_record ?i h ts)"
    using lesson_record_of [of env h ts] assms(1) by (simp add: lesson_of_def faithful_json_def)
  then have "holds_lesson env (lesson_file ?i, ?bytes) ?i"
    using lesson_record_of [of env h ts] by (auto simp: holds_lesson_def)
  then have "lesson_inv env (s\<lparr>lz_pending := AList.update (lesson_file ?i) ?bytes (lz_pending s)\<rparr>) gov"
    using assms(2) by (auto simp: lesson_inv_def dest!: update_sub)
  then have "lesson_inv env (s\<lparr>lz_pending := AList.update (lesson_file ?i) ?bytes (lz_pending s)\<rparr>)
      (snd (proposeLessonPromotion (le_shw env) (le_sha env) ?i ?why ts gov))"
    using named inv by (blast intro: lesson_inv_gov)
  then show ?thesis
    using assms(2,3) named
    by (auto simp: proposeLessonFromHypothesis_def Let_def lesson_event_def split: if_splits prod.splits sum.splits)
qed

lemma lesson_reach_inv:
  assumes "lesson_reach env loc s gov" "faithful_json env"
  shows "lesson_inv env s gov"
  using assms(1)
proof (induction rule: lesson_reach.induct)
  case start
  then show ?case by (simp add: lesson_inv_def gov_inv_def lessons_named_def ids_of_def human_ids_def backed_def objs_def)
next
  case (live s gov pid ts kind hooks gov' lid ts')
  have inv: "gov_inv gov" "lessons_named gov" using live.IH by (simp_all add: lesson_inv_def)
  have gov': "gov' = snd (approveProposal pid ByHuman ts gov)"
    using live.hyps(2) by (auto simp: applyGovernanceApproval_def split: prod.splits sum.splits approve_result.splits)
  obtain change where change: "approveProposal pid ByHuman ts gov = (Inr (Approved change), gov')"
      "PromoteLesson lid \<in> set (approval_hooks True change)"
    using live.hyps(2,3) by (auto simp: applyGovernanceApproval_def split: prod.splits sum.splits approve_result.splits)
  then have lid: "val_get change ''kind'' = VStr ''lesson_promote''" "lid = val_get change ''lessonId''" "lid \<noteq> VUndef"
    by (auto simp: approval_hooks_def split: if_splits)
  have made: "change \<in> set gov'" "human_change change"
    using change(1) inv(1) by (auto simp: approve_cases gov_inv_objs human_change_def change_get split: option.splits)
  note named = named_approve [OF inv, of pid ts, folded gov']
  obtain i where i: "lid = VStr i" using named made(1) lid by (auto simp: lessons_named_def)
  have "human_approved gov' i" using made lid i by (auto simp: human_approved_def)
  moreover have "lesson_inv env s gov'"
    using live.IH named gov_inv_approve [OF inv(1), of pid ByHuman ts] gov' by (auto intro: lesson_inv_gov)
  ultimately show ?case using promote_inv [OF assms(2)] i by blast
next
  case (ensure s gov dir why ts)
  then show ?case using named_ensure gov_inv_ensure by (blast intro: lesson_inv_gov dest: lesson_inv_def [THEN iffD1])
next
  case (flaky s gov tid why' ts)
  then show ?case using named_flaky gov_inv_flaky by (blast intro: lesson_inv_gov dest: lesson_inv_def [THEN iffD1])
next
  case (seed s gov dir ts)
  then show ?case using named_seed gov_inv_seed by (blast intro: lesson_inv_gov dest: lesson_inv_def [THEN iffD1])
next
  case (approve s gov pid ts)
  then show ?case using named_approve gov_inv_approve by (blast intro: lesson_inv_gov dest: lesson_inv_def [THEN iffD1])
next
  case (propose s gov h ts r s' gov')
  then show ?case using propose_inv [OF assms(2)] by blast
next
  case (load s gov n b)
  then show ?case using load_inv [OF assms(2)] by blast
qed

section \<open>What is loaded\<close>

lemma read_lessons_ok:
  "\<forall>f \<in> set files. \<exists>i. holds_lesson env f i \<and> human_approved gov i \<Longrightarrow>
   \<exists>vs. read_lessons env files evs = (vs, evs) \<and> (\<forall>v \<in> set vs. \<exists>i. lesson_of env i v \<and> human_approved gov i)"
proof (induction env files evs rule: read_lessons.induct)
  case (2 env name bytes files evs)
  then obtain i v where i: "name = lesson_file i" "le_parse env bytes = Some v" "lesson_of env i v" "human_approved gov i"
    by (auto simp: holds_lesson_def)
  have "str_suffix ''.json'' name" by (simp add: i(1) lesson_file_def str_suffix_def)
  then show ?case using 2 i(2-4) by auto
qed simp

definition lesson_bytes :: "js_val list \<Rightarrow> nat" where
  "lesson_bytes vs = sum_list (map (\<lambda>v. case val_get v ''statement'' of VStr t \<Rightarrow> length t | _ \<Rightarrow> 0) vs)"

lemma cap_lessons_ok:
  assumes "\<forall>v \<in> set rs. \<exists>i. lesson_of env i v" "used \<le> maxBytes"
  shows "\<exists>vs evs'. cap_lessons maxBytes used rs evs = (Inr vs, evs') \<and> set vs \<subseteq> set rs \<and> length vs \<le> length rs \<and>
    used + lesson_bytes vs \<le> maxBytes"
  using assms
proof (induction maxBytes used rs evs rule: cap_lessons.induct)
  case (2 maxBytes used r rs evs)
  obtain t where t: "val_get r ''statement'' = VStr t" using 2(3) by (auto simp: lesson_of_def)
  have rest: "\<forall>v \<in> set rs. \<exists>i. lesson_of env i v" using 2(3) by simp
  consider "length t > maxBytes" | "length t \<le> maxBytes" "used + length t > maxBytes" | "used + length t \<le> maxBytes" by linarith
  then show ?case
  proof cases
    case 1
    from 2(1) [OF t 1 rest 2(4)] show ?thesis using t 1 by (fastforce simp: lesson_bytes_def)
  next
    case 2
    then show ?thesis using t \<open>used \<le> maxBytes\<close> by (simp add: lesson_bytes_def)
  next
    case 3
    then have "\<not> length t > maxBytes" "\<not> used + length t > maxBytes" by simp_all
    from 2(2) [OF t this rest 3] show ?thesis using t 3 by (fastforce simp: lesson_bytes_def)
  qed
qed (simp add: lesson_bytes_def)

text \<open>C13: a lesson reaches a prompt only after a human approved it, and as it was when its proposal was made. Loading
  never fails; what it loads fits the caps; every lesson in it has the id its statement and evidence give, and
  the governance log holds a human's approval of that id. The hypothesis is what JSON promises.\<close>

theorem loaded_lessons_were_approved:
  assumes "lesson_reach env loc s gov" "faithful_json env"
    and "loadApprovedLessons env (Some gov) maxLessons maxBytes s = (r, s')"
  shows "\<exists>vs. r = Inr vs \<and> length vs \<le> maxLessons \<and> lesson_bytes vs \<le> maxBytes \<and>
    (\<forall>v \<in> set vs. \<exists>statement refs.
      val_get v ''statement'' = VStr statement \<and> val_get v ''evidenceRefs'' = VArr (map VStr refs) \<and>
      (\<exists>c \<in> set gov. human_change c \<and> val_get c ''kind'' = VStr ''lesson_promote'' \<and>
         val_get c ''lessonId'' = VStr (deriveLessonId (le_sha env) statement refs)))"
proof -
  have inv: "lesson_inv env s gov" by (rule lesson_reach_inv [OF assms(1,2)])
  obtain s1 where s1: "reconcile env gov s = (Inr (), s1)" "lesson_inv env s1 gov"
    using reconcile_inv [OF assms(2) inv subset_refl] by (cases "reconcile env gov s") auto
  have "\<forall>f \<in> set (sort_key fst (lz_approved s1)). \<exists>i. holds_lesson env f i \<and> human_approved gov i"
    using s1(2) by (simp add: lesson_inv_def)
  then obtain vs where vs: "read_lessons env (sort_key fst (lz_approved s1)) (lz_log s1) = (vs, lz_log s1)"
      "\<forall>v \<in> set vs. \<exists>i. lesson_of env i v \<and> human_approved gov i"
    using read_lessons_ok by blast
  have "\<forall>v \<in> set (take maxLessons vs). \<exists>i. lesson_of env i v" using vs(2) by (meson in_set_takeD)
  then obtain ws evs where ws: "cap_lessons maxBytes 0 (take maxLessons vs) (lz_log s1) = (Inr ws, evs)"
      "set ws \<subseteq> set (take maxLessons vs)" "length ws \<le> length (take maxLessons vs)" "lesson_bytes ws \<le> maxBytes"
    using cap_lessons_ok [of "take maxLessons vs" env 0 maxBytes "lz_log s1"] by auto
  have "r = Inr ws" using assms(3) s1(1) vs(1) ws(1) by (simp add: loadApprovedLessons_def)
  moreover have "\<exists>i. lesson_of env i v \<and> human_approved gov i" if "v \<in> set ws" for v
    using that ws(2) vs(2) by (meson in_set_takeD subsetD)
  ultimately show ?thesis using ws(3,4) by (fastforce simp: lesson_of_def human_approved_def)
qed

text \<open>A statement of two lines and a statement with a reference have one id.\<close>

lemma two_lessons_one_id:
  "deriveLessonId sha (''a'' @ nl @ ''b'') [] = deriveLessonId sha ''a'' [''b'']"
  by (simp add: deriveLessonId_def)

text \<open>An approved file that parses to something else stops the loading.\<close>

lemma misshapen_lesson_stops_loading:
  assumes "le_parse env ''null'' = Some VNull"
  shows "fst (loadApprovedLessons env None 1 n \<lparr>lz_pending = [], lz_approved = [(lesson_file i, ''null'')], lz_log = []\<rparr>) = Inl ''TypeError''"
  using assms by (simp add: loadApprovedLessons_def lesson_file_def str_suffix_def)

section \<open>A concrete lesson\<close>

definition demo_lessons :: lesson_env where
  "demo_lessons = \<lparr>le_stringify = unary, le_parse = from_unary, le_sha = (\<lambda>_. ''s''), le_shw = (\<lambda>_. [])\<rparr>"

definition demo_hypothesis :: confirmed_hypothesis where
  "demo_hypothesis = \<lparr>ch_statement = ''x'', ch_evidence = [], ch_run = ''r'', ch_task = ''t''\<rparr>"

definition no_lessons :: lesson_files where
  "no_lessons = \<lparr>lz_pending = [], lz_approved = [], lz_log = []\<rparr>"

definition one_pending :: lesson_files where
  "one_pending = \<lparr>lz_pending = [(lesson_file ''lsn-s'', unary (lesson_record ''lsn-s'' demo_hypothesis ''t0''))], lz_approved = [],
     lz_log = [(E_LESSON_PROPOSED, [(''lessonId'', VStr ''lsn-s''), (''statement'', VStr ''x''), (''sourceRunId'', VStr ''r''),
       (''sourceTaskId'', VStr ''t''), (''evidenceRefs'', VArr [])])]\<rparr>"

definition lesson_gov :: "js_val list" where
  "lesson_gov = snd (proposeLessonPromotion (\<lambda>_. []) (\<lambda>_. ''s'') ''lsn-s''
     (Some ''lesson lsn-s proposed from a confirmed hypothesis (run r, task t)'') ''t0'' [])"

definition approved_gov :: "js_val list" where
  "approved_gov = snd (approveProposal ''gov-s'' ByHuman ''t1'' lesson_gov)"

lemma demo_id: "deriveLessonId (\<lambda>_. ''s'') ss rs = ''lsn-s''"
  by (simp add: deriveLessonId_def)

lemma demo_proposed:
  "proposeLessonFromHypothesis demo_lessons demo_hypothesis ''t0'' (no_lessons, []) =
     (Inr (Some (lesson_record ''lsn-s'' demo_hypothesis ''t0'')), one_pending, lesson_gov)"
  by (simp add: proposeLessonFromHypothesis_def demo_lessons_def demo_id no_lessons_def one_pending_def lesson_gov_def Let_def
      lesson_event_def demo_hypothesis_def proposeLessonPromotion_def gov_return_def record_proposal_def already_proposed_def)

lemma demo_lesson_reach: "lesson_reach demo_lessons loc one_pending approved_gov"
  unfolding approved_gov_def
  by (intro lesson_reach.approve lesson_reach.propose [OF _ demo_proposed])
    (simp add: no_lessons_def lesson_reach.start)

theorem loaded_lessons_were_approved_witness:
  "\<exists>v s'. loadApprovedLessons demo_lessons (Some approved_gov) 5 100 one_pending = (Inr [v], s') \<and>
     (\<exists>c \<in> set approved_gov. human_change c \<and> val_get c ''lessonId'' = VStr ''lsn-s'')"
proof -
  have faithful: "faithful_json demo_lessons" by (simp add: faithful_json_def demo_lessons_def)
  obtain r s' where load: "loadApprovedLessons demo_lessons (Some approved_gov) 5 100 one_pending = (r, s')" by fastforce
  then obtain vs where vs: "r = Inr vs" "\<forall>v \<in> set vs. \<exists>c \<in> set approved_gov. human_change c \<and> val_get c ''lessonId'' = VStr ''lsn-s''"
    using loaded_lessons_were_approved [OF demo_lesson_reach faithful load] by (fastforce simp: demo_lessons_def demo_id)
  have gov: "approved_gov = [lesson_gov ! 0, approved_gov ! 1]" "val_get (lesson_gov ! 0) ''type'' = PROPOSED"
      "lesson_gov ! 0 \<noteq> VNull \<and> lesson_gov ! 0 \<noteq> VUndef" "approved_gov ! 1 \<noteq> VNull \<and> approved_gov ! 1 \<noteq> VUndef"
      "val_get (approved_gov ! 1) ''type'' = CHANGED" "val_get (approved_gov ! 1) ''kind'' = VStr ''lesson_promote''"
      "val_get (approved_gov ! 1) ''lessonId'' = VStr ''lsn-s''" "val_get (approved_gov ! 1) ''ts'' = VStr ''t1''"
    by code_simp+
  have "length vs = 1"
    using load vs(1) gov(2-)
    by (subst (asm) gov(1))
      (auto simp: loadApprovedLessons_def Let_def reconcile_one_def gov_get_def promoteLesson_def one_pending_def demo_lessons_def
        lesson_event_def lesson_record_def lesson_file_def str_suffix_def demo_hypothesis_def PROPOSED_def CHANGED_def fields_get_def)
  then obtain v where "vs = [v]" by (auto simp: length_Suc_conv)
  then show ?thesis using load vs by auto
qed

end
