(* ===== verification/TextScan.thy ===== *)
theory TextScan
  imports Rounding PathPolicy
begin

text \<open>
  How the context builder reads a text: the secret scanner (\<open>core/src/context/secret-scan.ts\<close>) and the
  import, compression and truncation steps of \<open>core/src/context/builder.ts\<close>. The regular expressions they use are
  sequences of literals, runs over a set of characters, word boundaries and the end; matching tries every length
  of a run. White space and line ends are ASCII, and \<open>Math.log2\<close> is an argument.
\<close>

section \<open>Regular expressions\<close>

datatype rx =
    Lit string
  | One "char \<Rightarrow> bool"
  | Run "char \<Rightarrow> bool" nat
  | Edge
  | AtEnd

definition is_upper :: "char \<Rightarrow> bool" where
  "is_upper c \<longleftrightarrow> (let n = of_char c in 65 \<le> n \<and> n \<le> (90 :: nat))"

definition is_lower :: "char \<Rightarrow> bool" where
  "is_lower c \<longleftrightarrow> (let n = of_char c in 97 \<le> n \<and> n \<le> (122 :: nat))"

definition is_digit :: "char \<Rightarrow> bool" where
  "is_digit c \<longleftrightarrow> (let n = of_char c in 48 \<le> n \<and> n \<le> (57 :: nat))"

definition alnum :: "char \<Rightarrow> bool" where
  "alnum c \<longleftrightarrow> is_upper c \<or> is_lower c \<or> is_digit c"

definition alnum_or :: "string \<Rightarrow> char \<Rightarrow> bool" where
  "alnum_or cs c \<longleftrightarrow> alnum c \<or> c \<in> set cs"

text \<open>\<open>\\b\<close> holds between a word character and what is none; \<open>prev\<close> is the character before \<open>s\<close>.\<close>

fun word_at :: "char option \<Rightarrow> bool" where
  "word_at (Some c) = alnum_or ''_'' c"
| "word_at None = False"

definition first_char :: "string \<Rightarrow> char option" where
  "first_char s = (case s of [] \<Rightarrow> None | c # _ \<Rightarrow> Some c)"

definition last_char :: "char option \<Rightarrow> string \<Rightarrow> char option" where
  "last_char prev s = (if s = [] then prev else Some (last s))"

fun rx_match :: "rx list \<Rightarrow> char option \<Rightarrow> string \<Rightarrow> bool" where
  "rx_match [] prev s = True"
| "rx_match (Lit w # rs) prev s = (str_prefix w s \<and> rx_match rs (last_char prev w) (drop (length w) s))"
| "rx_match (One P # rs) prev s = (case s of [] \<Rightarrow> False | c # cs \<Rightarrow> P c \<and> rx_match rs (Some c) cs)"
| "rx_match (Run P n # rs) prev s =
     list_ex (\<lambda>k. rx_match rs (last_char prev (take k s)) (drop k s)) [n..<Suc (length (takeWhile P s))]"
| "rx_match (Edge # rs) prev s = (word_at prev \<noteq> word_at (first_char s) \<and> rx_match rs prev s)"
| "rx_match (AtEnd # rs) prev s = (s = [] \<and> rx_match rs prev s)"

text \<open>What is left of the text where the leftmost match begins.\<close>

fun rx_search :: "rx list \<Rightarrow> char option \<Rightarrow> string \<Rightarrow> string option" where
  "rx_search rs prev [] = (if rx_match rs prev [] then Some [] else None)"
| "rx_search rs prev (c # cs) = (if rx_match rs prev (c # cs) then Some (c # cs) else rx_search rs (Some c) cs)"

text \<open>The shortest text an expression matches.\<close>

fun rx_min :: "rx list \<Rightarrow> nat" where
  "rx_min [] = 0"
| "rx_min (Lit w # rs) = length w + rx_min rs"
| "rx_min (One P # rs) = Suc (rx_min rs)"
| "rx_min (Run P n # rs) = n + rx_min rs"
| "rx_min (Edge # rs) = rx_min rs"
| "rx_min (AtEnd # rs) = rx_min rs"

lemma rx_match_min: "rx_match rs prev s \<Longrightarrow> rx_min rs \<le> length s"
proof (induction rs prev s rule: rx_match.induct)
  case (2 w rs prev s)
  then have "length w \<le> length s" by (auto simp: str_prefix_def dest: arg_cong [of _ _ length])
  then show ?case using 2 by auto
next
  case (4 P n rs prev s)
  then obtain k where k: "n \<le> k" "k \<le> length (takeWhile P s)" "rx_match rs (last_char prev (take k s)) (drop k s)"
    by (auto simp: list_ex_iff)
  have "k \<in> set [n..<Suc (length (takeWhile P s))]" using k(1,2) by (simp del: upt_Suc)
  then have "rx_min rs \<le> length s - k" using 4(1) [of k] k(3) by simp
  then show ?case using k(1,2) length_takeWhile_le [of P s] by simp
qed (auto split: list.splits)

lemma rx_search_suffix: "rx_search rs prev s = Some t \<Longrightarrow> \<exists>u. s = u @ t"
proof (induction rs prev s rule: rx_search.induct)
  case (2 rs prev c cs)
  then show ?case by (metis append_Cons append_Nil option.inject rx_search.simps(2))
qed (auto split: if_splits)

lemma last_char_simps [simp]:
  "last_char prev [] = prev" "last_char prev (c # u) = last_char (Some c) u"
  by (simp_all add: last_char_def)

lemma rx_search_None_iff:
  "rx_search rs prev s = None \<longleftrightarrow> (\<forall>u t. s = u @ t \<longrightarrow> \<not> rx_match rs (last_char prev u) t)"
proof (induction s arbitrary: prev)
  case (Cons c cs)
  have "(\<forall>u t. c # cs = u @ t \<longrightarrow> \<not> rx_match rs (last_char prev u) t) \<longleftrightarrow>
      \<not> rx_match rs prev (c # cs) \<and> (\<forall>u t. cs = u @ t \<longrightarrow> \<not> rx_match rs (last_char (Some c) u) t)" (is "?all \<longleftrightarrow> ?here \<and> ?there")
  proof (intro iffI conjI)
    assume ?all
    then show ?here using last_char_simps(1) [of prev] by (metis append_Nil)
    show ?there using \<open>?all\<close> by (metis append_Cons last_char_simps(2))
  next
    assume both: "?here \<and> ?there"
    show ?all
    proof (intro allI impI)
      fix u t
      assume "c # cs = u @ t"
      then show "\<not> rx_match rs (last_char prev u) t" using both by (cases u) auto
    qed
  qed
  then show ?case using Cons [of "Some c"] by simp
qed simp

section \<open>The secret scanner\<close>

text \<open>The characters beyond ASCII that the code writes, in UTF-8.\<close>

definition ellipsis :: string where
  "ellipsis = [CHR 0xE2, CHR 0x80, CHR 0xA6]"

definition SHAPE_PATTERNS :: "(string \<times> rx list) list" where
  "SHAPE_PATTERNS =
     [(''sk-key'', [Edge, Lit ''sk'', One (\<lambda>c. c \<in> set ''_-''), Run (alnum_or ''_-'') 16, Edge]),
      (''gh-token'', [Edge, Lit ''ghp_'', Run alnum 20, Edge]),
      (''gh-pat'', [Edge, Lit ''github_pat_'', Run (alnum_or ''_'') 20, Edge]),
      (''aws-key'', [Edge, Lit ''AKIA'', Run (\<lambda>c. is_upper c \<or> is_digit c) 12, Edge]),
      (''bearer'', [Edge, Lit ''Bearer'', Run is_ws 1, Run (alnum_or ''._~+/=-'') 16]),
      (''private-key'', [Lit ''-----BEGIN '', Run (\<lambda>c. is_upper c \<or> c = CHR '' '') 0, Lit ''PRIVATE KEY-----'']),
      (''jwt'', [Edge, Lit ''eyJ'', Run (alnum_or ''_-'') 8, Lit ''.'', Run (alnum_or ''_-'') 8, Lit ''.'',
                 Run (alnum_or ''_-'') 4, Edge])]"

text \<open>The frequencies are summed in the order in which the characters appear first.\<close>

definition entropy :: "(js_num \<Rightarrow> js_num) \<Rightarrow> string \<Rightarrow> js_num" where
  "entropy log2 s =
     fold (\<lambda>c h. let p = js_div (js_int (int (count_list s c))) (js_int (int (length s))) in js_sub h (js_mul p (log2 p)))
       (uniq s) (js_int 0)"

definition looksLikeHighEntropySecret :: "(js_num \<Rightarrow> js_num) \<Rightarrow> string \<Rightarrow> bool" where
  "looksLikeHighEntropySecret log2 token \<longleftrightarrow>
     20 \<le> length token \<and> list_ex is_upper token \<and> list_ex is_lower token \<and> list_ex is_digit token \<and>
     js_lt (JFin (7 / 2)) (entropy log2 token)"

text \<open>\<open>content.split\<close> at the runs of characters outside \<open>P\<close>.\<close>

function split_runs :: "(char \<Rightarrow> bool) \<Rightarrow> string \<Rightarrow> string list" where
  "split_runs P s =
     (case dropWhile P s of
        [] \<Rightarrow> [takeWhile P s]
      | c # r \<Rightarrow> takeWhile P s # split_runs P (dropWhile (\<lambda>d. \<not> P d) r))"
  by pat_completeness auto
termination
proof (relation "measure (\<lambda>(P, s). length s)")
  fix P s c r
  assume "dropWhile P s = c # r"
  then have "Suc (length r) \<le> length s" using length_dropWhile_le [of P s] by simp
  then show "((P, dropWhile (\<lambda>d. \<not> P d) r), (P, s)) \<in> measure (\<lambda>(P, s). length s)"
    using length_dropWhile_le [of "\<lambda>d. \<not> P d" r] by simp
qed simp

declare split_runs.simps [simp del]

record secret_hit =
  sh_kind :: string
  sh_sample :: string

text \<open>\<open>None\<close> is \<open>{ hit: false }\<close>. A match is at least eight characters long.\<close>

definition shape_hit :: "string \<Rightarrow> string \<times> rx list \<Rightarrow> secret_hit option" where
  "shape_hit content pat =
     map_option (\<lambda>t. \<lparr>sh_kind = fst pat, sh_sample = take 8 t @ ellipsis\<rparr>) (rx_search (snd pat) None content)"

fun first_some :: "('a \<Rightarrow> 'b option) \<Rightarrow> 'a list \<Rightarrow> 'b option" where
  "first_some f [] = None"
| "first_some f (x # xs) = (case f x of Some y \<Rightarrow> Some y | None \<Rightarrow> first_some f xs)"

definition scanForSecret :: "(js_num \<Rightarrow> js_num) \<Rightarrow> string \<Rightarrow> secret_hit option" where
  "scanForSecret log2 content =
     (case first_some (shape_hit content) SHAPE_PATTERNS of
        Some hit \<Rightarrow> Some hit
      | None \<Rightarrow>
          map_option (\<lambda>token. \<lparr>sh_kind = ''high-entropy'', sh_sample = take 8 token @ ellipsis\<rparr>)
            (find (looksLikeHighEntropySecret log2) (split_runs (alnum_or ''_-'') content)))"

lemma first_some_None_iff: "first_some f xs = None \<longleftrightarrow> (\<forall>x \<in> set xs. f x = None)"
  by (induction xs) (auto split: option.splits)

lemma shape_patterns_long: "list_all (\<lambda>pat. 8 \<le> rx_min (snd pat)) SHAPE_PATTERNS"
  by (simp add: SHAPE_PATTERNS_def)

text \<open>A clean text holds no known shape anywhere, and no token that looks like a credential.\<close>

lemma clean_text:
  assumes "scanForSecret log2 content = None"
  shows "\<forall>pat \<in> set SHAPE_PATTERNS. \<forall>u t. content = u @ t \<longrightarrow> \<not> rx_match (snd pat) (last_char None u) t"
    "\<forall>token \<in> set (split_runs (alnum_or ''_-'') content). \<not> looksLikeHighEntropySecret log2 token"
  using assms
  by (auto simp: scanForSecret_def first_some_None_iff shape_hit_def rx_search_None_iff find_None_iff split: option.splits)

section \<open>Imports\<close>

text \<open>\<open>(?:from|import)\\s+['\"](\\.[^'\"]+)['\"]\<close> at the head of a text: the capture and the rest.\<close>

definition is_quote :: "char \<Rightarrow> bool" where
  "is_quote c \<longleftrightarrow> c = CHR 0x27 \<or> c = CHR 0x22"

definition import_after :: "string \<Rightarrow> string \<Rightarrow> (string \<times> string) option" where
  "import_after kw s =
     (let r = drop (length kw) s in
      if \<not> str_prefix kw s \<or> takeWhile is_ws r = [] then None
      else
        (case dropWhile is_ws r of
           q # d # t \<Rightarrow>
             if is_quote q \<and> d = CHR ''.'' \<and> takeWhile (\<lambda>c. \<not> is_quote c) t \<noteq> [] \<and> dropWhile (\<lambda>c. \<not> is_quote c) t \<noteq> []
             then Some (d # takeWhile (\<lambda>c. \<not> is_quote c) t, tl (dropWhile (\<lambda>c. \<not> is_quote c) t))
             else None
         | _ \<Rightarrow> None))"

definition import_at :: "string \<Rightarrow> (string \<times> string) option" where
  "import_at s = (case import_after ''from'' s of Some m \<Rightarrow> Some m | None \<Rightarrow> import_after ''import'' s)"

lemma import_after_shorter: "import_after kw s = Some (m, rest) \<Longrightarrow> length rest < length s"
proof -
  assume i: "import_after kw s = Some (m, rest)"
  obtain q d t where t: "dropWhile is_ws (drop (length kw) s) = q # d # t" "rest = tl (dropWhile (\<lambda>c. \<not> is_quote c) t)"
    using i by (auto simp: import_after_def Let_def split: if_splits list.splits)
  have "length (q # d # t) \<le> length (drop (length kw) s)" unfolding t(1) [symmetric] by (rule length_dropWhile_le)
  moreover have "length rest \<le> length t" using length_dropWhile_le [of "\<lambda>c. \<not> is_quote c" t] by (simp add: t(2))
  ultimately show ?thesis by simp
qed

lemma import_at_shorter: "import_at s = Some (m, rest) \<Longrightarrow> length rest < length s"
  by (auto simp: import_at_def dest: import_after_shorter split: option.splits)

function imports_from :: "string \<Rightarrow> string list" where
  "imports_from s =
     (case s of
        [] \<Rightarrow> []
      | c # cs \<Rightarrow> (case import_at s of Some (m, rest) \<Rightarrow> m # imports_from rest | None \<Rightarrow> imports_from cs))"
  by pat_completeness auto
termination by (relation "measure length") (auto dest: import_at_shorter)

declare imports_from.simps [simp del]

definition localImports :: "string \<Rightarrow> string list" where
  "localImports content = uniq (imports_from content)"

section \<open>Compression and truncation\<close>

abbreviation newline :: char where
  "newline \<equiv> CHR 0x0A"

definition truncate_text :: "string \<Rightarrow> nat \<Rightarrow> string" where
  "truncate_text content maxBytes =
     (if length content \<le> maxBytes then content
      else take maxBytes content @ [newline] @ ellipsis @ ''[truncated]'')"

text \<open>Every choice of the optional modifiers, before every keyword.\<close>

fun modifiers :: "string list \<Rightarrow> rx list list" where
  "modifiers [] = [[]]"
| "modifiers (w # ws) = (let r = modifiers ws in map (\<lambda>p. Lit w # Run is_ws 1 # p) r @ r)"

definition DECLARATION_HEADERS :: "rx list list" where
  "DECLARATION_HEADERS =
     concat (map (\<lambda>p. map (\<lambda>kw. p @ [Lit kw, Edge]) [''function*'', ''function'', ''class'', ''interface'', ''type'', ''const''])
       (modifiers [''export'', ''default'', ''declare'', ''async'', ''abstract'']))"

definition declaration_header :: "string \<Rightarrow> bool" where
  "declaration_header s \<longleftrightarrow> list_ex (\<lambda>rs. rx_match rs None s) DECLARATION_HEADERS"

definition import_export :: "string \<Rightarrow> bool" where
  "import_export s \<longleftrightarrow> list_ex (\<lambda>w. rx_match [Lit w, Edge] None s) [''import'', ''export'']"

text \<open>The kept lines and the declarations among them; the flag says that a top-level comment is open.\<close>

fun compress_lines :: "bool \<Rightarrow> string list \<Rightarrow> string list \<times> nat" where
  "compress_lines inComment [] = ([], 0)"
| "compress_lines inComment (line # lines) =
     (let trimmed = trim line; keep = map_prod (Cons line) id in
      if inComment then keep (compress_lines (\<not> str_suffix ''*/'' trimmed) lines)
      else if trimmed = [] then compress_lines False lines
      else if (case line of c # _ \<Rightarrow> c = CHR '' '' \<or> c = CHR 0x09 | [] \<Rightarrow> False) then compress_lines False lines
      else if str_prefix ''//'' trimmed \<or> str_prefix ''/*'' trimmed
      then keep (compress_lines (str_prefix ''/*'' trimmed \<and> \<not> str_suffix ''*/'' trimmed) lines)
      else if declaration_header trimmed then map_prod (Cons line) Suc (compress_lines False lines)
      else if import_export trimmed then keep (compress_lines False lines)
      else compress_lines False lines)"

definition compressToSymbols :: "string \<Rightarrow> string \<times> nat" where
  "compressToSymbols content =
     (case compress_lines False (split_on newline content) of
        (kept, n) \<Rightarrow> (join [newline] (kept @ [''[compressed:symbols]'']), n))"

definition compressOrTruncate :: "string \<Rightarrow> nat \<Rightarrow> string \<Rightarrow> string \<times> string" where
  "compressOrTruncate full maxFileBytes inclusionReason =
     (if length full \<le> maxFileBytes then (full, inclusionReason)
      else
        (case compressToSymbols full of
           (symbols, n) \<Rightarrow>
             if 2 \<le> n then (symbols, ''compressed:symbols'') else (truncate_text full maxFileBytes, ''truncated'')))"

text \<open>Compression keeps whole lines of the text, in their order.\<close>

lemma compress_lines_subseq: "subseq (fst (compress_lines b ls)) ls"
proof (induction ls arbitrary: b)
  case (Cons line lines)
  have "subseq (fst (compress_lines b lines)) (line # lines)" for b using Cons [of b] by (rule list_emb_Cons)
  then show ?case using Cons by (simp add: Let_def)
qed simp

lemma compressed_lines:
  "compressToSymbols content = (text, n) \<Longrightarrow>
     \<exists>kept. text = join [newline] (kept @ [''[compressed:symbols]'']) \<and> subseq kept (split_on newline content)"
  using compress_lines_subseq [of False "split_on newline content"]
  by (cases "compress_lines False (split_on newline content)") (auto simp: compressToSymbols_def)

text \<open>Only truncation bounds a file: one that is all declarations is over the limit and grows.\<close>

lemma compression_may_lengthen:
  "compressOrTruncate (''const a'' @ [newline] @ ''const b'') 8 ''seed'' =
     (''const a'' @ [newline] @ ''const b'' @ [newline] @ ''[compressed:symbols]'', ''compressed:symbols'')"
  by code_simp

lemma truncation_bound: "length (truncate_text content n) \<le> n + 15"
  by (simp add: truncate_text_def ellipsis_def)

end
