(* ===== verification/ProposalSource.thy ===== *)
theory ProposalSource
  imports TaskLoop FusionRun ContextBuilder OutcomeRouting
begin

text \<open>
  The proposal source (\<open>aal/src/source.ts\<close>): one round builds the context, asks an adapter through the repair loop,
  re-routes once, and lets through only what is grounded in what the model was shown. The state is what the source
  keeps between rounds, with the event log, the evidence store and the breaker it writes to; \<open>so_sent\<close> is a history
  of what left for which adapter. What a round asks of the outside (tokens, the worktree at each build and after the
  answer, health, routing, the fence, the adapters) is an argument, and appending an event does not fail.
\<close>

section \<open>State and arguments\<close>

record source_deps =
  sd_task :: string
  sd_worktree :: string
  sd_objective :: string
  sd_seeds :: "string list"
  sd_schema :: js_val
  sd_rounds :: nat
  sd_exclude :: "string \<Rightarrow> bool"
  sd_lessons :: "lesson_input list"
  sd_plan :: "(string \<times> string) option"
  sd_policy :: "string \<Rightarrow> provider_data_policy option"
  sd_build :: build_env
  sd_shw :: "js_num \<Rightarrow> string"
  sd_breaker :: breaker_opts

record source_request = agent_request +
  sq_bundle :: context_bundle
  sq_manifest :: string

type_synonym wire_answer = "js_val agent_answer"

text \<open>\<open>re_fence\<close> is \<open>None\<close> without a lease, and otherwise whether the fenced append went through.\<close>

record round_env =
  re_canary :: string
  re_tree :: "nat \<Rightarrow> tree"
  re_disk :: disk
  re_health :: "health_change list"
  re_hints :: "route_hints option"
  re_eligible :: "role \<Rightarrow> route_hints option \<Rightarrow> breaker \<Rightarrow> registered_adapter list \<times> breaker"
  re_request :: string
  re_fence :: "bool option"
  re_budget :: js_val
  re_send :: "registered_adapter \<Rightarrow> nat \<Rightarrow> source_request \<Rightarrow> Dispatch.thrown + wire_answer"
  re_clock :: "nat \<Rightarrow> clock"
  re_after :: tree

record source_state =
  so_read :: "string list"
  so_evicted :: "string list"
  so_log :: "(event_type \<times> payload) list"
  so_blobs :: blob_dir
  so_breaker :: breaker
  so_sent :: "(string \<times> context_piece list) list"

datatype source_error = ThrownBy Dispatch.thrown | BuildFailed build_error | LeaseFence | ResultTypeError

record source_rejection =
  sr_action :: js_val
  sr_detail :: string

record source_proposal =
  sp_claim :: proposal_claim
  sp_actions :: "js_val list"
  sp_hypotheses :: "js_val list"
  sp_cost :: js_num
  sp_error :: "string option"
  sp_rejections :: "source_rejection list"

definition source_event :: "event_type \<Rightarrow> payload \<Rightarrow> source_state \<Rightarrow> source_state" where
  "source_event t fs st = st\<lparr>so_log := so_log st @ [(t, fs)]\<rparr>"

definition round_ended :: "proposal_claim \<Rightarrow> js_num \<Rightarrow> source_proposal" where
  "round_ended c cost =
     \<lparr>sp_claim = c, sp_actions = [], sp_hypotheses = [], sp_cost = cost, sp_error = None, sp_rejections = []\<rparr>"

abbreviation blocked_proposal :: source_proposal where
  "blocked_proposal \<equiv> round_ended ClaimBlocked (js_int 0)"

section \<open>Seeds\<close>

definition MAX_ACCUMULATED_PATHS :: nat where
  "MAX_ACCUMULATED_PATHS = 20"

fun normalized_reads :: "string list \<Rightarrow> string list \<Rightarrow> string list \<Rightarrow> string list" where
  "normalized_reads evicted acc [] = acc"
| "normalized_reads evicted acc (raw # raws) =
     (case normalizeWorktreeRelativePath (VStr raw) of
        None \<Rightarrow> normalized_reads evicted acc raws
      | Some n \<Rightarrow> normalized_reads evicted (if n \<in> set acc \<or> n \<in> set evicted then acc else acc @ [n]) raws)"

definition accumulatedSeedPaths :: "string list \<Rightarrow> string list \<Rightarrow> string list" where
  "accumulatedSeedPaths readRequested evicted =
     (let ns = normalized_reads evicted [] readRequested in
      if MAX_ACCUMULATED_PATHS < length ns then drop (length ns - MAX_ACCUMULATED_PATHS) ns else ns)"

definition accumulated :: "source_state \<Rightarrow> string list" where
  "accumulated st = accumulatedSeedPaths (so_read st) (so_evicted st)"

section \<open>Building the context\<close>

definition round_input :: "source_deps \<Rightarrow> round_env \<Rightarrow> string list \<Rightarrow> build_input" where
  "round_input deps env seeds =
     \<lparr>bi_task = sd_task deps, bi_worktree = sd_worktree deps, bi_seeds = seeds, bi_canary = re_canary env, bi_max = None,
      bi_depth = None, bi_exclude = sd_exclude deps, bi_lessons = sd_lessons deps, bi_plan = sd_plan deps\<rparr>"

definition buildOnce :: "source_deps \<Rightarrow> round_env \<Rightarrow> nat \<Rightarrow> source_state \<Rightarrow> (build_error + build_result) \<times> source_state" where
  "buildOnce deps env i st =
     (case buildContext (sd_build deps) (re_tree env i) (re_disk env) (round_input deps env (sd_seeds deps @ accumulated st)) (so_blobs st) of
        (r, blobs) \<Rightarrow> (r, st\<lparr>so_blobs := blobs\<rparr>))"

definition evict :: "string \<Rightarrow> string \<Rightarrow> source_state \<Rightarrow> source_state" where
  "evict f kind st =
     source_event E_ERROR [(''reason'', VStr ''accumulated_secret_evicted''), (''file'', VStr f), (''kind'', VStr kind)]
       (st\<lparr>so_evicted := so_evicted st @ [f]\<rparr>)"

text \<open>The first argument is what is left of the round's drain budget, the second the number of evictions.\<close>

fun drain :: "nat \<Rightarrow> nat \<Rightarrow> source_deps \<Rightarrow> round_env \<Rightarrow> source_state \<Rightarrow> (build_error + build_result) \<times> source_state" where
  "drain left i deps env st =
     (case buildOnce deps env i st of
        (Inl (SecretInContext f kind), st1) \<Rightarrow>
          if f \<notin> set (accumulated st1) \<or> f \<in> set (sd_seeds deps) then (Inl (SecretInContext f kind), st1)
          else (case left of 0 \<Rightarrow> (Inl (SecretInContext f kind), st1) | Suc n \<Rightarrow> drain n (Suc i) deps env (evict f kind st1))
      | (r, st1) \<Rightarrow> (r, st1))"

declare drain.simps [simp del]

definition build_bundle :: "source_deps \<Rightarrow> round_env \<Rightarrow> source_state \<Rightarrow> (build_error + build_result) \<times> source_state" where
  "build_bundle deps env st = drain (length (accumulated st)) 0 deps env st"

definition log_build :: "source_deps \<Rightarrow> build_result \<Rightarrow> source_state \<Rightarrow> source_state" where
  "log_build deps b st =
     (let st1 = fold (\<lambda>(i, kind). source_event E_ERROR
            [(''reason'', VStr ''lesson_secret_blocked''), (''lessonId'', VStr i), (''kind'', VStr kind)]) (br_lessons_out b) st;
          st2 = (if br_plan_out b
                 then source_event E_ERROR [(''reason'', VStr ''plan_secret_blocked''),
                        (''planId'', case sd_plan deps of Some (i, _) \<Rightarrow> VStr i | None \<Rightarrow> VUndef)] st1
                 else st1) in
      if br_lessons_in b = [] then st2
      else source_event E_LESSON_INJECTED
             [(''ids'', VArr (map (VStr \<circ> fst) (br_lessons_in b))), (''refs'', VArr (map VStr (concat (map snd (br_lessons_in b)))))] st2)"

definition log_health :: "health_change list \<Rightarrow> source_state \<Rightarrow> source_state" where
  "log_health =
     fold (\<lambda>c. source_event E_QUOTA_PROBE
       [(''adapterId'', VStr (hc_adapter c)), (''ok'', VBool (ah_ok (hc_health c))),
        (''reason'', case ah_reason (hc_health c) of None \<Rightarrow> VNull | r \<Rightarrow> VStr (health_reason_name r)),
        (''fiveHourPct'', case ah_windows (hc_health c) of None \<Rightarrow> VNull | Some w \<Rightarrow> VNum (fst w)),
        (''weeklyPct'', case ah_windows (hc_health c) of None \<Rightarrow> VNull | Some w \<Rightarrow> VNum (snd w)),
        (''estimate'', VBool True)])"

text \<open>The susceptibility cap holds only for a bundle with file content.\<close>

definition round_hints :: "round_env \<Rightarrow> context_bundle \<Rightarrow> route_hints option" where
  "round_hints env b =
     (case re_hints env of
        None \<Rightarrow> None
      | Some h \<Rightarrow>
          if rh_max h \<noteq> None \<and> \<not> list_ex (\<lambda>p. cp_kind p = PkFile) (cb_pieces b) then Some (h\<lparr>rh_max := None\<rparr>) else Some h)"

definition feedback_piece :: "(js_val \<Rightarrow> string) \<Rightarrow> js_val \<Rightarrow> context_piece" where
  "feedback_piece json fb =
     \<lparr>cp_id = ''feedback'', cp_kind = PkFeedback, cp_path = None, cp_content = json fb,
      cp_reason = ''previous-round structured feedback''\<rparr>"

definition with_feedback :: "(js_val \<Rightarrow> string) \<Rightarrow> js_val \<Rightarrow> context_bundle \<Rightarrow> context_bundle" where
  "with_feedback json fb b = (if fb = VNull then b else b\<lparr>cb_pieces := cb_pieces b @ [feedback_piece json fb]\<rparr>)"

section \<open>Asking an adapter\<close>

definition round_request :: "source_deps \<Rightarrow> round_env \<Rightarrow> role \<Rightarrow> context_bundle \<Rightarrow> string \<Rightarrow> source_request" where
  "round_request deps env role b manifest =
     \<lparr>ag_id = re_request env, ag_role = role, ag_objective = sd_objective deps,
      ag_pieces = map (\<lambda>p. (cp_id p, cp_content p)) (cb_pieces b), ag_bytes = cb_bytes b, ag_schema = sd_schema deps,
      ag_cost = re_budget env, ag_seed = None, sq_bundle = b, sq_manifest = manifest\<rparr>"

definition violation_fields :: "data_violation \<Rightarrow> payload" where
  "violation_fields v =
     (case v of
        PathOutOfPolicy i p \<Rightarrow> [(''pieceId'', VStr i), (''reason'', VStr ''path_out_of_policy''), (''path'', VStr p)]
      | PathlessKindNotAllowed i k \<Rightarrow> [(''pieceId'', VStr i), (''reason'', VStr ''pathless_kind_not_allowed''), (''kind'', VStr k)])"

definition adapter_id :: "registered_adapter \<Rightarrow> string" where
  "adapter_id r = cf_adapter (ra_record r)"

definition policy_violation :: "source_deps \<Rightarrow> registered_adapter \<Rightarrow> context_bundle \<Rightarrow> data_violation option" where
  "policy_violation deps r b =
     (case sd_policy deps (adapter_id r) of None \<Rightarrow> None | Some policy \<Rightarrow> checkDataPolicy (cb_pieces b) policy)"

text \<open>An adapter that answered and what came of the repair loop, or how the round ends.\<close>

datatype sent = Answered registered_adapter "js_val repair_outcome" | Ended source_proposal | Threw source_error

text \<open>The first argument counts the re-routes that are left; \<open>n\<close> counts what the breaker is told.\<close>

fun send_rounds ::
    "nat \<Rightarrow> nat \<Rightarrow> source_deps \<Rightarrow> round_env \<Rightarrow> source_request \<Rightarrow> registered_adapter list \<Rightarrow> string list \<Rightarrow> registered_adapter
       \<Rightarrow> source_state \<Rightarrow> sent \<times> source_state" where
  "send_rounds left n deps env request eligible failed chosen st =
     (case policy_violation deps chosen (sq_bundle request) of
        Some v \<Rightarrow>
          (Ended blocked_proposal,
           source_event E_ESCALATED
               ([(''why'', VStr ''data_policy_violation''), (''adapterId'', VStr (adapter_id chosen))] @ violation_fields v)
             (source_event E_DATA_POLICY_VIOLATION ([(''adapterId'', VStr (adapter_id chosen))] @ violation_fields v) st))
      | None \<Rightarrow>
          let st1 = st\<lparr>so_sent := so_sent st @ [(adapter_id chosen, cb_pieces (sq_bundle request))]\<rparr> in
          (case proposeWithRepair (sd_shw deps) (be_json (sd_build deps)) (re_send env chosen) request (sd_rounds deps) of
             Inr out \<Rightarrow>
               (Answered chosen out,
                st1\<lparr>so_breaker := recordSuccess (sd_breaker deps) (re_clock env n) (key_of chosen) (so_breaker st1)\<rparr>)
           | Inl (ThrownOther e) \<Rightarrow> (Threw (ThrownBy (ThrownOther e)), st1)
           | Inl (ThrownAdapter e) \<Rightarrow>
               if ae_kind e = AeInvalidResponse
               then (Ended (blocked_proposal\<lparr>sp_error := Some (ae_message e)\<rparr>),
                     source_event E_ESCALATED [(''why'', VStr ''invalid_response''), (''boundary'', VStr ''response_usage'')]
                       (source_event E_ERROR
                         [(''reason'', VStr ''invalid_response''), (''boundary'', VStr ''response_usage''), (''detail'', VStr (ae_message e))] st1))
               else
                 let st2 = st1\<lparr>so_breaker := recordFailure (sd_breaker deps) (re_clock env n) (key_of chosen) (so_breaker st1)\<rparr>;
                     failed' = failed @ [key_of chosen];
                     gone = (Ended blocked_proposal,
                       source_event E_ESCALATED
                         [(''why'', VStr ''no_capacity''), (''role'', VStr (role_text (ag_role request))),
                          (''detail'', VStr ''adapter_failure''), (''kind'', VStr (error_kind_name (ae_kind e)))] st2) in
                 (case left of
                    0 \<Rightarrow> gone
                  | Suc m \<Rightarrow>
                      (case find (\<lambda>r. key_of r \<notin> set failed') eligible of
                         None \<Rightarrow> gone
                       | Some nxt \<Rightarrow> send_rounds m (Suc n) deps env request eligible failed' nxt st2))))"

declare send_rounds.simps [simp del]

section \<open>Reading the answer\<close>

definition asClaim :: "js_val \<Rightarrow> proposal_claim" where
  "asClaim v =
     (if v = VStr ''READY_FOR_VERIFICATION'' then ReadyForVerification else if v = VStr ''BLOCKED'' then ClaimBlocked else Working)"

definition asHypotheses :: "js_val \<Rightarrow> js_val list" where
  "asHypotheses v = elems_of (val_get v ''hypotheses'')"

definition typed :: "string \<Rightarrow> js_val \<Rightarrow> bool" where
  "typed t a \<longleftrightarrow> val_get a ''type'' = VStr t"

definition pathOf :: "js_val \<Rightarrow> js_val" where
  "pathOf a = (if typed ''WRITE_FILE'' a \<or> typed ''READ_FILE'' a then val_get a ''path'' else VNull)"

definition note_reads :: "js_val list \<Rightarrow> string list \<Rightarrow> string list" where
  "note_reads actions =
     fold (\<lambda>a reads. case val_get a ''path'' of VStr p \<Rightarrow> if typed ''READ_FILE'' a then set_add p reads else reads | _ \<Rightarrow> reads) actions"

definition violates :: "tree \<Rightarrow> string \<Rightarrow> string list \<Rightarrow> js_val \<Rightarrow> bool" where
  "violates tr worktree allowed a \<longleftrightarrow>
     typed ''WRITE_FILE'' a \<and>
     (case val_get a ''path'' of VStr p \<Rightarrow> p \<notin> set allowed \<and> worktreeEntryExists tr worktree p | _ \<Rightarrow> True)"

definition emdash :: string where
  "emdash = '' '' @ [CHR 0xE2, CHR 0x80, CHR 0x94] @ '' ''"

text \<open>What the model is told: one part for each kind of violation.\<close>

definition violation_detail :: "js_val list \<Rightarrow> string" where
  "violation_detail violations =
     (let paths = map pathOf violations;
          outside = filter (\<lambda>p. normalizeWorktreeRelativePath (VStr p) = None) (map str_of (filter is_str paths));
          existing = filter (\<lambda>p. normalizeWorktreeRelativePath (VStr p) \<noteq> None) (map str_of (filter is_str paths));
          malformed = length (filter (\<lambda>p. \<not> is_str p) paths) in
      join ''; '' (
        (if existing = [] then []
         else [''WRITE_FILE to an existing path that is not in the context bundle and was never READ_FILE-requested: '' @
               join '', '' existing @ emdash @ ''request the path via READ_FILE in an earlier round before overwriting it'']) @
        (if outside = [] then []
         else [''WRITE_FILE to a path outside the worktree: '' @ join '', '' (map (\<lambda>p. if p = [] then ''(empty path)'' else p) outside) @ emdash @
               ''propose a repo-relative path inside the worktree instead; this path cannot be READ_FILE-requested either'']) @
        (if malformed = 0 then []
         else [nat_str malformed @ '' WRITE_FILE action(s) without a \"path\" string'' @ emdash @ ''every WRITE_FILE needs a repo-relative \"path\"''])))"

text \<open>Provenance: the actions are the objects of the answer; reads widen what later rounds may write.\<close>

definition settle_actions :: "source_deps \<Rightarrow> round_env \<Rightarrow> context_bundle \<Rightarrow> string \<Rightarrow> (string \<times> string) list \<Rightarrow> wire_answer \<Rightarrow> js_num
     \<Rightarrow> source_state \<Rightarrow> (source_error + source_proposal) \<times> source_state" where
  "settle_actions deps env b manifest piecesBlocked answer cost st =
     (let allowed = List.map_filter cp_path (cb_pieces b) @ so_read st;
          actions = filter is_record (an_actions answer);
          st1 = st\<lparr>so_read := note_reads actions (so_read st)\<rparr>;
          violations = filter (violates (re_after env) (sd_worktree deps) allowed) actions;
          detail = violation_detail violations in
      if violations \<noteq> []
      then (Inr ((round_ended Working cost)\<lparr>sp_rejections := map (\<lambda>a. \<lparr>sr_action = val_get a ''actionId'', sr_detail = detail\<rparr>) violations\<rparr>),
            source_event E_ACTION_REJECTED
              [(''reason'', VStr ''context_violation''), (''paths'', VArr (map pathOf violations)), (''detail'', VStr detail)] st1)
      else
        let metrics = computeContextMetrics b (filter (\<lambda>v. v \<noteq> VNull) (map pathOf actions));
            st2 = source_event E_CONTEXT_BUILT
              [(''manifestRef'', VStr manifest), (''recall'', VNum (fst metrics)), (''waste'', VNum (snd metrics)),
               (''requestId'', VStr (re_request env)),
               (''piecesBlocked'', VArr (map (\<lambda>(p, kind). VObj [(''path'', VStr p), (''kind'', VStr kind)]) piecesBlocked))] st1 in
        if an_result answer = VNull \<or> an_result answer = VUndef then (Inl ResultTypeError, st2)
        else (Inr ((round_ended (asClaim (val_get (an_result answer) ''claim'')) cost)\<lparr>sp_actions := actions\<rparr>), st2))"

definition settle_answer :: "source_deps \<Rightarrow> round_env \<Rightarrow> role \<Rightarrow> context_bundle \<Rightarrow> string \<Rightarrow> (string \<times> string) list \<Rightarrow> registered_adapter
     \<Rightarrow> js_val repair_outcome \<Rightarrow> source_state \<Rightarrow> (source_error + source_proposal) \<times> source_state" where
  "settle_answer deps env role b manifest piecesBlocked chosen out st =
     (case validateCostUnits (VNum (po_total out)) of
        Inl e \<Rightarrow>
          (Inr (blocked_proposal\<lparr>sp_error := Some (cost_detail e)\<rparr>),
           source_event E_ESCALATED [(''why'', VStr ''invalid_response''), (''boundary'', VStr ''repair_usage'')]
             (source_event E_ERROR
               [(''reason'', VStr ''invalid_response''), (''boundary'', VStr ''repair_usage''), (''detail'', VStr (cost_detail e))] st))
      | Inr cost \<Rightarrow>
          let answer = po_response out in
          if canaryTripped (be_json (sd_build deps)) (an_result answer) (an_actions answer) (cb_canary b)
          then (Inr (round_ended Working cost),
                source_event E_CANARY_TRIPPED [(''requestId'', VStr (re_request env)), (''adapterId'', VStr (adapter_id chosen))] st)
          else if \<not> po_valid out
          then (Inr (round_ended ClaimBlocked cost),
                source_event E_ERROR [(''reason'', VStr ''invalid_response''), (''errors'', VArr (map VStr (po_errors out))),
                  (''repairRounds'', vint (int (po_rounds out)))] st)
          else if role = Diagnostician
          then (Inr ((round_ended Working cost)\<lparr>sp_hypotheses := asHypotheses (an_result answer)\<rparr>), st)
          else settle_actions deps env b manifest piecesBlocked answer cost st)"

section \<open>A round\<close>

definition appendProposalIntent :: "round_env \<Rightarrow> role \<Rightarrow> source_state \<Rightarrow> (source_error + unit) \<times> source_state" where
  "appendProposalIntent env role st =
     (if re_fence env = Some False then (Inl LeaseFence, st)
      else (Inr (), source_event E_PROPOSAL_INTENT [(''requestId'', VStr (re_request env)), (''role'', VStr (role_text role))] st))"

text \<open>What follows a context that was built; \<open>VNull\<close> is the absence of feedback.\<close>

definition propose_with :: "source_deps \<Rightarrow> round_env \<Rightarrow> role \<Rightarrow> js_val \<Rightarrow> build_result \<Rightarrow> source_state
     \<Rightarrow> (source_error + source_proposal) \<times> source_state" where
  "propose_with deps env role fb built st0 =
     (let st = log_health (re_health env) (log_build deps built st0);
          (eligible, brk) = re_eligible env role (round_hints env (br_bundle built)) (so_breaker st);
          st1 = st\<lparr>so_breaker := brk\<rparr> in
      case eligible of
        [] \<Rightarrow> (Inr blocked_proposal, source_event E_ESCALATED [(''why'', VStr ''no_capacity''), (''role'', VStr (role_text role))] st1)
      | chosen # _ \<Rightarrow>
          let bundle = with_feedback (be_json (sd_build deps)) fb (br_bundle built) in
          (case appendProposalIntent env role st1 of
             (Inl e, st2) \<Rightarrow> (Inl e, st2)
           | (Inr _, st2) \<Rightarrow>
               (case send_rounds 1 0 deps env (round_request deps env role bundle (br_manifest built)) eligible [] chosen st2 of
                  (Ended p, st3) \<Rightarrow> (Inr p, st3)
                | (Threw e, st3) \<Rightarrow> (Inl e, st3)
                | (Answered r out, st3) \<Rightarrow> settle_answer deps env role bundle (br_manifest built) (br_blocked built) r out st3)))"

definition propose :: "source_deps \<Rightarrow> round_env \<Rightarrow> role \<Rightarrow> js_val \<Rightarrow> source_state \<Rightarrow> (source_error + source_proposal) \<times> source_state" where
  "propose deps env role fb st =
     (case build_bundle deps env st of
        (Inl (SecretInContext f kind), st1) \<Rightarrow>
          (Inr blocked_proposal,
           source_event E_ESCALATED [(''why'', VStr ''secret_in_context''), (''file'', VStr f), (''kind'', VStr kind)] st1)
      | (Inl e, st1) \<Rightarrow> (Inl (BuildFailed e), st1)
      | (Inr built, st1) \<Rightarrow> propose_with deps env role fb built st1)"

end
