(* ===== verification/SourceGuarantees.thy ===== *)
theory SourceGuarantees
  imports ProposalSource
begin

text \<open>
  What the proposal source guarantees: what leaves for an adapter, which actions are let through, and what is
  remembered between rounds. \<open>kept\<close> relates the states of the steps that neither send nor read; the context of a
  round is governed by the theorems of \<open>ContextBuilder\<close>.
\<close>

section \<open>What a round leaves alone\<close>

lemma source_event_simps [simp]:
  "so_read (source_event t fs st) = so_read st" "so_evicted (source_event t fs st) = so_evicted st"
  "so_sent (source_event t fs st) = so_sent st" "so_blobs (source_event t fs st) = so_blobs st"
  "so_breaker (source_event t fs st) = so_breaker st" "so_log (source_event t fs st) = so_log st @ [(t, fs)]"
  by (simp_all add: source_event_def)

text \<open>Between two states the reads and what was sent are the same, and the log has grown.\<close>

definition kept :: "source_state \<Rightarrow> source_state \<Rightarrow> bool" where
  "kept st st' \<longleftrightarrow> so_read st' = so_read st \<and> so_sent st' = so_sent st \<and> (\<exists>evs. so_log st' = so_log st @ evs)"

lemma kept_refl [simp]: "kept st st"
  by (simp add: kept_def)

lemma kept_trans: "kept st st' \<Longrightarrow> kept st' st'' \<Longrightarrow> kept st st''"
  by (auto simp: kept_def)

lemma kept_step: "kept st st' \<Longrightarrow> kept st (source_event t fs st')"
  by (auto simp: kept_def)

lemma kept_updates [simp]:
  "kept st (st'\<lparr>so_blobs := x\<rparr>) \<longleftrightarrow> kept st st'" "kept st (st'\<lparr>so_breaker := y\<rparr>) \<longleftrightarrow> kept st st'"
  "kept st (st'\<lparr>so_evicted := z\<rparr>) \<longleftrightarrow> kept st st'"
  by (simp_all add: kept_def)

lemma kept_fold: "(\<And>x s. kept s (f x s)) \<Longrightarrow> kept st (fold f xs st)"
  by (induction xs arbitrary: st) (simp, metis fold_simps(2) kept_trans)

lemma kept_build: "buildOnce deps env i st = (r, st') \<Longrightarrow> kept st st'"
  by (auto simp: buildOnce_def split: prod.splits)

lemma kept_evict: "kept st (evict f kind st)"
  by (simp add: evict_def kept_step)

lemma kept_drain: "drain left i deps env st = (r, st') \<Longrightarrow> kept st st'"
proof (induction left i deps env st arbitrary: r st' rule: drain.induct)
  case (1 left i deps env st)
  obtain b st1 where b: "buildOnce deps env i st = (b, st1)" by (cases "buildOnce deps env i st")
  note k = kept_build [OF b]
  show ?case
  proof (cases b)
    case (Inl e)
    show ?thesis
    proof (cases e)
      case (SecretInContext f kind)
      show ?thesis
      proof (cases "f \<notin> set (accumulated st1) \<or> f \<in> set (sd_seeds deps) \<or> left = 0")
        case True
        then show ?thesis using 1(2) k by (subst (asm) drain.simps) (auto simp: b Inl SecretInContext split: nat.splits)
      next
        case False
        then obtain n where n: "left = Suc n" by (cases left) auto
        have "drain n (Suc i) deps env (evict f kind st1) = (r, st')"
          using 1(2) False n by (subst (asm) drain.simps) (simp add: b Inl SecretInContext)
        then have "kept (evict f kind st1) st'"
          using 1(1) [OF b [symmetric] Inl SecretInContext _ n] False by simp
        then show ?thesis using k kept_evict kept_trans by blast
      qed
    next
      case (StoreFailed x)
      then show ?thesis using 1(2) k by (subst (asm) drain.simps) (simp add: b Inl)
    qed
  next
    case (Inr built)
    then show ?thesis using 1(2) k by (subst (asm) drain.simps) (simp add: b)
  qed
qed

lemma kept_logs: "kept st (log_health hs (log_build deps b st))"
proof -
  have "kept st (log_build deps b st)"
  proof -
    have "kept st (fold (\<lambda>(i, kind). source_event t (fs i kind)) xs st)" for t fs and xs :: "(string \<times> string) list"
      by (rule kept_fold) (auto simp: kept_step split: prod.splits)
    then show ?thesis by (auto simp: log_build_def Let_def intro!: kept_step)
  qed
  moreover have "kept s (log_health hs s)" for s unfolding log_health_def by (rule kept_fold) (simp add: kept_step)
  ultimately show ?thesis by (rule kept_trans)
qed

section \<open>What leaves\<close>

text \<open>The build a round ends with.\<close>

lemma drain_built:
  "drain left i deps env st = (Inr built, st') \<Longrightarrow>
     \<exists>j seeds dir dir'. buildContext (sd_build deps) (re_tree env j) (re_disk env) (round_input deps env seeds) dir = (Inr built, dir')"
proof (induction left i deps env st rule: drain.induct)
  case (1 left i deps env st)
  obtain b st1 where b: "buildOnce deps env i st = (b, st1)" by (cases "buildOnce deps env i st")
  show ?case
  proof (cases b)
    case (Inr built')
    then have "built' = built" using 1(2) by (subst (asm) drain.simps) (simp add: b)
    then show ?thesis using b Inr by (auto simp: buildOnce_def split: prod.splits)
  next
    case (Inl e)
    show ?thesis
    proof (cases e)
      case (SecretInContext f kind)
      have again: "\<not> (f \<notin> set (accumulated st1) \<or> f \<in> set (sd_seeds deps))"
        using 1(2) by (subst (asm) drain.simps) (auto simp: b Inl SecretInContext split: if_splits)
      then obtain n where n: "left = Suc n" using 1(2) by (subst (asm) drain.simps) (auto simp: b Inl SecretInContext split: nat.splits)
      have "drain n (Suc i) deps env (evict f kind st1) = (Inr built, st')"
        using 1(2) again n by (subst (asm) drain.simps) (simp add: b Inl SecretInContext)
      then show ?thesis using 1(1) [OF b [symmetric] Inl SecretInContext again n] by simp
    next
      case (StoreFailed x)
      then show ?thesis using 1(2) by (subst (asm) drain.simps) (simp add: b Inl)
    qed
  qed
qed

definition governed_in_round :: "source_deps \<Rightarrow> round_env \<Rightarrow> js_val \<Rightarrow> context_piece \<Rightarrow> bool" where
  "governed_in_round deps env fb p \<longleftrightarrow>
     (\<exists>i seeds. governed (sd_build deps) (re_tree env i) (round_input deps env seeds) p) \<or>
     fb \<noteq> VNull \<and> p = feedback_piece (be_json (sd_build deps)) fb"

lemma bundle_governed:
  assumes "drain left i deps env st = (Inr built, st')"
  shows "\<forall>p \<in> set (cb_pieces (with_feedback (be_json (sd_build deps)) fb (br_bundle built))). governed_in_round deps env fb p"
proof -
  obtain j seeds dir dir' where b: "buildContext (sd_build deps) (re_tree env j) (re_disk env) (round_input deps env seeds) dir = (Inr built, dir')"
    using drain_built [OF assms] by blast
  have "governed_in_round deps env fb p" if "p \<in> set (cb_pieces (br_bundle built))" for p
    using build_governed [OF b] that unfolding governed_in_round_def by blast
  moreover have "governed_in_round deps env fb (feedback_piece (be_json (sd_build deps)) fb)" if "fb \<noteq> VNull"
    using that by (simp add: governed_in_round_def)
  ultimately show ?thesis by (auto simp: with_feedback_def)
qed

text \<open>An adapter gets the bundle only under its policy, and only once.\<close>

definition may_get :: "source_deps \<Rightarrow> context_piece list \<Rightarrow> registered_adapter \<Rightarrow> bool" where
  "may_get deps pieces r \<longleftrightarrow>
     (case sd_policy deps (adapter_id r) of None \<Rightarrow> True | Some policy \<Rightarrow> list_all (piece_allowed policy) pieces)"

lemma may_get_iff: "policy_violation deps r b = None \<longleftrightarrow> may_get deps (cb_pieces b) r"
  by (simp add: policy_violation_def may_get_def checkDataPolicy_None_iff split: option.split)

definition sent_to :: "registered_adapter list \<Rightarrow> context_piece list \<Rightarrow> (string \<times> context_piece list) list" where
  "sent_to rs pieces = map (\<lambda>r. (adapter_id r, pieces)) rs"

lemma send_rounds_ok:
  assumes "send_rounds left n deps env request eligible failed chosen st = (out, st')" "key_of chosen \<notin> set failed" "chosen \<in> set eligible"
  shows "\<exists>rs. so_sent st' = so_sent st @ sent_to rs (cb_pieces (sq_bundle request)) \<and> length rs \<le> Suc left \<and>
      distinct (map key_of rs) \<and> set (map key_of rs) \<inter> set failed = {} \<and> set rs \<subseteq> set eligible \<and>
      (\<forall>r \<in> set rs. may_get deps (cb_pieces (sq_bundle request)) r) \<and>
      (\<forall>r res. out = Answered r res \<longrightarrow> r \<in> set rs \<and>
        proposeWithRepair (sd_shw deps) (be_json (sd_build deps)) (re_send env r) request (sd_rounds deps) = Inr res) \<and>
      (\<forall>p. out = Ended p \<longrightarrow> sp_actions p = [] \<and> sp_hypotheses p = []) \<and>
      so_read st' = so_read st \<and> so_evicted st' = so_evicted st \<and> (\<exists>evs. so_log st' = so_log st @ evs)"
  using assms
proof (induction left n deps env request eligible failed chosen st arbitrary: out st' rule: send_rounds.induct)
  case (1 left n deps env request eligible failed chosen st)
  let ?b = "sq_bundle request"
  show ?case
  proof (cases "policy_violation deps chosen ?b")
    case (Some v)
    have "out = Ended blocked_proposal" "so_sent st' = so_sent st" "so_read st' = so_read st" "so_evicted st' = so_evicted st"
        "\<exists>evs. so_log st' = so_log st @ evs"
      using 1(2) Some by (subst (asm) send_rounds.simps; auto)+
    then show ?thesis by (intro exI [of _ "[]"]) (simp add: round_ended_def sent_to_def)
  next
    case None
    note allowed = None [unfolded may_get_iff]
    define st1 where "st1 = st\<lparr>so_sent := so_sent st @ [(adapter_id chosen, cb_pieces ?b)]\<rparr>"
    define answer where
      "answer = proposeWithRepair (sd_shw deps) (be_json (sd_build deps)) (re_send env chosen) request (sd_rounds deps)"
    consider (good) res where "answer = Inr res" | (other) e where "answer = Inl (ThrownOther e)"
      | (adapter) e where "answer = Inl (ThrownAdapter e)"
      by (metis sum.exhaust Dispatch.thrown.exhaust)
    then show ?thesis
    proof cases
      case (good res)
      have "out = Answered chosen res" "so_sent st' = so_sent st @ sent_to [chosen] (cb_pieces ?b)" "so_read st' = so_read st"
          "so_evicted st' = so_evicted st" "so_log st' = so_log st"
        using 1(2) good unfolding answer_def by (subst (asm) send_rounds.simps; simp add: None sent_to_def Let_def; auto)+
      then show ?thesis using 1(3,4) allowed good unfolding answer_def by (intro exI [of _ "[chosen]"]) auto
    next
      case (other e)
      have "out = Threw (ThrownBy (ThrownOther e))" "so_sent st' = so_sent st @ sent_to [chosen] (cb_pieces ?b)" "so_read st' = so_read st"
          "so_evicted st' = so_evicted st" "so_log st' = so_log st"
        using 1(2) other unfolding answer_def by (subst (asm) send_rounds.simps; simp add: None sent_to_def Let_def; auto)+
      then show ?thesis using 1(3,4) allowed by (intro exI [of _ "[chosen]"]) auto
    next
      case (adapter e)
      show ?thesis
      proof (cases "ae_kind e = AeInvalidResponse \<or> left = 0 \<or> find (\<lambda>r. key_of r \<notin> set (failed @ [key_of chosen])) eligible = None")
        case True
        have "(\<exists>p. out = Ended p \<and> sp_actions p = [] \<and> sp_hypotheses p = []) \<and> so_sent st' = so_sent st @ sent_to [chosen] (cb_pieces ?b) \<and>
            so_read st' = so_read st \<and> so_evicted st' = so_evicted st \<and> (\<exists>evs. so_log st' = so_log st @ evs)"
          using 1(2) adapter True unfolding answer_def
          by (subst (asm) send_rounds.simps) (auto simp: None sent_to_def Let_def round_ended_def split: if_splits nat.splits option.splits)
        then show ?thesis using 1(3,4) allowed by (intro exI [of _ "[chosen]"]) auto
      next
        case False
        then obtain m where m: "left = Suc m" by (cases left) auto
        let ?failed = "failed @ [key_of chosen]"
        obtain nxt where nxt: "find (\<lambda>r. key_of r \<notin> set ?failed) eligible = Some nxt" using False by auto
        then have nxt_ok: "key_of nxt \<notin> set ?failed" "nxt \<in> set eligible" by (auto simp: find_Some_iff)
        define st2 where "st2 = st1\<lparr>so_breaker := recordFailure (sd_breaker deps) (re_clock env n) (key_of chosen) (so_breaker st1)\<rparr>"
        have go: "send_rounds m (Suc n) deps env request eligible ?failed nxt st2 = (out, st')"
          using 1(2) adapter False m nxt unfolding answer_def
          by (subst (asm) send_rounds.simps) (simp add: None Let_def st1_def st2_def)
        have "\<exists>rs. so_sent st' = so_sent st2 @ sent_to rs (cb_pieces ?b) \<and> length rs \<le> Suc m \<and>
            distinct (map key_of rs) \<and> set (map key_of rs) \<inter> set ?failed = {} \<and> set rs \<subseteq> set eligible \<and>
            (\<forall>r \<in> set rs. may_get deps (cb_pieces ?b) r) \<and>
            (\<forall>r res. out = Answered r res \<longrightarrow> r \<in> set rs \<and>
        proposeWithRepair (sd_shw deps) (be_json (sd_build deps)) (re_send env r) request (sd_rounds deps) = Inr res) \<and>
            (\<forall>p. out = Ended p \<longrightarrow> sp_actions p = [] \<and> sp_hypotheses p = []) \<and>
            so_read st' = so_read st2 \<and> so_evicted st' = so_evicted st2 \<and> (\<exists>evs. so_log st' = so_log st2 @ evs)"
          using 1(1) [OF None st1_def adapter [unfolded answer_def] refl _ st2_def refl refl m nxt go nxt_ok] False by simp
        then obtain rs where rs: "so_sent st' = so_sent st2 @ sent_to rs (cb_pieces ?b)" "length rs \<le> Suc m"
            "distinct (map key_of rs)" "set (map key_of rs) \<inter> set ?failed = {}" "set rs \<subseteq> set eligible"
            "\<forall>r \<in> set rs. may_get deps (cb_pieces ?b) r"
            "\<forall>r res. out = Answered r res \<longrightarrow> r \<in> set rs \<and>
        proposeWithRepair (sd_shw deps) (be_json (sd_build deps)) (re_send env r) request (sd_rounds deps) = Inr res"
            "\<forall>p. out = Ended p \<longrightarrow> sp_actions p = [] \<and> sp_hypotheses p = []"
            "so_read st' = so_read st2" "so_evicted st' = so_evicted st2" "\<exists>evs. so_log st' = so_log st2 @ evs"
          by blast
        have "so_sent st' = so_sent st @ sent_to (chosen # rs) (cb_pieces ?b)" using rs(1) by (simp add: st2_def st1_def sent_to_def)
        then show ?thesis using rs 1(3,4) allowed m by (intro exI [of _ "chosen # rs"]) (auto simp: st2_def st1_def)
      qed
    qed
  qed
qed

section \<open>What is let through\<close>

text \<open>A write is grounded when its path was shown in this round, asked for in an earlier one, or names a new file.\<close>

definition grounded_write :: "source_deps \<Rightarrow> round_env \<Rightarrow> context_piece list \<Rightarrow> string list \<Rightarrow> js_val \<Rightarrow> bool" where
  "grounded_write deps env pieces reads a \<longleftrightarrow>
     (\<exists>p. val_get a ''path'' = VStr p \<and>
       (Some p \<in> cp_path ` set pieces \<or> p \<in> set reads \<or> nothing_there (re_after env) (sd_worktree deps) p))"

lemma map_filter_mem: "y \<in> set (List.map_filter f xs) \<longleftrightarrow> Some y \<in> f ` set xs"
  by (induction xs) (auto simp: List.map_filter_simps split: option.splits)

lemma settle_actions_ok:
  assumes "settle_actions deps env b manifest blk answer cost st = (r, st')"
  shows "so_sent st' = so_sent st" "\<exists>evs. so_log st' = so_log st @ evs" "so_evicted st' = so_evicted st"
    "so_read st' = note_reads (filter is_record (an_actions answer)) (so_read st)"
    "r = Inr pr \<Longrightarrow> \<forall>a \<in> set (sp_actions pr). a \<in> set (an_actions answer) \<and> is_record a \<and>
      (typed ''WRITE_FILE'' a \<longrightarrow> grounded_write deps env (cb_pieces b) (so_read st) a)"
proof -
  define allowed where "allowed = List.map_filter cp_path (cb_pieces b) @ so_read st"
  define actions where "actions = filter is_record (an_actions answer)"
  note d = settle_actions_def [of deps env b manifest blk answer cost st, folded allowed_def actions_def]
  show "so_sent st' = so_sent st" "\<exists>evs. so_log st' = so_log st @ evs" "so_evicted st' = so_evicted st"
      "so_read st' = note_reads (filter is_record (an_actions answer)) (so_read st)"
    using assms unfolding actions_def [symmetric] by (auto simp: d Let_def split: if_splits)
  show "\<forall>a \<in> set (sp_actions pr). a \<in> set (an_actions answer) \<and> is_record a \<and>
      (typed ''WRITE_FILE'' a \<longrightarrow> grounded_write deps env (cb_pieces b) (so_read st) a)" if "r = Inr pr"
  proof (cases "filter (violates (re_after env) (sd_worktree deps) allowed) actions = []")
    case True
    then have sub: "set (sp_actions pr) \<subseteq> set actions"
      using assms that by (auto simp: d Let_def round_ended_def split: if_splits)
    have "grounded_write deps env (cb_pieces b) (so_read st) a" if a: "a \<in> set actions" "typed ''WRITE_FILE'' a" for a
    proof -
      have "\<not> violates (re_after env) (sd_worktree deps) allowed a" using True a(1) by (simp add: filter_empty_conv)
      then obtain p where "val_get a ''path'' = VStr p" "p \<in> set allowed \<or> \<not> worktreeEntryExists (re_after env) (sd_worktree deps) p"
        using a(2) by (auto simp: violates_def split: js_val.splits)
      then show ?thesis
        by (auto simp: grounded_write_def allowed_def new_file_iff [symmetric] map_filter_mem)
    qed
    then show ?thesis using sub by (auto simp: actions_def)
  next
    case False
    then have "sp_actions pr = []" using assms that by (auto simp: d Let_def round_ended_def)
    then show ?thesis by simp
  qed
qed

lemma settle_answer_ok:
  assumes "settle_answer deps env role b manifest blk chosen out st = (r, st')"
  shows "so_sent st' = so_sent st" "\<exists>evs. so_log st' = so_log st @ evs" "so_evicted st' = so_evicted st"
    "so_read st' \<in> {so_read st, note_reads (filter is_record (an_actions (po_response out))) (so_read st)}"
    "r = Inr pr \<Longrightarrow> sp_actions pr \<noteq> [] \<Longrightarrow> role \<noteq> Diagnostician \<and> po_valid out \<and>
      \<not> canaryTripped (be_json (sd_build deps)) (an_result (po_response out)) (an_actions (po_response out)) (cb_canary b) \<and>
      (\<forall>a \<in> set (sp_actions pr). a \<in> set (an_actions (po_response out)) \<and> is_record a \<and>
        (typed ''WRITE_FILE'' a \<longrightarrow> grounded_write deps env (cb_pieces b) (so_read st) a))"
  using assms settle_actions_ok [of deps env b manifest blk "po_response out" _ st r st']
  by (auto simp: settle_answer_def Let_def round_ended_def split: sum.splits if_splits)

lemma drained_canary:
  assumes "drain left i deps env st = (Inr built, st')"
  shows "cb_canary (with_feedback json fb (br_bundle built)) = re_canary env"
proof -
  obtain j seeds dir dir' where "buildContext (sd_build deps) (re_tree env j) (re_disk env) (round_input deps env seeds) dir = (Inr built, dir')"
    using drain_built [OF assms] by blast
  from buildContext_Inr [OF this] show ?thesis by (auto simp: with_feedback_def bundle_of_def Let_def round_input_def)
qed

definition intent_event :: "round_env \<Rightarrow> role \<Rightarrow> event_type \<times> payload" where
  "intent_event env role = (E_PROPOSAL_INTENT, [(''requestId'', VStr (re_request env)), (''role'', VStr (role_text role))])"

definition round_left :: "source_deps \<Rightarrow> round_env \<Rightarrow> role \<Rightarrow> js_val \<Rightarrow> source_state \<Rightarrow> source_state
     \<Rightarrow> registered_adapter list \<Rightarrow> context_piece list \<Rightarrow> bool" where
  "round_left deps env role fb st st' rs pieces \<longleftrightarrow>
     so_sent st' = so_sent st @ sent_to rs pieces \<and> length rs \<le> 2 \<and> distinct (map key_of rs) \<and>
     (\<forall>r \<in> set rs. may_get deps pieces r) \<and>
     (rs \<noteq> [] \<longrightarrow> re_fence env \<noteq> Some False \<and> (\<exists>hints b. set rs \<subseteq> set (fst (re_eligible env role hints b))) \<and>
       (\<forall>p \<in> set pieces. governed_in_round deps env fb p) \<and>
       (\<exists>evs. so_log st' = so_log st @ evs \<and> intent_event env role \<in> set evs))"

text \<open>An action that was let through: from a valid answer of an adapter that was asked, without the canary.\<close>

definition let_through :: "source_deps \<Rightarrow> round_env \<Rightarrow> source_state \<Rightarrow> registered_adapter list \<Rightarrow> context_piece list \<Rightarrow> js_val \<Rightarrow> bool" where
  "let_through deps env st rs pieces a \<longleftrightarrow>
     is_record a \<and>
     (\<exists>r \<in> set rs. \<exists>request out. proposeWithRepair (sd_shw deps) (be_json (sd_build deps)) (re_send env r) request (sd_rounds deps) = Inr out \<and>
        po_valid out \<and> a \<in> set (an_actions (po_response out)) \<and>
        \<not> canaryTripped (be_json (sd_build deps)) (an_result (po_response out)) (an_actions (po_response out)) (re_canary env)) \<and>
     (typed ''WRITE_FILE'' a \<longrightarrow> grounded_write deps env pieces (so_read st) a)"

lemma kept_left: "kept st st' \<Longrightarrow> round_left deps env role fb st st' [] []"
  by (auto simp: kept_def round_left_def sent_to_def)

lemma propose_with_ok:
  assumes b: "build_bundle deps env st = (Inr built, st0)" and pw: "propose_with deps env role fb built st0 = (r, st')"
  shows "\<exists>rs pieces. round_left deps env role fb st st' rs pieces \<and>
      (\<forall>pr. r = Inr pr \<longrightarrow> sp_actions pr \<noteq> [] \<longrightarrow> role \<noteq> Diagnostician \<and> (\<forall>a \<in> set (sp_actions pr). let_through deps env st rs pieces a))"
proof -
  obtain eligible brk where e: "re_eligible env role (round_hints env (br_bundle built))
      (so_breaker (log_health (re_health env) (log_build deps built st0))) = (eligible, brk)" by fastforce
  define st1 where "st1 = (log_health (re_health env) (log_build deps built st0))\<lparr>so_breaker := brk\<rparr>"
  have k1: "kept st st1"
    using kept_trans [OF kept_drain [OF b [unfolded build_bundle_def]] kept_logs, of "re_health env" deps built] by (simp add: st1_def)
  note pw' = pw [unfolded propose_with_def Let_def e, unfolded prod.case, folded st1_def]
  show ?thesis
  proof (cases "eligible = [] \<or> re_fence env = Some False")
    case True
    then have "kept st st'" "\<forall>pr. r = Inr pr \<longrightarrow> sp_actions pr = []"
      using pw' k1 by (auto simp: appendProposalIntent_def round_ended_def kept_step split: list.splits)
    then show ?thesis using kept_left by blast
  next
    case False
    then obtain chosen others where ch: "eligible = chosen # others" and fence: "re_fence env \<noteq> Some False" by (cases eligible) auto
    define shown where "shown = with_feedback (be_json (sd_build deps)) fb (br_bundle built)"
    define request where "request = round_request deps env role shown (br_manifest built)"
    define st2 where "st2 = source_event (fst (intent_event env role)) (snd (intent_event env role)) st1"
    have sq: "sq_bundle request = shown" by (simp add: request_def round_request_def)
    obtain out st3 where s: "send_rounds 1 0 deps env request eligible [] chosen st2 = (out, st3)" by fastforce
    have first: "key_of chosen \<notin> set []" "chosen \<in> set eligible" by (simp_all add: ch)
    obtain rs where rs: "so_sent st3 = so_sent st2 @ sent_to rs (cb_pieces shown)" "length rs \<le> Suc 1" "distinct (map key_of rs)"
        "\<forall>r \<in> set rs. may_get deps (cb_pieces shown) r"
        "\<forall>r res. out = Answered r res \<longrightarrow> r \<in> set rs \<and>
          proposeWithRepair (sd_shw deps) (be_json (sd_build deps)) (re_send env r) request (sd_rounds deps) = Inr res"
        "\<forall>p. out = Ended p \<longrightarrow> sp_actions p = []" "so_read st3 = so_read st2" "\<exists>evs. so_log st3 = so_log st2 @ evs" "set rs \<subseteq> set eligible"
      using send_rounds_ok [OF s first] unfolding sq by blast
    have rest: "(case out of Ended p \<Rightarrow> (Inr p, st3) | Threw e \<Rightarrow> (Inl e, st3)
        | Answered x res \<Rightarrow> settle_answer deps env role shown (br_manifest built) (br_blocked built) x res st3) = (r, st')"
      using pw' fence s
      by (simp add: ch appendProposalIntent_def shown_def request_def st2_def intent_event_def split: sent.splits)
    have tail: "so_sent st' = so_sent st3 \<and> (\<exists>evs. so_log st' = so_log st3 @ evs)"
      using rest settle_answer_ok(1,2) by (cases out) auto
    obtain evs1 where evs1: "so_log st1 = so_log st @ evs1" using k1 by (auto simp: kept_def)
    have log: "\<exists>evs. so_log st' = so_log st @ evs \<and> intent_event env role \<in> set evs"
      using tail rs(8) by (auto simp: st2_def evs1)
    have "round_left deps env role fb st st' rs (cb_pieces shown)"
    proof -
      have "\<exists>hints b. set rs \<subseteq> set (fst (re_eligible env role hints b))" using rs(9) e by (metis fst_conv)
      moreover have "so_sent st2 = so_sent st" using k1 by (simp add: st2_def kept_def)
      ultimately show ?thesis
        using rs(1-4) tail log fence bundle_governed [OF b [unfolded build_bundle_def], of fb]
        by (simp add: round_left_def shown_def)
    qed
    moreover have "role \<noteq> Diagnostician \<and> (\<forall>a \<in> set (sp_actions pr). let_through deps env st rs (cb_pieces shown) a)"
      if pr: "r = Inr pr" "sp_actions pr \<noteq> []" for pr
    proof -
      obtain x res where x: "out = Answered x res" using rest pr rs(6) by (cases out) auto
      then have sa: "settle_answer deps env role shown (br_manifest built) (br_blocked built) x res st3 = (Inr pr, st')"
        using rest pr(1) by simp
      have reads: "so_read st3 = so_read st" using rs(7) k1 by (simp add: st2_def kept_def)
      have canary: "cb_canary shown = re_canary env"
        unfolding shown_def by (rule drained_canary [OF b [unfolded build_bundle_def]])
      show ?thesis
        using settle_answer_ok(5) [OF sa refl pr(2)] rs(5) x unfolding let_through_def reads canary by blast
    qed
    ultimately show ?thesis by blast
  qed
qed

lemma propose_ok:
  assumes "propose deps env role fb st = (r, st')"
  shows "\<exists>rs pieces. round_left deps env role fb st st' rs pieces \<and>
      (\<forall>pr. r = Inr pr \<longrightarrow> sp_actions pr \<noteq> [] \<longrightarrow> role \<noteq> Diagnostician \<and> (\<forall>a \<in> set (sp_actions pr). let_through deps env st rs pieces a))"
proof -
  obtain b st0 where b: "build_bundle deps env st = (b, st0)" by fastforce
  show ?thesis
  proof (cases b)
    case (Inr built)
    then show ?thesis using assms b propose_with_ok [of deps env st built st0] by (simp add: propose_def)
  next
    case (Inl e)
    have "kept st st0" using kept_drain b by (simp add: build_bundle_def)
    then have "kept st st'" "\<forall>pr. r = Inr pr \<longrightarrow> sp_actions pr = []"
      using assms b Inl by (auto simp: propose_def round_ended_def kept_step split: build_error.splits)
    then show ?thesis using kept_left by blast
  qed
qed

text \<open>C15: Whatever becomes of a round, what left it went to at most two different adapters that the router offered,
  under their data policies, after the intent was recorded by a source that still held its lease, and every piece of
  it was governed by the context builder, apart from the feedback of the round before.\<close>

theorem what_leaves_is_governed:
  assumes "propose deps env role fb st = (r, st')"
  shows "\<exists>rs pieces. so_sent st' = so_sent st @ map (\<lambda>r. (adapter_id r, pieces)) rs \<and> length rs \<le> 2 \<and> distinct (map key_of rs) \<and>
    (\<forall>r \<in> set rs. may_get deps pieces r) \<and>
    (rs \<noteq> [] \<longrightarrow> re_fence env \<noteq> Some False \<and> (\<exists>hints b. set rs \<subseteq> set (fst (re_eligible env role hints b))) \<and>
      (\<forall>p \<in> set pieces. governed_in_round deps env fb p) \<and>
      (\<exists>evs. so_log st' = so_log st @ evs \<and> intent_event env role \<in> set evs))"
  using propose_ok [OF assms] unfolding round_left_def sent_to_def by blast

text \<open>C16: An action that a round proposes is an object of a valid answer of an adapter that was asked in this round,
  whose answer does not show the canary; no action comes from a diagnostician; and a write goes to a path that was
  in what this adapter was shown, was asked for in an earlier round, or names a new file inside the worktree.\<close>

theorem proposals_are_grounded:
  assumes "propose deps env role fb st = (Inr pr, st')" "a \<in> set (sp_actions pr)"
  shows "role \<noteq> Diagnostician \<and>
    (\<exists>rs pieces. so_sent st' = so_sent st @ map (\<lambda>r. (adapter_id r, pieces)) rs \<and> let_through deps env st rs pieces a)"
proof -
  have "sp_actions pr \<noteq> []" using assms(2) by auto
  then show ?thesis using propose_ok [OF assms(1)] assms(2) unfolding round_left_def sent_to_def by blast
qed

section \<open>What the source remembers\<close>

inductive source_reach :: "source_deps \<Rightarrow> source_state \<Rightarrow> bool" for deps where
  start: "source_reach deps \<lparr>so_read = [], so_evicted = [], so_log = evs, so_blobs = dir, so_breaker = b, so_sent = []\<rparr>"
| round: "source_reach deps st \<Longrightarrow> propose deps env role fb st = (r, st') \<Longrightarrow> source_reach deps st'"

abbreviation canonical :: "string \<Rightarrow> string option" where
  "canonical raw \<equiv> normalizeWorktreeRelativePath (VStr raw)"

lemma normalized_reads_ok:
  "distinct acc \<Longrightarrow> set acc \<inter> set evicted = {} \<Longrightarrow>
     distinct (normalized_reads evicted acc raws) \<and> set (normalized_reads evicted acc raws) \<inter> set evicted = {} \<and>
     (\<forall>n \<in> set (normalized_reads evicted acc raws). n \<in> set acc \<or> Some n \<in> canonical ` set raws)"
proof (induction evicted acc raws rule: normalized_reads.induct)
  case (2 evicted acc raw raws)
  show ?case
  proof (cases "canonical raw")
    case None
    then show ?thesis using 2(1) [OF None] 2(3,4) by auto
  next
    case (Some n)
    show ?thesis
    proof (cases "n \<in> set acc \<or> n \<in> set evicted")
      case True
      then show ?thesis using 2(2) [OF Some] 2(3,4) Some by auto
    next
      case False
      have "normalized_reads evicted acc (raw # raws) = normalized_reads evicted (acc @ [n]) raws" using Some False by simp
      then show ?thesis using 2(2) [OF Some] 2(3,4) Some False by (auto simp: image_iff)
    qed
  qed
qed simp

lemma accumulated_ok:
  "distinct (accumulated st)" "length (accumulated st) \<le> 20" "set (accumulated st) \<inter> set (so_evicted st) = {}"
  "f \<in> set (accumulated st) \<Longrightarrow> Some f \<in> canonical ` set (so_read st)"
proof -
  let ?ns = "normalized_reads (so_evicted st) [] (so_read st)"
  have ns: "distinct ?ns" "set ?ns \<inter> set (so_evicted st) = {}" "\<forall>n \<in> set ?ns. Some n \<in> canonical ` set (so_read st)"
    using normalized_reads_ok [of "[]" "so_evicted st" "so_read st"] by auto
  have sub: "set (accumulated st) \<subseteq> set ?ns" by (auto simp: accumulated_def accumulatedSeedPaths_def Let_def dest: in_set_dropD)
  show "distinct (accumulated st)" "length (accumulated st) \<le> 20"
    using ns(1) by (auto simp: accumulated_def accumulatedSeedPaths_def Let_def MAX_ACCUMULATED_PATHS_def)
  show "set (accumulated st) \<inter> set (so_evicted st) = {}" "f \<in> set (accumulated st) \<Longrightarrow> Some f \<in> canonical ` set (so_read st)"
    using sub ns by blast+
qed

definition source_inv :: "source_deps \<Rightarrow> source_state \<Rightarrow> bool" where
  "source_inv deps st \<longleftrightarrow>
     distinct (so_read st) \<and> distinct (so_evicted st) \<and>
     (\<forall>f \<in> set (so_evicted st). f \<notin> set (sd_seeds deps) \<and> Some f \<in> canonical ` set (so_read st))"

lemma drain_inv:
  "drain left i deps env st = (r, st') \<Longrightarrow> source_inv deps st \<Longrightarrow> source_inv deps st'"
proof (induction left i deps env st arbitrary: r st' rule: drain.induct)
  case (1 left i deps env st)
  obtain b st1 where b: "buildOnce deps env i st = (b, st1)" by (cases "buildOnce deps env i st")
  have inv: "source_inv deps st1" using b 1(3) by (auto simp: buildOnce_def source_inv_def split: prod.splits)
  show ?case
  proof (cases "\<exists>f kind n. b = Inl (SecretInContext f kind) \<and> f \<in> set (accumulated st1) \<and> f \<notin> set (sd_seeds deps) \<and> left = Suc n")
    case True
    then obtain f kind n where t: "b = Inl (SecretInContext f kind)" "f \<in> set (accumulated st1)" "f \<notin> set (sd_seeds deps)" "left = Suc n"
      by blast
    have go: "drain n (Suc i) deps env (evict f kind st1) = (r, st')" using 1(2) t by (subst (asm) drain.simps) (simp add: b)
    have "f \<notin> set (so_evicted st1)" "Some f \<in> canonical ` set (so_read st1)"
      using accumulated_ok(3,4) [where st = st1] t(2) by auto
    then have "source_inv deps (evict f kind st1)" using inv t(3) by (auto simp: source_inv_def evict_def)
    then show ?thesis using 1(1) [OF b [symmetric] t(1) refl _ t(4) go] t(2,3) by simp
  next
    case False
    then have "st' = st1" using 1(2)
      by (subst (asm) drain.simps) (auto simp: b split: sum.splits build_error.splits if_splits nat.splits)
    then show ?thesis using inv by simp
  qed
qed

lemma note_reads_ok: "set reads \<subseteq> set (note_reads actions reads) \<and> (distinct reads \<longrightarrow> distinct (note_reads actions reads))"
proof -
  let ?note = "\<lambda>a reads. case val_get a ''path'' of VStr p \<Rightarrow> if typed ''READ_FILE'' a then set_add p reads else reads | _ \<Rightarrow> reads"
  have "set reads \<subseteq> set (?note a reads) \<and> (distinct reads \<longrightarrow> distinct (?note a reads))" for a reads
    by (cases "val_get a ''path''") (auto simp: set_add_def)
  then show ?thesis unfolding note_reads_def by (induction actions arbitrary: reads) (simp, metis (no_types, lifting) fold_simps(2) subset_trans)
qed

lemma fold_evicted: "(\<And>x s. so_evicted (f x s) = so_evicted s) \<Longrightarrow> so_evicted (fold f xs st) = so_evicted st"
  by (induction xs arbitrary: st) simp_all

lemma logs_evicted: "so_evicted (log_health hs (log_build deps b st)) = so_evicted st"
  by (simp add: log_health_def log_build_def Let_def fold_evicted case_prod_unfold)

lemma propose_reads:
  assumes "propose deps env role fb st = (r, st')"
  shows "\<exists>b st0 actions. build_bundle deps env st = (b, st0) \<and> so_evicted st' = so_evicted st0 \<and>
      so_read st' \<in> {so_read st0, note_reads actions (so_read st0)}"
proof -
  obtain b st0 where b: "build_bundle deps env st = (b, st0)" by fastforce
  have "so_evicted st' = so_evicted st0 \<and> (\<exists>actions. so_read st' \<in> {so_read st0, note_reads actions (so_read st0)})"
  proof (cases b)
    case (Inl e)
    then show ?thesis using assms b by (cases e) (auto simp: propose_def)
  next
    case (Inr built)
    obtain eligible brk where e: "re_eligible env role (round_hints env (br_bundle built))
        (so_breaker (log_health (re_health env) (log_build deps built st0))) = (eligible, brk)" by fastforce
    define st1 where "st1 = (log_health (re_health env) (log_build deps built st0))\<lparr>so_breaker := brk\<rparr>"
    have st1_read: "so_read st1 = so_read st0" and st1_evicted: "so_evicted st1 = so_evicted st0"
      using kept_logs [of st0 "re_health env" deps built] logs_evicted by (simp_all add: st1_def kept_def)
    have pw: "propose_with deps env role fb built st0 = (r, st')" using assms b Inr by (simp add: propose_def)
    note pw' = pw [unfolded propose_with_def Let_def e, unfolded prod.case, folded st1_def]
    show ?thesis
    proof (cases "eligible = [] \<or> re_fence env = Some False")
      case True
      then show ?thesis using pw' st1_read st1_evicted by (auto simp: appendProposalIntent_def split: list.splits)
    next
      case False
      then obtain chosen others where ch: "eligible = chosen # others" and fence: "re_fence env \<noteq> Some False" by (cases eligible) auto
      define request where
        "request = round_request deps env role (with_feedback (be_json (sd_build deps)) fb (br_bundle built)) (br_manifest built)"
      define st2 where "st2 = source_event (fst (intent_event env role)) (snd (intent_event env role)) st1"
      obtain out st3 where s: "send_rounds 1 0 deps env request eligible [] chosen st2 = (out, st3)" by fastforce
      have first: "key_of chosen \<notin> set []" "chosen \<in> set eligible" by (simp_all add: ch)
      have st3_read: "so_read st3 = so_read st0" and st3_evicted: "so_evicted st3 = so_evicted st0"
        using send_rounds_ok [OF s first] st1_read st1_evicted by (auto simp: st2_def)
      have rest: "(case out of Ended p \<Rightarrow> (Inr p, st3) | Threw e \<Rightarrow> (Inl e, st3)
          | Answered x res \<Rightarrow> settle_answer deps env role (with_feedback (be_json (sd_build deps)) fb (br_bundle built)) (br_manifest built)
              (br_blocked built) x res st3) = (r, st')"
        using pw' fence s
        by (simp add: ch appendProposalIntent_def request_def st2_def intent_event_def split: sent.splits)
      show ?thesis
      proof (cases out)
        case (Answered x res)
        then show ?thesis using rest settle_answer_ok(3,4) [of deps env role _ _ _ x res st3 r st'] st3_read st3_evicted by auto
      qed (use rest st3_read st3_evicted in auto)
    qed
  qed
  then show ?thesis using b by blast
qed

text \<open>C38: Over any rounds, a path the source stopped showing because it holds a secret was asked for by a read and is no
  seed, it keeps its right to be written, and it is never seeded again; at most twenty requested paths are seeded, each
  once.\<close>

theorem source_memory_is_consistent:
  assumes "source_reach deps st"
  shows "source_inv deps st \<and> distinct (accumulated st) \<and> length (accumulated st) \<le> 20 \<and>
    set (accumulated st) \<inter> set (so_evicted st) = {}"
proof -
  have "source_inv deps st" using assms
  proof induction
    case start
    then show ?case by (simp add: source_inv_def)
  next
    case (round st env role fb r st')
    obtain b st0 actions where p: "build_bundle deps env st = (b, st0)" "so_evicted st' = so_evicted st0"
        "so_read st' \<in> {so_read st0, note_reads actions (so_read st0)}"
      using propose_reads [OF round.hyps(2)] by blast
    have inv: "source_inv deps st0" using drain_inv p(1) round.IH by (auto simp: build_bundle_def)
    have "set (so_read st0) \<subseteq> set (so_read st')" "distinct (so_read st')"
      using p(3) inv note_reads_ok [of "so_read st0" actions] by (auto simp: source_inv_def)
    then show ?case using inv p(2) unfolding source_inv_def by (metis image_mono subsetD)
  qed
  then show ?thesis using accumulated_ok(1-3) [where st = st] by blast
qed

text \<open>The feedback of the round before is added without a scan, and the statistics do not count it.\<close>

lemma feedback_is_not_scanned:
  "fb \<noteq> VNull \<Longrightarrow> feedback_piece json fb \<in> set (cb_pieces (with_feedback json fb b)) \<and>
     cp_content (feedback_piece json fb) = json fb \<and> cb_bytes (with_feedback json fb b) = cb_bytes b"
  by (simp add: with_feedback_def feedback_piece_def)

section \<open>A concrete round\<close>

definition demo_source :: source_deps where
  "demo_source =
     \<lparr>sd_task = ''t'', sd_worktree = ''/w'', sd_objective = ''do'', sd_seeds = [''a.ts''], sd_schema = VObj [], sd_rounds = 1,
      sd_exclude = (\<lambda>_. False), sd_lessons = [], sd_plan = None, sd_policy = (\<lambda>_. None), sd_build = demo_build,
      sd_shw = (\<lambda>_. []), sd_breaker = DEFAULT_BREAKER_OPTIONS\<rparr>"

definition demo_write :: js_val where
  "demo_write = VObj [(''type'', VStr ''WRITE_FILE''), (''path'', VStr ''a.ts'')]"

definition demo_answer :: wire_answer where
  "demo_answer =
     \<lparr>an_result = VObj [(''claim'', VStr ''READY_FOR_VERIFICATION'')], an_actions = [demo_write],
      an_usage = VObj [(''costUnits'', vint 1)], an_adapter = ''d''\<rparr>"

definition demo_round :: round_env where
  "demo_round =
     \<lparr>re_canary = ''c'', re_tree = (\<lambda>_. demo_tree), re_disk = DiskOk, re_health = [], re_hints = None,
      re_eligible = (\<lambda>_ _ b. ([toy_adapter], b)), re_request = ''q'', re_fence = Some True, re_budget = vint 5,
      re_send = (\<lambda>_ _ _. Inr demo_answer), re_clock = (\<lambda>_. (0, 0)), re_after = demo_tree\<rparr>"

definition demo_start :: source_state where
  "demo_start = \<lparr>so_read = [], so_evicted = [], so_log = [], so_blobs = Map.empty, so_breaker = createBreaker, so_sent = []\<rparr>"

lemma demo_bundle: "\<exists>built st0. build_bundle demo_source demo_round demo_start = (Inr built, st0) \<and> Some ''a.ts'' \<in> cp_path ` set (cb_pieces (br_bundle built))"
proof -
  have "case build_bundle demo_source demo_round demo_start of
      (Inr built, st0) \<Rightarrow> map cp_path (cb_pieces (br_bundle built)) = [Some ''a.ts''] | _ \<Rightarrow> False"
    by code_simp
  then obtain built st0 where "build_bundle demo_source demo_round demo_start = (Inr built, st0)"
      "map cp_path (cb_pieces (br_bundle built)) = [Some ''a.ts'']"
    by (auto split: prod.splits sum.splits)
  then show ?thesis by (metis image_set list.set_intros(1))
qed

lemma demo_repaired:
  "proposeWithRepair (\<lambda>_. []) json (\<lambda>_ (_ :: source_request). Inr demo_answer) (round_request demo_source env role b m) 1 =
     Inr \<lparr>po_response = demo_answer, po_rounds = 0, po_errors = [], po_total = js_int 1\<rparr>"
  by (simp add: proposeWithRepair_def demo_answer_def usageOf_def fields_get_def chargeUsage_def addCostUnits_def js_simps
      repair_rounds.simps round_request_def demo_source_def validateAgainstSchema.simps allowed_types_def Let_def)

lemma demo_sent:
  "\<exists>st'. send_rounds 1 0 demo_source demo_round (round_request demo_source demo_round Implementer b m) [toy_adapter] [] toy_adapter st =
       (Answered toy_adapter \<lparr>po_response = demo_answer, po_rounds = 0, po_errors = [], po_total = js_int 1\<rparr>, st') \<and> so_sent st' \<noteq> []"
proof -
  have "proposeWithRepair (sd_shw demo_source) (be_json (sd_build demo_source)) (re_send demo_round toy_adapter)
      (round_request demo_source demo_round Implementer b m) (sd_rounds demo_source) =
      Inr \<lparr>po_response = demo_answer, po_rounds = 0, po_errors = [], po_total = js_int 1\<rparr>"
    using demo_repaired [of "be_json (sd_build demo_source)" demo_round Implementer b m] by (simp add: demo_source_def demo_round_def)
  moreover have "policy_violation demo_source toy_adapter x = None" for x by (simp add: policy_violation_def demo_source_def)
  ultimately show ?thesis by (subst send_rounds.simps) (simp add: Let_def)
qed

lemma demo_settles:
  assumes "''a.ts'' \<in> set (List.map_filter cp_path (cb_pieces b))" "cb_canary b = ''c''"
  shows "\<exists>pr st'. settle_answer demo_source demo_round Implementer b m blk toy_adapter
      \<lparr>po_response = demo_answer, po_rounds = 0, po_errors = [], po_total = js_int 1\<rparr> st = (Inr pr, st') \<and>
      sp_actions pr = [demo_write] \<and> so_sent st' = so_sent st"
proof -
  have v: "\<not> violates tr w (List.map_filter cp_path (cb_pieces b) @ reads) demo_write" for tr w reads
    using assms(1) by (simp add: violates_def demo_write_def fields_get_def)
  have c: "\<not> canaryTripped (be_json (sd_build demo_source)) (an_result demo_answer) (an_actions demo_answer) (cb_canary b)"
    unfolding assms(2) by code_simp
  have an: "an_actions demo_answer = [demo_write]" "is_record demo_write" "an_result demo_answer \<noteq> VNull \<and> an_result demo_answer \<noteq> VUndef"
    by (simp_all add: demo_answer_def demo_write_def)
  show ?thesis using c v by (simp add: settle_answer_def settle_actions_def an po_valid_def Let_def)
qed

lemma demo_proposes:
  "\<exists>pr st'. propose demo_source demo_round Implementer VNull demo_start = (Inr pr, st') \<and> sp_actions pr = [demo_write] \<and> so_sent st' \<noteq> []"
proof -
  obtain built st0 where b: "build_bundle demo_source demo_round demo_start = (Inr built, st0)"
      "Some ''a.ts'' \<in> cp_path ` set (cb_pieces (br_bundle built))"
    using demo_bundle by blast
  have canary: "cb_canary (br_bundle built) = ''c''"
    using drained_canary [OF b(1) [unfolded build_bundle_def], of _ VNull] by (simp add: with_feedback_def demo_round_def)
  have a: "''a.ts'' \<in> set (List.map_filter cp_path (cb_pieces (br_bundle built)))" using b(2) by (simp add: map_filter_mem)
  let ?st1 = "log_health (re_health demo_round) (log_build demo_source built st0)"
  let ?st2 = "source_event E_PROPOSAL_INTENT [(''requestId'', VStr (re_request demo_round)), (''role'', VStr (role_text Implementer))] ?st1"
  obtain st3 where s: "send_rounds 1 0 demo_source demo_round (round_request demo_source demo_round Implementer (br_bundle built) (br_manifest built))
      [toy_adapter] [] toy_adapter ?st2 =
      (Answered toy_adapter \<lparr>po_response = demo_answer, po_rounds = 0, po_errors = [], po_total = js_int 1\<rparr>, st3)" "so_sent st3 \<noteq> []"
    using demo_sent by blast
  have fields: "re_eligible demo_round r h brk = ([toy_adapter], brk)" "re_fence demo_round = Some True" for r h brk
    by (simp_all add: demo_round_def)
  have "propose demo_source demo_round Implementer VNull demo_start =
      settle_answer demo_source demo_round Implementer (br_bundle built) (br_manifest built) (br_blocked built) toy_adapter
        \<lparr>po_response = demo_answer, po_rounds = 0, po_errors = [], po_total = js_int 1\<rparr> st3"
    using s(1) by (simp add: propose_def b(1) propose_with_def Let_def fields appendProposalIntent_def with_feedback_def)
  then show ?thesis using demo_settles [OF a canary, of "br_manifest built" "br_blocked built" st3] s(2) by auto
qed

theorem proposals_are_grounded_witness:
  "\<exists>pr st' rs pieces. propose demo_source demo_round Implementer VNull demo_start = (Inr pr, st') \<and>
     let_through demo_source demo_round demo_start rs pieces demo_write"
proof -
  obtain pr st' where p: "propose demo_source demo_round Implementer VNull demo_start = (Inr pr, st')" "sp_actions pr = [demo_write]"
    using demo_proposes by blast
  have "demo_write \<in> set (sp_actions pr)" by (simp add: p(2))
  then show ?thesis using proposals_are_grounded [OF p(1)] p(1) by blast
qed

theorem what_leaves_is_governed_witness:
  "\<exists>r st' pieces. propose demo_source demo_round Implementer VNull demo_start = (r, st') \<and> so_sent st' \<noteq> [] \<and>
     (\<forall>p \<in> set pieces. governed_in_round demo_source demo_round VNull p) \<and> snd (last (so_sent st')) = pieces"
proof -
  obtain pr st' where p: "propose demo_source demo_round Implementer VNull demo_start = (Inr pr, st')" "so_sent st' \<noteq> []"
    using demo_proposes by blast
  obtain rs pieces where rs: "so_sent st' = map (\<lambda>r. (adapter_id r, pieces)) rs" "rs \<noteq> [] \<longrightarrow> (\<forall>p \<in> set pieces. governed_in_round demo_source demo_round VNull p)"
    using what_leaves_is_governed [OF p(1)] by (auto simp: demo_start_def)
  then have "snd (last (so_sent st')) = pieces" "rs \<noteq> []" using p(2) by (auto simp: last_map)
  then show ?thesis using p rs(2) by blast
qed

theorem source_memory_is_consistent_witness:
  "\<exists>st. source_reach demo_source st \<and> so_sent st \<noteq> [] \<and> source_inv demo_source st \<and> length (accumulated st) \<le> 20"
proof -
  obtain pr st where p: "propose demo_source demo_round Implementer VNull demo_start = (Inr pr, st)" "so_sent st \<noteq> []"
    using demo_proposes by blast
  have "source_reach demo_source demo_start" unfolding demo_start_def by (rule source_reach.start)
  then have "source_reach demo_source st" using p(1) by (rule source_reach.round)
  then show ?thesis using source_memory_is_consistent p(2) by blast
qed

end
