(* ===== verification/Spec2Isabelle.thy ===== *)
theory Spec2Isabelle
  imports TaskMachine EventLog Lease Budget Contract TaskGraph Hypothesis TaskLoop MergeSafety PrGate
    OutcomeRouting RoutingConfig Dispatch Deploy ExecGuarantees Governance
    Authenticator FusionRun ReportIntegrity HumanPlane Lessons SourceGuarantees
begin

text \<open>
  A verification development for the spec-driven development platform: agents propose, a deterministic
  core decides. The program is written in TypeScript (\<open>src/core\<close>, \<open>src/aal\<close>, \<open>src/console\<close>,
  \<open>src/adapters\<close>). The model follows its sources file by file; paths below are relative to \<open>src/\<close>.

  \<^bold>\<open>The program.\<close> A goal contract is frozen and split into a frozen task graph. Each task runs a loop that
  holds a lease with a fencing token, asks an agent for a proposal, executes the proposed actions through
  the executor, runs the gates, and repairs failures by probing hypotheses, until its gates pass or its
  budget is exhausted. A reviewed task is merged by policy or by approval, directly or through a merge
  queue, and may be deployed behind a canary. A pull-request gate reviews foreign changes by deterministic
  checks and a panel of reviewers. The agent layer keeps a registry of adapters, routes by outcome, breaks
  circuits and bounds what is in flight. Everything that happens is an event of an append-only log.

  \<^bold>\<open>Theories and sources.\<close>

  \<^item> \<open>Prelude\<close>, \<open>CoreTypes\<close>: JavaScript values and numbers; \<open>core/src/types.ts\<close>.
  \<^item> \<open>Machines\<close>: locales for state machines and step counters, interpreted on the machines below.
  \<^item> \<open>TaskMachine\<close>: \<open>core/src/orchestrator/machine.ts\<close>, the states of a task and \<open>transition\<close>.
  \<^item> \<open>EventLog\<close>, \<open>Lease\<close>: \<open>core/src/state/\<close>, the SQLite tables as one value of type \<open>db\<close>, appends, fenced
    appends, claims, renewals, sessions.
  \<^item> \<open>Budget\<close>, \<open>Contract\<close>, \<open>TaskGraph\<close>: \<open>core/src/budget/budget.ts\<close>, \<open>contract/contract.ts\<close>,
    \<open>graph/graph.ts\<close> and \<open>graph/select.ts\<close>.
  \<^item> \<open>Effects\<close>: the state-and-exception computations of the effectful parts, with a history of the calls
    they make; \<open>Hypothesis\<close> (\<open>core/src/repair/hypothesis.ts\<close>) and \<open>TaskLoop\<close>
    (\<open>core/src/orchestrator/loop.ts\<close>) are written in them.
  \<^item> \<open>PathPolicy\<close>: \<open>core/src/executor/path-policy.ts\<close> and the containment checks of \<open>executor.ts\<close>.
  \<^item> \<open>Executor\<close>: \<open>core/src/executor/executor.ts\<close>, validation, gates, the intent protocol and recovery;
    \<open>ExecProtocol\<close>, \<open>ExecSafety\<close> and \<open>ExecGuarantees\<close> prove what its log shows.
  \<^item> \<open>ArtifactBinding\<close>, \<open>MergeQueue\<close>, \<open>AutoMerge\<close>: \<open>core/src/merge/\<close>; \<open>MergeSafety\<close> proves what a merge
    has done to the main branch.
  \<^item> \<open>Deploy\<close>: \<open>core/src/deploy/stage.ts\<close>.
  \<^item> \<open>PrPolicy\<close>, \<open>PrReview\<close>, \<open>PrGate\<close>: \<open>core/src/pr-gate/kernel.ts\<close>, \<open>types.ts\<close> and \<open>checks.ts\<close>.
  \<^item> \<open>Rounding\<close>, \<open>Breaker\<close>, \<open>AgentRegistry\<close>, \<open>OutcomeRouting\<close>, \<open>RoutingConfig\<close>, \<open>Dispatch\<close>: products and
    quotients of doubles, and \<open>aal/src/breaker.ts\<close>, \<open>eligibility.ts\<close>, \<open>registry.ts\<close>, \<open>router.ts\<close>,
    \<open>shadow.ts\<close>, \<open>routing-config.ts\<close>, \<open>ratelimit.ts\<close> and \<open>dispatch.ts\<close>.
  \<^item> \<open>Governance\<close>: \<open>core/src/governance/policy.ts\<close>, the policy snapshot, the governance log and its operations.
  \<^item> \<open>Evidence\<close>, \<open>EvidenceAuth\<close>, \<open>Authenticator\<close>: \<open>core/src/evidence/store.ts\<close> over a directory of files, and
    \<open>core/src/evidence/auth.ts\<close>, the canonical encoding that is signed and the keys of a run;
    \<open>ReportIntegrity\<close>: \<open>core/src/gates/report-integrity.ts\<close>, the gate reports that are signed with them.
  \<^item> \<open>HumanPlane\<close>: \<open>core/src/human/approval.ts\<close>, \<open>human/api.ts\<close> and \<open>orchestrator/control.ts\<close>, what a human
    asks for and what the loop's controller does with it.
  \<^item> \<open>TextScan\<close>, \<open>ContextBuilder\<close>: \<open>core/src/context/\<close>, the secret scanner, the reducers and the builder of what a
    model is shown, with \<open>core/src/security/data-policy.ts\<close> and \<open>canary.ts\<close>; \<open>ProposalSource\<close>: a round of
    \<open>aal/src/source.ts\<close>, which builds the context, asks an adapter and reads the answer; \<open>SourceGuarantees\<close> proves
    what leaves and what is let through.
  \<^item> \<open>Lessons\<close>: \<open>core/src/lessons/lessons.ts\<close>; \<open>Json\<close> holds what it and the reports share about objects.
  \<^item> \<open>Fusion\<close>, \<open>FusionRun\<close>: \<open>aal/src/fusion/\<close>, profiles, resolve rules and pipeline, and the bounded
    repair loop of \<open>aal/src/repair.ts\<close>.

  \<^bold>\<open>State and operations.\<close> An object of the code is a record, a union a datatype with the source's
  alternatives, a \<open>throw\<close> or an early return a branch of a sum type. An operation carries the name of the
  function it models. Awaited calls of one handler are sequential; where calls interleave (the workers of
  a dispatch, the executions, recoveries and crashes of a task's history) the model is an inductive step
  relation, and the properties hold in every reachable state.

  \<^bold>\<open>What is shown.\<close>

  \<^item> Executor: over every history at most one mutating intent is open, every intent is closed once and no
    action is in force twice; a coherent recovery closes what a crash left open; the answer is what was
    logged. The proof runs the log through an automaton (\<open>pstep\<close>), each of whose states is related to the
    log by \<open>tracked\<close>; every operation is shown to take an accepted log to an accepted log.
  \<^item> Leases and log: one owner per fencing generation, old owners are locked out, the log only grows.
  \<^item> Task loop: it ends within its iteration cap, every effect follows an ownership check (the commands of one
    diagnosis follow one check), and it reports review only after T0 and T1 passed on one worktree.
  \<^item> Merging and deploying: the main branch moves only to a merge of the signed base with the gated commit,
    by compare-and-swap, after the signer verified the report and git its base, commit and tree: the history of the
    calls (\<open>CGit\<close>, \<open>CVerify\<close>, \<open>CSign\<close>) is what ties the report to what was merged. A deploy follows an abstract story (\<open>deploy_story\<close>) command for command.
  \<^item> Planning: exact detection of dependency cycles, and a selection that is safe and does not stop early.
  \<^item> Pull requests and routing: policies only tighten, decisions are exactly the policy, untrusted results
    are validated, one probe per half-open breaker, bounded dispatch, reordering against a reference.
  \<^item> Governance and evidence: a run starts only under an approved policy, every human approval repeats a
    recorded proposal, stored content comes back byte for byte, the signed form is the meaning of a value
    apart from fields named \<open>__proto__\<close>, a recovered run signs with its frozen keys or not at all, and a report that verifies says what was signed.
  \<^item> Humans and lessons: a request acts only as far as it is justified, in a log to which its callbacks append too,
    an approval is decided with success once, a kill is final, and every lesson that is loaded was approved by a human.
  \<^item> Context: what a model is shown comes from inside the worktree and is clean of secrets before it is reduced;
    it leaves for at most two adapters, under their data policies, and a proposed write goes to a path that was shown,
    asked for, or new.
  \<^item> Fusion: what wins was answered by a panelist and passed its gate, a judge that bears no load cannot
    change the winner, and the repair loop asks again only after an invalid answer, is bounded and charges every answer.

  \<^bold>\<open>Bounds and fuel.\<close> \<open>loop_rounds\<close> carries fuel; \<open>task_loop_ends\<close> shows that one round more than the
  iteration cap is enough. Every other recursion is structural or has a measure. Numbers are doubles: a
  finite one is the rational it denotes, sums are rounded, and \<open>NaN\<close> and the infinities take part.

  \<^bold>\<open>Parameters.\<close> What the sources only call is an argument of the definitions that use it: git, SHA-256,
  Ed25519, the JSON parser, \<open>localeCompare\<close>, the clock, \<open>realpath\<close>, child
  processes, agents and adapters, the tree snapshots and hashes of the executor, its mutation boundary and
  patch tool. No hypothesis is made about them unless a theorem states it.

  \<^bold>\<open>Not modelled.\<close> Frozen trees, snapshots, the descriptor-safe mutation boundary, the command sandbox and
  the gate runner are file-system and process effects. The fixed bootstrap document of governance, the redaction
  patterns and the socket of the human plane, calibration, audit, prompts and the parsing
  of vendor answers are left out. The console's backend and web interface, the vendor adapters, scripts, tests and
  documents are outside the core.
\<close>

end
